(* ===== verification/Kernel_Prelude.thy ===== *)
theory Kernel_Prelude
  imports Main "HOL-Library.Word"
begin

unbundle bit_operations_syntax

text \<open>
  Shared vocabulary of the dmos development: the machine types of
  src/src/comm/types.h, the faults a C operation can run into, the two result
  types of the model and the generic lemmas the components use.

  \<^item> Code that runs to completion but may dereference a null pointer or leave an
    array returns \<open>'a res\<close>: \<open>Inr\<close> the result or \<open>Inl\<close> the fault.
  \<^item> Kernel code that may give up the processor returns an \<open>outcome\<close>: it is
    \<open>Done\<close> with a value and a state, it faults, or it performs a context switch.
    \<open>Switch s k\<close> carries the state at the switch and the rest \<open>k\<close> of the
    operation, which runs when the task is dispatched again, in whatever state the
    other tasks have left.  \<open>kbind\<close> is sequential composition.
\<close>

type_synonym u8 = "8 word"
type_synonym u16 = "16 word"
type_synonym u32 = "32 word"

named_theorems klist_simps \<open>the list operations on a represented list\<close>
named_theorems sched_simps \<open>selectors and frames of the scheduler's operations\<close>

subsection \<open>Faults, fallible results\<close>

datatype fault =
    NullDeref      \<comment> \<open>a null or dangling pointer is dereferenced\<close>
  | OutOfBounds    \<comment> \<open>an array is read or written outside its bounds\<close>
  | Halted         \<comment> \<open>an endless halt loop was entered\<close>
  | NoReturnValue  \<comment> \<open>a non-void function falls off its end\<close>
  | Diverges       \<comment> \<open>a loop never ends\<close>
  | Uninitialised  \<comment> \<open>the value of an uninitialised variable is used\<close>
  | PageFault      \<comment> \<open>an address without a page is accessed\<close>

type_synonym 'a res = "fault + 'a"

definition res_bind :: "'a res \<Rightarrow> ('a \<Rightarrow> 'b res) \<Rightarrow> 'b res" where
  "res_bind r f = (case r of Inl e \<Rightarrow> Inl e | Inr x \<Rightarrow> f x)"

lemma res_bind_simps [simp]:
  "res_bind (Inl e) f = Inl e"
  "res_bind (Inr x) f = f x"
  by (simp_all add: res_bind_def)

lemma res_bind_eq_Inr:
  "res_bind r f = Inr y \<longleftrightarrow> (\<exists>x. r = Inr x \<and> f x = Inr y)"
  by (cases r) auto

subsection \<open>Operations that may switch the task\<close>

datatype ('s, 'a) outcome =
    Done 'a 's
  | Fault fault
  | Switch 's "'s \<Rightarrow> ('s, 'a) outcome"

primrec kbind :: "('s, 'a) outcome \<Rightarrow> ('a \<Rightarrow> 's \<Rightarrow> ('s, 'b) outcome) \<Rightarrow> ('s, 'b) outcome" where
  "kbind (Done x s) f = f x s"
| "kbind (Fault e) f = Fault e"
| "kbind (Switch s k) f = Switch s (\<lambda>s'. kbind (k s') f)"

definition klift :: "'s \<Rightarrow> 'a res \<Rightarrow> ('s, 'a) outcome" where
  "klift s r = (case r of Inl e \<Rightarrow> Fault e | Inr x \<Rightarrow> Done x s)"

lemma klift_simps [simp]:
  "klift s (Inl e) = Fault e"
  "klift s (Inr x) = Done x s"
  by (simp_all add: klift_def)

definition kstep :: "'s res \<Rightarrow> ('s, unit) outcome" where
  "kstep r = (case r of Inl e \<Rightarrow> Fault e | Inr s \<Rightarrow> Done () s)"

lemma kstep_simps [simp]:
  "kstep (Inl e) = Fault e"
  "kstep (Inr s) = Done () s"
  by (simp_all add: kstep_def)

lemma kbind_Done_right [simp]: "kbind m Done = m"
  by (induction m) (auto simp: fun_eq_iff)

lemma kbind_assoc: "kbind (kbind m f) g = kbind m (\<lambda>x s. kbind (f x s) g)"
  by (induction m) (auto simp: fun_eq_iff)

text \<open>
  \<open>kall P m\<close>: \<open>m\<close> never faults, and \<open>P\<close> holds of the state at the switch, if the
  operation switches, or at its end otherwise: the state the next task runs in.
\<close>

fun kall :: "('s \<Rightarrow> bool) \<Rightarrow> ('s, 'a) outcome \<Rightarrow> bool" where
  "kall P (Done x s) = P s"
| "kall P (Fault e) = False"
| "kall P (Switch s k) = P s"

fun kstate :: "('s, 'a) outcome \<Rightarrow> 's option" where
  "kstate (Done x s) = Some s"
| "kstate (Fault e) = None"
| "kstate (Switch s k) = Some s"

lemma kall_iff: "kall P m \<longleftrightarrow> (\<exists>s. kstate m = Some s \<and> P s)"
  by (cases m) auto

lemma kall_mono: "kall P m \<Longrightarrow> (\<And>s. P s \<Longrightarrow> Q s) \<Longrightarrow> kall Q m"
  by (cases m) auto

subsection \<open>Variadic arguments\<close>

text \<open>An argument of the variadic \<open>klog\<close> and \<open>k_vsprint\<close>.\<close>

datatype va_arg = VInt int | VStr string

subsection \<open>Lists seen through optional end points\<close>

definition hd_opt :: "'a list \<Rightarrow> 'a option" where
  "hd_opt xs = (case xs of [] \<Rightarrow> None | x # _ \<Rightarrow> Some x)"

definition last_opt :: "'a list \<Rightarrow> 'a option" where
  "last_opt xs = (if xs = [] then None else Some (last xs))"

lemma hd_opt_simps [simp]:
  "hd_opt [] = None"
  "hd_opt (x # xs) = Some x"
  by (simp_all add: hd_opt_def)

lemma last_opt_simps [simp]:
  "last_opt [] = None"
  "last_opt (xs @ [x]) = Some x"
  "last_opt (x # xs) = Some (if xs = [] then x else last xs)"
  by (simp_all add: last_opt_def)

lemma hd_opt_append: "hd_opt (xs @ ys) = (if xs = [] then hd_opt ys else hd_opt xs)"
  by (cases xs) auto

lemma last_opt_append: "last_opt (xs @ ys) = (if ys = [] then last_opt xs else last_opt ys)"
  by (auto simp: last_opt_def)

lemma hd_opt_eq_None [simp]: "hd_opt xs = None \<longleftrightarrow> xs = []"
  by (cases xs) auto

lemma last_opt_eq_None [simp]: "last_opt xs = None \<longleftrightarrow> xs = []"
  by (auto simp: last_opt_def)

lemma hd_opt_SomeD: "hd_opt xs = Some x \<Longrightarrow> x \<in> set xs"
  by (cases xs) auto

lemma last_opt_SomeD: "last_opt xs = Some x \<Longrightarrow> x \<in> set xs"
  by (auto simp: last_opt_def split: if_splits)

subsection \<open>Masks\<close>

lemma and_mask_numerals:
  "w AND (0xff :: u32) = take_bit 8 w"
  "w AND (0x3ff :: u32) = take_bit 10 w"
  "w AND (0xfff :: u32) = take_bit 12 w"
  "w AND (0xffff :: u32) = take_bit 16 w"
  by (simp_all add: take_bit_eq_mask mask_eq_exp_minus_1)

end
