(* ===== verification/Intrusive_List.thy ===== *)
theory Intrusive_List
  imports Kernel_Prelude
begin

text \<open>
  The intrusive doubly linked list of src/src/kernel/lib/list.c and
  src/src/kernel/include/list.h.  A \<open>list_node_t\<close> is embedded in the object it links,
  so the nodes live in a store from node addresses to nodes; \<open>NULL\<close> is \<open>None\<close>.
  Every operation takes the store and the list header and returns both, or the fault
  of a null dereference.  \<open>dll h l xs\<close> says that the header \<open>l\<close> and the store \<open>h\<close>
  represent the sequence \<open>xs\<close>; the lemmas show that each operation is the expected
  operation on that sequence and touches no other node.

  The locale \<open>node_queue\<close> is the interface the scheduler and the synchronisation
  primitives rely on; it is interpreted on the operations of list.c at the end.
\<close>

record 'n list_node_t =
  ln_pre :: "'n option"
  ln_next :: "'n option"

record 'n list_t =
  lt_first :: "'n option"
  lt_last :: "'n option"
  lt_count :: int

type_synonym 'n store = "'n \<Rightarrow> 'n list_node_t"

subsection \<open>The operations of list.h and list.c\<close>

definition list_node_init :: "'n store \<Rightarrow> 'n \<Rightarrow> 'n store" where
  "list_node_init h node = h(node := \<lparr>ln_pre = None, ln_next = None\<rparr>)"

definition list_node_pre :: "'n store \<Rightarrow> 'n \<Rightarrow> 'n option" where
  "list_node_pre h node = ln_pre (h node)"

definition list_node_next :: "'n store \<Rightarrow> 'n \<Rightarrow> 'n option" where
  "list_node_next h node = ln_next (h node)"

definition list_is_empty :: "'n list_t \<Rightarrow> bool" where
  "list_is_empty l \<longleftrightarrow> lt_count l = 0"

definition list_count :: "'n list_t \<Rightarrow> int" where
  "list_count l = lt_count l"

definition list_first :: "'n list_t \<Rightarrow> 'n option" where
  "list_first l = lt_first l"

definition list_last :: "'n list_t \<Rightarrow> 'n option" where
  "list_last l = lt_last l"

definition list_init :: "'n list_t" where
  "list_init = \<lparr>lt_first = None, lt_last = None, lt_count = 0\<rparr>"

definition list_insert_first :: "'n store \<Rightarrow> 'n list_t \<Rightarrow> 'n \<Rightarrow> ('n store \<times> 'n list_t) res" where
  "list_insert_first h l node =
     (let h1 = h(node := \<lparr>ln_pre = None, ln_next = lt_first l\<rparr>)
      in if list_is_empty l
         then Inr (h1, l\<lparr>lt_last := Some node, lt_first := Some node, lt_count := lt_count l + 1\<rparr>)
         else (case lt_first l of
                 None \<Rightarrow> Inl NullDeref
               | Some f \<Rightarrow> Inr (h1(f := (h1 f)\<lparr>ln_pre := Some node\<rparr>),
                                l\<lparr>lt_first := Some node, lt_count := lt_count l + 1\<rparr>)))"

definition list_insert_last :: "'n store \<Rightarrow> 'n list_t \<Rightarrow> 'n \<Rightarrow> ('n store \<times> 'n list_t) res" where
  "list_insert_last h l node =
     (let h1 = h(node := \<lparr>ln_pre = lt_last l, ln_next = None\<rparr>)
      in if list_is_empty l
         then Inr (h1, l\<lparr>lt_first := Some node, lt_last := Some node, lt_count := lt_count l + 1\<rparr>)
         else (case lt_last l of
                 None \<Rightarrow> Inl NullDeref
               | Some e \<Rightarrow> Inr (h1(e := (h1 e)\<lparr>ln_next := Some node\<rparr>),
                                l\<lparr>lt_last := Some node, lt_count := lt_count l + 1\<rparr>)))"

definition list_delete_first ::
  "'n store \<Rightarrow> 'n list_t \<Rightarrow> ('n option \<times> 'n store \<times> 'n list_t) res" where
  "list_delete_first h l =
     (if list_is_empty l then Inr (None, h, l)
      else (case lt_first l of
              None \<Rightarrow> Inl NullDeref
            | Some r \<Rightarrow>
                let l1 = l\<lparr>lt_first := ln_next (h r)\<rparr>;
                    (h2, l2) = (case lt_first l1 of
                                  None \<Rightarrow> (h, l1\<lparr>lt_last := None\<rparr>)
                                | Some f \<Rightarrow> (h(f := (h f)\<lparr>ln_pre := None\<rparr>), l1));
                    h3 = h2(r := \<lparr>ln_pre = None, ln_next = None\<rparr>)
                in Inr (Some r, h3, l2\<lparr>lt_count := lt_count l2 - 1\<rparr>)))"

definition list_delete :: "'n store \<Rightarrow> 'n list_t \<Rightarrow> 'n \<Rightarrow> 'n \<times> 'n store \<times> 'n list_t" where
  "list_delete h l node =
     (let l1 = (if lt_first l = Some node then l\<lparr>lt_first := ln_next (h node)\<rparr> else l);
          l2 = (if lt_last l1 = Some node then l1\<lparr>lt_last := ln_pre (h node)\<rparr> else l1);
          h1 = (case ln_pre (h node) of
                  None \<Rightarrow> h
                | Some p \<Rightarrow> h(p := (h p)\<lparr>ln_next := ln_next (h node)\<rparr>));
          h2 = (case ln_next (h1 node) of
                  None \<Rightarrow> h1
                | Some q \<Rightarrow> h1(q := (h1 q)\<lparr>ln_pre := ln_pre (h1 node)\<rparr>));
          h3 = h2(node := \<lparr>ln_pre = None, ln_next = None\<rparr>)
      in (node, h3, l2\<lparr>lt_count := lt_count l2 - 1\<rparr>))"

subsection \<open>Representation of a sequence\<close>

text \<open>\<open>seg h p xs n\<close>: the nodes \<open>xs\<close> are linked in order, the first one back to \<open>p\<close>
  and the last one on to \<open>n\<close>.\<close>

fun seg :: "'n store \<Rightarrow> 'n option \<Rightarrow> 'n list \<Rightarrow> 'n option \<Rightarrow> bool" where
  "seg h p [] n \<longleftrightarrow> True"
| "seg h p (x # xs) n \<longleftrightarrow>
     ln_pre (h x) = p \<and> ln_next (h x) = (if xs = [] then n else hd_opt xs) \<and>
     seg h (Some x) xs n"

definition dll :: "'n store \<Rightarrow> 'n list_t \<Rightarrow> 'n list \<Rightarrow> bool" where
  "dll h l xs \<longleftrightarrow>
     distinct xs \<and> lt_first l = hd_opt xs \<and> lt_last l = last_opt xs \<and>
     lt_count l = int (length xs) \<and> seg h None xs None"

lemma seg_append:
  "seg h p (xs @ ys) n \<longleftrightarrow>
     seg h p xs (if ys = [] then n else hd_opt ys) \<and>
     seg h (if xs = [] then p else last_opt xs) ys n"
  by (induction xs arbitrary: p) (auto simp: hd_opt_append last_opt_def)

lemma seg_cong: "\<forall>x \<in> set xs. h' x = h x \<Longrightarrow> seg h' p xs n = seg h p xs n"
  by (induction xs arbitrary: p) auto

lemma seg_upd_other: "x \<notin> set xs \<Longrightarrow> seg (h(x := v)) p xs n = seg h p xs n"
  by (rule seg_cong) auto

lemma seg_set_next:
  "distinct (xs @ [e]) \<Longrightarrow> seg h p (xs @ [e]) n \<Longrightarrow>
   seg (h(e := (h e)\<lparr>ln_next := n'\<rparr>)) p (xs @ [e]) n'"
  by (simp add: seg_append seg_upd_other)

lemma seg_set_pre:
  "distinct (f # xs) \<Longrightarrow> seg h p (f # xs) n \<Longrightarrow>
   seg (h(f := (h f)\<lparr>ln_pre := p'\<rparr>)) p' (f # xs) n"
  by (simp add: seg_upd_other)

lemma dll_frame: "dll h l xs \<Longrightarrow> \<forall>x \<in> set xs. h' x = h x \<Longrightarrow> dll h' l xs"
  using seg_cong [of xs h' h None None] by (auto simp: dll_def)

lemma dll_init: "dll h list_init []"
  by (simp add: dll_def list_init_def)

lemma dll_count [klist_simps]: "dll h l xs \<Longrightarrow> list_count l = int (length xs)"
  by (simp add: dll_def list_count_def)

lemma dll_is_empty [klist_simps]: "dll h l xs \<Longrightarrow> list_is_empty l \<longleftrightarrow> xs = []"
  by (simp add: dll_def list_is_empty_def)

lemma dll_first [klist_simps]: "dll h l xs \<Longrightarrow> list_first l = hd_opt xs"
  by (simp add: dll_def list_first_def)

lemma dll_last [klist_simps]: "dll h l xs \<Longrightarrow> list_last l = last_opt xs"
  by (simp add: dll_def list_last_def)

lemma dll_next_node:
  "dll h l (xs @ x # ys) \<Longrightarrow> list_node_next h x = hd_opt ys"
  by (cases ys) (auto simp: dll_def seg_append list_node_next_def)

lemma dll_pre_node:
  "dll h l (xs @ x # ys) \<Longrightarrow> list_node_pre h x = last_opt xs"
  by (auto simp: dll_def seg_append list_node_pre_def)

lemma dll_distinct: "dll h l xs \<Longrightarrow> distinct xs"
  by (simp add: dll_def)

lemma dll_unique:
  assumes "dll h l xs" "dll h l ys" shows "xs = ys"
proof -
  have "\<And>p. seg h p xs None \<Longrightarrow> seg h p ys None \<Longrightarrow> hd_opt xs = hd_opt ys \<Longrightarrow>
     length xs = length ys \<Longrightarrow> xs = ys" for xs ys :: "'a list"
  proof (induction xs arbitrary: ys)
    case Nil
    then show ?case by simp
  next
    case (Cons x xs)
    then obtain y ys' where "ys = y # ys'" by (cases ys) auto
    with Cons show ?case by (auto split: if_splits)
  qed
  with assms show ?thesis by (auto simp: dll_def)
qed

subsection \<open>The operations implement the sequence operations\<close>

lemma list_insert_last_dll:
  assumes "dll h l xs" "x \<notin> set xs"
  shows "\<exists>h' l'. list_insert_last h l x = Inr (h', l') \<and> dll h' l' (xs @ [x]) \<and>
           (\<forall>y. y \<notin> set (xs @ [x]) \<longrightarrow> h' y = h y)"
proof (cases xs rule: rev_cases)
  case Nil
  with assms show ?thesis
    by (simp add: dll_def list_insert_last_def list_is_empty_def)
next
  case (snoc ys e)
  let ?h1 = "h(x := \<lparr>ln_pre = Some e, ln_next = None\<rparr>)"
  have "seg ?h1 None (ys @ [e]) None"
    using assms snoc by (simp add: dll_def seg_upd_other)
  then have "seg (?h1(e := (?h1 e)\<lparr>ln_next := Some x\<rparr>)) None (ys @ [e]) (Some x)"
    using assms snoc by (intro seg_set_next) (auto simp: dll_def)
  then have "seg (?h1(e := (?h1 e)\<lparr>ln_next := Some x\<rparr>)) None ((ys @ [e]) @ [x]) None"
    using assms snoc unfolding seg_append by auto
  with assms snoc show ?thesis
    by (auto simp: dll_def list_insert_last_def list_is_empty_def hd_opt_append last_opt_append)
qed

lemma list_insert_first_dll:
  assumes "dll h l xs" "x \<notin> set xs"
  shows "\<exists>h' l'. list_insert_first h l x = Inr (h', l') \<and> dll h' l' (x # xs) \<and>
           (\<forall>y. y \<notin> set (x # xs) \<longrightarrow> h' y = h y)"
proof (cases xs)
  case Nil
  with assms show ?thesis
    by (simp add: dll_def list_insert_first_def list_is_empty_def)
next
  case (Cons f ys)
  let ?h1 = "h(x := \<lparr>ln_pre = None, ln_next = Some f\<rparr>)"
  have "seg ?h1 None (f # ys) None"
    using assms Cons by (subst seg_upd_other) (auto simp: dll_def)
  then have "seg (?h1(f := (?h1 f)\<lparr>ln_pre := Some x\<rparr>)) (Some x) (f # ys) None"
    using assms Cons by (intro seg_set_pre) (auto simp: dll_def)
  with assms Cons show ?thesis
    by (auto simp: dll_def list_insert_first_def list_is_empty_def)
qed

text \<open>Unlinking a node: the two neighbours are joined and the node is reset.\<close>

lemma seg_unlink:
  assumes "distinct (xs @ x # ys)" "seg h None (xs @ x # ys) None"
  shows "seg ((case hd_opt ys of None \<Rightarrow> id | Some q \<Rightarrow> (\<lambda>g. g(q := (g q)\<lparr>ln_pre := last_opt xs\<rparr>)))
              ((case last_opt xs of None \<Rightarrow> id | Some p \<Rightarrow> (\<lambda>g. g(p := (g p)\<lparr>ln_next := hd_opt ys\<rparr>))) h))
           None (xs @ ys) None"
proof -
  let ?h1 = "(case last_opt xs of None \<Rightarrow> id | Some p \<Rightarrow> (\<lambda>g. g(p := (g p)\<lparr>ln_next := hd_opt ys\<rparr>))) h"
  let ?h2 = "(case hd_opt ys of None \<Rightarrow> id | Some q \<Rightarrow> (\<lambda>g. g(q := (g q)\<lparr>ln_pre := last_opt xs\<rparr>))) ?h1"
  have xs: "seg h None xs (Some x)" and ys: "seg h (Some x) ys None"
    using assms(2) by (auto simp: seg_append split: if_splits)
  have "seg ?h1 None xs (hd_opt ys)"
  proof (cases xs rule: rev_cases)
    case (snoc zs p)
    with xs assms(1) have "seg (h(p := (h p)\<lparr>ln_next := hd_opt ys\<rparr>)) None (zs @ [p]) (hd_opt ys)"
      by (intro seg_set_next) auto
    with snoc show ?thesis by simp
  qed simp
  then have 1: "seg ?h2 None xs (hd_opt ys)"
    using assms(1) by (cases ys) (auto simp: seg_upd_other)
  have "seg ?h1 (Some x) ys None"
    using ys assms(1) by (cases xs rule: rev_cases) (auto simp: seg_upd_other)
  then have 2: "seg ?h2 (last_opt xs) ys None"
  proof (cases ys)
    case (Cons q zs)
    with \<open>seg ?h1 (Some x) ys None\<close> assms(1)
    have "seg (?h1(q := (?h1 q)\<lparr>ln_pre := last_opt xs\<rparr>)) (last_opt xs) (q # zs) None"
      by (intro seg_set_pre [where p = "Some x"]) auto
    with Cons show ?thesis by simp
  qed simp
  from 1 2 show ?thesis by (auto simp: seg_append)
qed

lemma list_delete_dll:
  assumes "dll h l (xs @ x # ys)"
  shows "\<exists>h' l'. list_delete h l x = (x, h', l') \<and> dll h' l' (xs @ ys) \<and>
           ln_pre (h' x) = None \<and> ln_next (h' x) = None \<and>
           (\<forall>y. y \<notin> set (xs @ x # ys) \<longrightarrow> h' y = h y)"
proof -
  let ?h1 = "(case last_opt xs of None \<Rightarrow> id | Some p \<Rightarrow> (\<lambda>g. g(p := (g p)\<lparr>ln_next := hd_opt ys\<rparr>))) h"
  let ?h2 = "(case hd_opt ys of None \<Rightarrow> id | Some q \<Rightarrow> (\<lambda>g. g(q := (g q)\<lparr>ln_pre := last_opt xs\<rparr>))) ?h1"
  let ?h3 = "?h2(x := \<lparr>ln_pre = None, ln_next = None\<rparr>)"
  let ?l = "\<lparr>lt_first = hd_opt (xs @ ys), lt_last = last_opt (xs @ ys), lt_count = lt_count l - 1\<rparr>"
  have d: "distinct (xs @ x # ys)" and s: "seg h None (xs @ x # ys) None"
    and l: "l = \<lparr>lt_first = hd_opt (xs @ x # ys), lt_last = last_opt (xs @ x # ys),
               lt_count = int (length (xs @ x # ys))\<rparr>"
    using assms by (auto simp: dll_def)
  have px: "ln_pre (h x) = last_opt xs" and nx: "ln_next (h x) = hd_opt ys"
    using dll_pre_node [OF assms] dll_next_node [OF assms]
    by (auto simp: list_node_pre_def list_node_next_def)
  have xp: "last_opt xs \<noteq> Some x" and xq: "hd_opt ys \<noteq> Some x"
    using d by (auto dest: last_opt_SomeD hd_opt_SomeD)
  have h1x: "?h1 x = h x"
    using xp by (auto split: option.split)
  have f: "lt_first l = Some x \<longleftrightarrow> xs = []" and e: "lt_last l = Some x \<longleftrightarrow> ys = []"
    using d l by (auto simp: hd_opt_append last_opt_append dest: hd_opt_SomeD last_opt_SomeD)
  have hdr: "(let l1 = (if lt_first l = Some x then l\<lparr>lt_first := ln_next (h x)\<rparr> else l);
          l2 = (if lt_last l1 = Some x then l1\<lparr>lt_last := ln_pre (h x)\<rparr> else l1)
      in l2\<lparr>lt_count := lt_count l2 - 1\<rparr>) = ?l"
    using f e unfolding px nx by (auto simp: l Let_def hd_opt_append last_opt_append last_opt_def)
  have "list_delete h l x = (x, ?h3, ?l)"
    unfolding list_delete_def Let_def using hdr h1x px nx
    by (auto simp: Let_def split: option.split)
  moreover have "dll ?h3 ?l (xs @ ys)"
    using seg_unlink [OF d s] d l by (auto simp: dll_def seg_upd_other)
  moreover have "\<forall>y. y \<notin> set (xs @ x # ys) \<longrightarrow> ?h3 y = h y"
    by (auto dest: hd_opt_SomeD last_opt_SomeD split: option.split)
  ultimately show ?thesis by simp
qed

lemma list_delete_first_Nil: "dll h l [] \<Longrightarrow> list_delete_first h l = Inr (None, h, l)"
  by (simp add: list_delete_first_def dll_is_empty)

lemma list_delete_first_dll:
  assumes "dll h l (x # ys)"
  shows "\<exists>h' l'. list_delete_first h l = Inr (Some x, h', l') \<and> dll h' l' ys \<and>
           ln_pre (h' x) = None \<and> ln_next (h' x) = None \<and>
           (\<forall>y. y \<notin> set (x # ys) \<longrightarrow> h' y = h y)"
proof (cases ys)
  case Nil
  with assms show ?thesis
    by (simp add: dll_def list_delete_first_def list_is_empty_def)
next
  case (Cons f zs)
  with assms have "seg (h(f := (h f)\<lparr>ln_pre := None\<rparr>)) None (f # zs) None"
    by (intro seg_set_pre [where p = "Some x"]) (auto simp: dll_def)
  with assms Cons show ?thesis
    by (auto simp: dll_def list_delete_first_def list_is_empty_def seg_upd_other)
qed

subsection \<open>The interface of the list for its clients\<close>

text \<open>
  What the scheduler, the mutexes and the semaphores rely on: a queue represented in a
  store of nodes, whose operations change only the nodes of that queue and the node they
  are given.
\<close>

locale node_queue =
  fixes rep :: "('n \<Rightarrow> 'v) \<Rightarrow> 'l \<Rightarrow> 'n list \<Rightarrow> bool"
    and enq :: "('n \<Rightarrow> 'v) \<Rightarrow> 'l \<Rightarrow> 'n \<Rightarrow> (('n \<Rightarrow> 'v) \<times> 'l) res"
    and unlink :: "('n \<Rightarrow> 'v) \<Rightarrow> 'l \<Rightarrow> 'n \<Rightarrow> 'n \<times> ('n \<Rightarrow> 'v) \<times> 'l"
    and deq :: "('n \<Rightarrow> 'v) \<Rightarrow> 'l \<Rightarrow> ('n option \<times> ('n \<Rightarrow> 'v) \<times> 'l) res"
  assumes rep_distinct: "rep h l xs \<Longrightarrow> distinct xs"
    and rep_frame: "rep h l xs \<Longrightarrow> \<forall>x \<in> set xs. h' x = h x \<Longrightarrow> rep h' l xs"
    and enq_law: "rep h l xs \<Longrightarrow> x \<notin> set xs \<Longrightarrow>
      \<exists>h' l'. enq h l x = Inr (h', l') \<and> rep h' l' (xs @ [x]) \<and>
        (\<forall>y. y \<notin> set (xs @ [x]) \<longrightarrow> h' y = h y)"
    and unlink_law: "rep h l (xs @ x # ys) \<Longrightarrow>
      \<exists>h' l'. unlink h l x = (x, h', l') \<and> rep h' l' (xs @ ys) \<and>
        (\<forall>y. y \<notin> set (xs @ x # ys) \<longrightarrow> h' y = h y)"
    and deq_empty: "rep h l [] \<Longrightarrow> deq h l = Inr (None, h, l)"
    and deq_law: "rep h l (x # ys) \<Longrightarrow>
      \<exists>h' l'. deq h l = Inr (Some x, h', l') \<and> rep h' l' ys \<and>
        (\<forall>y. y \<notin> set (x # ys) \<longrightarrow> h' y = h y)"
begin

text \<open>A queue that shares the store but no node is left alone.\<close>

lemma enq_sep:
  assumes "rep h l xs" "x \<notin> set xs" "enq h l x = Inr (h', l')"
    and "rep h m ys" "set ys \<inter> insert x (set xs) = {}"
  shows "rep h' l' (xs @ [x]) \<and> rep h' m ys"
proof -
  from enq_law [OF assms(1,2)] assms(3)
  have 1: "rep h' l' (xs @ [x])" and 2: "\<forall>y. y \<notin> set (xs @ [x]) \<longrightarrow> h' y = h y" by auto
  have "rep h' m ys"
    using assms(5) 2 by (intro rep_frame [OF assms(4)]) auto
  with 1 show ?thesis by simp
qed

lemma unlink_sep:
  assumes "rep h l (xs @ x # zs)" "unlink h l x = (r, h', l')"
    and "rep h m ys" "set ys \<inter> set (xs @ x # zs) = {}"
  shows "r = x \<and> rep h' l' (xs @ zs) \<and> rep h' m ys"
proof -
  from unlink_law [OF assms(1)] assms(2)
  have 1: "r = x" "rep h' l' (xs @ zs)" and 2: "\<forall>y. y \<notin> set (xs @ x # zs) \<longrightarrow> h' y = h y"
    by auto
  have "rep h' m ys"
    using assms(4) 2 by (intro rep_frame [OF assms(3)]) auto
  with 1 show ?thesis by simp
qed

text \<open>Unlinking a member and queueing it again moves it to the end.\<close>

lemma requeue:
  assumes "rep h l (xs @ x # zs)"
  shows "\<exists>h1 l1 h2 l2. unlink h l x = (x, h1, l1) \<and> enq h1 l1 x = Inr (h2, l2) \<and>
           rep h2 l2 (xs @ zs @ [x]) \<and> (\<forall>y. y \<notin> set (xs @ x # zs) \<longrightarrow> h2 y = h y)"
proof -
  obtain h1 l1 where 1: "unlink h l x = (x, h1, l1)" "rep h1 l1 (xs @ zs)"
    "\<forall>y. y \<notin> set (xs @ x # zs) \<longrightarrow> h1 y = h y"
    using unlink_law [OF assms] by blast
  have "x \<notin> set (xs @ zs)"
    using rep_distinct [OF assms] by auto
  then obtain h2 l2 where 2: "enq h1 l1 x = Inr (h2, l2)" "rep h2 l2 ((xs @ zs) @ [x])"
    "\<forall>y. y \<notin> set ((xs @ zs) @ [x]) \<longrightarrow> h2 y = h1 y"
    using enq_law [OF 1(2)] by blast
  from 1 2 show ?thesis by auto
qed

end

interpretation klist: node_queue dll list_insert_last list_delete list_delete_first
proof (unfold_locales, goal_cases)
  case (1 h l xs)
  then show ?case by (rule dll_distinct)
next
  case (2 h l xs h')
  then show ?case by (rule dll_frame)
next
  case (3 h l xs x)
  then show ?case by (rule list_insert_last_dll)
next
  case (4 h l xs x ys)
  then show ?case using list_delete_dll [of h l xs x ys] by blast
next
  case (5 h l)
  then show ?case by (rule list_delete_first_Nil)
next
  case (6 h l x ys)
  then show ?case using list_delete_first_dll [of h l x ys] by blast
qed

subsection \<open>The self test of init.c\<close>

text \<open>The two loops of \<open>list_test\<close> (src/src/kernel/init.c): append every node of an
  array, then take that many nodes off the front.  The log lines are left out.\<close>

fun insert_nodes_last :: "'n store \<Rightarrow> 'n list_t \<Rightarrow> 'n list \<Rightarrow> ('n store \<times> 'n list_t) res" where
  "insert_nodes_last h l [] = Inr (h, l)"
| "insert_nodes_last h l (n # ns) =
     res_bind (list_insert_last h l n) (\<lambda>(h', l'). insert_nodes_last h' l' ns)"

fun delete_nodes_first ::
  "'n store \<Rightarrow> 'n list_t \<Rightarrow> nat \<Rightarrow> ('n option list \<times> 'n store \<times> 'n list_t) res" where
  "delete_nodes_first h l 0 = Inr ([], h, l)"
| "delete_nodes_first h l (Suc k) =
     res_bind (list_delete_first h l) (\<lambda>(r, h', l').
       res_bind (delete_nodes_first h' l' k) (\<lambda>(rs, h'', l''). Inr (r # rs, h'', l'')))"

lemma insert_nodes_last_dll:
  "dll h l xs \<Longrightarrow> distinct (xs @ ns) \<Longrightarrow>
   \<exists>h' l'. insert_nodes_last h l ns = Inr (h', l') \<and> dll h' l' (xs @ ns)"
proof (induction ns arbitrary: h l xs)
  case (Cons n ns)
  then obtain h1 l1 where 1: "list_insert_last h l n = Inr (h1, l1)" "dll h1 l1 (xs @ [n])"
    using list_insert_last_dll [of h l xs n] by auto
  with Cons.IH [OF 1(2)] Cons.prems show ?case by auto
qed auto

lemma delete_nodes_first_dll:
  "dll h l xs \<Longrightarrow>
   \<exists>h' l'. delete_nodes_first h l (length xs) = Inr (map Some xs, h', l') \<and> dll h' l' []"
proof (induction xs arbitrary: h l)
  case (Cons x xs)
  then obtain h1 l1 where 1: "list_delete_first h l = Inr (Some x, h1, l1)" "dll h1 l1 xs"
    using list_delete_first_dll [of h l x xs] by auto
  with Cons.IH [OF 1(2)] show ?case by auto
qed auto

subsection \<open>Properties\<close>

text \<open>
  First in, first out.  Appending distinct nodes to a fresh list and then taking
  that many nodes off its front never dereferences a null pointer, returns exactly the
  nodes in the order they were appended and leaves the list empty, whatever the node
  fields held before.
\<close>

theorem list_fifo:
  assumes "distinct ns"
  shows "\<exists>h1 l1 h2 l2. insert_nodes_last h list_init ns = Inr (h1, l1) \<and>
           list_count l1 = int (length ns) \<and>
           delete_nodes_first h1 l1 (length ns) = Inr (map Some ns, h2, l2) \<and>
           list_is_empty l2 \<and> list_first l2 = None \<and> list_last l2 = None"
proof -
  obtain h1 l1 where 1: "insert_nodes_last h list_init ns = Inr (h1, l1)" "dll h1 l1 ns"
    using insert_nodes_last_dll [OF dll_init, of ns h] assms by auto
  obtain h2 l2 where "delete_nodes_first h1 l1 (length ns) = Inr (map Some ns, h2, l2)"
    "dll h2 l2 []"
    using delete_nodes_first_dll [OF 1(2)] by blast
  with 1 show ?thesis
    by (auto simp: klist_simps)
qed

theorem list_fifo_witness:
  "distinct [1, 2, 3 :: nat] \<and>
   (\<exists>h1 l1 h2 l2. insert_nodes_last (\<lambda>_. \<lparr>ln_pre = None, ln_next = None\<rparr>) list_init [1, 2, 3 :: nat]
        = Inr (h1, l1) \<and> list_count l1 = 3 \<and>
      delete_nodes_first h1 l1 3 = Inr ([Some 1, Some 2, Some 3], h2, l2) \<and> list_is_empty l2)"
  using list_fifo [of "[1, 2, 3 :: nat]" "\<lambda>_. \<lparr>ln_pre = None, ln_next = None\<rparr>"]
  by (auto simp: eval_nat_numeral)

text \<open>
  C30: removal from the middle.  On a list that represents \<open>xs @ x # ys\<close>,
  \<open>list_delete\<close> of \<open>x\<close> yields a list that represents \<open>xs @ ys\<close>, resets the links of
  the removed node, and changes no node outside the list.
\<close>

theorem list_delete_unlinks:
  assumes "dll h l (xs @ x # ys)" "list_delete h l x = (r, h', l')"
  shows "r = x \<and> dll h' l' (xs @ ys) \<and> list_count l' = list_count l - 1 \<and>
         list_node_pre h' x = None \<and> list_node_next h' x = None \<and>
         (\<forall>y. y \<notin> set (xs @ x # ys) \<longrightarrow> h' y = h y)"
  using list_delete_dll [OF assms(1)] assms dll_count [OF assms(1)] dll_count [of h' l' "xs @ ys"]
  by (auto simp: list_node_pre_def list_node_next_def)

theorem list_delete_unlinks_witness:
  "let h = (\<lambda>n :: nat. if n = 1 then \<lparr>ln_pre = None, ln_next = Some 2\<rparr>
                      else if n = 2 then \<lparr>ln_pre = Some 1, ln_next = Some 3\<rparr>
                      else \<lparr>ln_pre = Some 2, ln_next = None\<rparr>);
       l = \<lparr>lt_first = Some 1, lt_last = Some 3, lt_count = 3\<rparr>;
       (r, h', l') = list_delete h l 2
   in dll h l ([1] @ 2 # [3]) \<and> r = 2 \<and> dll h' l' [1, 3] \<and> list_count l' = 2"
proof -
  let ?h = "\<lambda>n :: nat. if n = 1 then \<lparr>ln_pre = None, ln_next = Some 2\<rparr>
                      else if n = 2 then \<lparr>ln_pre = Some 1, ln_next = Some 3\<rparr>
                      else \<lparr>ln_pre = Some 2, ln_next = None\<rparr>"
  let ?l = "\<lparr>lt_first = Some 1, lt_last = Some 3, lt_count = 3\<rparr> :: nat list_t"
  have d: "dll ?h ?l ([1] @ 2 # [3])" by (simp add: dll_def)
  obtain r h' l' where e: "list_delete ?h ?l 2 = (r, h', l')" by (cases "list_delete ?h ?l 2")
  from list_delete_unlinks [OF d e] d e show ?thesis
    by (simp add: Let_def list_count_def)
qed

end
