(* ===== verification/Interrupts.thy ===== *)
theory Interrupts
  imports Kernel_Prelude
begin

unbundle bit_operations_syntax

text \<open>
  The processor state the kernel touches directly and the interrupt code of
  src/src/kernel/irq.c: the interrupt flag and the protected sections, the gate
  descriptors and the interrupt table, the 8259 controllers behind their ports.

  The record \<open>cpu_state\<close> is the bottom layer of the kernel state; the later theories
  extend it.  Ports: \<open>port_out\<close> lists the bytes written, oldest first; the \<open>n\<close>-th byte
  read from port \<open>p\<close> is \<open>port_in p n\<close>, chosen by the device.  \<open>klogs\<close> lists the
  calls of \<open>klog\<close>, format string and arguments.  Code addresses come from the linker:
  \<open>link\<close> maps the entry points of kernel.S to their addresses.
\<close>

record gate_desc_t =
  offset15_0 :: u16
  gd_selector :: u16
  gd_attr :: u16
  offset31_16 :: u16

record cpu_state =
  eflags :: u32
  cr3 :: u32
  port_out :: "(u16 \<times> u8) list"
  port_in :: "u16 \<Rightarrow> nat \<Rightarrow> u8"
  port_reads :: "u16 \<Rightarrow> nat"
  klogs :: "(string \<times> va_arg list) list"
  idt_table :: "gate_desc_t list"
  idtr :: "u16 \<times> u16 \<times> u16"

subsection \<open>Ports, flags, log\<close>

definition outb :: "u16 \<Rightarrow> u8 \<Rightarrow> 'a cpu_state_scheme \<Rightarrow> 'a cpu_state_scheme" where
  "outb p v s = s\<lparr>port_out := port_out s @ [(p, v)]\<rparr>"

definition inb :: "u16 \<Rightarrow> 'a cpu_state_scheme \<Rightarrow> u8 \<times> 'a cpu_state_scheme" where
  "inb p s = (port_in s p (port_reads s p),
              s\<lparr>port_reads := (port_reads s)(p := Suc (port_reads s p))\<rparr>)"

definition log_line :: "string \<Rightarrow> va_arg list \<Rightarrow> 'a cpu_state_scheme \<Rightarrow> 'a cpu_state_scheme" where
  "log_line fmt args s = s\<lparr>klogs := klogs s @ [(fmt, args)]\<rparr>"

definition EFLAGS_IF :: u32 where
  "EFLAGS_IF = push_bit 9 1"

definition irq_disable_global :: "'a cpu_state_scheme \<Rightarrow> 'a cpu_state_scheme" where
  "irq_disable_global s = s\<lparr>eflags := eflags s AND NOT EFLAGS_IF\<rparr>"

definition irq_enable_global :: "'a cpu_state_scheme \<Rightarrow> 'a cpu_state_scheme" where
  "irq_enable_global s = s\<lparr>eflags := eflags s OR EFLAGS_IF\<rparr>"

definition irq_enter_proection :: "'a cpu_state_scheme \<Rightarrow> u32 \<times> 'a cpu_state_scheme" where
  "irq_enter_proection s = (eflags s, irq_disable_global s)"

definition irq_leave_proection :: "u32 \<Rightarrow> 'a cpu_state_scheme \<Rightarrow> 'a cpu_state_scheme" where
  "irq_leave_proection st s = s\<lparr>eflags := st\<rparr>"

definition mmu_set_page_dir :: "u32 \<Rightarrow> 'a cpu_state_scheme \<Rightarrow> 'a cpu_state_scheme" where
  "mmu_set_page_dir paddr s = s\<lparr>cr3 := paddr\<rparr>"

subsection \<open>Gate descriptors and the interrupt table\<close>

definition gate_desc_set :: "u16 \<Rightarrow> u32 \<Rightarrow> u16 \<Rightarrow> gate_desc_t" where
  "gate_desc_set selector offset attr =
     \<lparr>offset15_0 = ucast (offset AND 0xffff), gd_selector = selector, gd_attr = attr,
      offset31_16 = ucast (drop_bit 16 offset AND 0xffff)\<rparr>"

definition gate_offset :: "gate_desc_t \<Rightarrow> u32" where
  "gate_offset g = ucast (offset15_0 g) OR push_bit 16 (ucast (offset31_16 g))"

abbreviation IDT_TABLE_NR :: int where "IDT_TABLE_NR \<equiv> 128"
abbreviation KERNEL_SELECTOR_CS :: u16 where "KERNEL_SELECTOR_CS \<equiv> 8"
abbreviation GATE_INT :: u16 where
  "GATE_INT \<equiv> push_bit 15 1 OR push_bit 13 0 OR push_bit 8 0xE"

datatype isr =
    Isr_unknown | Isr_divider | Isr_Debug | Isr_NMI | Isr_breakpoint | Isr_overflow
  | Isr_bound_range | Isr_invalid_opcode | Isr_device_unavailable | Isr_double_fault
  | Isr_invalid_tss | Isr_segment_not_present | Isr_stack_segment_fault
  | Isr_general_protection | Isr_page_fault | Isr_fpu_error | Isr_alignment_check
  | Isr_machine_check | Isr_smd_exception | Isr_virtual_exception | Isr_time | Isr_kbd

text \<open>\<open>irq_install\<close> returns \<open>-1\<close> for a number past the table and no value otherwise
  (the function falls off its end); a negative number writes before the table.\<close>

definition irq_install ::
  "int \<Rightarrow> u32 \<Rightarrow> 'a cpu_state_scheme \<Rightarrow> (int option \<times> 'a cpu_state_scheme) res" where
  "irq_install n handler s =
     (if n \<ge> IDT_TABLE_NR then Inr (Some (-1), s)
      else if 0 \<le> n \<and> nat n < length (idt_table s)
      then Inr (None, s\<lparr>idt_table := (idt_table s)[nat n := gate_desc_set KERNEL_SELECTOR_CS handler GATE_INT]\<rparr>)
      else Inl OutOfBounds)"

fun irq_install_all ::
  "(isr \<Rightarrow> u32) \<Rightarrow> (int \<times> isr) list \<Rightarrow> 'a cpu_state_scheme \<Rightarrow> 'a cpu_state_scheme res" where
  "irq_install_all link [] s = Inr s"
| "irq_install_all link ((n, h) # rest) s =
     res_bind (irq_install n (link h) s) (\<lambda>(_, s'). irq_install_all link rest s')"

definition exception_vectors :: "(int \<times> isr) list" where
  "exception_vectors =
     [(0, Isr_divider), (1, Isr_Debug), (2, Isr_NMI), (3, Isr_breakpoint), (4, Isr_overflow),
      (5, Isr_bound_range), (6, Isr_invalid_opcode), (7, Isr_device_unavailable),
      (8, Isr_double_fault), (10, Isr_invalid_tss), (11, Isr_segment_not_present),
      (12, Isr_stack_segment_fault), (13, Isr_general_protection), (14, Isr_page_fault),
      (16, Isr_fpu_error), (17, Isr_alignment_check), (18, Isr_machine_check),
      (19, Isr_smd_exception), (20, Isr_virtual_exception)]"

text \<open>The programming sequence of the two controllers, as (port, value) pairs.\<close>

definition pic_init_seq :: "(u16 \<times> u8) list" where
  "pic_init_seq =
     [(0x20, push_bit 4 1 OR push_bit 0 1), (0x21, 0x20), (0x21, push_bit 2 1), (0x21, push_bit 0 1),
      (0xa0, push_bit 0 1 OR push_bit 4 1), (0xa1, 0x20 + 8), (0xa1, 2), (0xa1, push_bit 0 1),
      (0x21, 0xFF AND NOT (push_bit 2 1)), (0xa1, 0xFF)]"

definition init_pic :: "'a cpu_state_scheme \<Rightarrow> 'a cpu_state_scheme" where
  "init_pic s = fold (\<lambda>(p, v). outb p v) pic_init_seq s"

text \<open>\<open>lidt\<close> loads the register of the interrupt table: limit, low half and high half of the address.  The table lies
  at \<open>tb\<close> and its descriptors have 8 bytes.\<close>

definition lidt :: "u32 \<Rightarrow> u32 \<Rightarrow> 'a cpu_state_scheme \<Rightarrow> 'a cpu_state_scheme" where
  "lidt start sz s = s\<lparr>idtr := (ucast (sz - 1), ucast (start AND 0xFFFF), ucast (drop_bit 16 start))\<rparr>"

definition irq_init :: "u32 \<Rightarrow> (isr \<Rightarrow> u32) \<Rightarrow> 'a cpu_state_scheme \<Rightarrow> 'a cpu_state_scheme res" where
  "irq_init tb link s =
     (let s1 = s\<lparr>idt_table := replicate (nat IDT_TABLE_NR)
                   (gate_desc_set KERNEL_SELECTOR_CS (link Isr_unknown) GATE_INT)\<rparr>;
          s2 = lidt tb (of_int (IDT_TABLE_NR * 8)) s1
      in res_bind (irq_install_all link exception_vectors s2) (\<lambda>s3. Inr (init_pic s3)))"

subsection \<open>Masking lines, end of interrupt\<close>

definition irq_enable :: "int \<Rightarrow> 'a cpu_state_scheme \<Rightarrow> 'a cpu_state_scheme" where
  "irq_enable irq_num s =
     (if irq_num < 0x20 then s
      else let n = irq_num - 0x20 in
        if n < 8 then let (m, s1) = inb 0x21 s in outb 0x21 (m AND NOT (push_bit (nat n) 1)) s1
        else let (m, s1) = inb 0xa1 s in outb 0xa1 (m AND NOT (push_bit (nat (n - 8)) 1)) s1)"

definition irq_disable :: "int \<Rightarrow> 'a cpu_state_scheme \<Rightarrow> 'a cpu_state_scheme" where
  "irq_disable irq_num s =
     (if irq_num < 0x20 then s
      else let n = irq_num - 0x20 in
        if n < 8 then let (m, s1) = inb 0x21 s in outb 0x21 (m OR push_bit (nat n) 1) s1
        else let (m, s1) = inb 0xa1 s in outb 0xa1 (m OR push_bit (nat (n - 8)) 1) s1)"

definition pic_send_eoi :: "int \<Rightarrow> 'a cpu_state_scheme \<Rightarrow> 'a cpu_state_scheme" where
  "pic_send_eoi irq_num s =
     (let s1 = (if irq_num - 0x20 \<ge> 8 then outb 0xa0 0x20 s else s) in outb 0x20 0x20 s1)"

subsection \<open>Exception handlers\<close>

text \<open>Every handler logs and then halts for ever; its result here is the state in which the
  processor halts.  \<open>cr2\<close> is the faulting address the processor provides.\<close>

definition default_handler :: "string \<Rightarrow> 'a cpu_state_scheme \<Rightarrow> 'a cpu_state_scheme" where
  "default_handler msg s =
     log_line ''IRQ/Exception happend: %s.'' [VStr msg]
       (log_line ''--------------------------------'' [] s)"

definition handle_page_fault :: "u32 \<Rightarrow> u32 \<Rightarrow> 'a cpu_state_scheme \<Rightarrow> 'a cpu_state_scheme" where
  "handle_page_fault err_code cr2 s =
     (let s1 = log_line ''--------------------------------'' [] s;
          s2 = log_line ''IRQ/Exception happend: Page fault.'' [] s1;
          s3 = (if err_code AND push_bit 0 1 \<noteq> 0
                then log_line (CHR 0x09 # ''page-level protection violation: 0x%x.'') [VInt (sint cr2)] s2
                else log_line (CHR 0x09 # ''Page doesn'' @ CHR 0x27 # ''t present 0x%x'') [VInt (sint cr2)] s2);
          s4 = (if err_code AND push_bit 1 1 \<noteq> 0
                then log_line (CHR 0x09 # ''The access causing the fault was a read.'') [] s3
                else log_line (CHR 0x09 # ''The access causing the fault was a write.'') [] s3)
      in if err_code AND push_bit 1 1 \<noteq> 0
         then log_line (CHR 0x09 # ''A supervisor-mode access caused the fault.'') [] s4
         else log_line (CHR 0x09 # ''A user-mode access caused the fault.'') [] s4)"

fun exception_message :: "isr \<Rightarrow> string" where
  "exception_message Isr_unknown = ''Unknown exception.''"
| "exception_message Isr_divider = ''Divider Error.''"
| "exception_message Isr_Debug = ''Debug Exception''"
| "exception_message Isr_NMI = ''NMI Interrupt.''"
| "exception_message Isr_breakpoint = ''Breakpoint.''"
| "exception_message Isr_overflow = ''Overflow.''"
| "exception_message Isr_bound_range = ''BOUND Range Exceeded.''"
| "exception_message Isr_invalid_opcode = ''Invalid Opcode.''"
| "exception_message Isr_device_unavailable = ''Device Not Available.''"
| "exception_message Isr_double_fault = ''Double Fault.''"
| "exception_message Isr_invalid_tss = ''Invalid TSS''"
| "exception_message Isr_segment_not_present = ''Segment Not Present.''"
| "exception_message Isr_stack_segment_fault = ''Stack-Segment Fault.''"
| "exception_message Isr_general_protection = ''IRQ/Exception happend: General Protection.''"
| "exception_message Isr_fpu_error = ''X87 FPU Floating Point Error.''"
| "exception_message Isr_alignment_check = ''Alignment Check.''"
| "exception_message Isr_machine_check = ''Machine Check.''"
| "exception_message Isr_smd_exception = ''SIMD Floating Point Exception.''"
| "exception_message Isr_virtual_exception = ''Virtualization Exception.''"
| "exception_message _ = []"

definition handle_exception :: "isr \<Rightarrow> u32 \<Rightarrow> u32 \<Rightarrow> 'a cpu_state_scheme \<Rightarrow> 'a cpu_state_scheme" where
  "handle_exception h err_code cr2 s =
     (if h = Isr_page_fault then handle_page_fault err_code cr2 s
      else default_handler (exception_message h) s)"

subsection \<open>Lemmas\<close>

lemma irq_disable_clears_IF: "\<not> bit (eflags (irq_disable_global s)) 9"
  by (simp add: irq_disable_global_def EFLAGS_IF_def bit_simps)

lemma irq_section_restores:
  "irq_enter_proection s = (st, s') \<Longrightarrow> eflags (irq_leave_proection st t) = eflags s"
  by (auto simp: irq_enter_proection_def irq_leave_proection_def)

lemma gate_offset_set: "gate_offset (gate_desc_set sel off attr) = off"
  unfolding gate_offset_def gate_desc_set_def and_mask_numerals
  by (rule bit_word_eqI) (auto simp: bit_simps)

lemma irq_install_all_frame:
  "irq_install_all link vs s = Inr s' \<Longrightarrow> s' = s\<lparr>idt_table := idt_table s'\<rparr>"
proof (induction vs arbitrary: s)
  case (Cons v vs)
  obtain n h where v: "v = (n, h)" by (cases v)
  with Cons.prems obtain r s1 where 1: "irq_install n (link h) s = Inr (r, s1)"
    "irq_install_all link vs s1 = Inr s'" by (auto simp: res_bind_eq_Inr)
  from 1(1) have "s1 = s\<lparr>idt_table := idt_table s1\<rparr>"
    by (auto simp: irq_install_def split: if_splits)
  with Cons.IH [OF 1(2)] show ?case
    by (metis cpu_state.update_convs(7) cpu_state.surjective)
qed simp

lemma irq_install_all_ok:
  assumes "length (idt_table s) = 128" "\<forall>(n, h) \<in> set vs. 0 \<le> n \<and> n < 128" "distinct (map fst vs)"
  shows "\<exists>s'. irq_install_all link vs s = Inr s' \<and> length (idt_table s') = 128 \<and>
           (\<forall>k < 128. idt_table s' ! k =
              (case map_of vs (int k) of
                 None \<Rightarrow> idt_table s ! k
               | Some h \<Rightarrow> gate_desc_set KERNEL_SELECTOR_CS (link h) GATE_INT))"
  using assms
proof (induction vs arbitrary: s)
  case (Cons v vs)
  obtain n h where v: "v = (n, h)" by (cases v)
  let ?g = "gate_desc_set KERNEL_SELECTOR_CS (link h) GATE_INT"
  let ?s = "s\<lparr>idt_table := (idt_table s)[nat n := ?g]\<rparr>"
  have i: "irq_install n (link h) s = Inr (None, ?s)"
    using Cons.prems v by (simp add: irq_install_def nat_less_iff)
  obtain s' where s': "irq_install_all link vs ?s = Inr s'" "length (idt_table s') = 128"
    "\<forall>k < 128. idt_table s' ! k = (case map_of vs (int k) of None \<Rightarrow> idt_table ?s ! k
       | Some h \<Rightarrow> gate_desc_set KERNEL_SELECTOR_CS (link h) GATE_INT)"
    using Cons.IH [of ?s] Cons.prems v by auto
  have "map_of vs n = None"
    using Cons.prems v by (simp add: map_of_eq_None_iff image_iff)
  with s' i v Cons.prems show ?case
    by (auto simp: nth_list_update split: option.splits)
qed simp

lemma idt_table_init_pic [simp]: "idt_table (init_pic s) = idt_table s" "idtr (init_pic s) = idtr s"
  by (simp_all add: init_pic_def pic_init_seq_def outb_def)

subsection \<open>Properties\<close>

definition vector_handler :: "int \<Rightarrow> isr" where
  "vector_handler n = (case map_of exception_vectors n of None \<Rightarrow> Isr_unknown | Some h \<Rightarrow> h)"

text \<open>
  After \<open>irq_init\<close> every one of the 128 vectors is a present kernel gate to the handler
  the code assigns to it: the exceptions to theirs, and every other vector, the reserved
  ones included, to the handler for unknown exceptions.
\<close>

theorem irq_init_vectors:
  "\<exists>s'. irq_init tb link s = Inr s' \<and> length (idt_table s') = 128 \<and>
     idtr s' = (1023, ucast (tb AND 0xFFFF), ucast (drop_bit 16 tb)) \<and>
     (\<forall>k < 128. gate_offset (idt_table s' ! k) = link (vector_handler (int k)) \<and>
        gd_selector (idt_table s' ! k) = KERNEL_SELECTOR_CS \<and>
        bit (gd_attr (idt_table s' ! k)) 15)"
proof -
  let ?u = "gate_desc_set KERNEL_SELECTOR_CS (link Isr_unknown) GATE_INT"
  let ?s = "lidt tb 1024 (s\<lparr>idt_table := replicate 128 ?u\<rparr>)"
  obtain s1 where 1: "irq_install_all link exception_vectors ?s = Inr s1"
    "length (idt_table s1) = 128"
    "\<forall>k < 128. idt_table s1 ! k = (case map_of exception_vectors (int k) of None \<Rightarrow> idt_table ?s ! k
       | Some h \<Rightarrow> gate_desc_set KERNEL_SELECTOR_CS (link h) GATE_INT)"
    using irq_install_all_ok [of ?s exception_vectors link] by (auto simp: exception_vectors_def lidt_def)
  have "idtr s1 = idtr ?s" using arg_cong [OF irq_install_all_frame [OF 1(1)], of idtr] by simp
  then have r: "idtr s1 = (1023, ucast (tb AND 0xFFFF), ucast (drop_bit 16 tb))" by (simp add: lidt_def)
  have g: "idt_table s1 ! k = gate_desc_set KERNEL_SELECTOR_CS (link (vector_handler (int k))) GATE_INT"
    if "k < 128" for k
    using 1(3) that by (simp add: vector_handler_def lidt_def split: option.split)
  have "gd_selector (gate_desc_set x y z) = x" "gd_attr (gate_desc_set x y z) = z" for x y z
    by (simp_all add: gate_desc_set_def)
  moreover have "irq_init tb link s = Inr (init_pic s1)"
    using 1(1) by (simp add: irq_init_def)
  ultimately show ?thesis using 1(2) g r by (simp add: gate_offset_set bit_numeral_word_iff)
qed

theorem irq_init_vectors_witness:
  "\<exists>s'. irq_init 0x9000 (\<lambda>h. if h = Isr_page_fault then 0x1000 else 0x2000)
       \<lparr>eflags = 0, cr3 = 0, port_out = [], port_in = (\<lambda>_ _. 0xff), port_reads = (\<lambda>_. 0), klogs = [],
        idt_table = [], idtr = (0, 0, 0)\<rparr> = Inr s' \<and>
     gate_offset (idt_table s' ! 14) = 0x1000 \<and> gate_offset (idt_table s' ! 9) = 0x2000"
proof -
  have "vector_handler 14 = Isr_page_fault" "vector_handler 9 = Isr_unknown"
    by (simp_all add: vector_handler_def exception_vectors_def)
  moreover obtain s' where "irq_init 0x9000 (\<lambda>h. if h = Isr_page_fault then 0x1000 else 0x2000)
       \<lparr>eflags = 0, cr3 = 0, port_out = [], port_in = (\<lambda>_ _. 0xff), port_reads = (\<lambda>_. 0), klogs = [],
        idt_table = [], idtr = (0, 0, 0)\<rparr> = Inr s'"
    "\<forall>k < 128. gate_offset (idt_table s' ! k) = (if vector_handler (int k) = Isr_page_fault then 0x1000 else 0x2000)"
    using irq_init_vectors [of "0x9000" "\<lambda>h. if h = Isr_page_fault then 0x1000 else 0x2000"
       "\<lparr>eflags = 0, cr3 = 0, port_out = [], port_in = (\<lambda>_ _. 0xff), port_reads = (\<lambda>_. 0), klogs = [],
        idt_table = [], idtr = (0, 0, 0)\<rparr>"] by blast
  ultimately show ?thesis by (intro exI [of _ s']) (simp add: \<open>\<forall>k < 128. _\<close>)
qed

text \<open>
  \<open>irq_enable\<close> of a line behind the controllers reads the mask register of the
  controller that owns the line and writes it back with exactly that line's bit cleared;
  \<open>irq_disable\<close> writes it back with exactly that bit set.
\<close>

theorem irq_mask_line:
  assumes "0x20 \<le> n" "n < 0x30"
  shows "let p = (if n < 0x28 then 0x21 else 0xa1); k = nat (n - (if n < 0x28 then 0x20 else 0x28));
             m = port_in s p (port_reads s p)
         in (\<exists>w. port_out (irq_enable n s) = port_out s @ [(p, w)] \<and>
               (\<forall>i < 8. bit w i \<longleftrightarrow> bit m i \<and> i \<noteq> k)) \<and>
            (\<exists>w. port_out (irq_disable n s) = port_out s @ [(p, w)] \<and>
               (\<forall>i < 8. bit w i \<longleftrightarrow> bit m i \<or> i = k))"
  using assms
  by (auto simp: irq_enable_def irq_disable_def inb_def outb_def Let_def bit_simps)

theorem irq_mask_line_witness:
  "\<exists>w. port_out (irq_enable 0x21 \<lparr>eflags = 0, cr3 = 0, port_out = [], port_in = (\<lambda>_ _. 0xff),
       port_reads = (\<lambda>_. 0), klogs = [], idt_table = [], idtr = (0, 0, 0)\<rparr>) = [(0x21, w)] \<and> \<not> bit w 1 \<and> bit w 0"
  using irq_mask_line [of "0x21" "\<lparr>eflags = 0, cr3 = 0, port_out = [], port_in = (\<lambda>_ _. 0xff),
       port_reads = (\<lambda>_. 0), klogs = [], idt_table = [], idtr = (0, 0, 0)\<rparr>"]
  by (auto simp: Let_def bit_numeral_word_iff)

end
