(* ===== verification/Scheduler.thy ===== *)
theory Scheduler
  imports Intrusive_List Interrupts
begin

text \<open>
  The task structure and the scheduler of src/src/kernel/task.c.  A \<open>task_t *\<close> is one
  of the two tasks inside the task manager or a slot of \<open>g_task_table\<close>; the three list
  nodes of a task live in the node store of Intrusive_List.

  A context switch is the \<open>Switch\<close> of the prelude: the hardware task switch stores the
  flags of the outgoing task in its TSS and loads the flags and the page directory of the
  incoming one, and the continuation of the outgoing task stands for its saved registers.
  So \<open>task_time_tick\<close>, which dispatches in its middle, does the rest of its work when its
  task runs again, as the code does.

  \<open>sched_rel s rs ss\<close> relates the state to the abstract scheduler: the sequence \<open>rs\<close> of
  ready tasks and the sequence \<open>ss\<close> of sleeping ones.  \<open>dispatched s rs\<close> is the
  contract of the scheduler: the current task is the first ready task, or the idle task
  when there is none.
\<close>

datatype task_state =
  TASK_CREATED | TASK_RUNNING | TASK_SLEEP | TASK_READY | TASK_WAITING | TASK_ZOMBIE

datatype tid = First_task | Idle_task | Slot nat

datatype node = Run_node tid | All_node tid | Wait_node tid

record tss_t =
  t_pre_link :: u32
  t_esp0 :: u32
  t_ss0 :: u32
  t_esp1 :: u32
  t_ss1 :: u32
  t_esp2 :: u32
  t_ss2 :: u32
  t_cr3 :: u32
  t_eip :: u32
  t_eflags :: u32
  t_eax :: u32
  t_ecx :: u32
  t_edx :: u32
  t_ebx :: u32
  t_esp :: u32
  t_ebp :: u32
  t_esi :: u32
  t_edi :: u32
  t_es :: u32
  t_cs :: u32
  t_ss :: u32
  t_ds :: u32
  t_fs :: u32
  t_gs :: u32
  t_ldt :: u32
  t_iomap :: u32

record task_t =
  tk_stack :: u32
  tk_state :: task_state
  tk_name :: string
  tk_pid :: u32
  tk_parent :: "tid option"
  tk_heap_start :: u32
  tk_heap_end :: u32
  tk_slice_ticks :: int
  tk_time_ticks :: int
  tk_sleep_ticks :: int
  tk_status :: int
  tk_file_table :: "nat option list"
  tk_tss :: tss_t
  tk_tss_sel :: u32

text \<open>\<open>task_manager_t\<close> (its two tasks are in \<open>tasks\<close>) and the node store.\<close>

record sched_state = cpu_state +
  nodes :: "node store"
  tasks :: "tid \<Rightarrow> task_t"
  curr_task :: tid
  ready_list :: "node list_t"
  sleep_list :: "node list_t"
  task_list :: "node list_t"
  app_code_sel :: int
  app_data_sel :: int

definition OS_TICK_MS :: u32 where "OS_TICK_MS = 10"

definition upd_task :: "tid \<Rightarrow> (task_t \<Rightarrow> task_t) \<Rightarrow> 'a sched_state_scheme \<Rightarrow> 'a sched_state_scheme" where
  "upd_task t f s = s\<lparr>tasks := (tasks s)(t := f (tasks s t))\<rparr>"

text \<open>\<open>list_node_parent(node, task_t, run_node)\<close> and its \<open>wait_node\<close> twin: null for null,
  and an invalid pointer, null here too, for a node that is embedded elsewhere.\<close>

fun run_node_parent :: "node option \<Rightarrow> tid option" where
  "run_node_parent (Some (Run_node t)) = Some t"
| "run_node_parent _ = None"

fun wait_node_parent :: "node option \<Rightarrow> tid option" where
  "wait_node_parent (Some (Wait_node t)) = Some t"
| "wait_node_parent _ = None"

subsection \<open>Ready list and dispatch\<close>

definition task_current :: "'a sched_state_scheme \<Rightarrow> tid" where
  "task_current s = curr_task s"

definition get_first_task :: tid where
  "get_first_task = First_task"

definition task_switch_from_to :: "tid \<Rightarrow> tid \<Rightarrow> 'a sched_state_scheme \<Rightarrow> 'a sched_state_scheme" where
  "task_switch_from_to from to s =
     (let s1 = upd_task from (\<lambda>t. t\<lparr>tk_tss := (tk_tss t)\<lparr>t_eflags := eflags s\<rparr>\<rparr>) s
      in s1\<lparr>eflags := t_eflags (tk_tss (tasks s1 to)), cr3 := t_cr3 (tk_tss (tasks s1 to))\<rparr>)"

definition task_set_ready :: "tid \<Rightarrow> 'a sched_state_scheme \<Rightarrow> 'a sched_state_scheme res" where
  "task_set_ready task s =
     (if task = Idle_task then Inr s
      else res_bind (list_insert_last (nodes s) (ready_list s) (Run_node task)) (\<lambda>(h, l).
             Inr (upd_task task (\<lambda>t. t\<lparr>tk_state := TASK_READY\<rparr>) (s\<lparr>nodes := h, ready_list := l\<rparr>))))"

definition task_set_block :: "tid \<Rightarrow> 'a sched_state_scheme \<Rightarrow> 'a sched_state_scheme" where
  "task_set_block task s =
     (if task = Idle_task then s
      else let (_, h, l) = list_delete (nodes s) (ready_list s) (Run_node task)
           in s\<lparr>nodes := h, ready_list := l\<rparr>)"

definition task_start :: "tid \<Rightarrow> 'a sched_state_scheme \<Rightarrow> 'a sched_state_scheme res" where
  "task_start task s =
     (let (st, s1) = irq_enter_proection s
      in res_bind (task_set_ready task s1) (\<lambda>s2. Inr (irq_leave_proection st s2)))"

definition task_next_run :: "'a sched_state_scheme \<Rightarrow> tid option" where
  "task_next_run s =
     (if list_count (ready_list s) = 0 then Some Idle_task
      else run_node_parent (list_first (ready_list s)))"

definition task_dispatch :: "'a sched_state_scheme \<Rightarrow> ('a sched_state_scheme, unit) outcome" where
  "task_dispatch s =
     (let (st, s1) = irq_enter_proection s
      in case task_next_run s1 of
           None \<Rightarrow> Fault NullDeref
         | Some to \<Rightarrow>
             if to \<noteq> curr_task s1
             then let from = task_current s1;
                      s2 = upd_task to (\<lambda>t. t\<lparr>tk_state := TASK_RUNNING\<rparr>) (s1\<lparr>curr_task := to\<rparr>)
                  in Switch (task_switch_from_to from to s2) (\<lambda>s3. Done () (irq_leave_proection st s3))
             else Done () (irq_leave_proection st s1))"

definition sys_yield :: "'a sched_state_scheme \<Rightarrow> ('a sched_state_scheme, int) outcome" where
  "sys_yield s =
     (let (st, s1) = irq_enter_proection s
      in kbind
           (if list_count (ready_list s1) > 1
            then let curr = task_current s1
                 in kbind (kstep (task_set_ready curr (task_set_block curr s1))) (\<lambda>_ s2. task_dispatch s2)
            else Done () s1)
           (\<lambda>_ s3. Done 0 (irq_leave_proection st s3)))"

subsection \<open>Sleeping and the clock\<close>

definition task_set_sleep :: "tid \<Rightarrow> u32 \<Rightarrow> 'a sched_state_scheme \<Rightarrow> 'a sched_state_scheme res" where
  "task_set_sleep task ticks s =
     (if ticks \<le> 0 then Inr s
      else let s1 = upd_task task (\<lambda>t. t\<lparr>tk_sleep_ticks := sint ticks, tk_state := TASK_SLEEP\<rparr>) s
           in res_bind (list_insert_last (nodes s1) (sleep_list s1) (Run_node task)) (\<lambda>(h, l).
                Inr (s1\<lparr>nodes := h, sleep_list := l\<rparr>)))"

definition task_set_wakeup :: "tid \<Rightarrow> 'a sched_state_scheme \<Rightarrow> 'a sched_state_scheme" where
  "task_set_wakeup task s =
     (let (_, h, l) = list_delete (nodes s) (sleep_list s) (Run_node task)
      in s\<lparr>nodes := h, sleep_list := l\<rparr>)"

definition sys_sleep :: "u32 \<Rightarrow> 'a sched_state_scheme \<Rightarrow> ('a sched_state_scheme, unit) outcome" where
  "sys_sleep ms s =
     (let (st, s1) = irq_enter_proection s;
          curr = task_current s1
      in kbind (kstep (task_set_sleep curr (ms div OS_TICK_MS) (task_set_block curr s1))) (\<lambda>_ s2.
         kbind (task_dispatch s2) (\<lambda>_ s3.
         Done () (irq_leave_proection st s3))))"

text \<open>The loop of \<open>task_time_tick\<close> over the sleep list.  It reads the successor before it
  may unlink the node.  On a broken list it may run for ever, so it is partial.\<close>

definition sleep_tick :: "node \<Rightarrow> 'a sched_state_scheme \<Rightarrow> 'a sched_state_scheme res" where
  "sleep_tick n s =
     (case run_node_parent (Some n) of
        None \<Rightarrow> Inl NullDeref
      | Some task \<Rightarrow>
          let s1 = upd_task task (\<lambda>t. t\<lparr>tk_sleep_ticks := tk_sleep_ticks t - 1\<rparr>) s
          in if tk_sleep_ticks (tasks s1 task) = 0
             then task_set_ready task (task_set_wakeup task s1)
             else Inr s1)"

partial_function (option) sleep_tick_loop ::
  "node option \<Rightarrow> 'a sched_state_scheme \<Rightarrow> 'a sched_state_scheme res option" where
  "sleep_tick_loop cur s =
     (case cur of
        None \<Rightarrow> Some (Inr s)
      | Some n \<Rightarrow>
          (case sleep_tick n s of
             Inl e \<Rightarrow> Some (Inl e)
           | Inr s1 \<Rightarrow> sleep_tick_loop (list_node_next (nodes s) n) s1))"

definition task_sleep_scan :: "'a sched_state_scheme \<Rightarrow> 'a sched_state_scheme res" where
  "task_sleep_scan s =
     (case sleep_tick_loop (list_first (sleep_list s)) s of None \<Rightarrow> Inl Diverges | Some r \<Rightarrow> r)"

text \<open>The second half of \<open>task_time_tick\<close>, after the time slice.\<close>

definition task_tick_sleepers :: "'a sched_state_scheme \<Rightarrow> ('a sched_state_scheme, unit) outcome" where
  "task_tick_sleepers s = kbind (kstep (task_sleep_scan s)) (\<lambda>_ s'. task_dispatch s')"

text \<open>The guard \<open>&g_task_manager.ready_list.count > 0\<close> compares an address and is always true.\<close>

definition task_time_tick :: "'a sched_state_scheme \<Rightarrow> ('a sched_state_scheme, unit) outcome" where
  "task_time_tick s =
     (let curr = task_current s;
          s1 = upd_task curr (\<lambda>t. t\<lparr>tk_slice_ticks := tk_slice_ticks t - 1\<rparr>) s
      in kbind
           (if tk_slice_ticks (tasks s1 curr) = 0
            then let s2 = upd_task curr (\<lambda>t. t\<lparr>tk_slice_ticks := tk_time_ticks t\<rparr>) s1
                 in kbind (kstep (task_set_ready curr (task_set_block curr s2))) (\<lambda>_ s3. task_dispatch s3)
            else Done () s1)
           (\<lambda>_ s4. task_tick_sleepers s4))"

definition sys_getpid :: "'a sched_state_scheme \<Rightarrow> u32" where
  "sys_getpid s = tk_pid (tasks s (task_current s))"

subsection \<open>Open files of the current task\<close>

fun free_fd :: "nat \<Rightarrow> nat option list \<Rightarrow> nat option" where
  "free_fd i [] = None"
| "free_fd i (p # ps) = (if p = None then Some i else free_fd (Suc i) ps)"

definition task_alloc_fd :: "nat \<Rightarrow> 'a sched_state_scheme \<Rightarrow> int \<times> 'a sched_state_scheme" where
  "task_alloc_fd file s =
     (let t = task_current s
      in case free_fd 0 (tk_file_table (tasks s t)) of
           None \<Rightarrow> (-1, s)
         | Some i \<Rightarrow> (int i, upd_task t (\<lambda>k. k\<lparr>tk_file_table := (tk_file_table k)[i := Some file]\<rparr>) s))"

definition task_remove_fd :: "int \<Rightarrow> 'a sched_state_scheme \<Rightarrow> 'a sched_state_scheme" where
  "task_remove_fd fd s =
     (if 0 \<le> fd \<and> fd < 128
      then upd_task (task_current s) (\<lambda>k. k\<lparr>tk_file_table := (tk_file_table k)[nat fd := None]\<rparr>) s
      else s)"

definition task_file :: "int \<Rightarrow> 'a sched_state_scheme \<Rightarrow> nat option" where
  "task_file fd s =
     (if 0 \<le> fd \<and> fd < 128 then tk_file_table (tasks s (task_current s)) ! nat fd else None)"

subsection \<open>The abstract scheduler\<close>

definition sched_rel :: "'a sched_state_scheme \<Rightarrow> tid list \<Rightarrow> tid list \<Rightarrow> bool" where
  "sched_rel s rs ss \<longleftrightarrow>
     dll (nodes s) (ready_list s) (map Run_node rs) \<and>
     dll (nodes s) (sleep_list s) (map Run_node ss) \<and>
     set rs \<inter> set ss = {} \<and> Idle_task \<notin> set rs \<union> set ss"

definition next_of :: "tid list \<Rightarrow> tid" where
  "next_of rs = (case rs of [] \<Rightarrow> Idle_task | t # _ \<Rightarrow> t)"

definition dispatched :: "'a sched_state_scheme \<Rightarrow> tid list \<Rightarrow> bool" where
  "dispatched s rs \<longleftrightarrow> curr_task s = next_of rs"

text \<open>A change of the store that concerns run nodes only.\<close>

definition run_only :: "node store \<Rightarrow> node store \<Rightarrow> bool" where
  "run_only h h' \<longleftrightarrow> (\<forall>n. (\<forall>t. n \<noteq> Run_node t) \<longrightarrow> h' n = h n)"

definition switch_to :: "tid \<Rightarrow> 'a sched_state_scheme \<Rightarrow> 'a sched_state_scheme" where
  "switch_to to s =
     task_switch_from_to (curr_task s) to
       (upd_task to (\<lambda>t. t\<lparr>tk_state := TASK_RUNNING\<rparr>) ((irq_disable_global s)\<lparr>curr_task := to\<rparr>))"

lemma next_of_simps [simp]: "next_of [] = Idle_task" "next_of (t # rs) = t"
  by (simp_all add: next_of_def)

lemma run_only_refl [simp]: "run_only h h"
  by (simp add: run_only_def)

lemma run_only_trans: "run_only h h' \<Longrightarrow> run_only h' h'' \<Longrightarrow> run_only h h''"
  by (simp add: run_only_def)

lemma run_onlyD: "run_only h h' \<Longrightarrow> \<forall>t. n \<noteq> Run_node t \<Longrightarrow> h' n = h n"
  by (simp add: run_only_def)

lemma run_only_lists:
  "run_only h h' \<longleftrightarrow> (\<forall>t. h' (Wait_node t) = h (Wait_node t) \<and> h' (All_node t) = h (All_node t))"
  by (auto simp: run_only_def) (metis node.exhaust)

lemma upd_task_sel [sched_simps, simp]:
  "nodes (upd_task t f s) = nodes s" "ready_list (upd_task t f s) = ready_list s"
  "sleep_list (upd_task t f s) = sleep_list s" "task_list (upd_task t f s) = task_list s"
  "curr_task (upd_task t f s) = curr_task s" "eflags (upd_task t f s) = eflags s"
  "cr3 (upd_task t f s) = cr3 s"
  "tasks (upd_task t f s) = (tasks s)(t := f (tasks s t))"
  by (simp_all add: upd_task_def)

lemma irq_sel [sched_simps, simp]:
  "nodes (irq_disable_global s) = nodes s" "ready_list (irq_disable_global s) = ready_list s"
  "sleep_list (irq_disable_global s) = sleep_list s" "curr_task (irq_disable_global s) = curr_task s"
  "tasks (irq_disable_global s) = tasks s" "cr3 (irq_disable_global s) = cr3 s"
  "task_list (irq_disable_global s) = task_list s"
  "nodes (irq_leave_proection st s) = nodes s" "ready_list (irq_leave_proection st s) = ready_list s"
  "sleep_list (irq_leave_proection st s) = sleep_list s"
  "curr_task (irq_leave_proection st s) = curr_task s"
  "tasks (irq_leave_proection st s) = tasks s" "cr3 (irq_leave_proection st s) = cr3 s"
  "task_list (irq_leave_proection st s) = task_list s"
  "eflags (irq_leave_proection st s) = st"
  by (simp_all add: irq_disable_global_def irq_leave_proection_def)

lemma irq_leave_disable [simp]: "irq_leave_proection (eflags s) (irq_disable_global s) = s"
  by (simp add: irq_leave_proection_def irq_disable_global_def)

lemma irq_enter_eq [simp]: "irq_enter_proection s = (eflags s, irq_disable_global s)"
  by (simp add: irq_enter_proection_def)

lemma switch_to_sel [sched_simps, simp]:
  "nodes (switch_to to s) = nodes s" "ready_list (switch_to to s) = ready_list s"
  "sleep_list (switch_to to s) = sleep_list s" "curr_task (switch_to to s) = to"
  "task_list (switch_to to s) = task_list s"
  by (simp_all add: switch_to_def task_switch_from_to_def irq_disable_global_def)

lemma sched_rel_cong:
  "nodes s' = nodes s \<Longrightarrow> ready_list s' = ready_list s \<Longrightarrow> sleep_list s' = sleep_list s \<Longrightarrow>
   sched_rel s' rs ss = sched_rel s rs ss"
  by (simp add: sched_rel_def)

lemma sched_rel_simps [sched_simps, simp]:
  "sched_rel (upd_task t f s) rs ss = sched_rel s rs ss"
  "sched_rel (irq_disable_global s) rs ss = sched_rel s rs ss"
  "sched_rel (irq_leave_proection st s) rs ss = sched_rel s rs ss"
  "sched_rel (switch_to to s) rs ss = sched_rel s rs ss"
  by (simp_all add: sched_rel_def)

lemma sched_rel_unique:
  assumes "sched_rel s rs ss" "sched_rel s rs' ss'" shows "rs = rs' \<and> ss = ss'"
proof -
  have "map Run_node rs = map Run_node rs'" "map Run_node ss = map Run_node ss'"
    using assms by (auto simp: sched_rel_def dest: dll_unique)
  then show ?thesis by (auto simp: inj_def dest: map_injective)
qed

lemma sched_rel_distinct: "sched_rel s rs ss \<Longrightarrow> distinct rs \<and> distinct ss"
  by (auto simp: sched_rel_def dest!: dll_distinct simp: distinct_map)

subsection \<open>The operations on the abstract scheduler\<close>

lemma task_set_ready_rel:
  assumes "sched_rel s rs ss" "t \<notin> set rs \<union> set ss" "t \<noteq> Idle_task"
  shows "\<exists>h l. task_set_ready t s =
             Inr (upd_task t (\<lambda>k. k\<lparr>tk_state := TASK_READY\<rparr>) (s\<lparr>nodes := h, ready_list := l\<rparr>)) \<and>
           sched_rel (s\<lparr>nodes := h, ready_list := l\<rparr>) (rs @ [t]) ss \<and> run_only (nodes s) h"
proof -
  have r: "dll (nodes s) (ready_list s) (map Run_node rs)"
    and sl: "dll (nodes s) (sleep_list s) (map Run_node ss)" and n: "Run_node t \<notin> set (map Run_node rs)"
    using assms by (auto simp: sched_rel_def)
  obtain h l where hl: "list_insert_last (nodes s) (ready_list s) (Run_node t) = Inr (h, l)"
    "\<forall>y. y \<notin> set (map Run_node rs @ [Run_node t]) \<longrightarrow> h y = nodes s y"
    using klist.enq_law [OF r n] by blast
  have "dll h l (map Run_node rs @ [Run_node t]) \<and> dll h (sleep_list s) (map Run_node ss)"
    using assms by (intro klist.enq_sep [OF r n hl(1) sl]) (auto simp: sched_rel_def)
  moreover have "run_only (nodes s) h" using hl(2) by (auto simp: run_only_def)
  ultimately show ?thesis
    using assms hl(1) by (auto simp: task_set_ready_def sched_rel_def)
qed

lemma task_set_block_rel:
  assumes "sched_rel s (xs @ t # ys) ss"
  shows "\<exists>h l. task_set_block t s = s\<lparr>nodes := h, ready_list := l\<rparr> \<and>
           sched_rel (s\<lparr>nodes := h, ready_list := l\<rparr>) (xs @ ys) ss \<and> run_only (nodes s) h"
proof -
  have r: "dll (nodes s) (ready_list s) (map Run_node xs @ Run_node t # map Run_node ys)"
    and sl: "dll (nodes s) (sleep_list s) (map Run_node ss)"
    using assms by (auto simp: sched_rel_def)
  obtain h l where hl: "list_delete (nodes s) (ready_list s) (Run_node t) = (Run_node t, h, l)"
    "\<forall>y. y \<notin> set (map Run_node xs @ Run_node t # map Run_node ys) \<longrightarrow> h y = nodes s y"
    using klist.unlink_law [OF r] by blast
  have "dll h l (map Run_node xs @ map Run_node ys) \<and> dll h (sleep_list s) (map Run_node ss)"
    using klist.unlink_sep [OF r hl(1) sl] assms by (auto simp: sched_rel_def)
  moreover have "run_only (nodes s) h" using hl(2) by (auto simp: run_only_def)
  ultimately show ?thesis
    using assms hl(1) by (auto simp: task_set_block_def sched_rel_def)
qed

lemma task_set_wakeup_rel:
  assumes "sched_rel s rs (xs @ t # ys)"
  shows "\<exists>h l. task_set_wakeup t s = s\<lparr>nodes := h, sleep_list := l\<rparr> \<and>
           sched_rel (s\<lparr>nodes := h, sleep_list := l\<rparr>) rs (xs @ ys) \<and> run_only (nodes s) h"
proof -
  have r: "dll (nodes s) (sleep_list s) (map Run_node xs @ Run_node t # map Run_node ys)"
    and sl: "dll (nodes s) (ready_list s) (map Run_node rs)"
    using assms by (auto simp: sched_rel_def)
  obtain h l where hl: "list_delete (nodes s) (sleep_list s) (Run_node t) = (Run_node t, h, l)"
    "\<forall>y. y \<notin> set (map Run_node xs @ Run_node t # map Run_node ys) \<longrightarrow> h y = nodes s y"
    using klist.unlink_law [OF r] by blast
  have "dll h l (map Run_node xs @ map Run_node ys) \<and> dll h (ready_list s) (map Run_node rs)"
    using klist.unlink_sep [OF r hl(1) sl] assms by (auto simp: sched_rel_def)
  moreover have "run_only (nodes s) h" using hl(2) by (auto simp: run_only_def)
  ultimately show ?thesis
    using assms hl(1) by (auto simp: task_set_wakeup_def sched_rel_def)
qed

lemma task_set_sleep_rel:
  assumes "sched_rel s rs ss" "t \<notin> set rs \<union> set ss" "t \<noteq> Idle_task" "n \<noteq> 0"
  shows "\<exists>h l. task_set_sleep t n s =
             Inr (upd_task t (\<lambda>k. k\<lparr>tk_sleep_ticks := sint n, tk_state := TASK_SLEEP\<rparr>)
                    (s\<lparr>nodes := h, sleep_list := l\<rparr>)) \<and>
           sched_rel (s\<lparr>nodes := h, sleep_list := l\<rparr>) rs (ss @ [t]) \<and> run_only (nodes s) h"
proof -
  have r: "dll (nodes s) (sleep_list s) (map Run_node ss)"
    and sl: "dll (nodes s) (ready_list s) (map Run_node rs)" and m: "Run_node t \<notin> set (map Run_node ss)"
    using assms by (auto simp: sched_rel_def)
  obtain h l where hl: "list_insert_last (nodes s) (sleep_list s) (Run_node t) = Inr (h, l)"
    "\<forall>y. y \<notin> set (map Run_node ss @ [Run_node t]) \<longrightarrow> h y = nodes s y"
    using klist.enq_law [OF r m] by blast
  have "dll h l (map Run_node ss @ [Run_node t]) \<and> dll h (ready_list s) (map Run_node rs)"
    using assms by (intro klist.enq_sep [OF r m hl(1) sl]) (auto simp: sched_rel_def)
  moreover have "run_only (nodes s) h" using hl(2) by (auto simp: run_only_def)
  ultimately show ?thesis
    using assms hl(1) by (auto simp: task_set_sleep_def sched_rel_def upd_task_def)
qed

lemma task_next_run_rel: "sched_rel s rs ss \<Longrightarrow> task_next_run s = Some (next_of rs)"
  using dll_count [of "nodes s" "ready_list s" "map Run_node rs"]
    dll_first [of "nodes s" "ready_list s" "map Run_node rs"]
  by (cases rs) (auto simp: task_next_run_def sched_rel_def)

lemma task_dispatch_rel:
  assumes "sched_rel s rs ss"
  shows "task_dispatch s =
     (if next_of rs = curr_task s then Done () s
      else Switch (switch_to (next_of rs) s) (\<lambda>s3. Done () (irq_leave_proection (eflags s) s3)))"
  using assms task_next_run_rel [of "irq_disable_global s" rs ss]
  by (simp add: task_dispatch_def switch_to_def task_current_def)

end
