(* ===== verification/Scheduler_Laws.thy ===== *)
theory Scheduler_Laws
  imports Scheduler
begin

text \<open>
  The operations of the scheduler on the abstract ready and sleep queues: what
  \<open>sys_yield\<close>, \<open>sys_sleep\<close> and \<open>task_time_tick\<close> do to them, and that each one ends, or
  switches, in a state in which the right task is current.  The lemmas name the state at
  the switch explicitly, so that the later theories can compose them.
\<close>

lemma switch_to_tasks:
  "tk_sleep_ticks (tasks (switch_to u s) t) = tk_sleep_ticks (tasks s t)"
  "tk_slice_ticks (tasks (switch_to u s) t) = tk_slice_ticks (tasks s t)"
  "tk_state (tasks (switch_to u s) t) = (if t = u then TASK_RUNNING else tk_state (tasks s t))"
  "t_cr3 (tk_tss (tasks (switch_to u s) t)) = t_cr3 (tk_tss (tasks s t))"
  "cr3 (switch_to u s) = t_cr3 (tk_tss (tasks s u))"
  by (simp_all add: switch_to_def task_switch_from_to_def)

lemma irq_leave_twice [simp]:
  "irq_leave_proection a (irq_leave_proection b s) = irq_leave_proection a s"
  by (simp add: irq_leave_proection_def)

text \<open>Record updates in the order of the fields.\<close>

lemma sched_upd_commute [simp]:
  "s\<lparr>ready_list := l, nodes := h\<rparr> = s\<lparr>nodes := h, ready_list := l\<rparr>"
  "s\<lparr>sleep_list := m, nodes := h\<rparr> = s\<lparr>nodes := h, sleep_list := m\<rparr>"
  "s\<lparr>sleep_list := m, ready_list := l\<rparr> = s\<lparr>ready_list := l, sleep_list := m\<rparr>"
  for s :: "'a sched_state_scheme"
  by simp_all

subsection \<open>Yielding\<close>

text \<open>Taking a ready task out and putting it back moves it to the end of the queue.\<close>

lemma requeue_rel:
  assumes "sched_rel s (xs @ t # ys) ss"
  shows "\<exists>h l. task_set_ready t (task_set_block t s) =
             Inr (upd_task t (\<lambda>k. k\<lparr>tk_state := TASK_READY\<rparr>) (s\<lparr>nodes := h, ready_list := l\<rparr>)) \<and>
           sched_rel (s\<lparr>nodes := h, ready_list := l\<rparr>) (xs @ ys @ [t]) ss \<and> run_only (nodes s) h"
proof -
  obtain h1 l1 where 1: "task_set_block t s = s\<lparr>nodes := h1, ready_list := l1\<rparr>"
    "sched_rel (s\<lparr>nodes := h1, ready_list := l1\<rparr>) (xs @ ys) ss" "run_only (nodes s) h1"
    using task_set_block_rel [OF assms] by blast
  have "t \<notin> set (xs @ ys) \<union> set ss" "t \<noteq> Idle_task"
    using assms sched_rel_distinct [OF assms] by (auto simp: sched_rel_def)
  from task_set_ready_rel [OF 1(2) this] 1 show ?thesis
    by (auto intro: run_only_trans)
qed

lemma sys_yield_alone: "sched_rel s rs ss \<Longrightarrow> length rs \<le> 1 \<Longrightarrow> sys_yield s = Done 0 s"
  using dll_count [of "nodes s" "ready_list s" "map Run_node rs"]
  by (simp add: sys_yield_def sched_rel_def)

lemma sys_yield_switch:
  assumes "sched_rel s (t # u # rs) ss" "curr_task s = t"
  shows "\<exists>s1. sys_yield s = Switch (switch_to u s1) (\<lambda>s3. Done 0 (irq_leave_proection (eflags s) s3)) \<and>
           sched_rel s1 (u # rs @ [t]) ss \<and> run_only (nodes s) (nodes s1) \<and>
           s1 = upd_task t (\<lambda>k. k\<lparr>tk_state := TASK_READY\<rparr>)
                 ((irq_disable_global s)\<lparr>nodes := nodes s1, ready_list := ready_list s1\<rparr>)"
proof -
  let ?d = "irq_disable_global s"
  have d: "sched_rel ?d ([] @ t # u # rs) ss" using assms by simp
  obtain h l where hl: "task_set_ready t (task_set_block t ?d) =
      Inr (upd_task t (\<lambda>k. k\<lparr>tk_state := TASK_READY\<rparr>) (?d\<lparr>nodes := h, ready_list := l\<rparr>))"
    "sched_rel (?d\<lparr>nodes := h, ready_list := l\<rparr>) (u # rs @ [t]) ss" "run_only (nodes s) h"
    using requeue_rel [OF d] by auto
  let ?s1 = "upd_task t (\<lambda>k. k\<lparr>tk_state := TASK_READY\<rparr>) (?d\<lparr>nodes := h, ready_list := l\<rparr>)"
  have c: "list_count (ready_list s) = int (length (t # u # rs))"
    using assms(1) dll_count [of "nodes s" "ready_list s" "map Run_node (t # u # rs)"]
    by (simp add: sched_rel_def)
  have r: "sched_rel ?s1 (u # rs @ [t]) ss" using hl(2) by simp
  have "u \<noteq> t" using sched_rel_distinct [OF assms(1)] by auto
  then have "task_dispatch ?s1 =
      Switch (switch_to u ?s1) (\<lambda>s3. Done () (irq_leave_proection (eflags ?s1) s3))"
    using task_dispatch_rel [OF r] assms(2) by simp
  then have "sys_yield s = Switch (switch_to u ?s1) (\<lambda>s3. Done 0 (irq_leave_proection (eflags s) s3))"
    using c hl(1) assms(2) by (simp add: sys_yield_def task_current_def)
  with r hl show ?thesis by (intro exI [of _ ?s1]) auto
qed

subsection \<open>Sleeping\<close>

lemma u32_tick_bound: "sint ((ms :: u32) div 10) = uint ms div 10"
proof -
  have "uint ms < 2 ^ 32" using unsigned_less [of ms] by simp
  then have "uint ms div 10 < 2 ^ 31" "0 \<le> uint ms div 10"
    by (simp_all add: pos_imp_zdiv_nonneg_iff)
  then show ?thesis
    by (simp add: sint_uint uint_div signed_take_bit_int_eq_self)
qed

lemma u32_tick_zero: "(ms :: u32) div 10 = 0 \<longleftrightarrow> uint ms < 10"
proof -
  have "(ms div 10 = 0) = (uint (ms div 10) = 0)" by (rule unsigned_eq_0_iff [symmetric])
  also have "\<dots> = (uint ms div 10 = 0)" by (simp only: uint_div) simp
  also have "\<dots> = (uint ms < 10)" by (auto simp: zdiv_eq_0_iff)
  finally show ?thesis .
qed

lemma sys_sleep_switch:
  assumes "sched_rel s (t # rs) ss" "curr_task s = t" "10 \<le> uint ms"
  shows "\<exists>s1. sys_sleep ms s =
             Switch (switch_to (next_of rs) s1) (\<lambda>s3. Done () (irq_leave_proection (eflags s) s3)) \<and>
           sched_rel s1 rs (ss @ [t]) \<and> run_only (nodes s) (nodes s1) \<and>
           s1 = upd_task t (\<lambda>k. k\<lparr>tk_sleep_ticks := uint ms div 10, tk_state := TASK_SLEEP\<rparr>)
             ((irq_disable_global s)\<lparr>nodes := nodes s1, ready_list := ready_list s1, sleep_list := sleep_list s1\<rparr>)"
proof -
  let ?d = "irq_disable_global s"
  have d: "sched_rel ?d ([] @ t # rs) ss" using assms by simp
  have t: "t \<notin> set rs \<union> set ss" "t \<noteq> Idle_task" "next_of rs \<noteq> t"
    using assms(1) sched_rel_distinct [OF assms(1)] by (cases rs, auto simp: sched_rel_def)+
  have n: "ms div 10 \<noteq> 0" using assms(3) u32_tick_zero [of ms] by simp
  obtain h1 l1 where 1: "task_set_block t ?d = ?d\<lparr>nodes := h1, ready_list := l1\<rparr>"
    "sched_rel (?d\<lparr>nodes := h1, ready_list := l1\<rparr>) rs ss" "run_only (nodes s) h1"
    using task_set_block_rel [OF d] by auto
  obtain h2 l2 where 2: "task_set_sleep t (ms div 10) (?d\<lparr>nodes := h1, ready_list := l1\<rparr>) =
      Inr (upd_task t (\<lambda>k. k\<lparr>tk_sleep_ticks := sint (ms div 10), tk_state := TASK_SLEEP\<rparr>)
             (?d\<lparr>nodes := h2, ready_list := l1, sleep_list := l2\<rparr>))"
    "sched_rel (?d\<lparr>nodes := h2, ready_list := l1, sleep_list := l2\<rparr>) rs (ss @ [t])" "run_only h1 h2"
    using task_set_sleep_rel [OF 1(2) t(1,2) n] by auto
  let ?s1 = "upd_task t (\<lambda>k. k\<lparr>tk_sleep_ticks := uint ms div 10, tk_state := TASK_SLEEP\<rparr>)
             (?d\<lparr>nodes := h2, ready_list := l1, sleep_list := l2\<rparr>)"
  have r: "sched_rel ?s1 rs (ss @ [t])" using 2(2) by simp
  have "sys_sleep ms s =
      Switch (switch_to (next_of rs) ?s1) (\<lambda>s3. Done () (irq_leave_proection (eflags s) s3))"
    using task_dispatch_rel [OF r] 1(1) 2(1) assms(2) t(3) u32_tick_bound [of ms]
    by (simp add: sys_sleep_def task_current_def OS_TICK_MS_def)
  with r 1(3) 2(3) show ?thesis
    by (intro exI [of _ ?s1]) (auto intro: run_only_trans)
qed

lemma sys_sleep_short:
  assumes "sched_rel s (t # rs) ss" "curr_task s = t" "uint ms < 10"
  shows "\<exists>s1. sys_sleep ms s =
             Switch (switch_to (next_of rs) s1) (\<lambda>s3. Done () (irq_leave_proection (eflags s) s3)) \<and>
           sched_rel s1 rs ss \<and> run_only (nodes s) (nodes s1) \<and>
           s1 = (irq_disable_global s)\<lparr>nodes := nodes s1, ready_list := ready_list s1\<rparr>"
proof -
  let ?d = "irq_disable_global s"
  have d: "sched_rel ?d ([] @ t # rs) ss" using assms by simp
  have t: "next_of rs \<noteq> t"
    using assms(1) sched_rel_distinct [OF assms(1)] by (cases rs) (auto simp: sched_rel_def)
  have n: "ms div 10 = 0" using assms(3) u32_tick_zero [of ms] by simp
  obtain h1 l1 where 1: "task_set_block t ?d = ?d\<lparr>nodes := h1, ready_list := l1\<rparr>"
    "sched_rel (?d\<lparr>nodes := h1, ready_list := l1\<rparr>) rs ss" "run_only (nodes s) h1"
    using task_set_block_rel [OF d] by auto
  let ?s1 = "?d\<lparr>nodes := h1, ready_list := l1\<rparr>"
  have "sys_sleep ms s =
      Switch (switch_to (next_of rs) ?s1) (\<lambda>s3. Done () (irq_leave_proection (eflags s) s3))"
    using task_dispatch_rel [OF 1(2)] 1(1) assms(2) t n
    by (simp add: sys_sleep_def task_current_def OS_TICK_MS_def task_set_sleep_def)
  with 1 show ?thesis by (intro exI [of _ ?s1]) auto
qed

subsection \<open>The clock\<close>

definition wake_up :: "('t \<Rightarrow> int) \<Rightarrow> 't list \<Rightarrow> 't list" where
  "wake_up ticks ss = filter (\<lambda>t. ticks t = 1) ss"

definition stay_asleep :: "('t \<Rightarrow> int) \<Rightarrow> 't list \<Rightarrow> 't list" where
  "stay_asleep ticks ss = filter (\<lambda>t. ticks t \<noteq> 1) ss"

definition tick_task :: "task_t \<Rightarrow> task_t" where
  "tick_task k = k\<lparr>tk_sleep_ticks := tk_sleep_ticks k - 1,
     tk_state := (if tk_sleep_ticks k = 1 then TASK_READY else tk_state k)\<rparr>"

lemma sleep_tick_rel:
  assumes "sched_rel s rs (ks @ t # us)"
  shows "\<exists>h l m. sleep_tick (Run_node t) s =
             Inr (upd_task t tick_task (s\<lparr>nodes := h, ready_list := l, sleep_list := m\<rparr>)) \<and>
           run_only (nodes s) h \<and>
           sched_rel (s\<lparr>nodes := h, ready_list := l, sleep_list := m\<rparr>)
             (rs @ wake_up (\<lambda>t. tk_sleep_ticks (tasks s t)) [t])
             (ks @ stay_asleep (\<lambda>t. tk_sleep_ticks (tasks s t)) [t] @ us)"
proof (cases "tk_sleep_ticks (tasks s t) = 1")
  case True
  let ?s = "upd_task t (\<lambda>t. t\<lparr>tk_sleep_ticks := tk_sleep_ticks t - 1\<rparr>) s"
  have "sched_rel ?s rs (ks @ t # us)" using assms by simp
  then obtain h1 m1 where 1: "task_set_wakeup t ?s = ?s\<lparr>nodes := h1, sleep_list := m1\<rparr>"
    "sched_rel (?s\<lparr>nodes := h1, sleep_list := m1\<rparr>) rs (ks @ us)" "run_only (nodes s) h1"
    using task_set_wakeup_rel [of ?s rs ks t us] by auto
  have "t \<notin> set rs \<union> set (ks @ us)" "t \<noteq> Idle_task"
    using assms sched_rel_distinct [OF assms] by (auto simp: sched_rel_def)
  from task_set_ready_rel [OF 1(2) this] obtain h2 l2 where
    2: "task_set_ready t (?s\<lparr>nodes := h1, sleep_list := m1\<rparr>) =
        Inr (upd_task t (\<lambda>k. k\<lparr>tk_state := TASK_READY\<rparr>) (?s\<lparr>nodes := h2, ready_list := l2, sleep_list := m1\<rparr>))"
      "sched_rel (?s\<lparr>nodes := h2, ready_list := l2, sleep_list := m1\<rparr>) (rs @ [t]) (ks @ us)"
      "run_only h1 h2" by auto
  have "sched_rel (s\<lparr>nodes := h2, ready_list := l2, sleep_list := m1\<rparr>) (rs @ [t]) (ks @ us)"
    using 2(2) by (simp add: sched_rel_def)
  with True 1 2 show ?thesis
    by (intro exI [of _ h2] exI [of _ l2] exI [of _ m1])
       (auto simp: sleep_tick_def wake_up_def stay_asleep_def upd_task_def tick_task_def
         intro: run_only_trans)
next
  case False
  with assms show ?thesis
    by (intro exI [of _ "nodes s"] exI [of _ "ready_list s"] exI [of _ "sleep_list s"])
       (auto simp: sleep_tick_def wake_up_def stay_asleep_def upd_task_def tick_task_def sched_rel_def)
qed

lemma sleep_tick_loop_rel:
  assumes "sched_rel s rs (ks @ us)"
  shows "\<exists>h l m. sleep_tick_loop (hd_opt (map Run_node us)) s =
             Some (Inr (s\<lparr>nodes := h, ready_list := l, sleep_list := m,
                          tasks := (\<lambda>t. if t \<in> set us then tick_task (tasks s t) else tasks s t)\<rparr>)) \<and>
           run_only (nodes s) h \<and>
           sched_rel (s\<lparr>nodes := h, ready_list := l, sleep_list := m\<rparr>)
             (rs @ wake_up (\<lambda>t. tk_sleep_ticks (tasks s t)) us)
             (ks @ stay_asleep (\<lambda>t. tk_sleep_ticks (tasks s t)) us)"
  using assms
proof (induction us arbitrary: s rs ks)
  case Nil
  then show ?case
    by (intro exI [of _ "nodes s"] exI [of _ "ready_list s"] exI [of _ "sleep_list s"])
       (simp add: sleep_tick_loop.simps wake_up_def stay_asleep_def)
next
  case (Cons t us)
  let ?T = "\<lambda>t. tk_sleep_ticks (tasks s t)"
  obtain h1 l1 m1 where 1: "sleep_tick (Run_node t) s =
      Inr (upd_task t tick_task (s\<lparr>nodes := h1, ready_list := l1, sleep_list := m1\<rparr>))"
    "run_only (nodes s) h1"
    "sched_rel (s\<lparr>nodes := h1, ready_list := l1, sleep_list := m1\<rparr>)
       (rs @ wake_up ?T [t]) (ks @ stay_asleep ?T [t] @ us)"
    using sleep_tick_rel [OF Cons.prems] by blast
  let ?s1 = "upd_task t tick_task (s\<lparr>nodes := h1, ready_list := l1, sleep_list := m1\<rparr>)"
  have r1: "sched_rel ?s1 (rs @ wake_up ?T [t]) ((ks @ stay_asleep ?T [t]) @ us)"
    using 1(3) by simp
  have t: "t \<notin> set us"
    using sched_rel_distinct [OF Cons.prems] by auto
  then have eq: "wake_up (\<lambda>t. tk_sleep_ticks (tasks ?s1 t)) us = wake_up ?T us"
    "stay_asleep (\<lambda>t. tk_sleep_ticks (tasks ?s1 t)) us = stay_asleep ?T us"
    by (auto simp: wake_up_def stay_asleep_def intro!: filter_cong)
  have ts: "(\<lambda>u. if u \<in> set us then tick_task (tasks ?s1 u) else tasks ?s1 u) =
      (\<lambda>u. if u \<in> set (t # us) then tick_task (tasks s u) else tasks s u)"
    using t by (auto simp: fun_eq_iff)
  obtain h2 l2 m2 where 2: "sleep_tick_loop (hd_opt (map Run_node us)) ?s1 =
      Some (Inr (?s1\<lparr>nodes := h2, ready_list := l2, sleep_list := m2,
        tasks := (\<lambda>u. if u \<in> set (t # us) then tick_task (tasks s u) else tasks s u)\<rparr>))"
    "run_only h1 h2"
    "sched_rel (?s1\<lparr>nodes := h2, ready_list := l2, sleep_list := m2\<rparr>)
       ((rs @ wake_up ?T [t]) @ wake_up ?T us) ((ks @ stay_asleep ?T [t]) @ stay_asleep ?T us)"
    using Cons.IH [OF r1] unfolding eq ts by auto
  have "list_node_next (nodes s) (Run_node t) = hd_opt (map Run_node us)"
    using Cons.prems dll_next_node [of "nodes s" "sleep_list s" "map Run_node ks" "Run_node t"]
    by (simp add: sched_rel_def)
  then have lp: "sleep_tick_loop (hd_opt (map Run_node (t # us))) s =
      sleep_tick_loop (hd_opt (map Run_node us)) ?s1"
    using 1(1) by (simp add: sleep_tick_loop.simps [of "Some (Run_node t)"])
  have wk: "wake_up ?T (t # us) = wake_up ?T [t] @ wake_up ?T us"
    "stay_asleep ?T (t # us) = stay_asleep ?T [t] @ stay_asleep ?T us"
    by (simp_all add: wake_up_def stay_asleep_def)
  have st: "?s1\<lparr>nodes := h2, ready_list := l2, sleep_list := m2,
        tasks := (\<lambda>u. if u \<in> set (t # us) then tick_task (tasks s u) else tasks s u)\<rparr> =
      s\<lparr>nodes := h2, ready_list := l2, sleep_list := m2,
        tasks := (\<lambda>u. if u \<in> set (t # us) then tick_task (tasks s u) else tasks s u)\<rparr>"
    by (simp add: upd_task_def)
  have rel: "sched_rel (s\<lparr>nodes := h2, ready_list := l2, sleep_list := m2\<rparr>)
      (rs @ wake_up ?T [t] @ wake_up ?T us) (ks @ stay_asleep ?T [t] @ stay_asleep ?T us)"
    using 2(3) by (simp add: sched_rel_def)
  show ?case
    unfolding lp wk 2(1) st using rel run_only_trans [OF 1(2) 2(2)]
    by (intro exI [of _ h2] exI [of _ l2] exI [of _ m2] conjI refl)
qed

lemma task_sleep_scan_rel:
  assumes "sched_rel s rs ss"
  shows "\<exists>h l m. task_sleep_scan s =
             Inr (s\<lparr>nodes := h, ready_list := l, sleep_list := m,
                    tasks := (\<lambda>t. if t \<in> set ss then tick_task (tasks s t) else tasks s t)\<rparr>) \<and>
           run_only (nodes s) h \<and>
           sched_rel (s\<lparr>nodes := h, ready_list := l, sleep_list := m\<rparr>)
             (rs @ wake_up (\<lambda>t. tk_sleep_ticks (tasks s t)) ss)
             (stay_asleep (\<lambda>t. tk_sleep_ticks (tasks s t)) ss)"
proof -
  have "list_first (sleep_list s) = hd_opt (map Run_node ss)"
    using assms by (auto simp: sched_rel_def dll_first)
  then show ?thesis
    using sleep_tick_loop_rel [of s rs "[]" ss] assms unfolding task_sleep_scan_def by force
qed

abbreviation sleep_ticks :: "'a sched_state_scheme \<Rightarrow> tid \<Rightarrow> int" where
  "sleep_ticks s \<equiv> (\<lambda>t. tk_sleep_ticks (tasks s t))"

definition tick_sleepers :: "tid list \<Rightarrow> 'a sched_state_scheme \<Rightarrow> 'a sched_state_scheme \<Rightarrow> bool" where
  "tick_sleepers ss s s1 \<longleftrightarrow>
     s1 = s\<lparr>nodes := nodes s1, ready_list := ready_list s1, sleep_list := sleep_list s1,
            tasks := (\<lambda>t. if t \<in> set ss then tick_task (tasks s t) else tasks s t)\<rparr>"

lemma tick_sleepers_sel:
  assumes "tick_sleepers ss s s1"
  shows "curr_task s1 = curr_task s" "eflags s1 = eflags s" "cr3 s1 = cr3 s"
    "tasks s1 = (\<lambda>t. if t \<in> set ss then tick_task (tasks s t) else tasks s t)"
proof -
  obtain h l m ts where "s1 = s\<lparr>nodes := h, ready_list := l, sleep_list := m, tasks := ts\<rparr>"
    "ts = (\<lambda>t. if t \<in> set ss then tick_task (tasks s t) else tasks s t)"
    using assms unfolding tick_sleepers_def by metis
  then show "curr_task s1 = curr_task s" "eflags s1 = eflags s" "cr3 s1 = cr3 s"
    "tasks s1 = (\<lambda>t. if t \<in> set ss then tick_task (tasks s t) else tasks s t)"
    by simp_all
qed

lemma task_tick_sleepers_rel:
  assumes "sched_rel s rs ss"
  shows "\<exists>s1. sched_rel s1 (rs @ wake_up (sleep_ticks s) ss) (stay_asleep (sleep_ticks s) ss) \<and>
           run_only (nodes s) (nodes s1) \<and> tick_sleepers ss s s1 \<and>
           task_tick_sleepers s =
             (let u = next_of (rs @ wake_up (sleep_ticks s) ss)
              in if u = curr_task s then Done () s1
                 else Switch (switch_to u s1) (\<lambda>s3. Done () (irq_leave_proection (eflags s) s3)))"
proof -
  obtain h l m where 1: "task_sleep_scan s = Inr (s\<lparr>nodes := h, ready_list := l, sleep_list := m,
                    tasks := (\<lambda>t. if t \<in> set ss then tick_task (tasks s t) else tasks s t)\<rparr>)"
    "run_only (nodes s) h"
    "sched_rel (s\<lparr>nodes := h, ready_list := l, sleep_list := m\<rparr>)
       (rs @ wake_up (sleep_ticks s) ss) (stay_asleep (sleep_ticks s) ss)"
    using task_sleep_scan_rel [OF assms] by blast
  let ?s1 = "s\<lparr>nodes := h, ready_list := l, sleep_list := m,
               tasks := (\<lambda>t. if t \<in> set ss then tick_task (tasks s t) else tasks s t)\<rparr>"
  have r: "sched_rel ?s1 (rs @ wake_up (sleep_ticks s) ss) (stay_asleep (sleep_ticks s) ss)"
    using 1(3) by (simp add: sched_rel_def)
  have "tick_sleepers ss s ?s1" by (simp add: tick_sleepers_def)
  moreover have "task_tick_sleepers s = task_dispatch ?s1"
    using 1(1) by (simp add: task_tick_sleepers_def)
  ultimately show ?thesis
    using r 1(2) task_dispatch_rel [OF r] by (intro exI [of _ ?s1]) (simp add: Let_def)
qed

lemma task_time_tick_running:
  assumes "tk_slice_ticks (tasks s (curr_task s)) \<noteq> 1"
  shows "task_time_tick s =
           task_tick_sleepers (upd_task (curr_task s) (\<lambda>t. t\<lparr>tk_slice_ticks := tk_slice_ticks t - 1\<rparr>) s)"
  using assms by (simp add: task_time_tick_def task_current_def)

lemma task_time_tick_preempt:
  assumes "sched_rel s (t # u # rs) ss" "curr_task s = t" "tk_slice_ticks (tasks s t) = 1"
  shows "\<exists>s1. task_time_tick s = Switch (switch_to u s1)
             (\<lambda>s3. task_tick_sleepers (irq_leave_proection (eflags s) s3)) \<and>
           sched_rel s1 (u # rs @ [t]) ss \<and> run_only (nodes s) (nodes s1) \<and>
           s1 = upd_task t (\<lambda>k. k\<lparr>tk_slice_ticks := tk_time_ticks k, tk_state := TASK_READY\<rparr>)
                 (s\<lparr>nodes := nodes s1, ready_list := ready_list s1\<rparr>)"
proof -
  let ?f = "\<lambda>k. k\<lparr>tk_slice_ticks := tk_time_ticks k\<rparr>"
  let ?s2 = "upd_task t ?f (upd_task t (\<lambda>k. k\<lparr>tk_slice_ticks := tk_slice_ticks k - 1\<rparr>) s)"
  have r2: "sched_rel ?s2 ([] @ t # u # rs) ss" using assms by simp
  obtain h l where hl: "task_set_ready t (task_set_block t ?s2) =
      Inr (upd_task t (\<lambda>k. k\<lparr>tk_state := TASK_READY\<rparr>) (?s2\<lparr>nodes := h, ready_list := l\<rparr>))"
    "sched_rel (?s2\<lparr>nodes := h, ready_list := l\<rparr>) (u # rs @ [t]) ss" "run_only (nodes s) h"
    using requeue_rel [OF r2] by auto
  let ?s1 = "upd_task t (\<lambda>k. k\<lparr>tk_state := TASK_READY\<rparr>) (?s2\<lparr>nodes := h, ready_list := l\<rparr>)"
  have r: "sched_rel ?s1 (u # rs @ [t]) ss" using hl(2) by simp
  have "u \<noteq> t" using sched_rel_distinct [OF assms(1)] by auto
  then have "task_dispatch ?s1 =
      Switch (switch_to u ?s1) (\<lambda>s3. Done () (irq_leave_proection (eflags s) s3))"
    using task_dispatch_rel [OF r] assms(2) by simp
  then have "task_time_tick s = Switch (switch_to u ?s1)
      (\<lambda>s3. task_tick_sleepers (irq_leave_proection (eflags s) s3))"
    using assms(2,3) hl(1) by (simp add: task_time_tick_def task_current_def)
  moreover have "?s1 = upd_task t (\<lambda>k. k\<lparr>tk_slice_ticks := tk_time_ticks k, tk_state := TASK_READY\<rparr>)
                 (s\<lparr>nodes := h, ready_list := l\<rparr>)"
    by (simp add: upd_task_def)
  ultimately show ?thesis using r hl(3) by (intro exI [of _ ?s1]) simp
qed

text \<open>With at most one ready task, the end of a slice only renews the slice.\<close>

lemma task_time_tick_renew:
  assumes "sched_rel s rs ss" "dispatched s rs" "length rs \<le> 1" "tk_slice_ticks (tasks s (curr_task s)) = 1"
  shows "\<exists>s1 f. task_time_tick s = task_tick_sleepers s1 \<and> sched_rel s1 rs ss \<and>
           run_only (nodes s) (nodes s1) \<and> curr_task s1 = curr_task s \<and> eflags s1 = eflags s \<and>
           sleep_ticks s1 = sleep_ticks s \<and>
           s1 = upd_task (curr_task s) f (s\<lparr>nodes := nodes s1, ready_list := ready_list s1\<rparr>) \<and>
           (\<forall>k. tk_tss (f k) = tk_tss k)"
proof -
  let ?c = "curr_task s"
  let ?f = "\<lambda>k. k\<lparr>tk_slice_ticks := tk_time_ticks k\<rparr>"
  let ?s2 = "upd_task ?c ?f (upd_task ?c (\<lambda>k. k\<lparr>tk_slice_ticks := tk_slice_ticks k - 1\<rparr>) s)"
  have r2: "sched_rel ?s2 rs ss" using assms(1) by simp
  show ?thesis
  proof (cases rs)
    case Nil
    with assms(2) have c: "?c = Idle_task" by (simp add: dispatched_def)
    then have "task_set_ready ?c (task_set_block ?c ?s2) = Inr ?s2"
      by (simp add: task_set_ready_def task_set_block_def)
    moreover have "task_dispatch ?s2 = Done () ?s2"
      using task_dispatch_rel [OF r2] Nil c by simp
    ultimately have "task_time_tick s = task_tick_sleepers ?s2"
      using assms(4) by (simp add: task_time_tick_def task_current_def Let_def)
    with r2 show ?thesis
      by (intro exI [of _ ?s2] exI [of _ ?f]) (auto simp: upd_task_def fun_eq_iff)
  next
    case (Cons t rs')
    with assms(2,3) have c: "?c = t" and rs: "rs = [t]" by (auto simp: dispatched_def)
    have r3: "sched_rel ?s2 ([] @ t # []) ss" using r2 rs by simp
    obtain h l where hl: "task_set_ready t (task_set_block t ?s2) =
        Inr (upd_task t (\<lambda>k. k\<lparr>tk_state := TASK_READY\<rparr>) (?s2\<lparr>nodes := h, ready_list := l\<rparr>))"
      "sched_rel (?s2\<lparr>nodes := h, ready_list := l\<rparr>) [t] ss" "run_only (nodes s) h"
      using requeue_rel [OF r3] by auto
    let ?s1 = "upd_task t (\<lambda>k. k\<lparr>tk_state := TASK_READY\<rparr>) (?s2\<lparr>nodes := h, ready_list := l\<rparr>)"
    have r: "sched_rel ?s1 [t] ss" using hl(2) by simp
    have "task_dispatch ?s1 = Done () ?s1"
      using task_dispatch_rel [OF r] c by simp
    then have "task_time_tick s = task_tick_sleepers ?s1"
      using assms(4) hl(1) c by (simp add: task_time_tick_def task_current_def Let_def)
    with r hl(3) rs c show ?thesis
      by (intro exI [of _ ?s1] exI [of _ "\<lambda>k. k\<lparr>tk_slice_ticks := tk_time_ticks k, tk_state := TASK_READY\<rparr>"])
         (auto simp: upd_task_def fun_eq_iff)
  qed
qed

text \<open>The clock as seen by a sleeper: the scan of the sleep list, \<open>k\<close> times.\<close>

fun sleep_scans :: "nat \<Rightarrow> 'a sched_state_scheme \<Rightarrow> 'a sched_state_scheme res" where
  "sleep_scans 0 s = Inr s"
| "sleep_scans (Suc k) s = res_bind (task_sleep_scan s) (sleep_scans k)"

lemma sleep_scans_ready:
  "sched_rel s rs ss \<Longrightarrow> t \<in> set rs \<Longrightarrow>
   \<exists>s1 rs1 ss1. sleep_scans k s = Inr s1 \<and> sched_rel s1 rs1 ss1 \<and> t \<in> set rs1"
proof (induction k arbitrary: s rs ss)
  case (Suc k)
  from task_sleep_scan_rel [OF Suc.prems(1)] obtain h l m where 1:
    "task_sleep_scan s = Inr (s\<lparr>nodes := h, ready_list := l, sleep_list := m,
        tasks := (\<lambda>t. if t \<in> set ss then tick_task (tasks s t) else tasks s t)\<rparr>)"
    "sched_rel (s\<lparr>nodes := h, ready_list := l, sleep_list := m\<rparr>)
       (rs @ wake_up (sleep_ticks s) ss) (stay_asleep (sleep_ticks s) ss)" by blast
  let ?s1 = "s\<lparr>nodes := h, ready_list := l, sleep_list := m,
      tasks := (\<lambda>t. if t \<in> set ss then tick_task (tasks s t) else tasks s t)\<rparr>"
  have "sched_rel ?s1 (rs @ wake_up (sleep_ticks s) ss) (stay_asleep (sleep_ticks s) ss)"
    using 1(2) by (simp add: sched_rel_def)
  from Suc.IH [OF this] Suc.prems(2) 1(1) show ?case by simp
qed auto

lemma sleep_scans_counts:
  "sched_rel s rs ss \<Longrightarrow> t \<in> set ss \<Longrightarrow> tk_sleep_ticks (tasks s t) = int n \<Longrightarrow> 0 < n \<Longrightarrow>
   \<exists>s1 rs1 ss1. sleep_scans k s = Inr s1 \<and> sched_rel s1 rs1 ss1 \<and>
     (if k < n then t \<in> set ss1 \<and> tk_sleep_ticks (tasks s1 t) = int (n - k) else t \<in> set rs1)"
proof (induction k arbitrary: s rs ss n)
  case (Suc k)
  from task_sleep_scan_rel [OF Suc.prems(1)] obtain h l m where 1:
    "task_sleep_scan s = Inr (s\<lparr>nodes := h, ready_list := l, sleep_list := m,
        tasks := (\<lambda>t. if t \<in> set ss then tick_task (tasks s t) else tasks s t)\<rparr>)"
    "sched_rel (s\<lparr>nodes := h, ready_list := l, sleep_list := m\<rparr>)
       (rs @ wake_up (sleep_ticks s) ss) (stay_asleep (sleep_ticks s) ss)" by blast
  let ?s1 = "s\<lparr>nodes := h, ready_list := l, sleep_list := m,
      tasks := (\<lambda>t. if t \<in> set ss then tick_task (tasks s t) else tasks s t)\<rparr>"
  have r: "sched_rel ?s1 (rs @ wake_up (sleep_ticks s) ss) (stay_asleep (sleep_ticks s) ss)"
    using 1(2) by (simp add: sched_rel_def)
  show ?case
  proof (cases "n = 1")
    case True
    with Suc.prems have "t \<in> set (rs @ wake_up (sleep_ticks s) ss)" by (simp add: wake_up_def)
    from sleep_scans_ready [OF r this, of k] 1(1) True show ?thesis by simp
  next
    case False
    with Suc.prems have "t \<in> set (stay_asleep (sleep_ticks s) ss)" "tk_sleep_ticks (tasks ?s1 t) = int (n - 1)" "0 < n - 1"
      by (auto simp: stay_asleep_def tick_task_def of_nat_diff)
    from Suc.IH [OF r this] 1(1) False Suc.prems(4) show ?thesis
      by (auto simp: less_diff_conv diff_diff_eq Suc_diff_Suc split: if_splits)
  qed
qed auto

subsection \<open>Open files\<close>

lemma free_fd_iff:
  "free_fd i ps = Some j \<longleftrightarrow> i \<le> j \<and> j < i + length ps \<and> ps ! (j - i) = None \<and> (\<forall>k < j - i. ps ! k \<noteq> None)"
proof (induction ps arbitrary: i)
  case (Cons p ps)
  show ?case
  proof (cases "p = None")
    case True
    then show ?thesis by (cases "j - i") auto
  next
    case False
    then have "free_fd i (p # ps) = free_fd (Suc i) ps" by auto
    moreover have "(i \<le> j \<and> j < i + length (p # ps) \<and> (p # ps) ! (j - i) = None \<and> (\<forall>k < j - i. (p # ps) ! k \<noteq> None)) \<longleftrightarrow>
        (Suc i \<le> j \<and> j < Suc i + length ps \<and> ps ! (j - Suc i) = None \<and> (\<forall>k < j - Suc i. ps ! k \<noteq> None))"
      using False by (cases "j - i") (auto simp: nth_Cons' Suc_le_eq diff_Suc split: nat.splits)
    ultimately show ?thesis using Cons.IH [of "Suc i"] by simp
  qed
qed auto

lemma free_fd_None: "free_fd i ps = None \<longleftrightarrow> (\<forall>p \<in> set ps. p \<noteq> None)"
  by (induction ps arbitrary: i) auto

end
