(* ===== verification/Sync.thy ===== *)
theory Sync
  imports Scheduler_Laws
begin

text \<open>
  The mutexes of src/src/kernel/mutex.c and the semaphores of src/src/kernel/sem.c.  The
  kernel has one mutex per resource and two semaphores per terminal, each with a list of
  the tasks that wait for it, linked through their \<open>wait_node\<close>.

  \<open>sync_rel s rs ss W\<close> extends the abstract scheduler by the waiting tasks: \<open>W q\<close> is the
  sequence of the tasks that wait in the queue \<open>q\<close>, and no task is in two queues.
  \<open>mutex_inv\<close> and \<open>sem_inv\<close> are the contracts: a mutex is owned exactly when its count is
  positive and nobody waits for a free one, a semaphore with waiters has count zero.
  \<open>sync_ok\<close> is the invariant of the kernel's tasks; every operation, also the ones of the
  scheduler, keeps it and never faults.
\<close>

text \<open>The mutexes of the kernel: of the descriptor table, the task table, the file table, the
  page allocator, each console and the log.  A terminal has an output and an input semaphore.\<close>

datatype mutex_id =
    Gdt_mutex | Task_table_mutex | File_alloc_mutex | Paddr_alloc_mutex | Console_mutex nat | Log_mutex

datatype sem_id = Osem nat | Isem nat

record mutex_t =
  mx_owner :: "tid option"
  mx_locked_count :: int
  mx_wait_list :: "node list_t"

record sem_t =
  sm_count :: int
  sm_wait_list :: "node list_t"

record sync_state = sched_state +
  mutexes :: "mutex_id \<Rightarrow> mutex_t"
  sems :: "sem_id \<Rightarrow> sem_t"

definition upd_mutex :: "mutex_id \<Rightarrow> (mutex_t \<Rightarrow> mutex_t) \<Rightarrow> 'a sync_state_scheme \<Rightarrow> 'a sync_state_scheme" where
  "upd_mutex m f s = s\<lparr>mutexes := (mutexes s)(m := f (mutexes s m))\<rparr>"

definition upd_sem :: "sem_id \<Rightarrow> (sem_t \<Rightarrow> sem_t) \<Rightarrow> 'a sync_state_scheme \<Rightarrow> 'a sync_state_scheme" where
  "upd_sem i f s = s\<lparr>sems := (sems s)(i := f (sems s i))\<rparr>"

subsection \<open>Mutexes\<close>

definition mutex_init :: "mutex_id \<Rightarrow> 'a sync_state_scheme \<Rightarrow> 'a sync_state_scheme" where
  "mutex_init m s = upd_mutex m (\<lambda>_. \<lparr>mx_owner = None, mx_locked_count = 0, mx_wait_list = list_init\<rparr>) s"

definition mutex_lock :: "mutex_id \<Rightarrow> 'a sync_state_scheme \<Rightarrow> ('a sync_state_scheme, unit) outcome" where
  "mutex_lock m s =
     (let (st, s1) = irq_enter_proection s;
          curr = task_current s1
      in kbind
           (if mx_locked_count (mutexes s1 m) = 0
            then Done () (upd_mutex m (\<lambda>x. x\<lparr>mx_locked_count := 1, mx_owner := Some curr\<rparr>) s1)
            else if mx_owner (mutexes s1 m) = Some curr
            then Done () (upd_mutex m (\<lambda>x. x\<lparr>mx_locked_count := mx_locked_count x + 1\<rparr>) s1)
            else let s2 = task_set_block curr s1
                 in kbind (kstep (res_bind (list_insert_last (nodes s2) (mx_wait_list (mutexes s2 m)) (Wait_node curr))
                            (\<lambda>(h, l). Inr (upd_mutex m (\<lambda>x. x\<lparr>mx_wait_list := l\<rparr>) (s2\<lparr>nodes := h\<rparr>)))))
                      (\<lambda>_ s3. task_dispatch s3))
           (\<lambda>_ s4. Done () (irq_leave_proection st s4)))"

definition mutex_unlock :: "mutex_id \<Rightarrow> 'a sync_state_scheme \<Rightarrow> ('a sync_state_scheme, unit) outcome" where
  "mutex_unlock m s =
     (let (st, s1) = irq_enter_proection s;
          curr = task_current s1
      in kbind
           (if mx_owner (mutexes s1 m) = Some curr
            then let s2 = upd_mutex m (\<lambda>x. x\<lparr>mx_locked_count := mx_locked_count x - 1\<rparr>) s1
                 in if mx_locked_count (mutexes s2 m) = 0
                    then let s3 = upd_mutex m (\<lambda>x. x\<lparr>mx_owner := None\<rparr>) s2
                         in if list_count (mx_wait_list (mutexes s3 m)) \<noteq> 0
                            then kbind (kstep (res_bind (list_delete_first (nodes s3) (mx_wait_list (mutexes s3 m)))
                                   (\<lambda>(n, h, l). case wait_node_parent n of
                                        None \<Rightarrow> Inl NullDeref
                                      | Some task \<Rightarrow>
                                          res_bind (task_set_ready task (upd_mutex m (\<lambda>x. x\<lparr>mx_wait_list := l\<rparr>) (s3\<lparr>nodes := h\<rparr>)))
                                            (\<lambda>s4. Inr (upd_mutex m (\<lambda>x. x\<lparr>mx_locked_count := 1, mx_owner := Some task\<rparr>) s4)))))
                                 (\<lambda>_ s5. task_dispatch s5)
                            else Done () s3
                    else Done () s2
            else Done () s1)
           (\<lambda>_ s6. Done () (irq_leave_proection st s6)))"

subsection \<open>Semaphores\<close>

definition sem_init :: "sem_id \<Rightarrow> int \<Rightarrow> 'a sync_state_scheme \<Rightarrow> 'a sync_state_scheme" where
  "sem_init i init_count s = upd_sem i (\<lambda>_. \<lparr>sm_count = init_count, sm_wait_list = list_init\<rparr>) s"

definition sem_wait :: "sem_id \<Rightarrow> 'a sync_state_scheme \<Rightarrow> ('a sync_state_scheme, unit) outcome" where
  "sem_wait i s =
     (let (st, s1) = irq_enter_proection s
      in kbind
           (if sm_count (sems s1 i) > 0
            then Done () (upd_sem i (\<lambda>x. x\<lparr>sm_count := sm_count x - 1\<rparr>) s1)
            else let curr = task_current s1;
                     s2 = task_set_block curr s1
                 in kbind (kstep (res_bind (list_insert_last (nodes s2) (sm_wait_list (sems s2 i)) (Wait_node curr))
                            (\<lambda>(h, l). Inr (upd_sem i (\<lambda>x. x\<lparr>sm_wait_list := l\<rparr>) (s2\<lparr>nodes := h\<rparr>)))))
                      (\<lambda>_ s3. task_dispatch s3))
           (\<lambda>_ s4. Done () (irq_leave_proection st s4)))"

definition sem_notify :: "sem_id \<Rightarrow> 'a sync_state_scheme \<Rightarrow> ('a sync_state_scheme, unit) outcome" where
  "sem_notify i s =
     (let (st, s1) = irq_enter_proection s
      in kbind
           (if list_count (sm_wait_list (sems s1 i)) \<noteq> 0
            then kbind (kstep (res_bind (list_delete_first (nodes s1) (sm_wait_list (sems s1 i)))
                   (\<lambda>(n, h, l). case wait_node_parent n of
                        None \<Rightarrow> Inl NullDeref
                      | Some task \<Rightarrow>
                          task_set_ready task (upd_sem i (\<lambda>x. x\<lparr>sm_wait_list := l\<rparr>) (s1\<lparr>nodes := h\<rparr>)))))
                 (\<lambda>_ s2. task_dispatch s2)
            else Done () (upd_sem i (\<lambda>x. x\<lparr>sm_count := sm_count x + 1\<rparr>) s1))
           (\<lambda>_ s3. Done () (irq_leave_proection st s3)))"

definition sem_count :: "sem_id \<Rightarrow> 'a sync_state_scheme \<Rightarrow> int \<times> 'a sync_state_scheme" where
  "sem_count i s =
     (let (st, s1) = irq_enter_proection s
      in (sm_count (sems s1 i), irq_leave_proection st s1))"

subsection \<open>The waiting tasks\<close>

datatype wq = MQ mutex_id | SQ sem_id

definition wait_list :: "'a sync_state_scheme \<Rightarrow> wq \<Rightarrow> node list_t" where
  "wait_list s q = (case q of MQ m \<Rightarrow> mx_wait_list (mutexes s m) | SQ i \<Rightarrow> sm_wait_list (sems s i))"

definition set_wait_list :: "wq \<Rightarrow> node list_t \<Rightarrow> 'a sync_state_scheme \<Rightarrow> 'a sync_state_scheme" where
  "set_wait_list q l s =
     (case q of MQ m \<Rightarrow> upd_mutex m (\<lambda>x. x\<lparr>mx_wait_list := l\<rparr>) s
              | SQ i \<Rightarrow> upd_sem i (\<lambda>x. x\<lparr>sm_wait_list := l\<rparr>) s)"

definition wait_rel :: "'a sync_state_scheme \<Rightarrow> (wq \<Rightarrow> tid list) \<Rightarrow> bool" where
  "wait_rel s W \<longleftrightarrow> (\<forall>q. dll (nodes s) (wait_list s q) (map Wait_node (W q)))"

definition wait_sep :: "tid list \<Rightarrow> tid list \<Rightarrow> (wq \<Rightarrow> tid list) \<Rightarrow> bool" where
  "wait_sep rs ss W \<longleftrightarrow>
     (\<forall>q. set (W q) \<inter> (set rs \<union> set ss) = {} \<and> Idle_task \<notin> set (W q)) \<and>
     (\<forall>q q'. q \<noteq> q' \<longrightarrow> set (W q) \<inter> set (W q') = {})"

definition sync_rel ::
  "'a sync_state_scheme \<Rightarrow> tid list \<Rightarrow> tid list \<Rightarrow> (wq \<Rightarrow> tid list) \<Rightarrow> bool" where
  "sync_rel s rs ss W \<longleftrightarrow> sched_rel s rs ss \<and> wait_rel s W \<and> wait_sep rs ss W"

definition mutex_inv :: "'a sync_state_scheme \<Rightarrow> (wq \<Rightarrow> tid list) \<Rightarrow> bool" where
  "mutex_inv s W \<longleftrightarrow>
     (\<forall>m. 0 \<le> mx_locked_count (mutexes s m) \<and>
          (mx_owner (mutexes s m) = None \<longleftrightarrow> mx_locked_count (mutexes s m) = 0) \<and>
          (W (MQ m) \<noteq> [] \<longrightarrow> mx_owner (mutexes s m) \<noteq> None) \<and>
          (\<forall>t \<in> set (W (MQ m)). mx_owner (mutexes s m) \<noteq> Some t))"

definition sem_inv :: "'a sync_state_scheme \<Rightarrow> (wq \<Rightarrow> tid list) \<Rightarrow> bool" where
  "sem_inv s W \<longleftrightarrow>
     (\<forall>i. 0 \<le> sm_count (sems s i) \<and> (W (SQ i) \<noteq> [] \<longrightarrow> sm_count (sems s i) = 0))"

definition sync_ok :: "'a sync_state_scheme \<Rightarrow> bool" where
  "sync_ok s \<longleftrightarrow>
     (\<exists>rs ss W. sync_rel s rs ss W \<and> dispatched s rs \<and> mutex_inv s W \<and> sem_inv s W)"

lemma upd_mutex_sel [simp]:
  "nodes (upd_mutex m f s) = nodes s" "ready_list (upd_mutex m f s) = ready_list s"
  "sleep_list (upd_mutex m f s) = sleep_list s" "curr_task (upd_mutex m f s) = curr_task s"
  "tasks (upd_mutex m f s) = tasks s" "eflags (upd_mutex m f s) = eflags s" "cr3 (upd_mutex m f s) = cr3 s"
  "sems (upd_mutex m f s) = sems s" "mutexes (upd_mutex m f s) = (mutexes s)(m := f (mutexes s m))"
  by (simp_all add: upd_mutex_def)

lemma upd_sem_sel [simp]:
  "nodes (upd_sem i f s) = nodes s" "ready_list (upd_sem i f s) = ready_list s"
  "sleep_list (upd_sem i f s) = sleep_list s" "curr_task (upd_sem i f s) = curr_task s"
  "tasks (upd_sem i f s) = tasks s" "eflags (upd_sem i f s) = eflags s" "cr3 (upd_sem i f s) = cr3 s"
  "mutexes (upd_sem i f s) = mutexes s" "sems (upd_sem i f s) = (sems s)(i := f (sems s i))"
  by (simp_all add: upd_sem_def)

lemma sync_sel [simp]:
  "mutexes (upd_task t g s) = mutexes s" "sems (upd_task t g s) = sems s"
  "mutexes (irq_disable_global s) = mutexes s" "sems (irq_disable_global s) = sems s"
  "mutexes (irq_leave_proection st s) = mutexes s" "sems (irq_leave_proection st s) = sems s"
  "mutexes (switch_to u s) = mutexes s" "sems (switch_to u s) = sems s"
  by (simp_all add: upd_task_def irq_disable_global_def irq_leave_proection_def switch_to_def
      task_switch_from_to_def)

lemma set_wait_list_sel [simp]:
  "nodes (set_wait_list q l s) = nodes s" "ready_list (set_wait_list q l s) = ready_list s"
  "sleep_list (set_wait_list q l s) = sleep_list s" "curr_task (set_wait_list q l s) = curr_task s"
  "tasks (set_wait_list q l s) = tasks s" "eflags (set_wait_list q l s) = eflags s"
  "wait_list (set_wait_list q l s) = (wait_list s)(q := l)"
  "mx_owner (mutexes (set_wait_list q l s) m) = mx_owner (mutexes s m)"
  "mx_locked_count (mutexes (set_wait_list q l s) m) = mx_locked_count (mutexes s m)"
  "sm_count (sems (set_wait_list q l s) i) = sm_count (sems s i)"
  by (auto simp: set_wait_list_def wait_list_def fun_eq_iff split: wq.split)

lemma wait_list_cong:
  "mutexes s' = mutexes s \<Longrightarrow> sems s' = sems s \<Longrightarrow> wait_list s' = wait_list s"
  by (auto simp: wait_list_def fun_eq_iff split: wq.split)

lemma wait_list_simps [simp]:
  "wait_list (s\<lparr>nodes := h\<rparr>) = wait_list s" "wait_list (s\<lparr>ready_list := l\<rparr>) = wait_list s"
  "wait_list (s\<lparr>sleep_list := l\<rparr>) = wait_list s"
  by (rule wait_list_cong, simp, simp)+

lemma sync_rel_cong:
  assumes "nodes s' = nodes s" "ready_list s' = ready_list s" "sleep_list s' = sleep_list s"
    and "wait_list s' = wait_list s"
  shows "sync_rel s' rs ss W = sync_rel s rs ss W"
  unfolding sync_rel_def sched_rel_def wait_rel_def assms ..

lemma sync_rel_simps [simp]:
  "sync_rel (upd_task t f s) rs ss W = sync_rel s rs ss W"
  "sync_rel (irq_disable_global s) rs ss W = sync_rel s rs ss W"
  "sync_rel (irq_leave_proection st s) rs ss W = sync_rel s rs ss W"
  "sync_rel (switch_to to s) rs ss W = sync_rel s rs ss W"
  by (rule sync_rel_cong, simp, simp, simp, rule wait_list_cong, simp, simp)+

lemma inv_simps [simp]:
  "mutex_inv (upd_task t f s) W = mutex_inv s W" "sem_inv (upd_task t f s) W = sem_inv s W"
  "mutex_inv (irq_disable_global s) W = mutex_inv s W" "sem_inv (irq_disable_global s) W = sem_inv s W"
  "mutex_inv (irq_leave_proection st s) W = mutex_inv s W" "sem_inv (irq_leave_proection st s) W = sem_inv s W"
  "mutex_inv (switch_to u s) W = mutex_inv s W" "sem_inv (switch_to u s) W = sem_inv s W"
  by (simp_all add: mutex_inv_def sem_inv_def)

text \<open>An operation of the scheduler that moves tasks between the ready and the sleep queue
  leaves the waiting tasks alone.\<close>

lemma wait_rel_run_only:
  assumes "wait_rel s W" "run_only (nodes s) (nodes s')" "wait_list s' = wait_list s"
  shows "wait_rel s' W"
  unfolding wait_rel_def assms(3)
proof
  fix q
  have "dll (nodes s) (wait_list s q) (map Wait_node (W q))"
    using assms(1) by (simp add: wait_rel_def)
  then show "dll (nodes s') (wait_list s q) (map Wait_node (W q))"
    by (rule dll_frame) (use assms(2) in \<open>auto simp: run_only_def\<close>)
qed

lemma wait_sep_shrink:
  assumes "wait_sep rs ss W" "set ws \<subseteq> set (W q)"
  shows "wait_sep rs ss (W(q := ws))"
  unfolding wait_sep_def
proof (intro conjI allI impI)
  fix p p'
  have sub: "set ((W(q := ws)) p) \<subseteq> set (W p)" for p using assms(2) by simp
  show "set ((W(q := ws)) p) \<inter> (set rs \<union> set ss) = {}" "Idle_task \<notin> set ((W(q := ws)) p)"
    using assms(1) sub [of p] unfolding wait_sep_def by blast+
  assume "p \<noteq> p'"
  then show "set ((W(q := ws)) p) \<inter> set ((W(q := ws)) p') = {}"
    using assms(1) sub [of p] sub [of p'] unfolding wait_sep_def by blast
qed

lemma wait_sep_ready:
  assumes "wait_sep rs ss W" "\<forall>q. t \<notin> set (W q)"
  shows "wait_sep (rs @ [t]) ss W"
  using assms by (auto simp: wait_sep_def)

lemma sync_rel_sched:
  assumes "sync_rel s rs ss W" "sched_rel s1 rs' ss'" "run_only (nodes s) (nodes s1)"
    and "mutexes s1 = mutexes s" "sems s1 = sems s" "set rs' \<union> set ss' \<subseteq> set rs \<union> set ss"
  shows "sync_rel s1 rs' ss' W"
proof -
  have "wait_rel s1 W"
    by (rule wait_rel_run_only [OF _ assms(3) wait_list_cong [OF assms(4,5)]])
       (use assms(1) in \<open>simp add: sync_rel_def\<close>)
  moreover have "wait_sep rs' ss' W"
    using assms(1,6) unfolding sync_rel_def wait_sep_def by blast
  ultimately show ?thesis using assms(2) by (simp add: sync_rel_def)
qed


text \<open>The two moves between the scheduler and a wait queue: the current task leaves the
  ready queue for the end of a wait queue, and the first waiter becomes ready.\<close>

lemma wait_rel_upd:
  assumes "wait_rel s W" "wait_sep rs ss W" "dll h l (map Wait_node ws)"
    and "\<forall>y. y \<notin> Wait_node ` (set (W q) \<union> X) \<longrightarrow> h y = nodes s y"
    and "\<forall>q'. q' \<noteq> q \<longrightarrow> set (W q') \<inter> X = {}"
    and "nodes s' = h" "wait_list s' = (wait_list s)(q := l)"
  shows "wait_rel s' (W(q := ws))"
  unfolding wait_rel_def
proof
  fix q'
  show "dll (nodes s') (wait_list s' q') (map Wait_node ((W(q := ws)) q'))"
  proof (cases "q' = q")
    case True
    with assms(3,6,7) show ?thesis by simp
  next
    case False
    have "dll (nodes s) (wait_list s q') (map Wait_node (W q'))"
      using assms(1) by (simp add: wait_rel_def)
    moreover have "\<forall>x \<in> set (map Wait_node (W q')). h x = nodes s x"
      using assms(2,4,5) False unfolding wait_sep_def by auto blast
    ultimately have "dll h (wait_list s q') (map Wait_node (W q'))" by (rule dll_frame)
    with False assms(6,7) show ?thesis by simp
  qed
qed

lemma sched_rel_wait_frame:
  assumes "sched_rel s rs ss" "\<forall>t. nodes s' (Run_node t) = nodes s (Run_node t)"
    and "ready_list s' = ready_list s" "sleep_list s' = sleep_list s"
  shows "sched_rel s' rs ss"
  using assms by (auto simp: sched_rel_def intro!: dll_frame [of "nodes s"])

lemma block_on_rel:
  assumes "sync_rel s (t # rs) ss W"
  shows "\<exists>h l h2 l2. task_set_block t s = s\<lparr>nodes := h, ready_list := l\<rparr> \<and>
           list_insert_last h (wait_list s q) (Wait_node t) = Inr (h2, l2) \<and>
           sync_rel (set_wait_list q l2 (s\<lparr>nodes := h2, ready_list := l\<rparr>)) rs ss (W(q := W q @ [t]))"
proof -
  have s: "sched_rel s ([] @ t # rs) ss" and w: "wait_rel s W" and sp: "wait_sep (t # rs) ss W"
    using assms by (simp_all add: sync_rel_def)
  obtain h l where 1: "task_set_block t s = s\<lparr>nodes := h, ready_list := l\<rparr>"
    "sched_rel (s\<lparr>nodes := h, ready_list := l\<rparr>) rs ss" "run_only (nodes s) h"
    using task_set_block_rel [OF s] by auto
  have t: "\<forall>q. t \<notin> set (W q)" "t \<noteq> Idle_task" "t \<notin> set rs \<union> set ss"
    using s sp sched_rel_distinct [OF s] by (auto simp: wait_sep_def sched_rel_def)
  have d: "dll h (wait_list s q) (map Wait_node (W q))"
    by (rule dll_frame [of "nodes s"]) (use w 1(3) in \<open>auto simp: wait_rel_def run_only_def\<close>)
  have "Wait_node t \<notin> set (map Wait_node (W q))" using t by auto
  from klist.enq_law [OF d this] obtain h2 l2 where
    2: "list_insert_last h (wait_list s q) (Wait_node t) = Inr (h2, l2)"
      "dll h2 l2 (map Wait_node (W q @ [t]))"
      "\<forall>y. y \<notin> set (map Wait_node (W q) @ [Wait_node t]) \<longrightarrow> h2 y = h y" by auto
  let ?s = "set_wait_list q l2 (s\<lparr>nodes := h2, ready_list := l\<rparr>)"
  have sr: "sched_rel ?s rs ss"
    by (rule sched_rel_wait_frame [OF 1(2)]) (use 2(3) in auto)
  have wl: "wait_list (s\<lparr>nodes := h', ready_list := l'\<rparr>) = wait_list s" for h' l'
    by simp
  have w1: "wait_rel (s\<lparr>nodes := h, ready_list := l\<rparr>) W"
    by (rule wait_rel_run_only [OF w]) (use 1(3) in simp_all)
  have wr: "wait_rel ?s (W(q := W q @ [t]))"
  proof (rule wait_rel_upd [OF w1 sp 2(2), where X = "{t}"])
    show "\<forall>y. y \<notin> Wait_node ` (set (W q) \<union> {t}) \<longrightarrow> h2 y = nodes (s\<lparr>nodes := h, ready_list := l\<rparr>) y"
      using 2(3) by auto
    show "\<forall>q'. q' \<noteq> q \<longrightarrow> set (W q') \<inter> {t} = {}" using t(1) by blast
    show "wait_list ?s = (wait_list (s\<lparr>nodes := h, ready_list := l\<rparr>))(q := l2)"
      by (simp only: set_wait_list_sel wl)
  qed simp
  have "wait_sep rs ss (W(q := W q @ [t]))"
    using sp t by (auto simp: wait_sep_def)
  with 1 2 sr wr show ?thesis by (auto simp: sync_rel_def)
qed

lemma wake_first_rel:
  assumes "sync_rel s rs ss W" "W q = t # ws"
  shows "\<exists>h l h2 l2. list_delete_first (nodes s) (wait_list s q) = Inr (Some (Wait_node t), h, l) \<and>
           task_set_ready t (set_wait_list q l (s\<lparr>nodes := h\<rparr>)) =
             Inr (upd_task t (\<lambda>k. k\<lparr>tk_state := TASK_READY\<rparr>)
                   ((set_wait_list q l (s\<lparr>nodes := h\<rparr>))\<lparr>nodes := h2, ready_list := l2\<rparr>)) \<and>
           sync_rel ((set_wait_list q l (s\<lparr>nodes := h\<rparr>))\<lparr>nodes := h2, ready_list := l2\<rparr>)
             (rs @ [t]) ss (W(q := ws))"
proof -
  have s: "sched_rel s rs ss" and w: "wait_rel s W" and sp: "wait_sep rs ss W"
    using assms by (simp_all add: sync_rel_def)
  have d: "dll (nodes s) (wait_list s q) (Wait_node t # map Wait_node ws)"
    using w assms(2) by (metis wait_rel_def list.simps(9))
  obtain h l where 1: "list_delete_first (nodes s) (wait_list s q) = Inr (Some (Wait_node t), h, l)"
    "dll h l (map Wait_node ws)" "\<forall>y. y \<notin> set (Wait_node t # map Wait_node ws) \<longrightarrow> h y = nodes s y"
    using klist.deq_law [OF d] by blast
  let ?s1 = "set_wait_list q l (s\<lparr>nodes := h\<rparr>)"
  have wl: "wait_list (s\<lparr>nodes := h'\<rparr>) = wait_list s" for h' by simp
  have s1: "sched_rel ?s1 rs ss"
    by (rule sched_rel_wait_frame [OF s]) (use 1(3) in auto)
  have w1: "wait_rel ?s1 (W(q := ws))"
  proof (rule wait_rel_upd [OF w sp 1(2), where X = "{}"])
    show "\<forall>y. y \<notin> Wait_node ` (set (W q) \<union> {}) \<longrightarrow> h y = nodes s y"
      using 1(3) assms(2) by auto
    show "wait_list ?s1 = (wait_list s)(q := l)" by (simp only: set_wait_list_sel wl)
  qed simp_all
  have "t \<in> set (W q)" using assms(2) by simp
  then have t: "t \<notin> set rs \<union> set ss" "t \<noteq> Idle_task" and q: "\<forall>q'. q' \<noteq> q \<longrightarrow> t \<notin> set (W q')"
    using sp unfolding wait_sep_def by (blast, blast, blast)
  have tw: "t \<notin> set ws" using dll_distinct [OF d] by auto
  obtain h2 l2 where 2: "task_set_ready t ?s1 =
      Inr (upd_task t (\<lambda>k. k\<lparr>tk_state := TASK_READY\<rparr>) (?s1\<lparr>nodes := h2, ready_list := l2\<rparr>))"
    "sched_rel (?s1\<lparr>nodes := h2, ready_list := l2\<rparr>) (rs @ [t]) ss" "run_only h h2"
    using task_set_ready_rel [OF s1 t] by auto
  have "wait_rel (?s1\<lparr>nodes := h2, ready_list := l2\<rparr>) (W(q := ws))"
    by (rule wait_rel_run_only [OF w1]) (use 2(3) in simp_all)
  moreover have "wait_sep (rs @ [t]) ss (W(q := ws))"
    using q tw assms(2) by (intro wait_sep_ready wait_sep_shrink [OF sp]) auto
  ultimately show ?thesis using 1 2 by (auto simp: sync_rel_def)
qed


subsection \<open>The operations on the abstract queues\<close>

definition same_counts :: "'a sync_state_scheme \<Rightarrow> 'a sync_state_scheme \<Rightarrow> bool" where
  "same_counts s s' \<longleftrightarrow>
     (\<forall>m. mx_owner (mutexes s' m) = mx_owner (mutexes s m) \<and>
          mx_locked_count (mutexes s' m) = mx_locked_count (mutexes s m)) \<and>
     (\<forall>i. sm_count (sems s' i) = sm_count (sems s i))"

lemma same_counts_refl [simp]: "same_counts s s"
  by (simp add: same_counts_def)

lemma wait_list_MQ [simp]: "wait_list s (MQ m) = mx_wait_list (mutexes s m)"
  and wait_list_SQ [simp]: "wait_list s (SQ i) = sm_wait_list (sems s i)"
  by (simp_all add: wait_list_def)

lemma set_wait_list_MQ: "set_wait_list (MQ m) l s = upd_mutex m (\<lambda>x. x\<lparr>mx_wait_list := l\<rparr>) s"
  and set_wait_list_SQ: "set_wait_list (SQ i) l s = upd_sem i (\<lambda>x. x\<lparr>sm_wait_list := l\<rparr>) s"
  by (simp_all add: set_wait_list_def)

lemma block_dispatch:
  assumes "sync_rel s (t # rs) ss W" "curr_task s = t"
  shows "\<exists>s1. kbind (kstep (res_bind
             (list_insert_last (nodes (task_set_block t s)) (wait_list (task_set_block t s) q) (Wait_node t))
             (\<lambda>(h, l). Inr (set_wait_list q l ((task_set_block t s)\<lparr>nodes := h\<rparr>))))) (\<lambda>_ s3. task_dispatch s3) =
           Switch (switch_to (next_of rs) s1) (\<lambda>s3. Done () (irq_leave_proection (eflags s) s3)) \<and>
           sync_rel s1 rs ss (W(q := W q @ [t])) \<and> same_counts s s1 \<and>
           tasks s1 = tasks s \<and> curr_task s1 = t \<and> eflags s1 = eflags s"
proof -
  obtain h l h2 l2 where 1: "task_set_block t s = s\<lparr>nodes := h, ready_list := l\<rparr>"
    "list_insert_last h (wait_list s q) (Wait_node t) = Inr (h2, l2)"
    "sync_rel (set_wait_list q l2 (s\<lparr>nodes := h2, ready_list := l\<rparr>)) rs ss (W(q := W q @ [t]))"
    using block_on_rel [OF assms(1)] by blast
  let ?s1 = "set_wait_list q l2 (s\<lparr>nodes := h2, ready_list := l\<rparr>)"
  have r: "sched_rel ?s1 rs ss" using 1(3) by (simp add: sync_rel_def)
  have s: "sched_rel s (t # rs) ss" using assms(1) by (simp add: sync_rel_def)
  have "next_of rs \<noteq> t"
    using s sched_rel_distinct [OF s] by (cases rs) (auto simp: sched_rel_def)
  then have "task_dispatch ?s1 =
      Switch (switch_to (next_of rs) ?s1) (\<lambda>s3. Done () (irq_leave_proection (eflags s) s3))"
    using task_dispatch_rel [OF r] assms(2) by simp
  with 1 assms(2) show ?thesis
    by (intro exI [of _ ?s1]) (simp add: same_counts_def)
qed

lemma wake_first:
  assumes "sync_rel s rs ss W" "W q = t # ws"
  shows "\<exists>h l s1. list_delete_first (nodes s) (wait_list s q) = Inr (Some (Wait_node t), h, l) \<and>
           task_set_ready t (set_wait_list q l (s\<lparr>nodes := h\<rparr>)) = Inr s1 \<and>
           sync_rel s1 (rs @ [t]) ss (W(q := ws)) \<and> same_counts s s1 \<and>
           curr_task s1 = curr_task s \<and> eflags s1 = eflags s \<and>
           tasks s1 = (tasks s)(t := (tasks s t)\<lparr>tk_state := TASK_READY\<rparr>)"
proof -
  obtain h l h2 l2 where 1:
    "list_delete_first (nodes s) (wait_list s q) = Inr (Some (Wait_node t), h, l)"
    "task_set_ready t (set_wait_list q l (s\<lparr>nodes := h\<rparr>)) =
       Inr (upd_task t (\<lambda>k. k\<lparr>tk_state := TASK_READY\<rparr>)
             ((set_wait_list q l (s\<lparr>nodes := h\<rparr>))\<lparr>nodes := h2, ready_list := l2\<rparr>))"
    "sync_rel ((set_wait_list q l (s\<lparr>nodes := h\<rparr>))\<lparr>nodes := h2, ready_list := l2\<rparr>) (rs @ [t]) ss (W(q := ws))"
    using wake_first_rel [OF assms(1,2)] by blast
  then show ?thesis
    by (intro exI [of _ h] exI [of _ l]
          exI [of _ "upd_task t (\<lambda>k. k\<lparr>tk_state := TASK_READY\<rparr>)
             ((set_wait_list q l (s\<lparr>nodes := h\<rparr>))\<lparr>nodes := h2, ready_list := l2\<rparr>)"])
       (simp add: same_counts_def)
qed

lemma mutex_lock_free:
  assumes "mx_locked_count (mutexes s m) = 0"
  shows "mutex_lock m s =
           Done () (upd_mutex m (\<lambda>x. x\<lparr>mx_locked_count := 1, mx_owner := Some (curr_task s)\<rparr>) s)"
  using assms
  by (simp add: mutex_lock_def task_current_def upd_mutex_def irq_leave_proection_def irq_disable_global_def)

lemma mutex_lock_again:
  assumes "mx_locked_count (mutexes s m) \<noteq> 0" "mx_owner (mutexes s m) = Some (curr_task s)"
  shows "mutex_lock m s = Done () (upd_mutex m (\<lambda>x. x\<lparr>mx_locked_count := mx_locked_count x + 1\<rparr>) s)"
  using assms
  by (simp add: mutex_lock_def task_current_def upd_mutex_def irq_leave_proection_def irq_disable_global_def)

lemma mutex_lock_blocks:
  assumes "sync_rel s (t # rs) ss W" "curr_task s = t"
    and "mx_locked_count (mutexes s m) \<noteq> 0" "mx_owner (mutexes s m) \<noteq> Some t"
  shows "\<exists>s1. mutex_lock m s =
             Switch (switch_to (next_of rs) s1) (\<lambda>s3. Done () (irq_leave_proection (eflags s) s3)) \<and>
           sync_rel s1 rs ss (W(MQ m := W (MQ m) @ [t])) \<and> same_counts s s1 \<and> tasks s1 = tasks s \<and>
           curr_task s1 = t"
proof -
  let ?d = "irq_disable_global s"
  have "sync_rel ?d (t # rs) ss W" "curr_task ?d = t" using assms by simp_all
  from block_dispatch [OF this, of "MQ m"] assms obtain s1 where 1:
    "kbind (kstep (res_bind (list_insert_last (nodes (task_set_block t ?d))
         (wait_list (task_set_block t ?d) (MQ m)) (Wait_node t))
       (\<lambda>(h, l). Inr (set_wait_list (MQ m) l ((task_set_block t ?d)\<lparr>nodes := h\<rparr>))))) (\<lambda>_ s3. task_dispatch s3) =
     Switch (switch_to (next_of rs) s1) (\<lambda>s3. Done () (irq_leave_proection (eflags ?d) s3))"
    "sync_rel s1 rs ss (W(MQ m := W (MQ m) @ [t]))" "same_counts s s1" "tasks s1 = tasks s" "curr_task s1 = t"
    by (auto simp: same_counts_def)
  have "mutex_lock m s =
      Switch (switch_to (next_of rs) s1) (\<lambda>s3. Done () (irq_leave_proection (eflags s) s3))"
    using 1(1) assms(2,3,4)
    by (simp add: mutex_lock_def task_current_def set_wait_list_MQ Let_def)
  with 1 show ?thesis by blast
qed

lemma mutex_unlock_other:
  assumes "mx_owner (mutexes s m) \<noteq> Some (curr_task s)"
  shows "mutex_unlock m s = Done () s"
  using assms by (simp add: mutex_unlock_def task_current_def)

lemma mutex_unlock_nested:
  assumes "mx_owner (mutexes s m) = Some (curr_task s)" "mx_locked_count (mutexes s m) \<noteq> 1"
  shows "mutex_unlock m s = Done () (upd_mutex m (\<lambda>x. x\<lparr>mx_locked_count := mx_locked_count x - 1\<rparr>) s)"
  using assms
  by (simp add: mutex_unlock_def task_current_def upd_mutex_def irq_leave_proection_def irq_disable_global_def)

lemma mutex_unlock_last:
  assumes "sync_rel s rs ss W" "W (MQ m) = []"
    and "mx_owner (mutexes s m) = Some (curr_task s)" "mx_locked_count (mutexes s m) = 1"
  shows "mutex_unlock m s = Done () (upd_mutex m (\<lambda>x. x\<lparr>mx_locked_count := 0, mx_owner := None\<rparr>) s)"
proof -
  have "dll (nodes s) (wait_list s (MQ m)) (map Wait_node (W (MQ m)))"
    using assms(1) unfolding sync_rel_def wait_rel_def by blast
  then have "list_count (mx_wait_list (mutexes s m)) = 0"
    using assms(2) dll_count by fastforce
  with assms(3,4) show ?thesis
    by (simp add: mutex_unlock_def task_current_def upd_mutex_def irq_leave_proection_def irq_disable_global_def)
qed


lemma sync_rel_upd_mutex [simp]:
  "\<forall>x. mx_wait_list (f x) = mx_wait_list x \<Longrightarrow> sync_rel (upd_mutex m f s) rs ss W = sync_rel s rs ss W"
  by (rule sync_rel_cong) (auto simp: wait_list_def fun_eq_iff split: wq.split)

lemma sync_rel_upd_sem [simp]:
  "\<forall>x. sm_wait_list (f x) = sm_wait_list x \<Longrightarrow> sync_rel (upd_sem i f s) rs ss W = sync_rel s rs ss W"
  by (rule sync_rel_cong) (auto simp: wait_list_def fun_eq_iff split: wq.split)

lemma sync_rel_count:
  assumes "sync_rel s rs ss W"
  shows "list_count (wait_list s q) = int (length (W q))"
proof -
  have "dll (nodes s) (wait_list s q) (map Wait_node (W q))"
    using assms unfolding sync_rel_def wait_rel_def by blast
  then show ?thesis by (simp add: dll_count)
qed

lemma upd_mutex_twice [simp]: "upd_mutex m f (upd_mutex m g s) = upd_mutex m (\<lambda>x. f (g x)) s"
  by (simp add: upd_mutex_def)

lemma mutex_unlock_handoff:
  assumes "sync_rel s (t # rs) ss W" "curr_task s = t" "W (MQ m) = u # ws"
    and "mx_owner (mutexes s m) = Some t" "mx_locked_count (mutexes s m) = 1"
  shows "\<exists>s1. mutex_unlock m s = Done () s1 \<and> sync_rel s1 (t # rs @ [u]) ss (W(MQ m := ws)) \<and>
           mx_owner (mutexes s1 m) = Some u \<and> mx_locked_count (mutexes s1 m) = 1 \<and>
           (\<forall>m'. m' \<noteq> m \<longrightarrow> mutexes s1 m' = mutexes s m') \<and> sems s1 = sems s \<and>
           curr_task s1 = t \<and> eflags s1 = eflags s \<and>
           tasks s1 = (tasks s)(u := (tasks s u)\<lparr>tk_state := TASK_READY\<rparr>)"
proof -
  let ?s3 = "upd_mutex m (\<lambda>x. x\<lparr>mx_locked_count := mx_locked_count x - 1, mx_owner := None\<rparr>)
               (irq_disable_global s)"
  have r3: "sync_rel ?s3 (t # rs) ss W" using assms(1) by simp
  obtain h l s4 where 4: "list_delete_first (nodes ?s3) (wait_list ?s3 (MQ m)) = Inr (Some (Wait_node u), h, l)"
    "task_set_ready u (set_wait_list (MQ m) l (?s3\<lparr>nodes := h\<rparr>)) = Inr s4"
    "sync_rel s4 ((t # rs) @ [u]) ss (W(MQ m := ws))" "curr_task s4 = curr_task ?s3" "eflags s4 = eflags ?s3"
    "tasks s4 = (tasks ?s3)(u := (tasks ?s3 u)\<lparr>tk_state := TASK_READY\<rparr>)"
    using wake_first [of ?s3 "t # rs" ss W "MQ m" u ws] r3 assms(3) by blast
  have fr: "mutexes s4 = mutexes (set_wait_list (MQ m) l (?s3\<lparr>nodes := h\<rparr>))" "sems s4 = sems s"
    using 4(2) by (auto simp: task_set_ready_def set_wait_list_MQ res_bind_eq_Inr split: if_splits)
  let ?s5 = "upd_mutex m (\<lambda>x. x\<lparr>mx_locked_count := 1, mx_owner := Some u\<rparr>) s4"
  have r5: "sync_rel ?s5 (t # rs @ [u]) ss (W(MQ m := ws))" using 4(3) by simp
  then have "task_dispatch ?s5 = Done () ?s5"
    using task_dispatch_rel [of ?s5 "t # rs @ [u]" ss] 4(4) assms(2) by (simp add: sync_rel_def)
  moreover have "list_count (mx_wait_list (mutexes s m)) \<noteq> 0"
    using sync_rel_count [OF assms(1), of "MQ m"] assms(3) by simp
  ultimately have "mutex_unlock m s = Done () (irq_leave_proection (eflags s) ?s5)"
    using 4(1,2) assms(2,4,5) by (simp add: mutex_unlock_def task_current_def set_wait_list_MQ Let_def)
  then show ?thesis
    using r5 4 fr assms(2)
    by (intro exI [of _ "irq_leave_proection (eflags s) ?s5"]) (simp add: set_wait_list_MQ)
qed

lemma sem_wait_take:
  assumes "sm_count (sems s i) > 0"
  shows "sem_wait i s = Done () (upd_sem i (\<lambda>x. x\<lparr>sm_count := sm_count x - 1\<rparr>) s)"
  using assms
  by (simp add: sem_wait_def upd_sem_def irq_leave_proection_def irq_disable_global_def)

lemma sem_wait_blocks:
  assumes "sync_rel s (t # rs) ss W" "curr_task s = t" "sm_count (sems s i) \<le> 0"
  shows "\<exists>s1. sem_wait i s =
             Switch (switch_to (next_of rs) s1) (\<lambda>s3. Done () (irq_leave_proection (eflags s) s3)) \<and>
           sync_rel s1 rs ss (W(SQ i := W (SQ i) @ [t])) \<and> same_counts s s1 \<and> tasks s1 = tasks s \<and>
           curr_task s1 = t"
proof -
  let ?d = "irq_disable_global s"
  have "sync_rel ?d (t # rs) ss W" "curr_task ?d = t" using assms by simp_all
  from block_dispatch [OF this, of "SQ i"] assms obtain s1 where 1:
    "kbind (kstep (res_bind (list_insert_last (nodes (task_set_block t ?d))
         (wait_list (task_set_block t ?d) (SQ i)) (Wait_node t))
       (\<lambda>(h, l). Inr (set_wait_list (SQ i) l ((task_set_block t ?d)\<lparr>nodes := h\<rparr>))))) (\<lambda>_ s3. task_dispatch s3) =
     Switch (switch_to (next_of rs) s1) (\<lambda>s3. Done () (irq_leave_proection (eflags ?d) s3))"
    "sync_rel s1 rs ss (W(SQ i := W (SQ i) @ [t]))" "same_counts s s1" "tasks s1 = tasks s" "curr_task s1 = t"
    by (auto simp: same_counts_def)
  have "sem_wait i s =
      Switch (switch_to (next_of rs) s1) (\<lambda>s3. Done () (irq_leave_proection (eflags s) s3))"
    using 1(1) assms(2,3) by (simp add: sem_wait_def task_current_def set_wait_list_SQ Let_def)
  with 1 show ?thesis by blast
qed

lemma sem_notify_none:
  assumes "sync_rel s rs ss W" "W (SQ i) = []"
  shows "sem_notify i s = Done () (upd_sem i (\<lambda>x. x\<lparr>sm_count := sm_count x + 1\<rparr>) s)"
  using sync_rel_count [OF assms(1), of "SQ i"] assms(2)
  by (simp add: sem_notify_def upd_sem_def irq_leave_proection_def irq_disable_global_def)

text \<open>A waiter becomes ready.  It runs at once when the idle task was running; otherwise the
  caller goes on.\<close>

lemma sem_notify_wakes:
  assumes "sync_rel s rs ss W" "dispatched s rs" "W (SQ i) = u # ws"
  shows "\<exists>s1. sem_notify i s =
             (if rs = [] then Switch (switch_to u s1) (\<lambda>s3. Done () (irq_leave_proection (eflags s) s3))
              else Done () (irq_leave_proection (eflags s) s1)) \<and>
           sync_rel s1 (rs @ [u]) ss (W(SQ i := ws)) \<and> same_counts s s1 \<and> curr_task s1 = curr_task s \<and>
           eflags s1 = eflags (irq_disable_global s) \<and>
           tasks s1 = (tasks s)(u := (tasks s u)\<lparr>tk_state := TASK_READY\<rparr>)"
proof -
  let ?d = "irq_disable_global s"
  have d: "sync_rel ?d rs ss W" using assms(1) by simp
  obtain h l s1 where 1: "list_delete_first (nodes ?d) (wait_list ?d (SQ i)) = Inr (Some (Wait_node u), h, l)"
    "task_set_ready u (set_wait_list (SQ i) l (?d\<lparr>nodes := h\<rparr>)) = Inr s1"
    "sync_rel s1 (rs @ [u]) ss (W(SQ i := ws))" "same_counts ?d s1"
    "curr_task s1 = curr_task ?d" "eflags s1 = eflags ?d"
    "tasks s1 = (tasks ?d)(u := (tasks ?d u)\<lparr>tk_state := TASK_READY\<rparr>)"
    using wake_first [of ?d rs ss W "SQ i" u ws] d assms(3) by blast
  have "u \<in> set (W (SQ i))" using assms(3) by simp
  then have u: "u \<noteq> Idle_task"
    using assms(1) unfolding sync_rel_def wait_sep_def by blast
  have "task_dispatch s1 =
      (if rs = [] then Switch (switch_to u s1) (\<lambda>s3. Done () (irq_leave_proection (eflags s1) s3)) else Done () s1)"
    using task_dispatch_rel [of s1 "rs @ [u]" ss] 1(3,5) assms(2) u
    by (cases rs) (auto simp: sync_rel_def dispatched_def)
  moreover have "list_count (sm_wait_list (sems s i)) \<noteq> 0"
    using sync_rel_count [OF assms(1), of "SQ i"] assms(3) by simp
  ultimately have "sem_notify i s =
      (if rs = [] then Switch (switch_to u s1) (\<lambda>s3. Done () (irq_leave_proection (eflags s) s3))
       else Done () (irq_leave_proection (eflags s) s1))"
    using 1(1,2) by (simp add: sem_notify_def set_wait_list_SQ Let_def)
  with 1 show ?thesis by (intro exI [of _ s1]) (simp add: same_counts_def)
qed

end
