(* ===== verification/Kernel_Machine.thy ===== *)
theory Kernel_Machine
  imports Sync
begin

text \<open>
  The kernel as a state machine.  A machine is the kernel state together with the suspended
  operations of the tasks: \<open>pend t\<close> is the operation that task \<open>t\<close> was in when it gave up the
  processor, with the continuation that its saved registers stand for.  The current task
  first finishes its suspended operation, if it has one, and otherwise issues an event: a
  call of the scheduler, a lock or a semaphore operation, or an interrupt (a clock tick, or
  a driver's \<open>sem_notify\<close>) that arrives while it runs.  The idle task only takes interrupts.

  \<open>held t m\<close> counts, for the statement of mutual exclusion only, the calls of
  \<open>mutex_lock m\<close> from which \<open>t\<close> has returned, less those of \<open>mutex_unlock m\<close>.
\<close>

datatype kevent =
    Yield | Sleep u32 | Lock mutex_id | Unlock mutex_id | Wait sem_id | Notify sem_id | Tick

fun kernel_op :: "kevent \<Rightarrow> sync_state \<Rightarrow> (sync_state, unit) outcome" where
  "kernel_op Yield s = kbind (sys_yield s) (\<lambda>_. Done ())"
| "kernel_op (Sleep ms) s = sys_sleep ms s"
| "kernel_op (Lock m) s = mutex_lock m s"
| "kernel_op (Unlock m) s = mutex_unlock m s"
| "kernel_op (Wait i) s = sem_wait i s"
| "kernel_op (Notify i) s = sem_notify i s"
| "kernel_op Tick s = task_time_tick s"

fun is_interrupt :: "kevent \<Rightarrow> bool" where
  "is_interrupt (Notify i) = True"
| "is_interrupt Tick = True"
| "is_interrupt _ = False"

type_synonym kont = "sync_state \<Rightarrow> (sync_state, unit) outcome"

record machine =
  mstate :: sync_state
  pend :: "tid \<Rightarrow> (kevent \<times> kont) option"
  held :: "tid \<Rightarrow> mutex_id \<Rightarrow> nat"

fun count_held :: "kevent \<Rightarrow> (mutex_id \<Rightarrow> nat) \<Rightarrow> mutex_id \<Rightarrow> nat" where
  "count_held (Lock m) h = h(m := h m + 1)"
| "count_held (Unlock m) h = h(m := h m - 1)"
| "count_held _ h = h"

text \<open>What the outcome of an operation \<open>e\<close> of task \<open>t\<close> makes of the machine; \<open>None\<close> is a crash.\<close>

fun settle :: "tid \<Rightarrow> kevent \<Rightarrow> (sync_state, unit) outcome \<Rightarrow> machine \<Rightarrow> machine option" where
  "settle t e (Done x s) M =
     Some (M\<lparr>mstate := s, pend := (pend M)(t := None), held := (held M)(t := count_held e (held M t))\<rparr>)"
| "settle t e (Switch s k) M = Some (M\<lparr>mstate := s, pend := (pend M)(t := Some (e, k))\<rparr>)"
| "settle t e (Fault f) M = None"

inductive mstep :: "machine \<Rightarrow> machine option \<Rightarrow> bool" where
  resume: "pend M (curr_task (mstate M)) = Some (e, k) \<Longrightarrow>
     mstep M (settle (curr_task (mstate M)) e (k (mstate M)) M)"
| issue: "pend M (curr_task (mstate M)) = None \<Longrightarrow>
     curr_task (mstate M) \<noteq> Idle_task \<or> is_interrupt e \<Longrightarrow>
     mstep M (settle (curr_task (mstate M)) e (kernel_op e (mstate M)) M)"

inductive reach :: "machine \<Rightarrow> machine option \<Rightarrow> bool" for M0 where
  reach_init: "reach M0 (Some M0)"
| reach_step: "reach M0 (Some M) \<Longrightarrow> mstep M R \<Longrightarrow> reach M0 R"

subsection \<open>The effect of one operation\<close>

text \<open>The ready queue only loses its head and only grows at its end.\<close>

definition advance :: "'t list \<Rightarrow> 't list \<Rightarrow> bool" where
  "advance rs rs' \<longleftrightarrow> (\<exists>new. rs' = rs @ new \<or> rs \<noteq> [] \<and> rs' = tl rs @ new)"

text \<open>The mutexes outside \<open>X\<close> are not touched.\<close>

definition mutex_frame ::
  "mutex_id set \<Rightarrow> 'a sync_state_scheme \<Rightarrow> (wq \<Rightarrow> tid list) \<Rightarrow> 'a sync_state_scheme \<Rightarrow> (wq \<Rightarrow> tid list) \<Rightarrow> bool" where
  "mutex_frame X s W s' W' \<longleftrightarrow>
     (\<forall>m. m \<notin> X \<longrightarrow> mx_owner (mutexes s' m) = mx_owner (mutexes s m) \<and>
        mx_locked_count (mutexes s' m) = mx_locked_count (mutexes s m) \<and> W' (MQ m) = W (MQ m))"

definition kinv :: "'a sync_state_scheme \<Rightarrow> tid list \<Rightarrow> tid list \<Rightarrow> (wq \<Rightarrow> tid list) \<Rightarrow> bool" where
  "kinv s rs ss W \<longleftrightarrow> sync_rel s rs ss W \<and> dispatched s rs \<and> mutex_inv s W \<and> sem_inv s W"

text \<open>The continuations of suspended operations: restore the interrupt flag, and for a task that
  was preempted by the clock, serve the sleeping tasks.\<close>

definition kont_ok :: "kevent \<Rightarrow> kont \<Rightarrow> bool" where
  "kont_ok e k \<longleftrightarrow>
     (\<exists>st. k = (\<lambda>s. Done () (irq_leave_proection st s)) \<or>
           e = Tick \<and> k = (\<lambda>s. task_tick_sleepers (irq_leave_proection st s)))"

text \<open>\<open>effect e s rs W r\<close>: the outcome \<open>r\<close> of an operation \<open>e\<close> that starts in \<open>s\<close>.\<close>

definition effect ::
  "kevent \<Rightarrow> sync_state \<Rightarrow> tid list \<Rightarrow> (wq \<Rightarrow> tid list) \<Rightarrow> (sync_state, unit) outcome \<Rightarrow>
   sync_state \<Rightarrow> tid list \<Rightarrow> tid list \<Rightarrow> (wq \<Rightarrow> tid list) \<Rightarrow> bool" where
  "effect e s rs W r s' rs' ss' W' \<longleftrightarrow>
     kinv s' rs' ss' W' \<and> advance rs rs' \<and>
     (r = Done () s' \<and> curr_task s' = curr_task s \<or>
      (\<exists>k. r = Switch s' k \<and> kont_ok e k \<and> (rs = [] \<or> (\<exists>new. rs' = tl rs @ new))))"

lemma ex4I: "P a b c d \<Longrightarrow> \<exists>a b c d. P a b c d"
  by blast

lemma advance_refl [simp]: "advance rs rs" "advance rs (rs @ new)" "advance [] rs"
  by (auto simp: advance_def)

lemma advance_tl [simp]: "advance (t # rs) rs" "advance (t # rs) (rs @ new)"
  by (auto simp: advance_def)

lemma kinv_simps [simp]:
  "kinv (irq_leave_proection st s) rs ss W = kinv s rs ss W"
  by (simp add: kinv_def dispatched_def)

lemma kinv_switch:
  "sync_rel s rs ss W \<Longrightarrow> mutex_inv s W \<Longrightarrow> sem_inv s W \<Longrightarrow> kinv (switch_to (next_of rs) s) rs ss W"
  by (simp add: kinv_def dispatched_def)

lemma same_counts_inv:
  "same_counts s s' \<Longrightarrow> mutex_inv s' W = mutex_inv s W" "same_counts s s' \<Longrightarrow> sem_inv s' W = sem_inv s W"
  by (simp_all add: same_counts_def mutex_inv_def sem_inv_def)

lemma inv_cong:
  "mutexes s' = mutexes s \<Longrightarrow> sems s' = sems s \<Longrightarrow> mutex_inv s' W = mutex_inv s W \<and> sem_inv s' W = sem_inv s W"
  by (simp add: mutex_inv_def sem_inv_def)

lemma kont_ok_plain [simp]: "kont_ok e (\<lambda>s. Done () (irq_leave_proection st s))"
  and kont_ok_tick [simp]: "kont_ok Tick (\<lambda>s. task_tick_sleepers (irq_leave_proection st s))"
  by (auto simp: kont_ok_def)

text \<open>The scheduler's own operations.\<close>

lemma frame_sched:
  assumes "kinv s rs ss W" "sched_rel s1 rs' ss'" "run_only (nodes s) (nodes s1)"
    and "mutexes s1 = mutexes s" "sems s1 = sems s" "set rs' \<union> set ss' \<subseteq> set rs \<union> set ss"
  shows "sync_rel s1 rs' ss' W \<and> mutex_inv s1 W \<and> sem_inv s1 W \<and> mutex_frame {} s W s1 W"
  using assms inv_cong [OF assms(4,5), of W]
    sync_rel_sched [of s rs ss W s1 rs' ss']
  by (simp add: kinv_def mutex_frame_def)

lemma effect_yield:
  assumes "kinv s (t # rs) ss W"
  shows "\<exists>s' rs' ss' W'. effect Yield s (t # rs) W (kernel_op Yield s) s' rs' ss' W' \<and> mutex_frame {} s W s' W'"
proof (cases rs)
  case Nil
  with assms have "sys_yield s = Done 0 s" by (auto simp: kinv_def sync_rel_def intro: sys_yield_alone)
  with assms show ?thesis
    by (intro ex4I [of _ s "t # rs" ss W]) (simp add: effect_def mutex_frame_def)
next
  case (Cons u rs')
  have "sched_rel s (t # u # rs') ss" "curr_task s = t"
    using assms Cons by (simp_all add: kinv_def sync_rel_def dispatched_def)
  from sys_yield_switch [OF this] obtain s1 where 1:
    "sys_yield s = Switch (switch_to u s1) (\<lambda>s3. Done 0 (irq_leave_proection (eflags s) s3))"
    "sched_rel s1 (u # rs' @ [t]) ss" "run_only (nodes s) (nodes s1)"
    "s1 = upd_task t (\<lambda>k. k\<lparr>tk_state := TASK_READY\<rparr>)
       ((irq_disable_global s)\<lparr>nodes := nodes s1, ready_list := ready_list s1\<rparr>)"
    by blast
  have ms: "mutexes s1 = mutexes s" "sems s1 = sems s"
    using arg_cong [OF 1(4), of mutexes] arg_cong [OF 1(4), of sems] by simp_all
  have f: "sync_rel s1 (u # rs' @ [t]) ss W \<and> mutex_inv s1 W \<and> sem_inv s1 W \<and> mutex_frame {} s W s1 W"
    using Cons by (intro frame_sched [OF assms 1(2,3) ms]) auto
  then have "kinv (switch_to u s1) (u # rs' @ [t]) ss W"
    using kinv_switch [of s1 "u # rs' @ [t]" ss W] by simp
  with 1(1) f Cons show ?thesis
    by (intro ex4I [of _ "switch_to u s1" "u # rs' @ [t]" ss W])
       (auto simp: effect_def mutex_frame_def advance_def)
qed

lemma effect_sleep:
  assumes "kinv s (t # rs) ss W"
  shows "\<exists>s' rs' ss' W'. effect (Sleep ms) s (t # rs) W (kernel_op (Sleep ms) s) s' rs' ss' W' \<and> mutex_frame {} s W s' W'"
proof -
  have r: "sched_rel s (t # rs) ss" "curr_task s = t"
    using assms by (simp_all add: kinv_def sync_rel_def dispatched_def)
  have "\<exists>s1 ss'. sys_sleep ms s = Switch (switch_to (next_of rs) s1) (\<lambda>s3. Done () (irq_leave_proection (eflags s) s3)) \<and>
      sched_rel s1 rs ss' \<and> set ss' \<subseteq> insert t (set ss) \<and> run_only (nodes s) (nodes s1) \<and>
      mutexes s1 = mutexes s \<and> sems s1 = sems s"
  proof (cases "10 \<le> uint ms")
    case True
    from sys_sleep_switch [OF r True] obtain s1 where 1:
      "sys_sleep ms s = Switch (switch_to (next_of rs) s1) (\<lambda>s3. Done () (irq_leave_proection (eflags s) s3))"
      "sched_rel s1 rs (ss @ [t])" "run_only (nodes s) (nodes s1)"
      "s1 = upd_task t (\<lambda>k. k\<lparr>tk_sleep_ticks := uint ms div 10, tk_state := TASK_SLEEP\<rparr>)
        ((irq_disable_global s)\<lparr>nodes := nodes s1, ready_list := ready_list s1, sleep_list := sleep_list s1\<rparr>)"
      by blast
    have "mutexes s1 = mutexes s" "sems s1 = sems s" using arg_cong [OF 1(4), of mutexes] arg_cong [OF 1(4), of sems] by simp_all
    with 1 show ?thesis by (intro exI [of _ s1] exI [of _ "ss @ [t]"]) simp
  next
    case False
    then have "uint ms < 10" by simp
    from sys_sleep_short [OF r this] obtain s1 where 1:
      "sys_sleep ms s = Switch (switch_to (next_of rs) s1) (\<lambda>s3. Done () (irq_leave_proection (eflags s) s3))"
      "sched_rel s1 rs ss" "run_only (nodes s) (nodes s1)"
      "s1 = (irq_disable_global s)\<lparr>nodes := nodes s1, ready_list := ready_list s1\<rparr>"
      by blast
    have "mutexes s1 = mutexes s" "sems s1 = sems s" using arg_cong [OF 1(4), of mutexes] arg_cong [OF 1(4), of sems] by simp_all
    with 1 show ?thesis by (intro exI [of _ s1] exI [of _ ss]) auto
  qed
  then obtain s1 ss' where 1:
    "sys_sleep ms s = Switch (switch_to (next_of rs) s1) (\<lambda>s3. Done () (irq_leave_proection (eflags s) s3))"
    "sched_rel s1 rs ss'" "set ss' \<subseteq> insert t (set ss)" "run_only (nodes s) (nodes s1)"
    "mutexes s1 = mutexes s" "sems s1 = sems s" by blast
  have f: "sync_rel s1 rs ss' W \<and> mutex_inv s1 W \<and> sem_inv s1 W \<and> mutex_frame {} s W s1 W"
    using 1(3) by (intro frame_sched [OF assms 1(2,4,5,6)]) auto
  with 1(1) kinv_switch [of s1 rs ss' W] show ?thesis
    by (intro ex4I [of _ "switch_to (next_of rs) s1" rs ss' W])
       (auto simp: effect_def mutex_frame_def)
qed

text \<open>The clock.\<close>

lemma effect_tick_sleepers:
  assumes "kinv s rs ss W"
  shows "\<exists>s' rs' ss' W'. effect Tick s rs W (task_tick_sleepers s) s' rs' ss' W' \<and> mutex_frame {} s W s' W'"
proof -
  let ?wk = "wake_up (sleep_ticks s) ss" and ?st = "stay_asleep (sleep_ticks s) ss"
  have r: "sched_rel s rs ss" and c: "curr_task s = next_of rs"
    using assms by (simp_all add: kinv_def sync_rel_def dispatched_def)
  from task_tick_sleepers_rel [OF r] obtain s1 where 1:
    "sched_rel s1 (rs @ ?wk) ?st" "run_only (nodes s) (nodes s1)" "tick_sleepers ss s s1"
    "task_tick_sleepers s = (let u = next_of (rs @ ?wk)
       in if u = curr_task s then Done () s1
          else Switch (switch_to u s1) (\<lambda>s3. Done () (irq_leave_proection (eflags s) s3)))"
    by blast
  have ms: "mutexes s1 = mutexes s" "sems s1 = sems s"
    using arg_cong [OF 1(3) [unfolded tick_sleepers_def], of mutexes]
      arg_cong [OF 1(3) [unfolded tick_sleepers_def], of sems] by simp_all
  have sub: "set (rs @ ?wk) \<union> set ?st \<subseteq> set rs \<union> set ss" by (auto simp: wake_up_def stay_asleep_def)
  note f = frame_sched [OF assms 1(1,2) ms sub]
  show ?thesis
  proof (cases "next_of (rs @ ?wk) = curr_task s")
    case True
    then have "kinv s1 (rs @ ?wk) ?st W"
      using f tick_sleepers_sel(1) [OF 1(3)] by (simp add: kinv_def dispatched_def)
    with True 1(4) f tick_sleepers_sel(1) [OF 1(3)] show ?thesis
      by (intro ex4I [of _ s1 "rs @ ?wk" ?st W]) (simp add: effect_def)
  next
    case False
    then have "rs = []" using c by (cases rs) auto
    with False 1(4) f kinv_switch [of s1 "rs @ ?wk" ?st W] show ?thesis
      by (intro ex4I [of _ "switch_to (next_of (rs @ ?wk)) s1" "rs @ ?wk" ?st W])
         (simp add: effect_def mutex_frame_def)
  qed
qed

lemma effect_tick:
  assumes "kinv s rs ss W"
  shows "\<exists>s' rs' ss' W'. effect Tick s rs W (kernel_op Tick s) s' rs' ss' W' \<and> mutex_frame {} s W s' W'"
proof -
  have r: "sched_rel s rs ss" and d: "dispatched s rs" and c: "curr_task s = next_of rs"
    using assms by (simp_all add: kinv_def sync_rel_def dispatched_def)
  let ?dec = "upd_task (curr_task s) (\<lambda>t. t\<lparr>tk_slice_ticks := tk_slice_ticks t - 1\<rparr>) s"
  consider (run) "tk_slice_ticks (tasks s (curr_task s)) \<noteq> 1"
    | (renew) "tk_slice_ticks (tasks s (curr_task s)) = 1" "length rs \<le> 1"
    | (preempt) t u rs2 where "tk_slice_ticks (tasks s (curr_task s)) = 1" "rs = t # u # rs2"
    by (cases rs; cases "tl rs") auto
  then show ?thesis
  proof cases
    case run
    have "kinv ?dec rs ss W" using assms by (simp add: kinv_def dispatched_def)
    from effect_tick_sleepers [OF this] task_time_tick_running [OF run] show ?thesis
      by (auto simp: effect_def mutex_frame_def)
  next
    case renew
    obtain s1 f where 1: "task_time_tick s = task_tick_sleepers s1" "sched_rel s1 rs ss"
      "run_only (nodes s) (nodes s1)" "curr_task s1 = curr_task s"
      "s1 = upd_task (curr_task s) f (s\<lparr>nodes := nodes s1, ready_list := ready_list s1\<rparr>)"
      using task_time_tick_renew [OF r d renew(2,1)] by blast
    have ms: "mutexes s1 = mutexes s" "sems s1 = sems s"
      using arg_cong [OF 1(5), of mutexes] arg_cong [OF 1(5), of sems] by simp_all
    have "kinv s1 rs ss W"
      using frame_sched [OF assms 1(2,3) ms] c 1(4) by (simp add: kinv_def dispatched_def)
    from effect_tick_sleepers [OF this] 1(1,4) ms show ?thesis
      by (auto simp: effect_def mutex_frame_def)
  next
    case preempt
    have t: "sched_rel s (t # u # rs2) ss" "curr_task s = t" "tk_slice_ticks (tasks s t) = 1"
      using r c preempt by simp_all
    obtain s1 where 1: "task_time_tick s =
        Switch (switch_to u s1) (\<lambda>s3. task_tick_sleepers (irq_leave_proection (eflags s) s3))"
      "sched_rel s1 (u # rs2 @ [t]) ss" "run_only (nodes s) (nodes s1)"
      "s1 = upd_task t (\<lambda>k. k\<lparr>tk_slice_ticks := tk_time_ticks k, tk_state := TASK_READY\<rparr>)
         (s\<lparr>nodes := nodes s1, ready_list := ready_list s1\<rparr>)"
      using task_time_tick_preempt [OF t] by blast
    have ms: "mutexes s1 = mutexes s" "sems s1 = sems s"
      using arg_cong [OF 1(4), of mutexes] arg_cong [OF 1(4), of sems] by simp_all
    have f: "sync_rel s1 (u # rs2 @ [t]) ss W \<and> mutex_inv s1 W \<and> sem_inv s1 W \<and> mutex_frame {} s W s1 W"
      using preempt by (intro frame_sched [OF assms 1(2,3) ms]) auto
    with 1(1) kinv_switch [of s1 "u # rs2 @ [t]" ss W] preempt show ?thesis
      by (intro ex4I [of _ "switch_to u s1" "u # rs2 @ [t]" ss W])
         (auto simp: effect_def mutex_frame_def advance_def)
  qed
qed

text \<open>Semaphores.\<close>

lemma sem_inv_waits:
  "sem_inv s W \<Longrightarrow> sm_count (sems s i) \<le> 0 \<Longrightarrow> sem_inv s (W(SQ i := ws))"
  by (auto simp: sem_inv_def) (meson order_antisym)

lemma mutex_inv_sem_wait [simp]: "mutex_inv s (W(SQ i := ws)) = mutex_inv s W"
  and sem_inv_mutex_wait [simp]: "sem_inv s (W(MQ m := ws)) = sem_inv s W"
  by (simp_all add: mutex_inv_def sem_inv_def)

lemma mutex_frame_sem: "same_counts s s' \<Longrightarrow> mutex_frame {} s W s' (W(SQ i := ws))"
  by (simp add: mutex_frame_def same_counts_def)

lemma mutex_frame_switch [simp]: "mutex_frame X s W (switch_to u s1) W' = mutex_frame X s W s1 W'"
  by (simp add: mutex_frame_def)

lemma mutex_frame_leave [simp]: "mutex_frame X s W (irq_leave_proection st s1) W' = mutex_frame X s W s1 W'"
  by (simp add: mutex_frame_def)

lemma effect_wait:
  assumes "kinv s (t # rs) ss W"
  shows "\<exists>s' rs' ss' W'. effect (Wait i) s (t # rs) W (kernel_op (Wait i) s) s' rs' ss' W' \<and> mutex_frame {} s W s' W'"
proof (cases "sm_count (sems s i) > 0")
  case True
  let ?s = "upd_sem i (\<lambda>x. x\<lparr>sm_count := sm_count x - 1\<rparr>) s"
  have "kinv ?s (t # rs) ss W"
    using assms True by (auto simp: kinv_def dispatched_def mutex_inv_def sem_inv_def)
  with sem_wait_take [OF True] show ?thesis
    by (intro ex4I [of _ ?s "t # rs" ss W]) (simp add: effect_def mutex_frame_def)
next
  case False
  have r: "sync_rel s (t # rs) ss W" "curr_task s = t" "sm_count (sems s i) \<le> 0"
    using assms False by (simp_all add: kinv_def dispatched_def)
  from sem_wait_blocks [OF this] obtain s1 where 1:
    "sem_wait i s = Switch (switch_to (next_of rs) s1) (\<lambda>s3. Done () (irq_leave_proection (eflags s) s3))"
    "sync_rel s1 rs ss (W(SQ i := W (SQ i) @ [t]))" "same_counts s s1" by blast
  let ?W = "W(SQ i := W (SQ i) @ [t])"
  have "mutex_inv s1 ?W" "sem_inv s1 ?W"
    unfolding same_counts_inv [OF 1(3)] using assms r(3) sem_inv_waits [of s W i]
    by (simp_all add: kinv_def)
  with 1 kinv_switch [OF 1(2)] mutex_frame_sem [OF 1(3)] show ?thesis
    by (intro ex4I [of _ "switch_to (next_of rs) s1" rs ss ?W])
       (auto simp: effect_def)
qed

lemma effect_notify:
  assumes "kinv s rs ss W"
  shows "\<exists>s' rs' ss' W'. effect (Notify i) s rs W (kernel_op (Notify i) s) s' rs' ss' W' \<and> mutex_frame {} s W s' W'"
proof (cases "W (SQ i)")
  case Nil
  let ?s = "upd_sem i (\<lambda>x. x\<lparr>sm_count := sm_count x + 1\<rparr>) s"
  have "kinv ?s rs ss W"
    using assms Nil by (auto simp: kinv_def dispatched_def mutex_inv_def sem_inv_def)
  moreover have "sem_notify i s = Done () ?s"
    by (rule sem_notify_none [of s rs ss W]) (use assms Nil in \<open>simp_all add: kinv_def\<close>)
  ultimately show ?thesis
    by (intro ex4I [of _ ?s rs ss W]) (simp add: effect_def mutex_frame_def)
next
  case (Cons u ws)
  have d: "sync_rel s rs ss W" "dispatched s rs" using assms by (simp_all add: kinv_def)
  from sem_notify_wakes [OF this Cons] obtain s1 where 1: "sem_notify i s =
      (if rs = [] then Switch (switch_to u s1) (\<lambda>s3. Done () (irq_leave_proection (eflags s) s3))
       else Done () (irq_leave_proection (eflags s) s1))"
    "sync_rel s1 (rs @ [u]) ss (W(SQ i := ws))" "same_counts s s1" "curr_task s1 = curr_task s" by blast
  let ?W = "W(SQ i := ws)"
  have "sm_count (sems s i) \<le> 0" using assms Cons by (simp add: kinv_def sem_inv_def)
  then have inv: "mutex_inv s1 ?W" "sem_inv s1 ?W"
    unfolding same_counts_inv [OF 1(3)] using assms sem_inv_waits [of s W i]
    by (simp_all add: kinv_def)
  show ?thesis
  proof (cases "rs = []")
    case True
    with 1 inv kinv_switch [OF 1(2)] mutex_frame_sem [OF 1(3)] show ?thesis
      by (intro ex4I [of _ "switch_to u s1" "rs @ [u]" ss ?W])
         (auto simp: effect_def)
  next
    case False
    then have "dispatched s1 (rs @ [u])" using d(2) 1(4) by (cases rs) (simp_all add: dispatched_def)
    with False 1 inv mutex_frame_sem [OF 1(3)] show ?thesis
      by (intro ex4I [of _ "irq_leave_proection (eflags s) s1" "rs @ [u]" ss ?W])
         (auto simp: effect_def kinv_def dispatched_def)
  qed
qed

text \<open>Mutexes.  \<open>lock_view m s W\<close> is what the machine invariant needs to know of a mutex.\<close>

abbreviation lock_view :: "mutex_id \<Rightarrow> 'a sync_state_scheme \<Rightarrow> (wq \<Rightarrow> tid list) \<Rightarrow> tid option \<times> int \<times> tid list" where
  "lock_view m s W \<equiv> (mx_owner (mutexes s m), mx_locked_count (mutexes s m), W (MQ m))"

lemma mutex_frame_view:
  "mutex_frame X s W s' W' \<longleftrightarrow> (\<forall>m. m \<notin> X \<longrightarrow> lock_view m s' W' = lock_view m s W)"
  by (simp add: mutex_frame_def)

lemma mutex_inv_upd:
  assumes "mutex_inv s W" "mutex_frame {m} s W s' W'"
    and "0 \<le> mx_locked_count (mutexes s' m)"
    and "mx_owner (mutexes s' m) = None \<longleftrightarrow> mx_locked_count (mutexes s' m) = 0"
    and "W' (MQ m) \<noteq> [] \<longrightarrow> mx_owner (mutexes s' m) \<noteq> None"
    and "\<forall>t \<in> set (W' (MQ m)). mx_owner (mutexes s' m) \<noteq> Some t"
  shows "mutex_inv s' W'"
  unfolding mutex_inv_def
proof
  fix m'
  show "0 \<le> mx_locked_count (mutexes s' m') \<and>
      (mx_owner (mutexes s' m') = None \<longleftrightarrow> mx_locked_count (mutexes s' m') = 0) \<and>
      (W' (MQ m') \<noteq> [] \<longrightarrow> mx_owner (mutexes s' m') \<noteq> None) \<and>
      (\<forall>t \<in> set (W' (MQ m')). mx_owner (mutexes s' m') \<noteq> Some t)"
  proof (cases "m' = m")
    case True
    show ?thesis unfolding True by (intro conjI; fact)
  next
    case False
    with assms(1,2) show ?thesis unfolding mutex_inv_def mutex_frame_def by auto
  qed
qed

lemma effect_lock:
  assumes "kinv s (t # rs) ss W"
  shows "\<exists>s' rs' ss' W'. effect (Lock m) s (t # rs) W (kernel_op (Lock m) s) s' rs' ss' W' \<and>
           mutex_frame {m} s W s' W' \<and>
           (case lock_view m s W of (ow, n, ws) \<Rightarrow>
              if ow = None \<or> ow = Some t
              then kernel_op (Lock m) s = Done () s' \<and> lock_view m s' W' = (Some t, n + 1, ws)
              else (\<exists>k. kernel_op (Lock m) s = Switch s' k) \<and> lock_view m s' W' = (ow, n, ws @ [t]))"
proof -
  have r: "sync_rel s (t # rs) ss W" and c: "curr_task s = t" and mi: "mutex_inv s W" and si: "sem_inv s W"
    using assms by (simp_all add: kinv_def dispatched_def)
  have n: "mx_owner (mutexes s m) = None \<longleftrightarrow> mx_locked_count (mutexes s m) = 0"
    "0 \<le> mx_locked_count (mutexes s m)" "\<forall>t \<in> set (W (MQ m)). mx_owner (mutexes s m) \<noteq> Some t"
    "W (MQ m) \<noteq> [] \<longrightarrow> mx_owner (mutexes s m) \<noteq> None"
    using mi unfolding mutex_inv_def by blast+
  show ?thesis
  proof (cases "mx_owner (mutexes s m) = None \<or> mx_owner (mutexes s m) = Some t")
    case True
    let ?s = "upd_mutex m (\<lambda>x. x\<lparr>mx_locked_count := mx_locked_count x + 1, mx_owner := Some t\<rparr>) s"
    have e: "mutex_lock m s = Done () ?s"
    proof (cases "mx_owner (mutexes s m) = None")
      case True
      with n(1) have "mx_locked_count (mutexes s m) = 0" by simp
      with mutex_lock_free [OF this] c show ?thesis by (simp add: upd_mutex_def)
    next
      case False
      with True n(1) have "mx_locked_count (mutexes s m) \<noteq> 0" "mx_owner (mutexes s m) = Some (curr_task s)"
        using c by auto
      moreover from this(2) c have "(mutexes s m)\<lparr>mx_owner := Some t\<rparr> = mutexes s m"
        by (cases "mutexes s m") simp
      then have "(mutexes s m)\<lparr>mx_locked_count := n, mx_owner := Some t\<rparr> = (mutexes s m)\<lparr>mx_locked_count := n\<rparr>" for n
        by (cases "mutexes s m") simp
      ultimately show ?thesis using mutex_lock_again [of s m] by (simp add: upd_mutex_def)
    qed
    have f: "mutex_frame {m} s W ?s W" by (simp add: mutex_frame_def)
    have "t \<notin> set (W (MQ m))"
      using r by (auto simp: sync_rel_def wait_sep_def)
    then have "mutex_inv ?s W"
      using n(2) by (intro mutex_inv_upd [OF mi f]) auto
    then have "kinv ?s (t # rs) ss W"
      using r c si by (simp add: kinv_def dispatched_def sem_inv_def)
    with e f True c show ?thesis
      by (intro ex4I [of _ ?s "t # rs" ss W]) (simp add: effect_def)
  next
    case False
    then have "mx_locked_count (mutexes s m) \<noteq> 0" "mx_owner (mutexes s m) \<noteq> Some t" using n(1) by auto
    from mutex_lock_blocks [OF r c this] obtain s1 where 1: "mutex_lock m s =
        Switch (switch_to (next_of rs) s1) (\<lambda>s3. Done () (irq_leave_proection (eflags s) s3))"
      "sync_rel s1 rs ss (W(MQ m := W (MQ m) @ [t]))" "same_counts s s1" by blast
    let ?W = "W(MQ m := W (MQ m) @ [t])" and ?s = "switch_to (next_of rs) s1"
    have f: "mutex_frame {m} s W s1 ?W" using 1(3) by (simp add: mutex_frame_def same_counts_def)
    have "mutex_inv s1 ?W"
      using n False 1(3) by (intro mutex_inv_upd [OF mi f]) (auto simp: same_counts_def)
    moreover have "sem_inv s1 ?W" using si same_counts_inv(2) [OF 1(3)] by simp
    ultimately have "kinv ?s rs ss ?W" using kinv_switch [OF 1(2)] by simp
    with 1 f False show ?thesis
      by (intro ex4I [of _ ?s rs ss ?W]) (simp add: effect_def same_counts_def)
  qed
qed

lemma effect_unlock:
  assumes "kinv s (t # rs) ss W"
  shows "\<exists>s' rs' ss' W'. effect (Unlock m) s (t # rs) W (kernel_op (Unlock m) s) s' rs' ss' W' \<and>
           mutex_frame {m} s W s' W' \<and> kernel_op (Unlock m) s = Done () s' \<and>
           (case lock_view m s W of (ow, n, ws) \<Rightarrow>
              if ow \<noteq> Some t then lock_view m s' W' = (ow, n, ws)
              else if n \<noteq> 1 then lock_view m s' W' = (ow, n - 1, ws)
              else case ws of [] \<Rightarrow> lock_view m s' W' = (None, 0, [])
                            | u # ws' \<Rightarrow> lock_view m s' W' = (Some u, 1, ws'))"
proof -
  have r: "sync_rel s (t # rs) ss W" and c: "curr_task s = t" and mi: "mutex_inv s W" and si: "sem_inv s W"
    using assms by (simp_all add: kinv_def dispatched_def)
  have n: "mx_owner (mutexes s m) = None \<longleftrightarrow> mx_locked_count (mutexes s m) = 0"
    "0 \<le> mx_locked_count (mutexes s m)" "\<forall>t \<in> set (W (MQ m)). mx_owner (mutexes s m) \<noteq> Some t"
    using mi by (simp_all add: mutex_inv_def)
  have fin: ?thesis if "mutex_unlock m s = Done () s'" "sync_rel s' (t # rs @ new) ss W'"
    "curr_task s' = t" "mutex_frame {m} s W s' W'" "mutex_inv s' W'" "sem_inv s' W'"
    "case lock_view m s W of (ow, n, ws) \<Rightarrow>
       if ow \<noteq> Some t then lock_view m s' W' = (ow, n, ws)
       else if n \<noteq> 1 then lock_view m s' W' = (ow, n - 1, ws)
       else case ws of [] \<Rightarrow> lock_view m s' W' = (None, 0, [])
                     | u # ws' \<Rightarrow> lock_view m s' W' = (Some u, 1, ws')" for s' new W'
  proof -
    have "kinv s' (t # rs @ new) ss W'" using that by (simp add: kinv_def dispatched_def)
    moreover have "advance (t # rs) (t # rs @ new)" using advance_refl(2) [of "t # rs" new] by simp
    ultimately show ?thesis
      using that c by (intro ex4I [of _ s' "t # rs @ new" ss W']) (simp add: effect_def)
  qed
  consider "mx_owner (mutexes s m) \<noteq> Some t"
    | "mx_owner (mutexes s m) = Some t" "mx_locked_count (mutexes s m) \<noteq> 1"
    | "mx_owner (mutexes s m) = Some t" "mx_locked_count (mutexes s m) = 1" "W (MQ m) = []"
    | u ws where "mx_owner (mutexes s m) = Some t" "mx_locked_count (mutexes s m) = 1" "W (MQ m) = u # ws"
    by (cases "W (MQ m)") auto
  then show ?thesis
  proof cases
    case 1
    with c have "mutex_unlock m s = Done () s" by (intro mutex_unlock_other) simp
    from fin [OF this, of "[]" W] r c mi si 1 show ?thesis by (simp add: mutex_frame_def)
  next
    case 2
    let ?s = "upd_mutex m (\<lambda>x. x\<lparr>mx_locked_count := mx_locked_count x - 1\<rparr>) s"
    have e: "mutex_unlock m s = Done () ?s" using 2 c by (intro mutex_unlock_nested) simp_all
    have f: "mutex_frame {m} s W ?s W" by (simp add: mutex_frame_def)
    have "mutex_inv ?s W" using n 2 by (intro mutex_inv_upd [OF mi f]) auto
    then show ?thesis using fin [OF e, of "[]" W] r c f si 2 by (simp add: sem_inv_def)
  next
    case 3
    let ?s = "upd_mutex m (\<lambda>x. x\<lparr>mx_locked_count := 0, mx_owner := None\<rparr>) s"
    have e: "mutex_unlock m s = Done () ?s" using 3 c by (intro mutex_unlock_last [OF r]) simp_all
    have f: "mutex_frame {m} s W ?s W" by (simp add: mutex_frame_def)
    have "mutex_inv ?s W" using 3 by (intro mutex_inv_upd [OF mi f]) auto
    then show ?thesis using fin [OF e, of "[]" W] r c f si 3 by (simp add: sem_inv_def)
  next
    case 4
    from mutex_unlock_handoff [OF r c 4(3,1,2)] obtain s1 where 5: "mutex_unlock m s = Done () s1"
      "sync_rel s1 (t # rs @ [u]) ss (W(MQ m := ws))" "mx_owner (mutexes s1 m) = Some u"
      "mx_locked_count (mutexes s1 m) = 1" "\<forall>m'. m' \<noteq> m \<longrightarrow> mutexes s1 m' = mutexes s m'"
      "sems s1 = sems s" "curr_task s1 = t" by blast
    let ?W = "W(MQ m := ws)"
    have f: "mutex_frame {m} s W s1 ?W" using 5(5) by (simp add: mutex_frame_def)
    have "dll (nodes s) (wait_list s (MQ m)) (map Wait_node (W (MQ m)))"
      using r unfolding sync_rel_def wait_rel_def by blast
    then have "u \<notin> set ws" using 4(3) by (auto dest!: dll_distinct)
    then have "mutex_inv s1 ?W" using 5 by (intro mutex_inv_upd [OF mi f]) auto
    moreover have "sem_inv s1 ?W" using si 5(6) by (simp add: sem_inv_def)
    ultimately show ?thesis using fin [OF 5(1,2,7) f] 5 4 by simp
  qed
qed

subsection \<open>The invariant of the machine\<close>

definition pend_inv :: "(tid \<Rightarrow> (kevent \<times> kont) option) \<Rightarrow> bool" where
  "pend_inv p \<longleftrightarrow> (\<forall>t e k. p t = Some (e, k) \<longrightarrow> kont_ok e k \<and> (\<forall>m. e \<noteq> Unlock m))"

definition lock_inv ::
  "'a sync_state_scheme \<Rightarrow> (wq \<Rightarrow> tid list) \<Rightarrow> (tid \<Rightarrow> (kevent \<times> kont) option) \<Rightarrow> (tid \<Rightarrow> mutex_id \<Rightarrow> nat) \<Rightarrow> bool" where
  "lock_inv s W p h \<longleftrightarrow>
     (\<forall>t m. h t m > 0 \<longrightarrow> mx_owner (mutexes s m) = Some t \<and> mx_locked_count (mutexes s m) = int (h t m)) \<and>
     (\<forall>t m. mx_owner (mutexes s m) = Some t \<and> h t m = 0 \<longrightarrow>
        mx_locked_count (mutexes s m) = 1 \<and> (\<exists>k. p t = Some (Lock m, k))) \<and>
     (\<forall>t m k. p t = Some (Lock m, k) \<longrightarrow> h t m = 0 \<and> (t \<in> set (W (MQ m)) \<or> mx_owner (mutexes s m) = Some t)) \<and>
     (\<forall>t m. t \<in> set (W (MQ m)) \<longrightarrow> (\<exists>k. p t = Some (Lock m, k)))"

definition minv :: "machine \<Rightarrow> tid list \<Rightarrow> tid list \<Rightarrow> (wq \<Rightarrow> tid list) \<Rightarrow> bool" where
  "minv M rs ss W \<longleftrightarrow>
     kinv (mstate M) rs ss W \<and> pend_inv (pend M) \<and> lock_inv (mstate M) W (pend M) (held M)"

abbreviation not_lock :: "(kevent \<times> kont) option \<Rightarrow> bool" where
  "not_lock p \<equiv> (\<forall>m k. p \<noteq> Some (Lock m, k))"

lemma lock_invD:
  assumes "lock_inv s W p h"
  shows "h t m > 0 \<Longrightarrow> mx_owner (mutexes s m) = Some t \<and> mx_locked_count (mutexes s m) = int (h t m)"
    and "mx_owner (mutexes s m) = Some t \<Longrightarrow> h t m = 0 \<Longrightarrow>
           mx_locked_count (mutexes s m) = 1 \<and> (\<exists>k. p t = Some (Lock m, k))"
    and "p t = Some (Lock m, k) \<Longrightarrow> h t m = 0 \<and> (t \<in> set (W (MQ m)) \<or> mx_owner (mutexes s m) = Some t)"
    and "t \<in> set (W (MQ m)) \<Longrightarrow> \<exists>k. p t = Some (Lock m, k)"
  using assms unfolding lock_inv_def by (blast, blast, blast, blast)

lemma lock_inv_other:
  assumes "lock_inv s W p h" "mutex_frame {} s W s' W'" "not_lock (p t)" "not_lock q"
  shows "lock_inv s' W' (p(t := q)) h"
proof -
  have f: "mx_owner (mutexes s' m) = mx_owner (mutexes s m)"
    "mx_locked_count (mutexes s' m) = mx_locked_count (mutexes s m)" "W' (MQ m) = W (MQ m)" for m
    using assms(2) by (simp_all add: mutex_frame_def)
  show ?thesis
    unfolding lock_inv_def f
  proof (intro conjI allI impI)
    fix u m
    let ?p = "p(t := q)"
    show "mx_owner (mutexes s m) = Some u" "mx_locked_count (mutexes s m) = int (h u m)" if "h u m > 0"
      using lock_invD(1) [OF assms(1) that] by simp_all
    show "mx_locked_count (mutexes s m) = 1" "\<exists>k. ?p u = Some (Lock m, k)"
      if "mx_owner (mutexes s m) = Some u \<and> h u m = 0"
      using that lock_invD(2) [OF assms(1), of m u] assms(3) by auto
    show "h u m = 0" "u \<in> set (W (MQ m)) \<or> mx_owner (mutexes s m) = Some u" if "?p u = Some (Lock m, k)" for k
      using that lock_invD(3) [OF assms(1), of u m k] assms(4) by (auto split: if_splits)
    show "\<exists>k. ?p u = Some (Lock m, k)" if "u \<in> set (W (MQ m))"
      using lock_invD(4) [OF assms(1) that] assms(3) by auto
  qed
qed

text \<open>Locking: at once, after a wait, or not yet.\<close>

lemma lock_inv_take:
  assumes "lock_inv s W p h" "p t = None" "mutex_frame {m} s W s' W'"
    and "mx_owner (mutexes s m) = None \<and> mx_locked_count (mutexes s m) = 0 \<or> mx_owner (mutexes s m) = Some t"
    and "lock_view m s' W' = (Some t, mx_locked_count (mutexes s m) + 1, W (MQ m))"
  shows "lock_inv s' W' (p(t := None)) (h(t := count_held (Lock m) (h t)))"
proof -
  have hm: "int (h t m) = mx_locked_count (mutexes s m)"
    using assms(2,4) lock_invD(1) [OF assms(1), of t m] lock_invD(2) [OF assms(1), of m t] by (cases "h t m = 0") auto
  have ho: "h u m = 0" if "u \<noteq> t" for u
    using that assms(4) lock_invD(1) [OF assms(1), of u m] by (cases "h u m = 0") auto
  have view: "lock_view m' s' W' = (if m' = m then (Some t, int (h t m) + 1, W (MQ m)) else lock_view m' s W)" for m'
    using assms(3,5) hm by (simp add: mutex_frame_view)
  have pt: "p(t := None) = p" using assms(2) by auto
  show ?thesis
    unfolding lock_inv_def pt
  proof (intro conjI allI impI)
    fix u m'
    let ?h = "h(t := count_held (Lock m) (h t))"
    show "mx_owner (mutexes s' m') = Some u" "mx_locked_count (mutexes s' m') = int (?h u m')" if "?h u m' > 0"
      using that view [of m'] lock_invD(1) [OF assms(1), of u m'] ho [of u]
      by (auto split: if_splits)
    show "mx_locked_count (mutexes s' m') = 1" "\<exists>k. p u = Some (Lock m', k)"
      if "mx_owner (mutexes s' m') = Some u \<and> ?h u m' = 0"
      using that view [of m'] lock_invD(2) [OF assms(1), of m' u] by (auto split: if_splits)
    show "?h u m' = 0" "u \<in> set (W' (MQ m')) \<or> mx_owner (mutexes s' m') = Some u" if "p u = Some (Lock m', k)" for k
      using that view [of m'] lock_invD(3) [OF assms(1) that] assms(2,4) by (auto split: if_splits)
    show "\<exists>k. p u = Some (Lock m', k)" if "u \<in> set (W' (MQ m'))"
      using that view [of m'] lock_invD(4) [OF assms(1), of u m'] by (auto split: if_splits)
  qed
qed

lemma lock_inv_wait:
  assumes "lock_inv s W p h" "p t = None" "mutex_frame {m} s W s' W'"
    and "mx_owner (mutexes s m) \<noteq> Some t"
    and "lock_view m s' W' = (mx_owner (mutexes s m), mx_locked_count (mutexes s m), W (MQ m) @ [t])"
  shows "lock_inv s' W' (p(t := Some (Lock m, k))) h"
proof -
  have h0: "h t m = 0" using assms(4) lock_invD(1) [OF assms(1), of t m] by (cases "h t m = 0") auto
  have view: "lock_view m' s' W' =
      (mx_owner (mutexes s m'), mx_locked_count (mutexes s m'), if m' = m then W (MQ m) @ [t] else W (MQ m'))" for m'
    using assms(3,5) by (simp add: mutex_frame_view)
  show ?thesis
    unfolding lock_inv_def
  proof (intro conjI allI impI)
    fix u m'
    let ?p = "p(t := Some (Lock m, k))"
    show "mx_owner (mutexes s' m') = Some u" "mx_locked_count (mutexes s' m') = int (h u m')" if "h u m' > 0"
      using that view [of m'] lock_invD(1) [OF assms(1), of u m'] by auto
    show "mx_locked_count (mutexes s' m') = 1" "\<exists>k. ?p u = Some (Lock m', k)"
      if "mx_owner (mutexes s' m') = Some u \<and> h u m' = 0"
      using that view [of m'] lock_invD(2) [OF assms(1), of m' u] assms(2) by auto
    show "h u m' = 0" "u \<in> set (W' (MQ m')) \<or> mx_owner (mutexes s' m') = Some u"
      if "?p u = Some (Lock m', k')" for k'
      using that view [of m'] lock_invD(3) [OF assms(1), of u m' k'] h0 by (auto split: if_splits)
    show "\<exists>k. ?p u = Some (Lock m', k)" if "u \<in> set (W' (MQ m'))"
      using that view [of m'] lock_invD(4) [OF assms(1), of u m'] assms(2) by (auto split: if_splits)
  qed
qed

lemma lock_inv_granted:
  assumes "lock_inv s W p h" "p t = Some (Lock m, k)" "t \<notin> set (W (MQ m))" "mutex_frame {} s W s' W'"
  shows "lock_inv s' W' (p(t := None)) (h(t := count_held (Lock m) (h t)))"
proof -
  have o: "mx_owner (mutexes s m) = Some t" and h0: "h t m = 0"
    using lock_invD(3) [OF assms(1,2)] assms(3) by auto
  have c: "mx_locked_count (mutexes s m) = 1" using lock_invD(2) [OF assms(1) o h0] by simp
  have view: "mx_owner (mutexes s' m') = mx_owner (mutexes s m')"
    "mx_locked_count (mutexes s' m') = mx_locked_count (mutexes s m')" "W' (MQ m') = W (MQ m')" for m'
    using assms(4) by (simp_all add: mutex_frame_def)
  show ?thesis
    unfolding lock_inv_def view
  proof (intro conjI allI impI)
    fix u m'
    let ?h = "h(t := count_held (Lock m) (h t))" and ?p = "p(t := None)"
    show "mx_owner (mutexes s m') = Some u" "mx_locked_count (mutexes s m') = int (?h u m')" if "?h u m' > 0"
      using that lock_invD(1) [OF assms(1), of u m'] o c h0 by (auto split: if_splits)
    show "mx_locked_count (mutexes s m') = 1" "\<exists>k. ?p u = Some (Lock m', k)"
      if "mx_owner (mutexes s m') = Some u \<and> ?h u m' = 0"
      using that lock_invD(2) [OF assms(1), of m' u] assms(2) by (auto split: if_splits)
    show "?h u m' = 0" "u \<in> set (W (MQ m')) \<or> mx_owner (mutexes s m') = Some u" if "?p u = Some (Lock m', k)" for k
      using that lock_invD(3) [OF assms(1), of u m' k] by (auto split: if_splits)
    show "\<exists>k. ?p u = Some (Lock m', k)" if "u \<in> set (W (MQ m'))"
      using that lock_invD(4) [OF assms(1) that] assms(2,3) by auto
  qed
qed

text \<open>Unlocking: one level of several, or the last one, which passes the mutex on.\<close>

lemma lock_inv_countdown:
  assumes "lock_inv s W p h" "p t = None" "mutex_frame {m} s W s' W'" "h t m > 1"
    and "lock_view m s' W' = (Some t, int (h t m) - 1, W (MQ m))"
  shows "lock_inv s' W' p (h(t := count_held (Unlock m) (h t)))"
proof -
  have o: "mx_owner (mutexes s m) = Some t" using lock_invD(1) [OF assms(1), of t m] assms(4) by simp
  have view: "lock_view m' s' W' = (if m' = m then (Some t, int (h t m) - 1, W (MQ m)) else lock_view m' s W)" for m'
    using assms(3,5) by (simp add: mutex_frame_view)
  let ?h = "h(t := count_held (Unlock m) (h t))"
  have h0: "?h u m' = 0 \<longleftrightarrow> h u m' = 0" for u m' using assms(4) by auto
  show ?thesis
    unfolding lock_inv_def
  proof (intro conjI allI impI)
    fix u m'
    show "mx_owner (mutexes s' m') = Some u" "mx_locked_count (mutexes s' m') = int (?h u m')" if "?h u m' > 0"
      using that h0 [of u m'] view [of m'] lock_invD(1) [OF assms(1), of u m'] o assms(4)
      by (cases "m' = m"; auto simp: of_nat_diff)+
    show "mx_locked_count (mutexes s' m') = 1" "\<exists>k. p u = Some (Lock m', k)"
      if "mx_owner (mutexes s' m') = Some u \<and> ?h u m' = 0"
      using that h0 [of u m'] view [of m'] lock_invD(2) [OF assms(1), of m' u] assms(4)
      by (auto split: if_splits)
    show "?h u m' = 0" "u \<in> set (W' (MQ m')) \<or> mx_owner (mutexes s' m') = Some u" if "p u = Some (Lock m', k)" for k
      using h0 [of u m'] view [of m'] lock_invD(3) [OF assms(1) that] o by (auto split: if_splits)
    show "\<exists>k. p u = Some (Lock m', k)" if "u \<in> set (W' (MQ m'))"
      using that view [of m'] lock_invD(4) [OF assms(1), of u m'] by (auto split: if_splits)
  qed
qed

lemma lock_inv_pass_on:
  assumes "lock_inv s W p h" "p t = None" "mutex_frame {m} s W s' W'" "h t m = 1"
    and "lock_view m s' W' = (hd_opt (W (MQ m)), if W (MQ m) = [] then 0 else 1, tl (W (MQ m)))"
  shows "lock_inv s' W' p (h(t := count_held (Unlock m) (h t)))"
proof -
  have o: "mx_owner (mutexes s m) = Some t" using lock_invD(1) [OF assms(1), of t m] assms(4) by simp
  have ho: "h u m = 0" if "u \<noteq> t" for u
    using that o lock_invD(1) [OF assms(1), of u m] by (cases "h u m = 0") auto
  have view: "lock_view m' s' W' =
      (if m' = m then (hd_opt (W (MQ m)), if W (MQ m) = [] then 0 else 1, tl (W (MQ m))) else lock_view m' s W)" for m'
    using assms(3,5) by (simp add: mutex_frame_view)
  have sub: "x \<in> set (tl (W (MQ m))) \<Longrightarrow> x \<in> set (W (MQ m))" "hd_opt (W (MQ m)) = Some x \<Longrightarrow> x \<in> set (W (MQ m))"
    "x \<in> set (W (MQ m)) \<Longrightarrow> x \<in> set (tl (W (MQ m))) \<or> hd_opt (W (MQ m)) = Some x" for x
    by (cases "W (MQ m)"; auto)+
  let ?h = "h(t := count_held (Unlock m) (h t))"
  have hm: "?h u m' = (if m' = m then 0 else h u m')" for u m' using ho [of u] assms(4) by simp
  show ?thesis
    unfolding lock_inv_def hm
  proof (intro conjI allI impI)
    fix u m'
    show "mx_owner (mutexes s' m') = Some u" "mx_locked_count (mutexes s' m') = int (if m' = m then 0 else h u m')"
      if "(if m' = m then 0 else h u m') > 0"
      using that view [of m'] lock_invD(1) [OF assms(1), of u m'] by (auto split: if_splits)
    show "mx_locked_count (mutexes s' m') = 1" "\<exists>k. p u = Some (Lock m', k)"
      if "mx_owner (mutexes s' m') = Some u \<and> (if m' = m then 0 else h u m') = 0"
      using that view [of m'] lock_invD(2) [OF assms(1), of m' u] lock_invD(4) [OF assms(1), of u m] sub(2) [of u]
      by (auto split: if_splits)
    show "(if m' = m then 0 else h u m') = 0" "u \<in> set (W' (MQ m')) \<or> mx_owner (mutexes s' m') = Some u"
      if "p u = Some (Lock m', k)" for k
    proof -
      note L = lock_invD(3) [OF assms(1) that]
      then show "(if m' = m then 0 else h u m') = 0" by simp
      have "u \<noteq> t" using that assms(2) by auto
      then show "u \<in> set (W' (MQ m')) \<or> mx_owner (mutexes s' m') = Some u"
        using L view [of m'] o sub(3) [of u] by (cases "m' = m") auto
    qed
    show "\<exists>k. p u = Some (Lock m', k)" if "u \<in> set (W' (MQ m'))"
      using that view [of m'] lock_invD(4) [OF assms(1), of u m'] sub(1) [of u] by (auto split: if_splits)
  qed
qed

lemma lock_inv_release:
  assumes "lock_inv s W p h" "p t = None" "mutex_frame {m} s W s' W'"
    and "case lock_view m s W of (ow, n, ws) \<Rightarrow>
           if ow \<noteq> Some t then lock_view m s' W' = (ow, n, ws)
           else if n \<noteq> 1 then lock_view m s' W' = (ow, n - 1, ws)
           else case ws of [] \<Rightarrow> lock_view m s' W' = (None, 0, [])
                         | u # ws' \<Rightarrow> lock_view m s' W' = (Some u, 1, ws')"
  shows "lock_inv s' W' (p(t := None)) (h(t := count_held (Unlock m) (h t)))"
proof -
  have pt: "p(t := None) = p" using assms(2) by auto
  show ?thesis
  proof (cases "mx_owner (mutexes s m) = Some t")
    case False
    then have "h t m = 0" using lock_invD(1) [OF assms(1), of t m] by (cases "h t m = 0") auto
    then have h: "h(t := count_held (Unlock m) (h t)) = h" by (auto simp: fun_eq_iff)
    have "lock_view m' s' W' = lock_view m' s W" for m'
      using assms(3,4) False by (cases "m' = m") (simp_all add: mutex_frame_view)
    then have "mutex_frame {} s W s' W'" by (simp add: mutex_frame_view)
    from lock_inv_other [OF assms(1) this, of t None] assms(2) show ?thesis by (simp only: h) simp
  next
    case True
    then have hm: "h t m \<noteq> 0" "mx_locked_count (mutexes s m) = int (h t m)"
      using lock_invD(1) [OF assms(1), of t m] lock_invD(2) [OF assms(1) True] assms(2)
      by (cases "h t m = 0"; simp)+
    show ?thesis
    proof (cases "h t m = 1")
      case one: True
      have "lock_view m s' W' = (hd_opt (W (MQ m)), if W (MQ m) = [] then 0 else 1, tl (W (MQ m)))"
        using assms(4) True hm one by (cases "W (MQ m)") simp_all
      from lock_inv_pass_on [OF assms(1-3) one this] show ?thesis by (simp only: pt)
    next
      case False
      then have "lock_view m s' W' = (Some t, int (h t m) - 1, W (MQ m))" "h t m > 1"
        using assms(4) True hm by simp_all
      from lock_inv_countdown [OF assms(1-3) this(2,1)] show ?thesis by (simp only: pt)
    qed
  qed
qed

subsection \<open>Every step keeps the invariant\<close>

definition fair :: "'t list \<Rightarrow> 't list \<Rightarrow> 't \<Rightarrow> 't \<Rightarrow> bool" where
  "fair rs rs' c c' \<longleftrightarrow> advance rs rs' \<and> (c' = c \<or> rs = [] \<or> (\<exists>new. rs' = tl rs @ new))"

lemma effect_fair: "effect e s rs W r s' rs' ss' W' \<Longrightarrow> fair rs rs' (curr_task s) (curr_task s')"
  by (auto simp: effect_def fair_def)

lemma settle_effect:
  assumes "effect e s rs W r s' rs' ss' W'" "pend_inv (pend M)" "\<forall>m. e \<noteq> Unlock m \<or> (\<exists>s'. r = Done () s')"
    and "\<And>s1. r = Done () s1 \<Longrightarrow> lock_inv s' W' ((pend M)(t := None)) ((held M)(t := count_held e (held M t)))"
    and "\<And>s1 k. r = Switch s1 k \<Longrightarrow> lock_inv s' W' ((pend M)(t := Some (e, k))) (held M)"
  shows "\<exists>M'. settle t e r M = Some M' \<and> mstate M' = s' \<and> minv M' rs' ss' W'"
proof -
  consider "r = Done () s'" | k where "r = Switch s' k" "kont_ok e k"
    using assms(1) by (auto simp: effect_def)
  then show ?thesis
  proof cases
    case 1
    with assms(4) [OF 1] assms(1,2) show ?thesis
      by (simp add: minv_def effect_def pend_inv_def)
  next
    case (2 k)
    with assms(5) [OF 2(1)] assms(1,2,3) show ?thesis
      by (simp add: minv_def effect_def pend_inv_def)
  qed
qed

lemma settle_other:
  assumes "minv M rs ss W" "not_lock (pend M t)" "\<forall>m. e \<noteq> Lock m \<and> e \<noteq> Unlock m"
    and "effect e (mstate M) rs W r s' rs' ss' W'" "mutex_frame {} (mstate M) W s' W'"
  shows "\<exists>M'. settle t e r M = Some M' \<and> mstate M' = s' \<and> minv M' rs' ss' W'"
proof (rule settle_effect [OF assms(4)])
  have L: "lock_inv (mstate M) W (pend M) (held M)" and p: "pend_inv (pend M)"
    using assms(1) by (simp_all add: minv_def)
  have c: "count_held e g = g" for g using assms(3) by (cases e) auto
  show "pend_inv (pend M)" by (rule p)
  show "lock_inv s' W' ((pend M)(t := None)) ((held M)(t := count_held e (held M t)))"
    using lock_inv_other [OF L assms(5,2), of None] by (simp add: c)
  show "lock_inv s' W' ((pend M)(t := Some (e, k))) (held M)" for k
    using lock_inv_other [OF L assms(5,2)] assms(3) by simp
qed (use assms(3) in auto)

lemma settled:
  assumes "\<exists>M'. x = Some M' \<and> mstate M' = s' \<and> minv M' rs' ss' W'" "fair rs rs' c (curr_task s')"
  shows "\<exists>M' rs' ss' W'. x = Some M' \<and> minv M' rs' ss' W' \<and> fair rs rs' c (curr_task (mstate M'))"
  using assms by metis

lemma current_not_waiting:
  assumes "kinv s rs ss W" shows "curr_task s \<notin> set (W q)"
  using assms unfolding kinv_def sync_rel_def wait_sep_def dispatched_def
  by (cases rs) auto

lemma resume_step:
  assumes I: "minv M rs ss W" and p: "pend M (curr_task (mstate M)) = Some (e, k)"
  shows "\<exists>M' rs' ss' W'. settle (curr_task (mstate M)) e (k (mstate M)) M = Some M' \<and>
           minv M' rs' ss' W' \<and> fair rs rs' (curr_task (mstate M)) (curr_task (mstate M'))"
proof -
  let ?s = "mstate M" and ?t = "curr_task (mstate M)"
  have K: "kinv ?s rs ss W" and P: "pend_inv (pend M)" and L: "lock_inv ?s W (pend M) (held M)"
    using I by (simp_all add: minv_def)
  from P p have k: "kont_ok e k" "\<forall>m. e \<noteq> Unlock m" by (auto simp: pend_inv_def)
  then consider (plain) st where "k = (\<lambda>s. Done () (irq_leave_proection st s))"
    | (tick) st where "e = Tick" "k = (\<lambda>s. task_tick_sleepers (irq_leave_proection st s))"
    by (auto simp: kont_ok_def)
  then show ?thesis
  proof cases
    case plain
    let ?l = "irq_leave_proection st ?s"
    have f: "mutex_frame {} ?s W ?l W" by (simp add: mutex_frame_def)
    have E: "effect e ?s rs W (k ?s) ?l rs ss W" using K plain by (simp add: effect_def)
    have "\<exists>M'. settle ?t e (k ?s) M = Some M' \<and> mstate M' = ?l \<and> minv M' rs ss W"
    proof (cases "\<exists>m. e = Lock m")
      case True
      then obtain m where m: "e = Lock m" by blast
      have "lock_inv ?l W ((pend M)(?t := None)) ((held M)(?t := count_held e (held M ?t)))"
        unfolding m by (rule lock_inv_granted [OF L p [unfolded m] current_not_waiting [OF K] f])
      with settle_effect [OF E P] k(2) plain show ?thesis by simp
    next
      case False
      with k(2) p have "not_lock (pend M ?t)" "\<forall>m. e \<noteq> Lock m \<and> e \<noteq> Unlock m" by auto
      from settle_other [OF I this E f] show ?thesis .
    qed
    from settled [OF this effect_fair [OF E]] show ?thesis .
  next
    case tick
    have "kinv (irq_leave_proection st ?s) rs ss W" using K by simp
    from effect_tick_sleepers [OF this] tick obtain s' rs' ss' W' where
      E: "effect e (irq_leave_proection st ?s) rs W (k ?s) s' rs' ss' W'"
        "mutex_frame {} (irq_leave_proection st ?s) W s' W'" by auto
    then have E': "effect e ?s rs W (k ?s) s' rs' ss' W'" "mutex_frame {} ?s W s' W'"
      by (simp_all add: effect_def mutex_frame_def)
    have "not_lock (pend M ?t)" "\<forall>m. e \<noteq> Lock m \<and> e \<noteq> Unlock m" using p tick by auto
    from settled [OF settle_other [OF I this E'] effect_fair [OF E'(1)]] show ?thesis .
  qed
qed

lemma effect_other:
  assumes "kinv s rs ss W" "curr_task s \<noteq> Idle_task \<or> is_interrupt e" "\<forall>m. e \<noteq> Lock m \<and> e \<noteq> Unlock m"
  shows "\<exists>s' rs' ss' W'. effect e s rs W (kernel_op e s) s' rs' ss' W' \<and> mutex_frame {} s W s' W'"
proof (cases "is_interrupt e")
  case True
  with assms(1) show ?thesis
    by (cases e) (simp_all del: kernel_op.simps add: effect_tick effect_notify)
next
  case False
  with assms(1,2) obtain t rs1 where rs: "rs = t # rs1"
    by (cases rs) (auto simp: kinv_def dispatched_def)
  from False assms(3) show ?thesis
    using assms(1) unfolding rs
    by (cases e) (simp_all del: kernel_op.simps add: effect_yield effect_sleep effect_wait)
qed

lemma issue_step:
  assumes I: "minv M rs ss W" and p: "pend M (curr_task (mstate M)) = None"
    and e: "curr_task (mstate M) \<noteq> Idle_task \<or> is_interrupt e"
  shows "\<exists>M' rs' ss' W'. settle (curr_task (mstate M)) e (kernel_op e (mstate M)) M = Some M' \<and>
           minv M' rs' ss' W' \<and> fair rs rs' (curr_task (mstate M)) (curr_task (mstate M'))"
proof -
  let ?s = "mstate M" and ?t = "curr_task (mstate M)"
  have K: "kinv ?s rs ss W" and P: "pend_inv (pend M)" and L: "lock_inv ?s W (pend M) (held M)"
    using I by (simp_all add: minv_def)
  consider (other) "\<forall>m. e \<noteq> Lock m \<and> e \<noteq> Unlock m" | (lock) m where "e = Lock m" | (unlock) m where "e = Unlock m"
    by blast
  then show ?thesis
  proof cases
    case other
    from effect_other [OF K e other] obtain s' rs' ss' W' where
      E: "effect e ?s rs W (kernel_op e ?s) s' rs' ss' W'" "mutex_frame {} ?s W s' W'" by blast
    have "not_lock (pend M ?t)" using p by simp
    from settled [OF settle_other [OF I this other E] effect_fair [OF E(1)]] show ?thesis .
  next
    case lock
    with e obtain rs1 where rs: "rs = ?t # rs1"
      using K by (cases rs) (auto simp: kinv_def dispatched_def)
    from effect_lock [OF K [unfolded rs], of m] obtain s' rs' ss' W' where
      E: "effect (Lock m) ?s rs W (kernel_op (Lock m) ?s) s' rs' ss' W'" "mutex_frame {m} ?s W s' W'"
      and v: "case lock_view m ?s W of (ow, n, ws) \<Rightarrow>
              if ow = None \<or> ow = Some ?t
              then kernel_op (Lock m) ?s = Done () s' \<and> lock_view m s' W' = (Some ?t, n + 1, ws)
              else (\<exists>k. kernel_op (Lock m) ?s = Switch s' k) \<and> lock_view m s' W' = (ow, n, ws @ [?t])"
      using rs by (metis (no_types, lifting))
    have mi: "mx_owner (mutexes ?s m) = None \<longleftrightarrow> mx_locked_count (mutexes ?s m) = 0"
      using K by (simp add: kinv_def mutex_inv_def)
    have "\<exists>M'. settle ?t (Lock m) (kernel_op (Lock m) ?s) M = Some M' \<and> mstate M' = s' \<and> minv M' rs' ss' W'"
    proof (rule settle_effect [OF E(1) P])
      show "lock_inv s' W' ((pend M)(?t := None)) ((held M)(?t := count_held (Lock m) (held M ?t)))"
        if "kernel_op (Lock m) ?s = Done () s1" for s1
        using that v mi by (intro lock_inv_take [OF L p E(2)]) (auto split: if_splits)
      show "lock_inv s' W' ((pend M)(?t := Some (Lock m, k))) (held M)"
        if "kernel_op (Lock m) ?s = Switch s1 k" for s1 k
        using that v by (intro lock_inv_wait [OF L p E(2)]) (auto split: if_splits)
    qed simp
    from settled [OF this effect_fair [OF E(1)]] show ?thesis unfolding lock .
  next
    case unlock
    with e obtain rs1 where rs: "rs = ?t # rs1"
      using K by (cases rs) (auto simp: kinv_def dispatched_def)
    from effect_unlock [OF K [unfolded rs], of m] obtain s' rs' ss' W' where
      E: "effect (Unlock m) ?s rs W (kernel_op (Unlock m) ?s) s' rs' ss' W'" "mutex_frame {m} ?s W s' W'"
      "kernel_op (Unlock m) ?s = Done () s'"
      and v: "case lock_view m ?s W of (ow, n, ws) \<Rightarrow>
           if ow \<noteq> Some ?t then lock_view m s' W' = (ow, n, ws)
           else if n \<noteq> 1 then lock_view m s' W' = (ow, n - 1, ws)
           else case ws of [] \<Rightarrow> lock_view m s' W' = (None, 0, [])
                         | u # ws' \<Rightarrow> lock_view m s' W' = (Some u, 1, ws')"
      using rs by (metis (no_types, lifting))
    have "lock_inv s' W' ((pend M)(?t := None)) ((held M)(?t := count_held (Unlock m) (held M ?t)))"
      by (rule lock_inv_release [OF L p E(2) v])
    with settle_effect [OF E(1) P, of ?t] E(3)
    have "\<exists>M'. settle ?t (Unlock m) (kernel_op (Unlock m) ?s) M = Some M' \<and> mstate M' = s' \<and> minv M' rs' ss' W'"
      by simp
    from settled [OF this effect_fair [OF E(1)]] show ?thesis unfolding unlock .
  qed
qed

lemma minv_step:
  assumes "minv M rs ss W" "mstep M R"
  shows "\<exists>M' rs' ss' W'. R = Some M' \<and> minv M' rs' ss' W' \<and>
           fair rs rs' (curr_task (mstate M)) (curr_task (mstate M'))"
  using assms(2)
proof (cases rule: mstep.cases)
  case (resume e k)
  from resume_step [OF assms(1) resume(2)] show ?thesis unfolding resume(1) by metis
next
  case (issue e)
  from issue_step [OF assms(1) issue(2,3)] show ?thesis unfolding issue(1) by metis
qed

lemma minv_reach:
  assumes "minv M0 rs0 ss0 W0" "reach M0 R"
  shows "\<exists>M rs ss W. R = Some M \<and> minv M rs ss W"
  using assms(2)
proof (induction rule: reach.induct)
  case reach_init
  then show ?case using assms(1) by blast
next
  case (reach_step M R)
  then obtain rs ss W where "minv M rs ss W" by auto
  from minv_step [OF this reach_step.hyps(2)] show ?case by blast
qed

end
