(* ===== verification/Kernel_Properties.thy ===== *)
theory Kernel_Properties
  imports Kernel_Machine
begin

text \<open>
  What the scheduler, the mutexes and the semaphores promise, and what the kernel built from
  them promises over any run.  The witnesses use \<open>pair_state\<close>, the state in which the first
  task runs and the task of slot 0 is ready behind it.
\<close>

definition blank_tss :: tss_t where
  "blank_tss = \<lparr>t_pre_link = 0, t_esp0 = 0, t_ss0 = 0, t_esp1 = 0, t_ss1 = 0, t_esp2 = 0, t_ss2 = 0,
     t_cr3 = 0, t_eip = 0, t_eflags = 0x202, t_eax = 0, t_ecx = 0, t_edx = 0, t_ebx = 0, t_esp = 0,
     t_ebp = 0, t_esi = 0, t_edi = 0, t_es = 0, t_cs = 0, t_ss = 0, t_ds = 0, t_fs = 0, t_gs = 0,
     t_ldt = 0, t_iomap = 0\<rparr>"

definition blank_task :: task_t where
  "blank_task = \<lparr>tk_stack = 0, tk_state = TASK_READY, tk_name = [], tk_pid = 0, tk_parent = None,
     tk_heap_start = 0, tk_heap_end = 0, tk_slice_ticks = 10, tk_time_ticks = 10, tk_sleep_ticks = 0,
     tk_status = 0, tk_file_table = replicate 128 None, tk_tss = blank_tss, tk_tss_sel = 0\<rparr>"

abbreviation no_links :: "node list_node_t" where
  "no_links \<equiv> \<lparr>ln_pre = None, ln_next = None\<rparr>"

definition pair_state :: sync_state where
  "pair_state = \<lparr>eflags = 0x202, cr3 = 0, port_out = [], port_in = (\<lambda>_ _. 0), port_reads = (\<lambda>_. 0),
     klogs = [], idt_table = [], idtr = (0, 0, 0),
     nodes = (\<lambda>n. if n = Run_node First_task then \<lparr>ln_pre = None, ln_next = Some (Run_node (Slot 0))\<rparr>
                  else if n = Run_node (Slot 0) then \<lparr>ln_pre = Some (Run_node First_task), ln_next = None\<rparr>
                  else no_links),
     tasks = (\<lambda>_. blank_task), curr_task = First_task,
     ready_list = \<lparr>lt_first = Some (Run_node First_task), lt_last = Some (Run_node (Slot 0)), lt_count = 2\<rparr>,
     sleep_list = list_init, task_list = list_init, app_code_sel = 0, app_data_sel = 0,
     mutexes = (\<lambda>_. \<lparr>mx_owner = None, mx_locked_count = 0, mx_wait_list = list_init\<rparr>),
     sems = (\<lambda>_. \<lparr>sm_count = 0, sm_wait_list = list_init\<rparr>)\<rparr>"

lemma pair_state_sel [simp]:
  "curr_task pair_state = First_task" "tasks pair_state t = blank_task" "eflags pair_state = 0x202"
  "mx_locked_count (mutexes pair_state m) = 0" "mx_owner (mutexes pair_state m) = None"
  "sm_count (sems pair_state i) = 0"
  by (simp_all add: pair_state_def)

lemma pair_state_sched: "sched_rel pair_state [First_task, Slot 0] []"
  by (simp add: sched_rel_def pair_state_def dll_def list_init_def)

lemma pair_state_sync: "sync_rel pair_state [First_task, Slot 0] [] (\<lambda>_. [])"
proof -
  have "wait_rel pair_state (\<lambda>_. [])"
    by (simp add: wait_rel_def wait_list_def pair_state_def dll_init split: wq.split)
  then show ?thesis using pair_state_sched by (simp add: sync_rel_def wait_sep_def)
qed

lemma pair_state_kinv: "kinv pair_state [First_task, Slot 0] [] (\<lambda>_. [])"
  using pair_state_sync by (simp add: kinv_def dispatched_def mutex_inv_def sem_inv_def)

subsection \<open>Scheduler\<close>

text \<open>
  C17: \<open>sys_yield\<close> is a round robin.  When another task is ready, the caller goes to the end of
  the ready queue and the task that was second runs, with its page directory; when the caller
  is dispatched again the call returns 0 with the caller's interrupt flag.
\<close>

theorem sys_yield_round_robin:
  assumes "sched_rel s (t # u # rs) ss" "curr_task s = t"
  shows "\<exists>s1 k. sys_yield s = Switch s1 k \<and> curr_task s1 = u \<and> sched_rel s1 (u # rs @ [t]) ss \<and>
           cr3 s1 = t_cr3 (tk_tss (tasks s u)) \<and> tk_state (tasks s1 t) = TASK_READY \<and>
           tk_state (tasks s1 u) = TASK_RUNNING \<and>
           (\<forall>s3. k s3 = Done 0 (irq_leave_proection (eflags s) s3))"
proof -
  from sys_yield_switch [OF assms] obtain s1 where 1: "sys_yield s =
      Switch (switch_to u s1) (\<lambda>s3. Done 0 (irq_leave_proection (eflags s) s3))"
    "sched_rel s1 (u # rs @ [t]) ss"
    "s1 = upd_task t (\<lambda>k. k\<lparr>tk_state := TASK_READY\<rparr>)
       ((irq_disable_global s)\<lparr>nodes := nodes s1, ready_list := ready_list s1\<rparr>)" by blast
  have ts: "tasks s1 = (tasks s)(t := (tasks s t)\<lparr>tk_state := TASK_READY\<rparr>)"
    using arg_cong [OF 1(3), of tasks] by simp
  have "u \<noteq> t" using sched_rel_distinct [OF assms(1)] by auto
  with 1(1,2) ts show ?thesis
    by (intro exI [of _ "switch_to u s1"]) (simp add: switch_to_tasks)
qed

theorem sys_yield_round_robin_witness:
  "sched_rel pair_state [First_task, Slot 0] [] \<and>
   (\<exists>s1 k. sys_yield pair_state = Switch s1 k \<and> curr_task s1 = Slot 0 \<and>
      sched_rel s1 [Slot 0, First_task] [])"
proof -
  have "curr_task pair_state = First_task" by simp
  from sys_yield_round_robin [OF pair_state_sched this] pair_state_sched show ?thesis by auto
qed

text \<open>
  C18: \<open>sys_sleep\<close> of at least one tick (10 ms) takes the caller out of the ready queue, puts it
  at the end of the sleep queue with the number of whole ticks, and runs the next ready task, or
  the idle task when there is none.
\<close>

theorem sys_sleep_timed:
  assumes "sched_rel s (t # rs) ss" "curr_task s = t" "10 \<le> uint ms"
  shows "\<exists>s1 k. sys_sleep ms s = Switch s1 k \<and> curr_task s1 = next_of rs \<and> sched_rel s1 rs (ss @ [t]) \<and>
           tk_sleep_ticks (tasks s1 t) = uint ms div 10 \<and> tk_state (tasks s1 t) = TASK_SLEEP \<and>
           (\<forall>u. u \<noteq> t \<longrightarrow> tk_sleep_ticks (tasks s1 u) = tk_sleep_ticks (tasks s u)) \<and>
           (\<forall>s3. k s3 = Done () (irq_leave_proection (eflags s) s3))"
proof -
  from sys_sleep_switch [OF assms] obtain s1 where 1: "sys_sleep ms s =
      Switch (switch_to (next_of rs) s1) (\<lambda>s3. Done () (irq_leave_proection (eflags s) s3))"
    "sched_rel s1 rs (ss @ [t])"
    "s1 = upd_task t (\<lambda>k. k\<lparr>tk_sleep_ticks := uint ms div 10, tk_state := TASK_SLEEP\<rparr>)
      ((irq_disable_global s)\<lparr>nodes := nodes s1, ready_list := ready_list s1, sleep_list := sleep_list s1\<rparr>)" by blast
  have ts: "tasks s1 = (tasks s)(t := (tasks s t)\<lparr>tk_sleep_ticks := uint ms div 10, tk_state := TASK_SLEEP\<rparr>)"
    using arg_cong [OF 1(3), of tasks] by simp
  have "next_of rs \<noteq> t"
    using assms(1) sched_rel_distinct [OF assms(1)] by (cases rs) (auto simp: sched_rel_def)
  with 1(1,2) ts show ?thesis
    by (intro exI [of _ "switch_to (next_of rs) s1"]) (simp add: switch_to_tasks)
qed

theorem sys_sleep_timed_witness:
  "10 \<le> uint (25 :: u32) \<and>
   (\<exists>s1 k. sys_sleep 25 pair_state = Switch s1 k \<and> curr_task s1 = Slot 0 \<and>
      sched_rel s1 [Slot 0] [First_task] \<and> tk_sleep_ticks (tasks s1 First_task) = 2)"
proof -
  have "curr_task pair_state = First_task" "10 \<le> uint (25 :: u32)" by simp_all
  from sys_sleep_timed [OF pair_state_sched this] show ?thesis by auto
qed

text \<open>
  C27: a sleep of less than one tick loses the task.  \<open>sys_sleep\<close> blocks the caller, and
  \<open>task_set_sleep\<close> then returns early because the tick count is zero: the task is in no queue,
  so no clock tick ever makes it ready again, while its state still says that it runs.
\<close>

theorem sys_sleep_short_loses_task:
  assumes "sched_rel s (t # rs) ss" "curr_task s = t" "uint ms < 10"
  shows "\<exists>s1 k. sys_sleep ms s = Switch s1 k \<and> sched_rel s1 rs ss \<and> t \<notin> set rs \<union> set ss \<and>
           tk_state (tasks s1 t) = tk_state (tasks s t)"
proof -
  from sys_sleep_short [OF assms] obtain s1 where 1: "sys_sleep ms s =
      Switch (switch_to (next_of rs) s1) (\<lambda>s3. Done () (irq_leave_proection (eflags s) s3))"
    "sched_rel s1 rs ss" "s1 = (irq_disable_global s)\<lparr>nodes := nodes s1, ready_list := ready_list s1\<rparr>" by blast
  have ts: "tasks s1 = tasks s" using arg_cong [OF 1(3), of tasks] by simp
  have "t \<notin> set rs \<union> set ss" "next_of rs \<noteq> t"
    using assms(1) sched_rel_distinct [OF assms(1)] by (cases rs, auto simp: sched_rel_def)+
  with 1(1,2) ts show ?thesis
    by (intro exI [of _ "switch_to (next_of rs) s1"]) (simp add: switch_to_tasks)
qed

theorem sys_sleep_short_loses_task_witness:
  "uint (5 :: u32) < 10 \<and>
   (\<exists>s1 k. sys_sleep 5 pair_state = Switch s1 k \<and> sched_rel s1 [Slot 0] [])"
proof -
  have "curr_task pair_state = First_task" "uint (5 :: u32) < 10" by simp_all
  from sys_sleep_short_loses_task [OF pair_state_sched this] show ?thesis by auto
qed

text \<open>
  C19: a sleeper wakes on time.  A task that sleeps with counter \<open>n\<close> is still asleep, with
  counter \<open>n - k\<close>, after \<open>k < n\<close> scans of the sleep list, and it is in the ready queue from the
  \<open>n\<close>th scan on; the scans never fault and keep both queues well formed.
\<close>

theorem sleeper_wakes_on_time:
  assumes "sched_rel s rs ss" "t \<in> set ss" "tk_sleep_ticks (tasks s t) = int n" "0 < n"
  shows "\<exists>s1 rs1 ss1. sleep_scans k s = Inr s1 \<and> sched_rel s1 rs1 ss1 \<and>
     (if k < n then t \<in> set ss1 \<and> tk_sleep_ticks (tasks s1 t) = int (n - k) else t \<in> set rs1)"
  by (rule sleep_scans_counts [OF assms])

definition sleeper_state :: sync_state where
  "sleeper_state = pair_state\<lparr>nodes := (\<lambda>_. no_links), ready_list := list_init, curr_task := Idle_task,
     sleep_list := \<lparr>lt_first = Some (Run_node (Slot 0)), lt_last = Some (Run_node (Slot 0)), lt_count = 1\<rparr>,
     tasks := (\<lambda>_. blank_task\<lparr>tk_sleep_ticks := 2\<rparr>)\<rparr>"

lemma sleeper_state_sched: "sched_rel sleeper_state [] [Slot 0]"
  by (simp add: sched_rel_def sleeper_state_def pair_state_def dll_def list_init_def)

theorem sleeper_wakes_on_time_witness:
  "\<exists>s1 rs1 ss1. sleep_scans 2 sleeper_state = Inr s1 \<and> sched_rel s1 rs1 ss1 \<and> Slot 0 \<in> set rs1"
  using sleeper_wakes_on_time [OF sleeper_state_sched, of "Slot 0" 2 2]
  by (simp add: sleeper_state_def)

text \<open>
  C20: a clock tick inside a time slice.  The sleepers whose counter was 1 join the ready queue
  in their order, the others count down, the slice of the running task is one shorter, and the
  running task goes on, except that the idle task gives way to the first task that woke up.
\<close>

theorem tick_wakes_sleepers:
  assumes "sched_rel s rs ss" "dispatched s rs" "tk_slice_ticks (tasks s (curr_task s)) \<noteq> 1"
  shows "\<exists>s1 rs1. rs1 = rs @ wake_up (sleep_ticks s) ss \<and>
           sched_rel s1 rs1 (stay_asleep (sleep_ticks s) ss) \<and> curr_task s1 = next_of rs1 \<and>
           (\<forall>t \<in> set ss. tk_sleep_ticks (tasks s1 t) = tk_sleep_ticks (tasks s t) - 1) \<and>
           tk_slice_ticks (tasks s1 (curr_task s)) = tk_slice_ticks (tasks s (curr_task s)) - 1 \<and>
           (if next_of rs1 = curr_task s then task_time_tick s = Done () s1
            else rs = [] \<and> (\<exists>k. task_time_tick s = Switch s1 k))"
proof -
  let ?d = "upd_task (curr_task s) (\<lambda>t. t\<lparr>tk_slice_ticks := tk_slice_ticks t - 1\<rparr>) s"
  have r: "sched_rel ?d rs ss" using assms(1) by simp
  have T: "sleep_ticks ?d = sleep_ticks s" by (auto simp: fun_eq_iff)
  let ?rs = "rs @ wake_up (sleep_ticks s) ss"
  from task_tick_sleepers_rel [OF r] obtain s1 where 1:
    "sched_rel s1 ?rs (stay_asleep (sleep_ticks s) ss)" "tick_sleepers ss ?d s1"
    "task_tick_sleepers ?d = (if next_of ?rs = curr_task s then Done () s1
       else Switch (switch_to (next_of ?rs) s1) (\<lambda>s3. Done () (irq_leave_proection (eflags s) s3)))"
    unfolding T Let_def by auto
  note f = tick_sleepers_sel [OF 1(2)]
  have c: "curr_task s \<notin> set ss"
    using assms(1,2) by (cases rs) (auto simp: sched_rel_def dispatched_def)
  have i: "next_of ?rs \<noteq> curr_task s \<Longrightarrow> rs = []"
    using assms(2) by (cases rs) (auto simp: dispatched_def)
  show ?thesis
  proof (cases "next_of ?rs = curr_task s")
    case True
    with 1 f c task_time_tick_running [OF assms(3)] show ?thesis
      by (intro exI [of _ s1] exI [of _ ?rs]) (auto simp: tick_task_def)
  next
    case False
    with 1 f c i task_time_tick_running [OF assms(3)] show ?thesis
      by (intro exI [of _ "switch_to (next_of ?rs) s1"] exI [of _ ?rs]) (auto simp: tick_task_def switch_to_tasks)
  qed
qed

theorem tick_wakes_sleepers_witness:
  "\<exists>s1. task_time_tick (sleeper_state\<lparr>tasks := (\<lambda>_. blank_task\<lparr>tk_sleep_ticks := 1\<rparr>)\<rparr>) = s1 \<and>
     (\<exists>s2 k. s1 = Switch s2 k \<and> sched_rel s2 [Slot 0] [] \<and> curr_task s2 = Slot 0)"
proof -
  let ?s = "sleeper_state\<lparr>tasks := (\<lambda>_. blank_task\<lparr>tk_sleep_ticks := 1\<rparr>)\<rparr>"
  have "sched_rel ?s [] [Slot 0]" using sleeper_state_sched by (simp add: sched_rel_def)
  moreover have "dispatched ?s []" by (simp add: dispatched_def sleeper_state_def)
  moreover have "tk_slice_ticks (tasks ?s (curr_task ?s)) \<noteq> 1" by (simp add: blank_task_def)
  ultimately show ?thesis
    using tick_wakes_sleepers [of ?s "[]" "[Slot 0]"]
    by (auto simp: wake_up_def stay_asleep_def sleeper_state_def)
qed

text \<open>
  C21: the end of a time slice preempts.  The tick that uses up the slice gives the task a fresh
  slice, moves it to the end of the ready queue and runs the next ready task.  The sleepers are
  not served by this tick: the scan of the sleep list belongs to the rest of the interrupted
  call, which runs only when the preempted task is dispatched again.
\<close>

theorem tick_preempts:
  assumes "sched_rel s (t # u # rs) ss" "curr_task s = t" "tk_slice_ticks (tasks s t) = 1"
  shows "\<exists>s1 k. task_time_tick s = Switch s1 k \<and> curr_task s1 = u \<and> sched_rel s1 (u # rs @ [t]) ss \<and>
           tk_slice_ticks (tasks s1 t) = tk_time_ticks (tasks s t) \<and> sleep_ticks s1 = sleep_ticks s \<and>
           cr3 s1 = t_cr3 (tk_tss (tasks s u)) \<and>
           (\<forall>s3. k s3 = task_tick_sleepers (irq_leave_proection (eflags s) s3))"
proof -
  from task_time_tick_preempt [OF assms] obtain s1 where 1: "task_time_tick s =
      Switch (switch_to u s1) (\<lambda>s3. task_tick_sleepers (irq_leave_proection (eflags s) s3))"
    "sched_rel s1 (u # rs @ [t]) ss"
    "s1 = upd_task t (\<lambda>k. k\<lparr>tk_slice_ticks := tk_time_ticks k, tk_state := TASK_READY\<rparr>)
       (s\<lparr>nodes := nodes s1, ready_list := ready_list s1\<rparr>)" by blast
  have ts: "tasks s1 = (tasks s)(t := (tasks s t)\<lparr>tk_slice_ticks := tk_time_ticks (tasks s t), tk_state := TASK_READY\<rparr>)"
    using arg_cong [OF 1(3), of tasks] by simp
  have "u \<noteq> t" using sched_rel_distinct [OF assms(1)] by auto
  with 1(1,2) ts show ?thesis
    by (intro exI [of _ "switch_to u s1"]) (auto simp: switch_to_tasks fun_eq_iff)
qed

theorem tick_preempts_witness:
  "\<exists>s1 k. task_time_tick (pair_state\<lparr>tasks := (\<lambda>_. blank_task\<lparr>tk_slice_ticks := 1\<rparr>)\<rparr>) = Switch s1 k \<and>
     curr_task s1 = Slot 0 \<and> sched_rel s1 [Slot 0, First_task] []"
proof -
  let ?s = "pair_state\<lparr>tasks := (\<lambda>_. blank_task\<lparr>tk_slice_ticks := 1\<rparr>)\<rparr>"
  have "sched_rel ?s [First_task, Slot 0] []" using pair_state_sched by (simp add: sched_rel_def)
  from tick_preempts [OF this] show ?thesis by (simp add: pair_state_def) blast
qed

subsection \<open>Mutexes and semaphores\<close>

text \<open>
  C28: a mutex passes from its owner to the task that has waited longest.  When the owner unlocks
  its last level and tasks wait, the first of them becomes ready and owns the mutex with count 1
  before it runs; the caller goes on, and the other waiters keep their order.
\<close>

theorem mutex_unlock_passes_on:
  assumes "sync_rel s (t # rs) ss W" "curr_task s = t" "W (MQ m) = u # ws"
    and "mx_owner (mutexes s m) = Some t" "mx_locked_count (mutexes s m) = 1"
  shows "\<exists>s1. mutex_unlock m s = Done () s1 \<and> sync_rel s1 (t # rs @ [u]) ss (W(MQ m := ws)) \<and>
           mx_owner (mutexes s1 m) = Some u \<and> mx_locked_count (mutexes s1 m) = 1 \<and>
           tk_state (tasks s1 u) = TASK_READY \<and> curr_task s1 = t \<and> eflags s1 = eflags s \<and>
           (\<forall>m'. m' \<noteq> m \<longrightarrow> mutexes s1 m' = mutexes s m')"
  using mutex_unlock_handoff [OF assms] by fastforce

definition contended_state :: sync_state where
  "contended_state = pair_state\<lparr>nodes := (\<lambda>_. no_links),
     ready_list := \<lparr>lt_first = Some (Run_node First_task), lt_last = Some (Run_node First_task), lt_count = 1\<rparr>,
     mutexes := (\<lambda>m. if m = Log_mutex
        then \<lparr>mx_owner = Some First_task, mx_locked_count = 1,
              mx_wait_list = \<lparr>lt_first = Some (Wait_node (Slot 0)), lt_last = Some (Wait_node (Slot 0)), lt_count = 1\<rparr>\<rparr>
        else \<lparr>mx_owner = None, mx_locked_count = 0, mx_wait_list = list_init\<rparr>)\<rparr>"

lemma contended_state_sync:
  "sync_rel contended_state [First_task] [] ((\<lambda>_. [])(MQ Log_mutex := [Slot 0]))"
  by (auto simp: sync_rel_def sched_rel_def wait_rel_def wait_list_def wait_sep_def contended_state_def
      pair_state_def dll_def list_init_def split: wq.split)

theorem mutex_unlock_passes_on_witness:
  "\<exists>s1. mutex_unlock Log_mutex contended_state = Done () s1 \<and>
     sync_rel s1 [First_task, Slot 0] [] (\<lambda>_. []) \<and> mx_owner (mutexes s1 Log_mutex) = Some (Slot 0)"
proof -
  have "curr_task contended_state = First_task" "mx_owner (mutexes contended_state Log_mutex) = Some First_task"
    "mx_locked_count (mutexes contended_state Log_mutex) = 1"
    by (simp_all add: contended_state_def)
  from mutex_unlock_passes_on [OF contended_state_sync this(1) _ this(2,3), of "Slot 0" "[]"] show ?thesis
    by (auto simp: fun_upd_idem)
qed

text \<open>
  C29: \<open>sem_notify\<close> wakes the task that has waited longest and gives it the unit directly, without
  touching the count; it runs at once exactly when the processor was idle.
\<close>

theorem sem_notify_hands_over:
  assumes "sync_rel s rs ss W" "dispatched s rs" "W (SQ i) = u # ws"
  shows "\<exists>s1. sync_rel s1 (rs @ [u]) ss (W(SQ i := ws)) \<and> sm_count (sems s1 i) = sm_count (sems s i) \<and>
           dispatched s1 (rs @ [u]) \<and>
           (if rs = [] then (\<exists>k. sem_notify i s = Switch s1 k) else sem_notify i s = Done () s1)"
proof -
  from sem_notify_wakes [OF assms] obtain s1 where 1: "sem_notify i s =
      (if rs = [] then Switch (switch_to u s1) (\<lambda>s3. Done () (irq_leave_proection (eflags s) s3))
       else Done () (irq_leave_proection (eflags s) s1))"
    "sync_rel s1 (rs @ [u]) ss (W(SQ i := ws))" "same_counts s s1" "curr_task s1 = curr_task s" by blast
  have n: "sm_count (sems s1 i) = sm_count (sems s i)" using 1(3) by (simp add: same_counts_def)
  show ?thesis
  proof (cases "rs = []")
    case True
    with 1 n show ?thesis by (intro exI [of _ "switch_to u s1"]) (simp add: dispatched_def)
  next
    case False
    then have "next_of (rs @ [u]) = next_of rs" by (cases rs) simp_all
    with False 1 n assms(2) show ?thesis
      by (intro exI [of _ "irq_leave_proection (eflags s) s1"]) (simp add: dispatched_def)
  qed
qed

definition reader_state :: sync_state where
  "reader_state = pair_state\<lparr>nodes := (\<lambda>_. no_links), ready_list := list_init, curr_task := Idle_task,
     sems := (\<lambda>i. if i = Isem 0
        then \<lparr>sm_count = 0,
              sm_wait_list = \<lparr>lt_first = Some (Wait_node (Slot 0)), lt_last = Some (Wait_node (Slot 0)), lt_count = 1\<rparr>\<rparr>
        else \<lparr>sm_count = 0, sm_wait_list = list_init\<rparr>)\<rparr>"

lemma reader_state_sync: "sync_rel reader_state [] [] ((\<lambda>_. [])(SQ (Isem 0) := [Slot 0]))"
  by (auto simp: sync_rel_def sched_rel_def wait_rel_def wait_list_def wait_sep_def reader_state_def
      pair_state_def dll_def list_init_def split: wq.split)

theorem sem_notify_hands_over_witness:
  "\<exists>s1 k. sem_notify (Isem 0) reader_state = Switch s1 k \<and> sync_rel s1 [Slot 0] [] (\<lambda>_. []) \<and>
     curr_task s1 = Slot 0"
proof -
  have "dispatched reader_state []" by (simp add: dispatched_def reader_state_def)
  from sem_notify_hands_over [OF reader_state_sync this, of "Isem 0" "Slot 0" "[]"] show ?thesis
    by (auto simp: fun_upd_idem dispatched_def)
qed

subsection \<open>Runs of the kernel\<close>

definition start_machine :: "sync_state \<Rightarrow> machine" where
  "start_machine s = \<lparr>mstate = s, pend = (\<lambda>_. None), held = (\<lambda>_ _. 0)\<rparr>"

lemma start_minv:
  assumes "kinv s rs ss W" "\<forall>m. mx_owner (mutexes s m) = None"
  shows "minv (start_machine s) rs ss W"
proof -
  have "W (MQ m) = []" for m using assms by (auto simp: kinv_def mutex_inv_def)
  with assms show ?thesis by (simp add: minv_def start_machine_def pend_inv_def lock_inv_def)
qed

lemma minv_lock_log: "mstep (start_machine pair_state)
    (settle First_task (Lock Log_mutex) (mutex_lock Log_mutex pair_state) (start_machine pair_state))"
  using mstep.issue [of "start_machine pair_state" "Lock Log_mutex"] by (simp add: start_machine_def)

text \<open>
  C1: the kernel never faults.  From a well-formed state with all mutexes free, after any sequence
  of scheduler calls, lock and semaphore operations and interrupts, by any tasks and with any
  interleaving, no operation has dereferenced a null pointer or looped for ever, all queues are
  well formed and disjoint, the current task is the first ready task (or the idle task when none
  is ready), a mutex is owned exactly when its count is positive, nobody waits for a free mutex
  and no task waits at a semaphore with a positive count.
\<close>

theorem kernel_never_faults:
  assumes "kinv s rs ss W" "\<forall>m. mx_owner (mutexes s m) = None" "reach (start_machine s) R"
  shows "\<exists>M rs' ss' W'. R = Some M \<and> kinv (mstate M) rs' ss' W'"
  using minv_reach [OF start_minv [OF assms(1,2)] assms(3)] by (auto simp: minv_def)

theorem kernel_never_faults_witness:
  "\<exists>M rs' ss' W'. settle First_task (Lock Log_mutex) (mutex_lock Log_mutex pair_state) (start_machine pair_state)
     = Some M \<and> kinv (mstate M) rs' ss' W'"
proof -
  have "\<forall>m. mx_owner (mutexes pair_state m) = None" by simp
  from kernel_never_faults [OF pair_state_kinv this reach_step [OF reach_init minv_lock_log]] show ?thesis .
qed

text \<open>
  C2: mutual exclusion.  In every reachable state at most one task has returned from
  \<open>mutex_lock m\<close> without having unlocked it again; that task is the recorded owner, and the
  recorded count is the number of levels it holds.
\<close>

theorem mutual_exclusion:
  assumes "kinv s rs ss W" "\<forall>m. mx_owner (mutexes s m) = None" "reach (start_machine s) (Some M)"
    and "held M t m > 0" "held M u m > 0"
  shows "t = u \<and> mx_owner (mutexes (mstate M) m) = Some t \<and>
         mx_locked_count (mutexes (mstate M) m) = int (held M t m)"
proof -
  obtain W' where "lock_inv (mstate M) W' (pend M) (held M)"
    using minv_reach [OF start_minv [OF assms(1,2)] assms(3)] by (auto simp: minv_def)
  from lock_invD(1) [OF this assms(4)] lock_invD(1) [OF this assms(5)] show ?thesis by simp
qed

theorem mutual_exclusion_witness:
  "\<exists>M. settle First_task (Lock Log_mutex) (mutex_lock Log_mutex pair_state) (start_machine pair_state) = Some M \<and>
     held M First_task Log_mutex = 1 \<and> mx_owner (mutexes (mstate M) Log_mutex) = Some First_task"
proof -
  obtain M where M: "settle First_task (Lock Log_mutex) (mutex_lock Log_mutex pair_state) (start_machine pair_state) = Some M"
    "held M First_task Log_mutex = 1"
    by (simp add: mutex_lock_free start_machine_def)
  have "\<forall>m. mx_owner (mutexes pair_state m) = None" by simp
  moreover have "reach (start_machine pair_state) (Some M)"
    using reach_step [OF reach_init minv_lock_log] M by simp
  ultimately show ?thesis
    using mutual_exclusion [OF pair_state_kinv, of M First_task Log_mutex First_task] M by auto
qed

text \<open>Runs with the number of task switches and the tasks that were current.\<close>

inductive run :: "machine \<Rightarrow> nat \<Rightarrow> tid set \<Rightarrow> machine \<Rightarrow> bool" for M0 where
  run_init: "run M0 0 {curr_task (mstate M0)} M0"
| run_step: "run M0 n C M \<Longrightarrow> mstep M (Some M') \<Longrightarrow>
     run M0 (if curr_task (mstate M') = curr_task (mstate M) then n else Suc n)
         (insert (curr_task (mstate M')) C) M'"

lemma fair_position:
  assumes "fair (x # xs @ t # ys) rs' c c'"
  shows "\<exists>xs' ys'. rs' = xs' @ t # ys' \<and> length xs' \<le> Suc (length xs) \<and> (c' \<noteq> c \<longrightarrow> length xs' \<le> length xs)"
proof (cases "\<exists>new. rs' = xs @ t # ys @ new")
  case True
  then obtain new where "rs' = xs @ t # (ys @ new)" by auto
  then show ?thesis by (intro exI [of _ xs] exI [of _ "ys @ new"]) simp
next
  case False
  then obtain new where "rs' = (x # xs) @ t # (ys @ new)" "c' = c"
    using assms by (auto simp: fair_def advance_def)
  then show ?thesis by (intro exI [of _ "x # xs"] exI [of _ "ys @ new"]) simp
qed

lemma run_position:
  assumes "run M n C M'" "minv M (xs @ t # ys) ss W" "t \<notin> C"
  shows "\<exists>xs' ys' ss' W'. minv M' (xs' @ t # ys') ss' W' \<and> length xs' + n \<le> length xs"
  using assms
proof (induction rule: run.induct)
  case run_init
  then show ?case by fastforce
next
  case (run_step n C M1 M2)
  then obtain xs1 ys1 ss1 W1 where 1: "minv M1 (xs1 @ t # ys1) ss1 W1" "length xs1 + n \<le> length xs" by auto
  have "curr_task (mstate M1) \<in> C" using run_step.hyps(1) by (cases rule: run.cases) auto
  with run_step.prems have "curr_task (mstate M1) \<noteq> t" by auto
  then obtain x xs2 where x: "xs1 = x # xs2"
    using 1(1) by (cases xs1) (auto simp: minv_def kinv_def dispatched_def)
  from minv_step [OF 1(1) run_step.hyps(2)] obtain rs' ss' W' where
    2: "minv M2 rs' ss' W'" "fair (x # xs2 @ t # ys1) rs' (curr_task (mstate M1)) (curr_task (mstate M2))"
    using x by auto
  from fair_position [OF 2(2)] obtain xs' ys' where
    3: "rs' = xs' @ t # ys'" "length xs' \<le> Suc (length xs2)"
    "curr_task (mstate M2) \<noteq> curr_task (mstate M1) \<longrightarrow> length xs' \<le> length xs2" by blast
  have "length xs' + (if curr_task (mstate M2) = curr_task (mstate M1) then n else Suc n) \<le> length xs"
    using 1(2) 3 x by auto
  with 2(1) 3(1) show ?case by blast
qed

text \<open>
  C3: bounded waiting.  A ready task with \<open>length xs\<close> tasks before it in the ready queue becomes
  current within \<open>length xs\<close> task switches of any run, whatever the other tasks and the
  interrupts do; no task that becomes ready later overtakes it.
\<close>

theorem ready_task_runs_soon:
  assumes "minv M (xs @ t # ys) ss W" "run M n C M'" "length xs \<le> n"
  shows "t \<in> C"
proof (rule ccontr)
  assume n: "t \<notin> C"
  from run_position [OF assms(2,1) n] obtain xs' ys' ss' W' where
    "minv M' (xs' @ t # ys') ss' W'" "length xs' + n \<le> length xs" by blast
  moreover have "curr_task (mstate M') \<in> C" using assms(2) by (cases rule: run.cases) auto
  ultimately show False
    using n assms(3) by (cases xs') (auto simp: minv_def kinv_def dispatched_def)
qed

theorem ready_task_runs_soon_witness:
  "\<exists>n C M'. run (start_machine pair_state) n C M' \<and> 1 \<le> n \<and> Slot 0 \<in> C"
proof -
  let ?M = "start_machine pair_state"
  have "\<forall>m. mx_owner (mutexes pair_state m) = None" by simp
  then have I: "minv ?M ([First_task] @ Slot 0 # []) [] (\<lambda>_. [])"
    using start_minv [OF pair_state_kinv] by simp
  have "sched_rel pair_state (First_task # Slot 0 # []) []" "curr_task pair_state = First_task"
    using pair_state_sched by simp_all
  from sys_yield_switch [OF this] obtain s1 where
    y: "sys_yield pair_state = Switch (switch_to (Slot 0) s1) (\<lambda>s3. Done 0 (irq_leave_proection 0x202 s3))" by auto
  let ?M1 = "?M\<lparr>mstate := switch_to (Slot 0) s1,
     pend := (\<lambda>_. None)(First_task := Some (Yield, \<lambda>s3. Done () (irq_leave_proection 0x202 s3)))\<rparr>"
  have "mstep ?M (Some ?M1)"
    using mstep.issue [of ?M Yield] y by (simp add: start_machine_def)
  from run_step [OF run_init this] have r: "run ?M 1 {Slot 0, First_task} ?M1"
    by (simp add: start_machine_def)
  with ready_task_runs_soon [OF I r] show ?thesis by auto
qed

end
