(* ===== verification/Memory.thy ===== *)
theory Memory
  imports Kernel_Prelude
begin

text \<open>
  The byte memory of a flat 32-bit address space, as the C code sees it through its pointers:
  byte and little-endian word access, byte sequences and NUL-terminated strings in memory, and
  the lemmas that describe a region as a list.  Pointers are words and pointer arithmetic wraps.
\<close>

type_synonym mem = "u32 \<Rightarrow> u8"

definition mem32 :: "mem \<Rightarrow> u32 \<Rightarrow> u32" where
  "mem32 m p = ucast (m p) OR push_bit 8 (ucast (m (p + 1))) OR
               push_bit 16 (ucast (m (p + 2))) OR push_bit 24 (ucast (m (p + 3)))"

definition put32 :: "mem \<Rightarrow> u32 \<Rightarrow> u32 \<Rightarrow> mem" where
  "put32 m p v = m(p := ucast v, p + 1 := ucast (drop_bit 8 v),
                   p + 2 := ucast (drop_bit 16 v), p + 3 := ucast (drop_bit 24 v))"

primrec at_bytes :: "mem \<Rightarrow> u32 \<Rightarrow> u8 list \<Rightarrow> bool" where
  "at_bytes m p [] = True"
| "at_bytes m p (x # xs) = (m p = x \<and> at_bytes m (p + 1) xs)"

primrec put_bytes :: "mem \<Rightarrow> u32 \<Rightarrow> u8 list \<Rightarrow> mem" where
  "put_bytes m p [] = m"
| "put_bytes m p (x # xs) = put_bytes (m(p := x)) (p + 1) xs"

text \<open>A NUL-terminated string, and the addresses of a region.\<close>

definition cstr :: "mem \<Rightarrow> u32 \<Rightarrow> u8 list \<Rightarrow> bool" where
  "cstr m p s \<longleftrightarrow> at_bytes m p (s @ [0]) \<and> 0 \<notin> set s"

definition region :: "u32 \<Rightarrow> nat \<Rightarrow> u32 set" where
  "region p n = (\<lambda>i. p + of_nat i) ` {..<n}"

definition bytes_of :: "string \<Rightarrow> u8 list" where
  "bytes_of s = map of_char s"

subsection \<open>Words in memory\<close>

lemma ptr_neq: "(p :: u32) + 1 \<noteq> p" "p + 2 \<noteq> p" "p + 3 \<noteq> p" "p + 2 \<noteq> p + 1" "p + 3 \<noteq> p + 1" "p + 3 \<noteq> p + 2"
  by (simp_all add: add_eq_self_zero)

lemma mem32_put32 [simp]: "mem32 (put32 m p v) p = v"
proof -
  have "mem32 (put32 m p v) p = ucast (ucast v :: u8) OR push_bit 8 (ucast (ucast (drop_bit 8 v) :: u8)) OR
      push_bit 16 (ucast (ucast (drop_bit 16 v) :: u8)) OR push_bit 24 (ucast (ucast (drop_bit 24 v) :: u8))"
    using ptr_neq [of p] ptr_neq [of p, symmetric] by (simp add: mem32_def put32_def)
  also have "\<dots> = v"
  proof (rule bit_word_eqI)
    fix n
    assume "n < LENGTH(32)"
    then consider "n < 8" | "8 \<le> n" "n < 16" | "16 \<le> n" "n < 24" | "24 \<le> n" "n < 32" by fastforce
    then show "bit (ucast (ucast v :: u8) OR push_bit 8 (ucast (ucast (drop_bit 8 v) :: u8)) OR
        push_bit 16 (ucast (ucast (drop_bit 16 v) :: u8)) OR push_bit 24 (ucast (ucast (drop_bit 24 v) :: u8)) :: u32) n
      \<longleftrightarrow> bit v n"
      by cases (auto simp: bit_simps)
  qed
  finally show ?thesis .
qed

lemma region_insert: "region p (Suc n) = insert p (region (p + 1) n)"
  by (auto simp: region_def lessThan_Suc_eq_insert_0 image_image add.assoc)

lemma region_0 [simp]: "region p 0 = {}"
  by (simp add: region_def)

lemma region4: "region p 4 = {p, p + 1, p + 2, p + 3}"
  by (simp add: region_insert numeral_eq_Suc add.assoc)

lemma put32_other: "q \<notin> region p 4 \<Longrightarrow> put32 m p v q = m q"
  by (auto simp: put32_def region4)

lemma mem32_cong: "(\<And>q. q \<in> region p 4 \<Longrightarrow> m' q = m q) \<Longrightarrow> mem32 m' p = mem32 m p"
  by (simp add: mem32_def region4)

lemma mem32_put32_other: "region p 4 \<inter> region q 4 = {} \<Longrightarrow> mem32 (put32 m p v) q = mem32 m q"
  by (intro mem32_cong put32_other) blast

subsection \<open>Regions as lists\<close>

lemma region_start [simp]: "0 < n \<Longrightarrow> p \<in> region p n"
  by (force simp: region_def)

lemma region_nth: "i < n \<Longrightarrow> p + of_nat i \<in> region p n"
  by (auto simp: region_def)

lemma region_mono: "n \<le> k \<Longrightarrow> region p n \<subseteq> region p k"
  by (auto simp: region_def)

lemma region_append: "region p (n + k) = region p n \<union> region (p + of_nat n) k"
  by (induction n arbitrary: p) (auto simp: region_insert add.assoc)

lemma of_nat_word_inj: "i < 2 ^ 32 \<Longrightarrow> j < 2 ^ 32 \<Longrightarrow> (of_nat i :: u32) = of_nat j \<longleftrightarrow> i = j"
  by (auto dest!: arg_cong [where f = unat] simp: unat_of_nat)

lemma region_distinct: "n < 2 ^ 32 \<Longrightarrow> p \<notin> region (p + 1) n"
proof
  assume n: "n < 2 ^ 32" and "p \<in> region (p + 1) n"
  then obtain i where i: "i < n" "p = p + 1 + of_nat i" by (auto simp: region_def)
  then have "(of_nat (Suc i) :: u32) = of_nat 0" by (simp add: add.assoc)
  then show False using n i(1) of_nat_word_inj [of "Suc i" 0] by simp
qed

lemma region_end: "n < 2 ^ 32 \<Longrightarrow> p + of_nat n \<notin> region p n"
proof
  assume n: "n < 2 ^ 32" and "p + of_nat n \<in> region p n"
  then obtain i where i: "i < n" "(of_nat n :: u32) = of_nat i" by (auto simp: region_def)
  with n show False using of_nat_word_inj [of n i] by simp
qed

lemma at_bytes_append [simp]:
  "at_bytes m p (xs @ ys) \<longleftrightarrow> at_bytes m p xs \<and> at_bytes m (p + of_nat (length xs)) ys"
  by (induction xs arbitrary: p) (auto simp: add.assoc)

lemma at_bytes_cong:
  "(\<And>q. q \<in> region p (length xs) \<Longrightarrow> m' q = m q) \<Longrightarrow> at_bytes m' p xs = at_bytes m p xs"
  by (induction xs arbitrary: p) (auto simp: region_insert)

lemma at_bytes_nth: "at_bytes m p xs \<Longrightarrow> i < length xs \<Longrightarrow> m (p + of_nat i) = xs ! i"
proof (induction xs arbitrary: p i)
  case (Cons x xs)
  then show ?case
    using Cons.IH [of "p + 1" "i - 1"] by (cases i) (auto simp: add.assoc)
qed simp

lemma at_bytes_inj: "at_bytes m p xs \<Longrightarrow> at_bytes m p ys \<Longrightarrow> length xs = length ys \<Longrightarrow> xs = ys"
proof (induction xs arbitrary: p ys)
  case (Cons x xs)
  then show ?case by (cases ys) auto
qed simp

lemma put_bytes_other: "q \<notin> region p (length xs) \<Longrightarrow> put_bytes m p xs q = m q"
  by (induction xs arbitrary: p m) (auto simp: region_insert)

lemma put_bytes_at: "length xs \<le> 2 ^ 32 \<Longrightarrow> at_bytes (put_bytes m p xs) p xs"
proof (induction xs arbitrary: p m)
  case (Cons x xs)
  then have "p \<notin> region (p + 1) (length xs)" by (intro region_distinct) simp
  with Cons show ?case by (simp add: put_bytes_other)
qed simp

lemma put_bytes_append: "put_bytes m p (xs @ ys) = put_bytes (put_bytes m p xs) (p + of_nat (length xs)) ys"
  by (induction xs arbitrary: p m) (auto simp: add.assoc)

lemma put_bytes_over:
  "length xs = length ys \<Longrightarrow> length ys \<le> 2 ^ 32 \<Longrightarrow> put_bytes (put_bytes m p xs) p ys = put_bytes m p ys"
proof
  fix q
  assume l: "length xs = length ys" "length ys \<le> 2 ^ 32"
  show "put_bytes (put_bytes m p xs) p ys q = put_bytes m p ys q"
  proof (cases "q \<in> region p (length ys)")
    case True
    then obtain i where "i < length ys" "q = p + of_nat i" by (auto simp: region_def)
    with at_bytes_nth [OF put_bytes_at [OF l(2), of m p]]
      at_bytes_nth [OF put_bytes_at [OF l(2), of "put_bytes m p xs" p]] show ?thesis by simp
  next
    case False
    with l show ?thesis by (simp add: put_bytes_other)
  qed
qed

lemma mem_eqI:
  assumes "at_bytes m' p xs" "\<And>q. q \<notin> region p (length xs) \<Longrightarrow> m' q = m q" "length xs \<le> 2 ^ 32"
  shows "m' = put_bytes m p xs"
proof
  fix q
  show "m' q = put_bytes m p xs q"
  proof (cases "q \<in> region p (length xs)")
    case True
    then obtain i where "i < length xs" "q = p + of_nat i" by (auto simp: region_def)
    with at_bytes_nth [OF assms(1)] at_bytes_nth [OF put_bytes_at [OF assms(3), of m p]] show ?thesis by simp
  next
    case False
    with assms(2) show ?thesis by (simp add: put_bytes_other)
  qed
qed

subsection \<open>Strings\<close>

lemma cstr_Nil [simp]: "cstr m p [] \<longleftrightarrow> m p = 0"
  by (simp add: cstr_def)

lemma cstr_Cons [simp]: "cstr m p (x # xs) \<longleftrightarrow> m p = x \<and> x \<noteq> 0 \<and> cstr m (p + 1) xs"
  by (auto simp: cstr_def add.assoc)

lemma cstr_unique: "cstr m p xs \<Longrightarrow> cstr m p ys \<Longrightarrow> xs = ys"
proof (induction xs arbitrary: p ys)
  case Nil
  then show ?case by (cases ys) auto
next
  case (Cons x xs)
  then show ?case by (cases ys) auto
qed

lemma cstr_cong:
  "(\<And>q. q \<in> region p (Suc (length s)) \<Longrightarrow> m' q = m q) \<Longrightarrow> cstr m' p s = cstr m p s"
  unfolding cstr_def by (subst at_bytes_cong [of p "s @ [0]" m' m]) auto

lemma cstr_length: assumes "cstr m p s" shows "length s < 2 ^ 32"
proof (rule ccontr)
  assume "\<not> length s < 2 ^ 32"
  then have l: "2 ^ 32 \<le> length s" by simp
  have "(2 :: u32) ^ 32 = 0" by simp
  then have "(of_nat (length s - 2 ^ 32) :: u32) = of_nat (length s)"
    using l by (simp add: of_nat_diff del: One_nat_def)
  moreover have "m (p + of_nat (length s - 2 ^ 32)) = s ! (length s - 2 ^ 32)"
    using assms l by (intro at_bytes_nth) (auto simp: cstr_def)
  moreover have "m (p + of_nat (length s)) = 0" "s ! (length s - 2 ^ 32) \<noteq> 0"
    using assms l by (auto simp: cstr_def in_set_conv_nth)
  ultimately show False by simp
qed

lemma cstr_upd_before:
  assumes "cstr m p (x # s)" shows "cstr (m(p := v)) (p + 1) s"
proof -
  have "p \<notin> region (p + 1) (Suc (length s))"
    using cstr_length [OF assms] by (intro region_distinct) simp
  then have "cstr (m(p := v)) (p + 1) s = cstr m (p + 1) s"
    by (intro cstr_cong) auto
  with assms show ?thesis by simp
qed

lemma cstr_upd_other: "q \<notin> region p (Suc (length s)) \<Longrightarrow> cstr (m(q := v)) p s = cstr m p s"
  by (intro cstr_cong) auto

end
