(* ===== verification/Disk.thy ===== *)
theory Disk
  imports Interrupts Memory
begin

text \<open>
  The disk driver \<open>read_disk\<close>, the same code in src/src/loader/loader_32.c and src/src/kernel/fs/fs.c.
  The data port is read in 16-bit words: the \<open>n\<close>-th word read from port \<open>p\<close> is \<open>dk_words p n\<close>, chosen by
  the device.  The wait for the drive is a partial function: \<open>None\<close> is a drive that never gets ready.
\<close>

record disk_port =
  dk_words :: "u16 \<Rightarrow> nat \<Rightarrow> u16"
  dk_reads :: "u16 \<Rightarrow> nat"

definition SECTOR_SIZE :: nat where "SECTOR_SIZE = 512"

definition inw :: "u16 \<Rightarrow> disk_port \<Rightarrow> u16 \<times> disk_port" where
  "inw p d = (dk_words d p (dk_reads d p), d\<lparr>dk_reads := (dk_reads d)(p := Suc (dk_reads d p))\<rparr>)"

definition put16 :: "mem \<Rightarrow> u32 \<Rightarrow> u16 \<Rightarrow> mem" where
  "put16 m p v = m(p := ucast v, p + 1 := ucast (drop_bit 8 v))"

definition disk_command :: "int \<Rightarrow> int \<Rightarrow> (u16 \<times> u8) list" where
  "disk_command sector sector_count =
     [(0x1F6, 0xE0), (0x1F2, of_int (sector_count div 2 ^ 8)), (0x1F3, of_int (sector div 2 ^ 24)),
      (0x1F4, 0), (0x1F5, 0), (0x1F2, of_int sector_count), (0x1F3, of_int sector),
      (0x1F4, of_int (sector div 2 ^ 8)), (0x1F5, of_int (sector div 2 ^ 16)), (0x1F7, 0x24)]"

partial_function (option) disk_wait :: "'a cpu_state_scheme \<Rightarrow> 'a cpu_state_scheme option" where
  "disk_wait s = (let (st, s1) = inb 0x1F7 s in if st AND 0x88 \<noteq> 0x8 then disk_wait s1 else Some s1)"

fun read_words :: "nat \<Rightarrow> u32 \<Rightarrow> disk_port \<Rightarrow> mem \<Rightarrow> disk_port \<times> mem" where
  "read_words 0 p d m = (d, m)"
| "read_words (Suc n) p d m = (let (w, d1) = inw 0x1F0 d in read_words n (p + 2) d1 (put16 m p w))"

fun read_sectors ::
  "nat \<Rightarrow> u32 \<Rightarrow> 'a cpu_state_scheme \<Rightarrow> disk_port \<Rightarrow> mem \<Rightarrow> ('a cpu_state_scheme \<times> disk_port \<times> mem) option" where
  "read_sectors 0 p s d m = Some (s, d, m)"
| "read_sectors (Suc n) p s d m =
     Option.bind (disk_wait s) (\<lambda>s1.
       let (d1, m1) = read_words (SECTOR_SIZE div 2) p d m
       in read_sectors n (p + of_nat SECTOR_SIZE) s1 d1 m1)"

definition read_disk ::
  "int \<Rightarrow> int \<Rightarrow> u32 \<Rightarrow> 'a cpu_state_scheme \<Rightarrow> disk_port \<Rightarrow> mem \<Rightarrow> ('a cpu_state_scheme \<times> disk_port \<times> mem) option" where
  "read_disk sector sector_count buf s d m =
     read_sectors (nat sector_count) buf (fold (\<lambda>(p, v). outb p v) (disk_command sector sector_count) s) d m"

end
