(* ===== verification/Disk_Laws.thy ===== *)
theory Disk_Laws
  imports Disk
begin

text \<open>
  What the disk driver promises: the wait for the drive ends as soon as the drive reports data, the
  command addresses the sectors asked for, and the bytes of the sectors arrive in the buffer in order.
\<close>

subsection \<open>Waiting\<close>

definition drive_ready :: "'a cpu_state_scheme \<Rightarrow> nat \<Rightarrow> bool" where
  "drive_ready s n \<longleftrightarrow> port_in s 0x1F7 n AND 0x88 = 0x8"

definition polled :: "nat \<Rightarrow> 'a cpu_state_scheme \<Rightarrow> 'a cpu_state_scheme" where
  "polled k s = s\<lparr>port_reads := (port_reads s)(0x1F7 := k)\<rparr>"

lemma polled_sel [simp]:
  "port_in (polled k s) = port_in s" "port_out (polled k s) = port_out s" "port_reads (polled k s) 0x1F7 = k"
  "drive_ready (polled k s) = drive_ready s" "polled j (polled k s) = polled j s"
  by (simp_all add: polled_def drive_ready_def fun_eq_iff)

lemma polled_same: "polled (port_reads s 0x1F7) s = s"
  by (simp add: polled_def fun_upd_idem)

lemma disk_wait_steps:
  assumes "drive_ready s (n + k)" "\<forall>i<k. \<not> drive_ready s (n + i)"
  shows "disk_wait (polled n s) = Some (polled (Suc (n + k)) s)"
  using assms
proof (induction k arbitrary: n)
  case 0
  then show ?case by (subst disk_wait.simps) (simp add: inb_def drive_ready_def polled_def)
next
  case (Suc k)
  from Suc.prems(2) have "\<not> drive_ready s n" by auto
  moreover have "disk_wait (polled (Suc n) s) = Some (polled (Suc (Suc n + k)) s)"
    using Suc.prems by (intro Suc.IH) auto
  ultimately show ?case by (subst disk_wait.simps) (simp add: inb_def drive_ready_def polled_def)
qed

lemma disk_wait_returns:
  assumes "port_reads s 0x1F7 \<le> m" "drive_ready s m"
  shows "\<exists>k. disk_wait s = Some (polled k s)"
proof -
  let ?n = "port_reads s 0x1F7" and ?k = "LEAST k. drive_ready s (port_reads s 0x1F7 + k)"
  have "drive_ready s (?n + (m - ?n))" using assms by simp
  then have "drive_ready s (?n + ?k)" by (rule LeastI)
  moreover have "\<forall>i<?k. \<not> drive_ready s (?n + i)" using not_less_Least by blast
  ultimately show ?thesis using disk_wait_steps [of s ?n ?k] by (simp add: polled_same) blast
qed

subsection \<open>Reading\<close>

definition word16_bytes :: "u16 \<Rightarrow> u8 list" where
  "word16_bytes w = [ucast w, ucast (drop_bit 8 w)]"

text \<open>The next \<open>n\<close> words of the data port, as bytes.\<close>

definition disk_bytes :: "nat \<Rightarrow> disk_port \<Rightarrow> u8 list" where
  "disk_bytes n d = concat (map (\<lambda>i. word16_bytes (dk_words d 0x1F0 (dk_reads d 0x1F0 + i))) [0..<n])"

definition disk_skip :: "nat \<Rightarrow> disk_port \<Rightarrow> disk_port" where
  "disk_skip n d = d\<lparr>dk_reads := (dk_reads d)(0x1F0 := dk_reads d 0x1F0 + n)\<rparr>"

lemma disk_skip_0 [simp]: "disk_skip 0 d = d" and disk_skip_skip [simp]: "disk_skip n (disk_skip k d) = disk_skip (k + n) d"
  by (simp_all add: disk_skip_def add.assoc fun_upd_idem)

lemma length_disk_bytes [simp]: "length (disk_bytes n d) = 2 * n"
  by (induction n) (simp_all add: disk_bytes_def word16_bytes_def)

lemma disk_bytes_append: "disk_bytes (n + k) d = disk_bytes n d @ disk_bytes k (disk_skip n d)"
  by (induction k) (simp_all add: disk_bytes_def disk_skip_def add.assoc)

lemma disk_bytes_1: "disk_bytes 1 d = word16_bytes (dk_words d 0x1F0 (dk_reads d 0x1F0))"
  by (simp add: disk_bytes_def)

lemma read_words_eq: "read_words n p d m = (disk_skip n d, put_bytes m p (disk_bytes n d))"
proof (induction n arbitrary: p d m)
  case 0
  then show ?case by (simp add: disk_bytes_def)
next
  case (Suc n)
  have "put16 m p w = put_bytes m p (word16_bytes w)" for w by (simp add: put16_def word16_bytes_def)
  moreover have "d\<lparr>dk_reads := (dk_reads d)(0x1F0 := Suc (dk_reads d 0x1F0))\<rparr> = disk_skip 1 d" by (simp add: disk_skip_def)
  moreover have "length (disk_bytes 1 d) = 2" by simp
  ultimately show ?case using disk_bytes_append [of 1 n d]
    by (simp add: inw_def Suc.IH put_bytes_append disk_bytes_1 [symmetric] del: length_disk_bytes)
qed

lemma read_sectors_eq:
  assumes "\<forall>n. \<exists>k\<ge>n. drive_ready s k"
  shows "\<exists>k. read_sectors n p s d m = Some (polled k s, disk_skip (256 * n) d, put_bytes m p (disk_bytes (256 * n) d))"
  using assms
proof (induction n arbitrary: p s d m)
  case 0
  show ?case by (intro exI [of _ "port_reads s 0x1F7"]) (simp add: disk_bytes_def polled_same)
next
  case (Suc n)
  then obtain k where k: "disk_wait s = Some (polled k s)" using disk_wait_returns by meson
  have "\<forall>n. \<exists>k'\<ge>n. drive_ready (polled k s) k'" using Suc.prems by simp
  from Suc.IH [OF this, of "p + 512" "disk_skip 256 d" "put_bytes m p (disk_bytes 256 d)"] obtain k' where
    "read_sectors n (p + 512) (polled k s) (disk_skip 256 d) (put_bytes m p (disk_bytes 256 d)) =
      Some (polled k' s, disk_skip (256 * Suc n) d,
        put_bytes (put_bytes m p (disk_bytes 256 d)) (p + 512) (disk_bytes (256 * n) (disk_skip 256 d)))" by auto
  moreover have "disk_bytes (256 * Suc n) d = disk_bytes 256 d @ disk_bytes (256 * n) (disk_skip 256 d)"
    using disk_bytes_append [of 256 "256 * n" d] by simp
  ultimately show ?case using k by (intro exI [of _ k']) (simp add: SECTOR_SIZE_def read_words_eq put_bytes_append)
qed

subsection \<open>The command\<close>

text \<open>The drive keeps the last two bytes written to each of its registers, the older one being the upper
  half of the 48-bit sector number and of the 16-bit count.\<close>

definition written :: "u16 \<Rightarrow> (u16 \<times> u8) list \<Rightarrow> nat \<Rightarrow> int" where
  "written p cmds i = uint (map snd (filter (\<lambda>c. fst c = p) cmds) ! i)"

definition lba48 :: "(u16 \<times> u8) list \<Rightarrow> int" where
  "lba48 c = written 0x1F3 c 1 + 2 ^ 8 * written 0x1F4 c 1 + 2 ^ 16 * written 0x1F5 c 1 +
             2 ^ 24 * written 0x1F3 c 0 + 2 ^ 32 * written 0x1F4 c 0 + 2 ^ 40 * written 0x1F5 c 0"

definition lba_count :: "(u16 \<times> u8) list \<Rightarrow> int" where
  "lba_count c = written 0x1F2 c 1 + 2 ^ 8 * written 0x1F2 c 0"

lemma uint_byte: "uint (of_int x :: u8) = x mod 256"
  by (simp add: uint_word_of_int)

lemma low_byte: "x = 256 * (x div 256) + x mod (256 :: int)"
  by (simp only: mult_div_mod_eq)

lemma digits_sum:
  "(x :: int) = 256 * y + a \<Longrightarrow> y = 256 * z + b \<Longrightarrow> z = 256 * w + c \<Longrightarrow> a + 256 * b + 65536 * c + 16777216 * w = x"
  by simp

lemma top_byte:
  assumes "0 \<le> x" "x < 256 * k" "0 < k"
  shows "x div k mod 256 = x div (k :: int)"
proof (rule mod_pos_pos_trivial)
  show "x div k < 256"
  proof (rule ccontr)
    assume "\<not> x div k < 256"
    then have "k * 256 \<le> k * (x div k)" using assms(3) by simp
    moreover have "k * (x div k) \<le> x" using mult_div_mod_eq [of k x] pos_mod_sign [OF assms(3), of x] by linarith
    ultimately show False using assms(2) by simp
  qed
qed (use assms in \<open>simp add: pos_imp_zdiv_nonneg_iff\<close>)

lemma bytes_sum:
  fixes x :: int
  assumes "0 \<le> x" "x < 2 ^ 32"
  shows "x mod 256 + 256 * (x div 256 mod 256) + 65536 * (x div 65536 mod 256) + 16777216 * (x div 16777216 mod 256) = x"
proof -
  have d: "x div 65536 = x div 256 div 256" "x div 16777216 = x div 256 div 256 div 256"
    by (simp_all add: zdiv_zmult2_eq [symmetric])
  have "x div 16777216 mod 256 = x div 16777216" by (rule top_byte) (use assms in simp_all)
  then show ?thesis using digits_sum [OF low_byte low_byte low_byte, of x] unfolding d by (simp only:)
qed

lemma disk_command_addr:
  assumes "0 \<le> sector" "sector < 2 ^ 31" "0 \<le> n" "n < 2 ^ 16"
  shows "lba48 (disk_command sector n) = sector" "lba_count (disk_command sector n) = n"
proof -
  have "lba48 (disk_command sector n) = sector mod 256 + 256 * (sector div 256 mod 256) +
      65536 * (sector div 65536 mod 256) + 16777216 * (sector div 16777216 mod 256)"
    by (simp add: lba48_def written_def disk_command_def uint_byte)
  also have "\<dots> = sector" by (rule bytes_sum) (use assms(1,2) in simp_all)
  finally show "lba48 (disk_command sector n) = sector" .
  have "n div 256 mod 256 = n div 256" by (rule top_byte) (use assms(3,4) in simp_all)
  then have "n mod 256 + 256 * (n div 256 mod 256) = n" by (simp only: mod_mult_div_eq)
  then show "lba_count (disk_command sector n) = n"
    by (simp add: lba_count_def written_def disk_command_def uint_byte)
qed

lemma fold_outb: "fold (\<lambda>(p, v). outb p v) cs s = s\<lparr>port_out := port_out s @ cs\<rparr>"
  by (induction cs arbitrary: s) (auto simp: outb_def)

text \<open>C23: reading the disk ends and delivers the sectors.  If the drive never stays busy for ever,
  \<open>read_disk\<close> returns; the registers of the drive hold exactly the sector number and the count asked for,
  the buffer holds the words of the data port in order, low byte first, and no other
  byte of the memory has changed.\<close>

theorem read_disk_delivers:
  assumes "\<forall>n. \<exists>k\<ge>n. drive_ready s k" "0 \<le> sector" "sector < 2 ^ 31" "n < 2 ^ 16"
  shows "\<exists>s' c. read_disk sector (int n) buf s d m =
       Some (s', disk_skip (256 * n) d, put_bytes m buf (disk_bytes (256 * n) d)) \<and>
     port_out s' = port_out s @ c \<and> lba48 c = sector \<and> lba_count c = int n \<and>
     at_bytes (put_bytes m buf (disk_bytes (256 * n) d)) buf (disk_bytes (256 * n) d) \<and>
     (\<forall>q. q \<notin> region buf (512 * n) \<longrightarrow> put_bytes m buf (disk_bytes (256 * n) d) q = m q)"
proof -
  let ?c = "disk_command sector (int n)"
  have "\<forall>n. \<exists>k\<ge>n. drive_ready (s\<lparr>port_out := port_out s @ ?c\<rparr>) k" using assms(1) by (simp add: drive_ready_def)
  from read_sectors_eq [OF this, of n buf d m] obtain k where
    r: "read_disk sector (int n) buf s d m = Some (polled k (s\<lparr>port_out := port_out s @ ?c\<rparr>), disk_skip (256 * n) d,
      put_bytes m buf (disk_bytes (256 * n) d))" by (auto simp: read_disk_def fold_outb)
  have "at_bytes (put_bytes m buf (disk_bytes (256 * n) d)) buf (disk_bytes (256 * n) d)"
    using assms(4) by (intro put_bytes_at) simp
  moreover have "put_bytes m buf (disk_bytes (256 * n) d) q = m q" if "q \<notin> region buf (512 * n)" for q
    using that by (intro put_bytes_other) simp
  ultimately show ?thesis using r disk_command_addr [of sector "int n"] assms(2-4)
    by (intro exI [of _ "polled k (s\<lparr>port_out := port_out s @ ?c\<rparr>)"] exI [of _ ?c]) simp
qed

definition quiet_cpu :: cpu_state where
  "quiet_cpu = \<lparr>eflags = 0x202, cr3 = 0, port_out = [], port_in = (\<lambda>_ n. if n mod 3 = 2 then 0x58 else 0xd0),
     port_reads = (\<lambda>_. 0), klogs = [], idt_table = [], idtr = (0, 0, 0)\<rparr>"

definition counting_disk :: disk_port where
  "counting_disk = \<lparr>dk_words = (\<lambda>_ i. of_nat i), dk_reads = (\<lambda>_. 0)\<rparr>"

text \<open>A drive that is ready at every third poll.\<close>

theorem read_disk_delivers_witness:
  "\<exists>s' c. read_disk 5000 100 0x100000 quiet_cpu counting_disk (\<lambda>_. 0) =
       Some (s', disk_skip 25600 counting_disk, put_bytes (\<lambda>_. 0) 0x100000 (disk_bytes 25600 counting_disk)) \<and>
     lba48 c = 5000 \<and> lba_count c = 100"
proof -
  have "(3 * n + 2) mod 3 = (2 :: nat)" for n by presburger
  then have "drive_ready quiet_cpu (3 * n + 2)" for n by (simp only: drive_ready_def quiet_cpu_def) simp
  moreover have "n \<le> 3 * n + 2" for n :: nat by simp
  ultimately have "\<forall>n. \<exists>k\<ge>n. drive_ready quiet_cpu k" by blast
  from read_disk_delivers [OF this, of 5000 100 "0x100000" counting_disk "\<lambda>_. 0"] show ?thesis by auto
qed

end
