(* ===== verification/Console.thy ===== *)
theory Console
  imports Kernel_Prelude
begin

text \<open>
  The text screen of src/src/kernel/dev/tty/console.c: the cursor, scrolling and the escape
  sequences.  The display memory is a function from cells to characters; a pointer to a
  \<open>disp_char_t\<close> is its address divided by the size of a cell, so \<open>disp_base\<close> of console \<open>idx\<close> is
  \<open>0xb8000 / 2 + idx * 2000\<close> and a null pointer is 0.  An operation takes and returns the
  console together with the display memory.  A write to \<open>esc_param\<close> outside its ten entries is a
  fault.

  \<open>con_ok\<close> says that the cursor and the saved cursor are on the screen; the lemmas show that text
  and every control character keep it and write only to the console's own window.  The escape
  sequence that positions the cursor does not check its arguments and breaks it.
\<close>

datatype color_t =
    COLOR_Black | COLOR_Blue | COLOR_Green | COLOR_Cyan | COLOR_Red | COLOR_Magenta | COLOR_Brown
  | COLOR_Gray | COLOR_Dark_Gray | COLOR_Light_Blue | COLOR_Light_Green | COLOR_Light_Cyan
  | COLOR_Light_Red | COLOR_Light_Magenta | COLOR_Yellow | COLOR_White

fun color_code :: "color_t \<Rightarrow> int" where
  "color_code COLOR_Black = 0" | "color_code COLOR_Blue = 1" | "color_code COLOR_Green = 2"
| "color_code COLOR_Cyan = 3" | "color_code COLOR_Red = 4" | "color_code COLOR_Magenta = 5"
| "color_code COLOR_Brown = 6" | "color_code COLOR_Gray = 7" | "color_code COLOR_Dark_Gray = 8"
| "color_code COLOR_Light_Blue = 9" | "color_code COLOR_Light_Green = 10" | "color_code COLOR_Light_Cyan = 11"
| "color_code COLOR_Light_Red = 12" | "color_code COLOR_Light_Magenta = 13" | "color_code COLOR_Yellow = 14"
| "color_code COLOR_White = 15"

text \<open>A cell: the character, four bits of foreground, three of background, and the bit the
  code never assigns.\<close>

record disp_char_t =
  dc_c :: u8
  dc_foreground :: "4 word"
  dc_background :: "3 word"
  dc_blink :: bool

type_synonym vram = "int \<Rightarrow> disp_char_t"

datatype write_state = CONSOLE_WRITE_NOMAL | CONSOLE_WRITE_ESC | CONSOLE_WRITE_SQUARE

record console_t =
  write_state :: write_state
  disp_base :: int
  display_rows :: int
  display_cols :: int
  cursor_row :: int
  cursor_col :: int
  foreground :: color_t
  background :: color_t
  old_cursor_col :: int
  old_cursor_row :: int
  esc_param :: "int list"
  curr_param_index :: int

definition CONSOLE_DISP_ADDR :: int where "CONSOLE_DISP_ADDR = 0xb8000 div 2"
definition CONSOLE_ROW_MAX :: int where "CONSOLE_ROW_MAX = 25"
definition CONSOLE_COL_MAX :: int where "CONSOLE_COL_MAX = 80"
definition ESC_PARAM_MAX :: int where "ESC_PARAM_MAX = 10"
definition ASCII_ESC :: u8 where "ASCII_ESC = 0x1b"

abbreviation is_ch :: "u8 \<Rightarrow> char \<Rightarrow> bool" where
  "is_ch b c \<equiv> b = of_char c"

subsection \<open>Cells\<close>

text \<open>\<open>p->c = ch; p->foreground = ...; p->background = ...\<close>\<close>

definition put_cell :: "console_t \<Rightarrow> u8 \<Rightarrow> int \<Rightarrow> vram \<Rightarrow> vram" where
  "put_cell co ch p v =
     v(p := (v p)\<lparr>dc_c := ch, dc_foreground := of_int (color_code (foreground co)),
                  dc_background := of_int (color_code (background co))\<rparr>)"

fun put_cells :: "console_t \<Rightarrow> u8 \<Rightarrow> int \<Rightarrow> nat \<Rightarrow> vram \<Rightarrow> vram" where
  "put_cells co ch p 0 v = v"
| "put_cells co ch p (Suc n) v = put_cells co ch (p + 1) n (put_cell co ch p v)"

fun copy_cells :: "int \<Rightarrow> int \<Rightarrow> nat \<Rightarrow> vram \<Rightarrow> vram" where
  "copy_cells dest src 0 v = v"
| "copy_cells dest src (Suc n) v = copy_cells (dest + 1) (src + 1) n (v(dest := v src))"

definition erease_rows :: "int \<Rightarrow> int \<Rightarrow> console_t \<times> vram \<Rightarrow> console_t \<times> vram" where
  "erease_rows from to = (\<lambda>(co, v).
     let dis_from = disp_base co + display_cols co * from;
         dis_to = disp_base co + display_cols co * (to + 1)
     in (co, put_cells co (of_char CHR '' '') dis_from (nat (dis_to - dis_from)) v))"

definition scroll_up :: "int \<Rightarrow> console_t \<times> vram \<Rightarrow> console_t \<times> vram" where
  "scroll_up lines = (\<lambda>(co, v).
     let v1 = copy_cells (disp_base co) (disp_base co + display_cols co * lines)
                (nat ((display_rows co - lines) * display_cols co)) v;
         (co1, v2) = erease_rows (display_rows co - lines) (display_rows co - 1) (co, v1)
     in (co1\<lparr>cursor_row := cursor_row co1 - 1\<rparr>, v2))"

subsection \<open>Cursor\<close>

fun move_forward :: "nat \<Rightarrow> console_t \<times> vram \<Rightarrow> console_t \<times> vram" where
  "move_forward 0 s = s"
| "move_forward (Suc n) (co, v) =
     (let co1 = co\<lparr>cursor_col := cursor_col co + 1\<rparr>
      in move_forward n
           (if cursor_col co1 \<ge> display_cols co1
            then let co2 = co1\<lparr>cursor_row := cursor_row co1 + 1, cursor_col := 0\<rparr>
                 in if cursor_row co2 \<ge> display_rows co2 then scroll_up 1 (co2, v) else (co2, v)
            else (co1, v)))"

fun move_backward_loop :: "nat \<Rightarrow> int \<Rightarrow> console_t \<Rightarrow> int \<times> console_t" where
  "move_backward_loop 0 status co = (status, co)"
| "move_backward_loop (Suc n) status co =
     (if cursor_col co > 0 then move_backward_loop n 0 (co\<lparr>cursor_col := cursor_col co - 1\<rparr>)
      else if cursor_row co > 0
      then move_backward_loop n 0 (co\<lparr>cursor_row := cursor_row co - 1, cursor_col := display_cols co - 1\<rparr>)
      else move_backward_loop n status co)"

definition move_backward :: "nat \<Rightarrow> console_t \<Rightarrow> int \<times> console_t" where
  "move_backward n co = move_backward_loop n (-1) co"

definition show_char :: "u8 \<Rightarrow> console_t \<times> vram \<Rightarrow> console_t \<times> vram" where
  "show_char c = (\<lambda>(co, v).
     let offset = cursor_col co + cursor_row co * display_cols co
     in move_forward 1 (co, put_cell co c (disp_base co + offset) v))"

definition erease_back :: "console_t \<times> vram \<Rightarrow> console_t \<times> vram" where
  "erease_back = (\<lambda>(co, v).
     let (status, co1) = move_backward 1 co
     in if status = 0
        then let (co2, v2) = show_char (of_char CHR '' '') (co1, v)
             in (snd (move_backward 1 co2), v2)
        else (co1, v))"

definition clear_display :: "console_t \<times> vram \<Rightarrow> console_t \<times> vram" where
  "clear_display = (\<lambda>(co, v).
     (co, put_cells co (of_char CHR '' '') (disp_base co) (nat (display_cols co * display_rows co)) v))"

definition mov_to_col0 :: "console_t \<Rightarrow> console_t" where
  "mov_to_col0 co = co\<lparr>cursor_col := 0\<rparr>"

definition mov_next_row :: "console_t \<times> vram \<Rightarrow> console_t \<times> vram" where
  "mov_next_row = (\<lambda>(co, v).
     let co1 = co\<lparr>cursor_row := cursor_row co + 1\<rparr>
     in if cursor_row co1 \<ge> display_rows co1 then scroll_up 1 (co1, v) else (co1, v))"

definition move_left :: "int \<Rightarrow> console_t \<Rightarrow> console_t" where
  "move_left n co =
     (let n1 = (if n = 0 then 1 else n); col = cursor_col co - n1
      in co\<lparr>cursor_col := (if col \<ge> 0 then col else 0)\<rparr>)"

definition move_right :: "int \<Rightarrow> console_t \<Rightarrow> console_t" where
  "move_right n co =
     (let n1 = (if n = 0 then 1 else n); col = cursor_col co + n1
      in if col \<ge> display_cols co then co\<lparr>cursor_col := display_cols co - 1\<rparr> else co\<lparr>cursor_col := col\<rparr>)"

subsection \<open>Escape sequences\<close>

definition clear_esc_param :: "console_t \<Rightarrow> console_t" where
  "clear_esc_param co = co\<lparr>esc_param := replicate (nat ESC_PARAM_MAX) 0, curr_param_index := 0\<rparr>"

definition color_table :: "color_t list" where
  "color_table = [COLOR_Black, COLOR_Red, COLOR_Green, COLOR_Yellow,
                  COLOR_Blue, COLOR_Magenta, COLOR_Cyan, COLOR_White]"

definition apply_style :: "int \<Rightarrow> console_t \<Rightarrow> console_t" where
  "apply_style param co =
     (if param \<ge> 30 \<and> param \<le> 37 then co\<lparr>foreground := color_table ! nat (param - 30)\<rparr>
      else if param \<ge> 40 \<and> param \<le> 47 then co\<lparr>background := color_table ! nat (param - 40)\<rparr>
      else if param = 39 then co\<lparr>foreground := COLOR_White\<rparr>
      else if param = 49 then co\<lparr>background := COLOR_Black\<rparr>
      else co)"

definition set_font_style :: "console_t \<Rightarrow> console_t res" where
  "set_font_style co =
     (if curr_param_index co \<le> int (length (esc_param co))
      then Inr (fold apply_style (take (nat (curr_param_index co)) (esc_param co)) co)
      else Inl OutOfBounds)"

definition save_cursor :: "console_t \<Rightarrow> console_t" where
  "save_cursor co = co\<lparr>old_cursor_col := cursor_col co, old_cursor_row := cursor_row co\<rparr>"

definition restore_cursor :: "console_t \<Rightarrow> console_t" where
  "restore_cursor co = co\<lparr>cursor_col := old_cursor_col co, cursor_row := old_cursor_row co\<rparr>"

definition move_cursor :: "console_t \<Rightarrow> console_t" where
  "move_cursor co =
     (let co1 = (if curr_param_index co \<ge> 1 then co\<lparr>cursor_row := esc_param co ! 0\<rparr> else co)
      in if curr_param_index co1 \<ge> 2 then co1\<lparr>cursor_col := esc_param co1 ! 1\<rparr> else co1)"

definition erase_in_display :: "console_t \<times> vram \<Rightarrow> console_t \<times> vram" where
  "erase_in_display = (\<lambda>(co, v).
     if curr_param_index co \<le> 0 then (co, v)
     else if esc_param co ! 0 = 2
     then let (co1, v1) = erease_rows 0 (display_rows co - 1) (co, v)
          in (co1\<lparr>cursor_row := 0, cursor_col := 0\<rparr>, v1)
     else (co, v))"

subsection \<open>The writer's states\<close>

definition write_nomal :: "u8 \<Rightarrow> console_t \<times> vram \<Rightarrow> console_t \<times> vram" where
  "write_nomal ch = (\<lambda>(co, v).
     if ch = ASCII_ESC then (co\<lparr>write_state := CONSOLE_WRITE_ESC\<rparr>, v)
     else if ch = 0x7f then erease_back (co, v)
     else if ch = 0x08 then (snd (move_backward 1 co), v)
     else if ch = 0x0d then (mov_to_col0 co, v)
     else if ch = 0x0a then mov_next_row (mov_to_col0 co, v)
     else if of_char CHR '' '' \<le> ch \<and> ch \<le> of_char CHR ''~'' then show_char ch (co, v)
     else (co, v))"

definition write_esc :: "u8 \<Rightarrow> console_t \<Rightarrow> console_t" where
  "write_esc ch co =
     (if is_ch ch CHR ''7'' then (save_cursor co)\<lparr>write_state := CONSOLE_WRITE_NOMAL\<rparr>
      else if is_ch ch CHR ''8'' then (restore_cursor co)\<lparr>write_state := CONSOLE_WRITE_NOMAL\<rparr>
      else if is_ch ch CHR ''['' then (clear_esc_param co)\<lparr>write_state := CONSOLE_WRITE_SQUARE\<rparr>
      else co\<lparr>write_state := CONSOLE_WRITE_NOMAL\<rparr>)"

definition write_esc_square :: "u8 \<Rightarrow> console_t \<times> vram \<Rightarrow> (console_t \<times> vram) res" where
  "write_esc_square c = (\<lambda>(co, v).
     if of_char CHR ''0'' \<le> c \<and> c \<le> of_char CHR ''9''
     then (if 0 \<le> curr_param_index co \<and> curr_param_index co < int (length (esc_param co))
           then let i = nat (curr_param_index co)
                in Inr (co\<lparr>esc_param := (esc_param co)[i := esc_param co ! i * 10 + (uint c - uint (of_char CHR ''0'' :: u8))]\<rparr>, v)
           else Inl OutOfBounds)
     else if is_ch c CHR '';'' \<and> curr_param_index co < ESC_PARAM_MAX
     then Inr (co\<lparr>curr_param_index := curr_param_index co + 1\<rparr>, v)
     else let co1 = co\<lparr>curr_param_index := curr_param_index co + 1\<rparr>;
              r = (if is_ch c CHR ''m'' then res_bind (set_font_style co1) (\<lambda>co2. Inr (co2, v))
                   else if is_ch c CHR ''D'' then Inr (move_left (esc_param co1 ! 0) co1, v)
                   else if is_ch c CHR ''C'' then Inr (move_right (esc_param co1 ! 0) co1, v)
                   else if is_ch c CHR ''H'' \<or> is_ch c CHR ''f'' then Inr (move_cursor co1, v)
                   else if is_ch c CHR ''J'' then Inr (erase_in_display (co1, v))
                   else Inr (co1, v))
          in res_bind r (\<lambda>(co2, v2). Inr (co2\<lparr>write_state := CONSOLE_WRITE_NOMAL\<rparr>, v2)))"

text \<open>The body of the loop of \<open>console_write\<close> for one character.\<close>

definition console_put :: "u8 \<Rightarrow> console_t \<times> vram \<Rightarrow> (console_t \<times> vram) res" where
  "console_put ch = (\<lambda>(co, v).
     case write_state co of
       CONSOLE_WRITE_NOMAL \<Rightarrow> Inr (write_nomal ch (co, v))
     | CONSOLE_WRITE_ESC \<Rightarrow> Inr (write_esc ch co, v)
     | CONSOLE_WRITE_SQUARE \<Rightarrow> write_esc_square ch (co, v))"

fun console_puts :: "u8 list \<Rightarrow> console_t \<times> vram \<Rightarrow> (console_t \<times> vram) res" where
  "console_puts [] s = Inr s"
| "console_puts (c # cs) s = res_bind (console_put c s) (console_puts cs)"

subsection \<open>The screen invariant\<close>

definition con_ok :: "console_t \<Rightarrow> bool" where
  "con_ok co \<longleftrightarrow> display_rows co = 25 \<and> display_cols co = 80 \<and>
     0 \<le> cursor_row co \<and> cursor_row co < 25 \<and> 0 \<le> cursor_col co \<and> cursor_col co < 80 \<and>
     0 \<le> old_cursor_row co \<and> old_cursor_row co < 25 \<and> 0 \<le> old_cursor_col co \<and> old_cursor_col co < 80 \<and>
     length (esc_param co) = 10 \<and> 0 \<le> curr_param_index co"

definition window :: "console_t \<Rightarrow> int set" where
  "window co = {disp_base co ..< disp_base co + 2000}"

definition blank :: "console_t \<Rightarrow> u8 \<Rightarrow> disp_char_t \<Rightarrow> disp_char_t" where
  "blank co ch d = d\<lparr>dc_c := ch, dc_foreground := of_int (color_code (foreground co)),
                      dc_background := of_int (color_code (background co))\<rparr>"

lemma put_cell_eq: "put_cell co ch p v = v(p := blank co ch (v p))"
  by (simp add: put_cell_def blank_def)

lemma put_cells_eq: "put_cells co ch p n v = (\<lambda>q. if p \<le> q \<and> q < p + int n then blank co ch (v q) else v q)"
proof (induction n arbitrary: p v)
  case (Suc n)
  show ?case
    unfolding put_cells.simps Suc.IH put_cell_eq by (auto simp: fun_eq_iff)
qed (auto simp: fun_eq_iff)

lemma copy_cells_eq:
  "dest \<le> src \<Longrightarrow> copy_cells dest src n v = (\<lambda>q. if dest \<le> q \<and> q < dest + int n then v (q + (src - dest)) else v q)"
proof (induction n arbitrary: dest src v)
  case (Suc n)
  then have "copy_cells (dest + 1) (src + 1) n (v(dest := v src)) =
      (\<lambda>q. if dest + 1 \<le> q \<and> q < dest + 1 + int n then (v(dest := v src)) (q + (src + 1 - (dest + 1)))
           else (v(dest := v src)) q)" by (intro Suc.IH) simp
  with Suc.prems show ?case by (auto simp: fun_eq_iff)
qed (auto simp: fun_eq_iff)

text \<open>Scrolling by one line: every row takes the contents of the next one, and the last is blank.\<close>

definition scrolled :: "console_t \<Rightarrow> vram \<Rightarrow> vram" where
  "scrolled co v = (\<lambda>q. let k = q - disp_base co
     in if 0 \<le> k \<and> k < 24 * 80 then v (q + 80)
        else if 24 * 80 \<le> k \<and> k < 25 * 80 then blank co (of_char CHR '' '') (v q) else v q)"

lemma scroll_up_eq:
  assumes "display_rows co = 25" "display_cols co = 80"
  shows "scroll_up 1 (co, v) = (co\<lparr>cursor_row := cursor_row co - 1\<rparr>, scrolled co v)"
  using assms
  by (auto simp: scroll_up_def erease_rows_def copy_cells_eq put_cells_eq scrolled_def Let_def fun_eq_iff)

lemma scrolled_outside: "q \<notin> window co \<Longrightarrow> scrolled co v q = v q"
  by (auto simp: scrolled_def window_def Let_def)

lemma mov_next_row_eq:
  assumes "con_ok co"
  shows "mov_next_row (co, v) =
    (if cursor_row co = 24 then (co, scrolled co v) else (co\<lparr>cursor_row := cursor_row co + 1\<rparr>, v))"
  using assms by (simp add: mov_next_row_def con_ok_def scroll_up_eq Let_def scrolled_def blank_def fun_eq_iff)

lemma move_forward_1:
  assumes "con_ok co"
  shows "move_forward (Suc 0) (co, v) =
    (if cursor_col co < 79 then (co\<lparr>cursor_col := cursor_col co + 1\<rparr>, v)
     else if cursor_row co < 24 then (co\<lparr>cursor_row := cursor_row co + 1, cursor_col := 0\<rparr>, v)
     else (co\<lparr>cursor_col := 0\<rparr>, scrolled co v))"
  using assms
  by (simp add: con_ok_def scroll_up_eq Let_def scrolled_def blank_def fun_eq_iff)

lemma move_backward_1:
  assumes "con_ok co"
  shows "move_backward (Suc 0) co =
    (if cursor_col co > 0 then (0, co\<lparr>cursor_col := cursor_col co - 1\<rparr>)
     else if cursor_row co > 0 then (0, co\<lparr>cursor_row := cursor_row co - 1, cursor_col := 79\<rparr>)
     else (-1, co))"
  using assms by (simp add: move_backward_def con_ok_def)

abbreviation cursor_cell :: "console_t \<Rightarrow> int" where
  "cursor_cell co \<equiv> disp_base co + cursor_col co + cursor_row co * 80"

lemma cursor_cell_window: "con_ok co \<Longrightarrow> cursor_cell co \<in> window co"
  by (auto simp: con_ok_def window_def)

definition screen_step :: "console_t \<times> vram \<Rightarrow> console_t \<times> vram \<Rightarrow> bool" where
  "screen_step s s' \<longleftrightarrow>
     con_ok (fst s') \<and> write_state (fst s') = write_state (fst s) \<and> disp_base (fst s') = disp_base (fst s) \<and>
     (\<forall>q. q \<notin> window (fst s) \<longrightarrow> snd s' q = snd s q)"

lemma screen_step_trans:
  "screen_step s s' \<Longrightarrow> screen_step s' s'' \<Longrightarrow> screen_step s s''"
  unfolding screen_step_def window_def by simp

lemma screen_step_refl: "con_ok (fst s) \<Longrightarrow> screen_step s s"
  by (simp add: screen_step_def)

lemma move_forward_step: "con_ok co \<Longrightarrow> screen_step (co, v) (move_forward (Suc 0) (co, v))"
  unfolding move_forward_1 screen_step_def
  by (auto simp: con_ok_def scrolled_outside)

lemma show_char_step:
  assumes "con_ok co" shows "screen_step (co, v) (show_char c (co, v))"
proof -
  have "screen_step (co, v) (co, put_cell co c (cursor_cell co) v)"
    using assms cursor_cell_window [OF assms] by (auto simp: screen_step_def put_cell_eq)
  moreover have "show_char c (co, v) = move_forward (Suc 0) (co, put_cell co c (cursor_cell co) v)"
    using assms by (simp add: show_char_def Let_def con_ok_def add.assoc)
  ultimately show ?thesis using move_forward_step [OF assms] screen_step_trans by metis
qed

lemma move_backward_step: "con_ok co \<Longrightarrow> screen_step (co, v) (snd (move_backward (Suc 0) co), v)"
  by (auto simp: move_backward_1 screen_step_def con_ok_def)

lemma erease_back_step:
  assumes "con_ok co" shows "screen_step (co, v) (erease_back (co, v))"
proof -
  obtain st co1 where b: "move_backward (Suc 0) co = (st, co1)" by (cases "move_backward (Suc 0) co")
  have 1: "screen_step (co, v) (co1, v)" using move_backward_step [OF assms, of v] b by simp
  then have "con_ok co1" by (simp add: screen_step_def)
  obtain co2 v2 where s: "show_char (of_char CHR '' '') (co1, v) = (co2, v2)"
    by (cases "show_char (of_char CHR '' '') (co1, v)")
  have 2: "screen_step (co1, v) (co2, v2)" using show_char_step [OF \<open>con_ok co1\<close>] s by metis
  then have "con_ok co2" by (simp add: screen_step_def)
  from move_backward_step [OF this] 1 2 show ?thesis
    using b s screen_step_trans by (auto simp: erease_back_def)
qed

lemma write_nomal_step:
  assumes "con_ok co" "ch \<noteq> ASCII_ESC"
  shows "screen_step (co, v) (write_nomal ch (co, v))"
proof -
  have col0: "con_ok (mov_to_col0 co)" using assms(1) by (simp add: mov_to_col0_def con_ok_def)
  have "screen_step (co, v) (mov_to_col0 co, v)"
    using col0 by (simp add: screen_step_def mov_to_col0_def)
  moreover have "screen_step (mov_to_col0 co, v) (mov_next_row (mov_to_col0 co, v))"
    using col0 by (auto simp: mov_next_row_eq screen_step_def con_ok_def scrolled_outside)
  ultimately have "screen_step (co, v) (mov_next_row (mov_to_col0 co, v))" "screen_step (co, v) (mov_to_col0 co, v)"
    by (auto intro: screen_step_trans)
  then show ?thesis
    using assms show_char_step erease_back_step move_backward_step screen_step_refl [of "(co, v)"]
    by (simp add: write_nomal_def)
qed

lemma console_puts_step:
  "con_ok co \<Longrightarrow> write_state co = CONSOLE_WRITE_NOMAL \<Longrightarrow> ASCII_ESC \<notin> set cs \<Longrightarrow>
   \<exists>s'. console_puts cs (co, v) = Inr s' \<and> screen_step (co, v) s'"
proof (induction cs arbitrary: co v)
  case Nil
  then show ?case by (simp add: screen_step_refl)
next
  case (Cons c cs)
  obtain co1 v1 where w: "write_nomal c (co, v) = (co1, v1)" by (cases "write_nomal c (co, v)")
  have 1: "screen_step (co, v) (co1, v1)" using write_nomal_step [of co c v] Cons.prems w by auto
  then have "con_ok co1" "write_state co1 = CONSOLE_WRITE_NOMAL" using Cons.prems(2) by (auto simp: screen_step_def)
  from Cons.IH [OF this, of v1] Cons.prems(3) obtain s' where
    "console_puts cs (co1, v1) = Inr s'" "screen_step (co1, v1) s'" by auto
  with 1 w Cons.prems(2) show ?case
    by (auto simp: console_put_def intro: screen_step_trans)
qed

subsection \<open>Properties\<close>

text \<open>The console \<open>idx\<close> as \<open>console_init\<close> leaves it, with the cursor at the given place.\<close>

definition fresh_console :: "int \<Rightarrow> int \<Rightarrow> int \<Rightarrow> console_t" where
  "fresh_console idx row col = \<lparr>write_state = CONSOLE_WRITE_NOMAL,
     disp_base = CONSOLE_DISP_ADDR + idx * (CONSOLE_COL_MAX * CONSOLE_ROW_MAX),
     display_rows = CONSOLE_ROW_MAX, display_cols = CONSOLE_COL_MAX, cursor_row = row, cursor_col = col,
     foreground = COLOR_White, background = COLOR_Black, old_cursor_col = col, old_cursor_row = row,
     esc_param = replicate 10 0, curr_param_index = 0\<rparr>"

definition dark :: vram where
  "dark = (\<lambda>_. \<lparr>dc_c = 0, dc_foreground = 0, dc_background = 0, dc_blink = False\<rparr>)"

lemma fresh_console_ok:
  "0 \<le> row \<Longrightarrow> row < 25 \<Longrightarrow> 0 \<le> col \<Longrightarrow> col < 80 \<Longrightarrow> con_ok (fresh_console idx row col)"
  by (simp add: con_ok_def fresh_console_def CONSOLE_ROW_MAX_def CONSOLE_COL_MAX_def)

text \<open>
  C39: text is safe on the screen.  Any sequence of bytes without the escape character, printable
  or not, keeps the cursor on the screen, never faults, and changes no cell outside the window of
  the console: wrapping, scrolling, backspace and delete included.
\<close>

theorem console_text_stays_inside:
  assumes "con_ok co" "write_state co = CONSOLE_WRITE_NOMAL" "ASCII_ESC \<notin> set cs"
  shows "\<exists>co' v'. console_puts cs (co, v) = Inr (co', v') \<and> con_ok co' \<and>
           write_state co' = CONSOLE_WRITE_NOMAL \<and> (\<forall>q. q \<notin> window co \<longrightarrow> v' q = v q)"
  using console_puts_step [OF assms, of v] assms(2) by (auto simp: screen_step_def)

theorem console_text_stays_inside_witness:
  "\<exists>co' v'. console_puts [0x41, 0x0a, 0x7f] (fresh_console 1 24 79, dark) = Inr (co', v') \<and> con_ok co'"
proof -
  have "con_ok (fresh_console 1 24 79)" "write_state (fresh_console 1 24 79) = CONSOLE_WRITE_NOMAL"
    "ASCII_ESC \<notin> set [0x41, 0x0a, 0x7f]"
    by (simp add: fresh_console_ok, simp add: fresh_console_def, simp add: ASCII_ESC_def)
  from console_text_stays_inside [OF this, of dark] show ?thesis by blast
qed

text \<open>
  A line feed on the last row scrolls.  The cursor stays on the last row, in column 0, every
  row of the window takes the contents of the row below it and the last row becomes blank in the
  current colours; nothing outside the window changes.
\<close>

theorem newline_scrolls:
  assumes "con_ok co" "write_state co = CONSOLE_WRITE_NOMAL" "cursor_row co = 24"
  shows "\<exists>co' v'. console_put 0x0a (co, v) = Inr (co', v') \<and> con_ok co' \<and> cursor_row co' = 24 \<and> cursor_col co' = 0 \<and>
           (\<forall>r c. 0 \<le> r \<and> r < 24 \<and> 0 \<le> c \<and> c < 80 \<longrightarrow>
              v' (disp_base co + r * 80 + c) = v (disp_base co + (r + 1) * 80 + c)) \<and>
           (\<forall>c. 0 \<le> c \<and> c < 80 \<longrightarrow>
              dc_c (v' (disp_base co + 24 * 80 + c)) = of_char CHR '' '' \<and>
              dc_foreground (v' (disp_base co + 24 * 80 + c)) = of_int (color_code (foreground co))) \<and>
           (\<forall>q. q \<notin> window co \<longrightarrow> v' q = v q)"
proof -
  have c0: "con_ok (mov_to_col0 co)" using assms(1) by (simp add: con_ok_def mov_to_col0_def)
  have "console_put 0x0a (co, v) = Inr (mov_to_col0 co, scrolled (mov_to_col0 co) v)"
    using assms by (simp add: console_put_def write_nomal_def ASCII_ESC_def mov_next_row_eq [OF c0])
      (simp add: mov_to_col0_def)
  moreover have "window (mov_to_col0 co) = window co" by (simp add: window_def mov_to_col0_def)
  ultimately show ?thesis
    using c0 assms(3) scrolled_outside [of _ "mov_to_col0 co" v]
    by (intro exI [of _ "mov_to_col0 co"] exI [of _ "scrolled (mov_to_col0 co) v"])
       (auto simp: mov_to_col0_def scrolled_def blank_def Let_def algebra_simps)
qed

theorem newline_scrolls_witness:
  "\<exists>co' v'. console_put 0x0a (fresh_console 0 24 5, dark) = Inr (co', v') \<and> cursor_row co' = 24 \<and> cursor_col co' = 0 \<and>
     dc_c (v' (0x5c000 + 24 * 80 + 7)) = of_char CHR '' ''"
proof -
  have "con_ok (fresh_console 0 24 5)" "write_state (fresh_console 0 24 5) = CONSOLE_WRITE_NOMAL"
    "cursor_row (fresh_console 0 24 5) = 24" "disp_base (fresh_console 0 24 5) = 0x5c000"
    by (simp add: fresh_console_ok, simp_all add: fresh_console_def CONSOLE_DISP_ADDR_def)
  from newline_scrolls [OF this(1-3), of dark] this(4) obtain co' v' where
    "console_put 0x0a (fresh_console 0 24 5, dark) = Inr (co', v')" "cursor_row co' = 24" "cursor_col co' = 0"
    "\<forall>c. 0 \<le> c \<and> c < 80 \<longrightarrow> dc_c (v' (0x5c000 + 24 * 80 + c)) = of_char CHR '' ''" by auto
  moreover from this(4) have "dc_c (v' (0x5c000 + 24 * 80 + 7)) = of_char CHR '' ''" by (rule allE [of _ 7]) simp
  ultimately show ?thesis by blast
qed

text \<open>
  Delete undoes a character.  Away from the top left corner, the delete byte moves the cursor
  one cell back and blanks exactly that cell; it never scrolls.
\<close>

theorem delete_blanks_previous:
  assumes "con_ok co" "write_state co = CONSOLE_WRITE_NOMAL" "cursor_row co \<noteq> 0 \<or> cursor_col co \<noteq> 0"
  shows "\<exists>co' v'. console_put 0x7f (co, v) = Inr (co', v') \<and> con_ok co' \<and>
           cursor_cell co' = cursor_cell co - 1 \<and> v' = v(cursor_cell co - 1 := blank co (of_char CHR '' '') (v (cursor_cell co - 1)))"
proof -
  let ?co1 = "if cursor_col co > 0 then co\<lparr>cursor_col := cursor_col co - 1\<rparr>
      else co\<lparr>cursor_row := cursor_row co - 1, cursor_col := 79\<rparr>"
  have 1: "move_backward (Suc 0) co = (0, ?co1)" "con_ok ?co1"
    using assms(1,3) by (auto simp: move_backward_1 con_ok_def)
  have cell: "cursor_cell ?co1 = cursor_cell co - 1" using assms(1,3) by (auto simp: con_ok_def)
  let ?v = "put_cell ?co1 (of_char CHR '' '') (cursor_cell ?co1) v"
  have "show_char (of_char CHR '' '') (?co1, v) = move_forward (Suc 0) (?co1, ?v)"
    using 1(2) by (simp add: show_char_def Let_def con_ok_def add.assoc)
  also have "\<dots> = (co, ?v)"
    using 1(2) assms(1,3) by (auto simp: move_forward_1 con_ok_def)
  finally have "console_put 0x7f (co, v) = Inr (?co1, ?v)"
    using 1(1) assms(2) by (simp add: console_put_def write_nomal_def ASCII_ESC_def erease_back_def)
  moreover have "?v = v(cursor_cell co - 1 := blank co (of_char CHR '' '') (v (cursor_cell co - 1)))"
    unfolding put_cell_eq cell by (simp add: blank_def)
  ultimately show ?thesis using 1(2) cell by blast
qed

theorem delete_blanks_previous_witness:
  "\<exists>co' v'. console_put 0x7f (fresh_console 0 1 0, dark) = Inr (co', v') \<and> con_ok co' \<and>
     v' = dark(0x5c000 + 79 := blank (fresh_console 0 1 0) (of_char CHR '' '') (dark (0x5c000 + 79)))"
proof -
  have "con_ok (fresh_console 0 1 0)" "write_state (fresh_console 0 1 0) = CONSOLE_WRITE_NOMAL"
    "cursor_row (fresh_console 0 1 0) \<noteq> 0 \<or> cursor_col (fresh_console 0 1 0) \<noteq> 0"
    "cursor_cell (fresh_console 0 1 0) - 1 = 0x5c000 + 79"
    by (simp add: fresh_console_ok, simp_all add: fresh_console_def CONSOLE_DISP_ADDR_def)
  from delete_blanks_previous [OF this(1-3), of dark] this(4) show ?thesis by auto
qed

text \<open>
  The cursor can be sent off the screen.  The sequence \<open>ESC [ 60 ; 0 H\<close> followed by a letter on
  the first console writes the letter to row 60 of an eighty-column screen of 25 rows: into the
  window of the third console.
\<close>

theorem escape_position_unchecked:
  "0x5c000 + 60 * 80 \<in> window (fresh_console 2 0 0) \<and>
   (case console_puts (ASCII_ESC # map of_char ''[60;0HA'') (fresh_console 0 0 0, dark) of
      Inl _ \<Rightarrow> False
    | Inr (co', v') \<Rightarrow> dc_c (v' (0x5c000 + 60 * 80)) = of_char CHR ''A'' \<and> \<not> con_ok co')"
proof
  show "0x5c000 + 60 * 80 \<in> window (fresh_console 2 0 0)"
    by (simp add: window_def fresh_console_def CONSOLE_DISP_ADDR_def CONSOLE_COL_MAX_def CONSOLE_ROW_MAX_def)
  show "case console_puts (ASCII_ESC # map of_char ''[60;0HA'') (fresh_console 0 0 0, dark) of
      Inl _ \<Rightarrow> False
    | Inr (co', v') \<Rightarrow> dc_c (v' (0x5c000 + 60 * 80)) = of_char CHR ''A'' \<and> \<not> con_ok co'"
    by code_simp
qed

end
