(* ===== verification/Tty.thy ===== *)
theory Tty
  imports Sync Console
begin

text \<open>
  The terminals of src/src/kernel/dev/tty/tty.c with the parts of console.c and kbd.c that use the
  terminals, the semaphores and the ports.  A terminal has an input and an output ring buffer; the
  array behind a ring buffer (\<open>ibuf\<close>, \<open>obuf\<close>), which only the ring buffer uses, is its \<open>ff_buf\<close>.

  \<open>fifo_rel f q\<close>: the ring buffer \<open>f\<close> holds the sequence \<open>q\<close>; the locale \<open>bounded_queue\<close> is its
  contract.  The loop of \<open>console_write\<close>, which ends when the output buffer is empty, has as much
  fuel as the buffer holds characters plus one: the current task never loses the processor in it,
  because a \<open>sem_notify\<close> of the current task does not switch, so nobody refills the buffer.
\<close>

subsection \<open>Ring buffers\<close>

record tty_fifo_t =
  ff_buf :: "u8 list"
  ff_size :: int
  ff_read :: int
  ff_write :: int
  ff_count :: int

definition tty_fifo_init :: "u8 list \<Rightarrow> int \<Rightarrow> tty_fifo_t" where
  "tty_fifo_init buf sz = \<lparr>ff_buf = buf, ff_size = sz, ff_read = 0, ff_write = 0, ff_count = 0\<rparr>"

text \<open>The result code, the character that was read, and the buffer.  Interrupts are off between the
  check of the count and the end, so the rest of the body is one step.\<close>

definition tty_fifo_get :: "tty_fifo_t \<Rightarrow> (int \<times> u8 option \<times> tty_fifo_t) res" where
  "tty_fifo_get f =
     (if ff_count f \<le> 0 then Inr (-1, None, f)
      else if 0 \<le> ff_read f \<and> ff_read f < int (length (ff_buf f))
      then let c = ff_buf f ! nat (ff_read f);
               f1 = f\<lparr>ff_read := ff_read f + 1\<rparr>;
               f2 = (if ff_read f1 \<ge> ff_size f1 then f1\<lparr>ff_read := 0\<rparr> else f1)
           in Inr (0, Some c, f2\<lparr>ff_count := ff_count f2 - 1\<rparr>)
      else Inl OutOfBounds)"

definition tty_fifo_put :: "u8 \<Rightarrow> tty_fifo_t \<Rightarrow> (int \<times> tty_fifo_t) res" where
  "tty_fifo_put c f =
     (if ff_count f \<ge> ff_size f then Inr (-1, f)
      else if 0 \<le> ff_write f \<and> ff_write f < int (length (ff_buf f))
      then let f1 = f\<lparr>ff_buf := (ff_buf f)[nat (ff_write f) := c], ff_write := ff_write f + 1\<rparr>;
               f2 = (if ff_write f1 \<ge> ff_size f1 then f1\<lparr>ff_write := 0\<rparr> else f1)
           in Inr (0, f2\<lparr>ff_count := ff_count f2 + 1\<rparr>)
      else Inl OutOfBounds)"

subsection \<open>Terminals\<close>

record tty_t =
  ififo :: tty_fifo_t
  ofifo :: tty_fifo_t
  iflags :: u32
  oflags :: u32
  console_idx :: nat

record kbd_state_t =
  caps_lock :: bool
  lshift_press :: bool
  rshift_press :: bool
  ralt_press :: bool
  lalt_press :: bool
  lctrl_press :: bool
  rctrl_press :: bool

datatype recv_state = RECV_NORMAL | BEGIN_E0 | BEGIN_E1

datatype dev_desc = Dev_tty_desc

record device_t =
  dv_desc :: "dev_desc option"
  dv_mode :: int
  dv_minor :: int
  dv_data :: u32
  dv_open_count :: int

record tty_state = sync_state +
  consoles :: "nat \<Rightarrow> console_t"
  display :: vram
  ttys :: "nat \<Rightarrow> tty_t"
  curr_tty :: nat
  kbd_inited :: bool
  kbd_state :: kbd_state_t
  recv_state :: recv_state

definition TTY_OBUF_SIZE :: int where "TTY_OBUF_SIZE = 512"
definition TTY_IBUF_SIZE :: int where "TTY_IBUF_SIZE = 512"
definition TTY_OCRLF :: u32 where "TTY_OCRLF = push_bit 0 1"
definition TTY_INCLR :: u32 where "TTY_INCLR = push_bit 0 1"
definition TTY_IECHO :: u32 where "TTY_IECHO = push_bit 1 1"

definition upd_tty :: "nat \<Rightarrow> (tty_t \<Rightarrow> tty_t) \<Rightarrow> 'a tty_state_scheme \<Rightarrow> 'a tty_state_scheme" where
  "upd_tty i f s = s\<lparr>ttys := (ttys s)(i := f (ttys s i))\<rparr>"

definition set_console :: "nat \<Rightarrow> console_t \<Rightarrow> 'a tty_state_scheme \<Rightarrow> 'a tty_state_scheme" where
  "set_console i co s = s\<lparr>consoles := (consoles s)(i := co)\<rparr>"

definition set_screen :: "nat \<Rightarrow> console_t \<times> vram \<Rightarrow> 'a tty_state_scheme \<Rightarrow> 'a tty_state_scheme" where
  "set_screen i = (\<lambda>(co, v) s. (set_console i co s)\<lparr>display := v\<rparr>)"

subsection \<open>The console and the hardware cursor\<close>

definition read_cursor_pos :: "'a tty_state_scheme \<Rightarrow> int \<times> 'a tty_state_scheme" where
  "read_cursor_pos s =
     (let (st, s1) = irq_enter_proection s;
          s2 = outb 0x3D4 0x0F s1;
          (lo, s3) = inb 0x3D5 s2;
          s4 = outb 0x3D4 0x0E s3;
          (hi, s5) = inb 0x3D5 s4
      in (uint lo OR push_bit 8 (uint hi), irq_leave_proection st s5))"

definition update_cursor_pos :: "nat \<Rightarrow> 'a tty_state_scheme \<Rightarrow> 'a tty_state_scheme" where
  "update_cursor_pos i s =
     (let co = consoles s i;
          pos = (of_int (int i * (display_cols co * display_rows co)) :: u16)
              + of_int (cursor_row co * display_cols co + cursor_col co);
          (st, s1) = irq_enter_proection s;
          s2 = outb 0x3D4 0x0F s1;
          s3 = outb 0x3D5 (ucast (pos AND 0xFF)) s2;
          s4 = outb 0x3D4 0x0E s3;
          s5 = outb 0x3D5 (ucast (drop_bit 8 pos AND 0xFF)) s4
      in irq_leave_proection st s5)"

definition console_init :: "nat \<Rightarrow> 'a tty_state_scheme \<Rightarrow> 'a tty_state_scheme" where
  "console_init idx s =
     (let co = (consoles s idx)\<lparr>cursor_row := 0, cursor_col := 0, display_cols := CONSOLE_COL_MAX,
                 display_rows := CONSOLE_ROW_MAX,
                 disp_base := CONSOLE_DISP_ADDR + int idx * (CONSOLE_COL_MAX * CONSOLE_ROW_MAX),
                 foreground := COLOR_White, background := COLOR_Black\<rparr>;
          s1 = (if idx = 0
                then let (pos, t) = read_cursor_pos (set_console idx co s)
                     in set_console idx (co\<lparr>cursor_row := pos div display_cols co,
                                            cursor_col := pos mod display_cols co\<rparr>) t
                else update_cursor_pos idx
                       (set_screen idx (clear_display (co\<lparr>cursor_row := 0, cursor_col := 0\<rparr>, display s)) s));
          co1 = consoles s1 idx;
          s2 = set_console idx (co1\<lparr>old_cursor_col := cursor_col co1, old_cursor_row := cursor_row co1,
                                    write_state := CONSOLE_WRITE_NOMAL\<rparr>) s1
      in mutex_init (Console_mutex idx) s2)"

definition console_select :: "nat \<Rightarrow> 'a tty_state_scheme \<Rightarrow> 'a tty_state_scheme" where
  "console_select idx s =
     (let s1 = (if disp_base (consoles s idx) = 0 then console_init idx s else s);
          co = consoles s1 idx;
          pos = (of_int (int idx * display_cols co * display_rows co) :: u16);
          s2 = outb 0x3D4 0xC s1;
          s3 = outb 0x3D5 (ucast (drop_bit 8 pos AND 0xFF)) s2;
          s4 = outb 0x3D4 0xD s3;
          s5 = outb 0x3D5 (ucast (pos AND 0xFF)) s4
      in update_cursor_pos idx s5)"

fun console_write_loop :: "nat \<Rightarrow> nat \<Rightarrow> int \<Rightarrow> 'a tty_state_scheme \<Rightarrow> ('a tty_state_scheme, int) outcome" where
  "console_write_loop 0 tty len s = Fault Diverges"
| "console_write_loop (Suc fuel) tty len s =
     (case tty_fifo_get (ofifo (ttys s tty)) of
        Inl e \<Rightarrow> Fault e
      | Inr (err, ch, f) \<Rightarrow>
          if err < 0 then Done len s
          else kbind (sem_notify (Osem tty) (upd_tty tty (\<lambda>t. t\<lparr>ofifo := f\<rparr>) s)) (\<lambda>_ s2.
               let idx = console_idx (ttys s tty)
               in case ch of
                    None \<Rightarrow> Fault Uninitialised
                  | Some c \<Rightarrow>
                      (case console_put c (consoles s2 idx, display s2) of
                         Inl e \<Rightarrow> Fault e
                       | Inr sc \<Rightarrow> console_write_loop fuel tty (len + 1) (set_screen idx sc s2))))"

definition console_write :: "nat \<Rightarrow> 'a tty_state_scheme \<Rightarrow> ('a tty_state_scheme, int) outcome" where
  "console_write tty s =
     (let idx = console_idx (ttys s tty)
      in kbind (mutex_lock (Console_mutex idx) s) (\<lambda>_ s1.
         kbind (console_write_loop (Suc (nat (ff_count (ofifo (ttys s1 tty))))) tty 0 s1) (\<lambda>len s2.
         kbind (mutex_unlock (Console_mutex idx) s2) (\<lambda>_ s3.
         Done len (update_cursor_pos idx s3)))))"

subsection \<open>Terminal operations\<close>

definition get_tty :: "device_t \<Rightarrow> 'a tty_state_scheme \<Rightarrow> nat option \<times> 'a tty_state_scheme" where
  "get_tty dev s =
     (if dv_minor dev < 0 \<or> dv_minor dev \<ge> 8 \<or> dv_open_count dev = 0
      then (None, log_line ''tty is not opened'' [] s)
      else (Some (nat (dv_minor dev)), s))"

definition kbd_init :: "(isr \<Rightarrow> u32) \<Rightarrow> 'a tty_state_scheme \<Rightarrow> 'a tty_state_scheme res" where
  "kbd_init link s =
     (if \<not> kbd_inited s
      then res_bind (irq_install 0x21 (link Isr_kbd) s) (\<lambda>(_, s1).
             Inr ((irq_enable 0x21 s1)\<lparr>kbd_inited := True\<rparr>))
      else Inr s)"

definition tty_open :: "(isr \<Rightarrow> u32) \<Rightarrow> device_t \<Rightarrow> 'a tty_state_scheme \<Rightarrow> (int \<times> 'a tty_state_scheme) res" where
  "tty_open link dev s =
     (if dv_minor dev < 0 \<or> dv_minor dev \<ge> 8 then Inr (-1, log_line ''open tty error'' [] s)
      else let i = nat (dv_minor dev);
               s1 = upd_tty i (\<lambda>t. t\<lparr>ififo := tty_fifo_init (ff_buf (ififo t)) TTY_IBUF_SIZE,
                                      ofifo := tty_fifo_init (ff_buf (ofifo t)) TTY_OBUF_SIZE\<rparr>) s;
               s2 = sem_init (Isem i) 0 (sem_init (Osem i) TTY_OBUF_SIZE s1);
               s3 = upd_tty i (\<lambda>t. t\<lparr>oflags := TTY_OCRLF, iflags := TTY_IECHO, console_idx := i\<rparr>) s2
           in res_bind (kbd_init link s3) (\<lambda>s4. Inr (0, console_init i s4)))"

text \<open>Waiting for room and storing one character.\<close>

definition tty_out_char :: "nat \<Rightarrow> u8 \<Rightarrow> 'a tty_state_scheme \<Rightarrow> ('a tty_state_scheme, int) outcome" where
  "tty_out_char tty c s =
     kbind (sem_wait (Osem tty) s) (\<lambda>_ s1.
       case tty_fifo_put c (ofifo (ttys s1 tty)) of
         Inl e \<Rightarrow> Fault e
       | Inr (err, f) \<Rightarrow> Done err (upd_tty tty (\<lambda>t. t\<lparr>ofifo := f\<rparr>) s1))"

fun tty_write_loop :: "nat \<Rightarrow> nat \<Rightarrow> u8 list \<Rightarrow> int \<Rightarrow> 'a tty_state_scheme \<Rightarrow> ('a tty_state_scheme, int) outcome" where
  "tty_write_loop tty 0 buf len s = Done len s"
| "tty_write_loop tty (Suc sz) [] len s = Fault OutOfBounds"
| "tty_write_loop tty (Suc sz) (c # buf) len s =
     kbind (if c = 0x0a \<and> oflags (ttys s tty) AND TTY_OCRLF \<noteq> 0 then tty_out_char tty 0x0d s else Done 0 s)
       (\<lambda>err s1.
          if err < 0 then Done len s1
          else kbind (tty_out_char tty c s1) (\<lambda>err s2.
               if err < 0 then Done len s2
               else kbind (console_write tty s2) (\<lambda>_ s3. tty_write_loop tty sz buf (len + 1) s3)))"

definition tty_write :: "device_t \<Rightarrow> int \<Rightarrow> u8 list \<Rightarrow> int \<Rightarrow> 'a tty_state_scheme \<Rightarrow> ('a tty_state_scheme, int) outcome" where
  "tty_write dev addr buf sz s =
     (if sz < 0 then Done (-1) s
      else case get_tty dev s of
             (None, s1) \<Rightarrow> Done (-1) s1
           | (Some tty, s1) \<Rightarrow> tty_write_loop tty (nat sz) buf 0 s1)"

text \<open>Each round of \<open>tty_read\<close> stores at least one character, so \<open>size\<close> rounds are enough.  The bytes
  stored in the caller's buffer are part of the result.\<close>

fun tty_read_loop ::
  "nat \<Rightarrow> device_t \<Rightarrow> nat \<Rightarrow> int \<Rightarrow> u8 list \<Rightarrow> 'a tty_state_scheme \<Rightarrow> ('a tty_state_scheme, int \<times> u8 list) outcome" where
  "tty_read_loop 0 dev tty sz got s = Done (int (length got), got) s"
| "tty_read_loop (Suc fuel) dev tty sz got s =
     (if int (length got) < sz
      then kbind (sem_wait (Isem tty) s) (\<lambda>_ s1.
             case tty_fifo_get (ififo (ttys s1 tty)) of
               Inl e \<Rightarrow> Fault e
             | Inr (_, None, _) \<Rightarrow> Fault Uninitialised
             | Inr (_, Some ch, f) \<Rightarrow>
                 let s2 = upd_tty tty (\<lambda>t. t\<lparr>ififo := f\<rparr>) s1;
                     got1 = (if ch = 0x0a
                             then (if iflags (ttys s2 tty) AND TTY_INCLR \<noteq> 0 \<and> int (length got) < sz - 1
                                   then got @ [0x0d, 0x0a] else got @ [0x0a])
                             else got @ [ch])
                 in kbind (if iflags (ttys s2 tty) AND TTY_IECHO \<noteq> 0
                           then kbind (tty_write dev 0 [ch] 1 s2) (\<lambda>_. Done ()) else Done () s2)
                      (\<lambda>_ s3. if ch = 0x0a \<or> ch = 0x0d then Done (int (length got1), got1) s3
                               else tty_read_loop fuel dev tty sz got1 s3))
      else Done (int (length got), got) s)"

definition tty_read :: "device_t \<Rightarrow> int \<Rightarrow> int \<Rightarrow> 'a tty_state_scheme \<Rightarrow> ('a tty_state_scheme, int \<times> u8 list) outcome" where
  "tty_read dev addr sz s =
     (if sz < 0 then Done (-1, []) s
      else case get_tty dev s of
             (None, s1) \<Rightarrow> if 0 < sz then Fault NullDeref else Done (0, []) s1
           | (Some tty, s1) \<Rightarrow> tty_read_loop (nat sz) dev tty sz [] s1)"

definition tty_control :: "device_t \<Rightarrow> int \<Rightarrow> int \<Rightarrow> int \<Rightarrow> int" where
  "tty_control dev cmd arg0 arg1 = 0"

text \<open>\<open>tty_close\<close> has no return statement.\<close>

definition tty_close :: "device_t \<Rightarrow> unit" where
  "tty_close dev = ()"

definition tty_in :: "u8 \<Rightarrow> 'a tty_state_scheme \<Rightarrow> ('a tty_state_scheme, unit) outcome" where
  "tty_in ch s =
     (let tty = curr_tty s;
          (n, s1) = sem_count (Isem tty) s
      in if n \<ge> TTY_IBUF_SIZE then Done () s1
         else case tty_fifo_put ch (ififo (ttys s1 tty)) of
                Inl e \<Rightarrow> Fault e
              | Inr (_, f) \<Rightarrow> sem_notify (Isem tty) (upd_tty tty (\<lambda>t. t\<lparr>ififo := f\<rparr>) s1))"

definition tty_select :: "nat \<Rightarrow> 'a tty_state_scheme \<Rightarrow> 'a tty_state_scheme" where
  "tty_select tty s = (if tty \<noteq> curr_tty s then (console_select tty s)\<lparr>curr_tty := tty\<rparr> else s)"

end
