(* ===== verification/Tty_Fifo_Laws.thy ===== *)
theory Tty_Fifo_Laws
  imports Tty
begin

text \<open>
  The ring buffer of a terminal implements a bounded queue.  \<open>bounded_queue\<close> is the contract; its
  lemma says that any sequence of insertions and removals gives the results of the abstract queue.
\<close>

datatype 'e qop = Qput 'e | Qget

text \<open>The abstract queue of capacity \<open>cap\<close>: result code and character of each operation.\<close>

fun qspec :: "nat \<Rightarrow> 'e qop list \<Rightarrow> 'e list \<Rightarrow> (int \<times> 'e option) list \<times> 'e list" where
  "qspec cap [] q = ([], q)"
| "qspec cap (Qput x # ops) q =
     (if length q < cap then let (rs, q') = qspec cap ops (q @ [x]) in ((0, None) # rs, q')
      else let (rs, q') = qspec cap ops q in ((-1, None) # rs, q'))"
| "qspec cap (Qget # ops) q =
     (case q of [] \<Rightarrow> let (rs, q') = qspec cap ops [] in ((-1, None) # rs, q')
      | x # xs \<Rightarrow> let (rs, q') = qspec cap ops xs in ((0, Some x) # rs, q'))"

fun qrun ::
  "('e \<Rightarrow> 'f \<Rightarrow> (int \<times> 'f) res) \<Rightarrow> ('f \<Rightarrow> (int \<times> 'e option \<times> 'f) res) \<Rightarrow> 'e qop list \<Rightarrow> 'f \<Rightarrow>
   ((int \<times> 'e option) list \<times> 'f) res" where
  "qrun put get [] f = Inr ([], f)"
| "qrun put get (Qput x # ops) f =
     res_bind (put x f) (\<lambda>(e, f1). res_bind (qrun put get ops f1) (\<lambda>(rs, f2). Inr ((e, None) # rs, f2)))"
| "qrun put get (Qget # ops) f =
     res_bind (get f) (\<lambda>(e, c, f1). res_bind (qrun put get ops f1) (\<lambda>(rs, f2). Inr ((e, c) # rs, f2)))"

locale bounded_queue =
  fixes rep :: "'f \<Rightarrow> 'e list \<Rightarrow> bool"
    and cap :: "'f \<Rightarrow> nat"
    and put :: "'e \<Rightarrow> 'f \<Rightarrow> (int \<times> 'f) res"
    and get :: "'f \<Rightarrow> (int \<times> 'e option \<times> 'f) res"
  assumes rep_cap: "rep f q \<Longrightarrow> length q \<le> cap f"
    and put_room: "rep f q \<Longrightarrow> length q < cap f \<Longrightarrow> \<exists>f'. put x f = Inr (0, f') \<and> rep f' (q @ [x]) \<and> cap f' = cap f"
    and put_full: "rep f q \<Longrightarrow> length q = cap f \<Longrightarrow> put x f = Inr (-1, f)"
    and get_some: "rep f (x # q) \<Longrightarrow> \<exists>f'. get f = Inr (0, Some x, f') \<and> rep f' q \<and> cap f' = cap f"
    and get_none: "rep f [] \<Longrightarrow> get f = Inr (-1, None, f)"
begin

lemma run_spec:
  "rep f q \<Longrightarrow> \<exists>f'. qrun put get ops f = Inr (fst (qspec (cap f) ops q), f') \<and>
     rep f' (snd (qspec (cap f) ops q)) \<and> cap f' = cap f"
proof (induction "cap f" ops q arbitrary: f rule: qspec.induct)
  case (1 q)
  then show ?case by simp
next
  case (2 x ops q)
  show ?case
  proof (cases "length q < cap f")
    case True
    obtain f1 where f1: "put x f = Inr (0, f1)" "rep f1 (q @ [x])" "cap f1 = cap f"
      using put_room [OF 2(3) True] by blast
    obtain f2 where "qrun put get ops f1 = Inr (fst (qspec (cap f1) ops (q @ [x])), f2)"
      "rep f2 (snd (qspec (cap f1) ops (q @ [x])))" "cap f2 = cap f1"
      using 2(1) [OF True f1(3) [symmetric] f1(2)] f1(3) by auto
    with True f1 show ?thesis by (simp add: Let_def split_def)
  next
    case False
    with rep_cap [OF 2(3)] have "put x f = Inr (-1, f)" by (intro put_full [OF 2(3)]) simp
    with 2(2) [OF False refl 2(3)] False show ?thesis by (auto simp: Let_def split_def)
  qed
next
  case (3 ops q)
  show ?case
  proof (cases q)
    case Nil
    with 3 have "get f = Inr (-1, None, f)" using get_none by simp
    with 3(1) [OF Nil refl] 3(3) Nil show ?thesis by (auto simp: Let_def split_def)
  next
    case (Cons x xs)
    obtain f1 where f1: "get f = Inr (0, Some x, f1)" "rep f1 xs" "cap f1 = cap f"
      using get_some [of f x xs] 3(3) Cons by blast
    with 3(2) [OF Cons f1(3) [symmetric] f1(2)] Cons show ?thesis by (auto simp: Let_def split_def)
  qed
qed

end

definition fifo_rel :: "tty_fifo_t \<Rightarrow> u8 list \<Rightarrow> bool" where
  "fifo_rel f q \<longleftrightarrow>
     ff_size f = int (length (ff_buf f)) \<and> 0 \<le> ff_read f \<and> ff_read f < ff_size f \<and>
     ff_count f = int (length q) \<and> ff_count f \<le> ff_size f \<and>
     ff_write f = (ff_read f + ff_count f) mod ff_size f \<and>
     (\<forall>i < length q. ff_buf f ! nat ((ff_read f + int i) mod ff_size f) = q ! i)"

definition fifo_cap :: "tty_fifo_t \<Rightarrow> nat" where
  "fifo_cap f = nat (ff_size f)"

lemma fifo_rel_init: "buf \<noteq> [] \<Longrightarrow> fifo_rel (tty_fifo_init buf (int (length buf))) []"
  by (simp add: fifo_rel_def tty_fifo_init_def)

lemma ring_succ: "0 \<le> k \<Longrightarrow> k < n \<Longrightarrow> (if k + 1 \<ge> n then 0 else k + 1) = (k + 1) mod (n :: int)"
  by (cases "k + 1 = n") auto

lemma ring_inj:
  assumes "0 \<le> (r :: int)" "i < n" "j < n" "(r + int i) mod int n = (r + int j) mod int n"
  shows "i = j"
proof -
  have "(int i) mod int n = (int j) mod int n"
    using assms(4) by (metis add_diff_cancel_left' mod_diff_left_eq)
  with assms(2,3) show ?thesis by simp
qed

lemma fifo_put_room:
  assumes "fifo_rel f q" "length q < fifo_cap f"
  shows "\<exists>f'. tty_fifo_put x f = Inr (0, f') \<and> fifo_rel f' (q @ [x]) \<and> fifo_cap f' = fifo_cap f"
proof -
  define n where "n = length (ff_buf f)"
  have sz: "ff_size f = int n" "0 \<le> ff_read f" "ff_read f < int n" "ff_count f = int (length q)"
    and w: "ff_write f = (ff_read f + int (length q)) mod int n"
    and el: "\<forall>i < length q. ff_buf f ! nat ((ff_read f + int i) mod int n) = q ! i"
    using assms(1) by (auto simp: fifo_rel_def n_def)
  have lt: "length q < n" using assms(2) sz by (simp add: fifo_cap_def)
  have wb: "0 \<le> ff_write f" "ff_write f < int n" using w sz(2,3) by simp_all
  let ?w = "(ff_write f + 1) mod int n"
  let ?f = "f\<lparr>ff_buf := (ff_buf f)[nat (ff_write f) := x], ff_write := ?w, ff_count := int (Suc (length q))\<rparr>"
  have "tty_fifo_put x f = Inr (0, ?f)"
    using lt sz wb ring_succ [OF wb] by (auto simp: tty_fifo_put_def Let_def n_def [symmetric])
  moreover have "fifo_rel ?f (q @ [x])"
  proof -
    have "?w = (ff_read f + int (Suc (length q))) mod int n"
      unfolding w by (simp add: mod_simps algebra_simps)
    moreover have "(ff_buf f)[nat (ff_write f) := x] ! nat ((ff_read f + int i) mod int n) = (q @ [x]) ! i"
      if "i < Suc (length q)" for i
    proof (cases "i = length q")
      case True
      with w wb show ?thesis by (simp add: n_def)
    next
      case False
      with that have i: "i < length q" by simp
      have "(ff_read f + int i) mod int n \<noteq> ff_write f"
        using ring_inj [OF sz(2), of i n "length q"] w lt i by auto
      moreover have "0 \<le> (ff_read f + int i) mod int n" using lt by simp
      ultimately have "nat ((ff_read f + int i) mod int n) \<noteq> nat (ff_write f)" using wb(1) by (simp add: eq_nat_nat_iff)
      with el i show ?thesis by (simp add: nth_append)
    qed
    ultimately show ?thesis using sz lt by (simp add: fifo_rel_def n_def [symmetric])
  qed
  ultimately show ?thesis using sz by (simp add: fifo_cap_def)
qed

lemma fifo_get_some:
  assumes "fifo_rel f (x # q)"
  shows "\<exists>f'. tty_fifo_get f = Inr (0, Some x, f') \<and> fifo_rel f' q \<and> fifo_cap f' = fifo_cap f"
proof -
  define n where "n = length (ff_buf f)"
  have sz: "ff_size f = int n" "0 \<le> ff_read f" "ff_read f < int n" "ff_count f = int (Suc (length q))" "length q < n"
    and w: "ff_write f = (ff_read f + int (Suc (length q))) mod int n"
    and el: "\<forall>i < Suc (length q). ff_buf f ! nat ((ff_read f + int i) mod int n) = (x # q) ! i"
    using assms by (auto simp: fifo_rel_def n_def)
  let ?r = "(ff_read f + 1) mod int n"
  let ?f = "f\<lparr>ff_read := ?r, ff_count := int (length q)\<rparr>"
  have "ff_buf f ! nat (ff_read f) = x" using el sz(2,3) by (auto dest: spec [of _ 0])
  then have "tty_fifo_get f = Inr (0, Some x, ?f)"
    using sz ring_succ [OF sz(2,3)] by (auto simp: tty_fifo_get_def Let_def n_def [symmetric])
  moreover have "fifo_rel ?f q"
  proof -
    have "(?r + int i) mod int n = (ff_read f + int (Suc i)) mod int n" for i
      by (simp add: mod_add_left_eq add.assoc)
    moreover have "ff_buf f ! nat ((ff_read f + int (Suc i)) mod int n) = q ! i" if "i < length q" for i
      using el that by (auto dest: spec [of _ "Suc i"])
    ultimately show ?thesis using sz w by (simp add: fifo_rel_def n_def [symmetric])
  qed
  ultimately show ?thesis by (simp add: fifo_cap_def)
qed

interpretation fifo: bounded_queue fifo_rel fifo_cap tty_fifo_put tty_fifo_get
proof (unfold_locales, goal_cases)
  case (1 f q)
  then show ?case by (auto simp: fifo_rel_def fifo_cap_def)
next
  case (2 f q x)
  then show ?case by (rule fifo_put_room)
next
  case (3 f q x)
  then show ?case by (auto simp: fifo_rel_def fifo_cap_def tty_fifo_put_def)
next
  case (4 f x q)
  then show ?case by (rule fifo_get_some)
next
  case (5 f)
  then show ?case by (auto simp: fifo_rel_def tty_fifo_get_def)
qed

text \<open>
  C32: a terminal's ring buffer is a bounded queue.  From a freshly initialised buffer of \<open>n\<close> bytes,
  any sequence of \<open>tty_fifo_put\<close> and \<open>tty_fifo_get\<close> returns exactly the codes and characters of an
  abstract queue of capacity \<open>n\<close>: nothing is lost, duplicated or reordered, a full buffer refuses
  and an empty one reports it, however often the indices wrap.
\<close>

theorem tty_fifo_refines_queue:
  assumes "buf \<noteq> []"
  shows "\<exists>f'. qrun tty_fifo_put tty_fifo_get ops (tty_fifo_init buf (int (length buf))) =
           Inr (fst (qspec (length buf) ops []), f') \<and> fifo_rel f' (snd (qspec (length buf) ops []))"
  using fifo.run_spec [OF fifo_rel_init [OF assms], of ops]
  by (auto simp: fifo_cap_def tty_fifo_init_def)

theorem tty_fifo_refines_queue_witness:
  "\<exists>f'. qrun tty_fifo_put tty_fifo_get [Qput 7, Qput 8, Qput 9, Qget, Qput 9, Qget, Qget, Qget]
     (tty_fifo_init [0, 0] 2) =
     Inr ([(0, None), (0, None), (-1, None), (0, Some 7), (0, None), (0, Some 8), (0, Some 9), (-1, None)], f')"
  using tty_fifo_refines_queue [of "[0, 0]" "[Qput 7, Qput 8, Qput 9, Qget, Qput 9, Qget, Qget, Qget]"]
  by auto

end
