(* ===== verification/Tty_Laws.thy ===== *)
theory Tty_Laws
  imports Tty_Fifo_Laws Kernel_Properties
begin

text \<open>
  What the terminal operations do for the current task: \<open>tty_write\<close> sends its characters through
  the output buffer, the semaphore and the console and leaves all of them as it found them, and
  \<open>tty_in\<close> delivers a character to the input buffer and to a waiting reader.
\<close>

definition same_kernel :: "'a tty_state_scheme \<Rightarrow> 'a tty_state_scheme \<Rightarrow> bool" where
  "same_kernel s s' \<longleftrightarrow> nodes s' = nodes s \<and> ready_list s' = ready_list s \<and> sleep_list s' = sleep_list s \<and>
     curr_task s' = curr_task s \<and> mutexes s' = mutexes s \<and> sems s' = sems s \<and> eflags s' = eflags s"

lemma same_kernel_refl [simp]: "same_kernel s s"
  by (simp add: same_kernel_def)

lemma same_kernel_trans: "same_kernel s s' \<Longrightarrow> same_kernel s' s'' \<Longrightarrow> same_kernel s s''"
  by (simp add: same_kernel_def)

lemma kinv_same:
  assumes "nodes s' = nodes s" "ready_list s' = ready_list s" "sleep_list s' = sleep_list s"
    "curr_task s' = curr_task s" "mutexes s' = mutexes s" "sems s' = sems s"
  shows "kinv s' rs ss W = kinv s rs ss W"
proof -
  have "sync_rel s' rs ss W = sync_rel s rs ss W"
    by (rule sync_rel_cong [OF assms(1-3) wait_list_cong [OF assms(5,6)]])
  then show ?thesis using assms by (simp add: kinv_def dispatched_def mutex_inv_def sem_inv_def)
qed

lemma same_kernel_kinv: "same_kernel s s' \<Longrightarrow> kinv s' rs ss W = kinv s rs ss W"
  by (rule kinv_same) (simp_all add: same_kernel_def)

lemma outb_sel [simp]:
  "nodes (outb p v s) = nodes s" "ready_list (outb p v s) = ready_list s" "sleep_list (outb p v s) = sleep_list s"
  "curr_task (outb p v s) = curr_task s" "mutexes (outb p v s) = mutexes s" "sems (outb p v s) = sems s"
  "eflags (outb p v s) = eflags s" "ttys (outb p v s) = ttys s" "consoles (outb p v s) = consoles s"
  "display (outb p v s) = display s"
  by (simp_all add: outb_def)

lemma irq_tty_sel [simp]:
  "ttys (irq_disable_global s) = ttys s" "consoles (irq_disable_global s) = consoles s"
  "display (irq_disable_global s) = display s" "ttys (irq_leave_proection st s) = ttys s"
  "consoles (irq_leave_proection st s) = consoles s" "display (irq_leave_proection st s) = display s"
  by (simp_all add: irq_disable_global_def irq_leave_proection_def)

lemma update_cursor_same [simp]:
  "same_kernel s (update_cursor_pos i s)" "ttys (update_cursor_pos i s) = ttys s"
  "consoles (update_cursor_pos i s) = consoles s" "display (update_cursor_pos i s) = display s"
  by (simp_all add: update_cursor_pos_def Let_def same_kernel_def)

lemma upd_tty_sel [simp]:
  "nodes (upd_tty i f s) = nodes s" "ready_list (upd_tty i f s) = ready_list s"
  "sleep_list (upd_tty i f s) = sleep_list s" "curr_task (upd_tty i f s) = curr_task s"
  "mutexes (upd_tty i f s) = mutexes s" "sems (upd_tty i f s) = sems s" "eflags (upd_tty i f s) = eflags s"
  "consoles (upd_tty i f s) = consoles s" "display (upd_tty i f s) = display s"
  "ttys (upd_tty i f s) = (ttys s)(i := f (ttys s i))" "curr_tty (upd_tty i f s) = curr_tty s"
  by (simp_all add: upd_tty_def)

lemma set_screen_sel [simp]:
  "nodes (set_screen j sc s) = nodes s" "ready_list (set_screen j sc s) = ready_list s"
  "sleep_list (set_screen j sc s) = sleep_list s" "curr_task (set_screen j sc s) = curr_task s"
  "mutexes (set_screen j sc s) = mutexes s" "sems (set_screen j sc s) = sems s" "eflags (set_screen j sc s) = eflags s"
  "consoles (set_screen j sc s) = (consoles s)(j := fst sc)" "display (set_screen j sc s) = snd sc"
  "ttys (set_screen j sc s) = ttys s"
  by (cases sc; simp add: set_screen_def set_console_def)+

lemma sync_tty_sel [simp]:
  "ttys (upd_sem k g s) = ttys s" "consoles (upd_sem k g s) = consoles s" "display (upd_sem k g s) = display s"
  "ttys (upd_mutex m h s) = ttys s" "consoles (upd_mutex m h s) = consoles s" "display (upd_mutex m h s) = display s"
  by (simp_all add: upd_sem_def upd_mutex_def)

lemma tty_wait_list [simp]:
  "wait_list (upd_tty i f s) = wait_list s" "wait_list (set_screen j sc s) = wait_list s"
  by (rule wait_list_cong, simp, simp)+

lemma console_puts_append: "console_puts (xs @ ys) sc = res_bind (console_puts xs sc) (console_puts ys)"
  by (induction xs arbitrary: sc) (auto simp: res_bind_def split: sum.splits)

subsection \<open>Output\<close>

abbreviation sem_add :: "sem_id \<Rightarrow> int \<Rightarrow> 'a sync_state_scheme \<Rightarrow> 'a sync_state_scheme" where
  "sem_add i n \<equiv> upd_sem i (\<lambda>x. x\<lparr>sm_count := sm_count x + n\<rparr>)"

lemma tty_out_char_room:
  assumes "sm_count (sems s (Osem i)) > 0" "fifo_rel (ofifo (ttys s i)) q" "length q < fifo_cap (ofifo (ttys s i))"
  shows "\<exists>f. tty_out_char i c s = Done 0 (upd_tty i (\<lambda>t. t\<lparr>ofifo := f\<rparr>) (sem_add (Osem i) (-1) s)) \<and>
           fifo_rel f (q @ [c]) \<and> fifo_cap f = fifo_cap (ofifo (ttys s i))"
proof -
  obtain f where f: "tty_fifo_put c (ofifo (ttys s i)) = Inr (0, f)" "fifo_rel f (q @ [c])"
    "fifo_cap f = fifo_cap (ofifo (ttys s i))"
    using fifo.put_room [OF assms(2,3)] by blast
  then show ?thesis
    using sem_wait_take [OF assms(1)] by (intro exI [of _ f]) (simp add: tty_out_char_def)
qed

text \<open>\<open>drained i j n sc s s'\<close>: \<open>s'\<close> is \<open>s\<close> after terminal \<open>i\<close> has sent its \<open>n\<close> buffered characters to
  console \<open>j\<close>, which leaves the screen \<open>sc\<close>.\<close>

definition drained :: "nat \<Rightarrow> nat \<Rightarrow> nat \<Rightarrow> console_t \<times> vram \<Rightarrow> 'a tty_state_scheme \<Rightarrow> 'a tty_state_scheme \<Rightarrow> bool" where
  "drained i j n sc s s' \<longleftrightarrow>
     nodes s' = nodes s \<and> ready_list s' = ready_list s \<and> sleep_list s' = sleep_list s \<and> curr_task s' = curr_task s \<and>
     mutexes s' = mutexes s \<and> eflags s' = eflags s \<and>
     sems s' = (sems s)(Osem i := (sems s (Osem i))\<lparr>sm_count := sm_count (sems s (Osem i)) + int n\<rparr>) \<and>
     consoles s' = (consoles s)(j := fst sc) \<and> display s' = snd sc \<and>
     (\<exists>f. ttys s' = (ttys s)(i := (ttys s i)\<lparr>ofifo := f\<rparr>) \<and> fifo_rel f [] \<and> fifo_cap f = fifo_cap (ofifo (ttys s i)))"

lemma drained_step:
  assumes "drained i j n sc (set_screen j sc1 (sem_add (Osem i) 1 (upd_tty i (\<lambda>t. t\<lparr>ofifo := f\<rparr>) s))) s'"
    and "fifo_cap f = fifo_cap (ofifo (ttys s i))"
  shows "drained i j (Suc n) sc s s'"
proof -
  have e: "sm_count x + (1 + k) = sm_count x + 1 + k" for x :: sem_t and k :: int by simp
  from assms show ?thesis by (auto simp: drained_def e fun_upd_upd)
qed

lemma console_write_loop_drains:
  assumes "fifo_rel (ofifo (ttys s i)) q" "console_puts q (consoles s j, display s) = Inr sc"
    and "sync_rel s rs ss W" "W (SQ (Osem i)) = []" "console_idx (ttys s i) = j" "length q < fuel"
  shows "\<exists>s'. console_write_loop fuel i len s = Done (len + int (length q)) s' \<and> drained i j (length q) sc s s'"
  using assms
proof (induction q arbitrary: s fuel len)
  case Nil
  then obtain k where k: "fuel = Suc k" by (cases fuel) auto
  have "tty_fifo_get (ofifo (ttys s i)) = Inr (-1, None, ofifo (ttys s i))"
    using fifo.get_none Nil.prems(1) by blast
  with k Nil.prems show ?case
    by (intro exI [of _ s]) (auto simp: drained_def intro: exI [of _ "ofifo (ttys s i)"])
next
  case (Cons c q)
  then obtain k where k: "fuel = Suc k" "length q < k" by (cases fuel) auto
  obtain f where f: "tty_fifo_get (ofifo (ttys s i)) = Inr (0, Some c, f)" "fifo_rel f q"
    "fifo_cap f = fifo_cap (ofifo (ttys s i))"
    using fifo.get_some [OF Cons.prems(1)] by blast
  obtain sc1 where sc1: "console_put c (consoles s j, display s) = Inr sc1" "console_puts q sc1 = Inr sc"
    using Cons.prems(2) by (auto simp: res_bind_eq_Inr)
  let ?s1 = "upd_tty i (\<lambda>t. t\<lparr>ofifo := f\<rparr>) s"
  have r1: "sync_rel ?s1 rs ss W"
    using Cons.prems(3) by (subst sync_rel_cong [of ?s1 s]) simp_all
  have n: "sem_notify (Osem i) ?s1 = Done () (sem_add (Osem i) 1 ?s1)"
    by (rule sem_notify_none [OF r1 Cons.prems(4)])
  let ?s2 = "set_screen j sc1 (sem_add (Osem i) 1 ?s1)"
  have r2: "sync_rel ?s2 rs ss W"
    using r1 by (subst sync_rel_cong [of ?s2 ?s1]) (auto simp: wait_list_def fun_eq_iff split: wq.split)
  have "fifo_rel (ofifo (ttys ?s2 i)) q" "console_puts q (consoles ?s2 j, display ?s2) = Inr sc"
    "console_idx (ttys ?s2 i) = j"
    using f(2) sc1(2) Cons.prems(5) by simp_all
  from Cons.IH [OF this(1,2) r2 Cons.prems(4) this(3) k(2), of "len + 1"] obtain s' where s':
    "console_write_loop k i (len + 1) ?s2 = Done (len + 1 + int (length q)) s'" "drained i j (length q) sc ?s2 s'"
    by blast
  have "console_write_loop fuel i len s = Done (len + int (length (c # q))) s'"
    using k(1) f(1) n sc1(1) Cons.prems(5) s'(1) by (simp add: Let_def)
  with drained_step [OF s'(2) f(3)] show ?case by auto
qed

text \<open>\<open>tty_ready\<close>: the terminal \<open>i\<close> is open and idle: its output buffer is empty, its semaphore has all
  the room, and nobody holds the mutex of its console.\<close>

definition tty_ready :: "nat \<Rightarrow> 'a tty_state_scheme \<Rightarrow> bool" where
  "tty_ready i s \<longleftrightarrow>
     sm_count (sems s (Osem i)) = TTY_OBUF_SIZE \<and> fifo_rel (ofifo (ttys s i)) [] \<and>
     fifo_cap (ofifo (ttys s i)) = nat TTY_OBUF_SIZE \<and>
     mx_owner (mutexes s (Console_mutex (console_idx (ttys s i)))) = None"

lemma console_write_drains:
  assumes "kinv s (t # rs) ss W" "sm_count (sems s (Osem i)) > 0"
    and "fifo_rel (ofifo (ttys s i)) q" "console_idx (ttys s i) = j"
    and "mx_owner (mutexes s (Console_mutex j)) = None"
    and "console_puts q (consoles s j, display s) = Inr sc"
  shows "\<exists>s'. console_write i s = Done (int (length q)) s' \<and> drained i j (length q) sc s s'"
proof -
  let ?m = "Console_mutex j"
  have r: "sync_rel s (t # rs) ss W" and mi: "mutex_inv s W" and si: "sem_inv s W" and c: "curr_task s = t"
    using assms(1) by (simp_all add: kinv_def dispatched_def)
  have m0: "mx_locked_count (mutexes s ?m) = 0" using mi assms(5) unfolding mutex_inv_def by blast
  have wm: "W (MQ ?m) = []" using mi assms(5) unfolding mutex_inv_def by blast
  have ws: "W (SQ (Osem i)) = []" using si assms(2) by (force simp: sem_inv_def)
  let ?s1 = "upd_mutex ?m (\<lambda>x. x\<lparr>mx_locked_count := 1, mx_owner := Some t\<rparr>) s"
  have l: "mutex_lock ?m s = Done () ?s1" using mutex_lock_free [OF m0] c by simp
  have r1: "sync_rel ?s1 (t # rs) ss W" using r by simp
  have cnt: "ff_count (ofifo (ttys s i)) = int (length q)" using assms(3) by (simp add: fifo_rel_def)
  have "fifo_rel (ofifo (ttys ?s1 i)) q" "console_puts q (consoles ?s1 j, display ?s1) = Inr sc" "console_idx (ttys ?s1 i) = j"
    using assms by simp_all
  from console_write_loop_drains [OF this(1,2) r1 ws this(3), of "Suc (length q)" 0] obtain s2 where 2:
    "console_write_loop (Suc (length q)) i 0 ?s1 = Done (int (length q)) s2" "drained i j (length q) sc ?s1 s2"
    by auto
  have d: "nodes s2 = nodes s" "ready_list s2 = ready_list s" "sleep_list s2 = sleep_list s" "curr_task s2 = curr_task s"
    "mutexes s2 = mutexes ?s1" "sems s2 = (sems s)(Osem i := (sems s (Osem i))\<lparr>sm_count := sm_count (sems s (Osem i)) + int (length q)\<rparr>)"
    using 2(2) by (simp_all add: drained_def)
  have r2: "sync_rel s2 (t # rs) ss W"
    using r1 d by (subst sync_rel_cong [of s2 ?s1]) (auto simp: wait_list_def fun_eq_iff split: wq.split)
  let ?s3 = "upd_mutex ?m (\<lambda>x. x\<lparr>mx_locked_count := 0, mx_owner := None\<rparr>) s2"
  have u: "mutex_unlock ?m s2 = Done () ?s3"
    by (rule mutex_unlock_last [OF r2 wm]) (use d(4,5) c in simp_all)
  have "console_write i s = Done (int (length q)) (update_cursor_pos j ?s3)"
    using l 2(1) u cnt assms(4) by (simp add: console_write_def Let_def del: console_write_loop.simps)
  moreover have "(mutexes s ?m)\<lparr>mx_locked_count := 0, mx_owner := None\<rparr> = mutexes s ?m"
    using m0 assms(5) by (cases "mutexes s ?m") simp
  then have "mutexes ?s3 = mutexes s" using d(5) by (cases "mutexes s ?m") (auto simp: fun_eq_iff)
  then have "drained i j (length q) sc s (update_cursor_pos j ?s3)"
    using 2(2) update_cursor_same(1) [of ?s3 j] by (simp add: same_kernel_def drained_def)
  ultimately show ?thesis by blast
qed

definition crlf :: "tty_t \<Rightarrow> u8 \<Rightarrow> u8 list" where
  "crlf t c = (if c = 0x0a \<and> oflags t AND TTY_OCRLF \<noteq> 0 then [0x0d, c] else [c])"

text \<open>\<open>sent i q s s'\<close>: \<open>s'\<close> is \<open>s\<close> with the characters \<open>q\<close> put into the empty output buffer of
  terminal \<open>i\<close>, and the units for them taken from its semaphore.\<close>

definition sent :: "nat \<Rightarrow> u8 list \<Rightarrow> 'a tty_state_scheme \<Rightarrow> 'a tty_state_scheme \<Rightarrow> bool" where
  "sent i q s s' \<longleftrightarrow>
     (\<exists>f. s' = upd_tty i (\<lambda>t. t\<lparr>ofifo := f\<rparr>) (sem_add (Osem i) (- int (length q)) s) \<and>
          fifo_rel f q \<and> fifo_cap f = fifo_cap (ofifo (ttys s i)))"

lemma sent_Nil: "fifo_rel (ofifo (ttys s i)) [] \<Longrightarrow> sent i [] s s"
  unfolding sent_def by (intro exI [of _ "ofifo (ttys s i)"]) (simp add: upd_tty_def upd_sem_def)

lemma tty_out_char_sent:
  assumes "tty_ready i s" "sent i q s s1" "length q < nat TTY_OBUF_SIZE"
  shows "\<exists>s2. tty_out_char i c s1 = Done 0 s2 \<and> sent i (q @ [c]) s s2"
proof -
  obtain f where f: "s1 = upd_tty i (\<lambda>t. t\<lparr>ofifo := f\<rparr>) (sem_add (Osem i) (- int (length q)) s)"
    "fifo_rel f q" "fifo_cap f = fifo_cap (ofifo (ttys s i))"
    using assms(2) by (auto simp: sent_def)
  have "sm_count (sems s1 (Osem i)) > 0" "fifo_rel (ofifo (ttys s1 i)) q" "length q < fifo_cap (ofifo (ttys s1 i))"
    using assms(1,3) f by (simp_all add: tty_ready_def)
  from tty_out_char_room [OF this, of c] obtain g where g:
    "tty_out_char i c s1 = Done 0 (upd_tty i (\<lambda>t. t\<lparr>ofifo := g\<rparr>) (sem_add (Osem i) (-1) s1))"
    "fifo_rel g (q @ [c])" "fifo_cap g = fifo_cap (ofifo (ttys s1 i))" by blast
  have "upd_tty i (\<lambda>t. t\<lparr>ofifo := g\<rparr>) (sem_add (Osem i) (-1) s1) =
        upd_tty i (\<lambda>t. t\<lparr>ofifo := g\<rparr>) (sem_add (Osem i) (- int (length (q @ [c]))) s)"
    unfolding f(1) by (simp add: upd_tty_def upd_sem_def algebra_simps)
  then show ?thesis using g f(1,3) unfolding sent_def by auto
qed

lemma sent_drained:
  assumes "tty_ready i s" "sent i q s s1" "drained i (console_idx (ttys s i)) (length q) sc s1 s2"
  shows "same_kernel s s2 \<and> tty_ready i s2 \<and> consoles s2 = (consoles s)(console_idx (ttys s i) := fst sc) \<and>
    display s2 = snd sc \<and> oflags (ttys s2 i) = oflags (ttys s i) \<and> console_idx (ttys s2 i) = console_idx (ttys s i)"
proof -
  obtain f where f: "s1 = upd_tty i (\<lambda>t. t\<lparr>ofifo := f\<rparr>) (sem_add (Osem i) (- int (length q)) s)"
    "fifo_cap f = fifo_cap (ofifo (ttys s i))"
    using assms(2) unfolding sent_def by blast
  have d: "sems s2 = (sems s1)(Osem i := (sems s1 (Osem i))\<lparr>sm_count := sm_count (sems s1 (Osem i)) + int (length q)\<rparr>)"
    using assms(3) unfolding drained_def by blast
  have "(sems s (Osem i))\<lparr>sm_count := sm_count (sems s (Osem i))\<rparr> = sems s (Osem i)" by simp
  then have e: "sems s2 = sems s" unfolding d f(1) by (simp add: fun_upd_idem)
  obtain g where g: "ttys s2 = (ttys s1)(i := (ttys s1 i)\<lparr>ofifo := g\<rparr>)" "fifo_rel g []"
    "fifo_cap g = fifo_cap (ofifo (ttys s1 i))"
    using assms(3) unfolding drained_def by blast
  have k: "same_kernel s s2" "consoles s2 = (consoles s)(console_idx (ttys s i) := fst sc)" "display s2 = snd sc"
    using assms(3) e unfolding f(1) drained_def same_kernel_def by simp_all
  have "ttys s2 i = (ttys s i)\<lparr>ofifo := g\<rparr>" "fifo_cap g = fifo_cap (ofifo (ttys s i))"
    using g f by simp_all
  with assms(1) k e g(2) show ?thesis by (simp add: same_kernel_def tty_ready_def)
qed

lemma tty_write_char:
  assumes "kinv s (t # rs) ss W" "tty_ready i s"
    and "console_puts (crlf (ttys s i) c) (consoles s (console_idx (ttys s i)), display s) = Inr sc"
  shows "\<exists>s'. tty_write_loop i (Suc n) (c # buf) len s = tty_write_loop i n buf (len + 1) s' \<and>
    same_kernel s s' \<and> tty_ready i s' \<and> consoles s' = (consoles s)(console_idx (ttys s i) := fst sc) \<and>
    display s' = snd sc \<and> oflags (ttys s' i) = oflags (ttys s i) \<and> console_idx (ttys s' i) = console_idx (ttys s i)"
proof -
  have "fifo_rel (ofifo (ttys s i)) []" using assms(2) by (simp add: tty_ready_def)
  note s0 = sent_Nil [OF this]
  obtain s1 where s1: "(if c = 0x0a \<and> oflags (ttys s i) AND TTY_OCRLF \<noteq> 0 then tty_out_char i 0x0d s else Done 0 s) = Done 0 s1"
    "sent i (butlast (crlf (ttys s i) c)) s s1"
    using tty_out_char_sent [OF assms(2) s0, of "0x0d"] s0 
    by (cases "c = 0x0a \<and> oflags (ttys s i) AND TTY_OCRLF \<noteq> 0") (auto simp: crlf_def TTY_OBUF_SIZE_def)
  have "length (butlast (crlf (ttys s i) c)) < nat TTY_OBUF_SIZE" by (simp add: crlf_def TTY_OBUF_SIZE_def)
  from tty_out_char_sent [OF assms(2) s1(2) this, where c = c] obtain s2 where s2:
    "tty_out_char i c s1 = Done 0 s2" "sent i (crlf (ttys s i) c) s s2"
    by (auto simp: crlf_def split: if_splits)
  have k2: "kinv s2 (t # rs) ss W"
  proof -
    have "0 \<le> sm_count (sems s (Osem i)) - int (length (crlf (ttys s i) c))" "W (SQ (Osem i)) = []"
      using assms(1,2) by (auto simp: tty_ready_def crlf_def TTY_OBUF_SIZE_def kinv_def sem_inv_def)
    then show ?thesis using assms(1) s2(2)
      by (subst kinv_same [of s2 "sem_add (Osem i) (- int (length (crlf (ttys s i) c))) s"])
        (auto simp: sent_def kinv_def dispatched_def mutex_inv_def sem_inv_def)
  qed
  have "sm_count (sems s2 (Osem i)) > 0" "fifo_rel (ofifo (ttys s2 i)) (crlf (ttys s i) c)"
    "console_idx (ttys s2 i) = console_idx (ttys s i)"
    "mx_owner (mutexes s2 (Console_mutex (console_idx (ttys s i)))) = None"
    "console_puts (crlf (ttys s i) c) (consoles s2 (console_idx (ttys s i)), display s2) = Inr sc"
    using s2(2) assms(2,3) by (auto simp: sent_def tty_ready_def crlf_def TTY_OBUF_SIZE_def)
  from console_write_drains [OF k2 this] obtain s3 where s3:
    "console_write i s2 = Done (int (length (crlf (ttys s i) c))) s3"
    "drained i (console_idx (ttys s i)) (length (crlf (ttys s i) c)) sc s2 s3" by blast
  have "tty_write_loop i (Suc n) (c # buf) len s = tty_write_loop i n buf (len + 1) s3"
    using s1(1) s2(1) s3(1) by simp
  with sent_drained [OF assms(2) s2(2) s3(2)] show ?thesis by blast
qed

lemma tty_write_loop_shows:
  assumes "kinv s (t # rs) ss W" "tty_ready i s" "console_idx (ttys s i) = j"
    and "console_puts (concat (map (crlf (ttys s i)) buf)) (consoles s j, display s) = Inr sc"
  shows "\<exists>s'. tty_write_loop i (length buf) buf len s = Done (len + int (length buf)) s' \<and>
    same_kernel s s' \<and> tty_ready i s' \<and> consoles s' = (consoles s)(j := fst sc) \<and> display s' = snd sc"
  using assms
proof (induction buf arbitrary: s len)
  case Nil
  then show ?case by auto
next
  case (Cons c buf)
  obtain sc1 where sc1: "console_puts (crlf (ttys s i) c) (consoles s j, display s) = Inr sc1"
    "console_puts (concat (map (crlf (ttys s i)) buf)) sc1 = Inr sc"
    using Cons.prems(4) by (auto simp: console_puts_append res_bind_eq_Inr)
  have p: "console_puts (crlf (ttys s i) c) (consoles s (console_idx (ttys s i)), display s) = Inr sc1"
    using sc1(1) Cons.prems(3) by simp
  from tty_write_char [OF Cons.prems(1,2) p, of "length buf" buf len] obtain s1 where s1:
    "tty_write_loop i (Suc (length buf)) (c # buf) len s = tty_write_loop i (length buf) buf (len + 1) s1"
    "same_kernel s s1" "tty_ready i s1" "consoles s1 = (consoles s)(j := fst sc1)" "display s1 = snd sc1"
    "oflags (ttys s1 i) = oflags (ttys s i)" "console_idx (ttys s1 i) = j"
    using Cons.prems(3) by blast
  have k1: "kinv s1 (t # rs) ss W" using same_kernel_kinv [OF s1(2)] Cons.prems(1) by simp
  have "crlf (ttys s1 i) = crlf (ttys s i)" using s1(6) by (simp add: crlf_def fun_eq_iff)
  then have "console_puts (concat (map (crlf (ttys s1 i)) buf)) (consoles s1 j, display s1) = Inr sc"
    using sc1(2) s1(4,5) by simp
  from Cons.IH [OF k1 s1(3,7) this, of "len + 1"] obtain s' where s':
    "tty_write_loop i (length buf) buf (len + 1) s1 = Done (len + 1 + int (length buf)) s'"
    "same_kernel s1 s'" "tty_ready i s'" "consoles s' = (consoles s1)(j := fst sc)" "display s' = snd sc" by blast
  then show ?case using s1(1,4) same_kernel_trans [OF s1(2) s'(2)] by (intro exI [of _ s']) simp
qed

text \<open>C33: the current task writes to an open and idle terminal: \<open>tty_write\<close> does not give up the
  processor and does not fault, it returns the number of characters, the screen is the one the console
  makes of the characters with a carriage return before every newline when the terminal asks for it,
  and the scheduler, the mutexes, the semaphores and the readiness of the terminal are as before.\<close>

theorem tty_write_shows:
  assumes "kinv s (t # rs) ss W" "0 \<le> dv_minor dev" "dv_minor dev < 8" "dv_open_count dev \<noteq> 0"
    and "tty_ready (nat (dv_minor dev)) s" "j = console_idx (ttys s (nat (dv_minor dev)))"
    and "console_puts (concat (map (crlf (ttys s (nat (dv_minor dev)))) buf)) (consoles s j, display s) = Inr sc"
  shows "\<exists>s'. tty_write dev addr buf (int (length buf)) s = Done (int (length buf)) s' \<and>
    same_kernel s s' \<and> tty_ready (nat (dv_minor dev)) s' \<and> consoles s' = (consoles s)(j := fst sc) \<and> display s' = snd sc"
  using tty_write_loop_shows [OF assms(1,5) assms(6) [symmetric] assms(7), of 0] assms(2-4)
  by (simp add: tty_write_def get_tty_def)

definition open_fifo :: tty_fifo_t where
  "open_fifo = tty_fifo_init (replicate 512 0) TTY_OBUF_SIZE"

definition term_state :: tty_state where
  "term_state = \<lparr>eflags = 0x202, cr3 = 0, port_out = [], port_in = (\<lambda>_ _. 0), port_reads = (\<lambda>_. 0),
     klogs = [], idt_table = [], idtr = (0, 0, 0), nodes = (\<lambda>_. no_links)(Run_node First_task := no_links),
     tasks = (\<lambda>_. blank_task), curr_task = First_task,
     ready_list = \<lparr>lt_first = Some (Run_node First_task), lt_last = Some (Run_node First_task), lt_count = 1\<rparr>,
     sleep_list = list_init, task_list = list_init, app_code_sel = 0, app_data_sel = 0,
     mutexes = (\<lambda>_. \<lparr>mx_owner = None, mx_locked_count = 0, mx_wait_list = list_init\<rparr>),
     sems = (\<lambda>_. \<lparr>sm_count = 512, sm_wait_list = list_init\<rparr>),
     consoles = (\<lambda>i. fresh_console (int i) 3 4), display = dark,
     ttys = (\<lambda>i. \<lparr>ififo = open_fifo, ofifo = open_fifo, iflags = TTY_IECHO, oflags = TTY_OCRLF, console_idx = i\<rparr>),
     curr_tty = 0, kbd_inited = True,
     kbd_state = \<lparr>caps_lock = False, lshift_press = False, rshift_press = False, ralt_press = False,
       lalt_press = False, lctrl_press = False, rctrl_press = False\<rparr>, recv_state = RECV_NORMAL\<rparr>"

lemma term_state_kinv: "kinv term_state [First_task] [] (\<lambda>_. [])"
proof -
  have "sched_rel term_state [First_task] []"
    by (simp add: sched_rel_def term_state_def dll_def list_init_def)
  moreover have "wait_rel term_state (\<lambda>_. [])"
    by (simp add: wait_rel_def wait_list_def term_state_def dll_init split: wq.split)
  ultimately have "sync_rel term_state [First_task] [] (\<lambda>_. [])" by (simp add: sync_rel_def wait_sep_def)
  then show ?thesis by (simp add: kinv_def dispatched_def mutex_inv_def sem_inv_def term_state_def)
qed

lemma term_state_ready: "tty_ready i term_state"
  by (simp add: tty_ready_def term_state_def open_fifo_def tty_fifo_init_def fifo_rel_def fifo_cap_def TTY_OBUF_SIZE_def)

theorem tty_write_shows_witness:
  "\<exists>s' co v. tty_write \<lparr>dv_desc = Some Dev_tty_desc, dv_mode = 0, dv_minor = 2, dv_data = 0, dv_open_count = 1\<rparr> 0
       [0x48, 0x0a] 2 term_state = Done 2 s' \<and> same_kernel term_state s' \<and>
     console_puts [0x48, 0x0d, 0x0a] (fresh_console 2 3 4, dark) = Inr (co, v) \<and> consoles s' 2 = co \<and> display s' = v"
proof -
  let ?dev = "\<lparr>dv_desc = Some Dev_tty_desc, dv_mode = 0, dv_minor = 2, dv_data = 0, dv_open_count = 1\<rparr>"
  have ok: "con_ok (fresh_console 2 3 4)" by (simp add: fresh_console_ok)
  have "write_state (fresh_console 2 3 4) = CONSOLE_WRITE_NOMAL" "ASCII_ESC \<notin> set [0x48, 0x0d, 0x0a]"
    by (simp_all add: fresh_console_def ASCII_ESC_def)
  from console_puts_step [OF ok this, of dark] obtain co v where sc:
    "console_puts [0x48, 0x0d, 0x0a] (fresh_console 2 3 4, dark) = Inr (co, v)" by force
  have j: "2 = console_idx (ttys term_state (nat (dv_minor ?dev)))" by (simp add: term_state_def)
  have "concat (map (crlf (ttys term_state (nat (dv_minor ?dev)))) [0x48, 0x0a]) = [0x48, 0x0d, 0x0a]"
    by (simp add: crlf_def term_state_def TTY_OCRLF_def)
  then have "console_puts (concat (map (crlf (ttys term_state (nat (dv_minor ?dev)))) [0x48, 0x0a]))
      (consoles term_state 2, display term_state) = Inr (co, v)"
    using sc by (simp add: term_state_def)
  from tty_write_shows [OF term_state_kinv _ _ _ term_state_ready j this, of 0] sc show ?thesis by force
qed

subsection \<open>Input\<close>

lemma sem_notify_ttys:
  assumes "kstate (sem_notify i s) = Some s1"
  shows "ttys s1 = ttys s"
proof -
  have r: "task_set_ready t s = Inr s' \<Longrightarrow> ttys s' = ttys s" for t and s s' :: "'a tty_state_scheme"
    by (auto simp: task_set_ready_def upd_task_def res_bind_eq_Inr split: if_splits)
  have d: "kstate (kbind (task_dispatch s) (\<lambda>_ s3. Done () (irq_leave_proection st s3))) = Some s' \<Longrightarrow> ttys s' = ttys s"
    for st and s s' :: "'a tty_state_scheme"
    by (auto simp: task_dispatch_def task_switch_from_to_def upd_task_def Let_def split: option.splits if_splits)
  show ?thesis
    using assms
    by (auto simp: sem_notify_def Let_def kstep_def res_bind_eq_Inr dest!: d r
        split: if_splits sum.splits option.splits prod.splits)
qed

lemma sem_notify_wakes_kinv:
  assumes "kinv s rs ss W" "W (SQ i) = u # ws"
  shows "\<exists>s1. kinv s1 (rs @ [u]) ss (W(SQ i := ws)) \<and>
     (if rs = [] then (\<exists>k. sem_notify i s = Switch s1 k) else sem_notify i s = Done () s1)"
proof -
  have d: "sync_rel s rs ss W" "dispatched s rs" using assms(1) by (simp_all add: kinv_def)
  from sem_notify_wakes [OF this assms(2)] obtain s1 where 1: "sem_notify i s =
      (if rs = [] then Switch (switch_to u s1) (\<lambda>s3. Done () (irq_leave_proection (eflags s) s3))
       else Done () (irq_leave_proection (eflags s) s1))"
    "sync_rel s1 (rs @ [u]) ss (W(SQ i := ws))" "same_counts s s1" "curr_task s1 = curr_task s" by blast
  have "sm_count (sems s i) \<le> 0" using assms by (simp add: kinv_def sem_inv_def)
  then have inv: "mutex_inv s1 (W(SQ i := ws))" "sem_inv s1 (W(SQ i := ws))"
    unfolding same_counts_inv [OF 1(3)] using assms(1) sem_inv_waits [of s W i] by (simp_all add: kinv_def)
  show ?thesis
  proof (cases "rs = []")
    case True
    with 1(1) kinv_switch [OF 1(2) inv] show ?thesis by auto
  next
    case False
    then have "dispatched s1 (rs @ [u])" using d(2) 1(4) by (cases rs) (simp_all add: dispatched_def)
    with False 1 inv show ?thesis
      by (intro exI [of _ "irq_leave_proection (eflags s) s1"]) (simp add: kinv_def dispatched_def)
  qed
qed

lemma tty_in_effect:
  assumes "kinv s rs ss W" "i = curr_tty s" "fifo_rel (ififo (ttys s i)) q"
    and "length q < fifo_cap (ififo (ttys s i))" "sm_count (sems s (Isem i)) < TTY_IBUF_SIZE"
  shows "\<exists>s1. fifo_rel (ififo (ttys s1 i)) (q @ [c]) \<and>
     (case W (SQ (Isem i)) of
        [] \<Rightarrow> tty_in c s = Done () s1 \<and> kinv s1 rs ss W \<and> sm_count (sems s1 (Isem i)) = sm_count (sems s (Isem i)) + 1
      | u # ws \<Rightarrow> kinv s1 (rs @ [u]) ss (W(SQ (Isem i) := ws)) \<and>
          (if rs = [] then (\<exists>k. tty_in c s = Switch s1 k) else tty_in c s = Done () s1))"
proof -
  obtain f where f: "tty_fifo_put c (ififo (ttys s i)) = Inr (0, f)" "fifo_rel f (q @ [c])"
    using fifo.put_room [OF assms(3,4)] by blast
  let ?s = "irq_leave_proection (eflags s) (irq_disable_global s)"
  let ?u = "upd_tty i (\<lambda>t. t\<lparr>ififo := f\<rparr>) ?s"
  have t: "tty_in c s = sem_notify (Isem i) ?u"
    using assms(2,5) f(1) by (simp add: tty_in_def sem_count_def Let_def)
  have k: "kinv ?u rs ss W" by (subst kinv_same [of ?u s]) (simp_all add: assms(1))
  show ?thesis
  proof (cases "W (SQ (Isem i))")
    case Nil
    have "sync_rel ?u rs ss W" using k by (simp add: kinv_def)
    from sem_notify_none [OF this Nil] have e: "tty_in c s = Done () (sem_add (Isem i) 1 ?u)" using t by simp
    moreover have "kinv (sem_add (Isem i) 1 ?u) rs ss W"
      using k Nil by (auto simp: kinv_def dispatched_def mutex_inv_def sem_inv_def)
    ultimately show ?thesis using Nil f(2) by (intro exI [of _ "sem_add (Isem i) 1 ?u"]) simp
  next
    case (Cons u ws)
    from sem_notify_wakes_kinv [OF k Cons] obtain s1 where s1: "kinv s1 (rs @ [u]) ss (W(SQ (Isem i) := ws))"
      "if rs = [] then (\<exists>k. sem_notify (Isem i) ?u = Switch s1 k) else sem_notify (Isem i) ?u = Done () s1" by blast
    then have "kstate (sem_notify (Isem i) ?u) = Some s1" by (auto split: if_splits)
    then have "ttys s1 = ttys ?u" by (rule sem_notify_ttys)
    then have "fifo_rel (ififo (ttys s1 i)) (q @ [c])" using f(2) by simp
    with s1 t Cons show ?thesis by auto
  qed
qed

text \<open>The first task runs, terminal 0 is selected and no input has arrived.\<close>

definition input_state :: tty_state where
  "input_state = sem_init (Isem 0) 0 term_state"

lemma input_state_kinv: "kinv input_state [First_task] [] (\<lambda>_. [])"
proof -
  have "wait_rel input_state (\<lambda>_. [])"
    by (auto simp: input_state_def wait_rel_def wait_list_def sem_init_def upd_sem_def term_state_def dll_init split: wq.split)
  then show ?thesis using term_state_kinv
    by (auto simp: input_state_def kinv_def sync_rel_def sched_rel_def dispatched_def mutex_inv_def sem_inv_def sem_init_def upd_sem_def)
qed

lemma input_state_sel:
  "0 = curr_tty input_state" "fifo_rel (ififo (ttys input_state 0)) []"
  "length ([] :: u8 list) < fifo_cap (ififo (ttys input_state 0))"
  "sm_count (sems input_state (Isem 0)) < TTY_IBUF_SIZE" "sm_count (sems input_state (Isem 0)) = 0"
  "recv_state input_state = RECV_NORMAL"
  by (simp_all add: input_state_def sem_init_def upd_sem_def term_state_def open_fifo_def tty_fifo_init_def
      fifo_rel_def fifo_cap_def TTY_OBUF_SIZE_def TTY_IBUF_SIZE_def)

text \<open>C34: a key reaches the reader.  When the input buffer of the current terminal has room, \<open>tty_in\<close>
  puts the character behind those that are waiting; with no task waiting for input it counts it in the
  semaphore, and otherwise the longest waiting task becomes ready, and runs at once when the processor
  was idle.\<close>

theorem tty_in_delivers:
  assumes "kinv s rs ss W" "i = curr_tty s" "fifo_rel (ififo (ttys s i)) q"
    and "length q < fifo_cap (ififo (ttys s i))" "sm_count (sems s (Isem i)) < TTY_IBUF_SIZE"
  shows "\<exists>s1. fifo_rel (ififo (ttys s1 i)) (q @ [c]) \<and>
     (case W (SQ (Isem i)) of
        [] \<Rightarrow> tty_in c s = Done () s1 \<and> kinv s1 rs ss W \<and> sm_count (sems s1 (Isem i)) = sm_count (sems s (Isem i)) + 1
      | u # ws \<Rightarrow> kinv s1 (rs @ [u]) ss (W(SQ (Isem i) := ws)) \<and>
          (if rs = [] then (\<exists>k. tty_in c s = Switch s1 k) else tty_in c s = Done () s1))"
  using tty_in_effect [OF assms] .

theorem tty_in_delivers_witness:
  "\<exists>s1. tty_in 0x61 input_state = Done () s1 \<and> fifo_rel (ififo (ttys s1 0)) [0x61] \<and>
     sm_count (sems s1 (Isem 0)) = 1"
  using tty_in_delivers [OF input_state_kinv input_state_sel(1) input_state_sel(2-4), of "0x61"]
  by (auto simp: input_state_sel(1) [symmetric] input_state_sel(5))

end
