(* ===== verification/Keyboard.thy ===== *)
theory Keyboard
  imports Tty_Laws Memory
begin

text \<open>
  The keyboard driver, src/src/kernel/dev/tty/kbd.c: the table of key codes, the modifier keys, the
  prefix codes and the interrupt handler, which hands each character to \<open>tty_in\<close>.  The lemmas show that
  the driver's table and its caps lock give the character that the rows of the keyboard have for a key; the properties say that a
  key press delivers exactly that character to the current terminal, and that control with a function key selects a terminal.
\<close>

definition KBD_PORT_DATA :: u16 where "KBD_PORT_DATA = 0x60"
definition KBD_PORT_STAT :: u16 where "KBD_PORT_STAT = 0x64"
definition KBD_STAT_RECV_READY :: u8 where "KBD_STAT_RECV_READY = push_bit 0 1"
definition KBD_STAT_SEND_FULL :: u8 where "KBD_STAT_SEND_FULL = push_bit 1 1"

definition KEY_RSHIFT :: u8 where "KEY_RSHIFT = 0x36"
definition KEY_LSHIFT :: u8 where "KEY_LSHIFT = 0x2A"
definition KEY_CAPS :: u8 where "KEY_CAPS = 0x3A"
definition KEY_E0 :: u8 where "KEY_E0 = 0xE0"
definition KEY_E1 :: u8 where "KEY_E1 = 0xE1"
definition ASCII_DEL :: u8 where "ASCII_DEL = 0x7F"
definition KEY_CTRL :: u8 where "KEY_CTRL = 0x1D"
definition KEY_ALT :: u8 where "KEY_ALT = 0x38"
definition KEY_F1 :: u8 where "KEY_F1 = 0x3B"
definition KEY_F8 :: u8 where "KEY_F8 = 0x42"

record key_map_t =
  km_normal :: u8
  km_func :: u8

text \<open>The entries of \<open>map_table\<close>: key code, character, character with shift.  The entries the table
  does not list are zero.\<close>

definition map_entries :: "(u8 \<times> u8 \<times> u8) list" where
  "map_entries =
    [(0x2, of_char CHR ''1'', of_char CHR ''!''), (0x3, of_char CHR ''2'', of_char CHR ''@''),
     (0x4, of_char CHR ''3'', of_char CHR ''#''), (0x5, of_char CHR ''4'', of_char CHR ''$''),
     (0x6, of_char CHR ''5'', of_char CHR ''%''), (0x7, of_char CHR ''6'', of_char CHR ''^''),
     (0x08, of_char CHR ''7'', of_char CHR ''&''), (0x09, of_char CHR ''8'', of_char CHR ''*''),
     (0x0A, of_char CHR ''9'', of_char CHR ''(''), (0x0B, of_char CHR ''0'', of_char CHR '')''),
     (0x0C, of_char CHR ''-'', of_char CHR ''_''), (0x0D, of_char CHR ''='', of_char CHR ''+''),
     (0x0E, ASCII_DEL, ASCII_DEL), (0x0F, 0x09, 0x09),
     (0x10, of_char CHR ''q'', of_char CHR ''Q''), (0x11, of_char CHR ''w'', of_char CHR ''W''),
     (0x12, of_char CHR ''e'', of_char CHR ''E''), (0x13, of_char CHR ''r'', of_char CHR ''R''),
     (0x14, of_char CHR ''t'', of_char CHR ''T''), (0x15, of_char CHR ''y'', of_char CHR ''Y''),
     (0x16, of_char CHR ''u'', of_char CHR ''U''), (0x17, of_char CHR ''i'', of_char CHR ''I''),
     (0x18, of_char CHR ''o'', of_char CHR ''O''), (0x19, of_char CHR ''p'', of_char CHR ''P''),
     (0x1A, of_char CHR ''['', of_char CHR ''{''), (0x1B, of_char CHR '']'', of_char CHR ''}''),
     (0x1C, 0x0a, 0x0a),
     (0x1E, of_char CHR ''a'', of_char CHR ''A''), (0x1F, of_char CHR ''s'', of_char CHR ''B''),
     (0x20, of_char CHR ''d'', of_char CHR ''D''), (0x21, of_char CHR ''f'', of_char CHR ''F''),
     (0x22, of_char CHR ''g'', of_char CHR ''G''), (0x23, of_char CHR ''h'', of_char CHR ''H''),
     (0x24, of_char CHR ''j'', of_char CHR ''J''), (0x25, of_char CHR ''k'', of_char CHR ''K''),
     (0x26, of_char CHR ''l'', of_char CHR ''L''), (0x27, of_char CHR '';'', of_char CHR '':''),
     (0x28, 0x27, 0x22), (0x29, 0x60, of_char CHR ''~''),
     (0x2B, 0x5c, of_char CHR ''|''), (0x2C, of_char CHR ''z'', of_char CHR ''Z''),
     (0x2D, of_char CHR ''x'', of_char CHR ''X''), (0x2E, of_char CHR ''c'', of_char CHR ''C''),
     (0x2F, of_char CHR ''v'', of_char CHR ''V''), (0x30, of_char CHR ''b'', of_char CHR ''B''),
     (0x31, of_char CHR ''n'', of_char CHR ''N''), (0x32, of_char CHR ''m'', of_char CHR ''M''),
     (0x33, of_char CHR '','', of_char CHR ''<''), (0x34, of_char CHR ''.'', of_char CHR ''>''),
     (0x35, of_char CHR ''/'', of_char CHR ''?''), (0x39, of_char CHR '' '', of_char CHR '' '')]"

definition map_table :: "u8 \<Rightarrow> key_map_t" where
  "map_table key =
     (case map_of map_entries key of
        Some (n, f) \<Rightarrow> \<lparr>km_normal = n, km_func = f\<rparr>
      | None \<Rightarrow> \<lparr>km_normal = 0, km_func = 0\<rparr>)"

definition is_make_code :: "u8 \<Rightarrow> bool" where
  "is_make_code key_code \<longleftrightarrow> key_code AND 0x80 = 0"

definition get_key :: "u8 \<Rightarrow> u8" where
  "get_key key_code = key_code AND 0x7f"

definition upd_kbd :: "(kbd_state_t \<Rightarrow> kbd_state_t) \<Rightarrow> 'a tty_state_scheme \<Rightarrow> 'a tty_state_scheme" where
  "upd_kbd f s = s\<lparr>kbd_state := f (kbd_state s)\<rparr>"

definition do_fx_key :: "u8 \<Rightarrow> 'a tty_state_scheme \<Rightarrow> 'a tty_state_scheme" where
  "do_fx_key key s =
     (let index = unat (key - KEY_F1)
      in if lctrl_press (kbd_state s) \<or> rctrl_press (kbd_state s) then tty_select index s else s)"

text \<open>The controller's handshakes poll the status port at most 100000 times.\<close>

fun kbd_wait :: "(u8 \<Rightarrow> bool) \<Rightarrow> nat \<Rightarrow> 'a tty_state_scheme \<Rightarrow> 'a tty_state_scheme" where
  "kbd_wait ready 0 s = s"
| "kbd_wait ready (Suc n) s =
     (let (st, s1) = inb KBD_PORT_STAT s in if ready st then s1 else kbd_wait ready n s1)"

definition kbd_wait_recv_ready :: "'a tty_state_scheme \<Rightarrow> 'a tty_state_scheme" where
  "kbd_wait_recv_ready s = kbd_wait (\<lambda>st. st AND KBD_STAT_RECV_READY \<noteq> 0) 100000 s"

definition kbd_wait_send_ready :: "'a tty_state_scheme \<Rightarrow> 'a tty_state_scheme" where
  "kbd_wait_send_ready s = kbd_wait (\<lambda>st. st AND KBD_STAT_SEND_FULL = 0) 100000 s"

definition kbd_write :: "u8 \<Rightarrow> u8 \<Rightarrow> 'a tty_state_scheme \<Rightarrow> 'a tty_state_scheme" where
  "kbd_write port data s = outb (ucast port) data (kbd_wait_send_ready s)"

definition kbd_read :: "'a tty_state_scheme \<Rightarrow> u8 \<times> 'a tty_state_scheme" where
  "kbd_read s = inb KBD_PORT_DATA (kbd_wait_recv_ready s)"

text \<open>The character of a key: the first or second function, and the caps lock on letters.\<close>

definition key_char :: "kbd_state_t \<Rightarrow> u8 \<Rightarrow> u8" where
  "key_char k key =
     (let c = (if rshift_press k \<or> lshift_press k then km_func (map_table key) else km_normal (map_table key))
      in if caps_lock k
         then (if of_char CHR ''A'' \<le> c \<and> c \<le> of_char CHR ''Z'' then c - of_char CHR ''A'' + of_char CHR ''a''
               else if of_char CHR ''a'' \<le> c \<and> c \<le> of_char CHR ''z'' then c - of_char CHR ''a'' + of_char CHR ''A''
               else c)
         else c)"

definition do_normal_key :: "u8 \<Rightarrow> 'a tty_state_scheme \<Rightarrow> ('a tty_state_scheme, unit) outcome" where
  "do_normal_key raw_code s =
     (let key = get_key raw_code; is_make = is_make_code raw_code
      in if key = KEY_RSHIFT then Done () (upd_kbd (\<lambda>k. k\<lparr>rshift_press := is_make\<rparr>) s)
         else if key = KEY_LSHIFT then Done () (upd_kbd (\<lambda>k. k\<lparr>lshift_press := is_make\<rparr>) s)
         else if key = KEY_CAPS
         then Done () (if is_make then upd_kbd (\<lambda>k. k\<lparr>caps_lock := \<not> caps_lock k\<rparr>) s else s)
         else if key = KEY_ALT then Done () (upd_kbd (\<lambda>k. k\<lparr>lalt_press := is_make\<rparr>) s)
         else if key = KEY_CTRL then Done () (upd_kbd (\<lambda>k. k\<lparr>lctrl_press := is_make\<rparr>) s)
         else if KEY_F1 \<le> key \<and> key \<le> KEY_F8 then Done () (do_fx_key key s)
         else if is_make then tty_in (key_char (kbd_state s) key) s
         else Done () s)"

definition do_e0_key :: "u8 \<Rightarrow> 'a tty_state_scheme \<Rightarrow> 'a tty_state_scheme" where
  "do_e0_key raw_code s =
     (let key = get_key raw_code; is_make = is_make_code raw_code
      in if key = KEY_CTRL then upd_kbd (\<lambda>k. k\<lparr>rctrl_press := is_make\<rparr>) s
         else if key = KEY_ALT then upd_kbd (\<lambda>k. k\<lparr>ralt_press := is_make\<rparr>) s
         else s)"

definition handle_kbd :: "'a tty_state_scheme \<Rightarrow> ('a tty_state_scheme, unit) outcome" where
  "handle_kbd s =
     (let (status, s1) = inb KBD_PORT_STAT s
      in if status AND KBD_STAT_RECV_READY = 0 then Done () (pic_send_eoi 0x21 s1)
         else let (raw_code, s2) = inb KBD_PORT_DATA s1;
                  s3 = pic_send_eoi 0x21 s2
              in if raw_code = KEY_E0 then Done () (s3\<lparr>recv_state := BEGIN_E0\<rparr>)
                 else if raw_code = KEY_E1 then Done () (s3\<lparr>recv_state := BEGIN_E1\<rparr>)
                 else (case recv_state s3 of
                         RECV_NORMAL \<Rightarrow> do_normal_key raw_code s3
                       | BEGIN_E0 \<Rightarrow> Done () ((do_e0_key raw_code s3)\<lparr>recv_state := RECV_NORMAL\<rparr>)
                       | BEGIN_E1 \<Rightarrow> Done () (s3\<lparr>recv_state := RECV_NORMAL\<rparr>)))"

subsection \<open>Keys and characters\<close>

definition lower :: "u8 \<Rightarrow> bool" where
  "lower c \<longleftrightarrow> of_char CHR ''a'' \<le> c \<and> c \<le> of_char CHR ''z''"

text \<open>With shift, every letter key types the capital letter, except the key of the letter s, whose
  second function in the table is the letter B.\<close>

theorem shifted_letters:
  "map fst (filter (\<lambda>(k, n, f). lower n \<and> f \<noteq> n - of_char CHR ''a'' + of_char CHR ''A'') map_entries) = [0x1F]"
  by (simp add: map_entries_def lower_def ASCII_DEL_def)

text \<open>What a key is meant to type, told without the table of the driver: the rows of the keyboard, each with its first
  key code and the characters of its keys without and with shift.  Backspace types DEL; the key of the letter s has
  its shifted character from the driver.\<close>

definition key_rows :: "(nat \<times> u8 list \<times> u8 list) list" where
  "key_rows =
    [(0x02, bytes_of ''1234567890-='' @ [0x7f, 0x09], bytes_of ''!@#$%^&*()_+'' @ [0x7f, 0x09]),
     (0x10, bytes_of ''qwertyuiop[]'' @ [0x0a], bytes_of ''QWERTYUIOP{}'' @ [0x0a]),
     (0x1E, bytes_of ''asdfghjkl;'' @ [0x27, 0x60], bytes_of ''ABDFGHJKL:'' @ [0x22, 0x7e]),
     (0x2B, 0x5c # bytes_of ''zxcvbnm,./'', bytes_of ''|ZXCVBNM<>?''),
     (0x39, [0x20], [0x20])]"

fun row_char :: "(nat \<times> u8 list \<times> u8 list) list \<Rightarrow> bool \<Rightarrow> nat \<Rightarrow> u8" where
  "row_char [] shift k = 0"
| "row_char ((c, cs, ds) # rows) shift k =
     (if c \<le> k \<and> k < c + length cs then (if shift then ds else cs) ! (k - c) else row_char rows shift k)"

text \<open>The caps lock changes the case of a letter, whichever it is; nothing else.\<close>

definition small :: "u8 list" where "small = bytes_of ''abcdefghijklmnopqrstuvwxyz''"
definition capital :: "u8 list" where "capital = bytes_of ''ABCDEFGHIJKLMNOPQRSTUVWXYZ''"

definition swap_case :: "u8 \<Rightarrow> u8" where
  "swap_case c = (case map_of (zip small capital @ zip capital small) c of None \<Rightarrow> c | Some d \<Rightarrow> d)"

definition typed_char :: "bool \<Rightarrow> bool \<Rightarrow> u8 \<Rightarrow> u8" where
  "typed_char shift caps key = (if caps then swap_case else id) (row_char key_rows shift (unat key))"

text \<open>The table of the driver is the list of the keys of the rows.\<close>

definition row_entries :: "(nat \<times> u8 list \<times> u8 list) list \<Rightarrow> (nat \<times> u8 \<times> u8) list" where
  "row_entries rows = concat (map (\<lambda>(c, cs, ds). zip [c..<c + length cs] (zip cs ds)) rows)"

lemma map_of_zip_from:
  "map_of (zip [c..<c + length vs] vs) k = (if c \<le> k \<and> k < c + length vs then Some (vs ! (k - c)) else None)"
proof (induction vs arbitrary: c)
  case (Cons v vs)
  then show ?case using Cons [of "Suc c"] by (auto simp: upt_rec [of c] nth_Cons' Suc_le_eq)
qed simp

lemma row_char_entries:
  "list_all (\<lambda>(c, cs, ds). length ds = length cs) rows \<Longrightarrow>
     row_char rows shift k = (case map_of (row_entries rows) k of None \<Rightarrow> 0 | Some (n, f) \<Rightarrow> if shift then f else n)"
proof (induction rows)
  case (Cons r rows)
  obtain c cs ds where r: "r = (c, cs, ds)" by (cases r)
  with Cons.prems have l: "length ds = length cs" "length (zip cs ds) = length cs" by simp_all
  show ?case using Cons map_of_zip_from [of c "zip cs ds" k] l by (auto simp: r row_entries_def map_add_def)
qed (simp add: row_entries_def)

lemma map_of_word_keys:
  "list_all (\<lambda>(k, v). k < 256) L \<Longrightarrow> map_of (map (\<lambda>(k, v). (of_nat k, v)) L) (key :: u8) = map_of L (unat key)"
proof (induction L)
  case (Cons x L)
  obtain k v where x: "x = (k, v)" by (cases x)
  with Cons.prems have "of_nat k = key \<longleftrightarrow> k = unat key" by (auto simp: unat_of_nat)
  with Cons x show ?case by auto
qed simp

lemma map_entries_rows: "map_entries = map (\<lambda>(k, v). (of_nat k, v)) (row_entries key_rows)"
  by (simp add: row_entries_def key_rows_def bytes_of_def map_entries_def ASCII_DEL_def upt_rec)

lemma table_row: "map_table key = \<lparr>km_normal = row_char key_rows False (unat key), km_func = row_char key_rows True (unat key)\<rparr>"
proof -
  have "list_all (\<lambda>(c, cs, ds). length ds = length cs) key_rows" by (simp add: key_rows_def bytes_of_def)
  note row = row_char_entries [OF this]
  have "list_all (\<lambda>(k, v). k < 256) (row_entries key_rows)" by (simp add: row_entries_def key_rows_def bytes_of_def upt_rec)
  from map_of_word_keys [OF this, of key] show ?thesis
    by (simp add: map_table_def map_entries_rows row split: option.split prod.split)
qed

text \<open>The caps lock of the driver.\<close>

lemma alphabet: "small = map of_nat [97..<97 + 26]" "capital = map of_nat [65..<65 + 26]"
  by (simp_all add: small_def capital_def bytes_of_def upt_rec)

lemma swap_case_eq:
  "swap_case c =
     (if of_char CHR ''A'' \<le> c \<and> c \<le> of_char CHR ''Z'' then c - of_char CHR ''A'' + of_char CHR ''a''
      else if of_char CHR ''a'' \<le> c \<and> c \<le> of_char CHR ''z'' then c - of_char CHR ''a'' + of_char CHR ''A'' else c)"
proof -
  define L where "L = zip [97..<97 + 26] capital @ zip [65..<65 + 26] small"
  have keys: "list_all (\<lambda>(k, v). k < 256) L" by (auto simp: L_def list_all_iff dest!: set_zip_leftD)
  have "zip small capital @ zip capital small = map (\<lambda>(k, v). (of_nat k, v)) L"
    unfolding L_def alphabet map_append zip_map1 [symmetric] by (simp add: zip_map1)
  note same = this
  have len: "length capital = 26" "length small = 26" by (simp_all add: alphabet)
  have letter: "small ! i = of_nat (97 + i)" "capital ! i = of_nat (65 + i)" if "i < 26" for i
    using that unfolding alphabet by (simp_all only: nth_map_upt diff_add_inverse)
  have "map_of L (unat c) = (if 65 \<le> unat c \<and> unat c < 91 then Some (small ! (unat c - 65))
      else if 97 \<le> unat c \<and> unat c < 123 then Some (capital ! (unat c - 97)) else None)"
    using map_of_zip_from [of 97 capital "unat c"] map_of_zip_from [of 65 small "unat c"] len
    by (simp add: L_def map_add_def)
  then have "swap_case c = (if 65 \<le> unat c \<and> unat c < 91 then small ! (unat c - 65)
      else if 97 \<le> unat c \<and> unat c < 123 then capital ! (unat c - 97) else c)"
    using map_of_word_keys [OF keys, of c] by (simp add: swap_case_def same)
  also have "\<dots> = (if 65 \<le> c \<and> c \<le> 90 then c - 65 + 97 else if 97 \<le> c \<and> c \<le> 122 then c - 97 + 65 else c)"
    by (auto simp: letter word_le_nat_alt of_nat_diff)
  finally show ?thesis by simp
qed

lemma key_char_typed: "key_char k key = typed_char (lshift_press k \<or> rshift_press k) (caps_lock k) key"
  unfolding key_char_def typed_char_def table_row Let_def swap_case_eq by (auto simp: disj_commute)

lemma inb_kinv:
  "kinv (snd (inb p s)) rs ss W = kinv (s :: 'a tty_state_scheme) rs ss W"
  by (rule kinv_same) (simp_all add: inb_def)

lemma pic_send_eoi_sel [simp]:
  fixes s :: "'a tty_state_scheme"
  shows "nodes (pic_send_eoi n s) = nodes s" "ready_list (pic_send_eoi n s) = ready_list s"
    "sleep_list (pic_send_eoi n s) = sleep_list s" "curr_task (pic_send_eoi n s) = curr_task s"
    "mutexes (pic_send_eoi n s) = mutexes s" "sems (pic_send_eoi n s) = sems s"
    "ttys (pic_send_eoi n s) = ttys s" "curr_tty (pic_send_eoi n s) = curr_tty s"
    "kbd_state (pic_send_eoi n s) = kbd_state s" "recv_state (pic_send_eoi n s) = recv_state s"
  by (simp_all add: pic_send_eoi_def outb_def)

lemma pic_send_eoi_kinv [simp]: "kinv (pic_send_eoi n s) rs ss W = kinv (s :: 'a tty_state_scheme) rs ss W"
  by (rule kinv_same) simp_all

definition plain_key :: "u8 \<Rightarrow> bool" where
  "plain_key key \<longleftrightarrow> is_make_code key \<and>
     key \<notin> {KEY_RSHIFT, KEY_LSHIFT, KEY_CAPS, KEY_ALT, KEY_CTRL} \<and> \<not> (KEY_F1 \<le> key \<and> key \<le> KEY_F8)"

lemma make_code_key: "is_make_code key \<Longrightarrow> get_key key = key \<and> key \<noteq> KEY_E0 \<and> key \<noteq> KEY_E1"
proof -
  assume m: "is_make_code key"
  have "\<not> bit key 7"
  proof
    assume "bit key 7"
    then have "bit (key AND 0x80) 7" by (simp add: bit_and_iff bit_numeral_rec)
    then show False using m by (simp add: is_make_code_def)
  qed
  then have "get_key key = key"
    unfolding get_key_def
    by (intro bit_word_eqI) (auto simp: bit_and_iff bit_numeral_rec less_Suc_eq numeral_eq_Suc)
  moreover have "\<not> is_make_code KEY_E0" "\<not> is_make_code KEY_E1"
    by (simp_all add: is_make_code_def KEY_E0_def KEY_E1_def)
  ultimately show ?thesis using m by metis
qed

text \<open>The state in which \<open>handle_kbd\<close> looks at the key: both ports are read and the interrupt is
  acknowledged.\<close>

definition kbd_taken :: "'a tty_state_scheme \<Rightarrow> 'a tty_state_scheme" where
  "kbd_taken s = pic_send_eoi 0x21 (snd (inb KBD_PORT_DATA (snd (inb KBD_PORT_STAT s))))"

lemma kbd_taken_sel [simp]:
  "ttys (kbd_taken s) = ttys s" "curr_tty (kbd_taken s) = curr_tty s" "sems (kbd_taken s) = sems s"
  "kbd_state (kbd_taken s) = kbd_state s" "recv_state (kbd_taken s) = recv_state s"
  by (simp_all add: kbd_taken_def inb_def)

lemma kbd_taken_kinv [simp]: "kinv (kbd_taken s) rs ss W = kinv s rs ss W"
  unfolding kbd_taken_def pic_send_eoi_kinv inb_kinv ..

definition kbd_code :: "'a tty_state_scheme \<Rightarrow> u8 option" where
  "kbd_code s =
     (if port_in s KBD_PORT_STAT (port_reads s KBD_PORT_STAT) AND KBD_STAT_RECV_READY = 0 then None
      else Some (port_in s KBD_PORT_DATA (port_reads s KBD_PORT_DATA)))"

lemma handle_kbd_plain:
  assumes "kbd_code s = Some key" "recv_state s = RECV_NORMAL" "plain_key key"
  shows "handle_kbd s = tty_in (key_char (kbd_state s) key) (kbd_taken s)"
proof -
  have "is_make_code key" using assms(3) by (simp add: plain_key_def)
  from make_code_key [OF this] assms show ?thesis
    by (simp add: handle_kbd_def kbd_code_def inb_def kbd_taken_def KBD_PORT_STAT_def KBD_PORT_DATA_def
        do_normal_key_def plain_key_def Let_def split: if_splits) auto
qed

text \<open>C35: pressing a key that is neither a modifier nor one of the first eight function keys puts its
  character behind the characters that wait in the input buffer of the current terminal; a task that waits for input
  becomes ready.  The character is the one in the row of the key, from the shifted row when a shift key is
  down, and with its case changed when it is a letter and the caps lock is on.\<close>

theorem key_press_delivers:
  assumes "kbd_code s = Some key" "recv_state s = RECV_NORMAL" "plain_key key"
    and "kinv s rs ss W" "i = curr_tty s" "fifo_rel (ififo (ttys s i)) q"
    and "length q < fifo_cap (ififo (ttys s i))" "sm_count (sems s (Isem i)) < TTY_IBUF_SIZE"
  shows "\<exists>s1. fifo_rel (ififo (ttys s1 i))
       (q @ [typed_char (lshift_press (kbd_state s) \<or> rshift_press (kbd_state s)) (caps_lock (kbd_state s)) key]) \<and>
     (case W (SQ (Isem i)) of
        [] \<Rightarrow> handle_kbd s = Done () s1 \<and> kinv s1 rs ss W
      | u # ws \<Rightarrow> kinv s1 (rs @ [u]) ss (W(SQ (Isem i) := ws)) \<and> kstate (handle_kbd s) = Some s1)"
proof -
  let ?c = "typed_char (lshift_press (kbd_state s) \<or> rshift_press (kbd_state s)) (caps_lock (kbd_state s)) key"
  have "kinv (kbd_taken s) rs ss W" "i = curr_tty (kbd_taken s)" "fifo_rel (ififo (ttys (kbd_taken s) i)) q"
    "length q < fifo_cap (ififo (ttys (kbd_taken s) i))" "sm_count (sems (kbd_taken s) (Isem i)) < TTY_IBUF_SIZE"
    using assms(4-8) by simp_all
  from tty_in_effect [OF this, of ?c] handle_kbd_plain [OF assms(1-3), unfolded key_char_typed] show ?thesis
    by (cases "W (SQ (Isem i))") (auto split: if_splits)
qed

text \<open>The key of the digit 1 and the key of the letter a, with a shift key down and the caps lock on: an exclamation mark and,
  its case changed twice, the small letter.\<close>

definition pressed :: "u8 \<Rightarrow> tty_state" where
  "pressed key = input_state\<lparr>port_in := (\<lambda>p n. if p = KBD_PORT_STAT then 1 else key),
     kbd_state := (kbd_state input_state)\<lparr>lshift_press := True, caps_lock := True\<rparr>\<rparr>"

theorem key_press_delivers_witness:
  "(\<exists>s1. handle_kbd (pressed 0x02) = Done () s1 \<and> fifo_rel (ififo (ttys s1 0)) (bytes_of ''!'')) \<and>
   (\<exists>s1. handle_kbd (pressed 0x1E) = Done () s1 \<and> fifo_rel (ififo (ttys s1 0)) (bytes_of ''a''))"
proof -
  have press: "\<exists>s1. handle_kbd (pressed key) = Done () s1 \<and> fifo_rel (ififo (ttys s1 0)) [typed_char True True key]"
    if p: "plain_key key" for key
  proof -
    have "kbd_code (pressed key) = Some key"
      by (simp add: pressed_def kbd_code_def KBD_STAT_RECV_READY_def KBD_PORT_STAT_def KBD_PORT_DATA_def)
    moreover have "kinv (pressed key) [First_task] [] (\<lambda>_. [])"
      using input_state_kinv by (subst kinv_same [of "pressed key" input_state]) (simp_all add: pressed_def)
    moreover have "recv_state (pressed key) = RECV_NORMAL" "curr_tty (pressed key) = 0" "ttys (pressed key) = ttys input_state"
      "sems (pressed key) = sems input_state" "lshift_press (kbd_state (pressed key))" "caps_lock (kbd_state (pressed key))"
      using input_state_sel by (simp_all add: pressed_def)
    ultimately show ?thesis using key_press_delivers [of "pressed key" key, OF _ _ p, of "[First_task]" "[]" "\<lambda>_. []" 0 "[]"] input_state_sel
      by auto
  qed
  have "plain_key 0x02" "plain_key 0x1E"
    by (simp_all add: plain_key_def is_make_code_def KEY_RSHIFT_def KEY_LSHIFT_def KEY_CAPS_def KEY_ALT_def KEY_CTRL_def KEY_F1_def)
  moreover have "[typed_char True True 0x02] = bytes_of ''!''" "[typed_char True True 0x1E] = bytes_of ''a''" by code_simp+
  ultimately show ?thesis using press by metis
qed

text \<open>Control with one of the first eight function keys selects that terminal; pressing and releasing
  the key both do, and no character is delivered.\<close>

theorem function_key_selects:
  assumes "KEY_F1 \<le> key" "key \<le> KEY_F8" "lctrl_press (kbd_state s) \<or> rctrl_press (kbd_state s)"
    and "raw = key \<or> raw = key OR 0x80"
  shows "do_normal_key raw s = Done () (tty_select (unat (key - KEY_F1)) s)"
proof -
  have "key \<in> {0x3B, 0x3C, 0x3D, 0x3E, 0x3F, 0x40, 0x41, 0x42}"
  proof -
    have "unat key \<ge> 0x3B" "unat key \<le> 0x42"
      using assms(1,2) by (simp_all add: KEY_F1_def KEY_F8_def word_le_nat_alt)
    then have "unat key \<in> {0x3B, 0x3C, 0x3D, 0x3E, 0x3F, 0x40, 0x41, 0x42}" by auto
    then show ?thesis by (auto simp: word_unat_eq_iff)
  qed
  then show ?thesis using assms(3,4)
    by (auto simp: do_normal_key_def do_fx_key_def get_key_def KEY_RSHIFT_def KEY_LSHIFT_def KEY_CAPS_def
        KEY_ALT_def KEY_CTRL_def KEY_F1_def KEY_F8_def)
qed

theorem function_key_selects_witness:
  "do_normal_key 0xBC (upd_kbd (\<lambda>k. k\<lparr>lctrl_press := True\<rparr>) input_state) =
     Done () (tty_select 1 (upd_kbd (\<lambda>k. k\<lparr>lctrl_press := True\<rparr>) input_state))"
  using function_key_selects [of "0x3C" "upd_kbd (\<lambda>k. k\<lparr>lctrl_press := True\<rparr>) input_state" "0xBC"]
  by (simp add: KEY_F1_def KEY_F8_def upd_kbd_def)

end
