(* ===== verification/Klib.thy ===== *)
theory Klib
  imports Memory "HOL-Library.Signed_Division"
begin

text \<open>
  The string and memory functions of src/src/kernel/lib/klib.c on a byte memory.  A loop that
  runs until it finds a NUL byte is a partial function: \<open>None\<close> is a loop that never ends.  A
  \<open>size\<close> that the code counts down to zero is the word of its bits, so that a negative one counts
  as the large number the code counts down from.

  The lemmas say what each function leaves in memory, byte for byte.  They also pin down where
  the functions differ from what their names suggest: \<open>k_strcpy\<close> stops at the first NUL of the
  \<^emph>\<open>old\<close> destination, \<open>k_strncpy\<close> drops or overruns a byte at the limit, \<open>k_strncmp\<close> ignores
  its limit, \<open>k_memcmp\<close> reports a difference for every non-empty block, and \<open>k_itoa\<close> writes a negative number
  in base 2, 8 or 16 without a sign and with its last digit first.
\<close>

subsection \<open>Strings\<close>

partial_function (option) strings_count_loop :: "mem \<Rightarrow> u32 \<Rightarrow> int \<Rightarrow> int option" where
  "strings_count_loop m start count =
     (if mem32 m start \<noteq> 0 then strings_count_loop m (start + 4) (count + 1) else Some count)"

definition strings_count :: "mem \<Rightarrow> u32 \<Rightarrow> int option" where
  "strings_count m start = (if start \<noteq> 0 then strings_count_loop m start 0 else Some 0)"

partial_function (option) file_name_end :: "mem \<Rightarrow> u32 \<Rightarrow> u32 option" where
  "file_name_end m s = (if m s \<noteq> 0 then file_name_end m (s + 1) else Some s)"

partial_function (option) file_name_back :: "mem \<Rightarrow> u32 \<Rightarrow> u32 \<Rightarrow> u32 option" where
  "file_name_back m name s =
     (if m s \<noteq> 0x5c \<and> m s \<noteq> 0x2f \<and> s \<ge> name then file_name_back m name (s - 1) else Some s)"

definition get_file_name :: "mem \<Rightarrow> u32 \<Rightarrow> u32 option" where
  "get_file_name m name =
     Option.bind (file_name_end m name) (\<lambda>e.
     Option.bind (file_name_back m name e) (\<lambda>s. Some (s + 1)))"

partial_function (option) strcpy_loop :: "u32 \<Rightarrow> u32 \<Rightarrow> mem \<Rightarrow> mem option" where
  "strcpy_loop dest src m =
     (if m dest \<noteq> 0 \<and> m src \<noteq> 0 then strcpy_loop (dest + 1) (src + 1) (m(dest := m src))
      else Some (m(dest := 0)))"

definition k_strcpy :: "u32 \<Rightarrow> u32 \<Rightarrow> mem \<Rightarrow> mem option" where
  "k_strcpy dest src m = (if dest = 0 \<or> src = 0 then Some m else strcpy_loop dest src m)"

function strncpy_loop :: "u32 \<Rightarrow> u32 \<Rightarrow> int \<Rightarrow> mem \<Rightarrow> u32 \<times> int \<times> mem" where
  "strncpy_loop d s sz m =
     (if sz > 0 \<and> m s \<noteq> 0 then strncpy_loop (d + 1) (s + 1) (sz - 1) (m(d := m s))
      else (d, sz - 1, m))"
  by pat_completeness auto
termination by (relation "measure (\<lambda>(d, s, sz, m). nat sz)") auto

definition k_strncpy :: "u32 \<Rightarrow> u32 \<Rightarrow> int \<Rightarrow> mem \<Rightarrow> mem" where
  "k_strncpy dest src sz m =
     (if dest = 0 \<or> src = 0 \<or> sz = 0 then m
      else let (d, sz', m') = strncpy_loop dest src sz m
           in if sz' = 0 then m'(d - 1 := 0) else m'(d := 0))"

partial_function (option) strncmp_loop :: "mem \<Rightarrow> u32 \<Rightarrow> u32 \<Rightarrow> int \<Rightarrow> (u32 \<times> u32) option" where
  "strncmp_loop m s1 s2 sz =
     (if m s1 \<noteq> 0 \<and> m s2 \<noteq> 0 \<and> m s1 = m s2 \<and> sz \<noteq> 0
      then strncmp_loop m (s1 + 1) (s2 + 1) sz else Some (s1, s2))"

definition k_strncmp :: "mem \<Rightarrow> u32 \<Rightarrow> u32 \<Rightarrow> int \<Rightarrow> int option" where
  "k_strncmp m s1 s2 sz =
     (if s1 = 0 \<or> s2 = 0 then Some (-1)
      else Option.bind (strncmp_loop m s1 s2 sz) (\<lambda>(p, q).
             Some (if m p = 0 \<or> m q = 0 \<or> m p = m q then 0 else 1)))"

partial_function (option) strlen_loop :: "mem \<Rightarrow> u32 \<Rightarrow> int \<Rightarrow> int option" where
  "strlen_loop m c len = (if m c \<noteq> 0 then strlen_loop m (c + 1) (len + 1) else Some len)"

definition k_strlen :: "mem \<Rightarrow> u32 \<Rightarrow> int option" where
  "k_strlen m str = (if str = 0 then Some 0 else strlen_loop m str 0)"

subsection \<open>Blocks\<close>

primrec memcpy_loop :: "nat \<Rightarrow> u32 \<Rightarrow> u32 \<Rightarrow> mem \<Rightarrow> mem" where
  "memcpy_loop 0 d s m = m"
| "memcpy_loop (Suc n) d s m = memcpy_loop n (d + 1) (s + 1) (m(d := m s))"

definition k_memcpy :: "u32 \<Rightarrow> u32 \<Rightarrow> u32 \<Rightarrow> mem \<Rightarrow> mem" where
  "k_memcpy dest src sz m =
     (if dest = 0 \<or> src = 0 \<or> sz = 0 then m else memcpy_loop (unat sz) dest src m)"

primrec memset_loop :: "nat \<Rightarrow> u32 \<Rightarrow> u8 \<Rightarrow> mem \<Rightarrow> mem" where
  "memset_loop 0 d v m = m"
| "memset_loop (Suc n) d v m = memset_loop n (d + 1) v (m(d := v))"

definition k_memset :: "u32 \<Rightarrow> u8 \<Rightarrow> u32 \<Rightarrow> mem \<Rightarrow> mem" where
  "k_memset dest v sz m = (if dest = 0 \<or> sz = 0 then m else memset_loop (unat sz) dest v m)"

primrec memcmp_loop :: "nat \<Rightarrow> u32 \<Rightarrow> u32 \<Rightarrow> mem \<Rightarrow> int" where
  "memcmp_loop 0 p q m = 0"
| "memcmp_loop (Suc n) p q m = (if m p \<noteq> m q then 1 else memcmp_loop n (p + 1) (q + 1) m)"

definition k_memcmp :: "mem \<Rightarrow> u32 \<Rightarrow> u32 \<Rightarrow> u32 \<Rightarrow> int" where
  "k_memcmp m d1 d2 sz =
     (if d1 = 0 \<or> d2 = 0 \<or> sz \<noteq> 0 then 1 else memcmp_loop (unat sz) d1 d2 m)"

subsection \<open>Numbers\<close>

definition num2ch :: "u8 list" where
  "num2ch = bytes_of ''FEDCBA9876543210123456789ABCDEF''"

partial_function (option) itoa_loop :: "int \<Rightarrow> int \<Rightarrow> u32 \<Rightarrow> mem \<Rightarrow> (u32 \<times> mem) option" where
  "itoa_loop base num p m =
     (let m1 = m(p := num2ch ! nat (num smod base + 15)); num1 = num sdiv base
      in if num1 \<noteq> 0 then itoa_loop base num1 (p + 1) m1 else Some (p + 1, m1))"

function rev_loop :: "u32 \<Rightarrow> u32 \<Rightarrow> mem \<Rightarrow> mem" where
  "rev_loop start p m =
     (if start < p then rev_loop (start + 1) (p - 1) (m(start := m p, p := m start)) else m)"
  by pat_completeness auto
termination
proof (relation "measure (\<lambda>(start, p, m). unat p - unat start)")
  fix start p :: u32 and m :: mem
  assume a: "start < p"
  have "unat p < 2 ^ 32" using unsigned_less [of p] by simp
  with a have "unat (start + 1) = Suc (unat start)" "unat (p - 1) = unat p - 1" "unat start < unat p"
    by (auto simp: unat_word_ariths word_less_nat_alt unat_sub_if_size word_size)
  then show "((start + 1, p - 1, m(start := m p, p := m start)), start, p, m)
      \<in> measure (\<lambda>(start, p, m). unat p - unat start)" by simp
qed simp

definition k_itoa :: "u32 \<Rightarrow> int \<Rightarrow> int \<Rightarrow> mem \<Rightarrow> mem option" where
  "k_itoa buf num base m =
     (if base \<noteq> 2 \<and> base \<noteq> 8 \<and> base \<noteq> 10 \<and> base \<noteq> 16 then Some (m(buf := 0))
      else let (p, m1) = (if num < 0 \<and> base = 10 then (buf + 1, m(buf := 0x2d)) else (buf, m))
           in Option.bind (itoa_loop base num p m1) (\<lambda>(p1, m2).
                let m3 = m2(p1 := 0); p2 = p1 - 1; start = (if num > 0 then buf else buf + 1)
                in Some (rev_loop start p2 m3)))"

text \<open>The formatted print: the format string and the string arguments are given by their
  bytes.  An argument that is missing or of the wrong kind is undefined behaviour.\<close>

fun vsprint_loop :: "bool \<Rightarrow> u8 list \<Rightarrow> va_arg list \<Rightarrow> u32 \<Rightarrow> mem \<Rightarrow> (u32 \<times> mem) res" where
  "vsprint_loop st [] args cur m = Inr (cur, m)"
| "vsprint_loop False (ch # fmt) args cur m =
     (if ch = of_char CHR ''%'' then vsprint_loop True fmt args cur m
      else vsprint_loop False fmt args (cur + 1) (m(cur := ch)))"
| "vsprint_loop True (ch # fmt) args cur m =
     (if ch = of_char CHR ''d'' \<or> ch = of_char CHR ''x'' then
        (case args of
           VInt num # args' \<Rightarrow>
             (case k_itoa cur num (if ch = of_char CHR ''d'' then 10 else 16) m of
                None \<Rightarrow> Inl Diverges
              | Some m1 \<Rightarrow>
                  (case k_strlen m1 cur of
                     None \<Rightarrow> Inl Diverges
                   | Some n \<Rightarrow> vsprint_loop False fmt args' (cur + of_int n) m1))
         | _ \<Rightarrow> Inl OutOfBounds)
      else if ch = of_char CHR ''c'' then
        (case args of
           VInt c # args' \<Rightarrow> vsprint_loop False fmt args' (cur + 1) (m(cur := of_int c))
         | _ \<Rightarrow> Inl OutOfBounds)
      else if ch = of_char CHR ''s'' then
        (case args of
           VStr str # args' \<Rightarrow>
             vsprint_loop False fmt args' (cur + of_nat (length str)) (put_bytes m cur (bytes_of str))
         | _ \<Rightarrow> Inl OutOfBounds)
      else vsprint_loop False fmt args cur m)"

definition k_vsprint :: "u32 \<Rightarrow> u8 list \<Rightarrow> va_arg list \<Rightarrow> mem \<Rightarrow> mem res" where
  "k_vsprint buf fmt args m = res_bind (vsprint_loop False fmt args buf m) (\<lambda>(_, m'). Inr m')"

declare strncpy_loop.simps [simp del] rev_loop.simps [simp del]

subsection \<open>What the string functions do\<close>

lemma strlen_loop_cstr: "cstr m p s \<Longrightarrow> strlen_loop m p n = Some (n + int (length s))"
proof (induction s arbitrary: p n)
  case Nil
  then show ?case by (subst strlen_loop.simps) simp
next
  case (Cons x s)
  then show ?case by (subst strlen_loop.simps) simp
qed

lemma k_strlen_cstr: "cstr m p s \<Longrightarrow> p \<noteq> 0 \<Longrightarrow> k_strlen m p = Some (int (length s))"
  by (simp add: k_strlen_def strlen_loop_cstr)

text \<open>\<open>k_strcpy\<close> copies no more bytes than the old destination string has.\<close>

lemma strcpy_loop_cstr:
  assumes "cstr m d x" "cstr m s y" "region d (Suc (length x)) \<inter> region s (Suc (length y)) = {}"
  shows "strcpy_loop d s m = Some (put_bytes m d (take (min (length x) (length y)) y @ [0]))"
  using assms
proof (induction x arbitrary: d s y m)
  case Nil
  then show ?case by (subst strcpy_loop.simps) simp
next
  case (Cons a x)
  show ?case
  proof (cases y)
    case Nil
    with Cons.prems show ?thesis by (subst strcpy_loop.simps) simp
  next
    case (Cons b y')
    let ?m = "m(d := b)"
    from Cons.prems Cons have dj: "d \<notin> region s (Suc (length y))" "d \<notin> region (s + 1) (Suc (length y'))"
      "region (d + 1) (Suc (length x)) \<inter> region (s + 1) (Suc (length y')) = {}" "d \<noteq> s"
      by (auto simp: region_insert)
    have "cstr ?m (s + 1) y'" "cstr ?m (d + 1) x"
      using Cons.prems(1,2) Cons dj(2) cstr_upd_before [of m d a x b] by (simp_all add: cstr_upd_other)
    then have e: "strcpy_loop (d + 1) (s + 1) ?m =
        Some (put_bytes ?m (d + 1) (take (min (length x) (length y')) y' @ [0]))"
      using dj(3) by (intro Cons.IH)
    show ?thesis
      unfolding Cons using Cons.prems(1,2) Cons by (subst strcpy_loop.simps) (simp add: e)
  qed
qed

text \<open>\<open>k_strncpy\<close>: the loop copies the shorter of the string and the limit; what is stored after
  it depends on which of the two ended it.\<close>

lemma strncpy_loop_cstr:
  assumes "cstr m s y" "region d (min (length y) (nat n)) \<inter> region s (Suc (length y)) = {}" "0 \<le> n"
  shows "strncpy_loop d s n m =
    (let k = min (length y) (nat n)
     in (d + of_nat k, n - int k - 1, put_bytes m d (take k y)))"
  using assms
proof (induction y arbitrary: d s m n)
  case Nil
  then show ?case by (subst strncpy_loop.simps) simp
next
  case (Cons a y)
  show ?case
  proof (cases "n = 0")
    case True
    then show ?thesis by (subst strncpy_loop.simps) simp
  next
    case False
    define k where "k = nat (n - 1)"
    with False Cons.prems(3) have k: "nat n = Suc k" "nat (n - 1) = k" "0 < n" by auto
    let ?m = "m(d := a)"
    have dj: "d \<notin> region (s + 1) (Suc (length y))"
      "region (d + 1) (min (length y) (nat (n - 1))) \<inter> region (s + 1) (Suc (length y)) = {}"
      using Cons.prems(2) k by (auto simp: region_insert)
    have "cstr ?m (s + 1) y" using Cons.prems(1) dj(1) by (simp add: cstr_upd_other)
    have "0 \<le> n - 1" using k by simp
    then have e: "strncpy_loop (d + 1) (s + 1) (n - 1) ?m =
        (let k = min (length y) (nat (n - 1))
         in (d + 1 + of_nat k, n - 1 - int k - 1, put_bytes ?m (d + 1) (take k y)))"
      using \<open>cstr ?m (s + 1) y\<close> dj(2) by (intro Cons.IH)
    have "strncpy_loop d s n m = strncpy_loop (d + 1) (s + 1) (n - 1) ?m"
      using Cons.prems(1) k by (subst strncpy_loop.simps) simp
    then show ?thesis using k by (simp add: e Let_def add.assoc)
  qed
qed

lemma k_strncpy_cstr:
  assumes "cstr m s y" "region d (min (length y) (nat n)) \<inter> region s (Suc (length y)) = {}"
    and "0 < n" "d \<noteq> 0" "s \<noteq> 0"
  shows "k_strncpy d s n m =
    (if int (length y) < n - 1 then put_bytes m d (y @ [0])
     else if int (length y) = n - 1 then (put_bytes m d y)(d + of_nat (length y) - 1 := 0)
     else (put_bytes m d (take (nat n) y))(d + of_nat (nat n) := 0))"
proof -
  have "strncpy_loop d s n m =
      (d + of_nat (min (length y) (nat n)), n - int (min (length y) (nat n)) - 1,
       put_bytes m d (take (min (length y) (nat n)) y))"
    using strncpy_loop_cstr [OF assms(1,2)] assms(3) by (simp add: Let_def)
  moreover have "int (length y) < n - 1 \<Longrightarrow> min (length y) (nat n) = length y"
    "int (length y) = n - 1 \<Longrightarrow> min (length y) (nat n) = length y"
    "n - 1 < int (length y) \<Longrightarrow> min (length y) (nat n) = nat n" by auto
  ultimately show ?thesis
    using assms(3-5) by (auto simp: k_strncpy_def put_bytes_append)
qed

text \<open>\<open>k_strncmp\<close> reports a difference exactly when the strings differ before either ends.\<close>

lemma strncmp_loop_cstr:
  assumes "cstr m p x" "cstr m q y" "n \<noteq> 0"
  shows "\<exists>k. strncmp_loop m p q n = Some (p + of_nat k, q + of_nat k) \<and> k \<le> length x \<and> k \<le> length y \<and>
     take k x = take k y \<and> (k < length x \<and> k < length y \<longrightarrow> x ! k \<noteq> y ! k)"
  using assms
proof (induction x arbitrary: p q y)
  case Nil
  then show ?case by (subst strncmp_loop.simps) auto
next
  case (Cons a x)
  show ?case
  proof (cases "\<exists>y'. y = a # y'")
    case True
    then obtain y' where y: "y = a # y'" by blast
    from Cons.IH [of "p + 1" "q + 1" y'] Cons.prems y obtain k where
      k: "strncmp_loop m (p + 1) (q + 1) n = Some (p + 1 + of_nat k, q + 1 + of_nat k)" "k \<le> length x" "k \<le> length y'"
        "take k x = take k y'" "k < length x \<and> k < length y' \<longrightarrow> x ! k \<noteq> y' ! k" by auto
    with Cons.prems y show ?thesis
      by (intro exI [of _ "Suc k"], subst strncmp_loop.simps) (simp add: add.assoc)
  next
    case False
    then have "m q = 0 \<or> m q \<noteq> a" using Cons.prems(2) by (cases y) auto
    with Cons.prems False show ?thesis
      by (intro exI [of _ 0], subst strncmp_loop.simps) (cases y, auto)
  qed
qed

lemma k_strncmp_cstr:
  assumes "cstr m p x" "cstr m q y" "n \<noteq> 0" "p \<noteq> 0" "q \<noteq> 0"
  shows "k_strncmp m p q n = Some (if take (length y) x = y \<or> take (length x) y = x then 0 else 1)"
proof -
  obtain k where k: "strncmp_loop m p q n = Some (p + of_nat k, q + of_nat k)" "k \<le> length x" "k \<le> length y"
    "take k x = take k y" "k < length x \<and> k < length y \<longrightarrow> x ! k \<noteq> y ! k"
    using strncmp_loop_cstr [OF assms(1-3)] by blast
  have mx: "m (p + of_nat k) = (x @ [0]) ! k" "m (q + of_nat k) = (y @ [0]) ! k"
    using assms(1,2) k(2,3) by (auto simp: cstr_def simp del: at_bytes_append intro!: at_bytes_nth)
  have nz: "k < length x \<Longrightarrow> x ! k \<noteq> 0" "k < length y \<Longrightarrow> y ! k \<noteq> 0"
    using assms(1,2) by (auto simp: cstr_def in_set_conv_nth)
  show ?thesis
  proof (cases "k < length x \<and> k < length y")
    case True
    with k(5) have d: "x ! k \<noteq> y ! k" by blast
    with True have "take (length y) x \<noteq> y" "take (length x) y \<noteq> x"
      by (metis nth_take)+
    with True d k(1) mx nz assms(4,5) show ?thesis
      by (simp add: k_strncmp_def nth_append)
  next
    case False
    with k(2,3) have "k = length x \<or> k = length y" by auto
    with k(1,4) mx assms(4,5) show ?thesis
      by (auto simp: k_strncmp_def nth_append)
  qed
qed

subsection \<open>What the block functions do\<close>

lemma memset_loop_eq: "n \<le> 2 ^ 32 \<Longrightarrow> memset_loop n d v m = put_bytes m d (replicate n v)"
  by (induction n arbitrary: d m) auto

lemma k_memset_eq: "dest \<noteq> 0 \<Longrightarrow> k_memset dest v n m = put_bytes m dest (replicate (unat n) v)"
  using unsigned_less [of n, where 'a = nat] by (auto simp: k_memset_def memset_loop_eq)

lemma memcpy_loop_at:
  assumes "at_bytes m s xs" "region d (length xs) \<inter> region s (length xs) = {}" "length xs \<le> 2 ^ 32"
  shows "memcpy_loop (length xs) d s m = put_bytes m d xs"
  using assms
proof (induction xs arbitrary: d s m)
  case (Cons x xs)
  then have "at_bytes (m(d := x)) (s + 1) xs"
    by (subst at_bytes_cong [of _ _ _ m]) (auto simp: region_insert)
  moreover have "region (d + 1) (length xs) \<inter> region (s + 1) (length xs) = {}"
    using Cons.prems(2) by (auto simp: region_insert)
  ultimately show ?case using Cons by simp
qed simp

lemma k_memcpy_at:
  assumes "at_bytes m s xs" "region d (length xs) \<inter> region s (length xs) = {}" "length xs < 2 ^ 32"
    and "d \<noteq> 0" "s \<noteq> 0"
  shows "k_memcpy d s (of_nat (length xs)) m = put_bytes m d xs"
proof -
  have "unat (of_nat (length xs) :: u32) = length xs" using assms(3) by (simp add: unat_of_nat)
  moreover from this have "(of_nat (length xs) :: u32) = 0 \<longleftrightarrow> xs = []"
    by (metis length_0_conv unat_eq_zero)
  ultimately show ?thesis
    using assms memcpy_loop_at [OF assms(1,2)] by (auto simp: k_memcpy_def)
qed

subsection \<open>What the number printer does\<close>

definition digit :: "nat \<Rightarrow> u8" where
  "digit d = (if d < 10 then 48 + of_nat d else 55 + of_nat d)"

function digits_of :: "nat \<Rightarrow> nat \<Rightarrow> u8 list" where
  "digits_of b n = (if b \<le> 1 \<or> n < b then [digit n] else digits_of b (n div b) @ [digit (n mod b)])"
  by pat_completeness auto
termination by (relation "measure snd") auto

declare digits_of.simps [simp del]

text \<open>The text of a number: a minus sign and the digits of the absolute value.\<close>

definition itoa_text :: "nat \<Rightarrow> int \<Rightarrow> u8 list" where
  "itoa_text b num = (if num < 0 then [0x2d] else []) @ digits_of b (nat \<bar>num\<bar>)"

lemma num2ch_digit: "\<bar>r\<bar> < 16 \<Longrightarrow> num2ch ! nat (r + 15) = digit (nat \<bar>r\<bar>)"
proof -
  have "\<forall>r \<in> set [-15..15]. num2ch ! nat (r + 15) = digit (nat \<bar>r\<bar>)" by code_simp
  moreover assume "\<bar>r\<bar> < 16"
  then have "-15 \<le> r" "r \<le> 15" by linarith+
  then have "r \<in> set [-15..15]" by (simp only: set_upto atLeastAtMost_iff)
  ultimately show ?thesis by blast
qed

lemma sdivmod_abs:
  assumes "0 < (b :: int)"
  shows "\<bar>num sdiv b\<bar> = \<bar>num\<bar> div b" "\<bar>num smod b\<bar> = \<bar>num\<bar> mod b"
proof -
  show 1: "\<bar>num sdiv b\<bar> = \<bar>num\<bar> div b"
    using assms by (simp add: signed_divide_int_def abs_mult sgn_if pos_imp_zdiv_nonneg_iff)
  have "num smod b = sgn num * (\<bar>num\<bar> mod b)"
    using assms by (simp add: signed_modulo_int_def signed_divide_int_def sgn_if minus_div_mult_eq_mod [symmetric])
  then show "\<bar>num smod b\<bar> = \<bar>num\<bar> mod b"
    using assms by (auto simp: abs_mult sgn_if)
qed

lemma rev_digits_of:
  "2 \<le> b \<Longrightarrow> rev (digits_of b n) = digit (n mod b) # (if n < b then [] else rev (digits_of b (n div b)))"
  by (subst digits_of.simps) auto

lemma itoa_loop_digits:
  assumes "2 \<le> b" "b \<le> 16"
  shows "itoa_loop (int b) num p m =
     (let ds = rev (digits_of b (nat \<bar>num\<bar>)) in Some (p + of_nat (length ds), put_bytes m p ds))"
proof (induction "nat \<bar>num\<bar>" arbitrary: num p m rule: less_induct)
  case less
  let ?n = "nat \<bar>num\<bar>"
  have b: "0 < int b" using assms by simp
  have q: "nat \<bar>num sdiv int b\<bar> = ?n div b" and r: "nat \<bar>num smod int b\<bar> = ?n mod b"
    unfolding sdivmod_abs [OF b] using assms by (simp_all add: nat_div_distrib nat_mod_distrib)
  have rb: "\<bar>num smod int b\<bar> < 16"
    unfolding sdivmod_abs(2) [OF b] using assms pos_mod_bound [of "int b" "\<bar>num\<bar>"] by linarith
  have dg: "num2ch ! nat (num smod int b + 15) = digit (?n mod b)"
    using num2ch_digit [OF rb] r by simp
  have z: "num sdiv int b = 0 \<longleftrightarrow> ?n < b"
    using q assms by (auto simp: div_eq_0_iff)
  show ?case
  proof (cases "?n < b")
    case True
    with assms show ?thesis
      by (subst itoa_loop.simps) (simp add: Let_def dg z rev_digits_of)
  next
    case False
    then have "nat \<bar>num sdiv int b\<bar> < ?n" using q assms by simp
    from less [OF this] False assms show ?thesis
      by (subst itoa_loop.simps) (simp add: Let_def dg z q rev_digits_of [of b ?n] add.assoc)
  qed
qed

text \<open>The final loop reverses the bytes from \<open>start\<close> to \<open>p\<close>.\<close>

lemma rev_loop_stop: "\<not> start < p \<Longrightarrow> rev_loop start p m = m"
  by (simp add: rev_loop.simps)

lemma ptr_add_less:
  "unat p + n < 2 ^ 32 \<Longrightarrow> i < j \<Longrightarrow> j \<le> n \<Longrightarrow> (p :: u32) + of_nat i < p + of_nat j"
  by (simp add: word_less_nat_alt unat_word_ariths unat_of_nat)

lemma rev_loop_bytes:
  assumes "at_bytes m start xs" "unat start + length xs < 2 ^ 32" "start \<noteq> 0"
  shows "rev_loop start (start + of_nat (length xs) - 1) m = put_bytes m start (rev xs)"
  using assms
proof (induction "length xs" arbitrary: xs start m rule: less_induct)
  case less
  consider "xs = []" | x where "xs = [x]" | x ys y where "xs = x # ys @ [y]"
    by (metis neq_Nil_conv rev_exhaust)
  then show ?case
  proof cases
    case 1
    have "unat start \<noteq> 0" using less.prems(3) by (simp add: unat_eq_zero)
    then have "start - 1 < start" using less.prems(3) by (simp add: word_less_nat_alt unat_minus_one)
    with 1 show ?thesis by (simp add: rev_loop_stop)
  next
    case 2
    with less.prems show ?thesis by (auto simp: rev_loop_stop)
  next
    case 3
    let ?p = "start + of_nat (Suc (length ys))"
    have p: "start + of_nat (length xs) - 1 = ?p" using 3 by simp
    have lt: "start < ?p"
      using ptr_add_less [of start "length xs" 0 "Suc (length ys)"] less.prems(2) 3 by simp
    have m: "m start = x" "m ?p = y" "at_bytes m (start + 1) ys"
      using less.prems(1) 3 by (simp_all add: add.assoc)
    let ?m = "m(start := y, ?p := x)"
    have nin: "start \<notin> region (start + 1) (length ys)" "?p \<notin> region (start + 1) (length ys)"
      using less.prems(2) 3 region_distinct [of "length ys" start] region_end [of "length ys" "start + 1"]
      by (simp_all add: add.assoc)
    have "at_bytes ?m (start + 1) ys"
      using m(3) nin by (subst at_bytes_cong [of _ _ _ m]) auto
    moreover have "unat (start + 1) = Suc (unat start)"
      using less.prems(2) 3 by (simp add: unat_word_ariths)
    moreover from this have "start + 1 \<noteq> 0" by (metis nat.simps(3) unat_0)
    ultimately have ih: "rev_loop (start + 1) (start + 1 + of_nat (length ys) - 1) ?m = put_bytes ?m (start + 1) (rev ys)"
      using less.prems(2) 3 by (intro less.hyps) simp_all
    have "rev_loop start ?p m = put_bytes ?m (start + 1) (rev ys)"
      using lt m ih by (subst rev_loop.simps) (simp add: add.assoc)
    also have "\<dots> = put_bytes m start (rev xs)"
    proof (rule mem_eqI)
      have "1 + (of_nat (length ys) :: u32) \<noteq> 0"
        using lt by (metis add.right_neutral less_irrefl of_nat_Suc)
      then show "at_bytes (put_bytes ?m (start + 1) (rev ys)) start (rev xs)"
        using nin less.prems(2) 3
        by (simp add: put_bytes_other put_bytes_at add.assoc)
      fix q
      assume "q \<notin> region start (length (rev xs))"
      moreover have "region start (length xs) = insert start (insert ?p (region (start + 1) (length ys)))"
        using 3 region_append [of start "Suc (length ys)" 1] by (auto simp: region_insert)
      ultimately show "put_bytes ?m (start + 1) (rev ys) q = m q"
        by (simp add: put_bytes_other)
    qed (use less.prems(2) in simp)
    finally show ?thesis by (simp only: p)
  qed
qed

lemma digits_of_length: "n < 2 ^ k \<Longrightarrow> 2 \<le> b \<Longrightarrow> length (digits_of b n) \<le> max 1 k"
proof (induction k arbitrary: n)
  case 0
  then show ?case by (subst digits_of.simps) simp
next
  case (Suc k)
  show ?case
  proof (cases "n < b")
    case True
    then show ?thesis by (subst digits_of.simps) simp
  next
    case False
    have "n div b < 2 ^ k"
    proof (rule less_mult_imp_div_less)
      have "2 * 2 ^ k \<le> b * 2 ^ k" using Suc.prems(2) by simp
      with Suc.prems(1) have "n < b * 2 ^ k" unfolding power_Suc by (rule order_less_le_trans)
      then show "n < 2 ^ k * b" by (simp add: mult.commute)
    qed
    moreover have "k \<noteq> 0" using Suc.prems False by (cases k) auto
    ultimately show ?thesis
      using Suc.IH [of "n div b"] Suc.prems(2) False by (subst digits_of.simps) simp
  qed
qed

lemma rev_loop_text:
  assumes "length ds \<le> 32" "p \<noteq> 0" "unat p + 40 \<le> 2 ^ 32"
  shows "rev_loop p (p + of_nat (length ds) - 1) (put_bytes m p (rev ds @ [0])) = put_bytes m p (ds @ [0])"
proof -
  let ?m = "put_bytes m p (rev ds @ [0])"
  have at: "at_bytes ?m p (rev ds @ [0])" using assms(1) by (intro put_bytes_at) simp
  have "rev_loop p (p + of_nat (length (rev ds)) - 1) ?m = put_bytes ?m p (rev (rev ds))"
    using at assms by (intro rev_loop_bytes) auto
  also have "\<dots> = put_bytes m p (ds @ [0])"
  proof (rule mem_eqI)
    have "p + of_nat (length ds) \<notin> region p (length ds)"
      using assms(1) by (intro region_end) simp
    with at show "at_bytes (put_bytes ?m p (rev (rev ds))) p (ds @ [0])"
      using assms(1) put_bytes_at [of ds ?m p] by (simp add: put_bytes_other)
    show "put_bytes ?m p (rev (rev ds)) q = m q" if "q \<notin> region p (length (ds @ [0]))" for q
    proof -
      have "q \<notin> region p (length ds)" using that region_mono [of "length ds" "Suc (length ds)" p] by auto
      with that show ?thesis by (simp add: put_bytes_other)
    qed
  qed (use assms(1) in simp)
  finally show ?thesis by simp
qed

lemma k_itoa_text:
  assumes "b \<in> {2, 8, 10, 16}" "0 \<le> num \<or> b = 10" "\<bar>num\<bar> \<le> 2 ^ 31" "0 < unat buf" "unat buf + 40 < 2 ^ 32"
  shows "k_itoa buf num (int b) m = Some (put_bytes m buf (itoa_text b num @ [0]))"
proof -
  have b: "2 \<le> b" "b \<le> 16" using assms(1) by auto
  let ?ds = "digits_of b (nat \<bar>num\<bar>)" and ?neg = "num < 0"
  have "nat \<bar>num\<bar> < 2 ^ 32" using assms(3) by (simp add: nat_less_iff)
  from digits_of_length [OF this b(1)] have l: "length ?ds \<le> 32" by simp
  have "?ds \<noteq> []" by (subst digits_of.simps) simp
  then have l0: "0 < length ?ds" by simp
  let ?p = "if ?neg then buf + 1 else buf" and ?m = "if ?neg then m(buf := 0x2d) else m"
  let ?m3 = "put_bytes ?m ?p (rev ?ds @ [0])"
  have start: "k_itoa buf num (int b) m =
      Some (rev_loop (if num > 0 then buf else buf + 1) (?p + of_nat (length ?ds) - 1) ?m3)"
    using assms(1,2) by (auto simp: k_itoa_def itoa_loop_digits [OF b] Let_def put_bytes_append)
  have u: "unat (buf + 1) = Suc (unat buf)" using assms(5) by (simp add: unat_word_ariths)
  have nz: "buf \<noteq> 0" "buf + 1 \<noteq> 0" using assms(4) u by (auto simp: unat_eq_zero [symmetric])
  have rv: "rev_loop ?p (?p + of_nat (length ?ds) - 1) ?m3 = put_bytes ?m ?p (?ds @ [0])"
    using l nz u assms(5) by (intro rev_loop_text) auto
  have tx: "put_bytes ?m ?p (?ds @ [0]) = put_bytes m buf (itoa_text b num @ [0])"
    by (simp add: itoa_text_def)
  show ?thesis
  proof (cases "num = 0")
    case True
    then have d0: "?ds = [digit 0]" using b by (subst digits_of.simps) simp
    have "\<not> buf + 1 < buf" using u by (simp add: word_less_nat_alt)
    with True start d0 tx show ?thesis by (simp add: rev_loop_stop itoa_text_def)
  next
    case False
    then have "(if num > 0 then buf else buf + 1) = ?p" by auto
    then show ?thesis unfolding start using rv tx by simp
  qed
qed

text \<open>A negative number in another base: the code stores the digits from the last one on, without a sign, and
  reverses all but the first byte.\<close>

lemma k_itoa_negative:
  assumes "b \<in> {2, 8, 16}" "num < 0" "\<bar>num\<bar> \<le> 2 ^ 31" "0 < unat buf" "unat buf + 40 < 2 ^ 32"
    and "digits_of b (nat \<bar>num\<bar>) = ds @ [d]"
  shows "k_itoa buf num (int b) m = Some (put_bytes m buf (d # ds @ [0]))"
proof -
  have b: "2 \<le> b" "b \<le> 16" using assms(1) by auto
  have "nat \<bar>num\<bar> < 2 ^ 32" using assms(3) by (simp add: nat_less_iff)
  from digits_of_length [OF this b(1)] assms(6) have l: "length ds \<le> 31" by simp
  have u: "unat (buf + 1) = Suc (unat buf)" using assms(5) by (simp add: unat_word_ariths)
  then have nz: "buf + 1 \<noteq> 0" by (auto simp: unat_eq_zero [symmetric])
  have ds: "digits_of b (nat (- num)) = ds @ [d]" using assms(2,6) by simp
  have "k_itoa buf num (int b) m =
      Some (rev_loop (buf + 1) (buf + 1 + of_nat (length ds) - 1) (put_bytes (m(buf := d)) (buf + 1) (rev ds @ [0])))"
    using assms(1,2) ds by (auto simp: k_itoa_def itoa_loop_digits [OF b] Let_def put_bytes_append algebra_simps)
  also have "rev_loop (buf + 1) (buf + 1 + of_nat (length ds) - 1) (put_bytes (m(buf := d)) (buf + 1) (rev ds @ [0])) =
      put_bytes (m(buf := d)) (buf + 1) (ds @ [0])"
    using l nz u assms(5) by (intro rev_loop_text) auto
  finally show ?thesis by simp
qed

lemma itoa_text_nonzero: "2 \<le> b \<Longrightarrow> b \<le> 16 \<Longrightarrow> 0 \<notin> set (itoa_text b num)"
proof -
  assume b: "2 \<le> b" "b \<le> 16"
  have dz: "\<forall>d \<in> set [0..<16]. digit d \<noteq> 0" by code_simp
  have "0 \<notin> set (digits_of b n)" for n
  proof (induction n rule: less_induct)
    case (less n)
    have "digit (n mod b) \<noteq> 0" using dz b by (auto simp: less_le_trans [OF mod_less_divisor])
    moreover have "n < b \<Longrightarrow> digit n \<noteq> 0" using dz b by auto
    ultimately show ?case using less [of "n div b"] b by (subst digits_of.simps) auto
  qed
  then show ?thesis by (simp add: itoa_text_def)
qed

text \<open>Reading a printed number back.\<close>

definition digit_val :: "u8 \<Rightarrow> nat" where
  "digit_val c = (if unat c < 58 then unat c - 48 else unat c - 55)"

definition text_value :: "nat \<Rightarrow> u8 list \<Rightarrow> int" where
  "text_value b cs =
     (let val = (\<lambda>ds. int (foldl (\<lambda>a c. a * b + digit_val c) 0 ds))
      in case cs of [] \<Rightarrow> 0 | c # ds \<Rightarrow> if c = 0x2d then - val ds else val cs)"

lemma digit_facts: "d < 16 \<Longrightarrow> digit_val (digit d) = d \<and> digit d \<noteq> 0x2d \<and> digit d \<noteq> 0"
proof -
  have "\<forall>d \<in> set [0..<16]. digit_val (digit d) = d \<and> digit d \<noteq> 0x2d \<and> digit d \<noteq> 0" by code_simp
  then show "d < 16 \<Longrightarrow> ?thesis" by (metis atLeastLessThan_iff le0 set_upt)
qed

lemma digits_of_value:
  assumes "2 \<le> b" "b \<le> 16"
  shows "foldl (\<lambda>a c. a * b + digit_val c) 0 (digits_of b n) = n \<and> 0 \<notin> set (digits_of b n) \<and>
         digits_of b n \<noteq> [] \<and> hd (digits_of b n) \<noteq> 0x2d"
proof (induction n rule: less_induct)
  case (less n)
  have md: "n mod b < 16" using assms mod_less_divisor [of b n] by linarith
  show ?case
  proof (cases "n < b")
    case True
    with assms digit_facts [of n] show ?thesis by (subst (1 2 3 4) digits_of.simps) simp
  next
    case False
    then have "n div b < n" using assms by simp
    from less [OF this] digit_facts [OF md] assms False show ?thesis
      by (subst (1 2 3 4) digits_of.simps) (auto simp: div_mult_mod_eq)
  qed
qed

lemma itoa_text_value:
  assumes "2 \<le> b" "b \<le> 16" shows "text_value b (itoa_text b num) = num"
proof -
  let ?ds = "digits_of b (nat \<bar>num\<bar>)"
  obtain c cs where "?ds = c # cs" "c \<noteq> 0x2d"
    using digits_of_value [OF assms, of "nat \<bar>num\<bar>"] by (metis list.exhaust_sel)
  with digits_of_value [OF assms, of "nat \<bar>num\<bar>"] show ?thesis
    by (auto simp: text_value_def itoa_text_def)
qed

subsection \<open>What the formatted print does\<close>

text \<open>The text a format stands for.  Undefined for an argument of the wrong kind, and for a
  negative number in base 16, which the code prints in an order of its own.\<close>

fun render :: "bool \<Rightarrow> u8 list \<Rightarrow> va_arg list \<Rightarrow> u8 list option" where
  "render st [] args = Some []"
| "render False (ch # fmt) args =
     (if ch = of_char CHR ''%'' then render True fmt args else map_option ((#) ch) (render False fmt args))"
| "render True (ch # fmt) args =
     (if ch = of_char CHR ''d'' then
        (case args of VInt n # as \<Rightarrow> if \<bar>n\<bar> \<le> 2 ^ 31 then map_option ((@) (itoa_text 10 n)) (render False fmt as) else None
                    | _ \<Rightarrow> None)
      else if ch = of_char CHR ''x'' then
        (case args of VInt n # as \<Rightarrow> if 0 \<le> n \<and> n \<le> 2 ^ 31 then map_option ((@) (itoa_text 16 n)) (render False fmt as) else None
                    | _ \<Rightarrow> None)
      else if ch = of_char CHR ''c'' then
        (case args of VInt n # as \<Rightarrow> map_option ((#) (of_int n)) (render False fmt as) | _ \<Rightarrow> None)
      else if ch = of_char CHR ''s'' then
        (case args of VStr s # as \<Rightarrow> map_option ((@) (bytes_of s)) (render False fmt as) | _ \<Rightarrow> None)
      else render False fmt args)"

lemma length_bytes_of [simp]: "length (bytes_of s) = length s"
  by (simp add: bytes_of_def)

lemma ptr_plus:
  assumes "unat (p :: u32) + n < 2 ^ 32" shows "unat (p + of_nat n) = unat p + n"
  using assms by (simp add: unat_word_ariths unat_of_nat)

text \<open>One piece of output followed by the rest.\<close>

lemma render_piece:
  assumes "at_bytes m1 (cur + of_nat (length w)) out" "\<forall>q. q \<notin> region (cur + of_nat (length w)) (Suc (length out)) \<longrightarrow> m1 q = mw q"
    and "at_bytes mw cur w" "\<forall>q. q \<notin> region cur (Suc (length w)) \<longrightarrow> mw q = m q"
    and "length w + length out < 2 ^ 31"
  shows "at_bytes m1 cur (w @ out) \<and> (\<forall>q. q \<notin> region cur (Suc (length (w @ out))) \<longrightarrow> m1 q = m q)"
proof -
  have r: "region cur (Suc (length (w @ out))) = region cur (length w) \<union> region (cur + of_nat (length w)) (Suc (length out))"
    using region_append [of cur "length w" "Suc (length out)"] by simp
  have dj: "region cur (length w) \<inter> region (cur + of_nat (length w)) (Suc (length out)) = {}"
  proof -
    { fix i j assume ij: "i < length w" "j < Suc (length out)" "cur + of_nat i = cur + of_nat (length w) + of_nat j"
      then have "(of_nat i :: u32) = of_nat (length w + j)" by (simp add: add.assoc)
      with ij assms(5) have False using of_nat_word_inj [of i "length w + j"] by simp }
    then show ?thesis unfolding region_def by blast
  qed
  have "at_bytes m1 cur w"
    using assms(2,3) dj by (subst at_bytes_cong [of _ _ _ mw]) auto
  moreover have "region cur (Suc (length w)) \<subseteq> region cur (Suc (length (w @ out)))"
    by (rule region_mono) simp
  ultimately show ?thesis using assms(1,2,4) r by (auto simp: subset_iff)
qed

lemma vsprint_loop_render:
  assumes "render st fmt args = Some out" "0 < unat cur" "unat cur + length out + 40 < 2 ^ 31"
  shows "\<exists>m'. vsprint_loop st fmt args cur m = Inr (cur + of_nat (length out), m') \<and> at_bytes m' cur out \<and>
           (\<forall>q. q \<notin> region cur (Suc (length out)) \<longrightarrow> m' q = m q)"
  using assms
proof (induction fmt arbitrary: st args out cur m)
  case Nil
  then show ?case by simp
next
  case (Cons ch fmt)
  have piece: ?case
    if "render st' fmt as = Some t" "out = w @ t"
      "vsprint_loop st (ch # fmt) args cur m = vsprint_loop st' fmt as (cur + of_nat (length w)) mw"
      "at_bytes mw cur w" "\<forall>q. q \<notin> region cur (Suc (length w)) \<longrightarrow> mw q = m q" for st' as t w mw
  proof -
    note h = that
    have u: "unat (cur + of_nat (length w)) = unat cur + length w"
      using Cons.prems(3) h(2) by (intro ptr_plus) simp
    obtain m' where m': "vsprint_loop st' fmt as (cur + of_nat (length w)) mw =
        Inr (cur + of_nat (length w) + of_nat (length t), m')"
      "at_bytes m' (cur + of_nat (length w)) t"
      "\<forall>q. q \<notin> region (cur + of_nat (length w)) (Suc (length t)) \<longrightarrow> m' q = mw q"
      using Cons.IH [OF h(1), of "cur + of_nat (length w)" mw] u Cons.prems(2,3) h(2) by auto
    have "at_bytes m' cur (w @ t) \<and> (\<forall>q. q \<notin> region cur (Suc (length (w @ t))) \<longrightarrow> m' q = m q)"
      by (rule render_piece [OF m'(2,3) h(4,5)]) (use Cons.prems(3) h(2) in simp)
    with m'(1) h(2,3) show ?thesis by (auto simp: add.assoc)
  qed
  have num: ?case
    if "render False fmt as = Some t" "out = itoa_text b n @ t" "b \<in> {10, 16}" "0 \<le> n \<or> b = 10" "\<bar>n\<bar> \<le> 2 ^ 31"
      "vsprint_loop st (ch # fmt) args cur m =
        (case k_itoa cur n (int b) m of None \<Rightarrow> Inl Diverges
         | Some m1 \<Rightarrow> (case k_strlen m1 cur of None \<Rightarrow> Inl Diverges
                       | Some k \<Rightarrow> vsprint_loop False fmt as (cur + of_int k) m1))" for as t b n
  proof -
    let ?w = "itoa_text b n" and ?m = "put_bytes m cur (itoa_text b n @ [0])"
    have k: "k_itoa cur n (int b) m = Some ?m"
      using that(3-5) Cons.prems(2,3) by (intro k_itoa_text) auto
    have l: "length (?w @ [0]) \<le> 2 ^ 32" using Cons.prems(3) that(2) by simp
    have at: "at_bytes ?m cur (?w @ [0])" by (rule put_bytes_at [OF l])
    have "cstr ?m cur ?w" using at itoa_text_nonzero [of b n] that(3) by (auto simp: cstr_def)
    then have "k_strlen ?m cur = Some (int (length ?w))"
      using Cons.prems(2) by (intro k_strlen_cstr) (auto simp: unat_eq_zero [symmetric])
    then have v: "vsprint_loop st (ch # fmt) args cur m = vsprint_loop False fmt as (cur + of_nat (length ?w)) ?m"
      using that(6) k by simp
    show ?thesis
      by (rule piece [OF that(1,2) v]) (use at in \<open>auto simp: put_bytes_other\<close>)
  qed
  show ?case
  proof (cases st)
    case False
    show ?thesis
    proof (cases "ch = of_char CHR ''%''")
      case True
      with Cons.prems(1) False show ?thesis
        by (intro piece [where w = "[]" and st' = True and as = args and mw = m]) simp_all
    next
      case n: False
      with Cons.prems(1) False obtain t where "render False fmt args = Some t" "out = [ch] @ t" by auto
      with n False show ?thesis
        by (intro piece [where w = "[ch]" and st' = False and as = args and mw = "m(cur := ch)"])
           (simp_all add: region_insert)
    qed
  next
    case True
    then have st: "st = True" by simp
    note pr = Cons.prems(1) [unfolded st]
    consider "ch = of_char CHR ''d''" | "ch = of_char CHR ''x''" "ch \<noteq> of_char CHR ''d''"
      | "ch = of_char CHR ''c''" | "ch = of_char CHR ''s''"
      | "ch \<notin> {of_char CHR ''d'', of_char CHR ''x'', of_char CHR ''c'', of_char CHR ''s''}" by blast
    then show ?thesis
    proof cases
      case 1
      with pr obtain n as t where t: "args = VInt n # as" "\<bar>n\<bar> \<le> 2 ^ 31" "render False fmt as = Some t"
        "out = itoa_text 10 n @ t" by (auto split: list.splits va_arg.splits if_splits)
      with 1 True show ?thesis by (intro num [of as t 10 n]) simp_all
    next
      case 2
      with pr obtain n as t where t: "args = VInt n # as" "0 \<le> n" "n \<le> 2 ^ 31" "render False fmt as = Some t"
        "out = itoa_text 16 n @ t" by (auto split: list.splits va_arg.splits if_splits)
      with 2 True show ?thesis by (intro num [of as t 16 n]) simp_all
    next
      case 3
      with pr obtain n as t where t: "args = VInt n # as" "render False fmt as = Some t"
        "out = [of_int n] @ t" by (auto split: list.splits va_arg.splits if_splits)
      with 3 True show ?thesis
        by (intro piece [where w = "[of_int n]" and st' = False and as = as and mw = "m(cur := of_int n)"])
           (simp_all add: region_insert)
    next
      case 4
      with pr obtain str as t where t: "args = VStr str # as" "render False fmt as = Some t"
        "out = bytes_of str @ t" by (auto split: list.splits va_arg.splits if_splits)
      have "at_bytes (put_bytes m cur (bytes_of str)) cur (bytes_of str)"
        using Cons.prems(3) t(3) by (intro put_bytes_at) simp
      moreover have "\<forall>q. q \<notin> region cur (Suc (length (bytes_of str))) \<longrightarrow> put_bytes m cur (bytes_of str) q = m q"
        using region_mono [of "length str" "Suc (length str)" cur]
        by (intro allI impI put_bytes_other) (auto dest: subsetD)
      ultimately show ?thesis using 4 True t
        by (intro piece [where w = "bytes_of str" and st' = False and as = as and mw = "put_bytes m cur (bytes_of str)"])
           simp_all
    next
      case 5
      with pr True show ?thesis
        by (intro piece [where w = "[]" and st' = False and as = args and mw = m]) simp_all
    qed
  qed
qed

subsection \<open>Properties\<close>

lemma text_value_digits: "2 \<le> b \<Longrightarrow> b \<le> 16 \<Longrightarrow> text_value b (digits_of b n) = int n"
  using itoa_text_value [of b "int n"] by (simp add: itoa_text_def)

text \<open>
  C36: printing a number.  For every base the code supports and every 32-bit number \<open>k_itoa\<close> ends, leaves a
  NUL-terminated string at the buffer and changes no byte outside the string and its terminator.  The
  string of a number that is not negative, and of a negative one in base 10, reads back as the number.  The
  string of a negative number in base 2, 8 or 16 does not: it is the digits \<open>ds @ [d]\<close> of the absolute value with the
  last one first, and no sign.
\<close>

theorem k_itoa_roundtrip:
  assumes "b \<in> {2, 8, 10, 16}" "\<bar>num\<bar> \<le> 2 ^ 31" "0 < unat buf" "unat buf + 40 < 2 ^ 32"
  shows "\<exists>m' s. k_itoa buf num (int b) m = Some m' \<and> cstr m' buf s \<and>
           (if 0 \<le> num \<or> b = 10 then text_value b s = num
            else \<exists>ds d. text_value b (ds @ [d]) = - num \<and> s = d # ds) \<and>
           (\<forall>q. q \<notin> region buf (Suc (length s)) \<longrightarrow> m' q = m q)"
proof -
  have b: "2 \<le> b" "b \<le> 16" using assms(1) by auto
  let ?ds = "digits_of b (nat \<bar>num\<bar>)"
  have len: "length ?ds \<le> 32"
    using digits_of_length [of "nat \<bar>num\<bar>" 32 b] b(1) assms(2) by (simp add: nat_less_iff)
  have digits: "?ds \<noteq> []" "0 \<notin> set ?ds" using digits_of_value [OF b] by auto
  have out: ?thesis if k: "k_itoa buf num (int b) m = Some (put_bytes m buf (s @ [0]))"
    and s: "0 \<notin> set s" "length s \<le> 33"
    and v: "if 0 \<le> num \<or> b = 10 then text_value b s = num else \<exists>ds d. text_value b (ds @ [d]) = - num \<and> s = d # ds" for s
  proof (intro exI conjI)
    have "length (s @ [0]) \<le> 2 ^ 32" using s(2) by simp
    from put_bytes_at [OF this] s(1) show "cstr (put_bytes m buf (s @ [0])) buf s" by (simp add: cstr_def)
  qed (use k v in \<open>simp_all add: put_bytes_other\<close>)
  show ?thesis
  proof (cases "0 \<le> num \<or> b = 10")
    case True
    show ?thesis
      by (rule out [OF k_itoa_text [OF assms(1) True assms(2-4)] itoa_text_nonzero [OF b]])
         (use True itoa_text_value [OF b] len in \<open>auto simp: itoa_text_def\<close>)
  next
    case False
    obtain ds d where ds: "?ds = ds @ [d]" using digits(1) by (cases ?ds rule: rev_cases) auto
    have "k_itoa buf num (int b) m = Some (put_bytes m buf (d # ds @ [0]))"
      by (rule k_itoa_negative [OF _ _ assms(2-4) ds]) (use assms(1) False in auto)
    then have "k_itoa buf num (int b) m = Some (put_bytes m buf ((d # ds) @ [0]))" by simp
    moreover have "text_value b (ds @ [d]) = - num" using text_value_digits [OF b, of "nat \<bar>num\<bar>"] False ds by simp
    ultimately show ?thesis using False len digits(2) ds by (intro out [of "d # ds"]) auto
  qed
qed

text \<open>The least number in base 10, and -255 in base 16, whose string has the digits FF.\<close>

theorem k_itoa_roundtrip_witness:
  "(\<exists>m' s. k_itoa 0x1000 (-2147483648) 10 (\<lambda>_. 0) = Some m' \<and> cstr m' 0x1000 s \<and> text_value 10 s = -2147483648) \<and>
   (\<exists>m' ds d. k_itoa 0x1000 (-255) 16 (\<lambda>_. 0) = Some m' \<and> cstr m' 0x1000 (d # ds) \<and> text_value 16 (ds @ [d]) = 255)"
  using k_itoa_roundtrip [of 10 "-2147483648" "0x1000" "\<lambda>_. 0"] k_itoa_roundtrip [of 16 "-255" "0x1000" "\<lambda>_. 0"] by auto

text \<open>
  C37: formatted printing.  Where the format and its arguments stand for a text, \<open>k_vsprint\<close>
  leaves exactly that text at the buffer; the only other byte it may change is the one after
  the text, so it does not promise a terminating NUL.
\<close>

theorem k_vsprint_renders:
  assumes "render False fmt args = Some out" "0 < unat buf" "unat buf + length out + 40 < 2 ^ 31"
  shows "\<exists>m'. k_vsprint buf fmt args m = Inr m' \<and> at_bytes m' buf out \<and>
           (\<forall>q. q \<notin> region buf (Suc (length out)) \<longrightarrow> m' q = m q)"
  using vsprint_loop_render [OF assms, of m] by (auto simp: k_vsprint_def)

theorem k_vsprint_renders_witness:
  "\<exists>m'. k_vsprint 0x1000 (bytes_of ''pid %d: %s'') [VInt 42, VStr ''sh''] (\<lambda>_. 0) = Inr m' \<and>
     at_bytes m' 0x1000 (bytes_of ''pid 42: sh'')"
proof -
  have "render False (bytes_of ''pid %d: %s'') [VInt 42, VStr ''sh''] = Some (bytes_of ''pid 42: sh'')"
    by code_simp
  from k_vsprint_renders [OF this, of "0x1000" "\<lambda>_. 0"] show ?thesis by auto
qed

text \<open>
  C38: \<open>k_strncpy\<close> with a limit \<open>n\<close> copies a string correctly only when it is shorter than
  \<open>n - 1\<close>.  A string of exactly \<open>n - 1\<close> bytes, which fits together with its terminator, loses its
  last byte; a longer string gets \<open>n\<close> bytes and a terminator \<^emph>\<open>behind\<close> the \<open>n\<close> bytes of the
  buffer.
\<close>

theorem k_strncpy_exact:
  assumes "cstr m s y" "region d (min (length y) (nat n)) \<inter> region s (Suc (length y)) = {}"
    and "0 < n" "d \<noteq> 0" "s \<noteq> 0"
  shows "(int (length y) < n - 1 \<longrightarrow> k_strncpy d s n m = put_bytes m d (y @ [0])) \<and>
         (int (length y) = n - 1 \<longrightarrow>
            k_strncpy d s n m = (put_bytes m d y)(d + of_nat (length y) - 1 := 0)) \<and>
         (n \<le> int (length y) \<longrightarrow>
            k_strncpy d s n m = (put_bytes m d (take (nat n) y))(d + of_nat (nat n) := 0))"
  using k_strncpy_cstr [OF assms] by auto

theorem k_strncpy_exact_witness:
  "let m = put_bytes (\<lambda>_. 0xff) 0x1000 (bytes_of ''abcd'' @ [0])
   in k_strncpy 0x2000 0x1000 4 m 0x2004 = 0 \<and> m 0x2004 = 0xff \<and>
      k_strncpy 0x2000 0x1000 5 m 0x2003 = 0"
proof -
  let ?m = "put_bytes (\<lambda>_. 0xff) 0x1000 (bytes_of ''abcd'' @ [0])"
  have c: "cstr ?m 0x1000 (bytes_of ''abcd'')" by code_simp
  have dj: "region 0x2000 (min (length (bytes_of ''abcd'')) (nat n)) \<inter> region 0x1000 (Suc (length (bytes_of ''abcd''))) = {}"
    for n
  proof -
    have "region 0x2000 (min (length (bytes_of ''abcd'')) (nat n)) \<subseteq> region 0x2000 4"
      by (rule region_mono) (simp add: bytes_of_def)
    moreover have "region 0x2000 4 \<inter> region 0x1000 (Suc (length (bytes_of ''abcd''))) = {}" by code_simp
    ultimately show ?thesis by blast
  qed
  from k_strncpy_exact [OF c dj [of 4]] k_strncpy_exact [OF c dj [of 5]] show ?thesis
    by (simp add: bytes_of_def Let_def)
qed

text \<open>
  \<open>k_strncmp\<close> with a non-zero limit returns 0 exactly when one of the two strings is a prefix
  of the other; the limit plays no part in it.
\<close>

theorem k_strncmp_prefix:
  assumes "cstr m p x" "cstr m q y" "n \<noteq> 0" "p \<noteq> 0" "q \<noteq> 0"
  shows "k_strncmp m p q n = Some (if take (length y) x = y \<or> take (length x) y = x then 0 else 1)"
  by (rule k_strncmp_cstr [OF assms])

theorem k_strncmp_prefix_witness:
  "let m = put_bytes (put_bytes (\<lambda>_. 0) 0x1000 (bytes_of ''tty'')) 0x2000 (bytes_of ''ttyxyz'')
   in k_strncmp m 0x1000 0x2000 3 = Some 0 \<and> k_strncmp m 0x1000 0x2000 6 = Some 0"
proof -
  let ?m = "put_bytes (put_bytes (\<lambda>_. 0) 0x1000 (bytes_of ''tty'')) 0x2000 (bytes_of ''ttyxyz'')"
  have c: "cstr ?m 0x1000 (bytes_of ''tty'')" "cstr ?m 0x2000 (bytes_of ''ttyxyz'')" by code_simp+
  from k_strncmp_prefix [OF c, of 3] k_strncmp_prefix [OF c, of 6] show ?thesis by (simp add: bytes_of_def)
qed

end
