(* ===== verification/Devices.thy ===== *)
theory Devices
  imports Keyboard Klib
begin

text \<open>
  The device table of src/src/kernel/dev/dev.c, the log of src/src/kernel/log.c and the clock of
  src/src/kernel/dev/mtime.c.

  \<open>dev_tb\<close> has an entry for every open device; the only driver is the terminal, so a driver call
  \<open>desc->op\<close> is a case on the descriptor.  The theory \<open>Device_Laws\<close> states
  the invariant of the table: it has 128 entries, an open entry has a driver, and no two open entries
  are the same device.

  \<open>klog\<close> formats its message into a 128 byte buffer on the stack (\<open>buf\<close>, inside the stack memory
  \<open>stk\<close>) and writes it to terminal 0 under the mutex of the log.  The other theories record a call of
  \<open>klog\<close> by \<open>log_line\<close>: they state which message is sent and when, and this theory states what
  sending it does.
\<close>

record dev_state = tty_state +
  dev_tb :: "device_t list"
  log_dev_id :: int
  sys_tick :: u32

definition DEV_TABLE_SIZE :: nat where "DEV_TABLE_SIZE = 128"
definition DEV_TTY :: int where "DEV_TTY = 1"

definition no_device :: device_t where
  "no_device = \<lparr>dv_desc = None, dv_mode = 0, dv_minor = 0, dv_data = 0, dv_open_count = 0\<rparr>"

fun desc_major :: "dev_desc \<Rightarrow> int" where
  "desc_major Dev_tty_desc = DEV_TTY"

definition dev_desc_tb :: "dev_desc list" where
  "dev_desc_tb = [Dev_tty_desc]"

definition set_dev :: "nat \<Rightarrow> device_t \<Rightarrow> 'a dev_state_scheme \<Rightarrow> 'a dev_state_scheme" where
  "set_dev i d s = s\<lparr>dev_tb := (dev_tb s)[i := d]\<rparr>"

definition is_devid_bad :: "int \<Rightarrow> 'a dev_state_scheme \<Rightarrow> bool" where
  "is_devid_bad dev_id s \<longleftrightarrow>
     (if dev_id < 0 \<or> dev_id \<ge> int (length (dev_tb s)) then True
      else dv_desc (dev_tb s ! nat dev_id) = None)"

subsection \<open>Opening a device\<close>

text \<open>The scan of the table: the entry of an open device with these numbers, or the last free entry.
  An entry that is in use without a driver is a null pointer the code follows.\<close>

fun dev_scan :: "int \<Rightarrow> int \<Rightarrow> nat \<Rightarrow> nat option \<Rightarrow> device_t list \<Rightarrow> (nat + nat option) res" where
  "dev_scan major minor i free [] = Inr (Inr free)"
| "dev_scan major minor i free (d # ds) =
     (if dv_open_count d = 0 then dev_scan major minor (Suc i) (Some i) ds
      else case dv_desc d of
             None \<Rightarrow> Inl NullDeref
           | Some desc \<Rightarrow>
               if desc_major desc = major \<and> dv_minor d = minor then Inr (Inl i)
               else dev_scan major minor (Suc i) free ds)"

definition desc_open :: "(isr \<Rightarrow> u32) \<Rightarrow> dev_desc \<Rightarrow> device_t \<Rightarrow> 'a dev_state_scheme \<Rightarrow> (int \<times> 'a dev_state_scheme) res" where
  "desc_open link desc d s = (case desc of Dev_tty_desc \<Rightarrow> tty_open link d s)"

definition dev_open ::
  "(isr \<Rightarrow> u32) \<Rightarrow> int \<Rightarrow> int \<Rightarrow> u32 \<Rightarrow> 'a dev_state_scheme \<Rightarrow> (int \<times> 'a dev_state_scheme) res" where
  "dev_open link major minor data s =
     (let (st, s1) = irq_enter_proection s
      in res_bind (dev_scan major minor 0 None (dev_tb s1)) (\<lambda>r.
         case r of
           Inl i \<Rightarrow> Inr (int i, irq_leave_proection st
                      (set_dev i ((dev_tb s1 ! i)\<lparr>dv_open_count := dv_open_count (dev_tb s1 ! i) + 1\<rparr>) s1))
         | Inr free \<Rightarrow>
             (case (find (\<lambda>d. desc_major d = major) dev_desc_tb, free) of
                (Some desc, Some i) \<Rightarrow>
                  let d = (dev_tb s1 ! i)\<lparr>dv_minor := minor, dv_data := data, dv_desc := Some desc\<rparr>;
                      s2 = set_dev i d s1
                  in res_bind (desc_open link desc d s2) (\<lambda>(err, s3).
                       if err = 0
                       then Inr (int i, irq_leave_proection st (set_dev i (d\<lparr>dv_open_count := 1\<rparr>) s3))
                       else Inr (-1, irq_leave_proection st s3))
              | _ \<Rightarrow> Inr (-1, irq_leave_proection st s1))))"

subsection \<open>The other operations\<close>

definition dev_read ::
  "int \<Rightarrow> int \<Rightarrow> int \<Rightarrow> 'a dev_state_scheme \<Rightarrow> ('a dev_state_scheme, int \<times> u8 list) outcome" where
  "dev_read dev_id addr sz s =
     (if is_devid_bad dev_id s then Done (-1, []) s
      else case dv_desc (dev_tb s ! nat dev_id) of
             None \<Rightarrow> Fault NullDeref
           | Some Dev_tty_desc \<Rightarrow> tty_read (dev_tb s ! nat dev_id) addr sz s)"

definition dev_write ::
  "int \<Rightarrow> int \<Rightarrow> u8 list \<Rightarrow> int \<Rightarrow> 'a dev_state_scheme \<Rightarrow> ('a dev_state_scheme, int) outcome" where
  "dev_write dev_id addr buf sz s =
     (if is_devid_bad dev_id s then Done (-1) s
      else case dv_desc (dev_tb s ! nat dev_id) of
             None \<Rightarrow> Fault NullDeref
           | Some Dev_tty_desc \<Rightarrow> tty_write (dev_tb s ! nat dev_id) addr buf sz s)"

definition dev_control :: "int \<Rightarrow> int \<Rightarrow> u32 \<Rightarrow> int \<Rightarrow> int \<Rightarrow> 'a dev_state_scheme \<Rightarrow> int res" where
  "dev_control dev_id cmd buf arg0 arg1 s =
     (if is_devid_bad dev_id s then Inr (-1)
      else case dv_desc (dev_tb s ! nat dev_id) of
             None \<Rightarrow> Inl NullDeref
           | Some Dev_tty_desc \<Rightarrow> Inr (tty_control (dev_tb s ! nat dev_id) cmd arg0 arg1))"

definition dev_close :: "int \<Rightarrow> 'a dev_state_scheme \<Rightarrow> 'a dev_state_scheme res" where
  "dev_close dev_id s =
     (if is_devid_bad dev_id s then Inr s
      else let i = nat dev_id;
               (st, s1) = irq_enter_proection s;
               d = (dev_tb s1 ! i)\<lparr>dv_open_count := dv_open_count (dev_tb s1 ! i) - 1\<rparr>
           in if dv_open_count d = 0
              then (case dv_desc d of
                      None \<Rightarrow> Inl NullDeref
                    | Some Dev_tty_desc \<Rightarrow>
                        let _ = tty_close d in Inr (irq_leave_proection st (set_dev i no_device s1)))
              else Inr (irq_leave_proection st (set_dev i d s1)))"

subsection \<open>The log\<close>

definition log_init :: "(isr \<Rightarrow> u32) \<Rightarrow> 'a dev_state_scheme \<Rightarrow> 'a dev_state_scheme res" where
  "log_init link s =
     res_bind (dev_open link DEV_TTY 0 0 (mutex_init Log_mutex s)) (\<lambda>(i, s1). Inr (s1\<lparr>log_dev_id := i\<rparr>))"

definition load_bytes :: "mem \<Rightarrow> u32 \<Rightarrow> nat \<Rightarrow> u8 list" where
  "load_bytes m p n = map (\<lambda>i. m (p + of_nat i)) [0..<n]"

definition klog ::
  "u32 \<Rightarrow> mem \<Rightarrow> u8 list \<Rightarrow> va_arg list \<Rightarrow> 'a dev_state_scheme \<Rightarrow> ('a dev_state_scheme, unit) outcome" where
  "klog buf stk fmt args s =
     (case k_vsprint buf fmt args (k_memset buf 0 128 stk) of
        Inl e \<Rightarrow> Fault e
      | Inr m \<Rightarrow>
          kbind (mutex_lock Log_mutex s) (\<lambda>_ s1.
          kbind (dev_write (log_dev_id s1) 0 (bytes_of ''log:'') 4 s1) (\<lambda>_ s2.
          case k_strlen m buf of
            None \<Rightarrow> Fault Diverges
          | Some n \<Rightarrow>
              kbind (dev_write (log_dev_id s2) 0 (load_bytes m buf (nat n)) n s2) (\<lambda>_ s3.
              kbind (dev_write (log_dev_id s3) 0 [0x0a] 1 s3) (\<lambda>_ s4.
              mutex_unlock Log_mutex s4)))))"

subsection \<open>The clock\<close>

text \<open>The divisor of the timer: \<open>PIT_OSC_FREQ / (1000.0 / OS_TICK_MS)\<close>, computed in floating point and
  truncated.  The quotient 1000.0 / 10 is exactly 100, so the result is the truncated quotient of the
  integers.\<close>

definition PIT_OSC_FREQ :: nat where "PIT_OSC_FREQ = 1193182"
definition PIT_COMMAND_MODE_PORT :: u16 where "PIT_COMMAND_MODE_PORT = 0x43"
definition PIT_CHANNEL0_DATA_PORT :: u16 where "PIT_CHANNEL0_DATA_PORT = 0x40"
definition PIT_MODE :: u8 where "PIT_MODE = push_bit 6 0 OR push_bit 4 3 OR push_bit 1 3"

definition handle_time :: "'a dev_state_scheme \<Rightarrow> ('a dev_state_scheme, unit) outcome" where
  "handle_time s = task_time_tick (pic_send_eoi 0x20 (s\<lparr>sys_tick := sys_tick s + 1\<rparr>))"

definition pit_init :: "(isr \<Rightarrow> u32) \<Rightarrow> 'a dev_state_scheme \<Rightarrow> 'a dev_state_scheme res" where
  "pit_init link s =
     (let reload_count = (of_nat (PIT_OSC_FREQ div (1000 div unat OS_TICK_MS)) :: u32);
          s1 = outb PIT_COMMAND_MODE_PORT PIT_MODE s;
          s2 = outb PIT_CHANNEL0_DATA_PORT (ucast (reload_count AND 0xFF)) s1;
          s3 = outb PIT_CHANNEL0_DATA_PORT (ucast (drop_bit 8 reload_count AND 0xFF)) s2
      in res_bind (irq_install 0x20 (link Isr_time) s3) (\<lambda>(_, s4). Inr (irq_enable 0x20 s4)))"

definition time_init :: "(isr \<Rightarrow> u32) \<Rightarrow> 'a dev_state_scheme \<Rightarrow> 'a dev_state_scheme res" where
  "time_init link s = pit_init link (s\<lparr>sys_tick := 0\<rparr>)"

end
