(* ===== verification/Gdt.thy ===== *)
theory Gdt
  imports Devices
begin

text \<open>
  The global descriptor table of src/src/kernel/gdt.c, and a combinator for the bodies that run under
  a mutex.  A descriptor is a packed structure of eight bytes; the entry of the system call gate is
  written through a \<open>gate_desc_t\<close> pointer, so \<open>gate_as_segment\<close> reads the same eight bytes as a segment
  descriptor.

  \<open>with_mutex\<close> is lock, body, unlock, return.  Its law, \<open>with_mutex_idle\<close>, removes the locking where
  nobody holds the mutex or waits for it.
\<close>

record segment_desc_t =
  limit15_0 :: u16
  base15_0 :: u16
  base23_16 :: u8
  sd_attr :: u16
  base31_24 :: u8

record gdt_state = dev_state +
  gdt_table :: "segment_desc_t list"
  gdtr :: "u16 \<times> u16 \<times> u16"
  task_reg :: u16

definition GDT_TABLE_SIZE :: nat where "GDT_TABLE_SIZE = 256"
definition KERNEL_SELECTOR_DS :: int where "KERNEL_SELECTOR_DS = 2 * 8"
definition SELECTOR_SYSCALL :: int where "SELECTOR_SYSCALL = 3 * 8"
definition SEG_G :: u16 where "SEG_G = push_bit 15 1"
definition SEG_D :: u16 where "SEG_D = push_bit 14 1"
definition SEG_P_PRESENT :: u16 where "SEG_P_PRESENT = push_bit 7 1"
definition SEG_DPL0 :: u16 where "SEG_DPL0 = push_bit 5 0"
definition SEG_DPL3 :: u16 where "SEG_DPL3 = push_bit 5 3"
definition SEG_RPL3 :: u32 where "SEG_RPL3 = push_bit 0 3"
definition SEG_S_NORMAL :: u16 where "SEG_S_NORMAL = push_bit 4 1"
definition SEG_TYPE_CODE :: u16 where "SEG_TYPE_CODE = push_bit 3 1"
definition SEG_TYPE_DATA :: u16 where "SEG_TYPE_DATA = push_bit 3 0"
definition SEG_TYPE_TSS :: u16 where "SEG_TYPE_TSS = push_bit 0 9"
definition SEG_TYPE_RW :: u16 where "SEG_TYPE_RW = push_bit 1 1"
definition GATE_SYSCALL :: u16 where
  "GATE_SYSCALL = push_bit 15 1 OR push_bit 13 3 OR push_bit 8 0xC OR 5"

subsection \<open>Descriptors\<close>

text \<open>\<open>attr |= 0x8000\<close> and the division when the limit needs the granularity bit.\<close>

definition segment_desc :: "u32 \<Rightarrow> u32 \<Rightarrow> u16 \<Rightarrow> segment_desc_t" where
  "segment_desc base limit attr =
     (let (attr', limit') = (if limit > 0xfffff then (attr OR 0x8000, limit div 0x1000) else (attr, limit))
      in \<lparr>limit15_0 = ucast (limit' AND 0xffff),
          base15_0 = ucast (base AND 0xffff),
          base23_16 = ucast (drop_bit 16 base AND 0xff),
          sd_attr = attr' OR ucast (push_bit 8 (drop_bit 16 limit' AND 0xf)),
          base31_24 = ucast (drop_bit 24 base AND 0xff)\<rparr>)"

definition segment_desc_set ::
  "int \<Rightarrow> u32 \<Rightarrow> u32 \<Rightarrow> u16 \<Rightarrow> 'a gdt_state_scheme \<Rightarrow> 'a gdt_state_scheme res" where
  "segment_desc_set selector base limit attr s =
     (let i = selector div 8
      in if 0 \<le> i \<and> nat i < length (gdt_table s)
         then Inr (s\<lparr>gdt_table := (gdt_table s)[nat i := segment_desc base limit attr]\<rparr>)
         else Inl OutOfBounds)"

definition gate_as_segment :: "gate_desc_t \<Rightarrow> segment_desc_t" where
  "gate_as_segment g =
     \<lparr>limit15_0 = offset15_0 g, base15_0 = gd_selector g, base23_16 = ucast (gd_attr g),
      sd_attr = drop_bit 8 (gd_attr g) OR push_bit 8 (offset31_16 g AND 0xff),
      base31_24 = ucast (drop_bit 8 (offset31_16 g))\<rparr>"

definition lgdt :: "u32 \<Rightarrow> u32 \<Rightarrow> 'a gdt_state_scheme \<Rightarrow> 'a gdt_state_scheme" where
  "lgdt start sz s = s\<lparr>gdtr := (ucast (sz - 1), ucast (start AND 0xFFFF), ucast (drop_bit 16 start))\<rparr>"

definition write_tr :: "u16 \<Rightarrow> 'a gdt_state_scheme \<Rightarrow> 'a gdt_state_scheme" where
  "write_tr tss_selector s = s\<lparr>task_reg := tss_selector\<rparr>"

text \<open>\<open>gdt_init\<close>: \<open>tb\<close> is the address of the table, \<open>syscall\<close> that of \<open>exception_handle_syscall\<close>.\<close>

definition gdt_init :: "u32 \<Rightarrow> u32 \<Rightarrow> 'a gdt_state_scheme \<Rightarrow> 'a gdt_state_scheme res" where
  "gdt_init tb syscall s =
     (let s1 = (mutex_init Gdt_mutex s)\<lparr>gdt_table := replicate GDT_TABLE_SIZE (segment_desc 0 0 0)\<rparr>
      in res_bind (segment_desc_set KERNEL_SELECTOR_DS 0 0xFFFFFFFF
              (SEG_P_PRESENT OR SEG_DPL0 OR SEG_S_NORMAL OR SEG_TYPE_DATA OR SEG_TYPE_RW OR SEG_D OR SEG_G) s1) (\<lambda>s2.
         res_bind (segment_desc_set (uint KERNEL_SELECTOR_CS) 0 0xFFFFFFFF
              (SEG_P_PRESENT OR SEG_DPL0 OR SEG_S_NORMAL OR SEG_TYPE_CODE OR SEG_TYPE_RW OR SEG_D OR SEG_G) s2) (\<lambda>s3.
         let s4 = s3\<lparr>gdt_table := (gdt_table s3)[nat (SELECTOR_SYSCALL div 8) :=
                       gate_as_segment (gate_desc_set KERNEL_SELECTOR_CS syscall GATE_SYSCALL)]\<rparr>
         in Inr (lgdt tb (of_nat (GDT_TABLE_SIZE * 8)) s4))))"

subsection \<open>Bodies under a mutex\<close>

definition with_mutex ::
  "mutex_id \<Rightarrow> ('a sync_state_scheme \<Rightarrow> ('b \<times> 'a sync_state_scheme) res) \<Rightarrow>
   'a sync_state_scheme \<Rightarrow> ('a sync_state_scheme, 'b) outcome" where
  "with_mutex m body s =
     kbind (mutex_lock m s) (\<lambda>_ s1.
       case body s1 of
         Inl e \<Rightarrow> Fault e
       | Inr (r, s2) \<Rightarrow> kbind (mutex_unlock m s2) (\<lambda>_ s3. Done r s3))"

definition mutex_idle :: "mutex_id \<Rightarrow> 'a sync_state_scheme \<Rightarrow> bool" where
  "mutex_idle m s \<longleftrightarrow> mx_owner (mutexes s m) = None \<and> mx_locked_count (mutexes s m) = 0 \<and>
     list_count (mx_wait_list (mutexes s m)) = 0"

definition mutex_held :: "mutex_id \<Rightarrow> 'a sync_state_scheme \<Rightarrow> 'a sync_state_scheme" where
  "mutex_held m s = upd_mutex m (\<lambda>x. x\<lparr>mx_locked_count := 1, mx_owner := Some (curr_task s)\<rparr>) s"

subsection \<open>Allocation\<close>

fun free_desc :: "nat \<Rightarrow> segment_desc_t list \<Rightarrow> nat option" where
  "free_desc i [] = None"
| "free_desc i (d # ds) = (if sd_attr d = 0 then Some i else free_desc (Suc i) ds)"

definition gdt_alloc_desc :: "'a gdt_state_scheme \<Rightarrow> ('a gdt_state_scheme, int) outcome" where
  "gdt_alloc_desc s =
     with_mutex Gdt_mutex (\<lambda>s1.
       case free_desc 1 (drop 1 (gdt_table s1)) of
         Some i \<Rightarrow> Inr (int i * 8, s1)
       | None \<Rightarrow> Inr (-1, s1)) s"

text \<open>\<open>sel / sizeof(segment_desc_t)\<close> converts the selector to an unsigned number, so a negative one
  is an index far outside the table.\<close>

definition gdt_free_sel :: "int \<Rightarrow> 'a gdt_state_scheme \<Rightarrow> ('a gdt_state_scheme, unit) outcome" where
  "gdt_free_sel sel s =
     with_mutex Gdt_mutex (\<lambda>s1.
       let i = unat (of_int sel :: u32) div 8
       in if i < length (gdt_table s1)
          then Inr ((), s1\<lparr>gdt_table := (gdt_table s1)[i := (gdt_table s1 ! i)\<lparr>sd_attr := 0\<rparr>]\<rparr>)
          else Inl OutOfBounds) s"

subsection \<open>The law of the combinator\<close>

lemma mutex_held_idle:
  assumes "mutex_idle m s"
  shows "mutex_lock m s = Done () (mutex_held m s)"
  using assms mutex_lock_free [of s m] by (simp add: mutex_idle_def mutex_held_def)

lemma mutex_release:
  assumes "mutexes s m = \<lparr>mx_owner = Some (curr_task s), mx_locked_count = 1, mx_wait_list = l\<rparr>" "list_count l = 0"
  shows "mutex_unlock m s = Done () (upd_mutex m (\<lambda>_. \<lparr>mx_owner = None, mx_locked_count = 0, mx_wait_list = l\<rparr>) s)"
  using assms
  by (simp add: mutex_unlock_def irq_enter_proection_def task_current_def upd_mutex_def irq_leave_proection_def
      irq_disable_global_def Let_def)

text \<open>A body that does not depend on the mutex: it may run as if the mutex were not there.\<close>

lemma with_mutex_idle:
  assumes "mutex_idle m s" "body s = Inr (r, s')"
    and "body (mutex_held m s) = Inr (r, upd_mutex m (\<lambda>_. mutexes (mutex_held m s) m) s')"
    and "mutexes s' = mutexes s" "curr_task s' = curr_task s"
  shows "with_mutex m body s = Done r s'"
proof -
  obtain l where l: "mutexes s m = \<lparr>mx_owner = None, mx_locked_count = 0, mx_wait_list = l\<rparr>" "list_count l = 0"
    using assms(1) by (cases "mutexes s m") (auto simp: mutex_idle_def)
  let ?h = "upd_mutex m (\<lambda>_. mutexes (mutex_held m s) m) s'"
  have "mutexes ?h m = \<lparr>mx_owner = Some (curr_task ?h), mx_locked_count = 1, mx_wait_list = l\<rparr>"
    using l(1) assms(5) by (simp add: mutex_held_def upd_mutex_def)
  from mutex_release [OF this l(2)]
  have "mutex_unlock m ?h = Done () (upd_mutex m (\<lambda>_. \<lparr>mx_owner = None, mx_locked_count = 0, mx_wait_list = l\<rparr>) ?h)" .
  moreover have "upd_mutex m (\<lambda>_. \<lparr>mx_owner = None, mx_locked_count = 0, mx_wait_list = l\<rparr>) ?h = s'"
    using l(1) assms(4) by (simp add: upd_mutex_def fun_upd_idem)
  ultimately show ?thesis
    using mutex_held_idle [OF assms(1)] assms(3) by (simp add: with_mutex_def)
qed

lemma with_mutex_idle_read:
  assumes "mutex_idle m s" "body = (\<lambda>s. Inr (f s, s))" "f (mutex_held m s) = f s"
  shows "with_mutex m body s = Done (f s) s"
proof (rule with_mutex_idle [OF assms(1)])
  show "body s = Inr (f s, s)" by (simp add: assms(2))
  show "body (mutex_held m s) = Inr (f s, upd_mutex m (\<lambda>_. mutexes (mutex_held m s) m) s)"
    using assms(3) by (simp add: assms(2) mutex_held_def upd_mutex_def)
qed simp_all

subsection \<open>What the processor reads from a descriptor\<close>

definition seg_base :: "segment_desc_t \<Rightarrow> u32" where
  "seg_base d = ucast (base15_0 d) OR push_bit 16 (ucast (base23_16 d)) OR push_bit 24 (ucast (base31_24 d))"

definition seg_limit :: "segment_desc_t \<Rightarrow> u32" where
  "seg_limit d =
     (let raw = ucast (limit15_0 d) OR push_bit 16 (ucast (drop_bit 8 (sd_attr d) AND 0xf))
      in if bit (sd_attr d) 15 then push_bit 12 raw OR 0xfff else raw)"

text \<open>The simplifier reads the bits of a numeral word from the integer numeral.\<close>

lemma mask_bits:
  "bit (0xffff :: int) n \<longleftrightarrow> n < 16" "bit (0xff :: int) n \<longleftrightarrow> n < 8" "bit (0xf :: int) n \<longleftrightarrow> n < 4"
  "bit (0xfff :: int) n \<longleftrightarrow> n < 12" "bit (0xf00 :: int) n \<longleftrightarrow> 8 \<le> n \<and> n < 12" "bit (0x8000 :: int) n \<longleftrightarrow> n = 15"
proof -
  have m: "(0xffff :: int) = mask 16" "(0xff :: int) = mask 8" "(0xf :: int) = mask 4" "(0xfff :: int) = mask 12"
    "(0xf00 :: int) = push_bit 8 (mask 4)" "(0x8000 :: int) = 2 ^ 15"
    by (simp_all add: mask_eq_exp_minus_1 push_bit_eq_mult)
  show "bit (0xffff :: int) n \<longleftrightarrow> n < 16" unfolding m(1) by (simp add: bit_mask_iff)
  show "bit (0xff :: int) n \<longleftrightarrow> n < 8" unfolding m(2) by (simp add: bit_mask_iff)
  show "bit (0xf :: int) n \<longleftrightarrow> n < 4" unfolding m(3) by (simp add: bit_mask_iff)
  show "bit (0xfff :: int) n \<longleftrightarrow> n < 12" unfolding m(4) by (simp add: bit_mask_iff)
  show "bit (0xf00 :: int) n \<longleftrightarrow> 8 \<le> n \<and> n < 12" unfolding m(5) by (auto simp: bit_push_bit_iff bit_mask_iff)
  show "bit (0x8000 :: int) n \<longleftrightarrow> n = 15" unfolding m(6) by (subst bit_exp_iff) auto
qed

lemma seg_base_desc: "seg_base (segment_desc base limit attr) = base"
proof (rule bit_word_eqI)
  fix n assume "n < LENGTH(32)"
  then consider "n < 16" | "16 \<le> n" "n < 24" | "24 \<le> n" "n < 32" by fastforce
  then show "bit (seg_base (segment_desc base limit attr)) n = bit base n"
    by cases (auto simp: seg_base_def segment_desc_def Let_def bit_simps mask_bits split: if_splits prod.splits)
qed

lemma drop12_div: "(limit :: u32) div 0x1000 = drop_bit 12 limit"
  by (simp add: drop_bit_eq_div)

lemma small_limit_bits: "(limit :: u32) \<le> 0xfffff \<Longrightarrow> 20 \<le> n \<Longrightarrow> \<not> bit limit n"
proof -
  assume l: "limit \<le> 0xfffff" and n: "20 \<le> n"
  have "unat limit < 2 ^ 20" using l by (simp add: word_le_nat_alt)
  then have "take_bit 20 limit = limit" by (intro word_unat_eq_iff [THEN iffD2]) (simp add: unsigned_take_bit_eq take_bit_nat_eq_self)
  then have "bit limit n = bit (take_bit 20 limit) n" by simp
  with n show ?thesis by (simp add: bit_take_bit_iff)
qed

lemma attr_free_bits: "attr AND 0xf00 = (0 :: u16) \<Longrightarrow> 8 \<le> n \<Longrightarrow> n < 12 \<Longrightarrow> \<not> bit attr n"
  using bit_and_iff [of attr "0xf00" n] by (simp add: mask_bits)

lemma seg_limit_desc:
  assumes "attr AND 0xf00 = 0" "\<not> bit attr 15"
  shows "seg_limit (segment_desc base limit attr) = (if limit \<le> 0xfffff then limit else limit OR 0xfff)"
proof (cases "limit \<le> 0xfffff")
  case True
  have "seg_limit (segment_desc base limit attr) = limit"
  proof (rule bit_word_eqI)
    fix n assume "n < LENGTH(32)"
    then consider "n < 16" | "16 \<le> n" "n < 20" | "20 \<le> n" by fastforce
    then show "bit (seg_limit (segment_desc base limit attr)) n = bit limit n"
      using True assms(2) attr_free_bits [OF assms(1), of "n - 8"] small_limit_bits [OF True, of n]
      by cases (auto simp: seg_limit_def segment_desc_def Let_def bit_simps mask_bits)
  qed
  with True show ?thesis by simp
next
  case False
  have "seg_limit (segment_desc base limit attr) = limit OR 0xfff"
  proof (rule bit_word_eqI)
    fix n assume "n < LENGTH(32)"
    then consider "n < 12" | "12 \<le> n" "n < 28" | "28 \<le> n" "n < 32" by fastforce
    then show "bit (seg_limit (segment_desc base limit attr)) n = bit (limit OR 0xfff) n"
      using False attr_free_bits [OF assms(1), of "n - 20"]
      by cases (auto simp: seg_limit_def segment_desc_def Let_def drop12_div bit_simps mask_bits)
  qed
  with False show ?thesis by simp
qed

text \<open>A segment descriptor reads back.  The processor finds in the packed descriptor exactly the base
  that was stored, and the limit that was stored; a limit of more than 20 bits is rounded up to the end of
  its page, as the granularity bit means.\<close>

theorem segment_desc_roundtrip:
  assumes "attr AND 0xf00 = 0" "\<not> bit attr 15" "0 \<le> sel" "sel < 8 * int (length (gdt_table s))"
  shows "\<exists>s'. segment_desc_set sel base limit attr s = Inr s' \<and>
     seg_base (gdt_table s' ! nat (sel div 8)) = base \<and>
     seg_limit (gdt_table s' ! nat (sel div 8)) = (if limit \<le> 0xfffff then limit else limit OR 0xfff)"
proof -
  have "nat (sel div 8) < length (gdt_table s)" "0 \<le> sel div 8" using assms(3,4) by auto
  then show ?thesis
    using seg_base_desc seg_limit_desc [OF assms(1,2)] by (simp add: segment_desc_set_def)
qed

definition gdt_start :: gdt_state where
  "gdt_start = \<lparr>eflags = 0x202, cr3 = 0, port_out = [], port_in = (\<lambda>_ _. 0), port_reads = (\<lambda>_. 0),
     klogs = [], idt_table = [], idtr = (0, 0, 0), nodes = (\<lambda>_. no_links), tasks = (\<lambda>_. blank_task), curr_task = First_task,
     ready_list = list_init, sleep_list = list_init, task_list = list_init, app_code_sel = 0, app_data_sel = 0,
     mutexes = (\<lambda>_. \<lparr>mx_owner = None, mx_locked_count = 0, mx_wait_list = list_init\<rparr>),
     sems = (\<lambda>_. \<lparr>sm_count = 512, sm_wait_list = list_init\<rparr>),
     consoles = (\<lambda>i. fresh_console (int i) 3 4), display = dark,
     ttys = (\<lambda>i. \<lparr>ififo = open_fifo, ofifo = open_fifo, iflags = TTY_IECHO, oflags = TTY_OCRLF, console_idx = i\<rparr>),
     curr_tty = 0, kbd_inited = True,
     kbd_state = \<lparr>caps_lock = False, lshift_press = False, rshift_press = False, ralt_press = False,
       lalt_press = False, lctrl_press = False, rctrl_press = False\<rparr>, recv_state = RECV_NORMAL,
     dev_tb = replicate DEV_TABLE_SIZE no_device, log_dev_id = 0, sys_tick = 0,
     gdt_table = [], gdtr = (0, 0, 0), task_reg = 0\<rparr>"

theorem segment_desc_roundtrip_witness:
  "\<exists>s'. segment_desc_set 32 0x12345678 0xffffffff 0x40fa (gdt_start\<lparr>gdt_table := replicate 256 (segment_desc 0 0 0)\<rparr>) = Inr s' \<and>
     seg_base (gdt_table s' ! 4) = 0x12345678 \<and> seg_limit (gdt_table s' ! 4) = 0xffffffff"
proof -
  let ?s = "gdt_start\<lparr>gdt_table := replicate 256 (segment_desc 0 0 0)\<rparr>"
  have "(0x40fa :: u16) AND 0xf00 = 0" "\<not> bit (0x40fa :: u16) 15" "0 \<le> (32 :: int)" "32 < 8 * int (length (gdt_table ?s))"
    by (simp_all add: bit_numeral_rec)
  from segment_desc_roundtrip [OF this, of "0x12345678" "0xffffffff"] show ?thesis by simp
qed

subsection \<open>Allocation\<close>

lemma free_desc_Some:
  "free_desc k ds = Some i \<Longrightarrow> k \<le> i \<and> i < k + length ds \<and> sd_attr (ds ! (i - k)) = 0 \<and> (\<forall>j<i - k. sd_attr (ds ! j) \<noteq> 0)"
proof (induction ds arbitrary: k)
  case (Cons d ds)
  show ?case
  proof (cases "sd_attr d = 0")
    case False
    with Cons.prems have "free_desc (Suc k) ds = Some i" by simp
    from Cons.IH [OF this] have h: "Suc k \<le> i" "i < Suc k + length ds" "sd_attr (ds ! (i - Suc k)) = 0"
      "\<forall>j<i - Suc k. sd_attr (ds ! j) \<noteq> 0" by auto
    moreover have "sd_attr ((d # ds) ! j) \<noteq> 0" if "j < i - k" for j
      using that h(4) False by (cases j) auto
    ultimately show ?thesis by (auto simp: nth_Cons')
  qed (use Cons.prems in auto)
qed simp

lemma free_desc_None: "free_desc k ds = None \<longleftrightarrow> (\<forall>d \<in> set ds. sd_attr d \<noteq> 0)"
  by (induction ds arbitrary: k) auto

lemma gdt_alloc_idle:
  assumes "mutex_idle Gdt_mutex s"
  shows "gdt_alloc_desc s =
     Done (case free_desc 1 (drop 1 (gdt_table s)) of Some i \<Rightarrow> int i * 8 | None \<Rightarrow> -1) s"
proof -
  let ?f = "\<lambda>s :: 'a gdt_state_scheme. case free_desc 1 (drop 1 (gdt_table s)) of Some i \<Rightarrow> int i * 8 | None \<Rightarrow> -1"
  have e: "(\<lambda>s1. case free_desc 1 (drop 1 (gdt_table s1)) of Some i \<Rightarrow> Inr (int i * 8, s1) | None \<Rightarrow> Inr (-1, s1))
    = (\<lambda>s :: 'a gdt_state_scheme. Inr (?f s, s))" by (auto split: option.splits)
  show ?thesis unfolding gdt_alloc_desc_def
    by (rule with_mutex_idle_read [OF assms e]) (simp add: mutex_held_def upd_mutex_def)
qed

text \<open>The first selector a task gets.  After \<open>gdt_init\<close> the entries 0 to 3 (null, code, data and the
  system call gate) are never handed out: \<open>gdt_alloc_desc\<close> returns the selector of entry 4.  It does not
  reserve the entry, so a second call before the caller has filled it in returns the same selector.\<close>

theorem gdt_alloc_after_init:
  "\<exists>s1. gdt_init tb syscall s = Inr s1 \<and> gdt_alloc_desc s1 = Done 32 s1 \<and>
     kbind (gdt_alloc_desc s1) (\<lambda>a s2. kbind (gdt_alloc_desc s2) (\<lambda>b s3. Done (a, b) s3)) = Done (32, 32) s1"
proof -
  let ?z = "segment_desc 0 0 0"
  let ?ds = "segment_desc 0 0xFFFFFFFF
    (SEG_P_PRESENT OR SEG_DPL0 OR SEG_S_NORMAL OR SEG_TYPE_DATA OR SEG_TYPE_RW OR SEG_D OR SEG_G)"
  let ?cs = "segment_desc 0 0xFFFFFFFF
    (SEG_P_PRESENT OR SEG_DPL0 OR SEG_S_NORMAL OR SEG_TYPE_CODE OR SEG_TYPE_RW OR SEG_D OR SEG_G)"
  let ?g = "gate_as_segment (gate_desc_set KERNEL_SELECTOR_CS syscall GATE_SYSCALL)"
  obtain r where tab: "replicate GDT_TABLE_SIZE ?z = ?z # ?z # ?z # ?z # ?z # r"
    using replicate_add [of 5 251 ?z] by (simp add: GDT_TABLE_SIZE_def eval_nat_numeral(2,3))
  have u: "(a # b # c # d # l)[2 := x] = a # b # x # d # l" "(a # b # c # d # l)[3 := x] = a # b # c # x # l"
    for a b c d x :: segment_desc_t and l by (simp_all add: eval_nat_numeral)
  have cs: "uint KERNEL_SELECTOR_CS = 8" by simp
  obtain s1 where s1: "gdt_init tb syscall s = Inr s1" "gdt_table s1 = ?z # ?cs # ?ds # ?g # ?z # r"
    "mutexes s1 = mutexes (mutex_init Gdt_mutex s)"
    unfolding gdt_init_def Let_def tab
    by (simp add: segment_desc_set_def KERNEL_SELECTOR_DS_def SELECTOR_SYSCALL_def lgdt_def cs u)
  have attrs: "sd_attr ?z = 0" "sd_attr ?cs \<noteq> 0" "sd_attr ?ds \<noteq> 0"
    by (simp_all add: segment_desc_def SEG_P_PRESENT_def SEG_DPL0_def SEG_S_NORMAL_def SEG_TYPE_DATA_def
        SEG_TYPE_CODE_def SEG_TYPE_RW_def SEG_D_def SEG_G_def)
  have "bit (sd_attr ?g) 7"
    by (simp add: gate_as_segment_def gate_desc_set_def GATE_SYSCALL_def bit_simps)
  then have "sd_attr ?g \<noteq> 0" by auto
  with attrs have "free_desc 1 (drop 1 (gdt_table s1)) = Some 4" unfolding s1(2) by simp
  moreover have "mutex_idle Gdt_mutex s1"
    by (simp add: mutex_idle_def s1(3) mutex_init_def upd_mutex_def list_init_def list_count_def)
  ultimately have "gdt_alloc_desc s1 = Done 32 s1" by (simp add: gdt_alloc_idle)
  with s1(1) show ?thesis by auto
qed

end
