(* ===== verification/Bitmap.thy ===== *)
theory Bitmap
  imports Kernel_Prelude
begin

unbundle bit_operations_syntax

text \<open>
  The bitmap of src/src/kernel/lib/bitmap.c: a count of bits and an array of bytes, bit
  \<open>i\<close> being bit \<open>i mod 8\<close> of byte \<open>i div 8\<close>.  Indices are C ints; a read or write
  outside the byte array, and a negative index, is the fault \<open>OutOfBounds\<close>.
  \<open>bitmap_ok\<close> says that the array has the bytes the count needs, and \<open>bits_of\<close> is the
  abstract view, a list of booleans.  The lemmas give every operation on that view.
\<close>

record bitmap_t =
  bit_count :: int
  bits :: "u8 list"

subsection \<open>The operations of bitmap.c\<close>

definition bitmap_byte_count :: "int \<Rightarrow> int" where
  "bitmap_byte_count n = (n + 8 - 1) div 8"

text \<open>\<open>bitmap_init\<close> is given the memory the bits live in; it fills the first
  \<open>bitmap_byte_count\<close> bytes, and faults when the memory is shorter.\<close>

definition bitmap_init :: "u8 list \<Rightarrow> int \<Rightarrow> int \<Rightarrow> bitmap_t res" where
  "bitmap_init mem count init_bit =
     (let n = nat (bitmap_byte_count count); v = (if init_bit \<noteq> 0 then 0xFF else 0)
      in if n \<le> length mem
         then Inr \<lparr>bit_count = count, bits = replicate n v @ drop n mem\<rparr>
         else Inl OutOfBounds)"

definition bitmap_get_bit :: "bitmap_t \<Rightarrow> int \<Rightarrow> int res" where
  "bitmap_get_bit b i =
     (if 0 \<le> i \<and> nat i div 8 < length (bits b)
      then Inr (if bits b ! (nat i div 8) AND push_bit (nat i mod 8) 1 \<noteq> 0 then 1 else 0)
      else Inl OutOfBounds)"

definition bitmap_is_set :: "bitmap_t \<Rightarrow> int \<Rightarrow> int res" where
  "bitmap_is_set b i = res_bind (bitmap_get_bit b i) (\<lambda>v. Inr (if v \<noteq> 0 then 1 else 0))"

definition bitmap_put :: "bitmap_t \<Rightarrow> int \<Rightarrow> int \<Rightarrow> bitmap_t res" where
  "bitmap_put b i v =
     (if 0 \<le> i \<and> nat i div 8 < length (bits b)
      then let k = nat i div 8; m = push_bit (nat i mod 8) 1
           in Inr (b\<lparr>bits := (bits b)[k := if v \<noteq> 0 then bits b ! k OR m else bits b ! k AND NOT m]\<rparr>)
      else Inl OutOfBounds)"

text \<open>The loop of \<open>bitmap_set_bit\<close>: at most \<open>count\<close> bits, and none past the end.\<close>

fun bitmap_set_loop :: "bitmap_t \<Rightarrow> int \<Rightarrow> nat \<Rightarrow> int \<Rightarrow> bitmap_t res" where
  "bitmap_set_loop b i 0 v = Inr b"
| "bitmap_set_loop b i (Suc n) v =
     (if i < bit_count b
      then res_bind (bitmap_put b i v) (\<lambda>b'. bitmap_set_loop b' (i + 1) n v)
      else Inr b)"

definition bitmap_set_bit :: "bitmap_t \<Rightarrow> int \<Rightarrow> int \<Rightarrow> int \<Rightarrow> bitmap_t res" where
  "bitmap_set_bit b i count v = bitmap_set_loop b i (nat count) v"

text \<open>
  The inner loop of \<open>bitmap_alloc_nbits\<close>.  It starts with \<open>i = 1\<close> at the bit that was
  just found, so the first bit it reads is that bit again.  The result is the final
  \<open>(i, search_idx, ok_idx)\<close>.
\<close>

function bitmap_run :: "bitmap_t \<Rightarrow> int \<Rightarrow> int \<Rightarrow> int \<Rightarrow> int \<Rightarrow> int \<Rightarrow> (int \<times> int \<times> int) res" where
  "bitmap_run b v count i search ok =
     (if i < count \<and> search < bit_count b
      then res_bind (bitmap_get_bit b search) (\<lambda>w.
             if w \<noteq> v then Inr (i, search + 1, -1)
             else bitmap_run b v count (i + 1) (search + 1) ok)
      else Inr (i, search, ok))"
  by pat_completeness auto
termination
  by (relation "measure (\<lambda>(b, v, count, i, search, ok). nat (count - i))") auto

declare bitmap_run.simps [simp del]

lemma bitmap_run_progress:
  "bitmap_run b v count i search ok = Inr (i', search', ok') \<Longrightarrow>
   search \<le> search' \<and> (i < count \<and> search < bit_count b \<longrightarrow> search < search')"
proof (induction b v count i search ok rule: bitmap_run.induct)
  case (1 b v count i search ok)
  show ?case
  proof (cases "i < count \<and> search < bit_count b")
    case True
    with "1.prems" obtain w where w: "bitmap_get_bit b search = Inr w"
      by (cases "bitmap_get_bit b search") (auto simp: bitmap_run.simps [of b v count i search ok])
    show ?thesis
    proof (cases "w = v")
      case eq: True
      with True w "1.prems" have "bitmap_run b v count (i + 1) (search + 1) ok = Inr (i', search', ok')"
        by (simp add: bitmap_run.simps [of b v count i search ok])
      from "1.IH" [OF True _ this] w eq show ?thesis by auto
    next
      case False
      with True w "1.prems" show ?thesis
        by (auto simp: bitmap_run.simps [of b v count i search ok])
    qed
  next
    case False
    with "1.prems" show ?thesis by (auto simp: bitmap_run.simps [of b v count i search ok])
  qed
qed

text \<open>The outer loop.  \<open>~bit\<close> is \<open>-bit - 1\<close>.\<close>

function bitmap_search :: "bitmap_t \<Rightarrow> int \<Rightarrow> int \<Rightarrow> int \<Rightarrow> (int \<times> bitmap_t) res" where
  "bitmap_search b v count search =
     (if search < bit_count b
      then (case bitmap_get_bit b search of
              Inl e \<Rightarrow> Inl e
            | Inr w \<Rightarrow>
                if w \<noteq> v then bitmap_search b v count (search + 1)
                else (case bitmap_run b v count 1 search search of
                        Inl e \<Rightarrow> Inl e
                      | Inr (i, search', ok) \<Rightarrow>
                          if i \<ge> count
                          then res_bind (bitmap_set_bit b ok count (- v - 1)) (\<lambda>b'. Inr (ok, b'))
                          else bitmap_search b v count search'))
      else Inr (-1, b))"
  by pat_completeness auto
termination
proof (relation "measure (\<lambda>(b, v, count, search). nat (bit_count b - search))", goal_cases)
  case (3 b v count search w r i p search' ok)
  then have r: "bitmap_run b v count 1 search search = Inr (i, search', ok)" and "search < bit_count b"
    by auto
  moreover have "1 < count"
  proof (rule ccontr)
    assume "\<not> 1 < count"
    with r have "i = 1" by (simp add: bitmap_run.simps [of b v count 1 search search])
    with 3 \<open>\<not> 1 < count\<close> show False by simp
  qed
  ultimately show ?case using bitmap_run_progress [OF r] by auto
qed auto

declare bitmap_search.simps [simp del]

definition bitmap_alloc_nbits :: "bitmap_t \<Rightarrow> int \<Rightarrow> int \<Rightarrow> (int \<times> bitmap_t) res" where
  "bitmap_alloc_nbits b v count = bitmap_search b v count 0"

subsection \<open>The abstract view\<close>

definition bitmap_ok :: "bitmap_t \<Rightarrow> bool" where
  "bitmap_ok b \<longleftrightarrow> 0 \<le> bit_count b \<and> bitmap_byte_count (bit_count b) \<le> int (length (bits b))"

definition bit_at :: "bitmap_t \<Rightarrow> nat \<Rightarrow> bool" where
  "bit_at b i = bit (bits b ! (i div 8)) (i mod 8)"

definition bits_of :: "bitmap_t \<Rightarrow> bool list" where
  "bits_of b = map (bit_at b) [0..<nat (bit_count b)]"

lemma length_bits_of [simp]: "length (bits_of b) = nat (bit_count b)"
  by (simp add: bits_of_def)

lemma nth_bits_of [simp]: "i < nat (bit_count b) \<Longrightarrow> bits_of b ! i = bit_at b i"
  by (simp add: bits_of_def)

lemma bitmap_ok_index:
  "bitmap_ok b \<Longrightarrow> 0 \<le> i \<Longrightarrow> i < bit_count b \<Longrightarrow> nat i div 8 < length (bits b)"
  by (simp add: bitmap_ok_def bitmap_byte_count_def)

lemma byte_test_bit: "(w :: u8) AND push_bit n 1 \<noteq> 0 \<longleftrightarrow> bit w n"
  by (simp add: push_bit_eq_mult and_exp_eq_0_iff_not_bit)

lemma bitmap_get_bit_eq:
  "bitmap_ok b \<Longrightarrow> 0 \<le> i \<Longrightarrow> i < bit_count b \<Longrightarrow>
   bitmap_get_bit b i = Inr (if bit_at b (nat i) then 1 else 0)"
  using bitmap_ok_index [of b i] unfolding bitmap_get_bit_def byte_test_bit bit_at_def by simp

lemma byte_index_eq: "i div 8 = j div 8 \<Longrightarrow> i mod 8 = j mod 8 \<longleftrightarrow> i = (j :: nat)"
  by (metis div_mult_mod_eq)

lemma bitmap_put_ok:
  assumes "bitmap_ok b" "0 \<le> i" "i < bit_count b"
  shows "\<exists>b'. bitmap_put b i v = Inr b' \<and> bitmap_ok b' \<and> bit_count b' = bit_count b \<and>
           bits_of b' = (bits_of b)[nat i := v \<noteq> 0]"
proof -
  let ?k = "nat i div 8"
  let ?w = "if v \<noteq> 0 then bits b ! ?k OR push_bit (nat i mod 8) 1
            else bits b ! ?k AND NOT (push_bit (nat i mod 8) 1)"
  let ?b = "b\<lparr>bits := (bits b)[?k := ?w]\<rparr>"
  have k: "?k < length (bits b)" using assms by (rule bitmap_ok_index)
  have "bit ?w n \<longleftrightarrow> (if n = nat i mod 8 then v \<noteq> 0 else bit (bits b ! ?k) n)" if "n < 8" for n
    using that by (auto simp: bit_simps)
  then have "bit_at ?b j \<longleftrightarrow> (if j = nat i then v \<noteq> 0 else bit_at b j)" for j
    using k byte_index_eq [of j "nat i"]
    by (cases "j div 8 = ?k") (auto simp: bit_at_def nth_list_update)
  then have "bits_of ?b = (bits_of b)[nat i := v \<noteq> 0]"
    using assms by (intro nth_equalityI) (auto simp: nth_list_update)
  with assms k show ?thesis
    by (auto simp: bitmap_put_def Let_def bitmap_ok_def)
qed

lemma bitmap_set_loop_ok:
  "bitmap_ok b \<Longrightarrow> 0 \<le> i \<Longrightarrow>
   \<exists>b'. bitmap_set_loop b i n v = Inr b' \<and> bitmap_ok b' \<and> bit_count b' = bit_count b \<and>
     (\<forall>j < nat (bit_count b). bits_of b' ! j =
        (if nat i \<le> j \<and> j < nat i + n then v \<noteq> 0 else bits_of b ! j))"
proof (induction n arbitrary: b i)
  case 0
  then show ?case by auto
next
  case (Suc n)
  show ?case
  proof (cases "i < bit_count b")
    case True
    obtain b1 where 1: "bitmap_put b i v = Inr b1" "bitmap_ok b1" "bit_count b1 = bit_count b"
      "bits_of b1 = (bits_of b)[nat i := v \<noteq> 0]"
      using bitmap_put_ok [OF Suc.prems True] by blast
    obtain b2 where 2: "bitmap_set_loop b1 (i + 1) n v = Inr b2" "bitmap_ok b2"
      "bit_count b2 = bit_count b1"
      "\<forall>j < nat (bit_count b1). bits_of b2 ! j =
        (if nat (i + 1) \<le> j \<and> j < nat (i + 1) + n then v \<noteq> 0 else bits_of b1 ! j)"
      using Suc.IH [OF 1(2), of "i + 1"] Suc.prems by auto
    have "nat (i + 1) = Suc (nat i)" using Suc.prems by simp
    with 1 2 True show ?thesis by (auto simp: nth_list_update)
  next
    case False
    with Suc.prems show ?thesis by auto
  qed
qed

lemma bitmap_set_bit_ok:
  "bitmap_ok b \<Longrightarrow> 0 \<le> i \<Longrightarrow>
   \<exists>b'. bitmap_set_bit b i count v = Inr b' \<and> bitmap_ok b' \<and> bit_count b' = bit_count b \<and>
     (\<forall>j < nat (bit_count b). bits_of b' ! j =
        (if nat i \<le> j \<and> j < nat i + nat count then v \<noteq> 0 else bits_of b ! j))"
  unfolding bitmap_set_bit_def by (rule bitmap_set_loop_ok)

lemma bitmap_set_one:
  assumes "bitmap_ok b" "i < nat (bit_count b)"
  shows "\<exists>b'. bitmap_set_bit b (int i) 1 v = Inr b' \<and> bitmap_ok b' \<and>
           bit_count b' = bit_count b \<and> bits_of b' = (bits_of b)[i := v \<noteq> 0]"
proof -
  obtain b' where b': "bitmap_set_bit b (int i) 1 v = Inr b'" "bitmap_ok b'"
    "bit_count b' = bit_count b"
    "\<forall>j < nat (bit_count b). bits_of b' ! j = (if i \<le> j \<and> j < i + 1 then v \<noteq> 0 else bits_of b ! j)"
    using bitmap_set_bit_ok [OF assms(1), of "int i" 1 v] by auto
  then have "bits_of b' = (bits_of b)[i := v \<noteq> 0]"
    using assms(2) by (intro nth_equalityI) (auto simp: nth_list_update)
  with b' show ?thesis by blast
qed

subsection \<open>Searching for one bit\<close>

text \<open>With \<open>count = 1\<close> the inner loop does not run: the search returns the first bit
  with the wanted value and sets it.\<close>

lemma bitmap_run_one: "bitmap_run b v 1 1 search ok = Inr (1, search, ok)"
  by (simp add: bitmap_run.simps)

lemma bitmap_search_step:
  assumes "bitmap_ok b" "s < nat (bit_count b)"
  shows "bitmap_search b 0 1 (int s) =
          (if bits_of b ! s then bitmap_search b 0 1 (int (Suc s))
           else res_bind (bitmap_set_bit b (int s) 1 (-1)) (\<lambda>b'. Inr (int s, b')))"
proof -
  from assms have "int s < bit_count b" by linarith
  with bitmap_get_bit_eq [OF assms(1), of "int s"] assms show ?thesis
    by (subst bitmap_search.simps) (simp add: bitmap_run_one add.commute)
qed

lemma bitmap_search_end: "bitmap_search b 0 1 (bit_count b) = Inr (-1, b)"
  by (subst bitmap_search.simps) simp

lemma bitmap_search_one:
  assumes "bitmap_ok b" "s \<le> nat (bit_count b)"
  shows "(\<exists>j b'. s \<le> j \<and> j < nat (bit_count b) \<and> \<not> bits_of b ! j \<and>
            (\<forall>k. s \<le> k \<and> k < j \<longrightarrow> bits_of b ! k) \<and>
            bitmap_search b 0 1 (int s) = Inr (int j, b') \<and> bitmap_ok b' \<and>
            bit_count b' = bit_count b \<and> bits_of b' = (bits_of b)[j := True]) \<or>
         ((\<forall>k. s \<le> k \<and> k < nat (bit_count b) \<longrightarrow> bits_of b ! k) \<and>
            bitmap_search b 0 1 (int s) = Inr (-1, b))"
  using assms(2)
proof (induction rule: inc_induct)
  case base
  from assms(1) have "0 \<le> bit_count b" by (simp add: bitmap_ok_def)
  then show ?case using bitmap_search_end [of b] by auto
next
  case (step s)
  note eq = bitmap_search_step [OF assms(1) step.hyps(2)]
  show ?case
  proof (cases "bits_of b ! s")
    case True
    with eq have "bitmap_search b 0 1 (int s) = bitmap_search b 0 1 (int (Suc s))" by simp
    with step.IH True show ?thesis
      by (metis Suc_leD Suc_leI le_neq_implies_less)
  next
    case False
    with eq bitmap_set_one [OF assms(1) step.hyps(2), of "-1"] step.hyps show ?thesis
      by (intro disjI1 exI [of _ s]) auto
  qed
qed

subsection \<open>First-fit allocation of slots\<close>

text \<open>
  The interface that the page allocator uses, and that the other fixed tables of the
  kernel share: a table of slots of which some are used, an allocation that takes the
  first free slot (or \<open>-1\<close>), and a release.
\<close>

locale slot_table =
  fixes ok :: "'t \<Rightarrow> bool"
    and used :: "'t \<Rightarrow> bool list"
    and alloc :: "'t \<Rightarrow> (int \<times> 't) res"
    and release :: "'t \<Rightarrow> nat \<Rightarrow> 't res"
  assumes alloc_full: "ok t \<Longrightarrow> False \<notin> set (used t) \<Longrightarrow> alloc t = Inr (-1, t)"
    and alloc_first: "ok t \<Longrightarrow> i < length (used t) \<Longrightarrow> \<not> used t ! i \<Longrightarrow>
      \<forall>k < i. used t ! k \<Longrightarrow> \<exists>t'. alloc t = Inr (int i, t') \<and> ok t' \<and> used t' = (used t)[i := True]"
    and release_law: "ok t \<Longrightarrow> i < length (used t) \<Longrightarrow>
      \<exists>t'. release t i = Inr t' \<and> ok t' \<and> used t' = (used t)[i := False]"
begin

lemma first_free_ex:
  "False \<in> set (xs :: bool list) \<Longrightarrow> \<exists>i < length xs. \<not> xs ! i \<and> (\<forall>k < i. xs ! k)"
proof (induction xs)
  case (Cons x xs)
  show ?case
  proof (cases x)
    case True
    with Cons obtain i where "i < length xs" "\<not> xs ! i" "\<forall>k < i. xs ! k" by auto
    with True show ?thesis by (intro exI [of _ "Suc i"]) (auto simp: less_Suc_eq_0_disj)
  qed auto
qed simp

lemma alloc_cases:
  assumes "ok t"
  obtains (full) "False \<notin> set (used t)" "alloc t = Inr (-1, t)"
  | (slot) i t' where "i < length (used t)" "\<not> used t ! i" "\<forall>k < i. used t ! k"
      "alloc t = Inr (int i, t')" "ok t'" "used t' = (used t)[i := True]"
proof (cases "False \<in> set (used t)")
  case True
  then obtain i where i: "i < length (used t)" "\<not> used t ! i" "\<forall>k < i. used t ! k"
    using first_free_ex by blast
  from alloc_first [OF assms this] slot i show ?thesis by blast
next
  case False
  with full alloc_full [OF assms] show ?thesis by blast
qed

lemma alloc_total:
  assumes "ok t" shows "\<exists>i t'. alloc t = Inr (i, t') \<and> ok t' \<and> length (used t') = length (used t)"
  using assms by (cases rule: alloc_cases) (use assms in auto)

lemma alloc_fresh:
  assumes "ok t" "alloc t = Inr (i, t')" "0 \<le> i"
  shows "nat i < length (used t) \<and> \<not> used t ! nat i \<and> used t' = (used t)[nat i := True] \<and> ok t'"
  using assms(1) by (cases rule: alloc_cases) (use assms in auto)

lemma alloc_fails_iff:
  assumes "ok t" "alloc t = Inr (i, t')"
  shows "i < 0 \<longleftrightarrow> False \<notin> set (used t)"
  using assms(1)
proof (cases rule: alloc_cases)
  case full
  with assms show ?thesis by simp
next
  case (slot j u)
  then have "False \<in> set (used t)" by (metis nth_mem)
  with slot assms show ?thesis by simp
qed

text \<open>Two allocations in a row give two different slots.\<close>

lemma alloc_twice_distinct:
  assumes "ok t" "alloc t = Inr (i, t1)" "alloc t1 = Inr (j, t2)" "0 \<le> i" "0 \<le> j"
  shows "i \<noteq> j"
proof -
  from alloc_fresh [OF assms(1,2,4)] have i: "used t1 = (used t)[nat i := True]" "ok t1"
    "nat i < length (used t)" by auto
  from alloc_fresh [OF i(2) assms(3,5)] have "\<not> used t1 ! nat j" by simp
  with i show ?thesis by auto
qed

text \<open>Releasing what was just allocated restores the table.\<close>

lemma alloc_release:
  assumes "ok t" "alloc t = Inr (i, t1)" "0 \<le> i"
  shows "\<exists>t2. release t1 (nat i) = Inr t2 \<and> ok t2 \<and> used t2 = used t"
proof -
  from alloc_fresh [OF assms] have 1: "ok t1" "used t1 = (used t)[nat i := True]"
    "nat i < length (used t)" "\<not> used t ! nat i" by auto
  then obtain t2 where "release t1 (nat i) = Inr t2" "ok t2" "used t2 = (used t1)[nat i := False]"
    using release_law [of t1 "nat i"] by auto
  moreover have "(used t)[nat i := False] = used t"
    using 1(4) list_update_id [of "used t" "nat i"] by simp
  ultimately show ?thesis using 1(2) by simp
qed

end

definition bitmap_alloc_one :: "bitmap_t \<Rightarrow> (int \<times> bitmap_t) res" where
  "bitmap_alloc_one b = bitmap_alloc_nbits b 0 1"

definition bitmap_free_one :: "bitmap_t \<Rightarrow> nat \<Rightarrow> bitmap_t res" where
  "bitmap_free_one b i = bitmap_set_bit b (int i) 1 0"

interpretation bm: slot_table bitmap_ok bits_of bitmap_alloc_one bitmap_free_one
proof (unfold_locales, goal_cases)
  case (1 t)
  then have "\<forall>k < nat (bit_count t). bits_of t ! k"
    by (metis length_bits_of nth_mem)
  with bitmap_search_one [of t 0] 1 show ?case
    by (auto simp: bitmap_alloc_one_def bitmap_alloc_nbits_def)
next
  case (2 t i)
  from bitmap_search_one [OF 2(1) le0] show ?case
  proof (elim disjE exE conjE)
    fix j b' assume *: "j < nat (bit_count t)" "\<not> bits_of t ! j"
      "\<forall>k. 0 \<le> k \<and> k < j \<longrightarrow> bits_of t ! k"
      "bitmap_search t 0 1 (int 0) = Inr (int j, b')" "bitmap_ok b'"
      "bits_of b' = (bits_of t)[j := True]"
    from * 2 have "i = j" by (metis le0 linorder_neqE_nat)
    with * show ?thesis by (auto simp: bitmap_alloc_one_def bitmap_alloc_nbits_def)
  qed (use 2 in auto)
next
  case (3 t i)
  then show ?case using bitmap_set_one [of t i 0] by (auto simp: bitmap_free_one_def)
qed

subsection \<open>Properties\<close>

text \<open>
  C31: first fit.  On a well-formed bitmap, \<open>bitmap_alloc_nbits\<close> for one clear bit
  either returns the lowest clear index and sets exactly that bit, or returns \<open>-1\<close> and
  changes nothing, the latter only when every bit is set.  It always terminates and never
  leaves the byte array.
\<close>

theorem bitmap_alloc_first_fit:
  assumes "bitmap_ok b"
  shows "case bitmap_alloc_nbits b 0 1 of
           Inl e \<Rightarrow> False
         | Inr (i, b') \<Rightarrow>
             if False \<in> set (bits_of b)
             then 0 \<le> i \<and> nat i < length (bits_of b) \<and> \<not> bits_of b ! nat i \<and>
                  (\<forall>k < nat i. bits_of b ! k) \<and> bits_of b' = (bits_of b)[nat i := True] \<and>
                  bitmap_ok b'
             else i = -1 \<and> b' = b"
  using assms
proof (cases rule: bm.alloc_cases)
  case full
  then show ?thesis by (simp add: bitmap_alloc_one_def)
next
  case (slot i t')
  then have "False \<in> set (bits_of b)" by (metis nth_mem)
  with slot show ?thesis by (auto simp: bitmap_alloc_one_def simp del: length_bits_of)
qed

theorem bitmap_alloc_first_fit_witness:
  "bitmap_ok \<lparr>bit_count = 10, bits = [7, 0]\<rparr> \<and>
   (case bitmap_alloc_nbits \<lparr>bit_count = 10, bits = [7, 0]\<rparr> 0 1 of
      Inl e \<Rightarrow> False
    | Inr (i, b') \<Rightarrow> \<not> bits_of \<lparr>bit_count = 10, bits = [7, 0]\<rparr> ! nat i \<and> bitmap_ok b')"
proof -
  let ?b = "\<lparr>bit_count = 10, bits = [7, 0]\<rparr> :: bitmap_t"
  have ok: "bitmap_ok ?b" by (simp add: bitmap_ok_def bitmap_byte_count_def)
  have "False \<in> set (bits_of ?b)" by code_simp
  with bitmap_alloc_first_fit [OF ok] ok show ?thesis
    by (auto split: sum.splits)
qed

text \<open>
  \<open>bitmap_set_bit\<close> writes the given value to exactly the bits of the requested range
  that lie inside the bitmap, and no other bit, for every count and value.
\<close>

theorem bitmap_set_bit_range:
  assumes "bitmap_ok b" "0 \<le> i"
  shows "\<exists>b'. bitmap_set_bit b i count v = Inr b' \<and> bitmap_ok b' \<and> bit_count b' = bit_count b \<and>
     (\<forall>j < nat (bit_count b). bits_of b' ! j =
        (if i \<le> int j \<and> int j < i + count then v \<noteq> 0 else bits_of b ! j))"
proof -
  have "(nat i \<le> j \<and> j < nat i + nat count) = (i \<le> int j \<and> int j < i + count)" for j
    using assms(2) by linarith
  then show ?thesis using bitmap_set_bit_ok [OF assms, of count v] by presburger
qed

theorem bitmap_set_bit_range_witness:
  "\<exists>b'. bitmap_set_bit \<lparr>bit_count = 10, bits = [0, 0]\<rparr> 6 3 1 = Inr b' \<and>
     bits_of b' ! 5 = False \<and> bits_of b' ! 8 = True"
proof -
  have "bitmap_ok \<lparr>bit_count = 10, bits = [0, 0]\<rparr>" by code_simp
  from bitmap_set_bit_range [OF this, of 6 3 1] obtain b'
    where b': "bitmap_set_bit \<lparr>bit_count = 10, bits = [0, 0]\<rparr> 6 3 1 = Inr b'"
      "\<forall>j < nat 10. bits_of b' ! j = (if 6 \<le> int j \<and> int j < 6 + 3 then (1 :: int) \<noteq> 0
         else bits_of \<lparr>bit_count = 10, bits = [0, 0]\<rparr> ! j)" by auto
  have "\<not> bits_of \<lparr>bit_count = 10, bits = [0, 0]\<rparr> ! 5" by code_simp
  with b'(2) [rule_format, of 5] b'(2) [rule_format, of 8] b'(1) show ?thesis by simp
qed

text \<open>
  With a count of two the search reads the first bit of the run twice and its last bit
  never, so an allocation of two bits can hand out a bit that is already in use; and at the
  end of the bitmap it returns a run that sticks out of it.  Both are closed instances.
\<close>

theorem bitmap_alloc_pair_flaw:
  "bitmap_alloc_nbits \<lparr>bit_count = 8, bits = [2]\<rparr> 0 2 = Inr (0, \<lparr>bit_count = 8, bits = [3]\<rparr>) \<and>
   bitmap_is_set \<lparr>bit_count = 8, bits = [2]\<rparr> 1 = Inr 1 \<and>
   bitmap_alloc_nbits \<lparr>bit_count = 8, bits = [127]\<rparr> 0 2 = Inr (7, \<lparr>bit_count = 8, bits = [255]\<rparr>)"
  by code_simp

end
