(* ===== verification/Paging.thy ===== *)
theory Paging
  imports Gdt Bitmap
begin

text \<open>
  The page allocator and the page tables of src/src/kernel/mem.c and include/mmu.h, on the byte memory
  of the machine.  A page directory and a page table are pages of 1024 little-endian words in \<open>phys\<close>;
  the entries are the words of the unions \<open>pde_t\<close> and \<open>pte_t\<close>, read by their bit fields.

  The kernel reaches its own pages by physical addresses: its tables map the memory below
  \<open>MEMORY_TASK_BASE\<close> to itself.  An address of a task goes through the page directory in cr3;
  \<open>mmu_walk\<close> is what the processor does with it, and a missing page is a \<open>PageFault\<close>.

  \<open>link_t\<close> holds the addresses the linker chooses.  The allocator's bitmap lives in the bytes behind
  the kernel image; the model keeps it in \<open>aa_bitmap\<close>, apart from the rest of the memory.
\<close>

record addr_alloc_t =
  aa_bitmap :: bitmap_t
  aa_start :: u32
  aa_size :: u32
  aa_page_size :: u32

record mem_state = gdt_state +
  phys :: mem
  paddr_alloc :: addr_alloc_t

record boot_info_t =
  ram_region_cfg :: "(u32 \<times> u32) list"
  ram_region_count :: int

record link_t =
  lk_isr :: "isr \<Rightarrow> u32"
  lk_syscall :: u32
  lk_gdt_table :: u32
  lk_idt_table :: u32
  lk_kernel_page_dir :: u32
  lk_kernel_base :: u32
  lk_s_text :: u32
  lk_e_text :: u32
  lk_s_data :: u32
  lk_mem_free_start :: u32
  lk_task :: "tid \<Rightarrow> u32"
  lk_tss :: "tid \<Rightarrow> u32"
  lk_idle_task_func :: u32
  lk_idle_stack_top :: u32
  lk_first_task_entry :: u32
  lk_s_first_task :: u32
  lk_e_first_task :: u32
  lk_temp_addr :: u32

definition MEM_EBDA_START :: u32 where "MEM_EBDA_START = 0x80000"
definition MEM_EXT_START :: u32 where "MEM_EXT_START = 0x100000"
definition MEM_PAGE_SIZE :: u32 where "MEM_PAGE_SIZE = 4096"
definition MEMORY_TASK_BASE :: u32 where "MEMORY_TASK_BASE = 0x80000000"
definition MEM_EXT_END :: u32 where "MEM_EXT_END = 0x8000000"
definition MEM_TASK_STACK_TOP :: u32 where "MEM_TASK_STACK_TOP = 0xE0000000"
definition MEM_TASK_STACK_SIZE :: u32 where "MEM_TASK_STACK_SIZE = MEM_PAGE_SIZE * 500"
definition MEM_TASK_ARG_SIZE :: u32 where "MEM_TASK_ARG_SIZE = MEM_PAGE_SIZE * 16"
definition CONSOLE_DISP_START :: u32 where "CONSOLE_DISP_START = 0xb8000"
definition CONSOLE_DISP_END :: u32 where "CONSOLE_DISP_END = 0xb8000 + 32 * 1024"

definition PDE_CNT :: nat where "PDE_CNT = 1024"
definition PTE_CNT :: nat where "PTE_CNT = 1024"
definition PTE_P :: u32 where "PTE_P = push_bit 0 1"
definition PTE_W :: u32 where "PTE_W = push_bit 1 1"
definition PTE_U :: u32 where "PTE_U = push_bit 2 1"
definition PDE_P :: u32 where "PDE_P = push_bit 0 1"
definition PDE_W :: u32 where "PDE_W = push_bit 1 1"
definition PDE_U :: u32 where "PDE_U = push_bit 2 1"

definition down2 :: "u32 \<Rightarrow> u32 \<Rightarrow> u32" where
  "down2 sz bound = sz AND NOT (bound - 1)"

definition up2 :: "u32 \<Rightarrow> u32 \<Rightarrow> u32" where
  "up2 sz bound = (sz + bound - 1) AND NOT (bound - 1)"

subsection \<open>Entries and indices\<close>

definition pde_present :: "u32 \<Rightarrow> bool" where "pde_present v = bit v 0"
definition pte_present :: "u32 \<Rightarrow> bool" where "pte_present v = bit v 0"

definition pde_index :: "u32 \<Rightarrow> u32" where "pde_index vaddr = drop_bit 22 vaddr"
definition pte_index :: "u32 \<Rightarrow> u32" where "pte_index vaddr = drop_bit 12 vaddr AND 0x3FF"

text \<open>The address fields are the upper 20 bits of the word.\<close>

definition pde_paddr :: "u32 \<Rightarrow> u32" where "pde_paddr v = push_bit 12 (drop_bit 12 v)"
definition pte_paddr :: "u32 \<Rightarrow> u32" where "pte_paddr v = push_bit 12 (drop_bit 12 v)"
definition get_pte_perm :: "u32 \<Rightarrow> u32" where "get_pte_perm v = v AND 0x1FF"

definition pde_ptr :: "u32 \<Rightarrow> u32 \<Rightarrow> u32" where "pde_ptr dir vaddr = dir + 4 * pde_index vaddr"
definition pte_ptr :: "u32 \<Rightarrow> u32 \<Rightarrow> u32" where "pte_ptr tab vaddr = tab + 4 * pte_index vaddr"

text \<open>The translation the processor performs.\<close>

definition mmu_walk :: "mem \<Rightarrow> u32 \<Rightarrow> u32 \<Rightarrow> u32 option" where
  "mmu_walk m dir vaddr =
     (let pde = mem32 m (pde_ptr dir vaddr)
      in if pde_present pde
         then let pte = mem32 m (pte_ptr (pde_paddr pde) vaddr)
              in if pte_present pte then Some (pte_paddr pte + (vaddr AND 0xfff)) else None
         else None)"

text \<open>The kernel's view of an address while the directory \<open>dir\<close> is loaded.\<close>

definition kview :: "mem \<Rightarrow> u32 \<Rightarrow> u32 \<Rightarrow> u32 option" where
  "kview m dir va = (if va < MEMORY_TASK_BASE then Some va else mmu_walk m dir va)"

fun vm_memcpy_loop :: "nat \<Rightarrow> u32 \<Rightarrow> u32 \<Rightarrow> u32 \<Rightarrow> mem \<Rightarrow> mem res" where
  "vm_memcpy_loop 0 dir d from m = Inr m"
| "vm_memcpy_loop (Suc n) dir d from m =
     (case (kview m dir d, kview m dir from) of
        (Some pd, Some ps) \<Rightarrow> vm_memcpy_loop n dir (d + 1) (from + 1) (m(pd := m ps))
      | _ \<Rightarrow> Inl PageFault)"

text \<open>\<open>k_memcpy\<close> between addresses of the loaded address space.\<close>

definition vm_memcpy :: "u32 \<Rightarrow> u32 \<Rightarrow> u32 \<Rightarrow> u32 \<Rightarrow> mem \<Rightarrow> mem res" where
  "vm_memcpy dir dest from sz m =
     (if dest = 0 \<or> from = 0 \<or> sz = 0 then Inr m else vm_memcpy_loop (unat sz) dir dest from m)"

subsection \<open>The page allocator\<close>

definition addr_alloc_init ::
  "u8 list \<Rightarrow> u32 \<Rightarrow> u32 \<Rightarrow> u32 \<Rightarrow> 'a mem_state_scheme \<Rightarrow> 'a mem_state_scheme res" where
  "addr_alloc_init bs start sz page_size s =
     res_bind (bitmap_init bs (sint (sz div page_size)) 0) (\<lambda>b.
       Inr ((mutex_init Paddr_alloc_mutex s)\<lparr>paddr_alloc :=
              \<lparr>aa_bitmap = b, aa_start = start, aa_size = sz, aa_page_size = page_size\<rparr>\<rparr>))"

definition alloc_pages :: "int \<Rightarrow> addr_alloc_t \<Rightarrow> (u32 \<times> addr_alloc_t) res" where
  "alloc_pages page_count a =
     res_bind (bitmap_alloc_nbits (aa_bitmap a) 0 page_count) (\<lambda>(page_index, b).
       Inr (if page_index \<ge> 0 then aa_start a + of_int page_index * aa_page_size a else 0,
            a\<lparr>aa_bitmap := b\<rparr>))"

definition addr_alloc_page :: "int \<Rightarrow> 'a mem_state_scheme \<Rightarrow> ('a mem_state_scheme, u32) outcome" where
  "addr_alloc_page page_count s =
     with_mutex Paddr_alloc_mutex (\<lambda>s1.
       res_bind (alloc_pages page_count (paddr_alloc s1)) (\<lambda>(addr, a). Inr (addr, s1\<lparr>paddr_alloc := a\<rparr>))) s"

definition free_pages :: "u32 \<Rightarrow> int \<Rightarrow> addr_alloc_t \<Rightarrow> addr_alloc_t res" where
  "free_pages addr page_count a =
     res_bind (bitmap_set_bit (aa_bitmap a) (sint ((addr - aa_start a) div aa_page_size a)) page_count 0) (\<lambda>b.
       Inr (a\<lparr>aa_bitmap := b\<rparr>))"

definition addr_free_page :: "u32 \<Rightarrow> int \<Rightarrow> 'a mem_state_scheme \<Rightarrow> ('a mem_state_scheme, unit) outcome" where
  "addr_free_page addr page_count s =
     with_mutex Paddr_alloc_mutex (\<lambda>s1.
       res_bind (free_pages addr page_count (paddr_alloc s1)) (\<lambda>a. Inr ((), s1\<lparr>paddr_alloc := a\<rparr>))) s"

subsection \<open>Page tables\<close>

text \<open>\<open>find_pte\<close> without allocation only reads; a null pointer is 0.\<close>

definition pte_lookup :: "mem \<Rightarrow> u32 \<Rightarrow> u32 \<Rightarrow> u32" where
  "pte_lookup m page_dir vaddr =
     (let pde = mem32 m (pde_ptr page_dir vaddr)
      in if pde_present pde then pte_ptr (pde_paddr pde) vaddr else 0)"

definition find_pte :: "u32 \<Rightarrow> u32 \<Rightarrow> int \<Rightarrow> 'a mem_state_scheme \<Rightarrow> ('a mem_state_scheme, u32) outcome" where
  "find_pte page_dir vaddr alloc s =
     (let pde = pde_ptr page_dir vaddr
      in if pde_present (mem32 (phys s) pde)
         then Done (pte_ptr (pde_paddr (mem32 (phys s) pde)) vaddr) s
         else if alloc = 0 then Done 0 s
         else kbind (addr_alloc_page 1 s) (\<lambda>pg_paddr s1.
              if pg_paddr = 0 then Done 0 s1
              else let m1 = put32 (phys s1) pde (pg_paddr OR PDE_P OR PDE_W OR PDE_U);
                       m2 = k_memset pg_paddr 0 MEM_PAGE_SIZE m1
                   in Done (pte_ptr pg_paddr vaddr) (s1\<lparr>phys := m2\<rparr>)))"

fun map_pages :: "nat \<Rightarrow> u32 \<Rightarrow> u32 \<Rightarrow> u32 \<Rightarrow> u32 \<Rightarrow> 'a mem_state_scheme \<Rightarrow> ('a mem_state_scheme, int) outcome" where
  "map_pages 0 page_dir vaddr paddr perm s = Done 0 s"
| "map_pages (Suc n) page_dir vaddr paddr perm s =
     kbind (find_pte page_dir vaddr 1 s) (\<lambda>pte s1.
       if pte = 0 then Done (-1) s1
       else let s2 = (if pte_present (mem32 (phys s1) pte) then log_line ''error111'' [] s1 else s1);
                s3 = s2\<lparr>phys := put32 (phys s2) pte (paddr OR perm OR PTE_P)\<rparr>
            in map_pages n page_dir (vaddr + MEM_PAGE_SIZE) (paddr + MEM_PAGE_SIZE) perm s3)"

definition memory_create_map ::
  "u32 \<Rightarrow> u32 \<Rightarrow> u32 \<Rightarrow> int \<Rightarrow> u32 \<Rightarrow> 'a mem_state_scheme \<Rightarrow> ('a mem_state_scheme, int) outcome" where
  "memory_create_map page_dir vaddr paddr count perm s = map_pages (nat count) page_dir vaddr paddr perm s"

record memory_map_t =
  mm_vstart :: u32
  mm_vend :: u32
  mm_pstart :: u32
  mm_perm :: u32

definition kernel_map :: "link_t \<Rightarrow> memory_map_t list" where
  "kernel_map lk =
     [\<lparr>mm_vstart = lk_kernel_base lk, mm_vend = lk_s_text lk, mm_pstart = 0, mm_perm = PTE_W\<rparr>,
      \<lparr>mm_vstart = lk_s_text lk, mm_vend = lk_e_text lk, mm_pstart = lk_s_text lk, mm_perm = 0\<rparr>,
      \<lparr>mm_vstart = lk_s_data lk, mm_vend = MEM_EBDA_START, mm_pstart = lk_s_data lk, mm_perm = PTE_W\<rparr>,
      \<lparr>mm_vstart = CONSOLE_DISP_START, mm_vend = CONSOLE_DISP_END, mm_pstart = CONSOLE_DISP_START, mm_perm = PTE_W\<rparr>,
      \<lparr>mm_vstart = MEM_EXT_START, mm_vend = MEM_EXT_END, mm_pstart = MEM_EXT_START, mm_perm = PTE_W\<rparr>]"

fun create_maps :: "u32 \<Rightarrow> memory_map_t list \<Rightarrow> 'a mem_state_scheme \<Rightarrow> ('a mem_state_scheme, unit) outcome" where
  "create_maps dir [] s = Done () s"
| "create_maps dir (mp # mps) s =
     (let vstart = sint (down2 (mm_vstart mp) MEM_PAGE_SIZE);
          vend = sint (up2 (mm_vend mp) MEM_PAGE_SIZE);
          page_count = (vend - vstart) sdiv 4096
      in kbind (memory_create_map dir (of_int vstart) (mm_pstart mp) page_count (mm_perm mp) s) (\<lambda>_ s1.
           create_maps dir mps s1))"

definition create_kernel_table :: "link_t \<Rightarrow> 'a mem_state_scheme \<Rightarrow> ('a mem_state_scheme, unit) outcome" where
  "create_kernel_table lk s = create_maps (lk_kernel_page_dir lk) (kernel_map lk) s"

fun show_regions :: "int \<Rightarrow> (u32 \<times> u32) list \<Rightarrow> 'a cpu_state_scheme \<Rightarrow> 'a cpu_state_scheme" where
  "show_regions i [] s = s"
| "show_regions i ((start, sz) # rs) s =
     show_regions (i + 1) rs (log_line ''[%d]: 0x%x - 0x%x'' [VInt i, VInt (sint start), VInt (sint sz)] s)"

definition show_mem_info :: "boot_info_t \<Rightarrow> 'a cpu_state_scheme \<Rightarrow> 'a cpu_state_scheme" where
  "show_mem_info bi s =
     log_line [] [] (show_regions 0 (take (nat (ram_region_count bi)) (ram_region_cfg bi)) (log_line ''mem region'' [] s))"

definition total_mem_size :: "boot_info_t \<Rightarrow> u32" where
  "total_mem_size bi = sum_list (map snd (take (nat (ram_region_count bi)) (ram_region_cfg bi)))"

definition memory_init :: "link_t \<Rightarrow> boot_info_t \<Rightarrow> 'a mem_state_scheme \<Rightarrow> ('a mem_state_scheme, unit) outcome" where
  "memory_init lk bi s =
     (let s1 = show_mem_info bi (log_line ''memory init'' [] s);
          mem_free = lk_mem_free_start lk;
          mem_up1MB_free = down2 (total_mem_size bi - MEM_EXT_START) MEM_PAGE_SIZE;
          s2 = log_line ''free memory: 0x%x, size: 0x%x'' [VInt (sint MEM_EXT_START), VInt (sint mem_up1MB_free)] s1;
          nbytes = bitmap_byte_count (sint (mem_up1MB_free div MEM_PAGE_SIZE))
      in case addr_alloc_init (load_bytes (phys s2) mem_free (nat nbytes)) MEM_EXT_START mem_up1MB_free MEM_PAGE_SIZE s2 of
           Inl e \<Rightarrow> Fault e
         | Inr s3 \<Rightarrow>
             let s4 = (if mem_free + of_int nbytes < 0x800000 then log_line ''simple test ok!'' [] s3 else s3);
                 s5 = s4\<lparr>phys := k_memset (lk_kernel_page_dir lk) 0 (of_nat (PDE_CNT * 4)) (phys s4)\<rparr>
             in kbind (create_kernel_table lk s5) (\<lambda>_ s6. Done () (mmu_set_page_dir (lk_kernel_page_dir lk) s6)))"

end
