(* ===== verification/Address_Spaces.thy ===== *)
theory Address_Spaces
  imports Paging
begin

text \<open>
  The address spaces of the tasks, the second half of src/src/kernel/mem.c: creating, filling, copying
  and destroying the page directory of a task, moving data between address spaces, and \<open>sys_sbrk\<close>.
\<close>

subsection \<open>Creating and filling\<close>

fun copy_pdes :: "nat \<Rightarrow> u32 \<Rightarrow> u32 \<Rightarrow> mem \<Rightarrow> mem" where
  "copy_pdes 0 from to m = m"
| "copy_pdes (Suc n) from to m = copy_pdes n (from + 4) (to + 4) (put32 m to (mem32 m from))"

definition memory_create_uvm :: "link_t \<Rightarrow> 'a mem_state_scheme \<Rightarrow> ('a mem_state_scheme, u32) outcome" where
  "memory_create_uvm lk s =
     kbind (addr_alloc_page 1 s) (\<lambda>page_dir s1.
       if page_dir = 0 then Done 0 s1
       else let m1 = k_memset page_dir 0 MEM_PAGE_SIZE (phys s1);
                user_pde_start = pde_index MEMORY_TASK_BASE
            in Done page_dir (s1\<lparr>phys := copy_pdes (unat user_pde_start) (lk_kernel_page_dir lk) page_dir m1\<rparr>))"

text \<open>The result is 0 also when there is no memory left, and \<open>-1\<close> as an unsigned number when a page
  table cannot be had.\<close>

fun alloc_for_dir ::
  "nat \<Rightarrow> nat \<Rightarrow> u32 \<Rightarrow> u32 \<Rightarrow> u32 \<Rightarrow> u32 \<Rightarrow> 'a mem_state_scheme \<Rightarrow> ('a mem_state_scheme, u32) outcome" where
  "alloc_for_dir 0 i page_dir vaddr curr_vaddr perm s = Done 0 s"
| "alloc_for_dir (Suc n) i page_dir vaddr curr_vaddr perm s =
     kbind (addr_alloc_page 1 s) (\<lambda>paddr s1.
       if paddr = 0 then Done 0 (log_line ''mem alloc failed. no memory'' [] s1)
       else kbind (memory_create_map page_dir curr_vaddr paddr 1 perm s1) (\<lambda>err s2.
            if err < 0
            then let s3 = log_line ''create memory map failed. err = %d'' [VInt err] s2
                 in kbind (addr_free_page vaddr (int i + 1) s3) (\<lambda>_ s4. Done (-1) s4)
            else alloc_for_dir n (Suc i) page_dir vaddr (curr_vaddr + MEM_PAGE_SIZE) perm s2))"

definition memory_alloc_for_page_dir ::
  "u32 \<Rightarrow> u32 \<Rightarrow> u32 \<Rightarrow> u32 \<Rightarrow> 'a mem_state_scheme \<Rightarrow> ('a mem_state_scheme, u32) outcome" where
  "memory_alloc_for_page_dir page_dir vaddr sz perm s =
     (let page_count = sint (up2 sz MEM_PAGE_SIZE div MEM_PAGE_SIZE)
      in alloc_for_dir (nat page_count) 0 page_dir (down2 vaddr MEM_PAGE_SIZE) vaddr perm s)"

definition memory_alloc_page_for :: "u32 \<Rightarrow> u32 \<Rightarrow> u32 \<Rightarrow> 'a mem_state_scheme \<Rightarrow> ('a mem_state_scheme, int) outcome" where
  "memory_alloc_page_for addr sz perm s =
     kbind (memory_alloc_for_page_dir (t_cr3 (tk_tss (tasks s (task_current s)))) addr sz perm s)
       (\<lambda>r s1. Done (sint r) s1)"

definition memory_alloc_page :: "'a mem_state_scheme \<Rightarrow> ('a mem_state_scheme, u32) outcome" where
  "memory_alloc_page s = addr_alloc_page 1 s"

definition curr_page_dir :: "'a mem_state_scheme \<Rightarrow> u32" where
  "curr_page_dir s = t_cr3 (tk_tss (tasks s (task_current s)))"

text \<open>For an address of a task without a page table, \<open>find_pte\<close> returns null and the code reads through
  it.\<close>

definition memory_free_page :: "u32 \<Rightarrow> 'a mem_state_scheme \<Rightarrow> ('a mem_state_scheme, unit) outcome" where
  "memory_free_page addr s =
     (if addr < MEMORY_TASK_BASE then addr_free_page addr 1 s
      else kbind (find_pte (curr_page_dir s) addr 0 s) (\<lambda>pte s1.
           if pte = 0 then Fault NullDeref
           else kbind (addr_free_page (pte_paddr (mem32 (phys s1) pte)) 1 s1) (\<lambda>_ s2.
                Done () (s2\<lparr>phys := put32 (phys s2) pte 0\<rparr>))))"

definition memory_get_paddr :: "mem \<Rightarrow> u32 \<Rightarrow> u32 \<Rightarrow> u32" where
  "memory_get_paddr m page_dir vaddr =
     (let pte = pte_lookup m page_dir vaddr
      in if pte = 0 then 0 else pte_paddr (mem32 m pte) + (vaddr AND (MEM_PAGE_SIZE - 1)))"

subsection \<open>Destroying and copying\<close>

fun free_ptes :: "nat \<Rightarrow> u32 \<Rightarrow> 'a mem_state_scheme \<Rightarrow> ('a mem_state_scheme, unit) outcome" where
  "free_ptes 0 pte s = Done () s"
| "free_ptes (Suc n) pte s =
     (if \<not> pte_present (mem32 (phys s) pte) then free_ptes n (pte + 4) s
      else kbind (addr_free_page (pte_paddr (mem32 (phys s) pte)) 1 s) (\<lambda>_ s1. free_ptes n (pte + 4) s1))"

fun free_pdes :: "nat \<Rightarrow> u32 \<Rightarrow> 'a mem_state_scheme \<Rightarrow> ('a mem_state_scheme, unit) outcome" where
  "free_pdes 0 pde s = Done () s"
| "free_pdes (Suc n) pde s =
     (if \<not> pde_present (mem32 (phys s) pde) then free_pdes n (pde + 4) s
      else kbind (free_ptes PTE_CNT (pde_paddr (mem32 (phys s) pde)) s) (\<lambda>_ s1.
           kbind (addr_free_page (pde_paddr (mem32 (phys s1) pde)) 1 s1) (\<lambda>_ s2. free_pdes n (pde + 4) s2)))"

definition memory_destory_uvm :: "u32 \<Rightarrow> 'a mem_state_scheme \<Rightarrow> ('a mem_state_scheme, unit) outcome" where
  "memory_destory_uvm page_dir s =
     (let user_pde_start = unat (pde_index MEMORY_TASK_BASE)
      in kbind (free_pdes (PDE_CNT - user_pde_start) (page_dir + 4 * of_nat user_pde_start) s) (\<lambda>_ s1.
           addr_free_page page_dir 1 s1))"

text \<open>The loops of \<open>memory_copy_uvm\<close> say whether they got to the end; \<open>j\<close> and \<open>i\<close> count the entries that
  are left, so the index of the entry is the difference.\<close>

fun copy_ptes :: "nat \<Rightarrow> nat \<Rightarrow> u32 \<Rightarrow> u32 \<Rightarrow> 'a mem_state_scheme \<Rightarrow> ('a mem_state_scheme, bool) outcome" where
  "copy_ptes 0 i to_page_dir pte s = Done True s"
| "copy_ptes (Suc n) i to_page_dir pte s =
     (if \<not> pte_present (mem32 (phys s) pte) then copy_ptes n i to_page_dir (pte + 4) s
      else kbind (addr_alloc_page 1 s) (\<lambda>page s1.
           if page = 0 then Done False s1
           else let j = PTE_CNT - Suc n;
                    vaddr = push_bit 22 (of_nat i) OR push_bit 12 (of_nat j)
                in kbind (memory_create_map to_page_dir vaddr page 1 (get_pte_perm (mem32 (phys s1) pte)) s1) (\<lambda>err s2.
                   if err < 0 then Done False s2
                   else case vm_memcpy (cr3 s2) page vaddr MEM_PAGE_SIZE (phys s2) of
                          Inl e \<Rightarrow> Fault e
                        | Inr m \<Rightarrow> copy_ptes n i to_page_dir (pte + 4) (s2\<lparr>phys := m\<rparr>))))"

fun copy_tables :: "nat \<Rightarrow> u32 \<Rightarrow> u32 \<Rightarrow> 'a mem_state_scheme \<Rightarrow> ('a mem_state_scheme, bool) outcome" where
  "copy_tables 0 to_page_dir pde s = Done True s"
| "copy_tables (Suc n) to_page_dir pde s =
     (if \<not> pde_present (mem32 (phys s) pde) then copy_tables n to_page_dir (pde + 4) s
      else kbind (copy_ptes PTE_CNT (PDE_CNT - Suc n) to_page_dir (pde_paddr (mem32 (phys s) pde)) s) (\<lambda>ok s1.
           if ok then copy_tables n to_page_dir (pde + 4) s1 else Done False s1))"

definition memory_copy_uvm :: "link_t \<Rightarrow> u32 \<Rightarrow> 'a mem_state_scheme \<Rightarrow> ('a mem_state_scheme, u32) outcome" where
  "memory_copy_uvm lk page_dir s =
     kbind (memory_create_uvm lk s) (\<lambda>to_page_dir s1.
       if to_page_dir = 0 then Done (-1) s1
       else let user_pde_start = unat (pde_index MEMORY_TASK_BASE)
            in kbind (copy_tables (PDE_CNT - user_pde_start) to_page_dir (page_dir + 4 * of_nat user_pde_start) s1)
                 (\<lambda>ok s2. if ok then Done to_page_dir s2
                           else kbind (memory_destory_uvm to_page_dir s2) (\<lambda>_ s3. Done (-1) s3)))"

subsection \<open>Data in another address space\<close>

function memory_copy_uvm_data :: "u32 \<Rightarrow> u32 \<Rightarrow> u32 \<Rightarrow> u32 \<Rightarrow> u32 \<Rightarrow> mem \<Rightarrow> (int \<times> mem) res" where
  "memory_copy_uvm_data dir to page_dir from sz m =
     (if sz > 0
      then let to_paddr = memory_get_paddr m page_dir to
           in if to_paddr = 0 then Inr (-1, m)
              else let offset_in_page = to_paddr AND (MEM_PAGE_SIZE - 1);
                       left = MEM_PAGE_SIZE - offset_in_page;
                       curr_size = (if left > sz then sz else left)
                   in case vm_memcpy dir to_paddr from curr_size m of
                        Inl e \<Rightarrow> Inl e
                      | Inr m1 \<Rightarrow> memory_copy_uvm_data dir (to + curr_size) page_dir (from + curr_size) (sz - curr_size) m1
      else Inr (0, m))"
  by pat_completeness auto
termination
proof (relation "measure (\<lambda>(dir, to, page_dir, from, sz, m). unat sz)", goal_cases)
  case (2 dir to page_dir src sz m to_paddr offset_in_page left curr_size m1)
  have "offset_in_page = take_bit 12 to_paddr"
    using 2 by (simp add: MEM_PAGE_SIZE_def take_bit_eq_mask mask_eq_exp_minus_1)
  then have "offset_in_page < MEM_PAGE_SIZE"
    by (simp add: MEM_PAGE_SIZE_def word_less_nat_alt unsigned_take_bit_eq take_bit_nat_less_exp [of 12, simplified])
  then have "left > 0" using 2(5) by (simp add: MEM_PAGE_SIZE_def word_gt_0)
  then have "curr_size > 0 \<and> curr_size \<le> sz" using 2(1,6) by (auto simp: not_less)
  then have "unat (sz - curr_size) < unat sz"
    by (simp add: unat_sub word_le_nat_alt word_less_nat_alt unat_gt_0 [symmetric])
  then show ?case by simp
qed simp

declare memory_copy_uvm_data.simps [simp del]

subsection \<open>The heap of a task\<close>

definition set_heap_end :: "u32 \<Rightarrow> 'a sched_state_scheme \<Rightarrow> 'a sched_state_scheme" where
  "set_heap_end e s = upd_task (task_current s) (\<lambda>t. t\<lparr>tk_heap_end := e\<rparr>) s"

definition sys_sbrk :: "int \<Rightarrow> 'a mem_state_scheme \<Rightarrow> ('a mem_state_scheme, u32) outcome" where
  "sys_sbrk incr s =
     (let pre_heap_end = tk_heap_end (tasks s (task_current s))
      in if incr = 0 then Done pre_heap_end (log_line ''sbrk(0): end = 0x%x'' [VInt (sint pre_heap_end)] s)
         else let start = pre_heap_end;
                  fin = start + of_int incr;
                  start_offset = uint (start mod MEM_PAGE_SIZE)
              in if start_offset \<noteq> 0 \<and> start_offset + incr \<le> 4096
                 then Done pre_heap_end (set_heap_end fin s)
                 else let (start1, incr1) = (if start_offset \<noteq> 0
                            then (start + of_int (4096 - start_offset), incr - (4096 - start_offset)) else (start, incr))
                      in kbind (if incr1 \<noteq> 0
                                then memory_alloc_page_for start1 (fin - start1) (PTE_P OR PTE_U OR PTE_W) s
                                else Done 0 s) (\<lambda>err s1.
                         if err < 0 then Done (-1) (log_line ''sbrk: alloc mem failed.'' [] s1)
                         else Done pre_heap_end (set_heap_end fin s1)))"

end
