(* ===== verification/Files.thy ===== *)
theory Files
  imports Address_Spaces Disk
begin

text \<open>
  The file table of src/src/kernel/fs/file.c and the file system calls of src/src/kernel/fs/fs.c.  There
  are two kinds of file: terminals, opened by a name that starts like \<open>tty\<close>, and the one program image,
  opened by any name that starts with a slash, which \<open>sys_open\<close> reads from the disk into \<open>TEMP_ADDR\<close>
  and which has the fixed number \<open>TEMP_FILE_ID\<close>.

  A pointer from a task is an address of the loaded address space.  \<open>uview\<close> is the memory the kernel
  reads through it; what the kernel stores through such a pointer faults where no page is mapped.
\<close>

datatype file_type_t = FILE_UNKNOWN | FILE_TTY

record file_t =
  fl_name :: "u8 list"
  fl_type :: file_type_t
  fl_size :: u32
  fl_ref :: int
  fl_dev_id :: int
  fl_pos :: int
  fl_mod :: int

record fs_state = mem_state +
  file_tb :: "file_t list"
  temp_pos :: u32
  disk :: disk_port

definition FILE_NAME_SIZE :: nat where "FILE_NAME_SIZE = 32"
definition FILE_TABLE_SIZE :: nat where "FILE_TABLE_SIZE = 1024"
definition TEMP_FILE_ID :: int where "TEMP_FILE_ID = 12"
definition TASK_OFILE_NR :: int where "TASK_OFILE_NR = 128"

definition no_file :: file_t where
  "no_file = \<lparr>fl_name = replicate FILE_NAME_SIZE 0, fl_type = FILE_UNKNOWN, fl_size = 0, fl_ref = 0, fl_dev_id = 0,
     fl_pos = 0, fl_mod = 0\<rparr>"

definition upd_file :: "nat \<Rightarrow> (file_t \<Rightarrow> file_t) \<Rightarrow> 'a fs_state_scheme \<Rightarrow> 'a fs_state_scheme" where
  "upd_file i f s = s\<lparr>file_tb := (file_tb s)[i := f (file_tb s ! i)]\<rparr>"

subsection \<open>The file table\<close>

fun free_file :: "nat \<Rightarrow> file_t list \<Rightarrow> nat option" where
  "free_file i [] = None"
| "free_file i (f # fs) = (if fl_ref f = 0 then Some i else free_file (Suc i) fs)"

definition file_alloc :: "'a fs_state_scheme \<Rightarrow> ('a fs_state_scheme, nat option) outcome" where
  "file_alloc s =
     with_mutex File_alloc_mutex (\<lambda>s1.
       case free_file 0 (file_tb s1) of
         Some i \<Rightarrow> Inr (Some i, upd_file i (\<lambda>_. no_file\<lparr>fl_ref := 1\<rparr>) s1)
       | None \<Rightarrow> Inr (None, s1)) s"

definition file_free :: "nat \<Rightarrow> 'a fs_state_scheme \<Rightarrow> ('a fs_state_scheme, unit) outcome" where
  "file_free i s =
     with_mutex File_alloc_mutex (\<lambda>s1.
       if i < length (file_tb s1)
       then Inr ((), if fl_ref (file_tb s1 ! i) \<noteq> 0 then upd_file i (\<lambda>f. f\<lparr>fl_ref := fl_ref f - 1\<rparr>) s1 else s1)
       else Inl OutOfBounds) s"

definition file_table_init :: "'a fs_state_scheme \<Rightarrow> 'a fs_state_scheme" where
  "file_table_init s = (mutex_init File_alloc_mutex s)\<lparr>file_tb := replicate FILE_TABLE_SIZE no_file\<rparr>"

definition fs_init :: "'a fs_state_scheme \<Rightarrow> 'a fs_state_scheme" where
  "fs_init s = file_table_init s"

subsection \<open>Memory of the calling task\<close>

definition uview :: "'a mem_state_scheme \<Rightarrow> mem" where
  "uview s va = (case kview (phys s) (cr3 s) va of Some pa \<Rightarrow> phys s pa | None \<Rightarrow> 0)"

partial_function (option) load_cstr :: "mem \<Rightarrow> u32 \<Rightarrow> u8 list option" where
  "load_cstr m p = (if m p = 0 then Some [] else Option.bind (load_cstr m (p + 1)) (\<lambda>xs. Some (m p # xs)))"

definition chars_of :: "u8 list \<Rightarrow> string" where
  "chars_of bs = map (\<lambda>b. char_of (unat b)) bs"

fun user_store :: "u32 \<Rightarrow> u32 \<Rightarrow> u8 list \<Rightarrow> mem \<Rightarrow> mem res" where
  "user_store dir p [] m = Inr m"
| "user_store dir p (x # xs) m =
     (case kview m dir p of None \<Rightarrow> Inl PageFault | Some pa \<Rightarrow> user_store dir (p + 1) xs (m(pa := x)))"

fun user_load :: "u32 \<Rightarrow> u32 \<Rightarrow> nat \<Rightarrow> mem \<Rightarrow> u8 list res" where
  "user_load dir p 0 m = Inr []"
| "user_load dir p (Suc n) m =
     (case kview m dir p of
        None \<Rightarrow> Inl PageFault
      | Some pa \<Rightarrow> res_bind (user_load dir (p + 1) n m) (\<lambda>xs. Inr (m pa # xs)))"

text \<open>\<open>k_strncmp(name, lit, n)\<close> on the bytes of the two strings.\<close>

fun strncmp_bytes :: "u8 list \<Rightarrow> u8 list \<Rightarrow> int" where
  "strncmp_bytes (x # xs) (y # ys) = (if x = y then strncmp_bytes xs ys else 1)"
| "strncmp_bytes _ _ = 0"

definition is_path_valid :: "u32 \<Rightarrow> u8 list \<Rightarrow> bool" where
  "is_path_valid path bytes \<longleftrightarrow> path \<noteq> 0 \<and> bytes \<noteq> []"

subsection \<open>System calls\<close>

text \<open>The failure exit of \<open>sys_open\<close>: the file goes back, then the descriptor.\<close>

definition sys_open_failed :: "nat option \<Rightarrow> int \<Rightarrow> 'a fs_state_scheme \<Rightarrow> ('a fs_state_scheme, int) outcome" where
  "sys_open_failed file fd s =
     kbind (case file of Some i \<Rightarrow> file_free i s | None \<Rightarrow> Done () s) (\<lambda>_ s1.
       Done (-1) (if fd \<ge> 0 then task_remove_fd fd s1 else s1))"

definition open_tty :: "link_t \<Rightarrow> u32 \<Rightarrow> 'a fs_state_scheme \<Rightarrow> ('a fs_state_scheme, int) outcome" where
  "open_tty lk name s =
     kbind (file_alloc s) (\<lambda>file s1.
       case file of
         None \<Rightarrow> sys_open_failed None (-1) s1
       | Some i \<Rightarrow>
           let (fd, s2) = task_alloc_fd i s1
           in if fd < 0 then sys_open_failed (Some i) fd s2
              else let num = sint (uview s2 (name + 4)) - 48
                   in case dev_open (lk_isr lk) DEV_TTY num 0 s2 of
                        Inl e \<Rightarrow> Fault e
                      | Inr (dev_id, s3) \<Rightarrow>
                          if dev_id < 0 then sys_open_failed (Some i) fd s3
                          else Done fd (upd_file i (\<lambda>f. f\<lparr>fl_dev_id := dev_id, fl_mod := 0, fl_pos := 0, fl_ref := 1,
                                 fl_type := FILE_TTY, fl_name := load_bytes (uview s3) name FILE_NAME_SIZE\<rparr>) s3))"

definition sys_open :: "link_t \<Rightarrow> u32 \<Rightarrow> int \<Rightarrow> 'a fs_state_scheme \<Rightarrow> ('a fs_state_scheme, int) outcome" where
  "sys_open lk name flags s =
     (if name = 0 then Fault NullDeref
      else case load_cstr (uview s) name of
        None \<Rightarrow> Fault Diverges
      | Some bytes \<Rightarrow>
          if strncmp_bytes bytes (bytes_of ''tty'') = 0
          then (if \<not> is_path_valid name bytes then Done (-1) (log_line ''path not valid'' [] s)
                else open_tty lk name s)
          else if bytes ! 0 = of_char CHR ''/''
          then let (st, s1) = irq_enter_proection s
               in case read_disk 5000 100 (lk_temp_addr lk) s1 (disk s1) (phys s1) of
                    None \<Rightarrow> Fault Diverges
                  | Some (s2, d, m) \<Rightarrow>
                      Done TEMP_FILE_ID ((irq_leave_proection st (s2\<lparr>disk := d, phys := m\<rparr>))\<lparr>temp_pos := lk_temp_addr lk\<rparr>)
          else Done (-1) s)"

text \<open>Reading the program image into a buffer of the kernel: the bytes and the moved position.\<close>

definition temp_take :: "int \<Rightarrow> 'a fs_state_scheme \<Rightarrow> u8 list \<times> 'a fs_state_scheme" where
  "temp_take len s =
     (load_bytes (phys s) (temp_pos s) (unat (of_int len :: u32)), s\<lparr>temp_pos := temp_pos s + of_int len\<rparr>)"

definition read_tty :: "int \<Rightarrow> 'a fs_state_scheme \<Rightarrow> ('a fs_state_scheme, int \<times> u8 list) outcome" where
  "read_tty len s =
     (case task_file 0 s of
        None \<Rightarrow> Done (-1, []) (log_line ''file not open'' [] s)
      | Some i \<Rightarrow> dev_read (fl_dev_id (file_tb s ! i)) 0 len s)"

definition sys_read :: "int \<Rightarrow> u32 \<Rightarrow> int \<Rightarrow> 'a fs_state_scheme \<Rightarrow> ('a fs_state_scheme, int) outcome" where
  "sys_read file ptr len s =
     (if file = TEMP_FILE_ID
      then (case vm_memcpy (cr3 s) ptr (temp_pos s) (of_int len) (phys s) of
              Inl e \<Rightarrow> Fault e
            | Inr m \<Rightarrow> Done len (s\<lparr>phys := m, temp_pos := temp_pos s + of_int len\<rparr>))
      else kbind (read_tty len s) (\<lambda>(n, bytes) s1.
             case user_store (cr3 s1) ptr bytes (phys s1) of
               Inl e \<Rightarrow> Fault e
             | Inr m \<Rightarrow> Done n (s1\<lparr>phys := m\<rparr>)))"

definition sys_read_local :: "int \<Rightarrow> int \<Rightarrow> 'a fs_state_scheme \<Rightarrow> ('a fs_state_scheme, int \<times> u8 list) outcome" where
  "sys_read_local file len s =
     (if file = TEMP_FILE_ID then (let (bytes, s1) = temp_take len s in Done (len, bytes) s1)
      else read_tty len s)"

definition sys_write :: "int \<Rightarrow> u32 \<Rightarrow> int \<Rightarrow> 'a fs_state_scheme \<Rightarrow> ('a fs_state_scheme, int) outcome" where
  "sys_write file ptr len s =
     (case task_file file s of
        None \<Rightarrow> Done (-1) (log_line ''file not open'' [] s)
      | Some i \<Rightarrow>
          (case user_load (cr3 s) ptr (nat len) (phys s) of
             Inl e \<Rightarrow> Fault e
           | Inr buf \<Rightarrow> dev_write (fl_dev_id (file_tb s ! i)) 0 buf len s))"

text \<open>For any other file \<open>sys_lseek\<close> falls off its end.\<close>

definition sys_lseek :: "link_t \<Rightarrow> int \<Rightarrow> int \<Rightarrow> int \<Rightarrow> 'a fs_state_scheme \<Rightarrow> ('a fs_state_scheme, int) outcome" where
  "sys_lseek lk file ptr dir s =
     (if file = TEMP_FILE_ID then Done 0 (s\<lparr>temp_pos := lk_temp_addr lk + of_int ptr\<rparr>) else Fault NoReturnValue)"

definition sys_close :: "int \<Rightarrow> int" where
  "sys_close file = 0"

definition sys_dup :: "int \<Rightarrow> 'a fs_state_scheme \<Rightarrow> int \<times> 'a fs_state_scheme" where
  "sys_dup file s =
     (if file < 0 \<and> file \<ge> TASK_OFILE_NR then (-1, log_line ''file %d is not valid'' [VInt file] s)
      else case task_file file s of
             None \<Rightarrow> (-1, log_line ''file not opened'' [] s)
           | Some i \<Rightarrow>
               let (fd, s1) = task_alloc_fd i s
               in if fd \<ge> 0 then (fd, upd_file i (\<lambda>f. f\<lparr>fl_ref := fl_ref f + 1\<rparr>) s1)
                  else (-1, log_line ''no task file avaliable'' [] s1))"

definition sys_isatty :: "int \<Rightarrow> int" where
  "sys_isatty file = -1"

definition sys_fstat :: "int \<Rightarrow> u32 \<Rightarrow> int" where
  "sys_fstat file st = -1"

end
