(* ===== verification/Tasks.thy ===== *)
theory Tasks
  imports Files
begin

text \<open>
  The life of a task, the rest of src/src/kernel/task.c: the hardware task state, initialisation, the
  task table, \<open>sys_fork\<close>, \<open>sys_execve\<close> with the program loader, and \<open>sys_exit\<close>.

  The system call frame of a task lies at the top of its kernel stack, in the byte memory; \<open>sys_fork\<close>
  reads it and \<open>sys_execve\<close> writes it, both by the offsets of \<open>syscall_frame_t\<close>.  A task's name is the
  array of 32 characters in front of its pid: \<open>copy_name\<close> is \<open>k_strncpy(task->name, name, 32)\<close> with what
  that function does at the limit: 31 characters lose the last one, and from 32 on the terminating
  NUL goes to the first byte of the pid.
\<close>

definition TASK_NAME_SIZE :: nat where "TASK_NAME_SIZE = 32"
definition TASK_TIME_SLICE_DEFAULT :: int where "TASK_TIME_SLICE_DEFAULT = 10"
definition TASK_FLAGS_SYSTEM :: u32 where "TASK_FLAGS_SYSTEM = push_bit 0 1"
definition EFLAGES_DEFAULT :: u32 where "EFLAGES_DEFAULT = push_bit 1 1"
definition SYSCALL_PARAM_COUNT :: u32 where "SYSCALL_PARAM_COUNT = 5"
definition TSS_SIZE :: u32 where "TSS_SIZE = 104"

definition zero_tss :: tss_t where
  "zero_tss = \<lparr>t_pre_link = 0, t_esp0 = 0, t_ss0 = 0, t_esp1 = 0, t_ss1 = 0, t_esp2 = 0, t_ss2 = 0,
     t_cr3 = 0, t_eip = 0, t_eflags = 0, t_eax = 0, t_ecx = 0, t_edx = 0, t_ebx = 0, t_esp = 0,
     t_ebp = 0, t_esi = 0, t_edi = 0, t_es = 0, t_cs = 0, t_ss = 0, t_ds = 0, t_fs = 0, t_gs = 0,
     t_ldt = 0, t_iomap = 0\<rparr>"

definition zero_task :: task_t where
  "zero_task = \<lparr>tk_stack = 0, tk_state = TASK_CREATED, tk_name = [], tk_pid = 0, tk_parent = None,
     tk_heap_start = 0, tk_heap_end = 0, tk_slice_ticks = 0, tk_time_ticks = 0, tk_sleep_ticks = 0,
     tk_status = 0, tk_file_table = replicate 128 None, tk_tss = zero_tss, tk_tss_sel = 0\<rparr>"

definition copy_name :: "string \<Rightarrow> task_t \<Rightarrow> task_t" where
  "copy_name name t =
     (if length name = TASK_NAME_SIZE - 1 then t\<lparr>tk_name := take (TASK_NAME_SIZE - 2) name\<rparr>
      else if length name < TASK_NAME_SIZE then t\<lparr>tk_name := name\<rparr>
      else t\<lparr>tk_name := take TASK_NAME_SIZE name, tk_pid := tk_pid t AND NOT 0xff\<rparr>)"

subsection \<open>Initialising a task\<close>

text \<open>The exit of \<open>tss_init\<close> on failure: the selector goes back, and the kernel stack when there is one.\<close>

definition tss_init_failed :: "int \<Rightarrow> u32 \<Rightarrow> 'a mem_state_scheme \<Rightarrow> ('a mem_state_scheme, int) outcome" where
  "tss_init_failed tss_sel kernel_stack s =
     kbind (gdt_free_sel tss_sel s) (\<lambda>_ s1.
     kbind (if kernel_stack \<noteq> 0 then memory_free_page kernel_stack s1 else Done () s1) (\<lambda>_ s2. Done (-1) s2))"

definition tss_init ::
  "link_t \<Rightarrow> tid \<Rightarrow> u32 \<Rightarrow> u32 \<Rightarrow> u32 \<Rightarrow> 'a mem_state_scheme \<Rightarrow> ('a mem_state_scheme, int) outcome" where
  "tss_init lk task flag entry esp s =
     kbind (gdt_alloc_desc s) (\<lambda>tss_sel s1.
     case segment_desc_set tss_sel (lk_tss lk task) TSS_SIZE (SEG_P_PRESENT OR SEG_DPL0 OR SEG_TYPE_TSS) s1 of
       Inl e \<Rightarrow> Fault e
     | Inr s2 \<Rightarrow>
         let s3 = upd_task task (\<lambda>t. t\<lparr>tk_tss := zero_tss\<rparr>) s2
         in kbind (memory_alloc_page s3) (\<lambda>kernel_stack s4.
            if kernel_stack = 0 then tss_init_failed tss_sel kernel_stack s4
            else let (code_sel, data_sel) =
                       (if flag AND TASK_FLAGS_SYSTEM \<noteq> 0
                        then (ucast KERNEL_SELECTOR_CS, of_int KERNEL_SELECTOR_DS)
                        else (of_int (app_code_sel s4) OR SEG_RPL3, of_int (app_data_sel s4) OR SEG_RPL3));
                     s5 = upd_task task (\<lambda>t. t\<lparr>tk_tss := (tk_tss t)\<lparr>t_eip := entry, t_esp := esp,
                            t_esp0 := kernel_stack + MEM_PAGE_SIZE, t_ss := data_sel,
                            t_ss0 := of_int KERNEL_SELECTOR_DS, t_es := data_sel, t_ds := data_sel,
                            t_fs := data_sel, t_gs := data_sel, t_cs := code_sel,
                            t_eflags := EFLAGES_DEFAULT OR EFLAGS_IF\<rparr>\<rparr>) s4
                 in kbind (memory_create_uvm lk s5) (\<lambda>page_dir s6.
                    if page_dir = 0 then tss_init_failed tss_sel kernel_stack s6
                    else Done 0 (upd_task task (\<lambda>t. t\<lparr>tk_tss := (tk_tss t)\<lparr>t_cr3 := page_dir\<rparr>,
                                                       tk_tss_sel := of_int tss_sel\<rparr>) s6))))"

definition null_nodes :: "tid \<Rightarrow> node store \<Rightarrow> node store" where
  "null_nodes t h = (list_node_init (list_node_init (list_node_init h (All_node t)) (Run_node t)) (Wait_node t))"

definition task_init ::
  "link_t \<Rightarrow> tid \<Rightarrow> string \<Rightarrow> u32 \<Rightarrow> u32 \<Rightarrow> u32 \<Rightarrow> 'a mem_state_scheme \<Rightarrow> ('a mem_state_scheme, int) outcome" where
  "task_init lk task name flag entry esp s =
     kbind (tss_init lk task flag entry esp s) (\<lambda>err s1.
       if err = -1 then Done (-1) s1
       else let s2 = upd_task task (\<lambda>t. (copy_name name t)\<lparr>tk_state := TASK_CREATED,
                       tk_time_ticks := TASK_TIME_SLICE_DEFAULT, tk_slice_ticks := TASK_TIME_SLICE_DEFAULT,
                       tk_sleep_ticks := 0, tk_parent := None, tk_heap_start := 0, tk_heap_end := 0, tk_status := 0,
                       tk_file_table := replicate 128 None, tk_pid := lk_task lk task\<rparr>) s1;
                s3 = s2\<lparr>nodes := null_nodes task (nodes s2)\<rparr>;
                (st, s4) = irq_enter_proection s3
            in case list_insert_last (nodes s4) (task_list s4) (All_node task) of
                 Inl e \<Rightarrow> Fault e
               | Inr (h, l) \<Rightarrow> Done 0 (irq_leave_proection st (s4\<lparr>nodes := h, task_list := l\<rparr>)))"

text \<open>The two descriptors of the applications are flat segments of privilege level 3.\<close>

definition app_segment :: "u16 \<Rightarrow> 'a gdt_state_scheme \<Rightarrow> ('a gdt_state_scheme, int) outcome" where
  "app_segment seg_type s =
     kbind (gdt_alloc_desc s) (\<lambda>sel s1.
       case segment_desc_set sel 0 0xffffffff
              (SEG_P_PRESENT OR SEG_DPL3 OR SEG_S_NORMAL OR seg_type OR SEG_TYPE_RW OR SEG_D) s1 of
         Inl e \<Rightarrow> Fault e
       | Inr s2 \<Rightarrow> Done sel s2)"

definition task_manager_init :: "link_t \<Rightarrow> 'a mem_state_scheme \<Rightarrow> ('a mem_state_scheme, unit) outcome" where
  "task_manager_init lk s =
     (let s1 = s\<lparr>tasks := (\<lambda>t. case t of Slot i \<Rightarrow> zero_task | _ \<Rightarrow> tasks s t),
                 nodes := (\<lambda>n. case n of Run_node (Slot i) \<Rightarrow> \<lparr>ln_pre = None, ln_next = None\<rparr>
                                        | All_node (Slot i) \<Rightarrow> \<lparr>ln_pre = None, ln_next = None\<rparr>
                                        | Wait_node (Slot i) \<Rightarrow> \<lparr>ln_pre = None, ln_next = None\<rparr> | _ \<Rightarrow> nodes s n)\<rparr>;
          s2 = mutex_init Task_table_mutex s1
      in kbind (app_segment SEG_TYPE_DATA s2) (\<lambda>seld s3.
         kbind (app_segment SEG_TYPE_CODE (s3\<lparr>app_data_sel := seld\<rparr>)) (\<lambda>selc s4.
         let s5 = s4\<lparr>app_code_sel := selc, ready_list := list_init, task_list := list_init, sleep_list := list_init,
                     curr_task := get_first_task\<rparr>
         in kbind (task_init lk Idle_task ''idle  task'' TASK_FLAGS_SYSTEM (lk_idle_task_func lk) (lk_idle_stack_top lk) s5)
              (\<lambda>_ s6. kstep (task_start Idle_task s6)))))"

definition first_task_init :: "link_t \<Rightarrow> 'a mem_state_scheme \<Rightarrow> ('a mem_state_scheme, unit) outcome" where
  "first_task_init lk s =
     (let copy_size = lk_e_first_task lk - lk_s_first_task lk;
          alloc_size = 10 * MEM_PAGE_SIZE;
          first_start = lk_first_task_entry lk
      in kbind (task_init lk First_task ''first task'' 0 first_start (first_start + alloc_size) s) (\<lambda>_ s1.
         let s2 = upd_task First_task (\<lambda>t. t\<lparr>tk_heap_start := lk_e_first_task lk, tk_heap_end := lk_e_first_task lk\<rparr>) s1;
             s3 = mmu_set_page_dir (t_cr3 (tk_tss (tasks s2 First_task))) s2
         in kbind (memory_alloc_page_for first_start alloc_size (PTE_P OR PTE_W OR PTE_U) s3) (\<lambda>_ s4.
            case vm_memcpy (cr3 s4) first_start (lk_s_first_task lk) copy_size (phys s4) of
              Inl e \<Rightarrow> Fault e
            | Inr m \<Rightarrow>
                let s5 = write_tr (ucast (tk_tss_sel (tasks s4 First_task))) (s4\<lparr>phys := m\<rparr>)
                in kstep (task_start First_task s5))))"

subsection \<open>The task table\<close>

fun find_task :: "nat \<Rightarrow> nat \<Rightarrow> (tid \<Rightarrow> task_t) \<Rightarrow> nat option" where
  "find_task 0 i ts = None"
| "find_task (Suc n) i ts = (if tk_name (ts (Slot i)) = [] then Some i else find_task n (Suc i) ts)"

definition alloc_task :: "'a sync_state_scheme \<Rightarrow> ('a sync_state_scheme, tid option) outcome" where
  "alloc_task s =
     with_mutex Task_table_mutex (\<lambda>s1. Inr (map_option Slot (find_task 128 0 (tasks s1)), s1)) s"

definition free_task :: "tid \<Rightarrow> 'a sync_state_scheme \<Rightarrow> ('a sync_state_scheme, unit) outcome" where
  "free_task task s =
     with_mutex Task_table_mutex (\<lambda>s1. Inr ((), upd_task task (\<lambda>t. t\<lparr>tk_name := []\<rparr>) s1)) s"

text \<open>\<open>task_uninit\<close> frees the page below \<open>tss.esp\<close>, and clears the whole task, list nodes included.\<close>

definition task_uninit :: "tid \<Rightarrow> 'a mem_state_scheme \<Rightarrow> ('a mem_state_scheme, unit) outcome" where
  "task_uninit task s =
     kbind (if tk_tss_sel (tasks s task) \<noteq> 0 then gdt_free_sel (sint (tk_tss_sel (tasks s task))) s else Done () s) (\<lambda>_ s1.
     kbind (if t_esp0 (tk_tss (tasks s1 task)) \<noteq> 0
            then memory_free_page (t_esp (tk_tss (tasks s1 task)) - MEM_PAGE_SIZE) s1 else Done () s1) (\<lambda>_ s2.
     kbind (if t_cr3 (tk_tss (tasks s2 task)) \<noteq> 0
            then memory_destory_uvm (t_cr3 (tk_tss (tasks s2 task))) s2 else Done () s2) (\<lambda>_ s3.
     Done () ((upd_task task (\<lambda>_. zero_task) s3)\<lparr>nodes := null_nodes task (nodes s3)\<rparr>))))"

subsection \<open>Fork\<close>

definition frame_size :: u32 where "frame_size = 88"

definition frame_off :: "string \<Rightarrow> u32" where
  "frame_off f = the (map_of
     [(''eflags'', 0), (''gs'', 4), (''fs'', 8), (''es'', 12), (''ds'', 16), (''edi'', 20), (''esi'', 24), (''ebp'', 28),
      (''dummy'', 32), (''ebx'', 36), (''edx'', 40), (''ecx'', 44), (''eax'', 48), (''eip'', 52), (''cs'', 56),
      (''func_id'', 60), (''arg0'', 64), (''arg1'', 68), (''arg2'', 72), (''arg3'', 76), (''esp'', 80), (''ss'', 84)] f)"

definition frame_get :: "mem \<Rightarrow> u32 \<Rightarrow> string \<Rightarrow> u32" where
  "frame_get m frame f = mem32 m (frame + frame_off f)"

definition frame_put :: "u32 \<Rightarrow> string \<Rightarrow> u32 \<Rightarrow> mem \<Rightarrow> mem" where
  "frame_put frame f v m = put32 m (frame + frame_off f) v"

definition fork_tss :: "mem \<Rightarrow> u32 \<Rightarrow> tss_t \<Rightarrow> tss_t" where
  "fork_tss m frame ts = ts\<lparr>t_eax := 0, t_ebx := frame_get m frame ''ebx'', t_ecx := frame_get m frame ''ecx'',
     t_edx := frame_get m frame ''edx'', t_esi := frame_get m frame ''esi'', t_edi := frame_get m frame ''edi'',
     t_ebp := frame_get m frame ''ebp'', t_cs := frame_get m frame ''cs'', t_ds := frame_get m frame ''ds'',
     t_es := frame_get m frame ''es'', t_fs := frame_get m frame ''fs'', t_gs := frame_get m frame ''gs'',
     t_eflags := frame_get m frame ''eflags''\<rparr>"

definition fork_failed :: "tid \<Rightarrow> 'a mem_state_scheme \<Rightarrow> ('a mem_state_scheme, int) outcome" where
  "fork_failed child s = kbind (task_uninit child s) (\<lambda>_ s1. kbind (free_task child s1) (\<lambda>_ s2. Done (-1) s2))"

text \<open>The test \<open>(tss->cr3 = memory_copy_uvm(..)) < 0\<close> compares an unsigned number and never holds.\<close>

definition sys_fork :: "link_t \<Rightarrow> 'a mem_state_scheme \<Rightarrow> ('a mem_state_scheme, int) outcome" where
  "sys_fork lk s =
     (let parent = task_current s
      in kbind (alloc_task s) (\<lambda>child s1.
         case child of
           None \<Rightarrow> Done (-1) s1
         | Some c \<Rightarrow>
             let frame = t_esp0 (tk_tss (tasks s1 parent)) - frame_size
             in kbind (task_init lk c (tk_name (tasks s1 parent)) 0 (frame_get (phys s1) frame ''eip'')
                         (frame_get (phys s1) frame ''esp'' + 4 * SYSCALL_PARAM_COUNT) s1) (\<lambda>err s2.
                if err < 0 then fork_failed c s2
                else let s3 = upd_task c (\<lambda>t. t\<lparr>tk_tss := fork_tss (phys s2) frame (tk_tss t), tk_parent := Some parent\<rparr>) s2
                     in kbind (memory_copy_uvm lk (t_cr3 (tk_tss (tasks s3 parent))) s3) (\<lambda>dir s4.
                        let s5 = upd_task c (\<lambda>t. t\<lparr>tk_tss := (tk_tss t)\<lparr>t_cr3 := dir\<rparr>\<rparr>) s4
                        in kbind (kstep (task_start c s5)) (\<lambda>_ s6. Done (sint (tk_pid (tasks s6 c))) s6)))))"

end
