(* ===== verification/Programs.thy ===== *)
theory Programs
  imports Tasks Elf
begin

text \<open>
  Running programs: the end of src/src/kernel/task.c.  \<open>load_elf_file\<close> and \<open>load_phdr\<close> bring a program
  image into a new address space, \<open>copy_args\<close> puts the arguments at the top of its stack, \<open>sys_execve\<close>
  replaces the program of the current task and \<open>sys_exit\<close> ends the task.

  A header is read into a local variable of the kernel, so it is the list of its bytes.  The counts that
  \<open>sys_read\<close> returns are compared as unsigned numbers, so that \<open>-1\<close> passes for a full header, which
  then is uninitialised.  The local \<open>task_args\<close> lies at the address \<open>stk\<close> of the kernel stack; its
  field \<open>ret_addr\<close> is whatever the stack holds there.
\<close>

subsection \<open>Loading a program\<close>

text \<open>Each round reads at least one byte, so the size is enough fuel.\<close>

fun read_segment ::
  "nat \<Rightarrow> int \<Rightarrow> u32 \<Rightarrow> u32 \<Rightarrow> u32 \<Rightarrow> 'a fs_state_scheme \<Rightarrow> ('a fs_state_scheme, int) outcome" where
  "read_segment 0 file page_dir vaddr sz s = (if sz = 0 then Done 0 s else Fault Diverges)"
| "read_segment (Suc n) file page_dir vaddr sz s =
     (if sz > 0
      then let curr_size = (if sz > MEM_PAGE_SIZE then MEM_PAGE_SIZE else sz);
               paddr = memory_get_paddr (phys s) page_dir vaddr
           in kbind (sys_read file paddr (sint curr_size) s) (\<lambda>cnt s1.
              if cnt < sint curr_size then Done (-1) (log_line ''read file failed'' [] s1)
              else read_segment n file page_dir (vaddr + curr_size) (sz - curr_size) s1)
      else Done 0 s)"

definition load_phdr ::
  "link_t \<Rightarrow> int \<Rightarrow> Elf32_Phdr \<Rightarrow> u32 \<Rightarrow> 'a fs_state_scheme \<Rightarrow> ('a fs_state_scheme, int) outcome" where
  "load_phdr lk file phdr page_dir s =
     kbind (memory_alloc_for_page_dir page_dir (p_vaddr phdr) (p_memsz phdr) (PTE_P OR PTE_U OR PTE_W) s) (\<lambda>err s1.
       if sint err < 0 then Done (-1) (log_line ''no memory'' [] s1)
       else kbind (sys_lseek lk file (sint (p_offset phdr)) 0 s1) (\<lambda>r s2.
            if r < 0 then Done (-1) (log_line ''read file failed'' [] s2)
            else read_segment (unat (p_filesz phdr)) file page_dir (p_vaddr phdr) (p_filesz phdr) s2))"

text \<open>Every round seeks to the same place: the offset of the first program header is never advanced.\<close>

fun load_segments ::
  "nat \<Rightarrow> link_t \<Rightarrow> tid \<Rightarrow> int \<Rightarrow> u32 \<Rightarrow> u32 \<Rightarrow> 'a fs_state_scheme \<Rightarrow> ('a fs_state_scheme, bool) outcome" where
  "load_segments 0 lk task file phoff page_dir s = Done True s"
| "load_segments (Suc n) lk task file phoff page_dir s =
     kbind (sys_lseek lk file (sint phoff) 0 s) (\<lambda>r s1.
       if r < 0 then Done False s1
       else kbind (sys_read_local file (int PHDR_SIZE) s1) (\<lambda>(cnt, bytes) s2.
            if unat (of_int cnt :: u32) < PHDR_SIZE then Done False s2
            else if length bytes < PHDR_SIZE then Fault Uninitialised
            else let phdr = phdr_of bytes
                 in if p_type phdr \<noteq> PT_LOAD \<or> p_vaddr phdr < MEMORY_TASK_BASE
                    then load_segments n lk task file phoff page_dir s2
                    else kbind (load_phdr lk file phdr page_dir s2) (\<lambda>err s3.
                         if err < 0 then Done False s3
                         else let h = p_vaddr phdr + p_memsz phdr
                              in load_segments n lk task file phoff page_dir
                                   (upd_task task (\<lambda>t. t\<lparr>tk_heap_start := h, tk_heap_end := h\<rparr>) s3))))"

text \<open>Both exits of \<open>load_elf_file\<close> call \<open>sys_close\<close>, which changes nothing.  The failing one does so for every
  file number but 0, the \<open>-1\<close> of a file that was not opened included.\<close>

definition load_failed :: "int \<Rightarrow> 'a fs_state_scheme \<Rightarrow> ('a fs_state_scheme, u32) outcome" where
  "load_failed file s = (let _ = (if file \<noteq> 0 then sys_close file else 0) in Done 0 s)"

definition load_elf_file ::
  "link_t \<Rightarrow> tid \<Rightarrow> u32 \<Rightarrow> u32 \<Rightarrow> 'a fs_state_scheme \<Rightarrow> ('a fs_state_scheme, u32) outcome" where
  "load_elf_file lk task name page_dir s =
     kbind (sys_open lk name 0 s) (\<lambda>file s1.
       if file < 0
       then (case load_cstr (uview s1) name of
               None \<Rightarrow> Fault Diverges
             | Some n \<Rightarrow> load_failed file (log_line ''open failed: %s'' [VStr (chars_of n)] s1))
       else kbind (sys_read_local file (int EHDR_SIZE) s1) (\<lambda>(cnt, bytes) s2.
            if unat (of_int cnt :: u32) < EHDR_SIZE
            then load_failed file (log_line ''elf hdr too small. size=%s'' [VInt cnt] s2)
            else if length bytes < EHDR_SIZE then Fault Uninitialised
            else let hdr = ehdr_of bytes
                 in if \<not> elf_magic_ok hdr then load_failed file (log_line ''chekc elf ident failed'' [] s2)
                    else kbind (load_segments (unat (e_phnum hdr)) lk task file (e_phoff hdr) page_dir s2) (\<lambda>ok s3.
                         if ok then let _ = sys_close file in Done (e_entry hdr) s3 else load_failed file s3)))"

lemma load_failed_eq [simp]: "load_failed file s = Done 0 s"
  by (simp add: load_failed_def)

subsection \<open>Arguments\<close>

fun copy_arg_strings ::
  "nat \<Rightarrow> u32 \<Rightarrow> u32 \<Rightarrow> u32 \<Rightarrow> u32 \<Rightarrow> 'a mem_state_scheme \<Rightarrow> ('a mem_state_scheme, unit) outcome" where
  "copy_arg_strings 0 page_dir argv tb dest_arg s = Done () s"
| "copy_arg_strings (Suc n) page_dir argv tb dest_arg s =
     (let from = mem32 (uview s) argv
      in case k_strlen (uview s) from of
           None \<Rightarrow> Fault Diverges
         | Some l \<Rightarrow>
             let len = of_int (l + 1)
             in case memory_copy_uvm_data (cr3 s) dest_arg page_dir from len (phys s) of
                  Inl e \<Rightarrow> Fault e
                | Inr (_, m) \<Rightarrow>
                    copy_arg_strings n page_dir (argv + 4) (tb + 4) (dest_arg + len)
                      (s\<lparr>phys := put32 m tb dest_arg\<rparr>))"

definition copy_args ::
  "u32 \<Rightarrow> u32 \<Rightarrow> u32 \<Rightarrow> int \<Rightarrow> u32 \<Rightarrow> 'a mem_state_scheme \<Rightarrow> ('a mem_state_scheme, int) outcome" where
  "copy_args stk to page_dir argc argv s =
     (let dest_arg = to + 12 + 4 * (of_int argc + 1);
          dest_argv_tb = memory_get_paddr (phys s) page_dir (to + 12);
          s0 = s\<lparr>phys := put32 (put32 (phys s) (stk + 4) (of_int argc)) (stk + 8) (to + 12)\<rparr>
      in kbind (copy_arg_strings (nat argc) page_dir argv dest_argv_tb dest_arg s0) (\<lambda>_ s1.
         let s2 = (if argc \<noteq> 0 then s1\<lparr>phys := put32 (phys s1) (dest_argv_tb + 4 * of_int argc) 0\<rparr> else s1)
         in case memory_copy_uvm_data (cr3 s2) to page_dir stk 12 (phys s2) of
              Inl e \<Rightarrow> Fault e
            | Inr (r, m) \<Rightarrow> Done r (s2\<lparr>phys := m\<rparr>)))"

subsection \<open>Exec and exit\<close>

definition exec_failed :: "u32 \<Rightarrow> u32 \<Rightarrow> 'a mem_state_scheme \<Rightarrow> ('a mem_state_scheme, int) outcome" where
  "exec_failed old_page_dir new_page_dir s =
     (if new_page_dir \<noteq> 0
      then let s1 = upd_task (task_current s) (\<lambda>t. t\<lparr>tk_tss := (tk_tss t)\<lparr>t_cr3 := old_page_dir\<rparr>\<rparr>) s
           in kbind (memory_destory_uvm new_page_dir (mmu_set_page_dir old_page_dir s1)) (\<lambda>_ s2. Done (-1) s2)
      else Done (-1) s)"

definition exec_frame :: "u32 \<Rightarrow> u32 \<Rightarrow> u32 \<Rightarrow> mem \<Rightarrow> mem" where
  "exec_frame frame entry stack_top m =
     fold (\<lambda>(f, v). frame_put frame f v)
       [(''eip'', entry), (''edx'', 0), (''ecx'', 0), (''ebx'', 0), (''eax'', 0), (''ebp'', 0), (''edi'', 0), (''esi'', 0),
        (''eflags'', EFLAGES_DEFAULT OR EFLAGS_IF), (''esp'', stack_top - 4 * SYSCALL_PARAM_COUNT)] m"

definition sys_execve ::
  "link_t \<Rightarrow> u32 \<Rightarrow> u32 \<Rightarrow> u32 \<Rightarrow> u32 \<Rightarrow> 'a fs_state_scheme \<Rightarrow> ('a fs_state_scheme, int) outcome" where
  "sys_execve lk stk name argv env s =
     (let curr = task_current s
      in case Option.bind (get_file_name (uview s) name) (load_cstr (uview s)) of
           None \<Rightarrow> Fault Diverges
         | Some nm \<Rightarrow>
             let s1 = upd_task curr (copy_name (chars_of nm)) s;
                 old_page_dir = t_cr3 (tk_tss (tasks s1 curr))
             in kbind (memory_create_uvm lk s1) (\<lambda>new_page_dir s2.
                if new_page_dir = 0 then exec_failed old_page_dir new_page_dir s2
                else kbind (load_elf_file lk curr name new_page_dir s2) (\<lambda>entry s3.
                if entry = 0 then exec_failed old_page_dir new_page_dir s3
                else let stack_top = MEM_TASK_STACK_TOP - MEM_TASK_ARG_SIZE
                     in kbind (memory_alloc_for_page_dir new_page_dir (MEM_TASK_STACK_TOP - MEM_TASK_STACK_SIZE)
                                 MEM_TASK_STACK_SIZE (PTE_P OR PTE_U OR PTE_W) s3) (\<lambda>err s4.
                        if sint err < 0 then exec_failed old_page_dir new_page_dir s4
                        else case strings_count (uview s4) argv of
                               None \<Rightarrow> Fault Diverges
                             | Some argc \<Rightarrow>
                                 kbind (copy_args stk stack_top new_page_dir argc argv s4) (\<lambda>err2 s5.
                                 if err2 < 0 then exec_failed old_page_dir new_page_dir s5
                                 else let frame = t_esp0 (tk_tss (tasks s5 curr)) - frame_size;
                                          s6 = s5\<lparr>phys := exec_frame frame entry stack_top (phys s5)\<rparr>;
                                          s7 = upd_task curr (\<lambda>t. t\<lparr>tk_tss := (tk_tss t)\<lparr>t_cr3 := new_page_dir\<rparr>\<rparr>) s6
                                      in kbind (memory_destory_uvm old_page_dir (mmu_set_page_dir new_page_dir s7)) (\<lambda>_ s8.
                                         Done 0 s8))))))"

text \<open>The loop of \<open>sys_exit\<close> over the descriptors: an open one is passed to \<open>sys_close\<close>, which releases neither the
  file nor its device, and its slot is cleared.\<close>

fun close_fds :: "nat \<Rightarrow> nat \<Rightarrow> tid \<Rightarrow> 'a sched_state_scheme \<Rightarrow> 'a sched_state_scheme" where
  "close_fds 0 fd t s = s"
| "close_fds (Suc n) fd t s =
     close_fds n (Suc fd) t
       (case tk_file_table (tasks s t) ! fd of
          None \<Rightarrow> s
        | Some file \<Rightarrow>
            let _ = sys_close (int fd)
            in upd_task t (\<lambda>x. x\<lparr>tk_file_table := (tk_file_table x)[fd := None]\<rparr>) s)"

definition sys_exit :: "int \<Rightarrow> 'a sched_state_scheme \<Rightarrow> ('a sched_state_scheme, unit) outcome" where
  "sys_exit status s =
     (let curr = task_current s;
          s1 = close_fds (nat TASK_OFILE_NR) 0 curr s;
          (st, s2) = irq_enter_proection s1;
          s3 = upd_task curr (\<lambda>t. t\<lparr>tk_status := status, tk_state := TASK_ZOMBIE\<rparr>) s2
      in kbind (task_dispatch (task_set_block curr s3)) (\<lambda>_ s4. Done () (irq_leave_proection st s4)))"

text \<open>The loop changes the descriptors of the task and nothing else.\<close>

fun clear_slots :: "nat \<Rightarrow> nat \<Rightarrow> 'b option list \<Rightarrow> 'b option list" where
  "clear_slots 0 fd T = T"
| "clear_slots (Suc n) fd T = clear_slots n (Suc fd) (T[fd := None])"

lemma clear_slots_nth:
  "length (clear_slots n fd T) = length T"
  "i < length T \<Longrightarrow> clear_slots n fd T ! i = (if fd \<le> i \<and> i < fd + n then None else T ! i)"
  by (induction n arbitrary: fd T) (auto simp: nth_list_update)

lemma clear_slots_all: "length T \<le> n \<Longrightarrow> clear_slots n 0 T = replicate (length T) None"
  by (rule nth_equalityI) (simp_all add: clear_slots_nth)

lemma close_fds_eq:
  "close_fds n fd t s = upd_task t (\<lambda>x. x\<lparr>tk_file_table := clear_slots n fd (tk_file_table x)\<rparr>) s"
proof (induction n arbitrary: fd s)
  case 0
  then show ?case by (simp add: upd_task_def)
next
  case (Suc n)
  have "T[fd := None] = T" if "T ! fd = None" for T :: "nat option list"
    using list_update_id [of T fd] that by simp
  then show ?case by (simp add: Suc upd_task_def split: option.split)
qed

end
