(* ===== verification/Syscalls.thy ===== *)
theory Syscalls
  imports Programs
begin

text \<open>
  The system call interface: the dispatcher of src/src/kernel/syscall.c and the stubs of the application
  library, src/src/applib/lib_syscall.c.  A stub fills a \<open>syscall_arg_t\<close>; the arguments it does not set
  keep whatever the stack held (\<open>junk\<close>).  \<open>sys_call\<close> pushes them and calls through the gate; the
  processor and the entry code of kernel.S make a \<open>syscall_frame_t\<close> of them on the kernel stack, at the
  address \<open>frame\<close>, and \<open>do_handler_syscall\<close> answers in its field eax.

  The handlers of type void leave the register eax as it is; the code stores it all the same, here
  \<open>None\<close>, an unknown value.
\<close>

datatype sys_handle =
    H_sleep | H_getpid | H_print_msg | H_fork | H_execve | H_yield | H_open | H_read | H_write | H_close
  | H_lseek | H_isatty | H_sbrk | H_fstat | H_dup | H_exit

definition SYS_sleep :: u32 where "SYS_sleep = 0"
definition SYS_getpid :: u32 where "SYS_getpid = 1"
definition SYS_print_msg :: u32 where "SYS_print_msg = 2"
definition SYS_fork :: u32 where "SYS_fork = 3"
definition SYS_execve :: u32 where "SYS_execve = 4"
definition SYS_yield :: u32 where "SYS_yield = 5"
definition SYS_exit :: u32 where "SYS_exit = 6"
definition SYS_open :: u32 where "SYS_open = 50"
definition SYS_read :: u32 where "SYS_read = 51"
definition SYS_write :: u32 where "SYS_write = 52"
definition SYS_close :: u32 where "SYS_close = 53"
definition SYS_lseek :: u32 where "SYS_lseek = 54"
definition SYS_isatty :: u32 where "SYS_isatty = 55"
definition SYS_sbrk :: u32 where "SYS_sbrk = 56"
definition SYS_fstat :: u32 where "SYS_fstat = 57"
definition SYS_dup :: u32 where "SYS_dup = 58"

lemmas SYS_defs = SYS_sleep_def SYS_getpid_def SYS_print_msg_def SYS_fork_def SYS_execve_def SYS_yield_def
  SYS_exit_def SYS_open_def SYS_read_def SYS_write_def SYS_close_def SYS_lseek_def SYS_isatty_def SYS_sbrk_def
  SYS_fstat_def SYS_dup_def

text \<open>The table has 59 entries; the ones it does not name are null.\<close>

definition sys_table :: "(u32 \<times> sys_handle) list" where
  "sys_table = [(SYS_sleep, H_sleep), (SYS_getpid, H_getpid), (SYS_print_msg, H_print_msg), (SYS_fork, H_fork),
     (SYS_execve, H_execve), (SYS_yield, H_yield), (SYS_open, H_open), (SYS_read, H_read), (SYS_write, H_write),
     (SYS_close, H_close), (SYS_lseek, H_lseek), (SYS_isatty, H_isatty), (SYS_sbrk, H_sbrk), (SYS_fstat, H_fstat),
     (SYS_dup, H_dup), (SYS_exit, H_exit)]"

definition sys_handler :: "u32 \<Rightarrow> sys_handle option" where
  "sys_handler func_id = (if func_id < 59 then map_of sys_table func_id else None)"

definition sys_print_msg :: "u32 \<Rightarrow> int \<Rightarrow> 'a mem_state_scheme \<Rightarrow> ('a mem_state_scheme, unit) outcome" where
  "sys_print_msg fmt arg s =
     (case load_cstr (uview s) fmt of
        None \<Rightarrow> Fault Diverges
      | Some f \<Rightarrow> Done () (log_line (chars_of f) [VInt arg] s))"

abbreviation ret_unknown :: "('s, unit) outcome \<Rightarrow> ('s, int option) outcome" where
  "ret_unknown m \<equiv> kbind m (\<lambda>_ s. Done None s)"

abbreviation ret_int :: "('s, int) outcome \<Rightarrow> ('s, int option) outcome" where
  "ret_int m \<equiv> kbind m (\<lambda>r s. Done (Some r) s)"

fun call_handler ::
  "link_t \<Rightarrow> u32 \<Rightarrow> sys_handle \<Rightarrow> u32 \<Rightarrow> u32 \<Rightarrow> u32 \<Rightarrow> u32 \<Rightarrow> 'a fs_state_scheme \<Rightarrow> ('a fs_state_scheme, int option) outcome" where
  "call_handler lk stk H_sleep a0 a1 a2 a3 s = ret_unknown (sys_sleep a0 s)"
| "call_handler lk stk H_getpid a0 a1 a2 a3 s = Done (Some (sint (sys_getpid s))) s"
| "call_handler lk stk H_print_msg a0 a1 a2 a3 s = ret_unknown (sys_print_msg a0 (sint a1) s)"
| "call_handler lk stk H_fork a0 a1 a2 a3 s = ret_int (sys_fork lk s)"
| "call_handler lk stk H_execve a0 a1 a2 a3 s = ret_int (sys_execve lk stk a0 a1 a2 s)"
| "call_handler lk stk H_yield a0 a1 a2 a3 s = ret_int (sys_yield s)"
| "call_handler lk stk H_open a0 a1 a2 a3 s = ret_int (sys_open lk a0 (sint a1) s)"
| "call_handler lk stk H_read a0 a1 a2 a3 s = ret_int (sys_read (sint a0) a1 (sint a2) s)"
| "call_handler lk stk H_write a0 a1 a2 a3 s = ret_int (sys_write (sint a0) a1 (sint a2) s)"
| "call_handler lk stk H_close a0 a1 a2 a3 s = Done (Some (sys_close (sint a0))) s"
| "call_handler lk stk H_lseek a0 a1 a2 a3 s = ret_int (sys_lseek lk (sint a0) (sint a1) (sint a2) s)"
| "call_handler lk stk H_isatty a0 a1 a2 a3 s = Done (Some (sys_isatty (sint a0))) s"
| "call_handler lk stk H_sbrk a0 a1 a2 a3 s = kbind (sys_sbrk (sint a0) s) (\<lambda>r s1. Done (Some (sint r)) s1)"
| "call_handler lk stk H_fstat a0 a1 a2 a3 s = Done (Some (sys_fstat (sint a0) a1)) s"
| "call_handler lk stk H_dup a0 a1 a2 a3 s = (let (r, s1) = sys_dup (sint a0) s in Done (Some r) s1)"
| "call_handler lk stk H_exit a0 a1 a2 a3 s = ret_unknown (sys_exit (sint a0) s)"

text \<open>The result is stored in the frame of the call; a call that switches stores it when its task runs
  again.\<close>

definition do_handler_syscall ::
  "link_t \<Rightarrow> u32 \<Rightarrow> u32 \<Rightarrow> u32 \<Rightarrow> 'a fs_state_scheme \<Rightarrow> ('a fs_state_scheme, unit) outcome" where
  "do_handler_syscall lk stk unknown frame s =
     (let m = phys s; func_id = frame_get m frame ''func_id''
      in case sys_handler func_id of
           Some h \<Rightarrow>
             kbind (call_handler lk stk h (frame_get m frame ''arg0'') (frame_get m frame ''arg1'')
                      (frame_get m frame ''arg2'') (frame_get m frame ''arg3'') s) (\<lambda>ret s1.
               Done () (s1\<lparr>phys := frame_put frame ''eax'' (case ret of Some r \<Rightarrow> of_int r | None \<Rightarrow> unknown) (phys s1)\<rparr>))
         | None \<Rightarrow>
             let s1 = log_line ''task: %s, Unkown syscall: %d''
                        [VStr (tk_name (tasks s (task_current s))), VInt (sint func_id)] s
             in Done () (s1\<lparr>phys := frame_put frame ''eax'' (-1) (phys s1)\<rparr>))"

subsection \<open>The application library\<close>

record syscall_arg_t =
  sa_id :: u32
  sa_arg0 :: u32
  sa_arg1 :: u32
  sa_arg2 :: u32
  sa_arg3 :: u32

text \<open>The entry of a call: the five words are copied to the kernel stack by the call gate, below the old
  stack pointer and segment, and the registers follow.\<close>

definition push_args :: "u32 \<Rightarrow> syscall_arg_t \<Rightarrow> mem \<Rightarrow> mem" where
  "push_args frame args m =
     frame_put frame ''func_id'' (sa_id args) (frame_put frame ''arg0'' (sa_arg0 args) (frame_put frame ''arg1'' (sa_arg1 args)
       (frame_put frame ''arg2'' (sa_arg2 args) (frame_put frame ''arg3'' (sa_arg3 args) m))))"

definition sys_call ::
  "link_t \<Rightarrow> u32 \<Rightarrow> u32 \<Rightarrow> syscall_arg_t \<Rightarrow> 'a fs_state_scheme \<Rightarrow> ('a fs_state_scheme, int) outcome" where
  "sys_call lk stk unknown args s =
     (let frame = t_esp0 (tk_tss (tasks s (task_current s))) - frame_size;
          s1 = s\<lparr>phys := push_args frame args (phys s)\<rparr>
      in kbind (do_handler_syscall lk stk unknown frame s1) (\<lambda>_ s2.
         Done (sint (frame_get (phys s2) frame ''eax'')) s2))"

text \<open>Each stub gives the arguments of its call; \<open>msleep\<close> makes no call for a delay that is not positive.\<close>

definition msleep :: "syscall_arg_t \<Rightarrow> int \<Rightarrow> syscall_arg_t option" where
  "msleep junk ms = (if ms \<le> 0 then None else Some (junk\<lparr>sa_id := SYS_sleep, sa_arg0 := of_int ms\<rparr>))"

definition getpid :: "syscall_arg_t \<Rightarrow> syscall_arg_t" where
  "getpid junk = junk\<lparr>sa_id := SYS_getpid\<rparr>"

definition print_msg :: "syscall_arg_t \<Rightarrow> u32 \<Rightarrow> int \<Rightarrow> syscall_arg_t" where
  "print_msg junk fmt arg = junk\<lparr>sa_id := SYS_print_msg, sa_arg0 := fmt, sa_arg1 := of_int arg\<rparr>"

definition fork :: "syscall_arg_t \<Rightarrow> syscall_arg_t" where
  "fork junk = junk\<lparr>sa_id := SYS_fork\<rparr>"

definition execve :: "syscall_arg_t \<Rightarrow> u32 \<Rightarrow> u32 \<Rightarrow> u32 \<Rightarrow> syscall_arg_t" where
  "execve junk name argv env = junk\<lparr>sa_id := SYS_execve, sa_arg0 := name, sa_arg1 := argv, sa_arg2 := env\<rparr>"

definition yield_call :: "syscall_arg_t \<Rightarrow> syscall_arg_t" where
  "yield_call junk = junk\<lparr>sa_id := SYS_yield\<rparr>"

definition open_call :: "syscall_arg_t \<Rightarrow> u32 \<Rightarrow> int \<Rightarrow> syscall_arg_t" where
  "open_call junk name flags = junk\<lparr>sa_id := SYS_open, sa_arg0 := name, sa_arg1 := of_int flags\<rparr>"

definition read_call :: "syscall_arg_t \<Rightarrow> int \<Rightarrow> u32 \<Rightarrow> int \<Rightarrow> syscall_arg_t" where
  "read_call junk file ptr len = junk\<lparr>sa_id := SYS_read, sa_arg0 := of_int file, sa_arg1 := ptr, sa_arg2 := of_int len\<rparr>"

definition write_call :: "syscall_arg_t \<Rightarrow> int \<Rightarrow> u32 \<Rightarrow> int \<Rightarrow> syscall_arg_t" where
  "write_call junk file ptr len = junk\<lparr>sa_id := SYS_write, sa_arg0 := of_int file, sa_arg1 := ptr, sa_arg2 := of_int len\<rparr>"

definition close_call :: "syscall_arg_t \<Rightarrow> int \<Rightarrow> syscall_arg_t" where
  "close_call junk file = junk\<lparr>sa_id := SYS_close, sa_arg0 := of_int file\<rparr>"

definition lseek :: "syscall_arg_t \<Rightarrow> int \<Rightarrow> int \<Rightarrow> int \<Rightarrow> syscall_arg_t" where
  "lseek junk file ptr dir = junk\<lparr>sa_id := SYS_lseek, sa_arg0 := of_int file, sa_arg1 := of_int ptr, sa_arg2 := of_int dir\<rparr>"

definition isatty :: "syscall_arg_t \<Rightarrow> int \<Rightarrow> syscall_arg_t" where
  "isatty junk file = junk\<lparr>sa_id := SYS_isatty, sa_arg0 := of_int file\<rparr>"

definition fstat :: "syscall_arg_t \<Rightarrow> int \<Rightarrow> u32 \<Rightarrow> syscall_arg_t" where
  "fstat junk file st = junk\<lparr>sa_id := SYS_fstat, sa_arg0 := of_int file, sa_arg1 := st\<rparr>"

definition sbrk :: "syscall_arg_t \<Rightarrow> int \<Rightarrow> syscall_arg_t" where
  "sbrk junk incr = junk\<lparr>sa_id := SYS_sbrk, sa_arg0 := of_int incr\<rparr>"

definition dup :: "syscall_arg_t \<Rightarrow> int \<Rightarrow> syscall_arg_t" where
  "dup junk fd = junk\<lparr>sa_id := SYS_dup, sa_arg0 := of_int fd\<rparr>"

definition exit_call :: "syscall_arg_t \<Rightarrow> int \<Rightarrow> syscall_arg_t" where
  "exit_call junk status = junk\<lparr>sa_id := SYS_exit, sa_arg0 := of_int status\<rparr>"

end
