(* ===== verification/Boot.thy ===== *)
theory Boot
  imports Syscalls
begin

text \<open>
  Starting the machine: the two stages of the loader, src/src/loader/loader_16.c and loader_32.c, and the
  start of the kernel, src/src/kernel/init.c.

  The loader has a state of its own: the control registers, the byte memory, the disk, what is shown on
  the screen and the boot information.  The memory map comes from the firmware: \<open>bios n cont\<close> is the
  answer to the \<open>n\<close>-th call of its service, for the continuation value \<open>cont\<close>.
\<close>

subsection \<open>The first stage\<close>

record SMAP_entry_t =
  BaseL :: u32
  BaseH :: u32
  LengthL :: u32
  LengthH :: u32
  SType :: u32
  ACPI :: u32

record loader_state = cpu_state +
  cr0 :: u32
  cr4 :: u32
  l_gdtr :: "u16 \<times> u16 \<times> u16"
  l_mem :: mem
  l_disk :: disk_port
  shown :: string
  boot_info :: boot_info_t

type_synonym bios = "nat \<Rightarrow> u32 \<Rightarrow> int \<times> int \<times> u32 \<times> SMAP_entry_t"

definition BOOT_RAM_REGION_MAX :: nat where "BOOT_RAM_REGION_MAX = 10"
definition SMAP :: int where "SMAP = 0x534D4150"
definition SYS_KERNEL_LOAD_ADDR :: u32 where "SYS_KERNEL_LOAD_ADDR = 1024 * 1024"

definition loader_gdt_table :: "u16 list list" where
  "loader_gdt_table = [[0, 0, 0, 0], [0xFFFF, 0x0000, 0x9A00, 0x00CF], [0xFFFF, 0x0000, 0x9200, 0x00CF]]"

definition show_msg :: "string \<Rightarrow> 'a loader_state_scheme \<Rightarrow> 'a loader_state_scheme" where
  "show_msg msg s = s\<lparr>shown := shown s @ msg\<rparr>"

definition add_region :: "SMAP_entry_t \<Rightarrow> boot_info_t \<Rightarrow> boot_info_t res" where
  "add_region entry bi =
     (if 0 \<le> ram_region_count bi \<and> nat (ram_region_count bi) < length (ram_region_cfg bi)
      then Inr (bi\<lparr>ram_region_cfg := (ram_region_cfg bi)[nat (ram_region_count bi) := (BaseL entry, LengthL entry)],
                   ram_region_count := ram_region_count bi + 1\<rparr>)
      else Inl OutOfBounds)"

fun detect_loop :: "nat \<Rightarrow> bios \<Rightarrow> u32 \<Rightarrow> 'a loader_state_scheme \<Rightarrow> 'a loader_state_scheme res" where
  "detect_loop 0 bios contID s = Inr (show_msg (''ok.'' @ [CHR 0x0d, CHR 0x0a]) s)"
| "detect_loop (Suc n) bios contID s =
     (let (signature, bytes, contID', entry) = bios (BOOT_RAM_REGION_MAX - Suc n) contID
      in if signature \<noteq> SMAP then Inr (show_msg (''failed.'' @ [CHR 0x0d, CHR 0x0a]) s)
         else if bytes > 20 \<and> ACPI entry AND 1 = 0 then detect_loop n bios contID' s
         else res_bind (if SType entry = 1
                        then res_bind (add_region entry (boot_info s)) (\<lambda>bi. Inr (s\<lparr>boot_info := bi\<rparr>))
                        else Inr s) (\<lambda>s1.
              if contID' = 0 then Inr (show_msg (''ok.'' @ [CHR 0x0d, CHR 0x0a]) s1)
              else detect_loop n bios contID' s1))"

definition detect_memory :: "bios \<Rightarrow> 'a loader_state_scheme \<Rightarrow> 'a loader_state_scheme res" where
  "detect_memory bios s =
     (let s1 = show_msg ''try to detect memory:'' s
      in detect_loop BOOT_RAM_REGION_MAX bios 0 (s1\<lparr>boot_info := (boot_info s1)\<lparr>ram_region_count := 0\<rparr>\<rparr>))"

text \<open>The end of \<open>loader_entry\<close> is the jump to the selector and offset of the protected mode entry.\<close>

definition loader_entry :: "bios \<Rightarrow> u32 \<Rightarrow> u32 \<Rightarrow> 'a loader_state_scheme \<Rightarrow> ((u32 \<times> u32) \<times> 'a loader_state_scheme) res" where
  "loader_entry bios gdt_table_addr protect_mode_entry s =
     res_bind (detect_memory bios (show_msg (''System Loading ...'' @ [CHR 0x0d, CHR 0x0a]) s)) (\<lambda>s1.
       let s2 = irq_disable_global s1;
           (v, s3) = inb 0x92 s2;
           s4 = outb 0x92 (v OR 0x2) s3;
           sz = (of_nat (length loader_gdt_table * 8) :: u32);
           s5 = s4\<lparr>l_gdtr := (ucast (sz - 1), ucast (gdt_table_addr AND 0xFFFF), ucast (drop_bit 16 gdt_table_addr))\<rparr>;
           s6 = s5\<lparr>cr0 := cr0 s5 OR push_bit 0 1\<rparr>
       in Inr ((8, protect_mode_entry), s6))"

subsection \<open>The second stage\<close>

definition load_one :: "u32 \<Rightarrow> Elf32_Phdr \<Rightarrow> mem \<Rightarrow> mem" where
  "load_one file_buffer phdr m =
     (let m1 = memcpy_loop (unat (p_filesz phdr)) (p_paddr phdr) (file_buffer + p_offset phdr) m
      in memset_loop (unat (p_memsz phdr - p_filesz phdr)) (p_paddr phdr + p_filesz phdr) 0 m1)"

text \<open>The header is read again in every round, as the code does; a program header is read once, before its
  segment is copied.\<close>

function load_all :: "nat \<Rightarrow> u32 \<Rightarrow> mem \<Rightarrow> mem" where
  "load_all i file_buffer m =
     (let hdr = ehdr_of (load_bytes m file_buffer EHDR_SIZE)
      in if i < unat (e_phnum hdr)
         then let phdr = phdr_of (load_bytes m (file_buffer + e_phoff hdr + of_nat (i * PHDR_SIZE)) PHDR_SIZE);
                  m1 = (if p_type phdr \<noteq> PT_LOAD then m else load_one file_buffer phdr m)
              in load_all (Suc i) file_buffer m1
         else m)"
  by pat_completeness auto
termination
proof (relation "measure (\<lambda>(i, file_buffer, m). 65536 - i)", goal_cases)
  case (2 i file_buffer m hdr phdr m1)
  then show ?case using unsigned_less [of "e_phnum hdr", where 'a = nat] by simp
qed simp

declare load_all.simps [simp del]

definition reload_elf_file :: "u32 \<Rightarrow> mem \<Rightarrow> u32 \<times> mem" where
  "reload_elf_file file_buffer m =
     (if \<not> elf_magic_ok (ehdr_of (load_bytes m file_buffer EHDR_SIZE)) then (0, m)
      else let m1 = load_all 0 file_buffer m
           in (e_entry (ehdr_of (load_bytes m1 file_buffer EHDR_SIZE)), m1))"

definition enable_page_mode :: "u32 \<Rightarrow> 'a loader_state_scheme \<Rightarrow> 'a loader_state_scheme" where
  "enable_page_mode page_dir s =
     (let m = put32 (k_memset page_dir 0 4096 (l_mem s)) page_dir (push_bit 0 1 OR push_bit 7 1 OR push_bit 1 1 OR 0);
          s1 = s\<lparr>l_mem := m, cr4 := cr4 s OR push_bit 4 1, cr3 := page_dir\<rparr>
      in s1\<lparr>cr0 := cr0 s1 OR push_bit 31 1\<rparr>)"

text \<open>\<open>load_kernel\<close> ends in a call of the entry point; an image without an entry point stops the machine.\<close>

definition load_kernel :: "u32 \<Rightarrow> 'a loader_state_scheme \<Rightarrow> (u32 \<times> 'a loader_state_scheme) res" where
  "load_kernel page_dir s =
     (case read_disk 100 500 SYS_KERNEL_LOAD_ADDR s (l_disk s) (l_mem s) of
        None \<Rightarrow> Inl Diverges
      | Some (s1, d, m) \<Rightarrow>
          let (kernel_entry, m1) = reload_elf_file SYS_KERNEL_LOAD_ADDR m
          in if kernel_entry = 0 then Inl Diverges
             else Inr (kernel_entry, enable_page_mode page_dir (s1\<lparr>l_disk := d, l_mem := m1\<rparr>)))"

subsection \<open>The kernel\<close>

definition kernel_init :: "link_t \<Rightarrow> boot_info_t \<Rightarrow> 'a fs_state_scheme \<Rightarrow> ('a fs_state_scheme, unit) outcome" where
  "kernel_init lk bi s =
     kbind (kstep (gdt_init (lk_gdt_table lk) (lk_syscall lk) s)) (\<lambda>_ s1.
     kbind (kstep (irq_init (lk_idt_table lk) (lk_isr lk) s1)) (\<lambda>_ s2.
     kbind (kstep (log_init (lk_isr lk) s2)) (\<lambda>_ s3.
     kbind (memory_init lk bi s3) (\<lambda>_ s4.
     kbind (kstep (time_init (lk_isr lk) (fs_init s4))) (\<lambda>_ s5.
     task_manager_init lk s5)))))"

text \<open>The registers the first task starts with: ss, esp, eflags, cs, eip.\<close>

definition move_to_first_task :: "'a sched_state_scheme \<Rightarrow> (u32 \<times> u32 \<times> u32 \<times> u32 \<times> u32) \<times> 'a sched_state_scheme" where
  "move_to_first_task s =
     (let t = tk_tss (tasks s (task_current s))
      in ((t_ss t, t_esp t, t_eflags t, t_cs t, t_eip t), s\<lparr>eflags := t_eflags t\<rparr>))"

definition init_main :: "link_t \<Rightarrow> 'a fs_state_scheme \<Rightarrow> ('a fs_state_scheme, u32 \<times> u32 \<times> u32 \<times> u32 \<times> u32) outcome" where
  "init_main lk s =
     kbind (first_task_init lk (log_line ''Kernal %s is running ... '' [VStr ''1.0.0''] s)) (\<lambda>_ s1.
       let (regs, s2) = move_to_first_task (irq_enable_global s1) in Done regs s2)"

end
