(* ===== verification/Loader_Laws.thy ===== *)
theory Loader_Laws
  imports Boot
begin

text \<open>
  What the second stage of the loader promises: a kernel image whose segments do not lie on the image
  itself is placed in memory segment by segment, the uninitialised part of each filled with zeros.
\<close>

lemma load_bytes_at: "n \<le> 2 ^ 32 \<Longrightarrow> at_bytes m p (load_bytes m p n)"
proof (induction n)
  case (Suc n)
  then show ?case by (simp add: load_bytes_def)
qed (simp add: load_bytes_def)

lemma length_load_bytes [simp]: "length (load_bytes m p n) = n"
  by (simp add: load_bytes_def)

lemma load_bytes_cong: "(\<And>q. q \<in> region p n \<Longrightarrow> m' q = m q) \<Longrightarrow> load_bytes m' p n = load_bytes m p n"
  by (auto simp: load_bytes_def region_def)

subsection \<open>An image\<close>

definition image_ehdr :: "mem \<Rightarrow> u32 \<Rightarrow> Elf32_Ehdr" where
  "image_ehdr m f = ehdr_of (load_bytes m f EHDR_SIZE)"

definition phdr_addr :: "mem \<Rightarrow> u32 \<Rightarrow> nat \<Rightarrow> u32" where
  "phdr_addr m f i = f + e_phoff (image_ehdr m f) + of_nat (i * PHDR_SIZE)"

definition image_phdr :: "mem \<Rightarrow> u32 \<Rightarrow> nat \<Rightarrow> Elf32_Phdr" where
  "image_phdr m f i = phdr_of (load_bytes m (phdr_addr m f i) PHDR_SIZE)"

text \<open>The segments to load, in the order of the image.\<close>

definition segments :: "mem \<Rightarrow> u32 \<Rightarrow> nat \<Rightarrow> Elf32_Phdr list" where
  "segments m f i = filter (\<lambda>ph. p_type ph = PT_LOAD) (map (image_phdr m f) [i..<unat (e_phnum (image_ehdr m f))])"

definition segment_bytes :: "mem \<Rightarrow> u32 \<Rightarrow> Elf32_Phdr \<Rightarrow> u8 list" where
  "segment_bytes m f ph =
     load_bytes m (f + p_offset ph) (unat (p_filesz ph)) @ replicate (unat (p_memsz ph) - unat (p_filesz ph)) 0"

definition segment_region :: "Elf32_Phdr \<Rightarrow> u32 set" where
  "segment_region ph = region (p_paddr ph) (unat (p_memsz ph))"

text \<open>The \<open>n\<close> bytes at \<open>f\<close> are a well-formed image, and no segment is loaded on top of them.\<close>

definition image_ok :: "mem \<Rightarrow> u32 \<Rightarrow> nat \<Rightarrow> bool" where
  "image_ok m f n \<longleftrightarrow> region f EHDR_SIZE \<subseteq> region f n \<and>
     (\<forall>i<unat (e_phnum (image_ehdr m f)). region (phdr_addr m f i) PHDR_SIZE \<subseteq> region f n) \<and>
     (\<forall>ph \<in> set (segments m f 0). p_filesz ph \<le> p_memsz ph \<and> region (f + p_offset ph) (unat (p_filesz ph)) \<subseteq> region f n \<and>
        segment_region ph \<inter> region f n = {})"

subsection \<open>Loading\<close>

lemma length_segment_bytes: "p_filesz ph \<le> p_memsz ph \<Longrightarrow> length (segment_bytes m f ph) = unat (p_memsz ph)"
  by (simp add: segment_bytes_def word_le_nat_alt)

lemma load_one_eq:
  assumes same: "\<And>q. q \<in> region f n \<Longrightarrow> m' q = m q"
    and sz: "p_filesz ph \<le> p_memsz ph" and src: "region (f + p_offset ph) (unat (p_filesz ph)) \<subseteq> region f n"
    and dst: "segment_region ph \<inter> region f n = {}"
  shows "load_one f ph m' = put_bytes m' (p_paddr ph) (segment_bytes m f ph)"
proof -
  let ?n = "unat (p_filesz ph)" and ?z = "unat (p_memsz ph) - unat (p_filesz ph)"
  let ?xs = "load_bytes m (f + p_offset ph) ?n"
  have b: "?n \<le> unat (p_memsz ph)" "?n < 2 ^ 32" "?z < 2 ^ 32"
    using sz unsigned_less [of "p_filesz ph", where 'a = nat] unsigned_less [of "p_memsz ph", where 'a = nat]
    by (simp_all add: word_le_nat_alt)
  have "load_bytes m' (f + p_offset ph) ?n = ?xs" using same src by (intro load_bytes_cong) auto
  then have "at_bytes m' (f + p_offset ph) ?xs" using load_bytes_at [of ?n m' "f + p_offset ph"] b(2) by simp
  moreover have "region (p_paddr ph) ?n \<inter> region (f + p_offset ph) ?n = {}"
    using dst src region_mono [OF b(1), of "p_paddr ph"] by (auto simp: segment_region_def)
  ultimately have "memcpy_loop ?n (p_paddr ph) (f + p_offset ph) m' = put_bytes m' (p_paddr ph) ?xs"
    using memcpy_loop_at [of m' "f + p_offset ph" ?xs "p_paddr ph"] b(2) by simp
  moreover have "unat (p_memsz ph - p_filesz ph) = ?z" using sz by (simp add: unat_sub)
  ultimately show ?thesis
    using b(3) by (simp add: load_one_def segment_bytes_def put_bytes_append memset_loop_eq)
qed

definition load_segs :: "mem \<Rightarrow> u32 \<Rightarrow> Elf32_Phdr list \<Rightarrow> mem \<Rightarrow> mem" where
  "load_segs m f phs = fold (\<lambda>ph m'. put_bytes m' (p_paddr ph) (segment_bytes m f ph)) phs"

lemma segments_step:
  assumes "i < unat (e_phnum (image_ehdr m f))"
  shows "segments m f i = (if p_type (image_phdr m f i) = PT_LOAD then [image_phdr m f i] else []) @ segments m f (Suc i)"
  using assms by (simp add: segments_def upt_conv_Cons)

lemma segments_subset: "set (segments m f i) \<subseteq> set (segments m f 0)"
  by (auto simp: segments_def)

lemma load_all_eq:
  assumes ok: "image_ok m f n" and same: "\<And>q. q \<in> region f n \<Longrightarrow> m' q = m q"
  shows "load_all i f m' = load_segs m f (segments m f i) m'"
  using same
proof (induction "unat (e_phnum (image_ehdr m f)) - i" arbitrary: i m')
  case 0
  have "load_bytes m' f EHDR_SIZE = load_bytes m f EHDR_SIZE" using ok 0(2) by (intro load_bytes_cong) (auto simp: image_ok_def)
  then show ?case using 0(1) by (subst load_all.simps) (simp add: image_ehdr_def segments_def load_segs_def)
next
  case (Suc k)
  let ?ph = "image_phdr m f i"
  let ?m = "if p_type ?ph \<noteq> PT_LOAD then m' else put_bytes m' (p_paddr ?ph) (segment_bytes m f ?ph)"
  have i: "i < unat (e_phnum (image_ehdr m f))" using Suc(2) by simp
  have h: "load_bytes m' f EHDR_SIZE = load_bytes m f EHDR_SIZE" using ok Suc(3) by (intro load_bytes_cong) (auto simp: image_ok_def)
  have p: "load_bytes m' (phdr_addr m f i) PHDR_SIZE = load_bytes m (phdr_addr m f i) PHDR_SIZE"
    using ok i Suc(3) by (intro load_bytes_cong) (auto simp: image_ok_def)
  have seg: "p_filesz ?ph \<le> p_memsz ?ph" "region (f + p_offset ?ph) (unat (p_filesz ?ph)) \<subseteq> region f n"
    "segment_region ?ph \<inter> region f n = {}" if "p_type ?ph = PT_LOAD"
    using ok that segments_step [OF i] segments_subset [of m f i] by (auto simp: image_ok_def)
  have "load_all i f m' = load_all (Suc i) f ?m"
    using i h p load_one_eq [OF Suc(3) seg] by (subst load_all.simps) (simp add: image_ehdr_def phdr_addr_def image_phdr_def Let_def)
  also have "\<dots> = load_segs m f (segments m f (Suc i)) ?m"
  proof (rule Suc(1))
    show "k = unat (e_phnum (image_ehdr m f)) - Suc i" using Suc(2) by simp
    show "?m q = m q" if q: "q \<in> region f n" for q
    proof (cases "p_type ?ph = PT_LOAD")
      case True
      then have "q \<notin> region (p_paddr ?ph) (length (segment_bytes m f ?ph))"
        using q seg [OF True] by (auto simp: length_segment_bytes segment_region_def)
      then show ?thesis using True Suc(3) [OF q] by (simp add: put_bytes_other)
    qed (simp add: Suc(3) [OF q])
  qed
  also have "\<dots> = load_segs m f (segments m f i) m'" by (simp add: segments_step [OF i] load_segs_def)
  finally show ?case .
qed

lemma load_segs_other:
  assumes "q \<notin> \<Union> (segment_region ` set phs)" "\<forall>ph \<in> set phs. p_filesz ph \<le> p_memsz ph"
  shows "load_segs m f phs m' q = m' q"
  using assms
proof (induction phs arbitrary: m')
  case (Cons ph phs)
  then show ?case
    using put_bytes_other [of q "p_paddr ph" "segment_bytes m f ph" m']
    by (simp add: load_segs_def length_segment_bytes segment_region_def)
qed (simp add: load_segs_def)

lemma load_segs_at:
  assumes "ph \<in> set phs" "\<forall>ph \<in> set phs. p_filesz ph \<le> p_memsz ph"
    and "pairwise (\<lambda>a b. segment_region a \<inter> segment_region b = {}) (set phs)"
  shows "at_bytes (load_segs m f phs m') (p_paddr ph) (segment_bytes m f ph)"
  using assms
proof (induction phs arbitrary: m')
  case (Cons a phs)
  let ?m = "put_bytes m' (p_paddr a) (segment_bytes m f a)"
  have len: "length (segment_bytes m f ph) = unat (p_memsz ph)" using Cons.prems(1,2) by (auto simp: length_segment_bytes)
  have step: "load_segs m f (a # phs) m' = load_segs m f phs ?m" by (simp add: load_segs_def)
  show ?case
  proof (cases "ph \<in> set phs")
    case True
    then show ?thesis unfolding step using Cons by (auto simp: pairwise_def)
  next
    case False
    then have a: "ph = a" using Cons.prems(1) by simp
    have "segment_region a \<inter> segment_region b = {}" if "b \<in> set phs" for b
      using Cons.prems(3) that False a by (auto simp: pairwise_def)
    then have "load_segs m f phs ?m q = ?m q" if "q \<in> segment_region a" for q
      using that Cons.prems(2) by (intro load_segs_other) auto
    then have "at_bytes (load_segs m f phs ?m) (p_paddr a) (segment_bytes m f a) = at_bytes ?m (p_paddr a) (segment_bytes m f a)"
      using len a by (intro at_bytes_cong) (auto simp: segment_region_def)
    moreover have "length (segment_bytes m f a) \<le> 2 ^ 32"
      using len a unsigned_less [of "p_memsz a", where 'a = nat] by simp
    ultimately show ?thesis unfolding step a using put_bytes_at by blast
  qed
qed simp

text \<open>C24: the loader places the kernel.  For an image with the ELF magic whose segments lie neither on the image
  nor on each other, \<open>reload_elf_file\<close> returns the entry point, every segment is in memory at its physical
  address, first its bytes of the file and then zeros up to its memory size, and no byte
  outside the segments has changed.\<close>

theorem loader_places_segments:
  assumes "image_ok m f n" "elf_magic_ok (image_ehdr m f)"
    and "pairwise (\<lambda>a b. segment_region a \<inter> segment_region b = {}) (set (segments m f 0))"
  shows "\<exists>m'. reload_elf_file f m = (e_entry (image_ehdr m f), m') \<and>
     (\<forall>ph \<in> set (segments m f 0). at_bytes m' (p_paddr ph) (segment_bytes m f ph)) \<and>
     (\<forall>q. q \<notin> \<Union> (segment_region ` set (segments m f 0)) \<longrightarrow> m' q = m q)"
proof -
  let ?m = "load_segs m f (segments m f 0) m"
  have sz: "\<forall>ph \<in> set (segments m f 0). p_filesz ph \<le> p_memsz ph" using assms(1) by (auto simp: image_ok_def)
  have all: "load_all 0 f m = ?m" by (rule load_all_eq [OF assms(1)]) simp
  have "?m q = m q" if "q \<in> region f EHDR_SIZE" for q
  proof (rule load_segs_other [OF _ sz])
    have "q \<in> region f n" using that assms(1) by (auto simp: image_ok_def)
    then show "q \<notin> \<Union> (segment_region ` set (segments m f 0))" using assms(1) by (auto simp: image_ok_def)
  qed
  then have "load_bytes ?m f EHDR_SIZE = load_bytes m f EHDR_SIZE" by (rule load_bytes_cong)
  then have "reload_elf_file f m = (e_entry (image_ehdr m f), ?m)"
    using assms(2) by (simp add: reload_elf_file_def all image_ehdr_def)
  then show ?thesis using load_segs_at [OF _ sz assms(3)] load_segs_other [OF _ sz] by (intro exI [of _ ?m]) simp
qed

subsection \<open>A sample image\<close>

text \<open>An image of 88 bytes with one segment of four bytes, eight in memory, at 64 KB.\<close>

definition sample_image :: "u8 list" where
  "sample_image = [0x7F, 0x45, 0x4C, 0x46, 0, 0, 0, 0, 0, 0, 0, 0, 0, 0, 0, 0, 2, 0, 3, 0] @ word_bytes 1 @ word_bytes 0x10000 @
     word_bytes 52 @ word_bytes 0 @ word_bytes 0 @ [52, 0, 32, 0, 1, 0, 0, 0, 0, 0, 0, 0] @
     word_bytes 1 @ word_bytes 84 @ word_bytes 0x10000 @ word_bytes 0x10000 @ word_bytes 4 @ word_bytes 8 @ word_bytes 7 @ word_bytes 0 @
     [0xde, 0xad, 0xbe, 0xef]"

definition sample_mem :: mem where
  "sample_mem = put_bytes (\<lambda>_. 0) 0x100000 sample_image"

lemma length_sample [simp]: "length sample_image = 88"
  by (simp add: sample_image_def word_bytes_def)

lemma load_sample: "i + n \<le> 88 \<Longrightarrow> load_bytes sample_mem (0x100000 + of_nat i) n = take n (drop i sample_image)"
proof (rule nth_equalityI)
  fix k assume i: "i + n \<le> 88" and k: "k < length (load_bytes sample_mem (0x100000 + of_nat i) n)"
  have "at_bytes sample_mem 0x100000 sample_image" unfolding sample_mem_def by (rule put_bytes_at) simp
  then have "sample_mem (0x100000 + of_nat (i + k)) = sample_image ! (i + k)" by (rule at_bytes_nth) (use i k in simp)
  then show "load_bytes sample_mem (0x100000 + of_nat i) n ! k = take n (drop i sample_image) ! k"
    using i k by (simp add: load_bytes_def add.assoc)
qed simp

lemma sample_ehdr: "image_ehdr sample_mem 0x100000 = ehdr_of sample_image"
proof -
  have "image_ehdr sample_mem 0x100000 = ehdr_of (take 52 sample_image)"
    using load_sample [of 0 52] by (simp add: image_ehdr_def EHDR_SIZE_def)
  then show ?thesis by (simp add: ehdr_of_def half_at_def word_at_def)
qed

lemma sample_fields:
  "e_phnum (ehdr_of sample_image) = 1" "e_phoff (ehdr_of sample_image) = 52" "e_entry (ehdr_of sample_image) = 0x10000"
  "elf_magic_ok (ehdr_of sample_image)"
  by code_simp+

definition sample_segment :: Elf32_Phdr where
  "sample_segment = \<lparr>p_type = 1, p_offset = 84, p_vaddr = 0x10000, p_paddr = 0x10000, p_filesz = 4, p_memsz = 8, p_flags = 7, p_align = 0\<rparr>"

lemma sample_phdr: "phdr_of (take 32 (drop 52 sample_image)) = sample_segment"
  by code_simp

lemma sample_data: "take 4 (drop 84 sample_image) = [0xde, 0xad, 0xbe, 0xef]"
  by code_simp

lemma four_zeros: "replicate 4 (0 :: u8) = [0, 0, 0, 0]"
  by (simp add: numeral_eq_Suc)

lemma sample_segments: "segments sample_mem 0x100000 0 = [sample_segment]"
proof -
  have "phdr_addr sample_mem 0x100000 0 = 0x100000 + of_nat 52" by (simp add: phdr_addr_def sample_ehdr sample_fields)
  then have "image_phdr sample_mem 0x100000 0 = sample_segment"
    using load_sample [of 52 32] sample_phdr by (simp add: image_phdr_def PHDR_SIZE_def)
  then show ?thesis by (simp add: segments_def sample_ehdr sample_fields sample_segment_def PT_LOAD_def)
qed

lemma region_within: "i + k \<le> n \<Longrightarrow> region (p + of_nat i) k \<subseteq> region p n"
  using region_append [of p i k] region_mono [of "i + k" n p] by auto

lemma sample_ok: "image_ok sample_mem 0x100000 88"
proof -
  have "p \<noteq> q" if pq: "p \<in> region 0x10000 8" "q \<in> region 0x100000 88" for p q
  proof -
    obtain i j where "i < 8" "p = 0x10000 + of_nat i" "j < 88" "q = 0x100000 + of_nat j" using pq by (auto simp: region_def)
    then have "unat p = 0x10000 + i" "unat q = 0x100000 + j" by (simp_all add: unat_word_ariths unat_of_nat)
    then show ?thesis using \<open>i < 8\<close> by auto
  qed
  then have "segment_region sample_segment \<inter> region 0x100000 88 = {}" by (auto simp: segment_region_def sample_segment_def)
  moreover have "region (phdr_addr sample_mem 0x100000 0) PHDR_SIZE \<subseteq> region 0x100000 88"
    using region_within [of 52 32 88 "0x100000"] by (simp add: phdr_addr_def sample_ehdr sample_fields PHDR_SIZE_def)
  moreover have "region 0x100000 EHDR_SIZE \<subseteq> region 0x100000 88" by (rule region_mono) (simp add: EHDR_SIZE_def)
  moreover have "region (0x100000 + 84) 4 \<subseteq> region 0x100000 88" using region_within [of 84 4 88 "0x100000"] by simp
  ultimately show ?thesis by (simp add: image_ok_def sample_ehdr sample_fields sample_segments) (simp add: sample_segment_def)
qed

theorem loader_places_segments_witness:
  "\<exists>m'. reload_elf_file 0x100000 sample_mem = (0x10000, m') \<and> at_bytes m' 0x10000 [0xde, 0xad, 0xbe, 0xef, 0, 0, 0, 0]"
proof -
  have "segment_bytes sample_mem 0x100000 sample_segment = [0xde, 0xad, 0xbe, 0xef, 0, 0, 0, 0]"
    using load_sample [of 84 4] by (simp add: segment_bytes_def sample_segment_def sample_data four_zeros)
  then show ?thesis using loader_places_segments [OF sample_ok]
    by (simp add: sample_ehdr sample_fields sample_segments) (auto simp: sample_segment_def)
qed

end
