(* ===== verification/Paging_Laws.thy ===== *)
theory Paging_Laws
  imports Address_Spaces
begin

text \<open>
  What the page allocator and the page tables promise.  \<open>pool_ok\<close> is the invariant of the allocator: a
  well-formed bitmap whose pages lie in the memory it manages.  The locale \<open>page_pool\<close> is its contract
  for the code that only allocates and frees single pages.
\<close>

subsection \<open>Words and pages\<close>

lemma and_fff: "a AND 0xfff = take_bit 12 (a :: u32)"
  by (simp add: take_bit_eq_mask mask_eq_exp_minus_1)

lemma entry_paddr: "pde_paddr v = v AND NOT (mask 12)" "pte_paddr v = v AND NOT (mask 12)"
  by (auto simp: pde_paddr_def pte_paddr_def intro!: bit_word_eqI) (auto simp: bit_simps)

lemma aligned_unat: "take_bit 12 a = (0 :: u32) \<longleftrightarrow> unat a mod 4096 = 0"
  unfolding take_bit_eq_mod word_unat_eq_iff unat_mod by simp

lemma aligned_bit: "take_bit 12 a = (0 :: u32) \<Longrightarrow> n < 12 \<Longrightarrow> \<not> bit a n"
  using bit_take_bit_iff [of 12 a n] by simp

lemma perm_bit: "take_bit 12 perm = (perm :: u32) \<Longrightarrow> 12 \<le> n \<Longrightarrow> \<not> bit perm n"
  using bit_take_bit_iff [of 12 perm n] by simp

lemma paddr_of_entry:
  assumes "take_bit 12 a = 0" "take_bit 12 perm = perm"
  shows "pte_paddr (a OR perm) = a" "pde_paddr (a OR perm) = a"
proof -
  have "(a OR perm) AND NOT (mask 12) = a"
  proof (rule bit_word_eqI)
    fix n assume n: "n < LENGTH(32)"
    show "bit ((a OR perm) AND NOT (mask 12)) n = bit a n"
      using n aligned_bit [OF assms(1), of n] perm_bit [OF assms(2), of n]
      by (cases "n < 12") (auto simp: bit_simps)
  qed
  then show "pte_paddr (a OR perm) = a" "pde_paddr (a OR perm) = a" by (simp_all add: entry_paddr)
qed

subsection \<open>The allocator\<close>

definition pool_ok :: "addr_alloc_t \<Rightarrow> bool" where
  "pool_ok a \<longleftrightarrow> bitmap_ok (aa_bitmap a) \<and> aa_page_size a = MEM_PAGE_SIZE \<and> take_bit 12 (aa_start a) = 0 \<and>
     aa_start a \<noteq> 0 \<and> unat (aa_start a) + 4096 * nat (bit_count (aa_bitmap a)) \<le> 2 ^ 31"

definition page_addr :: "addr_alloc_t \<Rightarrow> nat \<Rightarrow> u32" where
  "page_addr a i = aa_start a + of_nat i * MEM_PAGE_SIZE"

abbreviation page_used :: "addr_alloc_t \<Rightarrow> bool list" where
  "page_used a \<equiv> bits_of (aa_bitmap a)"

lemma page_addr_unat:
  assumes "pool_ok a" "i < length (page_used a)"
  shows "unat (page_addr a i) = unat (aa_start a) + 4096 * i"
proof -
  have b: "unat (aa_start a) + 4096 * i < 2 ^ 31" using assms by (simp add: pool_ok_def)
  then have i: "i < 2 ^ 32" by simp
  have "unat (of_nat i * MEM_PAGE_SIZE :: u32) = 4096 * i"
    using b i by (simp add: MEM_PAGE_SIZE_def unat_word_ariths unat_of_nat)
  then show ?thesis using b by (simp add: page_addr_def unat_word_ariths)
qed

lemma page_addr_facts:
  assumes "pool_ok a" "i < length (page_used a)"
  shows "page_addr a i \<noteq> 0" "page_addr a i < MEMORY_TASK_BASE" "take_bit 12 (page_addr a i) = 0"
proof -
  note u = page_addr_unat [OF assms]
  have "unat (aa_start a) > 0" using assms(1) by (simp add: pool_ok_def unat_gt_0)
  then show "page_addr a i \<noteq> 0" using u by (metis add_is_0 less_numeral_extra(3) unsigned_0)
  show "page_addr a i < MEMORY_TASK_BASE"
    using u assms by (simp add: word_less_nat_alt MEMORY_TASK_BASE_def pool_ok_def)
  show "take_bit 12 (page_addr a i) = 0" using u assms(1) by (simp add: pool_ok_def aligned_unat)
qed

lemma page_addr_inj:
  assumes "pool_ok a" "i < length (page_used a)" "j < length (page_used a)" "page_addr a i = page_addr a j"
  shows "i = j"
  using arg_cong [OF assms(4), of unat]
  unfolding page_addr_unat [OF assms(1,2)] page_addr_unat [OF assms(1,3)] by linarith

text \<open>Allocating and freeing one page, as transformations of the allocator.\<close>

definition take_page :: "addr_alloc_t \<Rightarrow> (u32 \<times> addr_alloc_t) res" where
  "take_page a = alloc_pages 1 a"

definition release_page :: "addr_alloc_t \<Rightarrow> u32 \<Rightarrow> addr_alloc_t res" where
  "release_page a p = free_pages p 1 a"

lemma take_page_cases:
  assumes "pool_ok a"
  obtains (full) "False \<notin> set (page_used a)" "take_page a = Inr (0, a)"
  | (page) i a' where "i < length (page_used a)" "\<not> page_used a ! i" "take_page a = Inr (page_addr a i, a')"
      "pool_ok a'" "page_used a' = (page_used a)[i := True]" "page_addr a' = page_addr a"
proof -
  have ok: "bitmap_ok (aa_bitmap a)" and ps: "aa_page_size a = MEM_PAGE_SIZE" using assms by (simp_all add: pool_ok_def)
  from ok show ?thesis
  proof (cases rule: bm.alloc_cases)
    case full
    then show ?thesis using that(1) by (simp add: take_page_def alloc_pages_def bitmap_alloc_one_def)
  next
    case (slot i b)
    let ?a = "a\<lparr>aa_bitmap := b\<rparr>"
    have l: "nat (bit_count b) = nat (bit_count (aa_bitmap a))"
      using arg_cong [OF slot(6), of length] by simp
    have "take_page a = Inr (page_addr a i, ?a)"
      using slot(4) ps by (simp add: take_page_def alloc_pages_def bitmap_alloc_one_def page_addr_def)
    moreover have "pool_ok ?a" using assms slot(5) l by (simp add: pool_ok_def)
    moreover have "page_addr ?a = page_addr a" by (simp add: page_addr_def fun_eq_iff)
    ultimately show ?thesis using that(2) [of i ?a] slot by simp
  qed
qed

lemma release_page_eq:
  assumes "pool_ok a" "i < length (page_used a)"
  shows "\<exists>a'. release_page a (page_addr a i) = Inr a' \<and> pool_ok a' \<and> page_used a' = (page_used a)[i := False] \<and>
    page_addr a' = page_addr a"
proof -
  have ok: "bitmap_ok (aa_bitmap a)" and ps: "aa_page_size a = MEM_PAGE_SIZE" using assms by (simp_all add: pool_ok_def)
  have i: "4096 * i < 2 ^ 31" using assms by (simp add: pool_ok_def)
  have "page_addr a i - aa_start a = of_nat (4096 * i)" by (simp add: page_addr_def MEM_PAGE_SIZE_def)
  then have "unat ((page_addr a i - aa_start a) div MEM_PAGE_SIZE) = i"
    using i by (simp add: unat_div MEM_PAGE_SIZE_def unat_of_nat unat_word_ariths)
  then have "uint ((page_addr a i - aa_start a) div MEM_PAGE_SIZE) = int i" "int i < 2 ^ 31"
    using i by (metis uint_nat, simp)
  then have x: "sint ((page_addr a i - aa_start a) div aa_page_size a) = int i"
    using ps by (simp add: sint_uint signed_take_bit_int_eq_self)
  obtain b where b: "bitmap_set_bit (aa_bitmap a) (int i) 1 0 = Inr b" "bitmap_ok b"
    "bits_of b = (page_used a)[i := False]"
    using bm.release_law [OF ok assms(2)] by (auto simp: bitmap_free_one_def)
  have "nat (bit_count b) = nat (bit_count (aa_bitmap a))" using arg_cong [OF b(3), of length] by simp
  then show ?thesis using b x assms(1)
    by (intro exI [of _ "a\<lparr>aa_bitmap := b\<rparr>"])
      (simp add: release_page_def free_pages_def pool_ok_def page_addr_def fun_eq_iff)
qed

text \<open>The contract of a pool of pages.\<close>

locale page_pool =
  fixes ok :: "'t \<Rightarrow> bool" and pages :: "'t \<Rightarrow> u32 set" and used :: "'t \<Rightarrow> u32 set"
    and take_one :: "'t \<Rightarrow> (u32 \<times> 't) res" and give :: "'t \<Rightarrow> u32 \<Rightarrow> 't res"
  assumes used_pages: "ok t \<Longrightarrow> used t \<subseteq> pages t" and null_page: "ok t \<Longrightarrow> 0 \<notin> pages t"
    and finite_pages: "ok t \<Longrightarrow> finite (pages t)"
    and take_full: "ok t \<Longrightarrow> used t = pages t \<Longrightarrow> take_one t = Inr (0, t)"
    and take_some: "ok t \<Longrightarrow> used t \<noteq> pages t \<Longrightarrow>
      \<exists>p t'. take_one t = Inr (p, t') \<and> ok t' \<and> p \<in> pages t - used t \<and> pages t' = pages t \<and> used t' = insert p (used t)"
    and give_back: "ok t \<Longrightarrow> p \<in> pages t \<Longrightarrow>
      \<exists>t'. give t p = Inr t' \<and> ok t' \<and> pages t' = pages t \<and> used t' = used t - {p}"
begin

fun grab :: "nat \<Rightarrow> 't \<Rightarrow> (u32 list \<times> 't) res" where
  "grab 0 t = Inr ([], t)"
| "grab (Suc n) t = res_bind (take_one t) (\<lambda>(p, t1). res_bind (grab n t1) (\<lambda>(ps, t2). Inr (p # ps, t2)))"

fun give_all :: "u32 list \<Rightarrow> 't \<Rightarrow> 't res" where
  "give_all [] t = Inr t"
| "give_all (p # ps) t = res_bind (give t p) (give_all ps)"

lemma take_ok: "ok t \<Longrightarrow> \<exists>p t'. take_one t = Inr (p, t') \<and> ok t' \<and> pages t' = pages t"
  using take_full [of t] take_some [of t] by (cases "used t = pages t") auto

lemma grab_distinct:
  assumes "ok t" "n \<le> card (pages t - used t)"
  shows "\<exists>ps t'. grab n t = Inr (ps, t') \<and> length ps = n \<and> distinct ps \<and> set ps \<subseteq> pages t - used t \<and>
    ok t' \<and> pages t' = pages t \<and> used t' = used t \<union> set ps"
  using assms
proof (induction n arbitrary: t)
  case (Suc n)
  then have ne: "used t \<noteq> pages t" by auto
  obtain p t1 where 1: "take_one t = Inr (p, t1)" "ok t1" "p \<in> pages t - used t" "pages t1 = pages t"
    "used t1 = insert p (used t)" using take_some [OF Suc.prems(1) ne] by blast
  have "pages t1 - used t1 = (pages t - used t) - {p}" using 1 by auto
  moreover have "finite (pages t - used t)" using finite_pages [OF Suc.prems(1)] by simp
  ultimately have "card (pages t1 - used t1) = card (pages t - used t) - 1"
    using card_Diff_singleton [OF 1(3)] by simp
  then have "n \<le> card (pages t1 - used t1)" using Suc.prems(2) by simp
  from Suc.IH [OF 1(2) this] obtain ps t' where ps: "grab n t1 = Inr (ps, t')" "length ps = n" "distinct ps"
    "set ps \<subseteq> pages t1 - used t1" "ok t'" "pages t' = pages t1" "used t' = used t1 \<union> set ps" by blast
  then show ?case using 1 by (intro exI [of _ "p # ps"] exI [of _ t']) auto
qed auto

lemma give_all_back:
  assumes "ok t" "set ps \<subseteq> pages t"
  shows "\<exists>t'. give_all ps t = Inr t' \<and> ok t' \<and> pages t' = pages t \<and> used t' = used t - set ps"
  using assms
proof (induction ps arbitrary: t)
  case (Cons p ps)
  then obtain t1 where 1: "give t p = Inr t1" "ok t1" "pages t1 = pages t" "used t1 = used t - {p}"
    using give_back [of t p] by auto
  with Cons.IH [OF 1(2)] Cons.prems obtain t' where "give_all ps t1 = Inr t'" "ok t'" "pages t' = pages t1"
    "used t' = used t1 - set ps" by auto
  then show ?case using 1 by (intro exI [of _ t']) auto
qed auto

end

definition pages_of :: "addr_alloc_t \<Rightarrow> u32 set" where
  "pages_of a = page_addr a ` {..<length (page_used a)}"

definition used_of :: "addr_alloc_t \<Rightarrow> u32 set" where
  "used_of a = page_addr a ` {i. i < length (page_used a) \<and> page_used a ! i}"

lemma page_addr_in_used:
  assumes "pool_ok a" "i < length (page_used a)"
  shows "page_addr a i \<in> used_of a \<longleftrightarrow> page_used a ! i"
proof
  assume "page_addr a i \<in> used_of a"
  then obtain j where j: "j < length (page_used a)" "page_used a ! j" "page_addr a i = page_addr a j"
    unfolding used_of_def by blast
  from page_addr_inj [OF assms j(1,3)] j(2) show "page_used a ! i" by simp
qed (use assms(2) in \<open>auto simp: used_of_def\<close>)

interpretation pool: page_pool pool_ok pages_of used_of take_page release_page
proof (unfold_locales, goal_cases)
  case (1 t)
  then show ?case by (auto simp: used_of_def pages_of_def)
next
  case (2 t)
  then show ?case using page_addr_facts(1) [OF 2] by (auto simp: pages_of_def)
next
  case (3 t)
  then show ?case by (simp add: pages_of_def)
next
  case (4 t)
  have "page_used t ! i" if "i < length (page_used t)" for i
    using that 4(2) page_addr_in_used [OF 4(1) that] by (auto simp: pages_of_def)
  then have "False \<notin> set (page_used t)" by (auto simp: in_set_conv_nth)
  with 4(1) show ?case
  proof (cases rule: take_page_cases)
    case (page i a')
    then show ?thesis using \<open>False \<notin> set (page_used t)\<close> by (metis nth_mem)
  qed
next
  case (5 t)
  from 5(1) show ?case
  proof (cases rule: take_page_cases)
    case full
    then have "page_used t ! i" if "i < length (page_used t)" for i using that by (metis nth_mem)
    then have "used_of t = pages_of t" by (auto simp: used_of_def pages_of_def)
    with 5(2) show ?thesis by simp
  next
    case (page i a')
    have "length (page_used a') = length (page_used t)" using page(5) by simp
    then have "used_of a' = insert (page_addr t i) (used_of t)" "pages_of a' = pages_of t"
      using page by (auto simp: used_of_def pages_of_def nth_list_update)
    moreover have "page_addr t i \<in> pages_of t - used_of t"
      using page(1,2) page_addr_in_used [OF 5(1) page(1)] by (auto simp: pages_of_def)
    ultimately show ?thesis using page(3,4) by blast
  qed
next
  case (6 t p)
  then obtain i where i: "i < length (page_used t)" "p = page_addr t i" by (auto simp: pages_of_def)
  from release_page_eq [OF 6(1) i(1)] obtain a' where a': "release_page t p = Inr a'" "pool_ok a'"
    "page_used a' = (page_used t)[i := False]" "page_addr a' = page_addr t" using i(2) by auto
  have "length (page_used a') = length (page_used t)" using a'(3) by simp
  then have "pages_of a' = pages_of t" "used_of a' = used_of t - {p}"
    using a'(3,4) i page_addr_inj [OF 6(1)] by (auto simp: used_of_def pages_of_def nth_list_update)
  with a' show ?case by blast
qed

subsection \<open>Allocation in the kernel\<close>

lemma addr_alloc_idle:
  assumes "mutex_idle Paddr_alloc_mutex s" "take_page (paddr_alloc s) = Inr (p, a)"
  shows "addr_alloc_page 1 s = Done p (s\<lparr>paddr_alloc := a\<rparr>)"
  unfolding addr_alloc_page_def
  by (rule with_mutex_idle [OF assms(1)]) (use assms(2) in \<open>simp_all add: take_page_def mutex_held_def upd_mutex_def\<close>)

lemma addr_free_idle:
  assumes "mutex_idle Paddr_alloc_mutex s" "release_page (paddr_alloc s) p = Inr a"
  shows "addr_free_page p 1 s = Done () (s\<lparr>paddr_alloc := a\<rparr>)"
  unfolding addr_free_page_def
  by (rule with_mutex_idle [OF assms(1)]) (use assms(2) in \<open>simp_all add: release_page_def mutex_held_def upd_mutex_def\<close>)

lemma mutex_idle_mem [simp]:
  fixes s :: "'a mem_state_scheme"
  shows "mutex_idle m (s\<lparr>paddr_alloc := a\<rparr>) = mutex_idle m s" "mutex_idle m (s\<lparr>phys := h\<rparr>) = mutex_idle m s"
  by (simp_all add: mutex_idle_def)

fun alloc_many :: "nat \<Rightarrow> 'a mem_state_scheme \<Rightarrow> ('a mem_state_scheme, u32 list) outcome" where
  "alloc_many 0 s = Done [] s"
| "alloc_many (Suc n) s = kbind (addr_alloc_page 1 s) (\<lambda>p s1. kbind (alloc_many n s1) (\<lambda>ps s2. Done (p # ps) s2))"

lemma alloc_many_grab:
  assumes "mutex_idle Paddr_alloc_mutex s" "pool.grab n (paddr_alloc s) = Inr (ps, a)"
  shows "alloc_many n s = Done ps (s\<lparr>paddr_alloc := a\<rparr>)"
  using assms
proof (induction n arbitrary: s ps)
  case (Suc n)
  then obtain p a1 ps' where 1: "take_page (paddr_alloc s) = Inr (p, a1)" "pool.grab n a1 = Inr (ps', a)" "ps = p # ps'"
    by (auto simp: res_bind_eq_Inr)
  have "alloc_many n (s\<lparr>paddr_alloc := a1\<rparr>) = Done ps' (s\<lparr>paddr_alloc := a1, paddr_alloc := a\<rparr>)"
    by (rule Suc.IH) (use Suc.prems(1) 1(2) in simp_all)
  then show ?case using addr_alloc_idle [OF Suc.prems(1) 1(1)] 1(3) by simp
qed simp

text \<open>C10: physical pages are never shared.  As long as the pool has enough free pages, any number of
  allocations in a row succeeds and returns different pages; all were free, lie on a page boundary in the
  memory the pool manages, below the addresses of the tasks, and none is the null address that
  means failure.\<close>

theorem pages_never_shared:
  assumes "pool_ok (paddr_alloc s)" "mutex_idle Paddr_alloc_mutex s"
    and "n \<le> card (pages_of (paddr_alloc s) - used_of (paddr_alloc s))"
  shows "\<exists>ps a. alloc_many n s = Done ps (s\<lparr>paddr_alloc := a\<rparr>) \<and> length ps = n \<and> distinct ps \<and>
     set ps \<subseteq> pages_of (paddr_alloc s) - used_of (paddr_alloc s) \<and> pool_ok a \<and>
     used_of a = used_of (paddr_alloc s) \<union> set ps \<and>
     (\<forall>p \<in> set ps. p \<noteq> 0 \<and> take_bit 12 p = 0 \<and> p < MEMORY_TASK_BASE)"
proof -
  from pool.grab_distinct [OF assms(1,3)] obtain ps a where 1: "pool.grab n (paddr_alloc s) = Inr (ps, a)"
    "length ps = n" "distinct ps" "set ps \<subseteq> pages_of (paddr_alloc s) - used_of (paddr_alloc s)" "pool_ok a"
    "used_of a = used_of (paddr_alloc s) \<union> set ps" by blast
  have "p \<noteq> 0 \<and> take_bit 12 p = 0 \<and> p < MEMORY_TASK_BASE" if "p \<in> set ps" for p
    using that 1(4) page_addr_facts [OF assms(1)] by (auto simp: pages_of_def)
  with 1 alloc_many_grab [OF assms(2) 1(1)] show ?thesis by blast
qed

subsection \<open>Pages and table slots as regions\<close>

lemma region_page:
  assumes "take_bit 12 p = (0 :: u32)"
  shows "x \<in> region p 4096 \<longleftrightarrow> x AND NOT (mask 12) = p"
proof
  assume "x \<in> region p 4096"
  then obtain i where i: "i < 4096" "x = p + of_nat i" by (auto simp: region_def)
  have t: "take_bit 12 (of_nat i :: u32) = of_nat i"
    using i(1) by (simp add: take_bit_of_nat take_bit_nat_eq_self)
  have d: "p AND of_nat i = 0"
    using aligned_bit [OF assms] perm_bit [OF t] by (intro bit_word_eqI) (auto simp: bit_simps not_le [symmetric])
  then have "x = p OR of_nat i" using i(2) by (simp add: disjunctive_add_eq_or)
  then show "x AND NOT (mask 12) = p" using paddr_of_entry(1) [OF assms t] by (simp add: entry_paddr)
next
  assume x: "x AND NOT (mask 12) = p"
  have "x = (x AND NOT (mask 12)) + take_bit 12 x"
    by (subst disjunctive_add_eq_or) (auto intro!: bit_word_eqI simp: bit_simps)
  moreover have "unat (take_bit 12 x) < 4096"
    by (simp add: unsigned_take_bit_eq take_bit_nat_less_exp [of 12, simplified])
  ultimately show "x \<in> region p 4096"
    using x unfolding region_def by (intro image_eqI [of _ _ "unat (take_bit 12 x)"]) auto
qed

lemma pages_disjoint:
  assumes "take_bit 12 p = (0 :: u32)" "take_bit 12 q = 0" "p \<noteq> q"
  shows "region p 4096 \<inter> region q 4096 = {}"
  using region_page [OF assms(1)] region_page [OF assms(2)] assms(3) by auto

definition slot :: "u32 \<Rightarrow> u32 \<Rightarrow> u32" where
  "slot p i = p + 4 * i"

lemma pde_ptr_slot: "pde_ptr dir va = slot dir (pde_index va)" and pte_ptr_slot: "pte_ptr tab va = slot tab (pte_index va)"
  by (simp_all add: pde_ptr_def pte_ptr_def slot_def)

lemma pde_index_bound: "unat (pde_index va) < 1024"
proof -
  have "unat va < 2 ^ 32" using unsigned_less [of va, where 'a = nat] by simp
  then show ?thesis by (simp add: pde_index_def drop_bit_eq_div unat_div)
qed

lemma pte_index_eq: "pte_index va = take_bit 10 (drop_bit 12 va)"
  by (simp add: pte_index_def take_bit_eq_mask mask_eq_exp_minus_1)

lemma pte_index_bound: "unat (pte_index va) < 1024"
  by (simp add: pte_index_eq unsigned_take_bit_eq take_bit_nat_less_exp [of 10, simplified])

lemma slot_region:
  assumes "unat i < 1024"
  shows "region (slot p i) 4 = (\<lambda>k. p + of_nat (4 * unat i + k)) ` {..<4}"
  by (auto simp: region_def slot_def image_def)

lemma slot_in_page:
  assumes "unat i < 1024"
  shows "region (slot p i) 4 \<subseteq> region p 4096"
proof
  fix x assume "x \<in> region (slot p i) 4"
  then obtain k where "k < 4" "x = p + of_nat (4 * unat i + k)" unfolding slot_region [OF assms] by blast
  then show "x \<in> region p 4096" using assms unfolding region_def by (intro image_eqI [of _ _ "4 * unat i + k"]) auto
qed

lemma slot_disjoint:
  assumes "unat i < 1024" "unat j < 1024" "i \<noteq> j"
  shows "region (slot p i) 4 \<inter> region (slot p j) 4 = {}"
proof -
  have "unat i \<noteq> unat j" using assms(3) by (simp add: word_unat_eq_iff)
  then show ?thesis unfolding slot_region [OF assms(1)] slot_region [OF assms(2)]
  proof (auto, goal_cases)
    case (1 k l)
    then have "(of_nat (4 * unat i + k) :: u32) = of_nat (4 * unat j + l)" by simp
    then have "4 * unat i + k = 4 * unat j + l" using 1 assms(1,2) by (subst (asm) of_nat_word_inj) auto
    with 1 show False by arith
  qed
qed

subsection \<open>Page tables implement a map\<close>

abbreviation pde_of :: "mem \<Rightarrow> u32 \<Rightarrow> u32 \<Rightarrow> u32" where
  "pde_of m dir va \<equiv> mem32 m (slot dir (pde_index va))"

abbreviation table_of :: "mem \<Rightarrow> u32 \<Rightarrow> u32 \<Rightarrow> u32" where
  "table_of m dir va \<equiv> pde_paddr (pde_of m dir va)"

lemma mmu_walk_eq:
  "mmu_walk m dir va =
     (if bit (pde_of m dir va) 0 \<and> bit (mem32 m (slot (table_of m dir va) (pte_index va))) 0
      then Some (pte_paddr (mem32 m (slot (table_of m dir va) (pte_index va))) + (va AND 0xfff)) else None)"
  by (simp add: mmu_walk_def pde_ptr_slot pte_ptr_slot pde_present_def pte_present_def Let_def)

text \<open>A page directory whose tables are different pages of \<open>U\<close>, none of them the directory.\<close>

definition space_ok :: "mem \<Rightarrow> u32 \<Rightarrow> u32 set \<Rightarrow> bool" where
  "space_ok m dir U \<longleftrightarrow> take_bit 12 dir = 0 \<and> dir \<in> U \<and>
     (\<forall>va. bit (pde_of m dir va) 0 \<longrightarrow> table_of m dir va \<in> U \<and> table_of m dir va \<noteq> dir) \<and>
     (\<forall>va vb. bit (pde_of m dir va) 0 \<longrightarrow> bit (pde_of m dir vb) 0 \<longrightarrow> table_of m dir va = table_of m dir vb \<longrightarrow>
        pde_index va = pde_index vb)"

lemma table_aligned [simp]: "take_bit 12 (pde_paddr v) = 0" "take_bit 12 (pte_paddr v) = 0"
  by (auto simp: entry_paddr intro!: bit_word_eqI) (auto simp: bit_simps)

lemma same_page_index:
  "drop_bit 12 va = drop_bit 12 vb \<longleftrightarrow> pde_index va = pde_index vb \<and> pte_index va = (pte_index vb :: u32)"
proof -
  let ?x = "drop_bit 12 va" and ?y = "drop_bit 12 vb"
  have p: "pde_index va = drop_bit 10 ?x" "pde_index vb = drop_bit 10 ?y" by (simp_all add: pde_index_def)
  have "?x = push_bit 10 (drop_bit 10 ?x) + take_bit 10 ?x" "?y = push_bit 10 (drop_bit 10 ?y) + take_bit 10 ?y"
    by (metis add.commute bits_ident)+
  then show ?thesis unfolding p pte_index_eq by metis
qed

lemma mem32_outside: "region q 4 \<inter> R = {} \<Longrightarrow> (\<And>x. x \<notin> R \<Longrightarrow> m' x = m x) \<Longrightarrow> mem32 m' q = mem32 m q"
  by (intro mem32_cong) auto

text \<open>Writing inside one page leaves the slots of every other page alone.\<close>

lemma slot_other_page:
  assumes "take_bit 12 p = 0" "take_bit 12 q = 0" "p \<noteq> q" "unat i < 1024" "\<And>x. x \<notin> region p 4096 \<Longrightarrow> m' x = m x"
  shows "mem32 m' (slot q i) = mem32 m (slot q i)"
  by (rule mem32_outside [of _ "region p 4096"])
    (use slot_in_page [OF assms(4), of q] pages_disjoint [OF assms(1-3)] assms(5) in auto)

lemma put_slot_inside:
  "unat i < 1024 \<Longrightarrow> x \<notin> region p 4096 \<Longrightarrow> put32 m (slot p i) v x = m x"
  using slot_in_page [of i p] by (intro put32_other) auto

lemma zero_page:
  assumes "p \<noteq> 0"
  shows "x \<in> region p 4096 \<Longrightarrow> k_memset p 0 MEM_PAGE_SIZE m x = 0"
    and "x \<notin> region p 4096 \<Longrightarrow> k_memset p 0 MEM_PAGE_SIZE m x = m x"
proof -
  have e: "k_memset p 0 MEM_PAGE_SIZE m = put_bytes m p (replicate 4096 0)"
    using k_memset_eq [OF assms, of 0 MEM_PAGE_SIZE m] by (simp add: MEM_PAGE_SIZE_def)
  show "k_memset p 0 MEM_PAGE_SIZE m x = 0" if r: "x \<in> region p 4096"
  proof -
    obtain i where "i < 4096" "x = p + of_nat i" using r by (auto simp: region_def)
    then show ?thesis using at_bytes_nth [OF put_bytes_at [of "replicate 4096 0" m p], of i] unfolding e by simp
  qed
  show "k_memset p 0 MEM_PAGE_SIZE m x = m x" if "x \<notin> region p 4096"
    unfolding e using that by (intro put_bytes_other) simp
qed

lemma zero_page_slot: "p \<noteq> 0 \<Longrightarrow> unat i < 1024 \<Longrightarrow> mem32 (k_memset p 0 MEM_PAGE_SIZE m) (slot p i) = 0"
proof -
  assume p: "p \<noteq> 0" and i: "unat i < 1024"
  have "k_memset p 0 MEM_PAGE_SIZE m x = 0" if "x \<in> region (slot p i) 4" for x
    using that slot_in_page [OF i] zero_page(1) [OF p] by blast
  then show ?thesis by (simp add: mem32_def region4)
qed

text \<open>A new, empty page table changes no translation.\<close>

lemma new_table:
  assumes ok: "space_ok m dir U" and p: "take_bit 12 p = 0" "p \<noteq> 0" "p \<notin> U" and va: "\<not> bit (pde_of m dir va) 0"
    and m': "m' = k_memset p 0 MEM_PAGE_SIZE (put32 m (slot dir (pde_index va)) (p OR PDE_P OR PDE_W OR PDE_U))"
  shows "space_ok m' dir (insert p U)" "mmu_walk m' dir = mmu_walk m dir" "bit (pde_of m' dir va) 0" "table_of m' dir va = p"
proof -
  let ?f = "PDE_P OR PDE_W OR PDE_U"
  let ?m = "put32 m (slot dir (pde_index va)) (p OR PDE_P OR PDE_W OR PDE_U)"
  have d: "take_bit 12 dir = 0" "dir \<in> U" and pd: "p \<noteq> dir" using ok p(3) by (auto simp: space_ok_def)
  have f: "take_bit 12 ?f = ?f" by (simp add: PDE_P_def PDE_W_def PDE_U_def)
  have in_p: "x \<notin> region p 4096 \<Longrightarrow> m' x = ?m x" for x unfolding m' by (rule zero_page(2) [OF p(2)])
  have pde: "pde_of m' dir vb = (if pde_index vb = pde_index va then p OR ?f else pde_of m dir vb)" for vb
  proof -
    have "pde_of m' dir vb = pde_of ?m dir vb"
      by (rule slot_other_page [OF p(1) d(1) pd pde_index_bound in_p])
    also have "\<dots> = (if pde_index vb = pde_index va then p OR ?f else pde_of m dir vb)"
      using mem32_put32_other [OF slot_disjoint [OF pde_index_bound pde_index_bound]] by (auto simp: or.assoc)
    finally show ?thesis .
  qed
  have pp: "pde_paddr (p OR ?f) = p" by (rule paddr_of_entry(2) [OF p(1) f])
  have fb: "bit (p OR ?f) 0" by (simp add: PDE_P_def bit_simps)
  show "bit (pde_of m' dir va) 0" "table_of m' dir va = p" using fb pp unfolding pde by simp_all
  have old: "table_of m dir vb \<in> U" "table_of m dir vb \<noteq> dir" "table_of m dir vb \<noteq> p" if "bit (pde_of m dir vb) 0" for vb
    using ok that p(3) unfolding space_ok_def by metis+
  have inj: "pde_index vb = pde_index vc" if "bit (pde_of m dir vb) 0" "bit (pde_of m dir vc) 0"
    "table_of m dir vb = table_of m dir vc" for vb vc using ok that unfolding space_ok_def by blast
  show "space_ok m' dir (insert p U)"
    unfolding space_ok_def pde using d pd pp fb old inj by (auto split: if_splits)
  show "mmu_walk m' dir = mmu_walk m dir"
  proof
    fix vb
    show "mmu_walk m' dir vb = mmu_walk m dir vb"
    proof (cases "pde_index vb = pde_index va")
      case True
      have "mem32 m' (slot p (pte_index vb)) = 0" unfolding m' by (rule zero_page_slot [OF p(2) pte_index_bound])
      with True va show ?thesis by (simp add: mmu_walk_eq pde pp)
    next
      case False
      have "mem32 m' (slot (table_of m dir vb) (pte_index vb)) = mem32 m (slot (table_of m dir vb) (pte_index vb))"
        if b: "bit (pde_of m dir vb) 0"
      proof -
        have "mem32 m' (slot (table_of m dir vb) (pte_index vb)) = mem32 ?m (slot (table_of m dir vb) (pte_index vb))"
          by (rule slot_other_page [OF p(1) table_aligned(1) old(3) [OF b, symmetric] pte_index_bound in_p])
        also have "\<dots> = mem32 m (slot (table_of m dir vb) (pte_index vb))"
          by (rule slot_other_page [OF d(1) table_aligned(1) old(2) [OF b, symmetric] pte_index_bound
              put_slot_inside [OF pde_index_bound]])
        finally show ?thesis .
      qed
      with False show ?thesis by (cases "bit (pde_of m dir vb) 0") (simp_all add: mmu_walk_eq pde)
    qed
  qed
qed

text \<open>Writing an entry changes the translation of its page and of no other.\<close>

lemma set_entry:
  assumes ok: "space_ok m dir U" and va: "bit (pde_of m dir va) 0"
    and pa: "take_bit 12 pa = 0" and perm: "take_bit 12 perm = perm"
    and m': "m' = put32 m (slot (table_of m dir va) (pte_index va)) (pa OR perm OR PTE_P)"
  shows "space_ok m' dir U"
    and "mmu_walk m' dir = (\<lambda>vb. if drop_bit 12 vb = drop_bit 12 va then Some (pa + (vb AND 0xfff)) else mmu_walk m dir vb)"
proof -
  let ?t = "table_of m dir va" and ?v = "pa OR perm OR PTE_P"
  have d: "take_bit 12 dir = 0" and td: "?t \<noteq> dir" using ok va by (auto simp: space_ok_def)
  have inj: "pde_index vb = pde_index va" if "bit (pde_of m dir vb) 0" "table_of m dir vb = ?t" for vb
    using ok that va unfolding space_ok_def by blast
  have inside: "x \<notin> region ?t 4096 \<Longrightarrow> m' x = m x" for x
    unfolding m' by (rule put_slot_inside [OF pte_index_bound])
  have pde: "pde_of m' dir vb = pde_of m dir vb" for vb
    by (rule slot_other_page [OF table_aligned(1) d td pde_index_bound inside])
  have pte: "mem32 m' (slot (table_of m dir vb) (pte_index vb)) =
      (if drop_bit 12 vb = drop_bit 12 va then ?v else mem32 m (slot (table_of m dir vb) (pte_index vb)))"
    if b: "bit (pde_of m dir vb) 0" for vb
  proof (cases "table_of m dir vb = ?t")
    case True
    from inj [OF b True] have i: "pde_index vb = pde_index va" .
    show ?thesis
    proof (cases "pte_index vb = pte_index va")
      case eq: True
      then show ?thesis using i same_page_index [of vb va] True unfolding m' by simp
    next
      case False
      then have "drop_bit 12 vb \<noteq> drop_bit 12 va" using same_page_index by blast
      moreover have "mem32 m' (slot ?t (pte_index vb)) = mem32 m (slot ?t (pte_index vb))"
        unfolding m' using False
        by (intro mem32_put32_other slot_disjoint [OF pte_index_bound pte_index_bound]) simp
      ultimately show ?thesis using True by simp
    qed
  next
    case False
    then have "pde_index vb \<noteq> pde_index va" by auto
    then have "drop_bit 12 vb \<noteq> drop_bit 12 va" using same_page_index by blast
    with slot_other_page [OF table_aligned(1) table_aligned(1) False [symmetric] pte_index_bound inside]
    show ?thesis by simp
  qed
  show "space_ok m' dir U" using ok unfolding space_ok_def pde .
  have f: "take_bit 12 (perm OR PTE_P) = perm OR PTE_P" using perm by (simp add: PTE_P_def)
  have v: "pte_paddr ?v = pa" "bit ?v 0"
    using paddr_of_entry(1) [OF pa f] by (simp_all add: or.assoc PTE_P_def bit_simps)
  show "mmu_walk m' dir = (\<lambda>vb. if drop_bit 12 vb = drop_bit 12 va then Some (pa + (vb AND 0xfff)) else mmu_walk m dir vb)"
  proof
    fix vb
    show "mmu_walk m' dir vb = (if drop_bit 12 vb = drop_bit 12 va then Some (pa + (vb AND 0xfff)) else mmu_walk m dir vb)"
    proof (cases "bit (pde_of m dir vb) 0")
      case True
      then show ?thesis using pte [OF True] v by (simp add: mmu_walk_eq pde)
    next
      case False
      then have "pde_index vb \<noteq> pde_index va" using va by auto
      then have "drop_bit 12 vb \<noteq> drop_bit 12 va" using same_page_index by blast
      with False show ?thesis by (simp add: mmu_walk_eq pde)
    qed
  qed
qed

lemma slot_not_null: "take_bit 12 t = 0 \<Longrightarrow> t \<noteq> 0 \<Longrightarrow> unat i < 1024 \<Longrightarrow> slot t i \<noteq> 0"
  using slot_in_page [of i t] region_page [of t 0] region_start [of 4 "slot t i"] by force

text \<open>\<open>room\<close>: the table for the address exists, or there is a page for it.\<close>

definition room :: "u32 \<Rightarrow> u32 \<Rightarrow> 'a mem_state_scheme \<Rightarrow> bool" where
  "room dir va s \<longleftrightarrow> bit (pde_of (phys s) dir va) 0 \<or> used_of (paddr_alloc s) \<noteq> pages_of (paddr_alloc s)"

lemma mutex_idle_log_line [simp]: "mutex_idle m (log_line f args s) = mutex_idle m s"
  by (simp add: mutex_idle_def log_line_def)

definition free_count :: "addr_alloc_t \<Rightarrow> nat" where
  "free_count a = card (pages_of a - used_of a)"

text \<open>What a change of an address space keeps.  \<open>R\<close> is a set of pages in use that hold neither the directory
  nor one of its tables: the frames of the task, kernel stacks, the pages of other tasks.\<close>

definition vm_ok :: "u32 set \<Rightarrow> u32 \<Rightarrow> 'a mem_state_scheme \<Rightarrow> bool" where
  "vm_ok R dir s \<longleftrightarrow> space_ok (phys s) dir (used_of (paddr_alloc s) - R) \<and> R \<subseteq> used_of (paddr_alloc s) \<and>
     pool_ok (paddr_alloc s) \<and> mutex_idle Paddr_alloc_mutex s"

definition same_pages :: "u32 set \<Rightarrow> mem \<Rightarrow> mem \<Rightarrow> bool" where
  "same_pages R m m' \<longleftrightarrow> (\<forall>q \<in> R. \<forall>x \<in> region q 4096. m' x = m x)"

lemma same_pages_refl [simp]: "same_pages R m m"
  by (simp add: same_pages_def)

lemma same_pages_trans: "same_pages R m m' \<Longrightarrow> same_pages R m' m'' \<Longrightarrow> same_pages R m m''"
  by (simp add: same_pages_def)

lemma same_pages_mono: "same_pages R m m' \<Longrightarrow> Q \<subseteq> R \<Longrightarrow> same_pages Q m m'"
  by (auto simp: same_pages_def)

lemma used_page: "pool_ok a \<Longrightarrow> p \<in> used_of a \<Longrightarrow> p \<noteq> 0 \<and> take_bit 12 p = 0"
  using page_addr_facts [of a] by (auto simp: used_of_def)

lemma same_pages_in_page:
  assumes "pool_ok a" "R \<subseteq> used_of a" "take_bit 12 p = 0" "p \<notin> R" "\<And>x. x \<notin> region p 4096 \<Longrightarrow> m' x = m x"
  shows "same_pages R m m'"
  unfolding same_pages_def
proof (intro ballI)
  fix q x assume q: "q \<in> R" and x: "x \<in> region q 4096"
  have "take_bit 12 q = 0" "p \<noteq> q" using q assms(2,4) used_page [OF assms(1)] by auto
  from pages_disjoint [OF assms(3) this] x show "m' x = m x" by (intro assms(5)) auto
qed

lemma find_pte_alloc:
  assumes vm: "vm_ok R dir s" and rm: "room dir va s"
  shows "\<exists>m a. find_pte dir va 1 s = Done (slot (table_of m dir va) (pte_index va)) (s\<lparr>paddr_alloc := a, phys := m\<rparr>) \<and>
     pool_ok a \<and> space_ok m dir (used_of a - R) \<and> bit (pde_of m dir va) 0 \<and> table_of m dir va \<noteq> 0 \<and>
     mmu_walk m dir = mmu_walk (phys s) dir \<and> pages_of a = pages_of (paddr_alloc s) \<and>
     (\<exists>p. used_of a \<subseteq> insert p (used_of (paddr_alloc s))) \<and> used_of (paddr_alloc s) \<subseteq> used_of a \<and>
     same_pages R (phys s) m"
proof -
  have ok: "space_ok (phys s) dir (used_of (paddr_alloc s) - R)" and R: "R \<subseteq> used_of (paddr_alloc s)"
    and po: "pool_ok (paddr_alloc s)" and idle: "mutex_idle Paddr_alloc_mutex s" using vm by (simp_all add: vm_ok_def)
  show ?thesis
  proof (cases "bit (pde_of (phys s) dir va) 0")
    case True
    have "table_of (phys s) dir va \<in> used_of (paddr_alloc s)" using ok True unfolding space_ok_def by blast
    from used_page [OF po this] True ok po show ?thesis
      by (intro exI [of _ "phys s"] exI [of _ "paddr_alloc s"])
        (auto simp: find_pte_def pde_ptr_slot pte_ptr_slot pde_present_def)
  next
    case False
    then have "used_of (paddr_alloc s) \<noteq> pages_of (paddr_alloc s)" using rm by (simp add: room_def)
    from pool.take_some [OF po this] obtain p a where t: "take_page (paddr_alloc s) = Inr (p, a)" "pool_ok a"
      "p \<in> pages_of (paddr_alloc s) - used_of (paddr_alloc s)" "pages_of a = pages_of (paddr_alloc s)"
      "used_of a = insert p (used_of (paddr_alloc s))" by blast
    have p: "take_bit 12 p = 0" "p \<noteq> 0" "p \<notin> used_of (paddr_alloc s) - R"
      using t(3) page_addr_facts [OF po] by (auto simp: pages_of_def)
    let ?m = "put32 (phys s) (slot dir (pde_index va)) (p OR PDE_P OR PDE_W OR PDE_U)"
    define m where "m = k_memset p 0 MEM_PAGE_SIZE ?m"
    note n = new_table [OF ok p False m_def]
    have d: "take_bit 12 dir = 0" "dir \<notin> R" and pR: "p \<notin> R" using ok R t(3) by (auto simp: space_ok_def)
    have "same_pages R (phys s) ?m" using put_slot_inside [OF pde_index_bound] by (rule same_pages_in_page [OF po R d])
    moreover have "same_pages R ?m m" unfolding m_def using zero_page(2) [OF p(2)] by (rule same_pages_in_page [OF po R p(1) pR])
    ultimately have sp: "same_pages R (phys s) m" by (rule same_pages_trans)
    have u: "used_of a - R = insert p (used_of (paddr_alloc s) - R)" using t(5) pR by auto
    have "find_pte dir va 1 s = Done (slot p (pte_index va)) (s\<lparr>paddr_alloc := a, phys := m\<rparr>)"
      using False addr_alloc_idle [OF idle t(1)] p(2)
      by (simp add: find_pte_def pde_ptr_slot pte_ptr_slot pde_present_def m_def)
    with n t p sp u show ?thesis by (intro exI [of _ m] exI [of _ a]) auto
  qed
qed

text \<open>The abstract address space: a partial function from addresses to addresses, to which whole pages are
  added.\<close>

definition map_page :: "u32 \<Rightarrow> u32 \<Rightarrow> (u32 \<Rightarrow> u32 option) \<Rightarrow> u32 \<Rightarrow> u32 option" where
  "map_page va pa w = (\<lambda>vb. if drop_bit 12 vb = drop_bit 12 va then Some (pa + (vb AND 0xfff)) else w vb)"

fun map_range :: "nat \<Rightarrow> u32 \<Rightarrow> u32 \<Rightarrow> (u32 \<Rightarrow> u32 option) \<Rightarrow> u32 \<Rightarrow> u32 option" where
  "map_range 0 va pa w = w"
| "map_range (Suc n) va pa w = map_range n (va + MEM_PAGE_SIZE) (pa + MEM_PAGE_SIZE) (map_page va pa w)"

lemma next_page_aligned: "take_bit 12 pa = 0 \<Longrightarrow> take_bit 12 (pa + MEM_PAGE_SIZE) = (0 :: u32)"
proof -
  assume "take_bit 12 pa = 0"
  then have "unat pa mod 4096 = 0" by (simp add: aligned_unat)
  then have "unat (pa + MEM_PAGE_SIZE) mod 4096 = 0"
    by (simp add: unat_word_ariths MEM_PAGE_SIZE_def mod_mod_cancel mod_eq_0_iff_dvd)
  then show ?thesis by (simp add: aligned_unat)
qed

lemma map_step:
  assumes "vm_ok R dir s" "room dir va s" "take_bit 12 pa = 0" "take_bit 12 perm = perm"
  shows "\<exists>s'. map_pages (Suc n) dir va pa perm s = map_pages n dir (va + MEM_PAGE_SIZE) (pa + MEM_PAGE_SIZE) perm s' \<and>
     vm_ok R dir s' \<and> mmu_walk (phys s') dir = map_page va pa (mmu_walk (phys s) dir) \<and> same_pages R (phys s) (phys s') \<and>
     free_count (paddr_alloc s) \<le> Suc (free_count (paddr_alloc s')) \<and>
     pages_of (paddr_alloc s') = pages_of (paddr_alloc s) \<and> used_of (paddr_alloc s) \<subseteq> used_of (paddr_alloc s') \<and>
     tasks s' = tasks s \<and> curr_task s' = curr_task s \<and> cr3 s' = cr3 s"
proof -
  from assms(1,2) obtain m a p where 1:
    "find_pte dir va 1 s = Done (slot (table_of m dir va) (pte_index va)) (s\<lparr>paddr_alloc := a, phys := m\<rparr>)"
    "pool_ok a" "space_ok m dir (used_of a - R)" "bit (pde_of m dir va) 0" "table_of m dir va \<noteq> 0"
    "mmu_walk m dir = mmu_walk (phys s) dir" "pages_of a = pages_of (paddr_alloc s)"
    "used_of a \<subseteq> insert p (used_of (paddr_alloc s))" "used_of (paddr_alloc s) \<subseteq> used_of a"
    "same_pages R (phys s) m" using find_pte_alloc [of R dir s va] by blast
  define s1 where "s1 = s\<lparr>paddr_alloc := a, phys := m\<rparr>"
  define pte where "pte = slot (table_of m dir va) (pte_index va)"
  define s2 where "s2 = (if pte_present (mem32 m pte) then log_line ''error111'' [] s1 else s1)"
  let ?s = "s2\<lparr>phys := put32 m pte (pa OR perm OR PTE_P)\<rparr>"
  have nz: "pte \<noteq> 0" unfolding pte_def by (rule slot_not_null [OF table_aligned(1) 1(5) pte_index_bound])
  have s2: "phys s2 = m" "paddr_alloc s2 = a" by (simp_all add: s2_def s1_def log_line_def)
  have idle: "mutex_idle Paddr_alloc_mutex ?s" using assms(1) by (simp add: vm_ok_def s2_def s1_def)
  have "map_pages (Suc n) dir va pa perm s = map_pages n dir (va + MEM_PAGE_SIZE) (pa + MEM_PAGE_SIZE) perm ?s"
    using 1(1) nz s2 unfolding s1_def [symmetric] pte_def [symmetric]
    by (simp add: s2_def s1_def log_line_def Let_def)
  moreover note e = set_entry [OF 1(3,4) assms(3,4) refl, folded pte_def]
  have R: "R \<subseteq> used_of a" using assms(1) 1(9) by (auto simp: vm_ok_def)
  have t: "table_of m dir va \<notin> R" using 1(3,4) unfolding space_ok_def by blast
  have "same_pages R m (phys ?s)"
    using put_slot_inside [OF pte_index_bound, of _ "table_of m dir va"]
    by (intro same_pages_in_page [OF 1(2) R table_aligned(1) t]) (simp add: pte_def)
  with 1(10) have "same_pages R (phys s) (phys ?s)" by (rule same_pages_trans)
  moreover have "vm_ok R dir ?s" using e(1) 1(2) idle s2(2) R by (simp add: vm_ok_def)
  moreover have "mmu_walk (phys ?s) dir = map_page va pa (mmu_walk (phys s) dir)"
    using e(2) unfolding 1(6) by (simp add: map_page_def)
  moreover have "free_count (paddr_alloc s) \<le> Suc (free_count a)"
  proof -
    have "pages_of (paddr_alloc s) - used_of (paddr_alloc s) \<subseteq> insert p (pages_of a - used_of a)" using 1(7,8) by blast
    moreover have f: "finite (pages_of a - used_of a)" using pool.finite_pages [OF 1(2)] by simp
    ultimately have "free_count (paddr_alloc s) \<le> card (insert p (pages_of a - used_of a))"
      unfolding free_count_def by (intro card_mono) auto
    also have "\<dots> \<le> Suc (free_count a)" unfolding free_count_def by (simp add: card_insert_if [OF f])
    finally show ?thesis .
  qed
  moreover have "tasks ?s = tasks s" "curr_task ?s = curr_task s" "cr3 ?s = cr3 s" by (simp_all add: s2_def s1_def log_line_def)
  ultimately show ?thesis using s2(2) 1(7,9) by (intro exI [of _ ?s]) simp
qed

lemma room_free: "pool_ok (paddr_alloc s) \<Longrightarrow> 0 < free_count (paddr_alloc s) \<Longrightarrow> room dir va s"
  by (auto simp: room_def free_count_def)

lemma map_pages_refines:
  assumes "vm_ok R dir s" "n \<le> free_count (paddr_alloc s)" "take_bit 12 pa = 0" "take_bit 12 perm = perm"
  shows "\<exists>s'. map_pages n dir va pa perm s = Done 0 s' \<and> vm_ok R dir s' \<and>
     mmu_walk (phys s') dir = map_range n va pa (mmu_walk (phys s) dir) \<and> same_pages R (phys s) (phys s')"
  using assms
proof (induction n arbitrary: va pa s)
  case (Suc n)
  have "room dir va s" using Suc.prems(1,2) by (intro room_free) (auto simp: vm_ok_def)
  from map_step [OF Suc.prems(1) this Suc.prems(3,4)] obtain s1 where
    1: "map_pages (Suc n) dir va pa perm s = map_pages n dir (va + MEM_PAGE_SIZE) (pa + MEM_PAGE_SIZE) perm s1"
    "vm_ok R dir s1" "mmu_walk (phys s1) dir = map_page va pa (mmu_walk (phys s) dir)" "same_pages R (phys s) (phys s1)"
    "free_count (paddr_alloc s) \<le> Suc (free_count (paddr_alloc s1))" by blast
  have "n \<le> free_count (paddr_alloc s1)" using 1(5) Suc.prems(2) by simp
  from Suc.IH [OF 1(2) this next_page_aligned [OF Suc.prems(3)] Suc.prems(4)] 1(1,3,4) show ?case
    by (auto intro: same_pages_trans)
qed simp

text \<open>C9: the page tables implement a map.  Mapping \<open>n\<close> pages into a well-formed directory never fails
  while the pool has \<open>n\<close> free pages for new tables; afterwards the processor translates every address of
  these pages to the given frames and every other address exactly as before, the directory and the
  pool are still well formed, and no page in use that is not part of the directory has changed.\<close>

theorem create_map_refines:
  assumes "vm_ok R dir s" "n \<le> free_count (paddr_alloc s)" "take_bit 12 pa = 0" "take_bit 12 perm = perm"
  shows "\<exists>s'. memory_create_map dir va pa (int n) perm s = Done 0 s' \<and> vm_ok R dir s' \<and>
     mmu_walk (phys s') dir = map_range n va pa (mmu_walk (phys s) dir) \<and> same_pages R (phys s) (phys s')"
  using map_pages_refines [OF assms] by (simp add: memory_create_map_def)

subsection \<open>Filling an address space\<close>

fun map_list :: "u32 list \<Rightarrow> u32 \<Rightarrow> (u32 \<Rightarrow> u32 option) \<Rightarrow> u32 \<Rightarrow> u32 option" where
  "map_list [] va w = w"
| "map_list (p # ps) va w = map_list ps (va + MEM_PAGE_SIZE) (map_page va p w)"

lemma take_free:
  assumes "pool_ok a" "0 < free_count a"
  obtains p a' where "take_page a = Inr (p, a')" "pool_ok a'" "p \<in> pages_of a - used_of a" "p \<noteq> 0" "take_bit 12 p = 0"
    "pages_of a' = pages_of a" "used_of a' = insert p (used_of a)" "free_count a = Suc (free_count a')"
proof -
  have "used_of a \<noteq> pages_of a" using assms(2) by (auto simp: free_count_def)
  from pool.take_some [OF assms(1) this] obtain p a' where t: "take_page a = Inr (p, a')" "pool_ok a'"
    "p \<in> pages_of a - used_of a" "pages_of a' = pages_of a" "used_of a' = insert p (used_of a)" by blast
  have "p \<noteq> 0" "take_bit 12 p = 0" using t(3) page_addr_facts [OF assms(1)] by (auto simp: pages_of_def)
  moreover have "pages_of a' - used_of a' = (pages_of a - used_of a) - {p}" using t(4,5) by auto
  then have "free_count a = Suc (free_count a')"
    unfolding free_count_def using card.remove [OF _ t(3)] pool.finite_pages [OF assms(1)] by simp
  ultimately show ?thesis using that t by blast
qed

lemma fresh_page:
  assumes "vm_ok R dir s" "0 < free_count (paddr_alloc s)"
  shows "\<exists>p a. addr_alloc_page 1 s = Done p (s\<lparr>paddr_alloc := a\<rparr>) \<and> vm_ok (insert p R) dir (s\<lparr>paddr_alloc := a\<rparr>) \<and>
     p \<in> pages_of (paddr_alloc s) - used_of (paddr_alloc s) \<and> p \<noteq> 0 \<and> take_bit 12 p = 0 \<and>
     pages_of a = pages_of (paddr_alloc s) \<and> used_of a = insert p (used_of (paddr_alloc s)) \<and>
     free_count (paddr_alloc s) = Suc (free_count a)"
proof -
  have ok: "pool_ok (paddr_alloc s)" and idle: "mutex_idle Paddr_alloc_mutex s" using assms(1) by (auto simp: vm_ok_def)
  from ok assms(2) obtain p a where t: "take_page (paddr_alloc s) = Inr (p, a)" "pool_ok a"
    "p \<in> pages_of (paddr_alloc s) - used_of (paddr_alloc s)" "p \<noteq> 0" "take_bit 12 p = 0" "pages_of a = pages_of (paddr_alloc s)"
    "used_of a = insert p (used_of (paddr_alloc s))" "free_count (paddr_alloc s) = Suc (free_count a)" by (rule take_free)
  have "used_of a - insert p R = used_of (paddr_alloc s) - R" using t(3,7) by auto
  then have "vm_ok (insert p R) dir (s\<lparr>paddr_alloc := a\<rparr>)" using assms(1) t(2,7) by (auto simp: vm_ok_def)
  with t addr_alloc_idle [OF idle t(1)] show ?thesis by blast
qed

lemma alloc_for_dir_refines:
  assumes "vm_ok R dir s" "2 * n \<le> free_count (paddr_alloc s)" "take_bit 12 perm = perm"
  shows "\<exists>s' ps. alloc_for_dir n i dir base va perm s = Done 0 s' \<and> vm_ok (R \<union> set ps) dir s' \<and> length ps = n \<and>
     distinct ps \<and> set ps \<subseteq> pages_of (paddr_alloc s) - used_of (paddr_alloc s) \<and>
     mmu_walk (phys s') dir = map_list ps va (mmu_walk (phys s) dir) \<and> same_pages R (phys s) (phys s') \<and>
     tasks s' = tasks s \<and> curr_task s' = curr_task s"
  using assms
proof (induction n arbitrary: i va s R)
  case 0
  then show ?case by (intro exI [of _ s] exI [of _ "[]"]) simp
next
  case (Suc n)
  from fresh_page [OF Suc.prems(1)] Suc.prems(2) obtain p a where
    p: "addr_alloc_page 1 s = Done p (s\<lparr>paddr_alloc := a\<rparr>)" "vm_ok (insert p R) dir (s\<lparr>paddr_alloc := a\<rparr>)"
    "p \<in> pages_of (paddr_alloc s) - used_of (paddr_alloc s)" "p \<noteq> 0" "take_bit 12 p = 0"
    "pages_of a = pages_of (paddr_alloc s)" "used_of a = insert p (used_of (paddr_alloc s))"
    "free_count (paddr_alloc s) = Suc (free_count a)" by auto
  have "room dir va (s\<lparr>paddr_alloc := a\<rparr>)"
    using p(2,8) Suc.prems(2) by (intro room_free) (auto simp: vm_ok_def)
  from map_step [OF p(2) this p(5) Suc.prems(3), of 0] obtain s1 where
    m: "memory_create_map dir va p 1 perm (s\<lparr>paddr_alloc := a\<rparr>) = Done 0 s1" "vm_ok (insert p R) dir s1"
    "mmu_walk (phys s1) dir = map_page va p (mmu_walk (phys s) dir)" "same_pages (insert p R) (phys s) (phys s1)"
    "free_count a \<le> Suc (free_count (paddr_alloc s1))"
    "pages_of (paddr_alloc s1) = pages_of a" "used_of a \<subseteq> used_of (paddr_alloc s1)" "tasks s1 = tasks s"
    "curr_task s1 = curr_task s" by (auto simp: memory_create_map_def)
  have "2 * n \<le> free_count (paddr_alloc s1)" using Suc.prems(2) p(8) m(5) by simp
  from Suc.IH [OF m(2) this Suc.prems(3)] obtain s' ps where
    r: "alloc_for_dir n (Suc i) dir base (va + MEM_PAGE_SIZE) perm s1 = Done 0 s'" "vm_ok (insert p R \<union> set ps) dir s'"
    "length ps = n" "distinct ps" "set ps \<subseteq> pages_of (paddr_alloc s1) - used_of (paddr_alloc s1)"
    "mmu_walk (phys s') dir = map_list ps (va + MEM_PAGE_SIZE) (mmu_walk (phys s1) dir)"
    "same_pages (insert p R) (phys s1) (phys s')" "tasks s' = tasks s1" "curr_task s' = curr_task s1" by blast
  have "p \<in> used_of (paddr_alloc s1)" using p(7) m(7) by auto
  moreover have "alloc_for_dir (Suc n) i dir base va perm s = Done 0 s'" using p(1,4) m(1) r(1) by simp
  moreover have "same_pages R (phys s) (phys s')" using same_pages_trans [OF m(4) r(7)] by (rule same_pages_mono) blast
  ultimately show ?case using p(3,6,7) m(3,6-9) r by (intro exI [of _ s'] exI [of _ "p # ps"]) auto
qed

text \<open>Writing into a page that is not part of the address space does not change it.\<close>

lemma write_reserved:
  assumes vm: "vm_ok R dir s" and q: "q \<in> R" and m': "\<And>x. x \<notin> region q 4096 \<Longrightarrow> m' x = phys s x"
  shows "vm_ok R dir (s\<lparr>phys := m'\<rparr>)" "mmu_walk m' dir = mmu_walk (phys s) dir"
proof -
  have sp: "space_ok (phys s) dir (used_of (paddr_alloc s) - R)" using vm by (simp add: vm_ok_def)
  have qa: "take_bit 12 q = 0" using vm q used_page [of "paddr_alloc s" q] by (auto simp: vm_ok_def)
  have d: "take_bit 12 dir = 0" "q \<noteq> dir" using sp q by (auto simp: space_ok_def)
  have pde: "pde_of m' dir va = pde_of (phys s) dir va" for va
    by (rule slot_other_page [OF qa d pde_index_bound m'])
  then show "vm_ok R dir (s\<lparr>phys := m'\<rparr>)" using vm by (simp add: vm_ok_def space_ok_def)
  have pte: "mem32 m' (slot (table_of (phys s) dir va) (pte_index va)) =
      mem32 (phys s) (slot (table_of (phys s) dir va) (pte_index va))" if b: "bit (pde_of (phys s) dir va) 0" for va
  proof -
    have "q \<noteq> table_of (phys s) dir va" using sp b q unfolding space_ok_def by blast
    then show ?thesis by (rule slot_other_page [OF qa table_aligned(1) _ pte_index_bound m'])
  qed
  show "mmu_walk m' dir = mmu_walk (phys s) dir"
    using pte by (auto simp: fun_eq_iff mmu_walk_eq pde)
qed

end
