(* ===== verification/Address_Space_Laws.thy ===== *)
theory Address_Space_Laws
  imports Paging_Laws
begin

text \<open>
  What the address spaces of the tasks promise: filling one gives every page a frame of its own, the
  software walk of \<open>memory_get_paddr\<close> agrees with the processor, and \<open>sys_sbrk\<close> grows the heap.  The
  sample state \<open>vm_start\<close> shows that the hypotheses can be met.
\<close>

subsection \<open>A sample address space\<close>

lemma free_count_eq:
  assumes "pool_ok a"
  shows "free_count a = length (filter Not (page_used a))"
proof -
  let ?I = "{i. i < length (page_used a) \<and> \<not> page_used a ! i}"
  have "pages_of a - used_of a = page_addr a ` ?I"
    using page_addr_in_used [OF assms] by (auto simp: pages_of_def)
  moreover have "inj_on (page_addr a) ?I" using page_addr_inj [OF assms] by (auto intro!: inj_onI)
  ultimately show ?thesis by (simp add: free_count_def card_image length_filter_conv_card)
qed

text \<open>Sixteen pages from 1 MB on, the first of them an empty page directory.\<close>

definition pool16 :: addr_alloc_t where
  "pool16 = \<lparr>aa_bitmap = \<lparr>bit_count = 16, bits = [1, 0]\<rparr>, aa_start = 0x100000, aa_size = 0x10000, aa_page_size = 4096\<rparr>"

definition vm_start :: "u32 \<Rightarrow> mem_state" where
  "vm_start heap = gdt_state.extend
     (gdt_start\<lparr>tasks := (\<lambda>_. blank_task\<lparr>tk_tss := (tk_tss blank_task)\<lparr>t_cr3 := 0x100000\<rparr>, tk_heap_end := heap\<rparr>)\<rparr>)
     (mem_state.fields (\<lambda>_. 0) pool16)"

lemma vm_start_sel [simp]:
  "phys (vm_start h) = (\<lambda>_. 0)" "paddr_alloc (vm_start h) = pool16" "curr_task (vm_start h) = First_task"
  "tk_heap_end (tasks (vm_start h) t) = h" "t_cr3 (tk_tss (tasks (vm_start h) t)) = 0x100000"
  "mutex_idle m (vm_start h)"
  by (simp_all add: vm_start_def gdt_start_def gdt_state.defs mem_state.defs mutex_idle_def list_init_def list_count_def)

lemma pool16_used: "page_used pool16 = True # replicate 15 False"
  by code_simp

lemma pool16_ok: "pool_ok pool16"
  by (simp add: pool_ok_def pool16_def bitmap_ok_def bitmap_byte_count_def MEM_PAGE_SIZE_def)

lemma pool16_free: "free_count pool16 = 15"
  by (simp add: free_count_eq [OF pool16_ok] pool16_used)

lemma pool16_dir: "0x100000 \<in> used_of pool16"
  using page_addr_in_used [OF pool16_ok, of 0] by (simp add: pool16_used page_addr_def) (simp add: pool16_def)

lemma vm_start_ok: "vm_ok {} 0x100000 (vm_start h)"
  by (simp add: vm_ok_def pool16_ok space_ok_def pool16_dir mem32_def)

definition no_link :: link_t where
  "no_link = \<lparr>lk_isr = (\<lambda>_. 0), lk_syscall = 0, lk_gdt_table = 0, lk_idt_table = 0, lk_kernel_page_dir = 0, lk_kernel_base = 0, lk_s_text = 0,
     lk_e_text = 0, lk_s_data = 0, lk_mem_free_start = 0, lk_task = (\<lambda>_. 0), lk_tss = (\<lambda>_. 0), lk_idle_task_func = 0,
     lk_idle_stack_top = 0, lk_first_task_entry = 0, lk_s_first_task = 0, lk_e_first_task = 0, lk_temp_addr = 0\<rparr>"

text \<open>No page is handed out twice: the first three allocations of the sample state.\<close>

theorem pages_never_shared_witness:
  "\<exists>ps a. alloc_many 3 (vm_start 0) = Done ps (vm_start 0\<lparr>paddr_alloc := a\<rparr>) \<and> length ps = 3 \<and> distinct ps"
  using pages_never_shared [of "vm_start 0" 3] pool16_ok pool16_free by (simp add: free_count_def) blast

lemma map_range_2: "map_range 2 va pa w = map_page (va + MEM_PAGE_SIZE) (pa + MEM_PAGE_SIZE) (map_page va pa w)"
  by (simp add: numeral_2_eq_2)

text \<open>Two pages mapped at 0x80000000.\<close>

theorem create_map_refines_witness:
  "\<exists>s'. memory_create_map 0x100000 0x80000000 0x102000 2 (PTE_W OR PTE_U) (vm_start 0) = Done 0 s' \<and>
     mmu_walk (phys s') 0x100000 0x80001234 = Some 0x103234"
proof -
  have p: "take_bit 12 (PTE_W OR PTE_U) = PTE_W OR PTE_U" by (simp add: PTE_W_def PTE_U_def)
  have "2 \<le> free_count (paddr_alloc (vm_start 0))" by (simp add: pool16_free)
  from create_map_refines [OF vm_start_ok this _ p, of "0x102000" "0x80000000"]
  obtain s' where "memory_create_map 0x100000 0x80000000 0x102000 2 (PTE_W OR PTE_U) (vm_start 0) = Done 0 s'"
    "mmu_walk (phys s') 0x100000 = map_range 2 0x80000000 0x102000 (mmu_walk (phys (vm_start 0)) 0x100000)" by auto
  then show ?thesis by (simp add: map_range_2 map_page_def MEM_PAGE_SIZE_def drop_bit_eq_div)
qed

subsection \<open>The software walk\<close>

lemma mapped_table_not_null:
  assumes "vm_ok R dir s" "bit (pde_of (phys s) dir va) 0"
  shows "table_of (phys s) dir va \<noteq> 0"
proof -
  have "table_of (phys s) dir va \<in> used_of (paddr_alloc s)" "pool_ok (paddr_alloc s)"
    using assms unfolding vm_ok_def space_ok_def by blast+
  then show ?thesis using pool.used_pages pool.null_page by force
qed

lemma get_paddr_walk:
  assumes "vm_ok R dir s"
  shows "memory_get_paddr (phys s) dir va =
     (case mmu_walk (phys s) dir va of
        Some pa \<Rightarrow> pa
      | None \<Rightarrow> if pde_present (mem32 (phys s) (pde_ptr dir va))
                then pte_paddr (mem32 (phys s) (pte_lookup (phys s) dir va)) + (va AND 0xfff) else 0)"
proof (cases "bit (pde_of (phys s) dir va) 0")
  case True
  from slot_not_null [OF table_aligned(1) mapped_table_not_null [OF assms True] pte_index_bound] True
  show ?thesis
    by (simp add: memory_get_paddr_def pte_lookup_def mmu_walk_eq pde_ptr_slot pte_ptr_slot pde_present_def
        MEM_PAGE_SIZE_def)
next
  case False
  then show ?thesis
    by (simp add: memory_get_paddr_def pte_lookup_def mmu_walk_eq pde_ptr_slot pde_present_def)
qed

text \<open>C40: \<open>memory_get_paddr\<close> is the processor's translation.  For every address that is mapped in a
  well-formed directory it returns the address the processor uses, for an address without a page table it
  returns 0; it does not look at the present bit of the last entry, so for an address with a table and
  an empty entry it returns the offset in the page instead of 0.\<close>

theorem get_paddr_is_walk:
  assumes "vm_ok R dir s"
  shows "memory_get_paddr (phys s) dir va =
     (case mmu_walk (phys s) dir va of
        Some pa \<Rightarrow> pa
      | None \<Rightarrow> if pde_present (mem32 (phys s) (pde_ptr dir va))
                then pte_paddr (mem32 (phys s) (pte_lookup (phys s) dir va)) + (va AND 0xfff) else 0)"
  using assms by (rule get_paddr_walk)

subsection \<open>Growing the heap\<close>

lemma up2_pages:
  assumes "unat sz \<le> 2 ^ 31"
  shows "sint (up2 sz MEM_PAGE_SIZE div MEM_PAGE_SIZE) = int ((unat sz + 4095) div 4096)"
proof -
  have "up2 sz MEM_PAGE_SIZE = (sz + 4095) AND NOT (mask 12)"
    by (simp add: up2_def MEM_PAGE_SIZE_def mask_eq_exp_minus_1 add_diff_eq [symmetric])
  moreover have "drop_bit 12 ((sz + 4095) AND NOT (mask 12)) = drop_bit 12 (sz + 4095)"
    by (rule bit_word_eqI) (auto simp: bit_simps dest: bit_imp_le_length)
  ultimately have "up2 sz MEM_PAGE_SIZE div MEM_PAGE_SIZE = drop_bit 12 (sz + 4095)"
    by (simp add: drop_bit_eq_div MEM_PAGE_SIZE_def)
  then have "unat (up2 sz MEM_PAGE_SIZE div MEM_PAGE_SIZE) = (unat sz + 4095) div 4096"
    using assms by (simp add: drop_bit_eq_div unat_div unat_word_ariths)
  moreover from this have "uint (up2 sz MEM_PAGE_SIZE div MEM_PAGE_SIZE) = int ((unat sz + 4095) div 4096)"
    by (metis uint_nat)
  ultimately show ?thesis using assms by (simp add: sint_uint signed_take_bit_int_eq_self)
qed

text \<open>The first page the heap does not have yet, and the number of pages \<open>incr\<close> more bytes need.\<close>

definition page_top :: "u32 \<Rightarrow> u32" where
  "page_top h = (if h mod MEM_PAGE_SIZE = 0 then h else h + (MEM_PAGE_SIZE - h mod MEM_PAGE_SIZE))"

definition left_in_page :: "u32 \<Rightarrow> nat" where
  "left_in_page h = (if h mod MEM_PAGE_SIZE = 0 then 0 else 4096 - unat h mod 4096)"

definition new_pages :: "u32 \<Rightarrow> nat \<Rightarrow> nat" where
  "new_pages h incr = (incr - left_in_page h + 4095) div 4096"

lemma alloc_page_for_refines:
  assumes "vm_ok R (curr_page_dir s) s" "unat sz \<le> 2 ^ 31" "2 * ((unat sz + 4095) div 4096) \<le> free_count (paddr_alloc s)"
    and "take_bit 12 perm = perm"
  shows "\<exists>s' ps. memory_alloc_page_for va sz perm s = Done 0 s' \<and> vm_ok (R \<union> set ps) (curr_page_dir s) s' \<and>
     length ps = (unat sz + 4095) div 4096 \<and> distinct ps \<and>
     set ps \<subseteq> pages_of (paddr_alloc s) - used_of (paddr_alloc s) \<and>
     mmu_walk (phys s') (curr_page_dir s) = map_list ps va (mmu_walk (phys s) (curr_page_dir s)) \<and>
     same_pages R (phys s) (phys s') \<and> tasks s' = tasks s \<and> curr_task s' = curr_task s"
proof -
  from alloc_for_dir_refines [OF assms(1,3,4), of 0 "down2 va MEM_PAGE_SIZE" va] obtain s' ps where
    "alloc_for_dir ((unat sz + 4095) div 4096) 0 (curr_page_dir s) (down2 va MEM_PAGE_SIZE) va perm s = Done 0 s'"
    and r: "vm_ok (R \<union> set ps) (curr_page_dir s) s'" "length ps = (unat sz + 4095) div 4096" "distinct ps"
    "set ps \<subseteq> pages_of (paddr_alloc s) - used_of (paddr_alloc s)"
    "mmu_walk (phys s') (curr_page_dir s) = map_list ps va (mmu_walk (phys s) (curr_page_dir s))"
    "same_pages R (phys s) (phys s')" "tasks s' = tasks s" "curr_task s' = curr_task s" by blast
  then have "memory_alloc_page_for va sz perm s = Done 0 s'"
    unfolding memory_alloc_page_for_def memory_alloc_for_page_dir_def Let_def up2_pages [OF assms(2)]
    by (simp add: curr_page_dir_def)
  with r show ?thesis by blast
qed

lemma page_off: "uint (h mod MEM_PAGE_SIZE) = int (unat h mod 4096)" "h mod MEM_PAGE_SIZE = 0 \<longleftrightarrow> unat h mod 4096 = 0"
proof -
  have "unat (h mod MEM_PAGE_SIZE) = unat h mod 4096" by (simp add: unat_mod MEM_PAGE_SIZE_def)
  then show "uint (h mod MEM_PAGE_SIZE) = int (unat h mod 4096)" "h mod MEM_PAGE_SIZE = 0 \<longleftrightarrow> unat h mod 4096 = 0"
    by (metis uint_nat, simp add: unat_eq_0 [symmetric])
qed

lemma heap_end_set [simp]: "tk_heap_end (tasks (set_heap_end e s) (curr_task s)) = e" "phys (set_heap_end e s) = phys s"
  "vm_ok R dir (set_heap_end e s) = vm_ok R dir s"
  for s :: "'a mem_state_scheme"
  by (simp_all add: set_heap_end_def upd_task_def task_current_def vm_ok_def mutex_idle_def)

lemma sbrk_in_page:
  assumes "unat h mod 4096 \<noteq> 0" "unat h mod 4096 + k \<le> 4096" "0 < k" "h = tk_heap_end (tasks s (curr_task s))"
  shows "sys_sbrk (int k) s = Done h (set_heap_end (h + of_nat k) s)"
  using assms by (simp add: sys_sbrk_def page_off task_current_def Let_def)

lemma sbrk_new_pages:
  assumes "left_in_page h < k" "h = tk_heap_end (tasks s (curr_task s))"
  shows "sys_sbrk (int k) s =
    kbind (memory_alloc_page_for (page_top h) (of_nat (k - left_in_page h)) (PTE_P OR PTE_U OR PTE_W) s) (\<lambda>err s1.
      if err < 0 then Done (-1) (log_line ''sbrk: alloc mem failed.'' [] s1) else Done h (set_heap_end (h + of_nat k) s1))"
proof (cases "unat h mod 4096 = 0")
  case True
  then show ?thesis using assms(1) assms(2) [symmetric]
    by (simp add: sys_sbrk_def page_off task_current_def left_in_page_def page_top_def Let_def)
next
  case False
  let ?o = "unat h mod 4096"
  have o: "?o < 4096" by simp
  have l: "left_in_page h = 4096 - ?o" using False by (simp add: left_in_page_def page_off)
  have "of_nat ?o = h mod MEM_PAGE_SIZE" by (simp add: MEM_PAGE_SIZE_def word_unat_eq_iff unat_mod unat_of_nat)
  then have t: "page_top h = h + of_int (4096 - int ?o)" "page_top h = h + of_nat (4096 - ?o)"
    using False o by (simp_all add: page_top_def page_off of_nat_diff) (simp_all add: MEM_PAGE_SIZE_def)
  have c: "\<not> int ?o + int k \<le> 4096" "int k - (4096 - int ?o) \<noteq> 0" "k \<noteq> 0" using assms(1) l o by linarith+
  have "(of_nat (k - left_in_page h) :: u32) = h + of_nat k - (h + of_int (4096 - int ?o))"
    using assms(1) l o by (simp add: of_nat_diff algebra_simps)
  then show ?thesis using assms(2) [symmetric] False c
    by (simp add: sys_sbrk_def page_off task_current_def Let_def t(1))
qed

text \<open>\<open>sbrk\<close> grows the heap.  For a positive increment and enough free pages the call returns the old
  end of the heap and moves the end by the increment; exactly the pages the heap did not have before are
  mapped, behind the last one, each to a different frame that nobody used, no other
  address of the task changes its translation, and the memory of everybody else is as before.\<close>

theorem sbrk_grows:
  assumes "vm_ok R (curr_page_dir s) s" "0 < k" "k < 2 ^ 31" "h = tk_heap_end (tasks s (curr_task s))"
    and "2 * new_pages h k \<le> free_count (paddr_alloc s)"
  shows "\<exists>s' ps. sys_sbrk (int k) s = Done h s' \<and> tk_heap_end (tasks s' (curr_task s)) = h + of_nat k \<and>
     length ps = new_pages h k \<and> distinct ps \<and> set ps \<subseteq> pages_of (paddr_alloc s) - used_of (paddr_alloc s) \<and>
     mmu_walk (phys s') (curr_page_dir s) = map_list ps (page_top h) (mmu_walk (phys s) (curr_page_dir s)) \<and>
     same_pages R (phys s) (phys s') \<and> vm_ok (R \<union> set ps) (curr_page_dir s) s'"
proof (cases "left_in_page h < k")
  case True
  let ?sz = "of_nat (k - left_in_page h) :: u32"
  have sz: "unat ?sz = k - left_in_page h" using assms(3) by (simp add: unat_of_nat)
  have perm: "take_bit 12 (PTE_P OR PTE_U OR PTE_W) = PTE_P OR PTE_U OR PTE_W"
    by (simp add: PTE_P_def PTE_W_def PTE_U_def)
  have a: "unat ?sz \<le> 2 ^ 31" "2 * ((unat ?sz + 4095) div 4096) \<le> free_count (paddr_alloc s)"
    using assms(3,5) sz by (simp_all add: new_pages_def)
  from alloc_page_for_refines [OF assms(1) a perm, of "page_top h"] obtain s1 ps where
    r: "memory_alloc_page_for (page_top h) ?sz (PTE_P OR PTE_U OR PTE_W) s = Done 0 s1"
    "length ps = new_pages h k" "distinct ps" "set ps \<subseteq> pages_of (paddr_alloc s) - used_of (paddr_alloc s)"
    "mmu_walk (phys s1) (curr_page_dir s) = map_list ps (page_top h) (mmu_walk (phys s) (curr_page_dir s))"
    "same_pages R (phys s) (phys s1)" "vm_ok (R \<union> set ps) (curr_page_dir s) s1"
    "curr_task s1 = curr_task s" using sz by (auto simp: new_pages_def)
  have "sys_sbrk (int k) s = Done h (set_heap_end (h + of_nat k) s1)"
    using sbrk_new_pages [OF True assms(4)] r(1) by simp
  with r heap_end_set(1) [of "h + of_nat k" s1] show ?thesis
    by (intro exI [of _ "set_heap_end (h + of_nat k) s1"] exI [of _ ps]) simp
next
  case False
  then have o: "unat h mod 4096 \<noteq> 0" "unat h mod 4096 + k \<le> 4096"
    using assms(2) by (auto simp: left_in_page_def page_off split: if_splits)
  have "new_pages h k = 0" using False by (simp add: new_pages_def)
  with sbrk_in_page [OF o assms(2,4)] assms(1) show ?thesis
    by (intro exI [of _ "set_heap_end (h + of_nat k) s"] exI [of _ "[]"]) simp
qed

text \<open>A heap in the middle of a page grows by 5000 bytes and gets one new page.\<close>

theorem sbrk_grows_witness:
  "\<exists>s' p. sys_sbrk 5000 (vm_start 0x80000800) = Done 0x80000800 s' \<and> mmu_walk (phys s') 0x100000 0x80001010 = Some (p + 0x10)"
proof -
  let ?s = "vm_start 0x80000800"
  have d: "curr_page_dir ?s = 0x100000" by (simp add: curr_page_dir_def)
  have n: "new_pages 0x80000800 5000 = 1" "page_top 0x80000800 = 0x80001000"
    by (simp_all add: new_pages_def left_in_page_def page_top_def MEM_PAGE_SIZE_def)
  have "vm_ok {} (curr_page_dir ?s) ?s" "2 * new_pages 0x80000800 5000 \<le> free_count (paddr_alloc ?s)"
    by (simp_all add: d vm_start_ok n pool16_free)
  from sbrk_grows [OF this(1) _ _ _ this(2)] obtain s' ps where
    r: "sys_sbrk 5000 ?s = Done 0x80000800 s'" "length ps = 1"
    "mmu_walk (phys s') 0x100000 = map_list ps 0x80001000 (mmu_walk (phys ?s) 0x100000)" unfolding d n by auto
  then obtain p where "ps = [p]" by (auto simp: length_Suc_conv)
  then have "mmu_walk (phys s') 0x100000 0x80001010 = Some (p + 0x10)"
    using r(3) by (simp add: map_page_def drop_bit_eq_div)
  with r(1) show ?thesis by blast
qed

text \<open>\<open>sbrk\<close> does not report that memory has run out.  When no page is free and the request needs a new
  one, \<open>memory_alloc_for_page_dir\<close> logs the failure and returns 0, which is also its code for success:
  the call returns the old end and moves the end of the heap over addresses that nothing maps.\<close>

theorem sbrk_no_memory:
  assumes "pool_ok (paddr_alloc s)" "mutex_idle Paddr_alloc_mutex s" "free_count (paddr_alloc s) = 0"
    and "left_in_page h < k" "k < 2 ^ 31" "h = tk_heap_end (tasks s (curr_task s))"
  shows "\<exists>s'. sys_sbrk (int k) s = Done h s' \<and> tk_heap_end (tasks s' (curr_task s)) = h + of_nat k \<and> phys s' = phys s"
proof -
  have "used_of (paddr_alloc s) = pages_of (paddr_alloc s)"
    using assms(3) pool.finite_pages [OF assms(1)] pool.used_pages [OF assms(1)] by (auto simp: free_count_def)
  then have "take_page (paddr_alloc s) = Inr (0, paddr_alloc s)" by (rule pool.take_full [OF assms(1)])
  from addr_alloc_idle [OF assms(2) this] have t: "addr_alloc_page 1 s = Done 0 s" by simp
  let ?sz = "of_nat (k - left_in_page h) :: u32"
  have sz: "unat ?sz = k - left_in_page h" "unat ?sz \<le> 2 ^ 31" using assms(5) by (simp_all add: unat_of_nat)
  then obtain n where n: "(unat ?sz + 4095) div 4096 = Suc n"
    using assms(4) by (cases "(unat ?sz + 4095) div 4096") auto
  have "memory_alloc_page_for (page_top h) ?sz (PTE_P OR PTE_U OR PTE_W) s =
      Done 0 (log_line ''mem alloc failed. no memory'' [] s)"
    unfolding memory_alloc_page_for_def memory_alloc_for_page_dir_def Let_def up2_pages [OF sz(2)] n nat_int by (simp add: t)
  then show ?thesis using sbrk_new_pages [OF assms(4,6)] heap_end_set(1) [of _ "log_line ''mem alloc failed. no memory'' [] s"]
    by (simp add: log_line_def)
qed

theorem sbrk_no_memory_witness:
  "\<exists>s'. sys_sbrk 4096 (vm_start 0x80000000\<lparr>paddr_alloc := pool16\<lparr>aa_bitmap := \<lparr>bit_count = 16, bits = [255, 255]\<rparr>\<rparr>\<rparr>) =
     Done 0x80000000 s'"
proof -
  let ?a = "pool16\<lparr>aa_bitmap := \<lparr>bit_count = 16, bits = [255, 255]\<rparr>\<rparr>"
  have ok: "pool_ok ?a" using pool16_ok by (simp add: pool_ok_def pool16_def bitmap_ok_def bitmap_byte_count_def)
  have "filter Not (page_used ?a) = []" by code_simp
  then have "free_count ?a = 0" by (simp add: free_count_eq [OF ok])
  with ok sbrk_no_memory [of "vm_start 0x80000000\<lparr>paddr_alloc := ?a\<rparr>" "0x80000000" 4096] show ?thesis
    by (auto simp: left_in_page_def MEM_PAGE_SIZE_def)
qed

end
