(* ===== verification/Fork_Laws.thy ===== *)
theory Fork_Laws
  imports Address_Space_Laws
begin

text \<open>
  What \<open>memory_create_uvm\<close> and \<open>memory_copy_uvm\<close> promise, the two operations behind \<open>sys_fork\<close> and
  \<open>sys_execve\<close>: a new address space has the kernel's half of the kernel's directory and nothing else, and
  a copied one has, at every address of the parent's half, a frame of its own with the same contents.
\<close>

subsection \<open>Addresses by index\<close>

definition uva :: "nat \<Rightarrow> nat \<Rightarrow> u32" where
  "uva i j = push_bit 22 (of_nat i) OR push_bit 12 (of_nat j)"

lemma of_nat_bit10: "k < 1024 \<Longrightarrow> 10 \<le> n \<Longrightarrow> \<not> bit (of_nat k :: u32) n"
proof -
  assume k: "k < 1024" and n: "10 \<le> n"
  have "take_bit 10 k = k" using k by (simp add: take_bit_nat_eq_self_iff)
  then have "\<not> bit k n" using n by (metis bit_take_bit_iff not_less)
  then show ?thesis by (simp add: bit_of_nat_iff)
qed

lemma uva_indices:
  assumes "i < 1024" "j < 1024"
  shows "pde_index (uva i j) = of_nat i" "pte_index (uva i j) = of_nat j" "take_bit 12 (uva i j) = 0"
proof -
  show "pde_index (uva i j) = of_nat i"
  proof (rule bit_word_eqI)
    fix n assume "n < LENGTH(32)"
    then show "bit (pde_index (uva i j)) n = bit (of_nat i :: u32) n"
      using of_nat_bit10 [OF assms(1), of n] of_nat_bit10 [OF assms(2), of "10 + n"]
      by (cases "n < 10") (auto simp: pde_index_def uva_def bit_simps)
  qed
  show "pte_index (uva i j) = of_nat j"
  proof (rule bit_word_eqI)
    fix n assume "n < LENGTH(32)"
    then show "bit (pte_index (uva i j)) n = bit (of_nat j :: u32) n"
      using of_nat_bit10 [OF assms(2), of n]
      by (cases "n < 10") (auto simp: pte_index_eq uva_def bit_simps)
  qed
  show "take_bit 12 (uva i j) = 0" by (rule bit_word_eqI) (auto simp: uva_def bit_simps)
qed

definition idx :: "u32 \<Rightarrow> nat \<times> nat" where
  "idx va = (unat (pde_index va), unat (pte_index va))"

lemma idx_bounds: "fst (idx va) < 1024" "snd (idx va) < 1024"
  using pde_index_bound pte_index_bound by (simp_all add: idx_def)

lemma idx_uva: "i < 1024 \<Longrightarrow> j < 1024 \<Longrightarrow> idx (uva i j) = (i, j)"
  by (simp add: idx_def uva_indices unat_of_nat)

lemma same_page_idx: "drop_bit 12 va = drop_bit 12 vb \<longleftrightarrow> idx va = idx vb"
  unfolding same_page_index by (simp add: idx_def word_unat_eq_iff)

lemma task_half: "MEMORY_TASK_BASE \<le> va \<longleftrightarrow> 512 \<le> fst (idx va)"
proof -
  have "unat va div 4194304 \<ge> 512 \<longleftrightarrow> unat va \<ge> 2147483648" by (simp add: less_eq_div_iff_mult_less_eq)
  then show ?thesis by (simp add: MEMORY_TASK_BASE_def word_le_nat_alt idx_def pde_index_def drop_bit_eq_div unat_div)
qed

text \<open>An address is the start of its page and an offset.\<close>

lemma page_split: "va = (va AND NOT (mask 12)) + take_bit 12 (va :: u32)"
  by (subst disjunctive_add_eq_or) (auto intro!: bit_word_eqI simp: bit_simps)

lemma offset_add:
  assumes "take_bit 12 p = (0 :: u32)" "k < 4096"
  shows "(p + of_nat k) AND 0xfff = of_nat k" "(p + of_nat k) AND NOT (mask 12) = p" "drop_bit 12 (p + of_nat k) = drop_bit 12 p"
proof -
  show a: "(p + of_nat k) AND NOT (mask 12) = p"
    using region_page [OF assms(1), of "p + of_nat k"] region_nth [OF assms(2)] by blast
  then show "(p + of_nat k) AND 0xfff = of_nat k" using page_split [of "p + of_nat k"] by (simp add: and_fff)
  have "drop_bit 12 x = drop_bit 12 (x AND NOT (mask 12))" for x :: u32
    by (rule bit_word_eqI) (auto simp: bit_simps dest: bit_imp_le_length)
  from this [of "p + of_nat k"] show "drop_bit 12 (p + of_nat k) = drop_bit 12 p" unfolding a .
qed

subsection \<open>Copying one page\<close>

lemma vm_memcpy_loop_eq:
  assumes "k + n = N" "N \<le> 4096" "\<And>x. x \<notin> region d N \<Longrightarrow> m' x = m x"
    and low: "\<And>i. i < N \<Longrightarrow> d + of_nat i < MEMORY_TASK_BASE"
    and src: "\<And>i m'. i < N \<Longrightarrow> (\<And>x. x \<notin> region d N \<Longrightarrow> m' x = m x) \<Longrightarrow> kview m' dir (va + of_nat i) = Some (g i)"
    and out: "\<And>i. i < N \<Longrightarrow> g i \<notin> region d N"
  shows "vm_memcpy_loop n dir (d + of_nat k) (va + of_nat k) m' =
    Inr (put_bytes m' (d + of_nat k) (map (\<lambda>i. m (g i)) [k..<N]))"
  using assms(1,3)
proof (induction n arbitrary: k m')
  case 0
  then show ?case by simp
next
  case (Suc n)
  let ?m = "m'(d + of_nat k := m (g k))"
  have k: "k < N" using Suc.prems(1) by simp
  have m: "?m x = m x" if "x \<notin> region d N" for x
    using that Suc.prems(2) region_nth [OF k, of d] by auto
  have "kview m' dir (d + of_nat k) = Some (d + of_nat k)" using low [OF k] by (simp add: kview_def)
  moreover have "kview m' dir (va + of_nat k) = Some (g k)" by (rule src [OF k Suc.prems(2)])
  moreover have "m' (g k) = m (g k)" by (rule Suc.prems(2) [OF out [OF k]])
  ultimately have "vm_memcpy_loop (Suc n) dir (d + of_nat k) (va + of_nat k) m' =
      vm_memcpy_loop n dir (d + of_nat (Suc k)) (va + of_nat (Suc k)) ?m" by (simp add: add.assoc add.commute [of 1])
  also have "\<dots> = Inr (put_bytes ?m (d + of_nat (Suc k)) (map (\<lambda>i. m (g i)) [Suc k..<N]))"
    by (rule Suc.IH [OF _ m]) (use Suc.prems(1) in simp_all)
  finally show ?case using k by (simp add: upt_conv_Cons add.assoc add.commute [of 1])
qed

text \<open>The parent: its directory, its tables of the task half and its frames are pages of \<open>R\<close>.\<close>

definition parent_ok :: "u32 set \<Rightarrow> mem \<Rightarrow> u32 \<Rightarrow> bool" where
  "parent_ok R m pd \<longleftrightarrow> pd \<in> R \<and> (\<forall>va. MEMORY_TASK_BASE \<le> va \<longrightarrow> bit (pde_of m pd va) 0 \<longrightarrow> table_of m pd va \<in> R) \<and>
     (\<forall>va pa. MEMORY_TASK_BASE \<le> va \<longrightarrow> mmu_walk m pd va = Some pa \<longrightarrow> pa AND NOT (mask 12) \<in> R)"

lemma same_pages_slot:
  assumes "same_pages R m m'" "q \<in> R" "unat i < 1024"
  shows "mem32 m' (slot q i) = mem32 m (slot q i)"
  using assms(1,2) slot_in_page [OF assms(3), of q] by (intro mem32_cong) (auto simp: same_pages_def)

lemma parent_stable:
  assumes "parent_ok R m pd" "same_pages R m m'" "MEMORY_TASK_BASE \<le> va"
  shows "pde_of m' pd va = pde_of m pd va"
    and "bit (pde_of m pd va) 0 \<Longrightarrow> mem32 m' (slot (table_of m pd va) (pte_index vb)) = mem32 m (slot (table_of m pd va) (pte_index vb))"
    and "mmu_walk m' pd va = mmu_walk m pd va"
proof -
  have R: "pd \<in> R" "bit (pde_of m pd va) 0 \<Longrightarrow> table_of m pd va \<in> R" using assms(1,3) by (auto simp: parent_ok_def)
  show pde: "pde_of m' pd va = pde_of m pd va" by (rule same_pages_slot [OF assms(2) R(1) pde_index_bound])
  show pte: "mem32 m' (slot (table_of m pd va) (pte_index vb)) = mem32 m (slot (table_of m pd va) (pte_index vb))"
    if "bit (pde_of m pd va) 0" for vb
    by (rule same_pages_slot [OF assms(2) R(2) [OF that] pte_index_bound])
  show "mmu_walk m' pd va = mmu_walk m pd va" using pte [of va] by (auto simp: mmu_walk_eq pde)
qed

lemma walk_offset:
  assumes "take_bit 12 va = 0" "k < 4096"
  shows "mmu_walk m dir (va + of_nat k) = map_option (\<lambda>pa. pa + of_nat k) (mmu_walk m dir va)"
proof -
  note o = offset_add [OF assms]
  have "pde_index (va + of_nat k) = pde_index va" "pte_index (va + of_nat k) = pte_index va"
    using o(3) same_page_index by blast+
  moreover have "va AND 0xfff = 0" using assms(1) by (simp add: and_fff)
  ultimately show ?thesis using o(1) by (simp add: mmu_walk_eq)
qed

lemma walk_aligned: "take_bit 12 va = 0 \<Longrightarrow> mmu_walk m dir va = Some pa \<Longrightarrow> take_bit 12 pa = 0"
  by (auto simp: mmu_walk_eq and_fff split: if_splits)

lemma same_pages_apart:
  assumes "\<forall>q\<in>R. take_bit 12 q = 0" "take_bit 12 p = 0" "p \<notin> R" "\<And>x. x \<notin> region p 4096 \<Longrightarrow> m' x = m x"
  shows "same_pages R m m'"
  unfolding same_pages_def
proof (intro ballI)
  fix q x assume q: "q \<in> R" and x: "x \<in> region q 4096"
  have "take_bit 12 q = 0" "p \<noteq> q" using q assms(1,3) by auto
  from pages_disjoint [OF assms(2) this] x show "m' x = m x" by (intro assms(4)) auto
qed

lemma idx_offset: "take_bit 12 va = 0 \<Longrightarrow> k < 4096 \<Longrightarrow> idx (va + of_nat k) = idx va"
  using offset_add(3) [of va k] same_page_idx by blast

lemma parent_frame:
  assumes "parent_ok R m pd" "MEMORY_TASK_BASE \<le> va" "take_bit 12 va = 0" "mmu_walk m pd va = Some pa"
  shows "pa \<in> R"
proof -
  have "pa AND NOT (mask 12) \<in> R" using assms by (auto simp: parent_ok_def)
  moreover have "pa AND NOT (mask 12) = pa"
    using region_page [OF walk_aligned [OF assms(3,4)], of pa] region_start [of 4096 pa] by simp
  ultimately show ?thesis by simp
qed

definition page_bytes :: "mem \<Rightarrow> u32 \<Rightarrow> u8 list" where
  "page_bytes m pa = map (\<lambda>k. m (pa + of_nat k)) [0..<4096]"

lemma copy_page:
  assumes par: "parent_ok R m0 pd" "\<forall>q\<in>R. take_bit 12 q = 0" "same_pages R m0 m"
    and p: "take_bit 12 p = 0" "p \<notin> R" "p < MEMORY_TASK_BASE" "p \<noteq> 0"
    and va: "take_bit 12 va = 0" "MEMORY_TASK_BASE \<le> va" "mmu_walk m0 pd va = Some pa"
  shows "vm_memcpy pd p va MEM_PAGE_SIZE m = Inr (put_bytes m p (page_bytes m0 pa))"
proof -
  have pa: "pa \<in> R" "take_bit 12 pa = 0" using parent_frame [OF par(1) va(2,1,3)] par(2) by auto
  have "pa \<noteq> p" using pa(1) p(2) by auto
  note dis = pages_disjoint [OF pa(2) p(1) this]
  have va_k: "MEMORY_TASK_BASE \<le> va + of_nat k" if "k < 4096" for k
    using va(2) idx_offset [OF va(1) that] by (simp add: task_half)
  have "vm_memcpy_loop 4096 pd (p + of_nat 0) (va + of_nat 0) m = Inr (put_bytes m (p + of_nat 0) (map (\<lambda>i. m (pa + of_nat i)) [0..<4096]))"
  proof (rule vm_memcpy_loop_eq)
    fix k :: nat assume k: "k < 4096"
    show "p + of_nat k < MEMORY_TASK_BASE"
      using p(3) idx_offset [OF p(1) k] task_half [of p] task_half [of "p + of_nat k"] by (simp add: not_le [symmetric])
    show "pa + of_nat k \<notin> region p 4096" using region_nth [OF k, of pa] dis by blast
    fix m' assume m': "\<And>x. x \<notin> region p 4096 \<Longrightarrow> m' x = m x"
    have "same_pages R m m'" by (rule same_pages_apart [OF par(2) p(1,2) m'])
    with par(3) have "same_pages R m0 m'" by (rule same_pages_trans)
    from parent_stable(3) [OF par(1) this va_k [OF k]] va(3) walk_offset [OF va(1) k]
    show "kview m' pd (va + of_nat k) = Some (pa + of_nat k)" using leD [OF va_k [OF k]] by (simp add: kview_def)
  qed simp_all
  moreover have "map (\<lambda>i. m (pa + of_nat i)) [0..<4096] = page_bytes m0 pa"
    unfolding page_bytes_def using par(3) pa(1) region_nth [of _ 4096 pa] by (intro map_cong) (auto simp: same_pages_def)
  moreover have "va \<noteq> 0" using va(2) by (auto simp: MEMORY_TASK_BASE_def)
  ultimately show ?thesis using p(4) by (simp add: vm_memcpy_def MEM_PAGE_SIZE_def)
qed

lemma page_bytes_nth: "k < 4096 \<Longrightarrow> put_bytes m p (page_bytes m0 pa) (p + of_nat k) = m0 (pa + of_nat k)"
  using at_bytes_nth [OF put_bytes_at [of "page_bytes m0 pa" m p], of k] by (simp add: page_bytes_def)

lemma page_bytes_other: "x \<notin> region p 4096 \<Longrightarrow> put_bytes m p (page_bytes m0 pa) x = m x"
  by (intro put_bytes_other) (simp add: page_bytes_def)

subsection \<open>The invariant of the copy\<close>

text \<open>\<open>twin\<close>: the child has a frame for the address, a page of \<open>Q\<close> with the byte of the parent, or neither
  has one.\<close>

definition twin :: "u32 set \<Rightarrow> mem \<Rightarrow> u32 \<Rightarrow> mem \<Rightarrow> u32 \<Rightarrow> u32 \<Rightarrow> bool" where
  "twin Q m0 pd m to va =
     (case mmu_walk m0 pd va of
        None \<Rightarrow> mmu_walk m to va = None
      | Some pa \<Rightarrow> (\<exists>pa'. mmu_walk m to va = Some pa' \<and> pa' AND NOT (mask 12) \<in> Q \<and> m pa' = m0 pa))"

text \<open>The pages the parent has mapped.\<close>

definition mapped :: "mem \<Rightarrow> u32 \<Rightarrow> (nat \<times> nat) set" where
  "mapped m pd = {(i, j). 512 \<le> i \<and> i < 1024 \<and> j < 1024 \<and> mmu_walk m pd (uva i j) \<noteq> None}"

text \<open>Between two steps of the loops: the pages \<open>D\<close> are done, \<open>Q\<close> are the frames of the child.\<close>

definition copying :: "u32 set \<Rightarrow> mem \<Rightarrow> u32 \<Rightarrow> u32 \<Rightarrow> u32 set \<Rightarrow> (nat \<times> nat) set \<Rightarrow> u32 set \<Rightarrow> 'a mem_state_scheme \<Rightarrow> bool" where
  "copying R m0 pd to F D Q s \<longleftrightarrow> vm_ok (R \<union> Q) to s \<and> Q \<subseteq> F \<and> F \<inter> R = {} \<and> same_pages R m0 (phys s) \<and> cr3 s = pd \<and>
     pages_of (paddr_alloc s) - used_of (paddr_alloc s) \<subseteq> F \<and>
     2 * card (mapped m0 pd - D) \<le> free_count (paddr_alloc s) \<and>
     (\<forall>va. MEMORY_TASK_BASE \<le> va \<longrightarrow>
        (if idx va \<in> D then twin Q m0 pd (phys s) to va else mmu_walk (phys s) to va = None))"

lemma idx_split:
  assumes "idx va = (i, j)"
  shows "\<exists>k<4096. va = uva i j + of_nat k"
proof -
  have b: "i < 1024" "j < 1024" using idx_bounds [of va] assms by auto
  have "drop_bit 12 va = drop_bit 12 (uva i j)" using assms idx_uva [OF b] by (simp add: same_page_idx)
  moreover have "x AND NOT (mask 12) = push_bit 12 (drop_bit 12 x)" for x :: u32
    using entry_paddr(1) [of x] by (simp add: pde_paddr_def)
  ultimately have "va AND NOT (mask 12) = uva i j AND NOT (mask 12)" by simp
  also have "\<dots> = uva i j" using region_page [OF uva_indices(3) [OF b], of "uva i j"] region_start [of 4096 "uva i j"] by simp
  finally have "va \<in> region (uva i j) 4096" using region_page [OF uva_indices(3) [OF b], of va] by simp
  then show ?thesis by (auto simp: region_def)
qed

lemma idx_walk_None:
  assumes "idx va = (i, j)" "mmu_walk m dir (uva i j) = None"
  shows "mmu_walk m dir va = None"
proof -
  have b: "i < 1024" "j < 1024" using idx_bounds [of va] assms(1) by auto
  from idx_split [OF assms(1)] obtain k where "k < 4096" "va = uva i j + of_nat k" by blast
  with walk_offset [OF uva_indices(3) [OF b]] assms(2) show ?thesis by simp
qed

text \<open>Pages the parent does not have need no work.\<close>

lemma copy_skip:
  assumes "copying R m0 pd to F D Q s" "\<And>i j. (i, j) \<in> E \<Longrightarrow> mmu_walk m0 pd (uva i j) = None"
  shows "copying R m0 pd to F (D \<union> E) Q s"
proof -
  have "mapped m0 pd - (D \<union> E) = mapped m0 pd - D" using assms(2) by (auto simp: mapped_def)
  moreover have "twin Q m0 pd (phys s) to va" if "MEMORY_TASK_BASE \<le> va" "idx va \<in> E" for va
  proof (cases "idx va \<in> D")
    case True
    then show ?thesis using assms(1) that(1) unfolding copying_def by (meson)
  next
    case False
    then have "mmu_walk (phys s) to va = None" using assms(1) that(1) unfolding copying_def by meson
    moreover obtain i j where "idx va = (i, j)" by fastforce
    ultimately show ?thesis using idx_walk_None assms(2) that(2) by (simp add: twin_def)
  qed
  ultimately show ?thesis using assms(1) unfolding copying_def by auto
qed

lemma finite_mapped [simp]: "finite (mapped m pd)"
  by (rule finite_subset [of _ "{512..<1024} \<times> {..<1024}"]) (auto simp: mapped_def)

lemma twin_mono:
  assumes "twin Q m0 pd m to va" "mmu_walk m' to va = mmu_walk m to va" "Q \<subseteq> Q'" "same_pages Q m m'"
  shows "twin Q' m0 pd m' to va"
proof (cases "mmu_walk m0 pd va")
  case None
  then show ?thesis using assms by (simp add: twin_def)
next
  case (Some pa)
  then obtain pa' where p: "mmu_walk m to va = Some pa'" "pa' AND NOT (mask 12) \<in> Q" "m pa' = m0 pa"
    using assms(1) by (auto simp: twin_def)
  have "pa' \<in> region (pa' AND NOT (mask 12)) 4096"
    using region_page [of "pa' AND NOT (mask 12)" pa'] by (simp add: entry_paddr [symmetric])
  then have "m' pa' = m pa'" using assms(4) p(2) by (auto simp: same_pages_def)
  then show ?thesis using Some p assms(2,3) by (auto simp: twin_def)
qed

text \<open>A new frame with the bytes of the parent's.\<close>

lemma twin_new_page:
  assumes old: "if idx va \<in> D then twin Q m0 pd m to va else mmu_walk m to va = None"
    and ij: "i < 1024" "j < 1024" "mmu_walk m0 pd (uva i j) = Some pa" and p: "take_bit 12 p = 0"
    and w: "mmu_walk m' to = map_page (uva i j) p (mmu_walk m to)"
    and bytes: "\<And>k. k < 4096 \<Longrightarrow> m' (p + of_nat k) = m0 (pa + of_nat k)" and sp: "same_pages Q m m'"
  shows "if idx va \<in> insert (i, j) D then twin (insert p Q) m0 pd m' to va else mmu_walk m' to va = None"
proof (cases "idx va = (i, j)")
  case True
  note va = uva_indices(3) [OF ij(1,2)] idx_uva [OF ij(1,2)]
  from True obtain k where k: "k < 4096" "va = uva i j + of_nat k" using idx_split by blast
  have "mmu_walk m' to va = Some (p + of_nat k)"
    using True va(2) offset_add(1) [OF va(1) k(1)] k(2) unfolding w by (simp add: map_page_def same_page_idx)
  then show ?thesis using True k offset_add(2) [OF p k(1)] bytes [OF k(1)] ij(3) walk_offset [OF va(1) k(1), of m0 pd]
    by (simp add: twin_def)
next
  case False
  then have "mmu_walk m' to va = mmu_walk m to va" unfolding w by (simp add: map_page_def same_page_idx idx_uva [OF ij(1,2)])
  with False old twin_mono [OF _ this subset_insertI sp] show ?thesis by auto
qed

text \<open>One page of the parent: allocate, map, copy.\<close>

lemma copy_step:
  assumes c: "copying R m0 pd to F D Q s" and par: "parent_ok R m0 pd"
    and ij: "512 \<le> i" "i < 1024" "j < 1024" "(i, j) \<notin> D" "mmu_walk m0 pd (uva i j) = Some pa"
    and perm: "take_bit 12 perm = perm"
  shows "\<exists>p a s2 m3. addr_alloc_page 1 s = Done p (s\<lparr>paddr_alloc := a\<rparr>) \<and> p \<noteq> 0 \<and>
     memory_create_map to (uva i j) p 1 perm (s\<lparr>paddr_alloc := a\<rparr>) = Done 0 s2 \<and>
     vm_memcpy (cr3 s2) p (uva i j) MEM_PAGE_SIZE (phys s2) = Inr m3 \<and>
     copying R m0 pd to F (insert (i, j) D) (insert p Q) (s2\<lparr>phys := m3\<rparr>)"
proof -
  let ?va = "uva i j" and ?RQ = "R \<union> Q"
  have c': "vm_ok ?RQ to s" "Q \<subseteq> F" "F \<inter> R = {}" "same_pages R m0 (phys s)" "cr3 s = pd"
    "pages_of (paddr_alloc s) - used_of (paddr_alloc s) \<subseteq> F" "2 * card (mapped m0 pd - D) \<le> free_count (paddr_alloc s)"
    using c unfolding copying_def by blast+
  have old: "if idx va \<in> D then twin Q m0 pd (phys s) to va else mmu_walk (phys s) to va = None"
    if "MEMORY_TASK_BASE \<le> va" for va using c that unfolding copying_def by blast
  have mem: "(i, j) \<in> mapped m0 pd - D" using ij by (simp add: mapped_def)
  note va = uva_indices [OF ij(2,3)] idx_uva [OF ij(2,3)]
  have vb: "MEMORY_TASK_BASE \<le> ?va" using ij(1) va(4) by (simp add: task_half)
  have card: "card (mapped m0 pd - D) = Suc (card (mapped m0 pd - insert (i, j) D))"
    using card.remove [OF _ mem] by (simp add: Diff_insert [symmetric])
  from fresh_page [OF c'(1)] c'(7) card obtain p a where
    p: "addr_alloc_page 1 s = Done p (s\<lparr>paddr_alloc := a\<rparr>)" "vm_ok (insert p ?RQ) to (s\<lparr>paddr_alloc := a\<rparr>)"
    "p \<in> pages_of (paddr_alloc s) - used_of (paddr_alloc s)" "p \<noteq> 0" "take_bit 12 p = 0"
    "pages_of a = pages_of (paddr_alloc s)" "used_of a = insert p (used_of (paddr_alloc s))"
    "free_count (paddr_alloc s) = Suc (free_count a)" by auto
  have "room to ?va (s\<lparr>paddr_alloc := a\<rparr>)"
    using p(2,8) c'(7) card by (intro room_free) (auto simp: vm_ok_def)
  from map_step [OF p(2) this p(5) perm, of 0] obtain s2 where
    s2: "memory_create_map to ?va p 1 perm (s\<lparr>paddr_alloc := a\<rparr>) = Done 0 s2" "vm_ok (insert p ?RQ) to s2"
    "mmu_walk (phys s2) to = map_page ?va p (mmu_walk (phys s) to)" "same_pages (insert p ?RQ) (phys s) (phys s2)"
    "free_count a \<le> Suc (free_count (paddr_alloc s2))" "pages_of (paddr_alloc s2) = pages_of a"
    "used_of a \<subseteq> used_of (paddr_alloc s2)" "cr3 s2 = pd" using c'(5) by (auto simp: memory_create_map_def)
  have sub: "?RQ \<subseteq> used_of (paddr_alloc s)" and ok: "pool_ok (paddr_alloc s)" using c'(1) by (auto simp: vm_ok_def)
  have al: "\<forall>q\<in>?RQ. take_bit 12 q = 0" using sub used_page [OF ok] by blast
  have pR: "p \<notin> ?RQ" "p \<in> F" using p(3) sub c'(6) by auto
  have sp2: "same_pages R m0 (phys s2)"
    using c'(4) same_pages_mono [OF s2(4), of R] same_pages_trans by blast
  have "p < MEMORY_TASK_BASE" using p(3) page_addr_facts(2) [OF ok] by (auto simp: pages_of_def)
  from copy_page [OF par _ sp2 p(5) _ this p(4) va(3) vb ij(5)] al pR
  have cp: "vm_memcpy (cr3 s2) p ?va MEM_PAGE_SIZE (phys s2) = Inr (put_bytes (phys s2) p (page_bytes m0 pa))"
    using s2(8) by simp
  let ?m = "put_bytes (phys s2) p (page_bytes m0 pa)"
  have w: "vm_ok (insert p ?RQ) to (s2\<lparr>phys := ?m\<rparr>)" "mmu_walk ?m to = map_page ?va p (mmu_walk (phys s) to)"
    using write_reserved [OF s2(2), of p ?m] page_bytes_other s2(3) by simp_all
  have sp3: "same_pages ?RQ (phys s2) ?m"
    using pR(1) page_bytes_other by (intro same_pages_apart [OF al p(5)]) auto
  have spQ: "same_pages Q (phys s) ?m"
    by (rule same_pages_trans [OF same_pages_mono [OF s2(4)] same_pages_mono [OF sp3]]) auto
  have all: "if idx va \<in> insert (i, j) D then twin (insert p Q) m0 pd ?m to va else mmu_walk ?m to va = None"
    if b: "MEMORY_TASK_BASE \<le> va" for va
    by (rule twin_new_page [OF old [OF b] ij(2,3,5) p(5) w(2) page_bytes_nth spQ])
  have "same_pages R m0 ?m" using sp2 same_pages_mono [OF sp3, of R] same_pages_trans by blast
  then have "copying R m0 pd to F (insert (i, j) D) (insert p Q) (s2\<lparr>phys := ?m\<rparr>)"
    unfolding copying_def using w(1) c'(2,3,6,7) pR(2) s2(5-8) p(6-8) card all by auto
  with p(1,4) s2(1) cp show ?thesis by blast
qed

subsection \<open>The loops\<close>

lemma slot_next: "slot t (of_nat k) + 4 = slot t (of_nat (Suc k))"
  by (simp add: slot_def algebra_simps)

lemma perm_small: "take_bit 12 (get_pte_perm v) = get_pte_perm v"
proof -
  have "get_pte_perm v = take_bit 9 v" by (simp add: get_pte_perm_def take_bit_eq_mask mask_eq_exp_minus_1)
  then show ?thesis by simp
qed

lemma copy_ptes_done:
  assumes par: "parent_ok R m0 pd" and i: "512 \<le> i" "i < 1024" "bit (pde_of m0 pd (uva i 0)) 0"
    and "copying R m0 pd to F D Q s" "k + n = 1024" "D \<inter> {i} \<times> {k..<1024} = {}"
  shows "\<exists>s' Q'. copy_ptes n i to (slot (table_of m0 pd (uva i 0)) (of_nat k)) s = Done True s' \<and>
     copying R m0 pd to F (D \<union> {i} \<times> {k..<1024}) Q' s'"
  using assms(5-)
proof (induction n arbitrary: D Q s k)
  case 0
  then show ?case by auto
next
  case (Suc n)
  let ?t = "table_of m0 pd (uva i 0)"
  have k: "k < 1024" "PTE_CNT - Suc n = k" "Suc k + n = 1024" using Suc.prems(2) by (auto simp: PTE_CNT_def)
  have row: "D \<union> {i} \<times> {k..<1024} = insert (i, k) D \<union> {i} \<times> {Suc k..<1024}" using k(1) by force
  have rest: "insert (i, k) D \<inter> {i} \<times> {Suc k..<1024} = {}" using Suc.prems(3) by auto
  have b: "MEMORY_TASK_BASE \<le> uva i 0" using i idx_uva [of i 0] by (simp add: task_half)
  have sp: "same_pages R m0 (phys s)" using Suc.prems(1) by (simp add: copying_def)
  have pte: "mem32 (phys s) (slot ?t (of_nat k)) = mem32 m0 (slot ?t (of_nat k))"
    using parent_stable(2) [OF par sp b i(3), of "uva i k"] uva_indices(2) [OF i(2) k(1)] by simp
  have "pde_index (uva i k) = pde_index (uva i 0)" using uva_indices(1) [OF i(2)] k(1) by simp
  then have walk: "mmu_walk m0 pd (uva i k) =
      (if bit (mem32 m0 (slot ?t (of_nat k))) 0 then Some (pte_paddr (mem32 m0 (slot ?t (of_nat k))) + (uva i k AND 0xfff)) else None)"
    using i(3) uva_indices(2) [OF i(2) k(1)] by (simp add: mmu_walk_eq)
  show ?case
  proof (cases "bit (mem32 m0 (slot ?t (of_nat k))) 0")
    case False
    then have "copying R m0 pd to F (insert (i, k) D) Q s"
      using copy_skip [OF Suc.prems(1), of "{(i, k)}"] walk by simp
    from Suc.IH [OF this k(3) rest] False pte show ?thesis
      unfolding row slot_next [symmetric] by (simp add: pte_present_def)
  next
    case True
    then obtain pa where pa: "mmu_walk m0 pd (uva i k) = Some pa" using walk by auto
    have nD: "(i, k) \<notin> D" using Suc.prems(3) k(1) by auto
    obtain p a s2 m3 where st: "addr_alloc_page 1 s = Done p (s\<lparr>paddr_alloc := a\<rparr>)" "p \<noteq> 0"
      "memory_create_map to (uva i k) p 1 (get_pte_perm (mem32 (phys s) (slot ?t (of_nat k)))) (s\<lparr>paddr_alloc := a\<rparr>) = Done 0 s2"
      "vm_memcpy (cr3 s2) p (uva i k) MEM_PAGE_SIZE (phys s2) = Inr m3"
      "copying R m0 pd to F (insert (i, k) D) (insert p Q) (s2\<lparr>phys := m3\<rparr>)"
      using copy_step [OF Suc.prems(1) par i(1,2) k(1) nD pa perm_small] by blast
    from Suc.IH [OF st(5) k(3) rest] True pte st(1-4) k(2) show ?thesis
      unfolding row slot_next [symmetric] uva_def by (simp add: pte_present_def Let_def)
  qed
qed

text \<open>The rows of the page directory.\<close>

lemma copy_tables_done:
  assumes par: "parent_ok R m0 pd"
    and "copying R m0 pd to F D Q s" "512 \<le> k" "k + n = 1024" "D \<inter> {k..<1024} \<times> {..<1024} = {}"
  shows "\<exists>s' Q'. copy_tables n to (slot pd (of_nat k)) s = Done True s' \<and>
     copying R m0 pd to F (D \<union> {k..<1024} \<times> {..<1024}) Q' s'"
  using assms(2-)
proof (induction n arbitrary: D Q s k)
  case 0
  then show ?case by auto
next
  case (Suc n)
  have k: "k < 1024" "PDE_CNT - Suc n = k" "Suc k + n = 1024" using Suc.prems(3) by (auto simp: PDE_CNT_def)
  have rows: "D \<union> {k..<1024} \<times> {..<1024} = (D \<union> {k} \<times> {0..<1024}) \<union> {Suc k..<1024} \<times> {..<1024}" using k(1) by force
  have rest: "(D \<union> {k} \<times> {0..<1024}) \<inter> {Suc k..<1024} \<times> {..<1024} = {}" and D0: "D \<inter> {k} \<times> {0..<1024} = {}"
    using Suc.prems(4) k(1) by force+
  have b: "MEMORY_TASK_BASE \<le> uva k j" if "j < 1024" for j
    using Suc.prems(2) k(1) idx_uva [OF k(1) that] by (simp add: task_half)
  have pde: "pde_index (uva k j) = of_nat k" if "j < 1024" for j using uva_indices(1) [OF k(1) that] .
  have sp: "same_pages R m0 (phys s)" using Suc.prems(1) by (simp add: copying_def)
  have e: "mem32 (phys s) (slot pd (of_nat k)) = pde_of m0 pd (uva k 0)"
    using parent_stable(1) [OF par sp b [of 0]] pde [of 0] by simp
  show ?case
  proof (cases "bit (pde_of m0 pd (uva k 0)) 0")
    case False
    then have "mmu_walk m0 pd (uva k j) = None" if "j < 1024" for j using pde [of 0] pde [OF that] by (simp add: mmu_walk_eq)
    then have "copying R m0 pd to F (D \<union> {k} \<times> {0..<1024}) Q s" by (intro copy_skip [OF Suc.prems(1)]) auto
    from Suc.IH [OF this _ k(3) rest] Suc.prems(2) False e show ?thesis
      unfolding rows slot_next [symmetric] by (simp add: pde_present_def)
  next
    case True
    obtain s1 Q1 where 1: "copy_ptes 1024 k to (slot (table_of m0 pd (uva k 0)) (of_nat 0)) s = Done True s1"
      "copying R m0 pd to F (D \<union> {k} \<times> {0..<1024}) Q1 s1"
      using copy_ptes_done [OF par Suc.prems(2) k(1) True Suc.prems(1) _ D0] by auto
    from Suc.IH [OF 1(2) _ k(3) rest] Suc.prems(2) True e 1(1) k(2) show ?thesis
      unfolding rows slot_next [symmetric] by (simp add: pde_present_def PTE_CNT_def slot_def)
  qed
qed

subsection \<open>A new address space\<close>

text \<open>The kernel's directory lies outside the pool; its tables for the kernel half are different pages in
  use, none of them in \<open>R\<close>.\<close>

definition kernel_ok :: "u32 set \<Rightarrow> u32 \<Rightarrow> 'a mem_state_scheme \<Rightarrow> bool" where
  "kernel_ok R kd s \<longleftrightarrow> take_bit 12 kd = 0 \<and> kd \<notin> pages_of (paddr_alloc s) \<and>
     (\<forall>va. va < MEMORY_TASK_BASE \<longrightarrow> bit (pde_of (phys s) kd va) 0 \<longrightarrow>
        table_of (phys s) kd va \<in> used_of (paddr_alloc s) - R) \<and>
     (\<forall>va vb. va < MEMORY_TASK_BASE \<longrightarrow> vb < MEMORY_TASK_BASE \<longrightarrow> bit (pde_of (phys s) kd va) 0 \<longrightarrow>
        bit (pde_of (phys s) kd vb) 0 \<longrightarrow> table_of (phys s) kd va = table_of (phys s) kd vb \<longrightarrow> pde_index va = pde_index vb)"

lemma copy_pdes_out:
  "k + n \<le> 1024 \<Longrightarrow> x \<notin> region t 4096 \<Longrightarrow> copy_pdes n (slot f (of_nat k)) (slot t (of_nat k)) m x = m x"
proof (induction n arbitrary: k m)
  case (Suc n)
  then have "unat (of_nat k :: u32) < 1024" by (simp add: unat_of_nat)
  from put_slot_inside [OF this Suc.prems(2)] Suc.IH [of "Suc k"] Suc.prems show ?case
    unfolding copy_pdes.simps(2) slot_next by simp
qed simp

lemma copy_pdes_eq:
  assumes "take_bit 12 f = 0" "take_bit 12 t = 0" "f \<noteq> t" "unat j < 1024" "k + n \<le> 1024"
  shows "mem32 (copy_pdes n (slot f (of_nat k)) (slot t (of_nat k)) m) (slot t j) =
       (if k \<le> unat j \<and> unat j < k + n then mem32 m (slot f j) else mem32 m (slot t j))"
  using assms(5)
proof (induction n arbitrary: k m)
  case (Suc n)
  let ?m = "put32 m (slot t (of_nat k)) (mem32 m (slot f (of_nat k)))"
  have k: "unat (of_nat k :: u32) = k" "k < 1024" "Suc k + n \<le> 1024" using Suc.prems by (simp_all add: unat_of_nat)
  then have kb: "unat (of_nat k :: u32) < 1024" by simp
  have step: "copy_pdes (Suc n) (slot f (of_nat k)) (slot t (of_nat k)) m = copy_pdes n (slot f (of_nat (Suc k))) (slot t (of_nat (Suc k))) ?m"
    unfolding copy_pdes.simps(2) slot_next ..
  have f: "mem32 ?m (slot f j) = mem32 m (slot f j)"
    by (rule slot_other_page [OF assms(2,1) assms(3) [symmetric] assms(4) put_slot_inside [OF kb]])
  show ?case
  proof (cases "j = of_nat k")
    case True
    then show ?thesis unfolding step Suc.IH [OF k(3)] using k by simp
  next
    case False
    then have "unat j \<noteq> k" using k(1) by (metis word_unat_eq_iff)
    moreover have "mem32 ?m (slot t j) = mem32 m (slot t j)"
      using False by (intro mem32_put32_other slot_disjoint [OF kb assms(4)]) simp
    ultimately show ?thesis unfolding step Suc.IH [OF k(3)] f by auto
  qed
qed auto

lemma create_uvm_eq:
  assumes po: "pool_ok (paddr_alloc s)" "mutex_idle Paddr_alloc_mutex s" "0 < free_count (paddr_alloc s)" "R \<subseteq> used_of (paddr_alloc s)"
    and kd: "kernel_ok R (lk_kernel_page_dir lk) s"
  shows "\<exists>p a m. memory_create_uvm lk s = Done p (s\<lparr>paddr_alloc := a, phys := m\<rparr>) \<and> p \<noteq> 0 \<and>
     p \<in> pages_of (paddr_alloc s) - used_of (paddr_alloc s) \<and> vm_ok R p (s\<lparr>paddr_alloc := a, phys := m\<rparr>) \<and>
     (\<forall>va. mmu_walk m p va = (if va < MEMORY_TASK_BASE then mmu_walk (phys s) (lk_kernel_page_dir lk) va else None)) \<and>
     (\<forall>x. x \<notin> region p 4096 \<longrightarrow> m x = phys s x) \<and> take_bit 12 p = 0 \<and>
     pages_of a = pages_of (paddr_alloc s) \<and> used_of a = insert p (used_of (paddr_alloc s)) \<and>
     free_count (paddr_alloc s) = Suc (free_count a) \<and>
     (\<forall>va. MEMORY_TASK_BASE \<le> va \<longrightarrow> \<not> bit (pde_of m p va) 0)"
proof -
  let ?kd = "lk_kernel_page_dir lk" and ?m0 = "phys s"
  from po(1,3) obtain p a where t: "take_page (paddr_alloc s) = Inr (p, a)" "pool_ok a"
    "p \<in> pages_of (paddr_alloc s) - used_of (paddr_alloc s)" and p: "p \<noteq> 0" "take_bit 12 p = 0"
    and ta: "pages_of a = pages_of (paddr_alloc s)" "used_of a = insert p (used_of (paddr_alloc s))"
      "free_count (paddr_alloc s) = Suc (free_count a)" by (rule take_free)
  have k: "take_bit 12 ?kd = 0" "?kd \<noteq> p" using kd t(3) by (auto simp: kernel_ok_def)
  define m where "m = copy_pdes 512 (slot ?kd (of_nat 0)) (slot p (of_nat 0)) (k_memset p 0 MEM_PAGE_SIZE ?m0)"
  have out: "m x = ?m0 x" if "x \<notin> region p 4096" for x
    unfolding m_def using copy_pdes_out [of 0 512 x p] that zero_page(2) [OF p(1)] by simp
  have pde: "pde_of m p va = (if va < MEMORY_TASK_BASE then pde_of ?m0 ?kd va else 0)" for va
  proof -
    have "mem32 (k_memset p 0 MEM_PAGE_SIZE ?m0) (slot ?kd (pde_index va)) = pde_of ?m0 ?kd va"
      by (rule slot_other_page [OF p(2) k(1) k(2) [symmetric] pde_index_bound zero_page(2) [OF p(1)]])
    moreover have "unat (pde_index va) < 512 \<longleftrightarrow> va < MEMORY_TASK_BASE" using task_half [of va] by (auto simp: idx_def not_le [symmetric])
    ultimately show ?thesis
      unfolding m_def using copy_pdes_eq [OF k(1) p(2) k(2) pde_index_bound, of 0 512 _ va] zero_page_slot [OF p(1) pde_index_bound] by simp
  qed
  have tab: "table_of ?m0 ?kd va \<in> used_of (paddr_alloc s) - R" if "va < MEMORY_TASK_BASE" "bit (pde_of ?m0 ?kd va) 0" for va
    using kd that by (simp add: kernel_ok_def)
  have "p \<notin> R" using t(3) po(4) by auto
  then have "space_ok m p (used_of a - R)" using tab t(3) ta(2) p kd unfolding space_ok_def pde kernel_ok_def by (auto split: if_splits)
  then have vm: "vm_ok R p (s\<lparr>paddr_alloc := a, phys := m\<rparr>)" using t(2) ta(2) po(2,4) by (auto simp: vm_ok_def)
  have walk: "mmu_walk m p va = (if va < MEMORY_TASK_BASE then mmu_walk ?m0 ?kd va else None)" for va
  proof (cases "va < MEMORY_TASK_BASE \<and> bit (pde_of ?m0 ?kd va) 0")
    case True
    then have "p \<noteq> table_of ?m0 ?kd va" using tab [of va] t(3) by auto
    from slot_other_page [OF p(2) table_aligned(1) this pte_index_bound out] True show ?thesis by (simp add: mmu_walk_eq pde)
  next
    case False
    then show ?thesis by (auto simp: mmu_walk_eq pde)
  qed
  have "unat (pde_index MEMORY_TASK_BASE) = 512" by (simp add: pde_index_def MEMORY_TASK_BASE_def)
  then have "memory_create_uvm lk s = Done p (s\<lparr>paddr_alloc := a, phys := m\<rparr>)"
    using addr_alloc_idle [OF po(2) t(1)] p(1) by (simp add: memory_create_uvm_def m_def slot_def)
  moreover have "\<forall>va. MEMORY_TASK_BASE \<le> va \<longrightarrow> \<not> bit (pde_of m p va) 0" by (simp add: pde leD)
  ultimately show ?thesis using p vm walk out t ta by blast
qed

text \<open>A new address space is the kernel and nothing else.  While a page is free, \<open>memory_create_uvm\<close> returns
  a page nobody used; through it the processor translates every address of the kernel half exactly as
  through the kernel's directory and no address of the task half, and it writes to no other page.\<close>

theorem create_uvm_kernel_half:
  assumes "pool_ok (paddr_alloc s)" "mutex_idle Paddr_alloc_mutex s" "0 < free_count (paddr_alloc s)"
    and "kernel_ok {} (lk_kernel_page_dir lk) s"
  shows "\<exists>p s'. memory_create_uvm lk s = Done p s' \<and> p \<in> pages_of (paddr_alloc s) - used_of (paddr_alloc s) \<and>
     used_of (paddr_alloc s') = insert p (used_of (paddr_alloc s)) \<and> vm_ok {} p s' \<and>
     (\<forall>va. mmu_walk (phys s') p va = (if va < MEMORY_TASK_BASE then mmu_walk (phys s) (lk_kernel_page_dir lk) va else None)) \<and>
     (\<forall>x. x \<notin> region p 4096 \<longrightarrow> phys s' x = phys s x)"
proof -
  from create_uvm_eq [OF assms(1-3) _ assms(4)] obtain p a m where
    "memory_create_uvm lk s = Done p (s\<lparr>paddr_alloc := a, phys := m\<rparr>)" "p \<in> pages_of (paddr_alloc s) - used_of (paddr_alloc s)"
    "vm_ok {} p (s\<lparr>paddr_alloc := a, phys := m\<rparr>)" "used_of a = insert p (used_of (paddr_alloc s))"
    "\<forall>va. mmu_walk m p va = (if va < MEMORY_TASK_BASE then mmu_walk (phys s) (lk_kernel_page_dir lk) va else None)"
    "\<forall>x. x \<notin> region p 4096 \<longrightarrow> m x = phys s x" by auto
  then show ?thesis by (intro exI [of _ p] exI [of _ "s\<lparr>paddr_alloc := a, phys := m\<rparr>"]) simp
qed

subsection \<open>Copying an address space\<close>

lemma copy_uvm_twin:
  assumes "pool_ok (paddr_alloc s)" "mutex_idle Paddr_alloc_mutex s" "R \<subseteq> used_of (paddr_alloc s)"
    and "kernel_ok R (lk_kernel_page_dir lk) s" "parent_ok R (phys s) pd" "cr3 s = pd"
    and "2 * card (mapped (phys s) pd) < free_count (paddr_alloc s)"
  shows "\<exists>to s'. memory_copy_uvm lk pd s = Done to s' \<and> to \<noteq> pd \<and> same_pages R (phys s) (phys s') \<and>
     (\<forall>va. MEMORY_TASK_BASE \<le> va \<longrightarrow>
        twin (pages_of (paddr_alloc s) - used_of (paddr_alloc s)) (phys s) pd (phys s') to va)"
proof -
  let ?F = "pages_of (paddr_alloc s) - used_of (paddr_alloc s)" and ?all = "{512..<1024} \<times> {..<1024}"
  from create_uvm_eq [OF assms(1,2) _ assms(3,4)] assms(7) obtain to a m where
    u: "memory_create_uvm lk s = Done to (s\<lparr>paddr_alloc := a, phys := m\<rparr>)" "to \<noteq> 0" "to \<in> ?F"
    "vm_ok R to (s\<lparr>paddr_alloc := a, phys := m\<rparr>)" "\<And>x. x \<notin> region to 4096 \<Longrightarrow> m x = phys s x" "take_bit 12 to = 0"
    "\<And>va. mmu_walk m to va = (if va < MEMORY_TASK_BASE then mmu_walk (phys s) (lk_kernel_page_dir lk) va else None)"
    "pages_of a = pages_of (paddr_alloc s)" "used_of a = insert to (used_of (paddr_alloc s))"
    "free_count (paddr_alloc s) = Suc (free_count a)" by auto
  let ?s = "s\<lparr>paddr_alloc := a, phys := m\<rparr>"
  have tR: "to \<notin> R" "pd \<in> R" using u(3) assms(3,5) by (auto simp: parent_ok_def)
  have sp: "same_pages R (phys s) m" by (rule same_pages_in_page [OF assms(1,3) u(6) tR(1) u(5)])
  have "copying R (phys s) pd to ?F {} {} ?s"
    unfolding copying_def using u sp assms(3,6,7) by (auto simp: not_less [symmetric])
  from copy_tables_done [OF assms(5) this, of 512 512] obtain s' Q where
    r: "copy_tables 512 to (slot pd (of_nat 512)) ?s = Done True s'" "copying R (phys s) pd to ?F ?all Q s'" by auto
  have "unat (pde_index MEMORY_TASK_BASE) = 512" by (simp add: pde_index_def MEMORY_TASK_BASE_def)
  then have "memory_copy_uvm lk pd s = Done to s'"
    using u(1,2) r(1) by (simp add: memory_copy_uvm_def PDE_CNT_def slot_def)
  moreover have "twin ?F (phys s) pd (phys s') to va" if "MEMORY_TASK_BASE \<le> va" for va
  proof -
    have "idx va \<in> ?all" using that idx_bounds [of va] task_half [of va] by (cases "idx va") auto
    then have "twin Q (phys s) pd (phys s') to va" "Q \<subseteq> ?F" using r(2) that unfolding copying_def by (meson, blast)
    then show ?thesis by (auto simp: twin_def split: option.splits)
  qed
  ultimately show ?thesis using tR r(2) by (intro exI [of _ to] exI [of _ s']) (auto simp: copying_def)
qed

text \<open>C7: the copy of an address space is equal and separate.  Let the current task run in the directory \<open>pd\<close>,
  its pages \<open>R\<close> in use, and let there be a free page for the new directory and two for each page of the
  task.  Then \<open>memory_copy_uvm\<close> succeeds.  In the new address space exactly the same addresses of the task
  half are mapped, each to a frame that nobody used before, with the byte of the parent, and no
  page of the parent has changed.\<close>

theorem copy_uvm_separate:
  assumes "pool_ok (paddr_alloc s)" "mutex_idle Paddr_alloc_mutex s" "R \<subseteq> used_of (paddr_alloc s)"
    and "kernel_ok R (lk_kernel_page_dir lk) s" "parent_ok R (phys s) pd" "cr3 s = pd"
    and "2 * card (mapped (phys s) pd) < free_count (paddr_alloc s)"
  shows "\<exists>to s'. memory_copy_uvm lk pd s = Done to s' \<and> to \<noteq> pd \<and> same_pages R (phys s) (phys s') \<and>
     (\<forall>va. MEMORY_TASK_BASE \<le> va \<longrightarrow>
        twin (pages_of (paddr_alloc s) - used_of (paddr_alloc s)) (phys s) pd (phys s') to va)"
  using assms by (rule copy_uvm_twin)

subsection \<open>A sample parent\<close>

text \<open>One page, at 0x80000000: the directory, the table and the frame are the first three pages of the pool.\<close>

definition fork_mem :: mem where
  "fork_mem = put32 (put32 (\<lambda>_. 0) (slot 0x100000 512) 0x101007) (slot 0x101000 0) 0x102007"

definition fork_pool :: addr_alloc_t where
  "fork_pool = pool16\<lparr>aa_bitmap := \<lparr>bit_count = 16, bits = [7, 0]\<rparr>\<rparr>"

definition fork_start :: mem_state where
  "fork_start = vm_start 0\<lparr>phys := fork_mem, paddr_alloc := fork_pool, cr3 := 0x100000\<rparr>"

abbreviation parent_pages :: "u32 set" where
  "parent_pages \<equiv> {0x100000, 0x101000, 0x102000}"

lemma fork_start_sel [simp]:
  "phys fork_start = fork_mem" "paddr_alloc fork_start = fork_pool" "cr3 fork_start = 0x100000" "mutex_idle m fork_start"
proof -
  show "mutex_idle m fork_start" using vm_start_sel(6) [of m 0] by (simp add: mutex_idle_def fork_start_def)
qed (simp_all add: fork_start_def)

lemma fork_pool_used: "page_used fork_pool = True # True # True # replicate 13 False"
  by code_simp

lemma fork_pool_ok: "pool_ok fork_pool"
  by (simp add: pool_ok_def fork_pool_def pool16_def bitmap_ok_def bitmap_byte_count_def MEM_PAGE_SIZE_def)

lemma fork_pool_free: "free_count fork_pool = 13"
  by (simp add: free_count_eq [OF fork_pool_ok] fork_pool_used)

lemma fork_pool_addr: "page_addr fork_pool i = 0x100000 + of_nat i * 4096"
  by (simp add: page_addr_def fork_pool_def pool16_def MEM_PAGE_SIZE_def)

lemma fork_pool_pages: "parent_pages \<subseteq> used_of fork_pool"
  using page_addr_in_used [OF fork_pool_ok, of 0] page_addr_in_used [OF fork_pool_ok, of 1]
    page_addr_in_used [OF fork_pool_ok, of 2] by (simp add: fork_pool_used fork_pool_addr)

lemma mem32_zero [simp]: "mem32 (\<lambda>_. 0) p = 0"
  by (simp add: mem32_def)

lemma fork_slots:
  assumes "unat i < 1024"
  shows "mem32 fork_mem (slot 0x100000 i) = (if i = 512 then 0x101007 else 0)"
    and "mem32 fork_mem (slot 0x101000 i) = (if i = 0 then 0x102007 else 0)"
    and "mem32 fork_mem (slot 0 i) = 0"
proof -
  let ?m = "put32 (\<lambda>_. 0) (slot 0x100000 512) 0x101007"
  have b: "unat (512 :: u32) < 1024" "unat (0 :: u32) < 1024" by simp_all
  have m: "mem32 ?m (slot q i) = 0" if "take_bit 12 q = 0" "q \<noteq> 0x100000" for q
    using slot_other_page [OF _ that(1) _ assms put_slot_inside [OF b(1)], of "0x100000"] that(2) by simp
  have 1: "mem32 fork_mem (slot q i) = mem32 ?m (slot q i)" if "take_bit 12 q = 0" "q \<noteq> 0x101000" for q
    unfolding fork_mem_def using slot_other_page [OF _ that(1) _ assms put_slot_inside [OF b(2)], of "0x101000"] that(2) by simp
  have s: "mem32 (put32 m (slot q j) v) (slot q i) = (if i = j then v else mem32 m (slot q i))" if "unat j < 1024" for m q j v
    using mem32_put32_other [OF slot_disjoint [OF that assms]] by auto
  show "mem32 fork_mem (slot 0x100000 i) = (if i = 512 then 0x101007 else 0)" using 1 [of "0x100000"] s [OF b(1)] by simp
  show "mem32 fork_mem (slot 0x101000 i) = (if i = 0 then 0x102007 else 0)"
    unfolding fork_mem_def using s [OF b(2)] m [of "0x101000"] by simp
  show "mem32 fork_mem (slot 0 i) = 0" using 1 [of 0] m [of 0] by simp
qed

lemma fork_walk: "mmu_walk fork_mem 0x100000 va = (if idx va = (512, 0) then Some (0x102000 + (va AND 0xfff)) else None)"
proof -
  have "idx va = (512, 0) \<longleftrightarrow> pde_index va = 512 \<and> pte_index va = 0" by (auto simp: idx_def word_unat_eq_iff)
  then show ?thesis
    by (simp add: mmu_walk_eq fork_slots [OF pde_index_bound] fork_slots [OF pte_index_bound] fork_slots [of 512] fork_slots [of 0]
        pde_paddr_def pte_paddr_def)
qed

lemma fork_parent_ok: "parent_ok parent_pages fork_mem 0x100000"
proof -
  have "pa \<in> parent_pages" if "mmu_walk fork_mem 0x100000 va = Some pa'" "pa = pa' AND NOT (mask 12)" for va pa pa'
  proof -
    have "pa' = 0x102000 + of_nat (unat (va AND 0xfff))" using that(1) by (auto simp: fork_walk split: if_splits)
    moreover have "unat (va AND 0xfff) < 4096"
      by (simp add: and_fff unsigned_take_bit_eq take_bit_nat_less_exp [of 12, simplified])
    ultimately show ?thesis using that(2) offset_add(2) [of "0x102000" "unat (va AND 0xfff)"] by simp
  qed
  then show ?thesis
    by (auto simp: parent_ok_def fork_slots [OF pde_index_bound] pde_paddr_def split: if_splits)
qed

lemma fork_mapped: "mapped fork_mem 0x100000 = {(512, 0)}"
  by (auto simp: mapped_def fork_walk idx_uva split: if_splits)

lemma fork_kernel_ok: "kernel_ok parent_pages (lk_kernel_page_dir no_link) fork_start"
proof -
  have "0 \<notin> pages_of fork_pool" by (rule pool.null_page [OF fork_pool_ok])
  then show ?thesis by (simp add: kernel_ok_def no_link_def fork_slots [OF pde_index_bound])
qed

theorem create_uvm_kernel_half_witness:
  "\<exists>p s'. memory_create_uvm no_link (vm_start 0) = Done p s' \<and> mmu_walk (phys s') p 0x80000000 = None"
proof -
  have "kernel_ok {} (lk_kernel_page_dir no_link) (vm_start 0)"
    using pool.null_page [OF pool16_ok] by (simp add: kernel_ok_def no_link_def)
  from create_uvm_kernel_half [OF _ _ _ this] pool16_ok pool16_free show ?thesis by (auto simp: MEMORY_TASK_BASE_def)
qed

text \<open>The child has a page of its own at 0x80000000 with the byte of the parent.\<close>

theorem copy_uvm_separate_witness:
  "\<exists>to s' pa. memory_copy_uvm no_link 0x100000 fork_start = Done to s' \<and> to \<noteq> 0x100000 \<and>
     mmu_walk (phys s') to 0x80000010 = Some pa \<and> phys s' pa = fork_mem 0x102010"
proof -
  have "2 * card (mapped (phys fork_start) 0x100000) < free_count (paddr_alloc fork_start)"
    by (simp add: fork_mapped fork_pool_free)
  from copy_uvm_separate [OF _ _ _ fork_kernel_ok _ _ this] obtain to s' where
    r: "memory_copy_uvm no_link 0x100000 fork_start = Done to s'" "to \<noteq> 0x100000"
    "\<forall>va. MEMORY_TASK_BASE \<le> va \<longrightarrow> twin (pages_of fork_pool - used_of fork_pool) fork_mem 0x100000 (phys s') to va"
    using fork_pool_ok fork_pool_pages fork_parent_ok by auto
  have "idx 0x80000010 = (512, 0)" by (simp add: idx_def pde_index_def pte_index_def)
  then have "mmu_walk fork_mem 0x100000 0x80000010 = Some 0x102010" by (simp add: fork_walk)
  with r(3) [rule_format, of "0x80000010"] r(1,2) show ?thesis by (auto simp: twin_def MEMORY_TASK_BASE_def)
qed

text \<open>The directory of the sample parent is well formed.  Its one page translates, and an address without a table gives 0.\<close>

lemma fork_vm_ok: "vm_ok {0x102000} 0x100000 fork_start"
proof -
  have pde: "pde_of fork_mem 0x100000 va = (if pde_index va = 512 then 0x101007 else 0)" for va
    using fork_slots(1) [OF pde_index_bound] by simp
  have "space_ok fork_mem 0x100000 (used_of fork_pool - {0x102000})"
    unfolding space_ok_def pde using fork_pool_pages by (auto simp: pde_paddr_def split: if_splits)
  then show ?thesis using fork_pool_ok fork_pool_pages by (simp add: vm_ok_def)
qed

theorem get_paddr_is_walk_witness:
  "memory_get_paddr fork_mem 0x100000 0x80000010 = 0x102010 \<and> memory_get_paddr fork_mem 0x100000 0x90000010 = 0"
proof -
  have "idx 0x80000010 = (512, 0)" "idx 0x90000010 = (576, 0)" by (simp_all add: idx_def pde_index_def pte_index_def)
  then have "mmu_walk fork_mem 0x100000 0x80000010 = Some 0x102010" "mmu_walk fork_mem 0x100000 0x90000010 = None"
    by (simp_all add: fork_walk)
  moreover have "pde_index 0x90000010 = (576 :: u32)" by (simp add: pde_index_def)
  then have "\<not> pde_present (pde_of fork_mem 0x100000 0x90000010)" using fork_slots(1) [of 576] by (simp add: pde_present_def)
  moreover note get_paddr_is_walk [OF fork_vm_ok, of "0x80000010"] get_paddr_is_walk [OF fork_vm_ok, of "0x90000010"]
  ultimately show ?thesis by (simp add: pde_ptr_slot)
qed

end
