(* ===== verification/Syscall_Laws.thy ===== *)
theory Syscall_Laws
  imports Syscalls Address_Space_Laws Disk_Laws
begin

text \<open>
  What the system call interface promises: the arguments of a stub of the application library arrive at the
  handler, the result of the handler arrives at the caller, and a number without a handler is refused.
  \<open>sbrk_call\<close> follows one call from the library through the gate to the page tables and back.
\<close>

subsection \<open>The frame\<close>

lemma frame_slot:
  assumes "frame_off f = 4 * i"
  shows "frame_get m fr f = mem32 m (slot fr i)" "frame_put fr f v m = put32 m (slot fr i) v"
  using assms by (simp_all add: frame_get_def frame_put_def slot_def)

lemma frame_get_put_other:
  assumes "frame_off f = 4 * i" "frame_off g = 4 * j" "unat i < 1024" "unat j < 1024" "i \<noteq> j"
  shows "frame_get (frame_put fr f v m) fr g = frame_get m fr g"
  unfolding frame_slot [OF assms(1)] frame_slot [OF assms(2)]
  by (rule mem32_put32_other [OF slot_disjoint [OF assms(3-5)]])

lemma frame_get_put [simp]: "frame_get (frame_put fr f v m) fr f = v"
  by (simp add: frame_get_def frame_put_def)

lemma call_fields:
  "frame_off ''func_id'' = 4 * 15" "frame_off ''arg0'' = 4 * 16" "frame_off ''arg1'' = 4 * 17"
  "frame_off ''arg2'' = 4 * 18" "frame_off ''arg3'' = 4 * 19" "frame_off ''eax'' = 4 * 12"
  by (simp_all add: frame_off_def)

lemmas other_field = frame_get_put_other [OF call_fields(1) call_fields(2)] frame_get_put_other [OF call_fields(1) call_fields(3)]
  frame_get_put_other [OF call_fields(1) call_fields(4)] frame_get_put_other [OF call_fields(1) call_fields(5)]
  frame_get_put_other [OF call_fields(2) call_fields(3)] frame_get_put_other [OF call_fields(2) call_fields(4)]
  frame_get_put_other [OF call_fields(2) call_fields(5)] frame_get_put_other [OF call_fields(3) call_fields(4)]
  frame_get_put_other [OF call_fields(3) call_fields(5)] frame_get_put_other [OF call_fields(4) call_fields(5)]

lemma args_arrive [simp]:
  "frame_get (push_args fr args m) fr ''func_id'' = sa_id args" "frame_get (push_args fr args m) fr ''arg0'' = sa_arg0 args"
  "frame_get (push_args fr args m) fr ''arg1'' = sa_arg1 args" "frame_get (push_args fr args m) fr ''arg2'' = sa_arg2 args"
  "frame_get (push_args fr args m) fr ''arg3'' = sa_arg3 args"
  by (simp_all add: push_args_def other_field)

definition call_frame :: "'a sched_state_scheme \<Rightarrow> u32" where
  "call_frame s = t_esp0 (tk_tss (tasks s (curr_task s))) - frame_size"

definition with_args :: "syscall_arg_t \<Rightarrow> 'a fs_state_scheme \<Rightarrow> 'a fs_state_scheme" where
  "with_args args s = s\<lparr>phys := push_args (call_frame s) args (phys s)\<rparr>"

lemma sint_of_int: "- (2 ^ 31) \<le> r \<Longrightarrow> r < 2 ^ 31 \<Longrightarrow> sint (of_int r :: u32) = r"
  by (simp add: sint_sbintrunc' signed_take_bit_int_eq_self)

lemma handler_answer:
  assumes "sys_handler (sa_id args) = Some h"
    and "call_handler lk stk h (sa_arg0 args) (sa_arg1 args) (sa_arg2 args) (sa_arg3 args) (with_args args s) = Done (Some r) s2"
    and "- (2 ^ 31) \<le> r" "r < 2 ^ 31"
  shows "sys_call lk stk unknown args s = Done r (s2\<lparr>phys := frame_put (call_frame s) ''eax'' (of_int r) (phys s2)\<rparr>)"
  using assms
  by (simp add: sys_call_def do_handler_syscall_def with_args_def call_frame_def task_current_def Let_def sint_of_int)

text \<open>C11: a system call hands the handler the arguments of the caller and the caller the result of the
  handler.  Whatever the stack of the caller held, the handler of the number in the argument block runs on
  exactly the four arguments of the block, and the 32-bit result it returns is the result of the call.\<close>

theorem syscall_dispatch:
  assumes "sys_handler (sa_id args) = Some h"
    and "call_handler lk stk h (sa_arg0 args) (sa_arg1 args) (sa_arg2 args) (sa_arg3 args) (with_args args s) = Done (Some r) s2"
    and "- (2 ^ 31) \<le> r" "r < 2 ^ 31"
  shows "\<exists>s'. sys_call lk stk unknown args s = Done r s' \<and> frame_get (phys s') (call_frame s) ''eax'' = of_int r"
  using handler_answer [OF assms] by simp

text \<open>A number without a handler changes nothing but the log and the answer, which is \<open>-1\<close>.\<close>

theorem unknown_syscall:
  assumes "sys_handler (sa_id args) = None"
  shows "\<exists>s'. sys_call lk stk unknown args s = Done (-1) s' \<and> tasks s' = tasks s \<and> curr_task s' = curr_task s \<and>
     file_tb s' = file_tb s \<and> paddr_alloc s' = paddr_alloc s \<and>
     phys s' = frame_put (call_frame s) ''eax'' (-1) (push_args (call_frame s) args (phys s)) \<and>
     klogs s' = klogs s @ [(''task: %s, Unkown syscall: %d'', [VStr (tk_name (tasks s (curr_task s))), VInt (sint (sa_id args))])]"
  using assms by (simp add: sys_call_def do_handler_syscall_def task_current_def call_frame_def log_line_def Let_def)

subsection \<open>A sample task\<close>

text \<open>The sample task has the directory in the first page of the pool and its kernel stack in the second.\<close>

definition pool_stack :: addr_alloc_t where
  "pool_stack = pool16\<lparr>aa_bitmap := \<lparr>bit_count = 16, bits = [3, 0]\<rparr>\<rparr>"

definition call_start :: "u32 \<Rightarrow> fs_state" where
  "call_start h = mem_state.extend
     (vm_start h\<lparr>paddr_alloc := pool_stack,
        tasks := (\<lambda>t. (tasks (vm_start h) t)\<lparr>tk_tss := (tk_tss (tasks (vm_start h) t))\<lparr>t_esp0 := 0x102000\<rparr>, tk_pid := 42\<rparr>)\<rparr>)
     (fs_state.fields [] 0 counting_disk)"

lemma call_start_sel [simp]:
  "phys (call_start h) = (\<lambda>_. 0)" "paddr_alloc (call_start h) = pool_stack" "curr_task (call_start h) = First_task"
  "tk_heap_end (tasks (call_start h) t) = h" "t_cr3 (tk_tss (tasks (call_start h) t)) = 0x100000"
  "t_esp0 (tk_tss (tasks (call_start h) t)) = 0x102000" "tk_pid (tasks (call_start h) t) = 42" "mutex_idle m (call_start h)"
  by (simp_all add: call_start_def vm_start_def gdt_start_def gdt_state.defs mem_state.defs fs_state.defs mutex_idle_def
      list_init_def list_count_def)

lemma pool_stack_used: "page_used pool_stack = True # True # replicate 14 False"
  by code_simp

lemma pool_stack_ok: "pool_ok pool_stack"
  by (simp add: pool_ok_def pool_stack_def pool16_def bitmap_ok_def bitmap_byte_count_def MEM_PAGE_SIZE_def)

lemma pool_stack_free: "free_count pool_stack = 14"
  by (simp add: free_count_eq [OF pool_stack_ok] pool_stack_used)

lemma pool_stack_pages: "0x100000 \<in> used_of pool_stack" "0x101000 \<in> used_of pool_stack"
  using page_addr_in_used [OF pool_stack_ok, of 0] page_addr_in_used [OF pool_stack_ok, of 1]
  by (simp_all add: pool_stack_used page_addr_def) (simp_all add: pool_stack_def pool16_def MEM_PAGE_SIZE_def)

lemma call_start_ok: "vm_ok {0x101000} 0x100000 (call_start h)"
  by (simp add: vm_ok_def pool_stack_ok space_ok_def pool_stack_pages mem32_def)

abbreviation stale_args :: syscall_arg_t where
  "stale_args \<equiv> \<lparr>sa_id = 7, sa_arg0 = 1, sa_arg1 = 2, sa_arg2 = 3, sa_arg3 = 4\<rparr>"

text \<open>The call of \<open>getpid\<close>.\<close>

theorem syscall_dispatch_witness:
  "\<exists>s'. sys_call no_link 0 9 (getpid stale_args) (call_start 0x80000000) = Done 42 s' \<and>
     frame_get (phys s') (call_frame (call_start 0x80000000)) ''eax'' = 42"
proof -
  have "sys_handler (sa_id (getpid stale_args)) = Some H_getpid" by (simp add: sys_handler_def sys_table_def getpid_def SYS_defs)
  from syscall_dispatch [OF this, of no_link 0 "call_start 0x80000000" 42 "with_args (getpid stale_args) (call_start 0x80000000)" 9]
  show ?thesis by (simp add: sys_getpid_def with_args_def task_current_def)
qed

text \<open>The number that the stack happened to hold has no handler.\<close>

theorem unknown_syscall_witness: "\<exists>s'. sys_call no_link 0 9 stale_args (call_start 0x80000000) = Done (-1) s'"
  using unknown_syscall [of stale_args no_link 0 9 "call_start 0x80000000"]
  by (simp add: sys_handler_def sys_table_def SYS_defs) blast

subsection \<open>One call from end to end\<close>

lemma in_frame:
  assumes "call_frame s = q + (MEM_PAGE_SIZE - frame_size)" "frame_off f = 4 * i" "unat i < 22" "x \<notin> region q 4096"
  shows "frame_put (call_frame s) f v m x = m x"
proof -
  have "slot (call_frame s) i = slot q (1002 + i)"
    unfolding assms(1) by (simp add: slot_def MEM_PAGE_SIZE_def frame_size_def)
  moreover have "unat (1002 + i) < 1024" using assms(3) by (simp add: unat_word_ariths)
  ultimately show ?thesis using assms(4) by (simp add: frame_slot [OF assms(2)] put_slot_inside)
qed

lemma push_in_frame:
  assumes "call_frame s = q + (MEM_PAGE_SIZE - frame_size)" "x \<notin> region q 4096"
  shows "push_args (call_frame s) args m x = m x"
  by (simp add: push_args_def in_frame [OF assms(1) call_fields(1) _ assms(2)] in_frame [OF assms(1) call_fields(2) _ assms(2)]
      in_frame [OF assms(1) call_fields(3) _ assms(2)] in_frame [OF assms(1) call_fields(4) _ assms(2)]
      in_frame [OF assms(1) call_fields(5) _ assms(2)])

text \<open>C8: growing the heap from the library to the page tables.  An application calls \<open>sbrk\<close> with a positive
  increment; the call goes through the gate, the frame on its kernel stack page \<open>q\<close>, the handler, the page
  allocator and the page tables and comes back with the old end of the heap.  The new pages are mapped to
  different free frames, every other address of the task is translated as before, and no other page in
  use has changed except the kernel stack of the task itself.\<close>

theorem sbrk_call:
  assumes "vm_ok R (curr_page_dir s) s" "q \<in> R" "t_esp0 (tk_tss (tasks s (curr_task s))) = q + MEM_PAGE_SIZE"
    and "0 < k" "k < 2 ^ 31" "h = tk_heap_end (tasks s (curr_task s))" "2 * new_pages h k \<le> free_count (paddr_alloc s)"
  shows "\<exists>s' ps. sys_call lk stk unknown (sbrk junk (int k)) s = Done (sint h) s' \<and>
     tk_heap_end (tasks s' (curr_task s)) = h + of_nat k \<and>
     length ps = new_pages h k \<and> distinct ps \<and> set ps \<subseteq> pages_of (paddr_alloc s) - used_of (paddr_alloc s) \<and>
     mmu_walk (phys s') (curr_page_dir s) = map_list ps (page_top h) (mmu_walk (phys s) (curr_page_dir s)) \<and>
     same_pages (R - {q}) (phys s) (phys s')"
proof -
  let ?a = "sbrk junk (int k)"
  define s1 where "s1 = with_args ?a s"
  have fr: "call_frame s = q + (MEM_PAGE_SIZE - frame_size)" using assms(3) by (simp add: call_frame_def)
  have out: "push_args (call_frame s) ?a (phys s) x = phys s x" if "x \<notin> region q 4096" for x
    by (rule push_in_frame [OF fr that])
  have s1: "s1 = s\<lparr>phys := push_args (call_frame s) ?a (phys s)\<rparr>" by (simp add: s1_def with_args_def)
  have vm1: "vm_ok R (curr_page_dir s) s1" "mmu_walk (phys s1) (curr_page_dir s) = mmu_walk (phys s) (curr_page_dir s)"
    unfolding s1 using write_reserved [OF assms(1,2), of "push_args (call_frame s) ?a (phys s)"] out by simp_all
  have e: "curr_page_dir s1 = curr_page_dir s" "tasks s1 = tasks s" "curr_task s1 = curr_task s" "paddr_alloc s1 = paddr_alloc s"
    by (simp_all add: s1 curr_page_dir_def task_current_def)
  from sbrk_grows [of R s1 k h] vm1 assms(4-7) obtain s2 ps where
    r: "sys_sbrk (int k) s1 = Done h s2" "tk_heap_end (tasks s2 (curr_task s)) = h + of_nat k" "length ps = new_pages h k"
    "distinct ps" "set ps \<subseteq> pages_of (paddr_alloc s) - used_of (paddr_alloc s)"
    "mmu_walk (phys s2) (curr_page_dir s) = map_list ps (page_top h) (mmu_walk (phys s) (curr_page_dir s))"
    "same_pages R (phys s1) (phys s2)" "vm_ok (R \<union> set ps) (curr_page_dir s) s2" unfolding e by auto
  let ?s = "s2\<lparr>phys := frame_put (call_frame s) ''eax'' (of_int (sint h)) (phys s2)\<rparr>"
  have out2: "phys ?s x = phys s2 x" if "x \<notin> region q 4096" for x
    using in_frame [OF fr call_fields(6) _ that] by simp
  have "sys_call lk stk unknown ?a s = Done (sint h) ?s"
  proof (rule handler_answer)
    show "sys_handler (sa_id ?a) = Some H_sbrk" by (simp add: sys_handler_def sys_table_def sbrk_def SYS_defs)
    have "sint (sa_arg0 ?a) = int k" using assms(5) sint_of_int [of "int k"] by (simp add: sbrk_def)
    then show "call_handler lk stk H_sbrk (sa_arg0 ?a) (sa_arg1 ?a) (sa_arg2 ?a) (sa_arg3 ?a) (with_args ?a s) =
        Done (Some (sint h)) s2" using r(1) by (simp add: s1_def [symmetric])
  qed (use sint_greater_eq [of h] sint_less [of h] in simp_all)
  moreover have "mmu_walk (phys ?s) (curr_page_dir s) = mmu_walk (phys s2) (curr_page_dir s)"
    by (rule write_reserved(2) [OF r(8) _ out2]) (use assms(2) in simp_all)
  moreover have "same_pages (R - {q}) (phys s) (phys s1)" "same_pages (R - {q}) (phys s2) (phys ?s)"
  proof -
    have qa: "pool_ok (paddr_alloc s)" "take_bit 12 q = 0" "R - {q} \<subseteq> used_of (paddr_alloc s)"
      using assms(1,2) used_page [of "paddr_alloc s" q] by (auto simp: vm_ok_def)
    show "same_pages (R - {q}) (phys s) (phys s1)"
      by (rule same_pages_in_page [OF qa(1,3,2)]) (use out in \<open>simp_all add: s1\<close>)
    show "same_pages (R - {q}) (phys s2) (phys ?s)"
      by (rule same_pages_in_page [OF qa(1,3,2)]) (use out2 in simp_all)
  qed
  moreover have "same_pages (R - {q}) (phys s1) (phys s2)" using r(7) by (rule same_pages_mono) blast
  ultimately show ?thesis using r by (intro exI [of _ ?s] exI [of _ ps]) (auto intro: same_pages_trans)
qed

text \<open>The sample task grows its empty heap by two pages.\<close>

theorem sbrk_call_witness:
  "\<exists>s' ps. sys_call no_link 0 9 (sbrk stale_args 8192) (call_start 0x80000000) = Done (sint (0x80000000 :: u32)) s' \<and>
     length ps = 2 \<and> distinct ps \<and> set ps \<subseteq> pages_of pool_stack - used_of pool_stack \<and>
     tk_heap_end (tasks s' First_task) = 0x80002000"
proof -
  let ?s = "call_start 0x80000000"
  have d: "curr_page_dir ?s = 0x100000" by (simp add: curr_page_dir_def)
  have n: "new_pages 0x80000000 8192 = 2" by (simp add: new_pages_def left_in_page_def MEM_PAGE_SIZE_def)
  have "vm_ok {0x101000} (curr_page_dir ?s) ?s" by (simp add: d call_start_ok)
  from sbrk_call [OF this, of "0x101000" 8192 "0x80000000" no_link 0 9 stale_args] show ?thesis
    by (force simp: n pool_stack_free MEM_PAGE_SIZE_def)
qed

end
