(* ===== verification/Device_Laws.thy ===== *)
theory Device_Laws
  imports Gdt
begin

text \<open>
  What the device table promises: it counts, for every terminal, how often it is open.  \<open>dev_inv\<close> is the
  invariant of the table, \<open>dev_refs\<close> the counts it stands for.
\<close>

abbreviation dev_used :: "device_t \<Rightarrow> bool" where
  "dev_used d \<equiv> dv_open_count d \<noteq> 0"

definition dev_inv :: "device_t list \<Rightarrow> bool" where
  "dev_inv tb \<longleftrightarrow> length tb = DEV_TABLE_SIZE \<and>
     (\<forall>d \<in> set tb. 0 \<le> dv_open_count d \<and> (dev_used d \<longrightarrow> dv_desc d = Some Dev_tty_desc \<and> 0 \<le> dv_minor d \<and> dv_minor d < 8)) \<and>
     (\<forall>i<length tb. \<forall>j<length tb. dev_used (tb ! i) \<longrightarrow> dev_used (tb ! j) \<longrightarrow> dv_minor (tb ! i) = dv_minor (tb ! j) \<longrightarrow> i = j)"

text \<open>How often each terminal is open.\<close>

definition dev_refs :: "device_t list \<Rightarrow> int \<Rightarrow> int" where
  "dev_refs tb minor = sum_list (map (\<lambda>d. if dev_used d \<and> dv_minor d = minor then dv_open_count d else 0) tb)"

lemma sum_list_update_int:
  fixes xs :: "int list"
  shows "k < length xs \<Longrightarrow> sum_list (xs[k := x]) = sum_list xs + x - xs ! k"
  by (induction xs arbitrary: k) (auto split: nat.split)

lemma dev_refs_update:
  assumes "k < length tb"
  shows "dev_refs (tb[k := d]) minor = dev_refs tb minor + (if dev_used d \<and> dv_minor d = minor then dv_open_count d else 0) -
    (if dev_used (tb ! k) \<and> dv_minor (tb ! k) = minor then dv_open_count (tb ! k) else 0)"
  using assms by (simp add: dev_refs_def map_update sum_list_update_int)

subsection \<open>The scan\<close>

definition dev_match :: "int \<Rightarrow> device_t \<Rightarrow> bool" where
  "dev_match minor d \<longleftrightarrow> dev_used d \<and> dv_minor d = minor"

lemma dev_scan_cases:
  assumes "\<forall>d \<in> set ds. dev_used d \<longrightarrow> dv_desc d = Some Dev_tty_desc"
  obtains (found) k where "k < length ds" "dev_match minor (ds ! k)" "dev_scan DEV_TTY minor i free ds = Inr (Inl (i + k))"
  | (free) r where "\<forall>d \<in> set ds. \<not> dev_match minor d" "dev_scan DEV_TTY minor i free ds = Inr (Inr r)"
      "r = None \<Longrightarrow> free = None \<and> (\<forall>d \<in> set ds. dev_used d)"
      "\<And>k. r = Some k \<Longrightarrow> free = Some k \<or> (i \<le> k \<and> k < i + length ds \<and> \<not> dev_used (ds ! (k - i)))"
  using assms
proof (induction ds arbitrary: i free thesis)
  case Nil
  then show ?case by auto
next
  case (Cons d ds)
  have ds: "\<forall>d \<in> set ds. dev_used d \<longrightarrow> dv_desc d = Some Dev_tty_desc" using Cons.prems(3) by simp
  show ?case
  proof (cases "dev_match minor d")
    case True
    then have "dev_scan DEV_TTY minor i free (d # ds) = Inr (Inl (i + 0))" using Cons.prems(3) by (simp add: dev_match_def)
    then show ?thesis using Cons.prems(1) [of 0] True by simp
  next
    case False
    let ?free = "if dev_used d then free else Some i"
    have step: "dev_scan DEV_TTY minor i free (d # ds) = dev_scan DEV_TTY minor (Suc i) ?free ds"
      using False Cons.prems(3) by (auto simp: dev_match_def)
    show ?thesis
    proof (rule Cons.IH [OF _ _ ds, of "Suc i" ?free], goal_cases)
      case (1 k)
      then show ?thesis using Cons.prems(1) [of "Suc k"] step by simp
    next
      case (2 r)
      show ?thesis
      proof (rule Cons.prems(2) [of r])
        show "\<forall>d' \<in> set (d # ds). \<not> dev_match minor d'" using 2(1) False by simp
        show "dev_scan DEV_TTY minor i free (d # ds) = Inr (Inr r)" using 2(2) step by simp
        show "free = None \<and> (\<forall>d' \<in> set (d # ds). dev_used d')" if "r = None" using 2(3) [OF that] by (simp split: if_splits)
        show "free = Some k \<or> (i \<le> k \<and> k < i + length (d # ds) \<and> \<not> dev_used ((d # ds) ! (k - i)))" if "r = Some k" for k
          using 2(4) [OF that] by (auto split: if_splits simp: nth_Cons')
      qed
    qed
  qed
qed

text \<open>There are eight terminals and 128 entries, so there is always a free one.\<close>

lemma dev_free_entry:
  assumes "dev_inv tb"
  shows "\<exists>d \<in> set tb. \<not> dev_used d"
proof (rule ccontr)
  assume a: "\<not> (\<exists>d \<in> set tb. \<not> dev_used d)"
  then have "inj_on (\<lambda>i. dv_minor (tb ! i)) {..<length tb}" using assms by (auto simp: dev_inv_def intro!: inj_onI)
  moreover have "(\<lambda>i. dv_minor (tb ! i)) ` {..<length tb} \<subseteq> {0..<8}" using a assms by (auto simp: dev_inv_def)
  ultimately have "card {..<length tb} \<le> card {0..<8 :: int}" by (rule card_inj_on_le) simp
  then show False using assms by (simp add: dev_inv_def DEV_TABLE_SIZE_def)
qed

lemma dev_inv_update:
  assumes "dev_inv tb" "k < length tb" "0 \<le> dv_open_count d"
    and "dev_used d \<Longrightarrow> dv_desc d = Some Dev_tty_desc \<and> 0 \<le> dv_minor d \<and> dv_minor d < 8"
    and "\<And>j. j < length tb \<Longrightarrow> j \<noteq> k \<Longrightarrow> dev_used d \<Longrightarrow> dev_used (tb ! j) \<Longrightarrow> dv_minor (tb ! j) \<noteq> dv_minor d"
  shows "dev_inv (tb[k := d])"
proof -
  have "\<forall>e \<in> set (tb[k := d]). 0 \<le> dv_open_count e \<and> (dev_used e \<longrightarrow> dv_desc e = Some Dev_tty_desc \<and> 0 \<le> dv_minor e \<and> dv_minor e < 8)"
    using assms(1,3,4) set_update_subset_insert [of tb k d] by (auto simp: dev_inv_def)
  moreover have "i = j" if "i < length tb" "j < length tb" "dev_used (tb[k := d] ! i)" "dev_used (tb[k := d] ! j)"
    "dv_minor (tb[k := d] ! i) = dv_minor (tb[k := d] ! j)" for i j
    using that assms(1,5) [unfolded dev_inv_def] assms(5) [of i] assms(5) [of j]
    by (cases "i = k"; cases "j = k") (auto simp: dev_inv_def)
  ultimately show ?thesis using assms(1) by (simp add: dev_inv_def)
qed

subsection \<open>Opening and closing\<close>

text \<open>The keyboard's vector is there, so that opening a terminal does not fault.\<close>

definition vectors_ok :: "'a tty_state_scheme \<Rightarrow> bool" where
  "vectors_ok s \<longleftrightarrow> kbd_inited s \<or> 0x21 < length (idt_table s)"

lemma dev_tb_keeps [simp]:
  fixes s :: "'a dev_state_scheme"
  shows "dev_tb (outb p v s) = dev_tb s" "dev_tb (snd (inb p s)) = dev_tb s" "dev_tb (irq_leave_proection st s) = dev_tb s"
    "dev_tb (snd (irq_enter_proection s)) = dev_tb s" "dev_tb (log_line f a s) = dev_tb s" "dev_tb (upd_tty i g s) = dev_tb s"
    "dev_tb (sem_init sm n s) = dev_tb s" "dev_tb (mutex_init m s) = dev_tb s" "dev_tb (set_console i c s) = dev_tb s"
    "dev_tb (set_screen i cv s) = dev_tb s" "dev_tb (irq_disable_global s) = dev_tb s"
  by (simp_all add: outb_def inb_def irq_leave_proection_def irq_enter_proection_def irq_disable_global_def log_line_def
      upd_tty_def sem_init_def upd_sem_def mutex_init_def upd_mutex_def set_console_def set_screen_def split: prod.splits)

lemma dev_tb_console [simp]:
  fixes s :: "'a dev_state_scheme"
  shows "dev_tb (snd (read_cursor_pos s)) = dev_tb s" "dev_tb (update_cursor_pos i s) = dev_tb s"
    "dev_tb (console_init i s) = dev_tb s" "dev_tb (irq_enable n s) = dev_tb s"
proof -
  show r: "dev_tb (snd (read_cursor_pos s)) = dev_tb s" for s :: "'a dev_state_scheme"
    by (simp add: read_cursor_pos_def case_prod_unfold Let_def)
  show u: "dev_tb (update_cursor_pos i s) = dev_tb s" for s :: "'a dev_state_scheme"
    by (simp add: update_cursor_pos_def case_prod_unfold Let_def)
  show "dev_tb (console_init i s) = dev_tb s" by (simp add: console_init_def case_prod_unfold Let_def r u)
  show "dev_tb (irq_enable n s) = dev_tb s" by (simp add: irq_enable_def case_prod_unfold Let_def)
qed

lemma tty_open_ok:
  fixes s :: "'a dev_state_scheme"
  assumes "vectors_ok s" "0 \<le> dv_minor d" "dv_minor d < 8"
  shows "\<exists>s'. tty_open link d s = Inr (0, s') \<and> dev_tb s' = dev_tb s"
proof -
  have kbd: "\<exists>s'. kbd_init link s1 = Inr s' \<and> dev_tb s' = dev_tb s1" if "vectors_ok s1" for s1 :: "'a dev_state_scheme"
    using that by (auto simp: kbd_init_def irq_install_def vectors_ok_def)
  have keep: "vectors_ok (upd_tty i g s1) = vectors_ok s1" "vectors_ok (sem_init m n s1) = vectors_ok s1"
    for i g m n and s1 :: "'a dev_state_scheme" by (simp_all add: vectors_ok_def upd_tty_def sem_init_def upd_sem_def)
  let ?i = "nat (dv_minor d)"
  let ?s = "upd_tty ?i (\<lambda>t. t\<lparr>oflags := TTY_OCRLF, iflags := TTY_IECHO, console_idx := ?i\<rparr>)
      (sem_init (Isem ?i) 0 (sem_init (Osem ?i) TTY_OBUF_SIZE
        (upd_tty ?i (\<lambda>t. t\<lparr>ififo := tty_fifo_init (ff_buf (ififo t)) TTY_IBUF_SIZE,
                           ofifo := tty_fifo_init (ff_buf (ofifo t)) TTY_OBUF_SIZE\<rparr>) s)))"
  have "vectors_ok ?s" using assms(1) by (simp only: keep)
  from kbd [OF this] obtain s4 where "kbd_init link ?s = Inr s4" "dev_tb s4 = dev_tb s" by auto
  then show ?thesis using assms(2,3) by (simp add: tty_open_def Let_def)
qed

lemma dev_lookup: "dev_inv tb \<Longrightarrow> k < length tb \<Longrightarrow> dev_used (tb ! k) \<Longrightarrow>
    dv_desc (tb ! k) = Some Dev_tty_desc \<and> 0 < dv_open_count (tb ! k) \<and> 0 \<le> dv_minor (tb ! k) \<and> dv_minor (tb ! k) < 8"
  unfolding dev_inv_def by (metis nth_mem order_less_le)

lemma dev_open_counts:
  assumes "dev_inv (dev_tb s)" "vectors_ok s" "0 \<le> minor" "minor < 8"
  shows "\<exists>k s'. dev_open link DEV_TTY minor data s = Inr (int k, s') \<and> k < DEV_TABLE_SIZE \<and> dev_match minor (dev_tb s' ! k) \<and>
     dev_inv (dev_tb s') \<and> dev_refs (dev_tb s') = (dev_refs (dev_tb s))(minor := dev_refs (dev_tb s) minor + 1)"
proof -
  let ?tb = "dev_tb s"
  define st s1 where "st = eflags s" and "s1 = irq_disable_global s"
  then have e: "irq_enter_proection s = (st, s1)" by (simp add: irq_enter_proection_def)
  have s1: "dev_tb s1 = ?tb" "vectors_ok s1"
    using assms(2) by (simp_all add: s1_def vectors_ok_def irq_disable_global_def)
  have len: "length ?tb = DEV_TABLE_SIZE" and desc: "\<forall>d \<in> set ?tb. dev_used d \<longrightarrow> dv_desc d = Some Dev_tty_desc"
    and pos: "\<forall>d \<in> set ?tb. 0 \<le> dv_open_count d" using assms(1) by (auto simp: dev_inv_def)
  from desc show ?thesis
  proof (cases rule: dev_scan_cases [where minor = minor and i = 0 and free = None])
    case (found k)
    let ?d = "(?tb ! k)\<lparr>dv_open_count := dv_open_count (?tb ! k) + 1\<rparr>"
    note k = dev_lookup [OF assms(1) found(1)] found(2) [unfolded dev_match_def]
    have inv: "dev_inv (?tb[k := ?d])"
      using assms(1) found(1) k by (intro dev_inv_update) (auto simp: dev_inv_def)
    have "dev_open link DEV_TTY minor data s = Inr (int k, irq_leave_proection st (set_dev k ?d s1))"
      unfolding dev_open_def e using found(3) s1(1) by simp
    then show ?thesis using inv found(1) len s1(1) k
      by (intro exI [of _ k] exI [of _ "irq_leave_proection st (set_dev k ?d s1)"])
        (auto simp: set_dev_def dev_match_def fun_eq_iff dev_refs_update)
  next
    case (free r)
    obtain k where k: "r = Some k" using free(3) dev_free_entry [OF assms(1)] by (cases r) auto
    have kb: "k < length ?tb" "\<not> dev_used (?tb ! k)" using free(4) [OF k] by auto
    let ?d = "(?tb ! k)\<lparr>dv_minor := minor, dv_data := data, dv_desc := Some Dev_tty_desc\<rparr>"
    let ?d1 = "?d\<lparr>dv_open_count := 1\<rparr>"
    have "vectors_ok (set_dev k ?d s1)" using s1(2) by (simp add: vectors_ok_def set_dev_def)
    from tty_open_ok [OF this, of ?d link] assms(3,4) obtain s3 where
      s3: "tty_open link ?d (set_dev k ?d s1) = Inr (0, s3)" "dev_tb s3 = ?tb[k := ?d]" using s1(1) by (auto simp: set_dev_def)
    have "dev_open link DEV_TTY minor data s = Inr (int k, irq_leave_proection st (set_dev k ?d1 s3))"
      unfolding dev_open_def e using free(2) k s3(1) s1(1) by (simp add: dev_desc_tb_def desc_open_def Let_def)
    moreover have "dev_inv (?tb[k := ?d1])"
      using assms(1,3,4) kb(1) free(1) by (intro dev_inv_update) (auto simp: dev_match_def)
    ultimately show ?thesis using kb len s3(2)
      by (intro exI [of _ k] exI [of _ "irq_leave_proection st (set_dev k ?d1 s3)"])
        (auto simp: set_dev_def dev_match_def fun_eq_iff dev_refs_update)
  qed
qed

lemma dev_close_counts:
  assumes "dev_inv (dev_tb s)" "k < DEV_TABLE_SIZE" "dev_match minor (dev_tb s ! k)"
  shows "\<exists>s'. dev_close (int k) s = Inr s' \<and> dev_inv (dev_tb s') \<and>
     dev_refs (dev_tb s') = (dev_refs (dev_tb s))(minor := dev_refs (dev_tb s) minor - 1)"
proof -
  let ?tb = "dev_tb s" and ?d = "(dev_tb s ! k)\<lparr>dv_open_count := dv_open_count (dev_tb s ! k) - 1\<rparr>"
  let ?e = "if dv_open_count ?d = 0 then no_device else ?d"
  have k: "k < length ?tb" "dev_used (?tb ! k)" "dv_minor (?tb ! k) = minor" using assms by (auto simp: dev_inv_def dev_match_def)
  note d = dev_lookup [OF assms(1) k(1,2)]
  define st s1 where "st = eflags s" and "s1 = irq_disable_global s"
  then have e: "irq_enter_proection s = (st, s1)" and s1: "dev_tb s1 = ?tb" by (simp_all add: irq_enter_proection_def)
  have "dev_close (int k) s = Inr (irq_leave_proection st (set_dev k ?e s1))"
    unfolding dev_close_def e using d k(1) s1 by (simp add: is_devid_bad_def)
  moreover have "dev_inv (?tb[k := ?e])"
    using assms(1) k d by (intro dev_inv_update) (auto simp: no_device_def dev_inv_def)
  ultimately show ?thesis using k d s1
    by (intro exI [of _ "irq_leave_proection st (set_dev k ?e s1)"])
      (auto simp: set_dev_def fun_eq_iff dev_refs_update no_device_def)
qed

text \<open>C25: the device table counts how often each terminal is open.  Opening a terminal always succeeds: the
  table has more entries than there are terminals.  The result is the number of an entry for that terminal,
  its count goes up by one and the counts of the others stay; closing an open entry takes one off its
  count, and the table is well formed after both.\<close>

theorem device_table_counts:
  assumes "dev_inv (dev_tb s)" "vectors_ok s" "0 \<le> minor" "minor < 8"
  shows "\<exists>k s'. dev_open link DEV_TTY minor data s = Inr (int k, s') \<and> k < DEV_TABLE_SIZE \<and> dev_match minor (dev_tb s' ! k) \<and>
     dev_inv (dev_tb s') \<and> dev_refs (dev_tb s') = (dev_refs (dev_tb s))(minor := dev_refs (dev_tb s) minor + 1) \<and>
     (\<exists>s''. dev_close (int k) s' = Inr s'' \<and> dev_inv (dev_tb s'') \<and> dev_refs (dev_tb s'') = dev_refs (dev_tb s))"
proof -
  from dev_open_counts [OF assms] obtain k s' where 1: "dev_open link DEV_TTY minor data s = Inr (int k, s')"
    "k < DEV_TABLE_SIZE" "dev_match minor (dev_tb s' ! k)" "dev_inv (dev_tb s')"
    "dev_refs (dev_tb s') = (dev_refs (dev_tb s))(minor := dev_refs (dev_tb s) minor + 1)" by blast
  from dev_close_counts [OF 1(4,2,3)] obtain s'' where "dev_close (int k) s' = Inr s''" "dev_inv (dev_tb s'')"
    "dev_refs (dev_tb s'') = (dev_refs (dev_tb s'))(minor := dev_refs (dev_tb s') minor - 1)" by blast
  with 1 show ?thesis by auto
qed

lemma empty_table_inv: "dev_inv (replicate DEV_TABLE_SIZE no_device)"
  by (auto simp: dev_inv_def no_device_def)

theorem device_table_counts_witness:
  "\<exists>k s'. dev_open (\<lambda>_. 0) DEV_TTY 3 0 gdt_start = Inr (int k, s') \<and> k < DEV_TABLE_SIZE \<and> dev_refs (dev_tb s') 3 = 1"
proof -
  have tb: "dev_tb gdt_start = replicate DEV_TABLE_SIZE no_device" "vectors_ok gdt_start"
    by (simp_all add: gdt_start_def vectors_ok_def)
  have "dev_refs (dev_tb gdt_start) 3 = 0" unfolding tb(1) by (simp add: dev_refs_def no_device_def sum_list_replicate)
  with device_table_counts [of gdt_start 3 "\<lambda>_. 0" 0] tb empty_table_inv show ?thesis
    by (auto simp: fun_upd_def)
qed

end
