(* ===== verification/Files_Laws.thy ===== *)
theory Files_Laws
  imports Syscall_Laws Device_Laws
begin

text \<open>
  What the file table promises: a descriptor never dangles.  \<open>files_ok\<close> says that every descriptor of every
  task names a live file, one with references that is a terminal and names an open device.  \<open>file_call\<close> is the
  relation of the calls that change the tables, and the invariant holds along any sequence of them.
\<close>

subsection \<open>What opening a device leaves alone\<close>

definition fs_same :: "'a fs_state_scheme \<Rightarrow> 'a fs_state_scheme \<Rightarrow> bool" where
  "fs_same s s' \<longleftrightarrow> file_tb s' = file_tb s \<and> tasks s' = tasks s \<and> curr_task s' = curr_task s \<and> phys s' = phys s \<and>
     cr3 s' = cr3 s \<and> mutexes s' File_alloc_mutex = mutexes s File_alloc_mutex \<and> (vectors_ok s \<longrightarrow> vectors_ok s')"

lemma fs_same_refl [simp]: "fs_same s s"
  by (simp add: fs_same_def)

lemma fs_same_trans [trans]: "fs_same s s' \<Longrightarrow> fs_same s' s'' \<Longrightarrow> fs_same s s''"
  by (simp add: fs_same_def)

lemma fs_same_ops:
  fixes s :: "'a fs_state_scheme"
  shows "fs_same s (outb p v s)" "fs_same s (snd (inb p s))" "fs_same s (irq_leave_proection st s)"
    "fs_same s (irq_disable_global s)" "fs_same s (log_line f a s)" "fs_same s (upd_tty i g s)" "fs_same s (sem_init sm n s)"
    "m \<noteq> File_alloc_mutex \<Longrightarrow> fs_same s (mutex_init m s)" "fs_same s (set_console i c s)" "fs_same s (set_screen i cv s)"
    "fs_same s (set_dev k d s)"
  by (simp_all add: fs_same_def outb_def inb_def irq_leave_proection_def irq_disable_global_def log_line_def vectors_ok_def
      upd_tty_def sem_init_def upd_sem_def mutex_init_def upd_mutex_def set_console_def set_screen_def set_dev_def split: prod.splits)

lemma fs_same_step: "fs_same s t \<Longrightarrow> (\<And>t. fs_same t (f t)) \<Longrightarrow> fs_same s (f t)"
  by (blast intro: fs_same_trans)

lemmas fs_same_steps = fs_same_ops [THEN fs_same_trans [rotated]]

lemma fs_same_console:
  fixes s :: "'a fs_state_scheme"
  shows "fs_same s (snd (read_cursor_pos s))" "fs_same s (update_cursor_pos i s)" "fs_same s (console_init i s)"
    "fs_same s (irq_enable n s)"
proof -
  show r: "fs_same s (snd (read_cursor_pos s))" for s :: "'a fs_state_scheme"
    by (simp add: read_cursor_pos_def case_prod_unfold Let_def irq_enter_proection_def) (intro fs_same_steps fs_same_refl)
  show u: "fs_same s (update_cursor_pos i s)" for s :: "'a fs_state_scheme"
    by (simp add: update_cursor_pos_def case_prod_unfold Let_def irq_enter_proection_def) (intro fs_same_steps fs_same_refl)
  show "fs_same s (irq_enable n s)"
    by (simp add: irq_enable_def case_prod_unfold Let_def) (auto intro!: fs_same_steps)
  note steps = fs_same_steps r [THEN fs_same_trans [rotated]] u [THEN fs_same_trans [rotated]]
  show "fs_same s (console_init i s)"
    unfolding console_init_def Let_def case_prod_unfold by (auto intro!: steps)
qed

lemma kbd_init_same:
  fixes s :: "'a fs_state_scheme"
  assumes "vectors_ok s"
  shows "\<exists>s'. kbd_init link s = Inr s' \<and> fs_same s s' \<and> dev_tb s' = dev_tb s"
proof (cases "kbd_inited s")
  case False
  let ?s = "s\<lparr>idt_table := (idt_table s)[0x21 := gate_desc_set KERNEL_SELECTOR_CS (link Isr_kbd) GATE_INT]\<rparr>"
  have "fs_same s ?s" "fs_same ?s ((irq_enable 0x21 ?s)\<lparr>kbd_inited := True\<rparr>)"
    using fs_same_console(4) [where s = ?s and n = "0x21"] by (auto simp: fs_same_def vectors_ok_def)
  then have "fs_same s ((irq_enable 0x21 ?s)\<lparr>kbd_inited := True\<rparr>)" by (rule fs_same_trans)
  then show ?thesis using False assms by (simp add: kbd_init_def irq_install_def vectors_ok_def)
qed (simp add: kbd_init_def)

lemma tty_open_same:
  fixes s :: "'a fs_state_scheme"
  assumes "vectors_ok s"
  shows "\<exists>r s'. tty_open link d s = Inr (r, s') \<and> fs_same s s' \<and> dev_tb s' = dev_tb s \<and>
     (r = 0 \<and> 0 \<le> dv_minor d \<and> dv_minor d < 8 \<or> r = -1)"
proof (cases "dv_minor d < 0 \<or> dv_minor d \<ge> 8")
  case True
  then show ?thesis using fs_same_ops(5) by (auto simp: tty_open_def)
next
  case False
  let ?i = "nat (dv_minor d)"
  let ?s = "upd_tty ?i (\<lambda>t. t\<lparr>oflags := TTY_OCRLF, iflags := TTY_IECHO, console_idx := ?i\<rparr>)
      (sem_init (Isem ?i) 0 (sem_init (Osem ?i) TTY_OBUF_SIZE
        (upd_tty ?i (\<lambda>t. t\<lparr>ififo := tty_fifo_init (ff_buf (ififo t)) TTY_IBUF_SIZE,
                           ofifo := tty_fifo_init (ff_buf (ofifo t)) TTY_OBUF_SIZE\<rparr>) s)))"
  have same: "fs_same s ?s" by (intro fs_same_steps fs_same_refl)
  then have "vectors_ok ?s" using assms by (simp add: fs_same_def)
  from kbd_init_same [OF this] obtain s4 where s4: "kbd_init link ?s = Inr s4" "fs_same ?s s4" "dev_tb s4 = dev_tb s" by auto
  have "fs_same s (console_init ?i s4)"
    using fs_same_trans [OF fs_same_trans [OF same s4(2)] fs_same_console(3)] .
  then show ?thesis using s4(1,3) False by (simp add: tty_open_def Let_def)
qed

text \<open>Opening any device number: an open entry for it, or \<open>-1\<close>; open entries stay open.\<close>

lemma dev_open_any:
  fixes s :: "'a fs_state_scheme"
  assumes inv: "dev_inv (dev_tb s)" and vec: "vectors_ok s"
  shows "\<exists>r s'. dev_open link DEV_TTY minor data s = Inr (r, s') \<and> fs_same s s' \<and> dev_inv (dev_tb s') \<and>
     (\<forall>j. j < DEV_TABLE_SIZE \<longrightarrow> dev_used (dev_tb s ! j) \<longrightarrow> dev_used (dev_tb s' ! j) \<and> dv_minor (dev_tb s' ! j) = dv_minor (dev_tb s ! j)) \<and>
     (r = -1 \<or> (\<exists>k<DEV_TABLE_SIZE. r = int k \<and> dev_match minor (dev_tb s' ! k))) \<and> (0 \<le> minor \<longrightarrow> minor < 8 \<longrightarrow> 0 \<le> r)"
proof -
  let ?tb = "dev_tb s"
  define st s1 where "st = eflags s" and "s1 = irq_disable_global s"
  then have e: "irq_enter_proection s = (st, s1)" and s1: "dev_tb s1 = ?tb" "fs_same s s1"
    by (simp_all add: irq_enter_proection_def fs_same_ops)
  have len: "length ?tb = DEV_TABLE_SIZE" and desc: "\<forall>d \<in> set ?tb. dev_used d \<longrightarrow> dv_desc d = Some Dev_tty_desc"
    using inv by (auto simp: dev_inv_def)
  note steps = fs_same_ops(3,11) [THEN fs_same_trans [rotated]]
  from desc show ?thesis
  proof (cases rule: dev_scan_cases [where minor = minor and i = 0 and free = None])
    case (found k)
    let ?d = "(?tb ! k)\<lparr>dv_open_count := dv_open_count (?tb ! k) + 1\<rparr>"
    let ?s = "irq_leave_proection st (set_dev k ?d s1)"
    note k = dev_lookup [OF inv found(1)] found(2) [unfolded dev_match_def]
    have "dev_inv (?tb[k := ?d])" using inv found(1) k by (intro dev_inv_update) (auto simp: dev_inv_def)
    moreover have "dev_open link DEV_TTY minor data s = Inr (int k, ?s)"
      unfolding dev_open_def e using found(3) s1(1) by simp
    moreover have "fs_same s ?s" by (intro steps s1(2))
    ultimately show ?thesis using found(1) len s1(1) k
      by (intro exI [of _ "int k"] exI [of _ ?s]) (auto simp: set_dev_def dev_match_def nth_list_update)
  next
    case (free r)
    obtain k where k: "r = Some k" using free(3) dev_free_entry [OF inv] by (cases r) auto
    have kb: "k < length ?tb" "\<not> dev_used (?tb ! k)" using free(4) [OF k] by auto
    let ?d = "(?tb ! k)\<lparr>dv_minor := minor, dv_data := data, dv_desc := Some Dev_tty_desc\<rparr>"
    let ?d1 = "?d\<lparr>dv_open_count := 1\<rparr>"
    have same: "fs_same s (set_dev k ?d s1)" by (intro steps s1(2))
    then have "vectors_ok (set_dev k ?d s1)" using vec by (simp add: fs_same_def)
    from tty_open_same [OF this, of link ?d] obtain err s3 where
      s3: "tty_open link ?d (set_dev k ?d s1) = Inr (err, s3)" "fs_same (set_dev k ?d s1) s3" "dev_tb s3 = ?tb[k := ?d]"
      "err = 0 \<and> 0 \<le> minor \<and> minor < 8 \<or> err = -1" using s1(1) by (auto simp: set_dev_def)
    have same3: "fs_same s s3" by (rule fs_same_trans [OF same s3(2)])
    show ?thesis
    proof (cases "err = 0")
      case True
      let ?s = "irq_leave_proection st (set_dev k ?d1 s3)"
      have "dev_open link DEV_TTY minor data s = Inr (int k, ?s)"
        unfolding dev_open_def e using free(2) k s3(1) s1(1) True by (simp add: dev_desc_tb_def desc_open_def Let_def)
      moreover have "dev_inv (?tb[k := ?d1])"
        using inv kb(1) free(1) s3(4) True by (intro dev_inv_update) (auto simp: dev_match_def)
      moreover have "fs_same s ?s" by (intro steps same3)
      ultimately show ?thesis using kb len s3(3)
        by (intro exI [of _ "int k"] exI [of _ ?s]) (auto simp: set_dev_def dev_match_def nth_list_update)
    next
      case False
      let ?s = "irq_leave_proection st s3"
      have "dev_open link DEV_TTY minor data s = Inr (-1, ?s)"
        unfolding dev_open_def e using free(2) k s3(1) s1(1) False by (simp add: dev_desc_tb_def desc_open_def Let_def)
      moreover have "dev_inv (?tb[k := ?d])" using inv kb free(1) by (intro dev_inv_update) auto
      moreover have "fs_same s ?s" by (intro steps same3)
      moreover have "\<not> (0 \<le> minor \<and> minor < 8)"
        using False s3(1) by (auto simp: tty_open_def Let_def res_bind_eq_Inr)
      ultimately show ?thesis using kb len s3(3)
        by (intro exI [of _ "-1"] exI [of _ ?s]) (auto simp: nth_list_update)
    qed
  qed
qed

subsection \<open>The invariant\<close>

definition file_live :: "device_t list \<Rightarrow> file_t \<Rightarrow> bool" where
  "file_live dt f \<longleftrightarrow> 0 < fl_ref f \<and> fl_type f = FILE_TTY \<and> 0 \<le> fl_dev_id f \<and> nat (fl_dev_id f) < DEV_TABLE_SIZE \<and>
     dev_used (dt ! nat (fl_dev_id f))"

definition fds_ok :: "device_t list \<Rightarrow> file_t list \<Rightarrow> nat option list \<Rightarrow> bool" where
  "fds_ok dt ft fds \<longleftrightarrow> length fds = 128 \<and> (\<forall>i. Some i \<in> set fds \<longrightarrow> i < FILE_TABLE_SIZE \<and> file_live dt (ft ! i))"

definition files_ok :: "'a fs_state_scheme \<Rightarrow> bool" where
  "files_ok s \<longleftrightarrow> length (file_tb s) = FILE_TABLE_SIZE \<and> (\<forall>f \<in> set (file_tb s). 0 \<le> fl_ref f) \<and>
     (\<forall>t. fds_ok (dev_tb s) (file_tb s) (tk_file_table (tasks s t))) \<and> dev_inv (dev_tb s) \<and> vectors_ok s \<and>
     mutex_idle File_alloc_mutex s"

lemma fds_ok_mono:
  assumes "fds_ok dt ft fds" "\<And>j. j < DEV_TABLE_SIZE \<Longrightarrow> dev_used (dt ! j) \<Longrightarrow> dev_used (dt' ! j)"
    and "\<And>i. i < FILE_TABLE_SIZE \<Longrightarrow> 0 < fl_ref (ft ! i) \<Longrightarrow>
       fl_type (ft' ! i) = fl_type (ft ! i) \<and> fl_dev_id (ft' ! i) = fl_dev_id (ft ! i) \<and> 0 < fl_ref (ft' ! i)"
  shows "fds_ok dt' ft' fds"
  using assms unfolding fds_ok_def file_live_def by (metis (no_types, lifting))

lemma fds_ok_put: "fds_ok dt ft fds \<Longrightarrow> i < FILE_TABLE_SIZE \<Longrightarrow> file_live dt (ft ! i) \<Longrightarrow> fds_ok dt ft (fds[k := Some i])"
  using set_update_subset_insert [of fds k "Some i"] by (auto simp: fds_ok_def)

lemma fds_ok_drop: "fds_ok dt ft fds \<Longrightarrow> fds_ok dt ft (fds[k := None])"
  using set_update_subset_insert [of fds k None] by (auto simp: fds_ok_def)

subsection \<open>The file table\<close>

lemma free_file_Some: "free_file i fs = Some j \<Longrightarrow> i \<le> j \<and> j < i + length fs \<and> fl_ref (fs ! (j - i)) = 0"
proof (induction fs arbitrary: i)
  case (Cons f fs)
  show ?case
  proof (cases "fl_ref f = 0")
    case False
    with Cons.prems have "free_file (Suc i) fs = Some j" by simp
    from Cons.IH [OF this] show ?thesis by (auto simp: nth_Cons' Suc_diff_le [symmetric] less_eq_Suc_le)
  qed (use Cons.prems in auto)
qed simp

lemma mutex_held_fs [simp]:
  fixes s :: "'a fs_state_scheme"
  shows "file_tb (mutex_held m s) = file_tb s" "tasks (mutex_held m s) = tasks s" "curr_task (mutex_held m s) = curr_task s"
  by (simp_all add: mutex_held_def upd_mutex_def)

lemma upd_file_held:
  fixes s :: "'a fs_state_scheme"
  shows "upd_file i f (mutex_held m s) = upd_mutex m (\<lambda>_. mutexes (mutex_held m s) m) (upd_file i f s)"
  by (simp add: upd_file_def mutex_held_def upd_mutex_def)

lemma file_alloc_idle:
  assumes "mutex_idle File_alloc_mutex s"
  shows "file_alloc s = Done (free_file 0 (file_tb s))
    (case free_file 0 (file_tb s) of None \<Rightarrow> s | Some i \<Rightarrow> upd_file i (\<lambda>_. no_file\<lparr>fl_ref := 1\<rparr>) s)"
proof (cases "free_file 0 (file_tb s)")
  case None
  then show ?thesis unfolding file_alloc_def
    by (intro with_mutex_idle [OF assms]) (simp_all add: mutex_held_def upd_mutex_def)
next
  case (Some i)
  then show ?thesis unfolding file_alloc_def
    by (intro with_mutex_idle [OF assms]) (simp_all add: upd_file_held, simp_all add: upd_file_def)
qed

lemma file_free_idle:
  assumes "mutex_idle File_alloc_mutex s" "i < length (file_tb s)" "fl_ref (file_tb s ! i) \<noteq> 0"
  shows "file_free i s = Done () (upd_file i (\<lambda>f. f\<lparr>fl_ref := fl_ref f - 1\<rparr>) s)"
  unfolding file_free_def using assms(2,3)
  by (intro with_mutex_idle [OF assms(1)]) (simp_all add: upd_file_held, simp_all add: upd_file_def)


lemma free_fd_Some: "free_fd i fs = Some j \<Longrightarrow> i \<le> j \<and> j < i + length fs \<and> fs ! (j - i) = None"
proof (induction fs arbitrary: i)
  case (Cons f fs)
  show ?case
  proof (cases "f = None")
    case False
    with Cons.prems have "free_fd (Suc i) fs = Some j" by (simp split: if_splits)
    from Cons.IH [OF this] show ?thesis by (auto simp: nth_Cons' Suc_diff_le [symmetric] less_eq_Suc_le)
  qed (use Cons.prems in auto)
qed simp

text \<open>A state whose table differs from an invariant one in the entry \<open>i\<close>, that no descriptor names, and
  whose descriptors are the old ones or one more, for \<open>i\<close>.\<close>

lemma files_ok_entry:
  assumes "files_ok s" "i < FILE_TABLE_SIZE" "fl_ref (file_tb s ! i) = 0"
    and "file_tb s' = (file_tb s)[i := f]" "0 \<le> fl_ref f" "dev_inv (dev_tb s')" "vectors_ok s'" "mutex_idle File_alloc_mutex s'"
    and used: "\<And>j. j < DEV_TABLE_SIZE \<Longrightarrow> dev_used (dev_tb s ! j) \<Longrightarrow> dev_used (dev_tb s' ! j)"
    and fds: "\<And>t. tk_file_table (tasks s' t) = tk_file_table (tasks s t) \<or>
       (\<exists>k. tk_file_table (tasks s' t) = (tk_file_table (tasks s t))[k := None]) \<or>
       file_live (dev_tb s') f \<and> (\<exists>k. tk_file_table (tasks s' t) = (tk_file_table (tasks s t))[k := Some i])"
  shows "files_ok s'"
proof -
  have old: "length (file_tb s) = FILE_TABLE_SIZE" "\<forall>f \<in> set (file_tb s). 0 \<le> fl_ref f"
    "fds_ok (dev_tb s) (file_tb s) (tk_file_table (tasks s t))" for t
    using assms(1) by (auto simp: files_ok_def)
  have "fds_ok (dev_tb s') (file_tb s') (tk_file_table (tasks s t))" for t
    by (rule fds_ok_mono [OF old(3) used]) (use assms(2-4) old(1) in \<open>auto simp: nth_list_update\<close>)
  then have "fds_ok (dev_tb s') (file_tb s') (tk_file_table (tasks s' t))" for t
    using fds [of t] assms(2,4) old(1) fds_ok_drop fds_ok_put [of "dev_tb s'" "file_tb s'" _ i] by auto
  moreover have "\<forall>g \<in> set (file_tb s'). 0 \<le> fl_ref g"
    using old(2) assms(4,5) set_update_subset_insert [of "file_tb s" i f] by auto
  ultimately show ?thesis using assms(4,6-8) old(1) by (simp add: files_ok_def)
qed

subsection \<open>Opening a terminal\<close>

lemma upd_file_sel [simp]:
  fixes s :: "'a fs_state_scheme"
  shows "file_tb (upd_file i f s) = (file_tb s)[i := f (file_tb s ! i)]" "tasks (upd_file i f s) = tasks s"
    "curr_task (upd_file i f s) = curr_task s" "dev_tb (upd_file i f s) = dev_tb s"
    "mutexes (upd_file i f s) = mutexes s" "phys (upd_file i f s) = phys s" "cr3 (upd_file i f s) = cr3 s"
    "vectors_ok (upd_file i f s) = vectors_ok s" "mutex_idle m (upd_file i f s) = mutex_idle m s"
  by (simp_all add: upd_file_def vectors_ok_def mutex_idle_def)

lemma upd_task_fs [simp]:
  fixes s :: "'a fs_state_scheme"
  shows "file_tb (upd_task t f s) = file_tb s" "dev_tb (upd_task t f s) = dev_tb s" "vectors_ok (upd_task t f s) = vectors_ok s"
    "phys (upd_task t f s) = phys s" "cr3 (upd_task t f s) = cr3 s" "mutexes (upd_task t f s) = mutexes s"
    "curr_task (upd_task t f s) = curr_task s" "mutex_idle m (upd_task t f s) = mutex_idle m s"
  by (simp_all add: upd_task_def vectors_ok_def mutex_idle_def)

definition fds_of :: "'a sched_state_scheme \<Rightarrow> nat option list" where
  "fds_of s = tk_file_table (tasks s (curr_task s))"

lemma task_remove_fd_fds:
  fixes s :: "'a fs_state_scheme"
  assumes "k < 128"
  shows "task_remove_fd (int k) s = upd_task (curr_task s) (\<lambda>t. t\<lparr>tk_file_table := (tk_file_table t)[k := None]\<rparr>) s"
  using assms by (simp add: task_remove_fd_def task_current_def)

text \<open>Without a free file or a free descriptor the call fails and no descriptor changes.\<close>

lemma open_tty_no_file:
  assumes "mutex_idle File_alloc_mutex s" "free_file 0 (file_tb s) = None"
  shows "open_tty lk name s = Done (-1) s"
  using assms by (simp add: open_tty_def file_alloc_idle sys_open_failed_def)

lemma open_tty_no_fd:
  assumes "mutex_idle File_alloc_mutex s" "free_file 0 (file_tb s) = Some i" "free_fd 0 (fds_of s) = None"
  shows "open_tty lk name s = Done (-1) (upd_file i (\<lambda>_. no_file) s)"
proof -
  let ?s = "upd_file i (\<lambda>_. no_file\<lparr>fl_ref := 1\<rparr>) s"
  have i: "i < length (file_tb s)" using free_file_Some [OF assms(2)] by simp
  have "file_free i ?s = Done () (upd_file i (\<lambda>f. f\<lparr>fl_ref := fl_ref f - 1\<rparr>) ?s)"
    by (rule file_free_idle) (use assms(1) i in simp_all)
  moreover have "upd_file i (\<lambda>f. f\<lparr>fl_ref := fl_ref f - 1\<rparr>) ?s = upd_file i (\<lambda>_. no_file) s"
    using i by (simp add: upd_file_def no_file_def)
  moreover have "task_alloc_fd i ?s = (-1, ?s)"
    using assms(3) by (simp add: task_alloc_fd_def task_current_def fds_of_def)
  ultimately show ?thesis
    using assms(1,2) by (simp add: open_tty_def file_alloc_idle sys_open_failed_def)
qed

text \<open>The state of a call that has its file \<open>i\<close> and its descriptor \<open>k\<close>.\<close>

definition half_open :: "nat \<Rightarrow> nat \<Rightarrow> 'a fs_state_scheme \<Rightarrow> 'a fs_state_scheme" where
  "half_open i k s = upd_task (curr_task s) (\<lambda>t. t\<lparr>tk_file_table := (tk_file_table t)[k := Some i]\<rparr>)
     (upd_file i (\<lambda>_. no_file\<lparr>fl_ref := 1\<rparr>) s)"

lemma open_tty_half:
  assumes "mutex_idle File_alloc_mutex s" "free_file 0 (file_tb s) = Some i" "free_fd 0 (fds_of s) = Some k"
  shows "open_tty lk name s =
    (case dev_open (lk_isr lk) DEV_TTY (sint (uview (half_open i k s) (name + 4)) - 48) 0 (half_open i k s) of
       Inl e \<Rightarrow> Fault e
     | Inr (dev_id, s3) \<Rightarrow>
         if dev_id < 0 then sys_open_failed (Some i) (int k) s3
         else Done (int k) (upd_file i (\<lambda>f. f\<lparr>fl_dev_id := dev_id, fl_mod := 0, fl_pos := 0, fl_ref := 1,
                fl_type := FILE_TTY, fl_name := load_bytes (uview s3) name FILE_NAME_SIZE\<rparr>) s3))"
proof -
  let ?s = "upd_file i (\<lambda>_. no_file\<lparr>fl_ref := 1\<rparr>) s"
  have "task_alloc_fd i ?s = (int k, half_open i k s)"
    using assms(3) by (simp add: task_alloc_fd_def task_current_def fds_of_def half_open_def)
  then show ?thesis using assms(1,2) by (simp add: open_tty_def file_alloc_idle Let_def)
qed

lemma half_open_sel [simp]:
  fixes s :: "'a fs_state_scheme"
  shows "file_tb (half_open i k s) = (file_tb s)[i := no_file\<lparr>fl_ref := 1\<rparr>]" "curr_task (half_open i k s) = curr_task s"
    "dev_tb (half_open i k s) = dev_tb s" "vectors_ok (half_open i k s) = vectors_ok s" "mutexes (half_open i k s) = mutexes s"
    "uview (half_open i k s) = uview s" "tk_file_table (tasks (half_open i k s) t) =
       (if t = curr_task s then (fds_of s)[k := Some i] else tk_file_table (tasks s t))"
  by (simp_all add: half_open_def uview_def fun_eq_iff fds_of_def split: option.split)

definition tty_number :: "u32 \<Rightarrow> 'a fs_state_scheme \<Rightarrow> int" where
  "tty_number name s = sint (uview s (name + 4)) - 48"

lemma tty_number_half [simp]: "tty_number name (half_open i k s) = tty_number name s"
  by (simp add: tty_number_def)

lemma sys_open_failed_half:
  assumes "mutex_idle File_alloc_mutex s" "i < length (file_tb s)" "fl_ref (file_tb s ! i) = 1" "k < 128"
  shows "sys_open_failed (Some i) (int k) s =
    Done (-1) (upd_task (curr_task s) (\<lambda>t. t\<lparr>tk_file_table := (tk_file_table t)[k := None]\<rparr>)
      (upd_file i (\<lambda>f. f\<lparr>fl_ref := fl_ref f - 1\<rparr>) s))"
  using assms by (simp add: sys_open_failed_def file_free_idle task_remove_fd_fds)

text \<open>All outcomes of the call: failure, with every descriptor as it was, or the lowest free descriptor on a
  file of its own, of the device of the terminal.\<close>

lemma open_tty_outcomes:
  assumes "files_ok s"
  obtains (failed) s' where "open_tty lk name s = Done (-1) s'" "files_ok s'" "curr_task s' = curr_task s"
      "\<And>t. tk_file_table (tasks s' t) = tk_file_table (tasks s t)" 
      "free_file 0 (file_tb s) = None \<or> free_fd 0 (fds_of s) = None \<or> \<not> (0 \<le> tty_number name s \<and> tty_number name s < 8)"
  | (opened) k i s' where "open_tty lk name s = Done (int k) s'" "files_ok s'" "curr_task s' = curr_task s"
      "\<And>t. tk_file_table (tasks s' t) = (if t = curr_task s then (fds_of s)[k := Some i] else tk_file_table (tasks s t))"
      "free_fd 0 (fds_of s) = Some k" "free_file 0 (file_tb s) = Some i" "fl_ref (file_tb s' ! i) = 1"
      "dv_minor (dev_tb s' ! nat (fl_dev_id (file_tb s' ! i))) = tty_number name s"
proof -
  have idle: "mutex_idle File_alloc_mutex s" and inv: "dev_inv (dev_tb s)" "vectors_ok s" "length (file_tb s) = FILE_TABLE_SIZE"
    and fds: "length (fds_of s) = 128"
    using assms by (auto simp: files_ok_def fds_ok_def fds_of_def)
  show thesis
  proof (cases "free_file 0 (file_tb s)")
    case None
    then show thesis using failed assms open_tty_no_file [OF idle] by blast
  next
    case (Some i)
    have i: "i < FILE_TABLE_SIZE" "fl_ref (file_tb s ! i) = 0" using free_file_Some [OF Some] inv(3) by simp_all
    show thesis
    proof (cases "free_fd 0 (fds_of s)")
      case None
      show thesis
      proof (rule failed [OF open_tty_no_fd [OF idle Some None]])
        show "files_ok (upd_file i (\<lambda>_. no_file) s)"
          by (rule files_ok_entry [OF assms i, where f = no_file]) (use inv idle in \<open>simp_all add: no_file_def\<close>)
      qed (use None in simp_all)
    next
      case fd: (Some k)
      have k: "k < 128" "fds_of s ! k = None" using free_fd_Some [OF fd] fds by simp_all
      let ?h = "half_open i k s" and ?n = "tty_number name s"
      obtain dev_id s3 where d: "dev_open (lk_isr lk) DEV_TTY ?n 0 ?h = Inr (dev_id, s3)" "fs_same ?h s3" "dev_inv (dev_tb s3)"
        "\<And>j. j < DEV_TABLE_SIZE \<Longrightarrow> dev_used (dev_tb s ! j) \<Longrightarrow> dev_used (dev_tb s3 ! j)"
        "dev_id = -1 \<or> (\<exists>j<DEV_TABLE_SIZE. dev_id = int j \<and> dev_match ?n (dev_tb s3 ! j))"
        "0 \<le> ?n \<Longrightarrow> ?n < 8 \<Longrightarrow> 0 \<le> dev_id"
        using dev_open_any [of ?h "lk_isr lk" ?n 0] inv by auto
      have s3: "file_tb s3 = (file_tb s)[i := no_file\<lparr>fl_ref := 1\<rparr>]" "curr_task s3 = curr_task s" "vectors_ok s3"
        "mutex_idle File_alloc_mutex s3" "tasks s3 = tasks ?h"
        using d(2) inv(2) idle by (simp_all add: fs_same_def mutex_idle_def)
      note call = open_tty_half [OF idle Some fd, of lk name, folded tty_number_def, unfolded tty_number_half]
      show thesis
      proof (cases "dev_id < 0")
        case True
        let ?s = "upd_task (curr_task s3) (\<lambda>t. t\<lparr>tk_file_table := (tk_file_table t)[k := None]\<rparr>)
          (upd_file i (\<lambda>f. f\<lparr>fl_ref := fl_ref f - 1\<rparr>) s3)"
        have t: "tk_file_table (tasks ?s t) = tk_file_table (tasks s t)" for t
          using k list_update_id [of "fds_of s" k] by (simp add: s3 upd_task_def fds_of_def)
        show thesis
        proof (rule failed)
          show "open_tty lk name s = Done (-1) ?s"
            using d(1) True s3 i inv(3) k sys_open_failed_half [of s3 i k] by (simp add: call)
          show "files_ok ?s"
            by (rule files_ok_entry [OF assms i, where f = no_file])
              (use s3 d(3,4) i inv(3) t in \<open>simp_all add: no_file_def\<close>)
        qed (use s3 t d(6) True in auto)
      next
        case False
        then obtain j where j: "j < DEV_TABLE_SIZE" "dev_id = int j" "dev_match ?n (dev_tb s3 ! j)" using d(5) by auto
        let ?f = "(no_file\<lparr>fl_ref := 1\<rparr>)\<lparr>fl_dev_id := dev_id, fl_mod := 0, fl_pos := 0, fl_ref := 1,
                fl_type := FILE_TTY, fl_name := load_bytes (uview s3) name FILE_NAME_SIZE\<rparr>"
        let ?s = "upd_file i (\<lambda>f. f\<lparr>fl_dev_id := dev_id, fl_mod := 0, fl_pos := 0, fl_ref := 1,
                fl_type := FILE_TTY, fl_name := load_bytes (uview s3) name FILE_NAME_SIZE\<rparr>) s3"
        have live: "file_live (dev_tb s3) ?f" using j by (simp add: file_live_def dev_match_def)
        have t: "tk_file_table (tasks ?s t) = (if t = curr_task s then (fds_of s)[k := Some i] else tk_file_table (tasks s t))" for t
          by (simp add: s3)
        have tb: "file_tb ?s = (file_tb s)[i := ?f]" using s3 i inv(3) by simp
        show thesis
        proof (rule opened)
          show "open_tty lk name s = Done (int k) ?s" using d(1) False by (simp add: call)
          show "files_ok ?s"
            by (rule files_ok_entry [OF assms i tb]) (use s3 d(3,4) live t in \<open>simp_all add: fds_of_def\<close>, blast)
        qed (use s3 t fd Some j tb i inv(3) in \<open>auto simp: dev_match_def\<close>)
      qed
    qed
  qed
qed

subsection \<open>Reading the program image\<close>

text \<open>The disk driver polls and writes ports, and changes nothing else of the processor.\<close>

definition ports_only :: "'a cpu_state_scheme \<Rightarrow> 'a cpu_state_scheme \<Rightarrow> bool" where
  "ports_only s s' \<longleftrightarrow> (\<exists>r w. s' = s\<lparr>port_reads := r, port_out := w\<rparr>)"

lemma ports_only_refl: "ports_only s s"
  unfolding ports_only_def by (intro exI [of _ "port_reads s"] exI [of _ "port_out s"]) simp

lemma ports_only_trans: "ports_only s s' \<Longrightarrow> ports_only s' s'' \<Longrightarrow> ports_only s s''"
  unfolding ports_only_def by fastforce

lemma ports_only_io: "ports_only s (snd (inb p s))" "ports_only s (outb p v s)"
  unfolding ports_only_def inb_def outb_def Let_def
  by (rule exI [of _ "(port_reads s)(p := Suc (port_reads s p))"], rule exI [of _ "port_out s"], simp)
    (rule exI [of _ "port_reads s"], rule exI [of _ "port_out s @ [(p, v)]"], simp)

lemma disk_wait_ports:
  assumes "disk_wait s = Some s'"
  shows "ports_only s s'"
proof (rule disk_wait.raw_induct [OF _ assms], goal_cases)
  case (1 wait s s')
  let ?s = "snd (inb 0x1F7 s)"
  from 1(2) have "wait ?s = Some s' \<or> s' = ?s" by (auto simp: case_prod_unfold Let_def split: if_splits)
  then show ?case using 1(1) [of ?s s'] ports_only_io(1) [of s "0x1F7"] ports_only_trans [of s ?s s'] by auto
qed

lemma read_sectors_ports: "read_sectors n p s d m = Some (s', d', m') \<Longrightarrow> ports_only s s'"
proof (induction n arbitrary: p s d m)
  case (Suc n)
  then obtain s1 where "disk_wait s = Some s1" "ports_only s1 s'"
    by (cases "disk_wait s") (auto simp: case_prod_unfold Let_def)
  then show ?case using disk_wait_ports ports_only_trans by blast
qed (simp add: ports_only_refl)

lemma read_disk_ports: "read_disk sector n p s d m = Some (s', d', m') \<Longrightarrow> ports_only s s'"
proof -
  have "ports_only s (fold (\<lambda>(p, v). outb p v) cs s)" for cs
    by (induction cs arbitrary: s) (auto intro: ports_only_refl ports_only_trans [OF ports_only_io(2)])
  then show "read_disk sector n p s d m = Some (s', d', m') \<Longrightarrow> ports_only s s'"
    unfolding read_disk_def by (blast intro: ports_only_trans dest: read_sectors_ports)
qed

subsection \<open>Calls that keep the tables\<close>

text \<open>\<open>kept s s'\<close>: the files and devices are the same, and every descriptor of every task is what it was or is free.\<close>

definition fewer_fds :: "nat option list \<Rightarrow> nat option list \<Rightarrow> bool" where
  "fewer_fds T T' \<longleftrightarrow> list_all2 (\<lambda>a b. b = a \<or> b = None) T T'"

lemma fewer_fds_refl [simp]: "fewer_fds T T"
  by (simp add: fewer_fds_def list_all2_refl)

lemma fewer_fds_trans: "fewer_fds T T' \<Longrightarrow> fewer_fds T' T'' \<Longrightarrow> fewer_fds T T''"
  unfolding fewer_fds_def by (rule list_all2_trans) auto

lemma fewer_fds_set: "fewer_fds T T' \<Longrightarrow> length T' = length T \<and> set T' \<subseteq> insert None (set T)"
  unfolding fewer_fds_def by (induction rule: list_all2_induct) auto

lemma fewer_fds_clear: "fewer_fds T (clear_slots n fd T)"
  by (simp add: fewer_fds_def list_all2_conv_all_nth clear_slots_nth)

definition kept :: "'a fs_state_scheme \<Rightarrow> 'a fs_state_scheme \<Rightarrow> bool" where
  "kept s s' \<longleftrightarrow> file_tb s' = file_tb s \<and> dev_tb s' = dev_tb s \<and> mutexes s' = mutexes s \<and> (vectors_ok s \<longrightarrow> vectors_ok s') \<and>
     (\<forall>t. fewer_fds (tk_file_table (tasks s t)) (tk_file_table (tasks s' t)))"

lemma kept_refl [simp]: "kept s s"
  by (simp add: kept_def)

lemma kept_trans:
  assumes "kept s s'" "kept s' s''"
  shows "kept s s''"
proof -
  have "fewer_fds (tk_file_table (tasks s t)) (tk_file_table (tasks s'' t))" for t
    by (rule fewer_fds_trans [of _ "tk_file_table (tasks s' t)"]) (use assms in \<open>simp_all add: kept_def\<close>)
  then show ?thesis using assms by (simp add: kept_def)
qed

lemma files_ok_kept:
  assumes "files_ok s" "kept s s'"
  shows "files_ok s'"
proof -
  have "fds_ok (dev_tb s) (file_tb s) (tk_file_table (tasks s' t))" for t
  proof -
    have "fewer_fds (tk_file_table (tasks s t)) (tk_file_table (tasks s' t))" using assms(2) by (simp add: kept_def)
    moreover have "fds_ok (dev_tb s) (file_tb s) (tk_file_table (tasks s t))" using assms(1) by (simp add: files_ok_def)
    ultimately show ?thesis unfolding fds_ok_def by (blast dest: fewer_fds_set intro: trans)
  qed
  then show ?thesis using assms by (simp add: files_ok_def kept_def mutex_idle_def)
qed

lemma kept_upd_task: "(\<And>x. tk_file_table (f x) = tk_file_table x) \<Longrightarrow> kept s (upd_task t f s)"
  by (simp add: kept_def)

lemma kept_ops:
  fixes s :: "'a fs_state_scheme"
  shows "kept s (irq_leave_proection st s)" "kept s (irq_disable_global s)" "kept s (s\<lparr>nodes := h, ready_list := l\<rparr>)"
    "kept s (s\<lparr>nodes := h, sleep_list := l\<rparr>)" "kept s (s\<lparr>curr_task := t\<rparr>)" "kept s (s\<lparr>eflags := e, cr3 := c\<rparr>)"
    "kept s (log_line f a s)" "kept s (s\<lparr>disk := d, phys := m\<rparr>)" "kept s (s\<lparr>temp_pos := p\<rparr>)"
    "kept s (s\<lparr>port_reads := r, port_out := w\<rparr>)"
  by (simp_all add: kept_def vectors_ok_def log_line_def irq_leave_proection_def irq_disable_global_def)

lemmas kept_steps = kept_ops [THEN kept_trans [rotated]]

lemma kept_set_block: "kept s (task_set_block t s)"
  by (simp add: task_set_block_def case_prod_unfold Let_def kept_ops)

lemma kept_set_ready: "task_set_ready t s = Inr s' \<Longrightarrow> kept s s'"
  by (auto simp: task_set_ready_def res_bind_eq_Inr case_prod_unfold intro!: kept_ops kept_trans [OF kept_ops(3) kept_upd_task]
      split: if_splits)

lemma kept_set_sleep: "task_set_sleep t n s = Inr s' \<Longrightarrow> kept s s'"
  by (auto simp: task_set_sleep_def res_bind_eq_Inr case_prod_unfold Let_def intro!: kept_trans [OF kept_upd_task kept_ops(4)]
      split: if_splits)

text \<open>The state a call has reached when it returns or gives the processor away.\<close>

fun reached :: "('s, 'a) outcome \<Rightarrow> 's set" where
  "reached (Done r s) = {s}"
| "reached (Switch s k) = {s}"
| "reached (Fault e) = {}"

lemma reached_kbind:
  assumes "s' \<in> reached (kbind m f)" "\<And>s1. s1 \<in> reached m \<Longrightarrow> kept s s1" "\<And>x s1 s2. s2 \<in> reached (f x s1) \<Longrightarrow> kept s1 s2"
  shows "kept s s'"
  using assms(1) by (cases m) (auto intro: kept_trans [OF assms(2) assms(3)] assms(2))

lemma reached_kstep: "s' \<in> reached (kstep m) \<longleftrightarrow> m = Inr s'"
  by (cases m) (auto simp: kstep_def)

lemma kept_dispatch: "s' \<in> reached (task_dispatch s) \<Longrightarrow> kept s s'"
proof -
  have switch: "kept x (task_switch_from_to u v x)" for u v and x :: "'a fs_state_scheme"
    unfolding task_switch_from_to_def Let_def by (rule kept_trans [OF kept_upd_task kept_ops(6)]) simp
  have up: "kept x (upd_task v (\<lambda>t. t\<lparr>tk_state := TASK_RUNNING\<rparr>) x)" for v and x :: "'a fs_state_scheme"
    by (rule kept_upd_task) simp
  show "s' \<in> reached (task_dispatch s) \<Longrightarrow> kept s s'"
    by (auto simp: task_dispatch_def irq_enter_proection_def Let_def split: option.splits if_splits
        intro!: kept_steps switch [THEN kept_trans [rotated]] up [THEN kept_trans [rotated]])
qed

lemma kept_switch_calls:
  fixes s :: "'a fs_state_scheme"
  shows "s' \<in> reached (sys_yield s) \<Longrightarrow> kept s s'" "s' \<in> reached (sys_sleep ms s) \<Longrightarrow> kept s s'"
    "s' \<in> reached (sys_exit status s) \<Longrightarrow> kept s s'"
proof -
  define q where "q = irq_disable_global s"
  have e: "irq_enter_proection s = (eflags s, q)" and q: "kept s q" by (simp_all add: q_def irq_enter_proection_def kept_ops)
  have block: "kept s (task_set_block t q)" for t by (rule kept_trans [OF q kept_set_block])
  have "kept s s1" if "s1 \<in> reached (kbind (kstep (task_set_ready t (task_set_block t q))) (\<lambda>_ s2. task_dispatch s2))" for s1 t
    using that by (rule reached_kbind) (auto simp: reached_kstep dest: kept_set_ready kept_dispatch intro: kept_trans [OF block])
  then show "kept s s'" if "s' \<in> reached (sys_yield s)"
    using that unfolding sys_yield_def e Let_def prod.case
    by (elim reached_kbind) (auto simp: q kept_ops split: if_splits)
  show "kept s s'" if "s' \<in> reached (sys_sleep ms s)"
    using that unfolding sys_sleep_def e Let_def prod.case
    by (elim reached_kbind) (auto simp: reached_kstep kept_ops dest: kept_set_sleep kept_dispatch intro: kept_trans [OF block])
  show "kept s s'" if "s' \<in> reached (sys_exit status s)"
  proof -
    let ?t = "curr_task s"
    let ?s1 = "close_fds (nat TASK_OFILE_NR) 0 ?t s"
    let ?s2 = "upd_task ?t (\<lambda>t. t\<lparr>tk_status := status, tk_state := TASK_ZOMBIE\<rparr>) (irq_disable_global ?s1)"
    have "kept s ?s1" by (simp add: close_fds_eq kept_def fewer_fds_clear)
    moreover have "kept ?s1 (irq_disable_global ?s1)" by (rule kept_ops)
    moreover have "kept (irq_disable_global ?s1) ?s2" by (rule kept_upd_task) simp
    moreover have "kept ?s2 (task_set_block ?t ?s2)" by (rule kept_set_block)
    ultimately have z: "kept s (task_set_block ?t ?s2)" by (blast intro: kept_trans)
    have "s' \<in> reached (kbind (task_dispatch (task_set_block ?t ?s2)) (\<lambda>_ s4. Done () (irq_leave_proection (eflags ?s1) s4)))"
      using that by (simp add: sys_exit_def task_current_def irq_enter_proection_def Let_def)
    then show ?thesis by (elim reached_kbind) (auto simp: kept_ops dest: kept_dispatch intro: kept_trans [OF z])
  qed
qed

lemma files_ok_open_tty:
  assumes "files_ok s" "s' \<in> reached (open_tty lk name s)"
  shows "files_ok s'"
  by (rule open_tty_outcomes [OF assms(1), where lk = lk and name = name]) (use assms(2) in auto)

lemma files_ok_open:
  assumes "files_ok s" "s' \<in> reached (sys_open lk name flags s)"
  shows "files_ok s'"
proof -
  have rd: "kept s s'" if rd: "read_disk a b p (irq_disable_global s) d m = Some (t, d', m')"
    and s': "s' = (irq_leave_proection st (t\<lparr>disk := d', phys := m'\<rparr>))\<lparr>temp_pos := q\<rparr>" for a b p d m t d' m' st q
  proof -
    obtain r w where "t = (irq_disable_global s)\<lparr>port_reads := r, port_out := w\<rparr>"
      using read_disk_ports [OF rd] by (auto simp: ports_only_def)
    then show ?thesis unfolding s' by (intro kept_steps) (simp, intro kept_steps kept_refl)
  qed
  note rd_ok = files_ok_kept [OF assms(1) rd]
  have log_ok: "files_ok (log_line f a s)" for f a by (rule files_ok_kept [OF assms(1) kept_ops(7)])
  show ?thesis
    using assms(2) files_ok_open_tty [OF assms(1)] rd_ok log_ok assms(1)
    by (auto simp: sys_open_def irq_enter_proection_def case_prod_unfold Let_def split: option.splits if_splits)
qed

text \<open>A duplicate is the lowest free descriptor of the caller, on the same file, that counts one more reference.\<close>

lemma files_ok_dup:
  assumes "files_ok s"
  shows "files_ok (snd (sys_dup file s))"
proof (cases "fst (sys_dup file s) = -1")
  case True
  have "snd (sys_dup file s) = s \<or> (\<exists>f a. snd (sys_dup file s) = log_line f a s)"
    using True by (auto simp: sys_dup_def task_alloc_fd_def Let_def split: option.splits if_splits prod.splits)
  then show ?thesis using files_ok_kept [OF assms kept_ops(7)] assms by auto
next
  case False
  then obtain i k where i: "task_file file s = Some i" "free_fd 0 (fds_of s) = Some k"
    "sys_dup file s = (int k, upd_file i (\<lambda>f. f\<lparr>fl_ref := fl_ref f + 1\<rparr>)
       (upd_task (curr_task s) (\<lambda>t. t\<lparr>tk_file_table := (tk_file_table t)[k := Some i]\<rparr>) s))"
    by (auto simp: sys_dup_def task_alloc_fd_def task_current_def fds_of_def Let_def split: option.splits if_splits)
  let ?f = "(file_tb s ! i)\<lparr>fl_ref := fl_ref (file_tb s ! i) + 1\<rparr>"
  have ok: "length (file_tb s) = FILE_TABLE_SIZE" "\<forall>f \<in> set (file_tb s). 0 \<le> fl_ref f"
    "fds_ok (dev_tb s) (file_tb s) (tk_file_table (tasks s t))" for t
    using assms by (auto simp: files_ok_def)
  have "Some i \<in> set (fds_of s)" using i(1) ok(3) [of "curr_task s"]
    by (auto simp: task_file_def task_current_def fds_of_def fds_ok_def split: if_splits) (metis nat_less_iff nth_mem of_nat_numeral)
  then have live: "i < FILE_TABLE_SIZE" "file_live (dev_tb s) (file_tb s ! i)" using ok(3) by (auto simp: fds_ok_def fds_of_def)
  have old: "fds_ok (dev_tb s) ((file_tb s)[i := ?f]) (tk_file_table (tasks s t))" for t
    by (rule fds_ok_mono [OF ok(3)]) (use live ok(1) in \<open>auto simp: nth_list_update file_live_def\<close>)
  moreover have "file_live (dev_tb s) ((file_tb s)[i := ?f] ! i)" using live ok(1) by (simp add: file_live_def)
  ultimately have "fds_ok (dev_tb s) ((file_tb s)[i := ?f]) ((tk_file_table (tasks s t))[k := Some i])" for t
    using live(1) old by (intro fds_ok_put)
  moreover have "\<forall>g \<in> set ((file_tb s)[i := ?f]). 0 \<le> fl_ref g"
    using ok(2) live set_update_subset_insert [of "file_tb s" i ?f] by (auto simp: file_live_def)
  ultimately show ?thesis
    using assms old unfolding i(3) by (auto simp: files_ok_def)
qed

subsection \<open>Any sequence of calls\<close>

text \<open>One step of the file system: a call of the running task up to its end or to the point where it gives the
  processor to another task, or the return of a task that had given it away.\<close>

inductive file_call :: "link_t \<Rightarrow> 'a fs_state_scheme \<Rightarrow> 'a fs_state_scheme \<Rightarrow> bool" for lk where
  opens: "s' \<in> reached (sys_open lk name flags s) \<Longrightarrow> file_call lk s s'"
| dups: "s' = snd (sys_dup file s) \<Longrightarrow> file_call lk s s'"
| exits: "s' \<in> reached (sys_exit status s) \<Longrightarrow> file_call lk s s'"
| yields: "s' \<in> reached (sys_yield s) \<Longrightarrow> file_call lk s s'"
| sleeps: "s' \<in> reached (sys_sleep ms s) \<Longrightarrow> file_call lk s s'"
| returns: "s' = irq_leave_proection st s \<Longrightarrow> file_call lk s s'"

inductive_cases file_callE: "file_call lk s s'"

lemma file_call_ok: "file_call lk s s' \<Longrightarrow> files_ok s \<Longrightarrow> files_ok s'"
  by (elim file_callE) (auto intro: files_ok_open files_ok_dup files_ok_kept kept_switch_calls kept_ops)

text \<open>C16: descriptors never dangle.  Whatever the tasks open, duplicate or leave behind when they exit, and
  however the kernel switches between them, every descriptor of every task names an entry of the file
  table that has references, is a terminal, and names a device in use; no count becomes negative, and
  the mutex of the file table is free again.\<close>

theorem descriptors_stay_live:
  assumes "(file_call lk)\<^sup>*\<^sup>* s s'" "files_ok s"
  shows "files_ok s'"
  using assms by (induction rule: rtranclp_induct) (auto intro: file_call_ok)

text \<open>A sample: nothing is open, and the directory maps one page, at \<open>0x80000000\<close>, with a name in it.\<close>

definition name_page :: "u8 list \<Rightarrow> mem" where
  "name_page bs = put_bytes (put32 (put32 (\<lambda>_. 0) 0x100800 0x103007) 0x103000 0x102007) 0x102000 bs"

definition named :: "u8 list \<Rightarrow> fs_state" where
  "named bs = (call_start 0x80000000)\<lparr>phys := name_page bs, cr3 := 0x100000, file_tb := replicate FILE_TABLE_SIZE no_file,
     tasks := (\<lambda>t. (tasks (call_start 0x80000000) t)\<lparr>tk_file_table := replicate 128 None\<rparr>)\<rparr>"

lemma named_ok: "files_ok (named bs)"
proof -
  have "vectors_ok (named bs)" "dev_tb (named bs) = replicate DEV_TABLE_SIZE no_device" "mutex_idle File_alloc_mutex (named bs)"
    by (simp_all add: named_def call_start_def vm_start_def gdt_start_def mem_state.defs gdt_state.defs fs_state.defs
        vectors_ok_def mutex_idle_def list_init_def list_count_def)
  then show ?thesis
    by (simp add: files_ok_def empty_table_inv) (simp add: named_def fds_ok_def no_file_def)
qed

abbreviation tty3 :: fs_state where
  "tty3 \<equiv> named [0x74, 0x74, 0x79, 0x3a, 0x33]"

lemma tty3_bytes:
  "uview tty3 0x80000000 = 0x74" "uview tty3 0x80000001 = 0x74" "uview tty3 0x80000002 = 0x79" "uview tty3 0x80000003 = 0x3a"
  "uview tty3 0x80000004 = 0x33" "uview tty3 0x80000005 = 0"
  by (simp_all add: uview_def named_def name_page_def kview_def mmu_walk_def pde_ptr_def pte_ptr_def pde_index_def pte_index_def
      put32_def mem32_def pde_present_def pte_present_def pde_paddr_def pte_paddr_def MEMORY_TASK_BASE_def)

lemma tty3_name: "load_cstr (uview tty3) 0x80000000 = Some [0x74, 0x74, 0x79, 0x3a, 0x33]"
  by (simp add: load_cstr.simps [of _ "0x80000000"] load_cstr.simps [of _ "0x80000001"] load_cstr.simps [of _ "0x80000002"]
      load_cstr.simps [of _ "0x80000003"] load_cstr.simps [of _ "0x80000004"] load_cstr.simps [of _ "0x80000005"] tty3_bytes)

text \<open>What opening a terminal does.  With a free file, a free descriptor and a terminal number from 0 to 7 the
  call returns the lowest free descriptor; it names the first free file, which has one reference and belongs to
  the device of that terminal, and no other descriptor of any task changes.  Otherwise the call
  returns \<open>-1\<close> and every descriptor of every task is as it was, the one the call had taken included.\<close>

theorem sys_open_terminal:
  assumes "files_ok s" "name \<noteq> 0" "load_cstr (uview s) name = Some bs" "bs \<noteq> []" "strncmp_bytes bs (bytes_of ''tty'') = 0"
  shows "\<exists>r s'. sys_open lk name flags s = Done r s' \<and> files_ok s' \<and> curr_task s' = curr_task s \<and>
    (case (free_fd 0 (fds_of s), free_file 0 (file_tb s)) of
       (Some k, Some i) \<Rightarrow>
         if 0 \<le> tty_number name s \<and> tty_number name s < 8
         then r = int k \<and> fl_ref (file_tb s' ! i) = 1 \<and>
              dv_minor (dev_tb s' ! nat (fl_dev_id (file_tb s' ! i))) = tty_number name s \<and>
              (\<forall>t. tk_file_table (tasks s' t) =
                     (if t = curr_task s then (fds_of s)[k := Some i] else tk_file_table (tasks s t)))
         else r = -1 \<and> (\<forall>t. tk_file_table (tasks s' t) = tk_file_table (tasks s t))
     | _ \<Rightarrow> r = -1 \<and> (\<forall>t. tk_file_table (tasks s' t) = tk_file_table (tasks s t)))"
proof -
  have call: "sys_open lk name flags s = open_tty lk name s"
    using assms(2-5) by (simp add: sys_open_def is_path_valid_def)
  show ?thesis
  proof (rule open_tty_outcomes [OF assms(1), where lk = lk and name = name], goal_cases)
    case (1 s')
    then show ?thesis unfolding call by (auto split: option.splits)
  next
    case (2 k i s')
    have "Some i \<in> set (tk_file_table (tasks s' (curr_task s)))"
      using 2(4) [of "curr_task s"] free_fd_Some [OF 2(5)] assms(1) by (simp add: set_update_memI)
    then have live: "file_live (dev_tb s') (file_tb s' ! i)" and inv: "dev_inv (dev_tb s')"
      using 2(2) unfolding files_ok_def fds_ok_def by blast+
    have "0 \<le> tty_number name s \<and> tty_number name s < 8"
      using live inv nth_mem [of "nat (fl_dev_id (file_tb s' ! i))" "dev_tb s'"]
      unfolding 2(8) [symmetric] dev_inv_def file_live_def by auto
    then show ?thesis using 2 unfolding call by auto
  qed
qed

text \<open>The sample opens terminal 3.\<close>

lemma tty3_tables:
  "curr_task tty3 = First_task" "fds_of tty3 = replicate 128 None" "free_fd 0 (fds_of tty3) = Some 0"
  "free_file 0 (file_tb tty3) = Some 0" "tty_number 0x80000000 tty3 = 3"
proof -
  show "curr_task tty3 = First_task" by (simp add: named_def)
  show fds: "fds_of tty3 = replicate 128 None" by (simp add: named_def fds_of_def)
  have first: "replicate 128 (None :: nat option) = None # replicate 127 None"
    "replicate FILE_TABLE_SIZE no_file = no_file # replicate 1023 no_file"
    using replicate_Suc [of 127 "None :: nat option"] replicate_Suc [of 1023 no_file] by (simp_all add: FILE_TABLE_SIZE_def)
  show "free_fd 0 (fds_of tty3) = Some 0" unfolding fds first by simp
  have "file_tb tty3 = no_file # replicate 1023 no_file" unfolding first(2) [symmetric] by (simp add: named_def)
  then show "free_file 0 (file_tb tty3) = Some 0" by (simp add: no_file_def)
  show "tty_number 0x80000000 tty3 = 3" by (simp add: tty_number_def tty3_bytes)
qed

lemma tty3_is_tty: "strncmp_bytes [0x74, 0x74, 0x79, 0x3a, 0x33] (bytes_of ''tty'') = 0"
  by (simp add: bytes_of_def)

theorem sys_open_terminal_witness:
  "\<exists>s'. sys_open no_link 0x80000000 0 tty3 = Done 0 s' \<and> fds_of s' = (replicate 128 None)[0 := Some 0]"
proof -
  have "(0x80000000 :: u32) \<noteq> 0" by simp
  from sys_open_terminal [OF named_ok this tty3_name _ tty3_is_tty, of no_link 0] show ?thesis
    using tty3_tables by (auto simp: fds_of_def)
qed

theorem descriptors_stay_live_witness:
  "\<exists>s'. sys_open no_link 0x80000000 0 tty3 = Done 0 s' \<and> files_ok (snd (sys_dup 0 s'))"
proof (rule open_tty_outcomes [OF named_ok, where lk = no_link and name = "0x80000000"])
  fix k i s'
  assume "open_tty no_link 0x80000000 tty3 = Done (int k) s'" "free_fd 0 (fds_of tty3) = Some k"
  then have "sys_open no_link 0x80000000 0 tty3 = Done 0 s'"
    using tty3_tables tty3_is_tty by (simp add: sys_open_def is_path_valid_def tty3_name)
  moreover from this have "file_call no_link tty3 s'" "file_call no_link s' (snd (sys_dup 0 s'))"
    by (auto intro: opens [where name = "0x80000000" and flags = 0] dups)
  then have "(file_call no_link)\<^sup>*\<^sup>* tty3 (snd (sys_dup 0 s'))" by simp
  ultimately show ?thesis using descriptors_stay_live [OF _ named_ok] by blast
qed (use tty3_tables in simp_all)

end
