(* ===== verification/Apps.thy ===== *)
theory Apps
  imports Boot
begin

text \<open>
  The programs that run on the kernel: the first task, src/src/kernel/first_task/first_task.c, which
  starts a shell on each terminal, the start-up code src/src/applib/cstart.c and the shell,
  src/src/shell/shell.c.

  The first task is a state machine between its system calls.  The shell opens its terminal by the system
  calls of the library; from there on it is a function from the lines it reads to what it prints.  Functions of the C library that are not part of the repository are
  parameters: \<open>getopt\<close> gives the options of a command line in the order the library reports them, and
  the index of the first other argument; \<open>atoi\<close> reads a number.
\<close>

subsection \<open>The first task\<close>

datatype ft_pc = FT_fork int | FT_error | FT_exec int | FT_child_sleep | FT_sleep

datatype user_call = UFork | UPrint string int | UExec string "u8 list" | USleep int

text \<open>The name of the terminal has no terminating NUL: the array has room for five characters.\<close>

fun first_task_call :: "ft_pc \<Rightarrow> user_call" where
  "first_task_call (FT_fork i) = UFork"
| "first_task_call FT_error = UPrint ''create error%d'' 0"
| "first_task_call (FT_exec i) = UExec ''/shell.elf'' (bytes_of ''tty:'' @ [of_int (i + 48)])"
| "first_task_call FT_child_sleep = USleep 1000"
| "first_task_call FT_sleep = USleep 1000"

fun first_task_main :: "ft_pc \<Rightarrow> int \<Rightarrow> ft_pc" where
  "first_task_main (FT_fork i) pid =
     (if pid < 0 then FT_error
      else if pid = 0 then FT_exec i
      else if i + 1 < 8 then FT_fork (i + 1) else FT_sleep)"
| "first_task_main FT_error r = FT_sleep"
| "first_task_main (FT_exec i) r = FT_child_sleep"
| "first_task_main FT_child_sleep r = FT_child_sleep"
| "first_task_main FT_sleep r = FT_sleep"

subsection \<open>Starting a program\<close>

text \<open>The loop over the bss reads every byte and stores nothing.\<close>

function cstart_loop :: "u32 \<Rightarrow> u32 \<Rightarrow> mem \<Rightarrow> mem" where
  "cstart_loop start fin m = (if start < fin then cstart_loop (start + 1) fin m else m)"
  by pat_completeness auto
termination
proof (relation "measure (\<lambda>(start, fin, m). unat fin - unat start)", goal_cases)
  case (2 start fin m)
  have "unat fin < 2 ^ 32" using unsigned_less [of fin, where 'a = nat] by simp
  with 2 have "unat (start + 1) = Suc (unat start)" "unat start < unat fin"
    by (auto simp: unat_word_ariths word_less_nat_alt)
  then show ?case by simp
qed simp

declare cstart_loop.simps [simp del]

definition cstart :: "u32 \<Rightarrow> u32 \<Rightarrow> (mem \<Rightarrow> int \<times> mem) \<Rightarrow> mem \<Rightarrow> int \<times> mem" where
  "cstart bss_start bss_end main m = main (cstart_loop bss_start bss_end m)"

subsection \<open>The shell\<close>

datatype cmd = Do_help | Do_clear | Do_echo | Do_exit

record cli_cmd_t =
  cmd_name :: string
  cmd_usage :: string
  do_func :: cmd

datatype printed = Out string | Err string

record libc =
  getopt :: "string list \<Rightarrow> (char \<times> string option) list \<times> nat"
  atoi :: "string \<Rightarrow> int"

definition CLI_INPUT_SIZE :: nat where "CLI_INPUT_SIZE = 1024"

definition nl :: string where "nl = [CHR 0x0a]"
definition ESC_CMD2 :: "string \<Rightarrow> string \<Rightarrow> string" where "ESC_CMD2 pn cmd = CHR 0x1b # ''['' @ pn @ cmd"
definition ESC_CLEAR_SCREEN :: string where "ESC_CLEAR_SCREEN = ESC_CMD2 ''2'' ''J''"
definition ESC_COLOR_ERROR :: string where "ESC_COLOR_ERROR = ESC_CMD2 ''31'' ''m''"
definition ESC_COLOR_DEFAULT :: string where "ESC_COLOR_DEFAULT = ESC_CMD2 ''39'' ''m''"
definition ESC_MOVE_CURSOR :: "string \<Rightarrow> string \<Rightarrow> string" where
  "ESC_MOVE_CURSOR row col = CHR 0x1b # ''['' @ row @ '';'' @ col @ ''H''"

definition cmd_list :: "cli_cmd_t list" where
  "cmd_list =
     [\<lparr>cmd_name = ''help'', cmd_usage = ''help -- list support command'', do_func = Do_help\<rparr>,
      \<lparr>cmd_name = ''clear'', cmd_usage = ''clear -- clear screen'', do_func = Do_clear\<rparr>,
      \<lparr>cmd_name = ''echo'', cmd_usage = ''echo [-n count] msg -- echo something'', do_func = Do_echo\<rparr>,
      \<lparr>cmd_name = ''quit'', cmd_usage = ''quit test'', do_func = Do_exit\<rparr>]"

text \<open>The commands from \<open>cmd_start\<close> up to \<open>cmd_end\<close> are a list, and \<open>curr_input\<close> is the string in the buffer.\<close>

record cli_t =
  curr_input :: string
  cmds :: "cli_cmd_t list"
  promot :: string

definition cli_init :: "string \<Rightarrow> cli_cmd_t list \<Rightarrow> nat \<Rightarrow> cli_t" where
  "cli_init p cs n = \<lparr>curr_input = [], cmds = take n cs, promot = p\<rparr>"

definition do_help :: "cli_t \<Rightarrow> printed list" where
  "do_help cli = map (\<lambda>c. Out (cmd_name c @ '' '' @ cmd_usage c @ nl)) (cmds cli)"

definition do_clear :: "printed list" where
  "do_clear = [Out ESC_CLEAR_SCREEN, Out (ESC_MOVE_CURSOR ''0'' ''0'')]"

text \<open>The options of \<open>echo\<close>: the number of repetitions, or the result of a help or error exit.\<close>

fun echo_opts :: "libc \<Rightarrow> int \<Rightarrow> (char \<times> string option) list \<Rightarrow> int + (int \<times> printed list)" where
  "echo_opts lc count [] = Inl count"
| "echo_opts lc count ((ch, optarg) # rest) =
     (if ch = CHR ''h''
      then Inr (0, [Out (''echo any message'' @ nl), Out (''Usage: echo [-n count] message'' @ nl)])
      else if ch = CHR ''n'' then echo_opts lc (atoi lc (case optarg of Some a \<Rightarrow> a | None \<Rightarrow> [])) rest
      else if ch = CHR ''?''
      then Inr (-1, case optarg of Some a \<Rightarrow> [Err (''Unkown option -'' @ a @ nl)] | None \<Rightarrow> [])
      else echo_opts lc count rest)"

text \<open>\<open>line\<close> is what \<open>fgets\<close> reads when \<open>echo\<close> has no argument.\<close>

definition do_echo :: "libc \<Rightarrow> string \<Rightarrow> string list \<Rightarrow> int \<times> printed list" where
  "do_echo lc line argv =
     (if length argv = 1 then (0, [Out (line @ nl)])
      else let (opts, optind) = getopt lc argv
           in case echo_opts lc 1 opts of
                Inr (r, out) \<Rightarrow> (r, out)
              | Inl count \<Rightarrow>
                  if int optind > int (length argv) - 1 then (-1, [Err (''Message is empty'' @ nl)])
                  else (0, replicate (nat count) (Out (argv ! optind @ nl))))"

definition find_built_in :: "cli_t \<Rightarrow> string \<Rightarrow> cli_cmd_t option" where
  "find_built_in cli name = find (\<lambda>c. cmd_name c = name) (cmds cli)"

text \<open>What a command prints, and whether the shell goes on.\<close>

definition run_built_in :: "cli_t \<Rightarrow> libc \<Rightarrow> string \<Rightarrow> cli_cmd_t \<Rightarrow> string list \<Rightarrow> printed list \<times> bool" where
  "run_built_in cli lc line c argv =
     (case do_func c of
        Do_exit \<Rightarrow> ([], False)
      | Do_help \<Rightarrow> (do_help cli, True)
      | Do_clear \<Rightarrow> (do_clear, True)
      | Do_echo \<Rightarrow>
          (case do_echo lc line argv of
             (ret, out) \<Rightarrow>
               (out @ (if ret < 0 then [Err (''error: '' @ map (\<lambda>b. char_of (unat b)) (itoa_text 10 ret) @ nl)] else []), True)))"

text \<open>\<open>strtok\<close> with a space as separator.\<close>

fun tokens_acc :: "string \<Rightarrow> string \<Rightarrow> string list" where
  "tokens_acc acc [] = (if acc = [] then [] else [acc])"
| "tokens_acc acc (c # cs) =
     (if c = CHR '' '' then (if acc = [] then tokens_acc [] cs else acc # tokens_acc [] cs)
      else tokens_acc (acc @ [c]) cs)"

definition tokens :: "string \<Rightarrow> string list" where
  "tokens s = tokens_acc [] s"

definition cut_at :: "char \<Rightarrow> string \<Rightarrow> string" where
  "cut_at c s = takeWhile (\<lambda>x. x \<noteq> c) s"

text \<open>One round of the main loop for an input line.  \<open>argv\<close> has ten entries: an eleventh word is written
  past its end.  After \<open>strtok\<close> the input ends behind its first word.\<close>

definition shell_line :: "cli_t \<Rightarrow> libc \<Rightarrow> string \<Rightarrow> string \<Rightarrow> (printed list \<times> bool) res" where
  "shell_line cli lc line input =
     (let typed = cut_at (CHR 0x0d) (cut_at (CHR 0x0a) input);
          argv = tokens typed
      in if length argv > 10 then Inl OutOfBounds
         else case argv of
                [] \<Rightarrow> Inr ([], True)
              | name # _ \<Rightarrow>
                  (case find_built_in cli name of
                     Some c \<Rightarrow> Inr (run_built_in cli lc line c argv)
                   | None \<Rightarrow>
                       Inr ([Err (ESC_COLOR_ERROR @ ''Unkown command: '' @
                                  takeWhile (\<lambda>x. x = CHR '' '') typed @ name @ nl @ ESC_COLOR_DEFAULT)], True)))"

definition show_promot :: "cli_t \<Rightarrow> printed list" where
  "show_promot cli = [Out (promot cli)]"

text \<open>The main loop for what \<open>fgets\<close> returns, call after call, up to the point where the shell ends or waits for
  more; \<open>None\<close> is a null result.  A lone \<open>echo\<close> reads a line of its own, into a buffer that nothing has
  initialised.\<close>

fun shell_loop :: "cli_t \<Rightarrow> libc \<Rightarrow> string option list \<Rightarrow> printed list res" where
  "shell_loop cli lc [] = Inr (show_promot cli)"
| "shell_loop cli lc (None # rest) = res_bind (shell_loop cli lc rest) (\<lambda>out. Inr (show_promot cli @ out))"
| "shell_loop cli lc (Some input # rest) =
     (if tokens (cut_at (CHR 0x0d) (cut_at (CHR 0x0a) input)) = [''echo'']
      then (case rest of
              [] \<Rightarrow> Inr (show_promot cli)
            | None # _ \<Rightarrow> Inl Uninitialised
            | Some line # rest' \<Rightarrow>
                res_bind (shell_line cli lc line input) (\<lambda>(out, on).
                  if on then res_bind (shell_loop cli lc rest') (\<lambda>out'. Inr (show_promot cli @ out @ out'))
                  else Inr (show_promot cli @ out)))
      else res_bind (shell_line cli lc [] input) (\<lambda>(out, on).
             if on then res_bind (shell_loop cli lc rest) (\<lambda>out'. Inr (show_promot cli @ out @ out'))
             else Inr (show_promot cli @ out)))"

text \<open>The start: the terminal named by the first argument is opened, and duplicated twice, for the standard
  input, output and error.  \<open>junk\<close> is what the stack holds where a stub does not set its arguments.\<close>

definition shell_open ::
  "link_t \<Rightarrow> u32 \<Rightarrow> u32 \<Rightarrow> (nat \<Rightarrow> syscall_arg_t) \<Rightarrow> u32 \<Rightarrow> 'a fs_state_scheme \<Rightarrow> ('a fs_state_scheme, int) outcome" where
  "shell_open lk stk unknown junk argv0 s =
     kbind (sys_call lk stk unknown (open_call (junk 0) argv0 0) s) (\<lambda>fd s1.
     kbind (sys_call lk stk unknown (dup (junk 1) fd) s1) (\<lambda>_ s2.
     kbind (sys_call lk stk unknown (dup (junk 2) fd) s2) (\<lambda>_ s3.
     Done fd s3)))"

definition shell_main ::
  "link_t \<Rightarrow> u32 \<Rightarrow> u32 \<Rightarrow> (nat \<Rightarrow> syscall_arg_t) \<Rightarrow> u32 \<Rightarrow> libc \<Rightarrow> string option list \<Rightarrow> 'a fs_state_scheme \<Rightarrow>
   ('a fs_state_scheme, printed list res) outcome" where
  "shell_main lk stk unknown junk argv0 lc ins s =
     kbind (shell_open lk stk unknown junk argv0 s) (\<lambda>_ s1.
       Done (shell_loop (cli_init ''sh >>'' cmd_list (length cmd_list)) lc ins) s1)"

end
