(* ===== verification/Shell_Laws.thy ===== *)
theory Shell_Laws
  imports Files_Laws Apps
begin

text \<open>
  The shell on its terminal: after the three system calls of its start the descriptors 0, 1 and 2 of the task name
  one file, the terminal of its first argument.
\<close>

subsection \<open>Calls through the gate\<close>

lemma with_args_kept: "kept s (with_args args s)"
  by (simp add: with_args_def kept_def vectors_ok_def)

lemma put_frame_kept: "kept s (s\<lparr>phys := m\<rparr>)"
  by (simp add: kept_def vectors_ok_def)

lemma with_args_sel [simp]:
  "tasks (with_args args s) = tasks s" "curr_task (with_args args s) = curr_task s" "file_tb (with_args args s) = file_tb s"
  "dev_tb (with_args args s) = dev_tb s"
  by (simp_all add: with_args_def)

text \<open>A string that has been read is in memory, with its end behind it.\<close>

lemma load_cstr_nth: "load_cstr m p = Some bs \<Longrightarrow> i < length bs \<Longrightarrow> m (p + of_nat i) = bs ! i"
proof (induction bs arbitrary: p i)
  case (Cons b bs)
  have "load_cstr m p = (if m p = 0 then Some [] else Option.bind (load_cstr m (p + 1)) (\<lambda>xs. Some (m p # xs)))"
    by (rule load_cstr.simps)
  with Cons.prems(1) have b: "m p = b" "load_cstr m (p + 1) = Some bs" by (auto simp: bind_eq_Some_conv split: if_splits)
  show ?case
  proof (cases i)
    case (Suc j)
    then show ?thesis using Cons.IH [OF b(2), of j] Cons.prems(2) by (simp add: add_ac)
  qed (use b in simp)
qed simp

lemma terminal_digit:
  assumes "d < 8"
  shows "sint (48 + of_nat d :: u8) = 48 + int d"
proof -
  have "sint (of_int (48 + int d) :: u8) = 48 + int d"
    unfolding sint_sbintrunc' using assms by (simp add: signed_take_bit_int_eq_self)
  then show ?thesis by simp
qed

text \<open>The duplicate of an open descriptor.\<close>

lemma sys_dup_eq:
  fixes s :: "'a fs_state_scheme"
  assumes "fd < 128" "fds_of s ! fd = Some i" "free_fd 0 (fds_of s) = Some k"
  shows "sys_dup (int fd) s = (int k, upd_file i (\<lambda>f. f\<lparr>fl_ref := fl_ref f + 1\<rparr>)
     (upd_task (curr_task s) (\<lambda>t. t\<lparr>tk_file_table := (tk_file_table t)[k := Some i]\<rparr>) s))"
  using assms by (simp add: sys_dup_def task_file_def task_alloc_fd_def task_current_def fds_of_def)

lemma dup_call:
  fixes s :: "'a fs_state_scheme"
  assumes "fd < 128" "fds_of s ! fd = Some i" "free_fd 0 (fds_of s) = Some k" "k < 128" "i < length (file_tb s)"
  shows "\<exists>s'. sys_call lk stk unknown (dup junk (int fd)) s = Done (int k) s' \<and> curr_task s' = curr_task s \<and>
     fds_of s' = (fds_of s)[k := Some i] \<and> dev_tb s' = dev_tb s \<and>
     file_tb s' = (file_tb s)[i := (file_tb s ! i)\<lparr>fl_ref := fl_ref (file_tb s ! i) + 1\<rparr>] \<and>
     (\<forall>t. t \<noteq> curr_task s \<longrightarrow> tk_file_table (tasks s' t) = tk_file_table (tasks s t))"
proof -
  let ?a = "dup junk (int fd)" and ?s = "with_args (dup junk (int fd)) s"
  have fd: "sint (sa_arg0 ?a) = int fd" using assms(1) sint_of_int [of "int fd"] by (simp add: dup_def)
  have f: "fds_of ?s = fds_of s" by (simp add: fds_of_def)
  have "sys_handler (sa_id ?a) = Some H_dup" by (simp add: sys_handler_def sys_table_def dup_def SYS_defs)
  from handler_answer [OF this, of lk stk s "int k"] show ?thesis
    using assms sys_dup_eq [of fd ?s i k] by (auto simp: fd f fds_of_def)
qed

lemma free_fd_prefix: "None \<notin> set xs \<Longrightarrow> free_fd i (xs @ None # ys) = Some (i + length xs)"
  by (induction xs arbitrary: i) (auto simp: neq_commute [of None])

subsection \<open>The start of the shell\<close>

text \<open>C22: the shell gets its terminal.  A task without open files starts the shell with \<open>tty:\<close>\<open>d\<close> as its first argument.
  After the calls \<open>open\<close>, \<open>dup\<close> and \<open>dup\<close> the standard input, output and error are the same file, that has three
  references and belongs to terminal \<open>d\<close>, whatever the stack of the caller held; no other descriptor is
  in use, and the other tasks keep theirs.\<close>

theorem shell_gets_terminal:
  assumes "files_ok s" "fds_of s = replicate 128 None" "free_file 0 (file_tb s) = Some i" "d < 8" "argv0 \<noteq> 0"
    and "load_cstr (uview (with_args (open_call (junk 0) argv0 0) s)) argv0 = Some (bytes_of ''tty:'' @ [48 + of_nat d])"
  shows "\<exists>s'. shell_open lk stk unknown junk argv0 s = Done 0 s' \<and>
     fds_of s' = [Some i, Some i, Some i] @ replicate 125 None \<and> fl_ref (file_tb s' ! i) = 3 \<and>
     dv_minor (dev_tb s' ! nat (fl_dev_id (file_tb s' ! i))) = int d \<and>
     (\<forall>t. t \<noteq> curr_task s \<longrightarrow> tk_file_table (tasks s' t) = tk_file_table (tasks s t))"
proof -
  let ?a = "open_call (junk 0) argv0 0"
  define s0 where "s0 = with_args ?a s"
  have s0: "files_ok s0" "fds_of s0 = replicate 128 None" "free_file 0 (file_tb s0) = Some i" "curr_task s0 = curr_task s"
    "tasks s0 = tasks s"
    using files_ok_kept [OF assms(1) with_args_kept] assms(2,3) by (simp_all add: s0_def fds_of_def)
  let ?n = "bytes_of ''tty:'' @ [48 + of_nat d]"
  have name: "load_cstr (uview s0) argv0 = Some ?n" using assms(6) by (simp add: s0_def)
  have num: "tty_number argv0 s0 = int d"
    using load_cstr_nth [OF name, of 4] terminal_digit [OF assms(4)] by (simp add: tty_number_def bytes_of_def)
  have fd0: "free_fd 0 (fds_of s0) = Some 0" using free_fd_prefix [of "[]" 0] by (simp add: s0(2) numeral_eq_Suc)
  have tty: "strncmp_bytes ?n (bytes_of ''tty'') = 0" by (simp add: bytes_of_def)
  have tty: "open_tty lk argv0 s0 = sys_open lk argv0 0 s0" using assms(5) name tty
    by (simp add: sys_open_def is_path_valid_def)
  obtain s1 where s1: "sys_open lk argv0 0 s0 = Done 0 s1" "files_ok s1" "curr_task s1 = curr_task s"
      "\<And>t. tk_file_table (tasks s1 t) = (if t = curr_task s then (fds_of s0)[0 := Some i] else tk_file_table (tasks s t))"
      "fl_ref (file_tb s1 ! i) = 1" "dv_minor (dev_tb s1 ! nat (fl_dev_id (file_tb s1 ! i))) = int d"
  proof (rule open_tty_outcomes [OF s0(1), where lk = lk and name = argv0], goal_cases)
    case (1 s')
    then show ?thesis using s0 fd0 num assms(4) by auto
  next
    case (2 k j s')
    then have "k = 0" "j = i" using s0 fd0 by simp_all
    with 2 show ?thesis using s0 num tty by (intro that [of s']) simp_all
  qed
  let ?s1 = "s1\<lparr>phys := frame_put (call_frame s) ''eax'' (of_int 0) (phys s1)\<rparr>"
  have "sys_handler (sa_id ?a) = Some H_open" by (simp add: sys_handler_def sys_table_def open_call_def SYS_defs)
  from handler_answer [OF this, of lk stk s 0 s1 unknown] s1(1)
  have call1: "sys_call lk stk unknown ?a s = Done 0 ?s1" by (simp add: open_call_def s0_def)
  have f1: "fds_of ?s1 = [Some i] @ None # replicate 126 None"
    using s1(3,4) by (simp add: fds_of_def s0(2)[unfolded fds_of_def] numeral_eq_Suc)
  have i1: "i < length (file_tb ?s1)"
    using free_file_Some [OF assms(3)] assms(1) s1(2) by (simp add: files_ok_def)
  from dup_call [of 0 ?s1 i 1 lk stk unknown "junk 1"] f1 i1 free_fd_prefix [of "[Some i]" 0]
  obtain s2 where s2: "sys_call lk stk unknown (dup (junk 1) 0) ?s1 = Done 1 s2" "curr_task s2 = curr_task s"
      "fds_of s2 = [Some i, Some i] @ None # replicate 125 None" "dev_tb s2 = dev_tb s1"
      "file_tb s2 = (file_tb s1)[i := (file_tb s1 ! i)\<lparr>fl_ref := 2\<rparr>]"
      "\<And>t. t \<noteq> curr_task s \<Longrightarrow> tk_file_table (tasks s2 t) = tk_file_table (tasks s t)"
    using s1(3-5) by (auto simp: numeral_eq_Suc)
  from dup_call [of 0 s2 i 2 lk stk unknown "junk 2"] s2(3,5) i1 free_fd_prefix [of "[Some i, Some i]" 0]
  obtain s3 where s3: "sys_call lk stk unknown (dup (junk 2) 0) s2 = Done 2 s3" "curr_task s3 = curr_task s"
      "fds_of s3 = [Some i, Some i, Some i] @ replicate 125 None" "dev_tb s3 = dev_tb s1"
      "file_tb s3 = (file_tb s1)[i := (file_tb s1 ! i)\<lparr>fl_ref := 3\<rparr>]"
      "\<And>t. t \<noteq> curr_task s \<Longrightarrow> tk_file_table (tasks s3 t) = tk_file_table (tasks s t)"
    using s2(2,4,6) by (auto simp: numeral_eq_Suc)
  have "shell_open lk stk unknown junk argv0 s = Done 0 s3" using call1 s2(1) s3(1) by (simp add: shell_open_def)
  then show ?thesis using s1(6) s3(3-6) i1 by auto
qed

text \<open>The sample task starts a shell on terminal 3.\<close>

theorem shell_gets_terminal_witness:
  "\<exists>s'. shell_open no_link 0 9 (\<lambda>_. stale_args) 0x80000000 tty3 = Done 0 s' \<and>
     fds_of s' = [Some 0, Some 0, Some 0] @ replicate 125 None"
proof -
  let ?s = "with_args (open_call stale_args 0x80000000 0) tty3"
  have fr: "call_frame tty3 = 0x101000 + (MEM_PAGE_SIZE - frame_size)" by (simp add: call_frame_def named_def frame_size_def MEM_PAGE_SIZE_def)
  have out [simp]: "phys ?s x = phys tty3 x" if "x < 0x101000 \<or> 0x102000 \<le> x" for x
  proof -
    have "x \<notin> region 0x101000 4096"
    proof
      assume "x \<in> region 0x101000 4096"
      then obtain i where i: "i < 4096" "x = 0x101000 + of_nat i" by (auto simp: region_def)
      then have "unat x = 0x101000 + i" by (simp add: unat_word_ariths unat_of_nat)
      then show False using that i(1) by (simp add: word_less_nat_alt word_le_nat_alt)
    qed
    then show ?thesis using push_in_frame [OF fr] by (simp add: with_args_def)
  qed
  have c: "cr3 ?s = 0x100000" by (simp add: with_args_def named_def)
  have t: "mem32 (phys ?s) 0x100800 = 0x103007" "mem32 (phys ?s) 0x103000 = 0x102007"
    by (simp_all add: mem32_def) (simp_all add: named_def name_page_def put32_def)
  have "kview (phys ?s) 0x100000 0x80000000 = Some 0x102000" "kview (phys ?s) 0x100000 0x80000001 = Some 0x102001"
    "kview (phys ?s) 0x100000 0x80000002 = Some 0x102002" "kview (phys ?s) 0x100000 0x80000003 = Some 0x102003"
    "kview (phys ?s) 0x100000 0x80000004 = Some 0x102004" "kview (phys ?s) 0x100000 0x80000005 = Some 0x102005"
    by (simp_all add: kview_def mmu_walk_def pde_ptr_def pte_ptr_def pde_index_def pte_index_def pde_present_def pte_present_def
        pde_paddr_def pte_paddr_def MEMORY_TASK_BASE_def Let_def t)
  then have "uview ?s 0x80000000 = 0x74" "uview ?s 0x80000001 = 0x74" "uview ?s 0x80000002 = 0x79" "uview ?s 0x80000003 = 0x3a"
    "uview ?s 0x80000004 = 0x33" "uview ?s 0x80000005 = 0"
    by (simp_all add: uview_def c) (simp_all add: named_def name_page_def put32_def)
  then have "load_cstr (uview ?s) 0x80000000 = Some (bytes_of ''tty:'' @ [48 + of_nat 3])"
    by (simp add: load_cstr.simps [of _ "0x80000000"] load_cstr.simps [of _ "0x80000001"] load_cstr.simps [of _ "0x80000002"]
      load_cstr.simps [of _ "0x80000003"] load_cstr.simps [of _ "0x80000004"] load_cstr.simps [of _ "0x80000005"] bytes_of_def)
  with shell_gets_terminal [OF named_ok tty3_tables(2,4), of 3 "0x80000000" "\<lambda>_. stale_args" no_link 0 9]
  show ?thesis by auto
qed

end
