(* ===== verification/Task_Laws.thy ===== *)
theory Task_Laws
  imports Fork_Laws Tasks
begin

text \<open>
  The birth of a task.  The operations on page tables change nothing but the allocator, the memory and the log
  (\<open>vm_only\<close>); \<open>tss_init\<close> and \<open>task_init\<close> then give one new state each, and \<open>sys_fork\<close> is their composition
  with the copy of the address space.
\<close>

subsection \<open>What the page tables leave alone\<close>

definition vm_only :: "'a mem_state_scheme \<Rightarrow> 'a mem_state_scheme \<Rightarrow> bool" where
  "vm_only s s' \<longleftrightarrow> (\<exists>a m l. s' = s\<lparr>paddr_alloc := a, phys := m, klogs := l\<rparr>)"

lemma vm_only_refl [simp]: "vm_only s s"
  unfolding vm_only_def by (intro exI [of _ "paddr_alloc s"] exI [of _ "phys s"] exI [of _ "klogs s"]) simp

lemma vm_only_trans: "vm_only s s' \<Longrightarrow> vm_only s' s'' \<Longrightarrow> vm_only s s''"
  unfolding vm_only_def by fastforce

lemma vm_only_sel:
  assumes "vm_only s s'"
  shows "tasks s' = tasks s" "nodes s' = nodes s" "ready_list s' = ready_list s" "sleep_list s' = sleep_list s"
    "task_list s' = task_list s" "curr_task s' = curr_task s" "mutexes s' = mutexes s" "cr3 s' = cr3 s"
    "gdt_table s' = gdt_table s" "eflags s' = eflags s" "mutex_idle m s' = mutex_idle m s"
  using assms by (auto simp: vm_only_def mutex_idle_def)

lemma vm_only_ops:
  "vm_only s (s\<lparr>paddr_alloc := a\<rparr>)" "vm_only s (s\<lparr>phys := m\<rparr>)" "vm_only s (log_line f args s)"
  unfolding vm_only_def log_line_def
  by (rule exI [of _ a], rule exI [of _ "phys s"], rule exI [of _ "klogs s"], simp)
    (rule exI [of _ "paddr_alloc s"], rule exI [of _ m], rule exI [of _ "klogs s"], simp,
     rule exI [of _ "paddr_alloc s"], rule exI [of _ "phys s"], rule exI [of _ "klogs s @ [(f, args)]"], simp)

text \<open>\<open>vm_out s out\<close>: started in \<open>s\<close> with the allocator free, a call with the outcome \<open>out\<close> has changed only these
  three.\<close>

definition vm_out :: "'a mem_state_scheme \<Rightarrow> ('a mem_state_scheme, 'b) outcome \<Rightarrow> bool" where
  "vm_out s out \<longleftrightarrow> (mutex_idle Paddr_alloc_mutex s \<longrightarrow> (\<forall>r s'. out = Done r s' \<longrightarrow> vm_only s s'))"

lemma vm_out_simps [simp]: "vm_out s (Done r s)" "vm_out s (Fault e)"
  by (simp_all add: vm_out_def)

lemma vm_out_done: "vm_only s s' \<Longrightarrow> vm_out s (Done r s')"
  by (simp add: vm_out_def)

lemma vm_out_after: "vm_only s s1 \<Longrightarrow> vm_out s1 out \<Longrightarrow> vm_out s out"
  unfolding vm_out_def by (auto simp: vm_only_sel intro: vm_only_trans)

lemma vm_out_bind:
  assumes "vm_out s m" "\<And>x s1. vm_only s s1 \<Longrightarrow> vm_out s1 (f x s1)"
  shows "vm_out s (kbind m f)"
proof (cases m)
  case (Done x s1)
  show ?thesis
  proof (cases "mutex_idle Paddr_alloc_mutex s")
    case True
    then have "vm_only s s1" using assms(1) Done by (simp add: vm_out_def)
    from vm_out_after [OF this assms(2) [OF this]] show ?thesis using Done by simp
  qed (simp add: vm_out_def)
qed (simp_all add: vm_out_def)

lemma vm_out_addr:
  fixes s :: "'a mem_state_scheme"
  shows "vm_out s (addr_alloc_page n s)" "vm_out s (addr_free_page p n s)"
proof -
  show "vm_out s (addr_alloc_page n s)"
  proof (cases "mutex_idle Paddr_alloc_mutex s")
    case idle: True
    show ?thesis
    proof (cases "alloc_pages n (paddr_alloc s)")
      case (Inl e)
      then have "addr_alloc_page n s = Fault e"
        using mutex_held_idle [OF idle] by (simp add: addr_alloc_page_def with_mutex_def mutex_held_def upd_mutex_def)
      then show ?thesis by simp
    next
      case (Inr r)
      have "addr_alloc_page n s = Done (fst r) (s\<lparr>paddr_alloc := snd r\<rparr>)"
        unfolding addr_alloc_page_def
        by (rule with_mutex_idle [OF idle]) (use Inr in \<open>simp_all add: mutex_held_def upd_mutex_def case_prod_unfold\<close>)
      then show ?thesis by (simp add: vm_out_done vm_only_ops)
    qed
  qed (simp add: vm_out_def)
  show "vm_out s (addr_free_page p n s)"
  proof (cases "mutex_idle Paddr_alloc_mutex s")
    case idle: True
    show ?thesis
    proof (cases "free_pages p n (paddr_alloc s)")
      case (Inl e)
      then have "addr_free_page p n s = Fault e"
        using mutex_held_idle [OF idle] by (simp add: addr_free_page_def with_mutex_def mutex_held_def upd_mutex_def)
      then show ?thesis by simp
    next
      case (Inr a)
      have "addr_free_page p n s = Done () (s\<lparr>paddr_alloc := a\<rparr>)"
        unfolding addr_free_page_def
        by (rule with_mutex_idle [OF idle]) (use Inr in \<open>simp_all add: mutex_held_def upd_mutex_def\<close>)
      then show ?thesis by (simp add: vm_out_done vm_only_ops)
    qed
  qed (simp add: vm_out_def)
qed

lemma vm_out_find_pte: "vm_out s (find_pte dir va alloc s)"
  by (auto simp: find_pte_def Let_def intro!: vm_out_bind vm_out_addr vm_out_done vm_only_ops)

lemma vm_out_map_pages: "vm_out s (map_pages n dir va pa perm s)"
proof (induction n arbitrary: va pa s)
  case (Suc n)
  have "vm_out s2 (map_pages n dir v p perm (s2\<lparr>phys := m\<rparr>))" for s2 :: "'a mem_state_scheme" and v p m
    by (rule vm_out_after [OF vm_only_ops(2) Suc.IH])
  note put = this this [THEN vm_out_after [OF vm_only_ops(3)]]
  show ?case unfolding map_pages.simps Let_def
    by (rule vm_out_bind [OF vm_out_find_pte]) (simp add: put)
qed simp

lemma vm_out_create_map: "vm_out s (memory_create_map dir va pa n perm s)"
  by (simp add: memory_create_map_def vm_out_map_pages)

lemma vm_out_create_uvm: "vm_out s (memory_create_uvm lk s)"
  by (auto simp: memory_create_uvm_def Let_def intro!: vm_out_bind vm_out_addr vm_out_done vm_only_ops)

lemma vm_out_free: "vm_out s (free_ptes n pte s)" "vm_out s (free_pdes n pde s)"
proof -
  show p: "vm_out s (free_ptes n pte s)" for n pte and s :: "'a mem_state_scheme"
    by (induction n arbitrary: pte s) (auto intro!: vm_out_bind vm_out_addr)
  show "vm_out s (free_pdes n pde s)"
    by (induction n arbitrary: pde s) (auto intro!: vm_out_bind vm_out_addr p)
qed

lemma vm_out_destroy: "vm_out s (memory_destory_uvm dir s)"
  by (auto simp: memory_destory_uvm_def Let_def intro!: vm_out_bind vm_out_addr vm_out_free)

lemma vm_out_copy_ptes: "vm_out s (copy_ptes n i to pte s)"
proof (induction n arbitrary: pte s)
  case (Suc n)
  have "vm_out s2 (copy_ptes n i to p (s2\<lparr>phys := m\<rparr>))" for s2 :: "'a mem_state_scheme" and p m
    by (rule vm_out_after [OF vm_only_ops(2) Suc.IH])
  then show ?case
    by (auto simp: Let_def split: sum.split intro!: vm_out_bind vm_out_addr vm_out_create_map Suc.IH)
qed simp

lemma vm_out_copy_tables: "vm_out s (copy_tables n to pde s)"
  by (induction n arbitrary: pde s) (auto intro!: vm_out_bind vm_out_copy_ptes)

lemma vm_out_copy_uvm: "vm_out s (memory_copy_uvm lk dir s)"
  by (auto simp: memory_copy_uvm_def Let_def intro!: vm_out_bind vm_out_create_uvm vm_out_copy_tables vm_out_destroy)

subsection \<open>The state of a new task\<close>

text \<open>The hardware state \<open>tss_init\<close> gives a task with the kernel stack page \<open>k\<close> and the directory \<open>d\<close>.\<close>

definition init_tss :: "u32 \<Rightarrow> u32 \<Rightarrow> u32 \<Rightarrow> int \<Rightarrow> int \<Rightarrow> u32 \<Rightarrow> u32 \<Rightarrow> tss_t" where
  "init_tss flag entry esp app_cs app_ds k d =
     (let (cs, ds) = (if flag AND TASK_FLAGS_SYSTEM \<noteq> 0 then (ucast KERNEL_SELECTOR_CS, of_int KERNEL_SELECTOR_DS)
                      else (of_int app_cs OR SEG_RPL3, of_int app_ds OR SEG_RPL3))
      in zero_tss\<lparr>t_eip := entry, t_esp := esp, t_esp0 := k + MEM_PAGE_SIZE, t_ss := ds, t_ss0 := of_int KERNEL_SELECTOR_DS,
           t_es := ds, t_ds := ds, t_fs := ds, t_gs := ds, t_cs := cs, t_eflags := EFLAGES_DEFAULT OR EFLAGS_IF, t_cr3 := d\<rparr>)"

definition tss_desc :: "link_t \<Rightarrow> tid \<Rightarrow> segment_desc_t" where
  "tss_desc lk task = segment_desc (lk_tss lk task) TSS_SIZE (SEG_P_PRESENT OR SEG_DPL0 OR SEG_TYPE_TSS)"

lemma kernel_ok_frame:
  assumes "kernel_ok R kd s" "pages_of (paddr_alloc s') = pages_of (paddr_alloc s)" "used_of (paddr_alloc s) \<subseteq> used_of (paddr_alloc s')"
    and "p \<in> pages_of (paddr_alloc s)" "take_bit 12 p = 0" "\<And>x. x \<notin> region p 4096 \<Longrightarrow> phys s' x = phys s x"
  shows "kernel_ok R kd s'"
proof -
  have "take_bit 12 kd = 0" "p \<noteq> kd" using assms(1,4) by (auto simp: kernel_ok_def)
  from slot_other_page [OF assms(5) this pde_index_bound assms(6)]
  have "pde_of (phys s') kd va = pde_of (phys s) kd va" for va .
  then show ?thesis using assms(1-3) unfolding kernel_ok_def by auto
qed

lemma parent_ok_frame:
  assumes "parent_ok R m pd" "same_pages R m m'"
  shows "parent_ok R m' pd" "mapped m' pd = mapped m pd"
proof -
  note st = parent_stable [OF assms]
  show "parent_ok R m' pd" using assms(1) unfolding parent_ok_def by (simp add: st(1,3))
  have "MEMORY_TASK_BASE \<le> uva i j" if "512 \<le> i" "i < 1024" "j < 1024" for i j
    using that by (simp add: task_half idx_uva)
  then show "mapped m' pd = mapped m pd" unfolding mapped_def using st(3) by auto
qed

lemma app_sel_upd [simp]: "app_code_sel (upd_task t f s) = app_code_sel s" "app_data_sel (upd_task t f s) = app_data_sel s"
  by (simp_all add: upd_task_def)

lemma tss_init_done:
  assumes gdt: "mutex_idle Gdt_mutex s" "free_desc 1 (drop 1 (gdt_table s)) = Some g"
    and po: "pool_ok (paddr_alloc s)" "mutex_idle Paddr_alloc_mutex s" "2 \<le> free_count (paddr_alloc s)" "R \<subseteq> used_of (paddr_alloc s)"
    and kd: "kernel_ok R (lk_kernel_page_dir lk) s"
  shows "\<exists>k d a m. tss_init lk task flag entry esp s =
       Done 0 (s\<lparr>gdt_table := (gdt_table s)[g := tss_desc lk task],
         tasks := (tasks s)(task := (tasks s task)\<lparr>tk_tss := init_tss flag entry esp (app_code_sel s) (app_data_sel s) k d,
                                              tk_tss_sel := of_int (int g * 8)\<rparr>),
         paddr_alloc := a, phys := m\<rparr>) \<and>
     {k, d} \<subseteq> pages_of (paddr_alloc s) - used_of (paddr_alloc s) \<and> k \<noteq> d \<and> pool_ok a \<and>
     pages_of a = pages_of (paddr_alloc s) \<and> used_of a = {k, d} \<union> used_of (paddr_alloc s) \<and>
     free_count (paddr_alloc s) = free_count a + 2 \<and> take_bit 12 d = 0 \<and> (\<forall>x. x \<notin> region d 4096 \<longrightarrow> m x = phys s x) \<and>
     vm_ok R d (s\<lparr>paddr_alloc := a, phys := m\<rparr>) \<and>
     (\<forall>va. mmu_walk m d va = (if va < MEMORY_TASK_BASE then mmu_walk (phys s) (lk_kernel_page_dir lk) va else None))"
proof -
  have g: "g < length (gdt_table s)" using free_desc_Some [OF gdt(2)] by auto
  have po0: "0 < free_count (paddr_alloc s)" using po(3) by simp
  obtain k a1 where k: "take_page (paddr_alloc s) = Inr (k, a1)" "pool_ok a1"
    "k \<in> pages_of (paddr_alloc s) - used_of (paddr_alloc s)" "k \<noteq> 0" "take_bit 12 k = 0" "pages_of a1 = pages_of (paddr_alloc s)"
    "used_of a1 = insert k (used_of (paddr_alloc s))" "free_count (paddr_alloc s) = Suc (free_count a1)"
    by (rule take_free [OF po(1) po0])
  let ?T = "init_tss flag entry esp (app_code_sel s) (app_data_sel s) k"
  let ?s1 = "s\<lparr>gdt_table := (gdt_table s)[g := tss_desc lk task]\<rparr>"
  let ?s3 = "upd_task task (\<lambda>t. t\<lparr>tk_tss := zero_tss\<rparr>) ?s1"
  define u where "u = upd_task task (\<lambda>t. t\<lparr>tk_tss := ?T 0\<rparr>) (?s3\<lparr>paddr_alloc := a1\<rparr>)"
  have u: "paddr_alloc u = a1" "phys u = phys s" "mutex_idle Paddr_alloc_mutex u" 
    using po(2) by (simp_all add: u_def mutex_idle_def upd_task_def)
  have "kernel_ok R (lk_kernel_page_dir lk) u"
    by (rule kernel_ok_frame [OF kd, where p = k]) (use k u in auto)
  moreover have "R \<subseteq> used_of (paddr_alloc u)" using po(4) k(7) u(1) by auto
  ultimately obtain d a m where
    d: "memory_create_uvm lk u = Done d (u\<lparr>paddr_alloc := a, phys := m\<rparr>)" "d \<noteq> 0"
    "d \<in> pages_of a1 - used_of a1" "vm_ok R d (u\<lparr>paddr_alloc := a, phys := m\<rparr>)"
    "\<And>x. x \<notin> region d 4096 \<Longrightarrow> m x = phys s x" "take_bit 12 d = 0" "pages_of a = pages_of a1" "used_of a = insert d (used_of a1)"
    "free_count a1 = Suc (free_count a)"
    "\<forall>va. mmu_walk m d va = (if va < MEMORY_TASK_BASE then mmu_walk (phys s) (lk_kernel_page_dir lk) va else None)"
    using create_uvm_eq [of u R lk] k(2,8) po(3) unfolding u(1,2) using u(3) by auto
  have page: "memory_alloc_page ?s3 = Done k (?s3\<lparr>paddr_alloc := a1\<rparr>)"
    unfolding memory_alloc_page_def by (rule addr_alloc_idle) (use po(2) k(1) in \<open>simp_all add: mutex_idle_def upd_task_def\<close>)
  have "upd_task task (\<lambda>t. t\<lparr>tk_tss := (tk_tss t)\<lparr>t_eip := entry, t_esp := esp,
                            t_esp0 := k + MEM_PAGE_SIZE, t_ss := ds,
                            t_ss0 := of_int KERNEL_SELECTOR_DS, t_es := ds, t_ds := ds,
                            t_fs := ds, t_gs := ds, t_cs := cs,
                            t_eflags := EFLAGES_DEFAULT OR EFLAGS_IF\<rparr>\<rparr>) (?s3\<lparr>paddr_alloc := a1\<rparr>) = u"
    if "(cs, ds) = (if flag AND TASK_FLAGS_SYSTEM \<noteq> 0 then (ucast KERNEL_SELECTOR_CS, of_int KERNEL_SELECTOR_DS)
                   else (of_int (app_code_sel s) OR SEG_RPL3, of_int (app_data_sel s) OR SEG_RPL3))" for cs ds
    unfolding u_def init_tss_def that [symmetric] by (simp add: upd_task_def zero_tss_def)
  then have "tss_init lk task flag entry esp s =
      Done 0 (upd_task task (\<lambda>t. t\<lparr>tk_tss := (tk_tss t)\<lparr>t_cr3 := d\<rparr>, tk_tss_sel := of_int (int g * 8)\<rparr>) (u\<lparr>paddr_alloc := a, phys := m\<rparr>))"
    using gdt g page d(1,2) k(4)
    by (simp add: tss_init_def gdt_alloc_idle segment_desc_set_def tss_desc_def Let_def split: prod.split)
  moreover have "upd_task task (\<lambda>t. t\<lparr>tk_tss := (tk_tss t)\<lparr>t_cr3 := d\<rparr>, tk_tss_sel := of_int (int g * 8)\<rparr>) (u\<lparr>paddr_alloc := a, phys := m\<rparr>)
    = s\<lparr>gdt_table := (gdt_table s)[g := tss_desc lk task],
        tasks := (tasks s)(task := (tasks s task)\<lparr>tk_tss := ?T d, tk_tss_sel := of_int (int g * 8)\<rparr>), paddr_alloc := a, phys := m\<rparr>"
    by (rule mem_state.equality) (simp_all add: u_def upd_task_def init_tss_def case_prod_unfold)
  ultimately have "tss_init lk task flag entry esp s =
      Done 0 (s\<lparr>gdt_table := (gdt_table s)[g := tss_desc lk task],
        tasks := (tasks s)(task := (tasks s task)\<lparr>tk_tss := ?T d, tk_tss_sel := of_int (int g * 8)\<rparr>), paddr_alloc := a, phys := m\<rparr>)"
    by simp
  moreover have "vm_ok R d (s\<lparr>paddr_alloc := a, phys := m\<rparr>)" using d(4) po(2) by (simp add: vm_ok_def mutex_idle_def)
  ultimately show ?thesis using d(2,3,5-10) k by (intro exI [of _ k] exI [of _ d] exI [of _ a] exI [of _ m]) (auto simp: vm_ok_def)
qed

definition new_task :: "link_t \<Rightarrow> tid \<Rightarrow> string \<Rightarrow> tss_t \<Rightarrow> u32 \<Rightarrow> task_t \<Rightarrow> task_t" where
  "new_task lk task name ts sel x =
     (copy_name name (x\<lparr>tk_tss := ts, tk_tss_sel := sel\<rparr>))\<lparr>tk_state := TASK_CREATED,
        tk_time_ticks := TASK_TIME_SLICE_DEFAULT, tk_slice_ticks := TASK_TIME_SLICE_DEFAULT,
        tk_sleep_ticks := 0, tk_parent := None, tk_heap_start := 0, tk_heap_end := 0, tk_status := 0,
        tk_file_table := replicate 128 None, tk_pid := lk_task lk task\<rparr>"

lemma null_nodes_other: "n \<notin> {All_node t, Run_node t, Wait_node t} \<Longrightarrow> null_nodes t h n = h n"
  by (simp add: null_nodes_def list_node_init_def)

lemma task_init_done:
  assumes gdt: "mutex_idle Gdt_mutex s" "free_desc 1 (drop 1 (gdt_table s)) = Some g"
    and po: "pool_ok (paddr_alloc s)" "mutex_idle Paddr_alloc_mutex s" "2 \<le> free_count (paddr_alloc s)" "R \<subseteq> used_of (paddr_alloc s)"
    and kd: "kernel_ok R (lk_kernel_page_dir lk) s"
    and ts: "dll (nodes s) (task_list s) (map All_node ts)" "task \<notin> set ts"
  shows "\<exists>k d a m h l. task_init lk task name flag entry esp s =
       Done 0 (s\<lparr>gdt_table := (gdt_table s)[g := tss_desc lk task],
         tasks := (tasks s)(task := new_task lk task name (init_tss flag entry esp (app_code_sel s) (app_data_sel s) k d)
                                      (of_int (int g * 8)) (tasks s task)),
         paddr_alloc := a, phys := m, nodes := h, task_list := l\<rparr>) \<and>
     {k, d} \<subseteq> pages_of (paddr_alloc s) - used_of (paddr_alloc s) \<and> k \<noteq> d \<and> pool_ok a \<and>
     pages_of a = pages_of (paddr_alloc s) \<and> used_of a = {k, d} \<union> used_of (paddr_alloc s) \<and>
     free_count (paddr_alloc s) = free_count a + 2 \<and> take_bit 12 d = 0 \<and> (\<forall>x. x \<notin> region d 4096 \<longrightarrow> m x = phys s x) \<and>
     dll h l (map All_node (ts @ [task])) \<and> (\<forall>t. t \<noteq> task \<longrightarrow> h (Run_node t) = nodes s (Run_node t)) \<and>
     vm_ok R d (s\<lparr>paddr_alloc := a, phys := m\<rparr>) \<and>
     (\<forall>va. mmu_walk m d va = (if va < MEMORY_TASK_BASE then mmu_walk (phys s) (lk_kernel_page_dir lk) va else None))"
proof -
  obtain k d a m where i: "tss_init lk task flag entry esp s =
       Done 0 (s\<lparr>gdt_table := (gdt_table s)[g := tss_desc lk task],
         tasks := (tasks s)(task := (tasks s task)\<lparr>tk_tss := init_tss flag entry esp (app_code_sel s) (app_data_sel s) k d,
                                              tk_tss_sel := of_int (int g * 8)\<rparr>), paddr_alloc := a, phys := m\<rparr>)"
    and vm: "{k, d} \<subseteq> pages_of (paddr_alloc s) - used_of (paddr_alloc s)" "k \<noteq> d" "pool_ok a" "pages_of a = pages_of (paddr_alloc s)"
     "used_of a = {k, d} \<union> used_of (paddr_alloc s)" "free_count (paddr_alloc s) = free_count a + 2" "take_bit 12 d = 0"
     "\<forall>x. x \<notin> region d 4096 \<longrightarrow> m x = phys s x" "vm_ok R d (s\<lparr>paddr_alloc := a, phys := m\<rparr>)"
     "\<forall>va. mmu_walk m d va = (if va < MEMORY_TASK_BASE then mmu_walk (phys s) (lk_kernel_page_dir lk) va else None)"
    using tss_init_done [OF gdt po kd, of task flag entry esp] by blast
  let ?n = "null_nodes task (nodes s)"
  have "dll ?n (task_list s) (map All_node ts)"
    by (rule dll_frame [OF ts(1)]) (use ts(2) in \<open>auto intro: null_nodes_other\<close>)
  then obtain h l where h: "list_insert_last ?n (task_list s) (All_node task) = Inr (h, l)"
    "dll h l (map All_node ts @ [All_node task])" "\<And>y. y \<notin> set (map All_node ts @ [All_node task]) \<Longrightarrow> h y = ?n y"
    using list_insert_last_dll [of ?n "task_list s" "map All_node ts" "All_node task"] ts(2) by auto
  have run: "h (Run_node t) = nodes s (Run_node t)" if "t \<noteq> task" for t
    using h(3) [of "Run_node t"] that null_nodes_other [of "Run_node t" task "nodes s"] by auto
  have "task_init lk task name flag entry esp s =
       Done 0 (s\<lparr>gdt_table := (gdt_table s)[g := tss_desc lk task],
         tasks := (tasks s)(task := new_task lk task name (init_tss flag entry esp (app_code_sel s) (app_data_sel s) k d)
                                      (of_int (int g * 8)) (tasks s task)),
         paddr_alloc := a, phys := m, nodes := h, task_list := l\<rparr>)"
    using h(1) by (simp add: task_init_def i upd_task_def Let_def irq_disable_global_def irq_leave_proection_def new_task_def)
  with vm h(2) run show ?thesis
    by (intro exI [of _ k] exI [of _ d] exI [of _ a] exI [of _ m] exI [of _ h] exI [of _ l]) simp
qed

subsection \<open>Fork\<close>

lemma find_task_Some: "find_task n i f = Some j \<Longrightarrow> tk_name (f (Slot j)) = []"
  by (induction n arbitrary: i) (auto split: if_splits)

lemma alloc_task_idle:
  assumes "mutex_idle Task_table_mutex s"
  shows "alloc_task s = Done (map_option Slot (find_task 128 0 (tasks s))) s"
  unfolding alloc_task_def
  by (rule with_mutex_idle_read [OF assms]) (simp_all add: mutex_held_def upd_mutex_def)

text \<open>The system call frame is in the kernel stack page of the caller.\<close>

lemma mem32_same_page:
  assumes "same_pages R m m'" "q \<in> R" "unat x \<le> 4092"
  shows "mem32 m' (q + x) = mem32 m (q + x)"
proof (rule mem32_cong)
  fix y assume "y \<in> region (q + x) 4"
  then obtain j where j: "j < 4" "y = q + of_nat (unat x + j)" by (auto simp: region_def add.assoc)
  have "y \<in> region q 4096" unfolding j(2) by (rule region_nth) (use j(1) assms(3) in simp)
  then show "m' y = m y" using assms(1,2) by (auto simp: same_pages_def)
qed

lemma fork_frame_same:
  assumes "same_pages R m m'" "q \<in> R" "frame = q + (MEM_PAGE_SIZE - frame_size)"
  shows "fork_tss m' frame x = fork_tss m frame x" "frame_get m' frame ''eip'' = frame_get m frame ''eip''"
    "frame_get m' frame ''esp'' = frame_get m frame ''esp''"
proof -
  have "frame_get m' frame f = frame_get m frame f" if "frame_off f \<le> 84" for f
  proof -
    have "unat (frame_off f) \<le> 84" using that by (simp add: word_le_nat_alt)
    then have "unat (4008 + frame_off f) \<le> 4092" by (simp add: unat_word_ariths)
    from mem32_same_page [OF assms(1,2) this] show ?thesis
      by (simp add: frame_get_def assms(3) frame_size_def MEM_PAGE_SIZE_def add.assoc)
  qed
  then show "fork_tss m' frame x = fork_tss m frame x" "frame_get m' frame ''eip'' = frame_get m frame ''eip''"
    "frame_get m' frame ''esp'' = frame_get m frame ''esp''"
    by (simp_all add: fork_tss_def frame_off_def)
qed

lemma task_start_rel:
  assumes "sched_rel s rs ss" "t \<notin> set rs \<union> set ss" "t \<noteq> Idle_task"
  shows "\<exists>h l. task_start t s = Inr (upd_task t (\<lambda>k. k\<lparr>tk_state := TASK_READY\<rparr>) (s\<lparr>nodes := h, ready_list := l\<rparr>)) \<and>
     sched_rel (s\<lparr>nodes := h, ready_list := l\<rparr>) (rs @ [t]) ss \<and> run_only (nodes s) h"
proof -
  have "sched_rel (irq_disable_global s) rs ss" using assms(1) by simp
  from task_set_ready_rel [OF this assms(2,3)] obtain h l where
    "task_set_ready t (irq_disable_global s) =
       Inr (upd_task t (\<lambda>k. k\<lparr>tk_state := TASK_READY\<rparr>) (irq_disable_global s\<lparr>nodes := h, ready_list := l\<rparr>))"
    "sched_rel (irq_disable_global s\<lparr>nodes := h, ready_list := l\<rparr>) (rs @ [t]) ss" "run_only (nodes s) h" by auto
  then show ?thesis
    by (intro exI [of _ h] exI [of _ l])
      (simp add: task_start_def sched_rel_def upd_task_def irq_disable_global_def irq_leave_proection_def)
qed

lemma twin_parent:
  assumes "parent_ok R m0 pd" "same_pages R m0 m1" "MEMORY_TASK_BASE \<le> va" "twin Q m1 pd m to va" "Q \<subseteq> Q'"
  shows "twin Q' m0 pd m to va"
proof (cases "mmu_walk m0 pd va")
  case None
  then show ?thesis using assms(4) parent_stable(3) [OF assms(1-3)] by (simp add: twin_def)
next
  case (Some pa)
  then have "pa AND NOT (mask 12) \<in> R" using assms(1,3) unfolding parent_ok_def by blast
  moreover have "pa \<in> region (pa AND NOT (mask 12)) 4096"
    using region_page [of "pa AND NOT (mask 12)" pa] by (simp add: entry_paddr [symmetric])
  ultimately have "m1 pa = m0 pa" using assms(2) by (auto simp: same_pages_def)
  then show ?thesis using assms(4,5) Some parent_stable(3) [OF assms(1-3)] by (auto simp: twin_def)
qed

lemma new_task_sel [simp]:
  "tk_tss (new_task lk t name ts sel x) = ts" "tk_pid (new_task lk t name ts sel x) = lk_task lk t"
  "tk_parent (new_task lk t name ts sel x) = None"
  by (simp_all add: new_task_def copy_name_def)

lemma new_task_tss [simp]:
  "(new_task lk t name ts sel x)\<lparr>tk_tss := ts'\<rparr> = new_task lk t name ts' sel x"
  "(new_task lk t name ts sel x)\<lparr>tk_parent := p, tk_tss := ts'\<rparr> = (new_task lk t name ts' sel x)\<lparr>tk_parent := p\<rparr>"
  by (rule task_t.equality; simp add: new_task_def copy_name_def)+

text \<open>Two parts of \<open>sys_fork\<close>: after \<open>task_init\<close> took the pages \<open>k\<close> and \<open>d\<close>, the copy of the caller's address space; and the
  start of the child, whose node has been put into the task list.\<close>

lemma fork_child_space:
  assumes vm: "pool_ok (paddr_alloc s)" "R \<subseteq> used_of (paddr_alloc s)" "kernel_ok R (lk_kernel_page_dir lk) s" "parent_ok R (phys s) pd"
      "2 * card (mapped (phys s) pd) + 2 < free_count (paddr_alloc s)"
    and p: "pool_ok a" "pages_of a = pages_of (paddr_alloc s)" "used_of a = {k, d} \<union> used_of (paddr_alloc s)"
      "d \<in> pages_of (paddr_alloc s) - used_of (paddr_alloc s)" "free_count (paddr_alloc s) = free_count a + 2" "take_bit 12 d = 0"
      "\<And>x. x \<notin> region d 4096 \<Longrightarrow> m x = phys s x"
    and s3: "paddr_alloc s3 = a" "phys s3 = m" "cr3 s3 = pd" "mutex_idle Paddr_alloc_mutex s3"
  obtains to s4 where "memory_copy_uvm lk pd s3 = Done to s4" "vm_only s3 s4" "same_pages R (phys s) m" "same_pages R (phys s) (phys s4)"
    "\<And>va. MEMORY_TASK_BASE \<le> va \<Longrightarrow> twin (pages_of (paddr_alloc s) - used_of (paddr_alloc s) - {k}) (phys s) pd (phys s4) to va"
proof -
  have dR: "d \<notin> R" using p(4) vm(2) by auto
  have sp: "same_pages R (phys s) m" by (rule same_pages_in_page [OF vm(1,2) p(6) dR p(7)])
  note par = parent_ok_frame [OF vm(4) sp]
  have kd: "kernel_ok R (lk_kernel_page_dir lk) s3"
    by (rule kernel_ok_frame [OF vm(3), where p = d]) (use p s3 in auto)
  have "R \<subseteq> used_of (paddr_alloc s3)" "2 * card (mapped (phys s3) pd) < free_count (paddr_alloc s3)"
    using s3 vm(2,5) p(3,5) par(2) by auto
  with copy_uvm_twin [of s3 R lk pd] kd p(1) par(1) s3 obtain to s4 where
    c: "memory_copy_uvm lk pd s3 = Done to s4" "same_pages R m (phys s4)"
    "\<And>va. MEMORY_TASK_BASE \<le> va \<Longrightarrow> twin (pages_of a - used_of a) m pd (phys s4) to va" by auto
  have "vm_only s3 s4" using vm_out_copy_uvm [of s3 lk pd] c(1) s3(4) by (simp add: vm_out_def)
  moreover have "twin (pages_of (paddr_alloc s) - used_of (paddr_alloc s) - {k}) (phys s) pd (phys s4) to va" if "MEMORY_TASK_BASE \<le> va" for va
    by (rule twin_parent [OF vm(4) sp that c(3) [OF that]]) (use p(2,3) in auto)
  ultimately show thesis using that c(1) sp same_pages_trans [OF sp c(2)] by blast
qed

lemma fork_started:
  assumes "sched_rel s rs ss" "c \<notin> set rs \<union> set ss" "c \<noteq> Idle_task" "dll h l (map All_node us)" "\<And>u. u \<noteq> c \<Longrightarrow> h (Run_node u) = nodes s (Run_node u)"
    and s5: "nodes s5 = h" "ready_list s5 = ready_list s" "sleep_list s5 = sleep_list s" "task_list s5 = l"
  obtains h' l' where "task_start c s5 = Inr (upd_task c (\<lambda>k. k\<lparr>tk_state := TASK_READY\<rparr>) (s5\<lparr>nodes := h', ready_list := l'\<rparr>))"
    "sched_rel (s5\<lparr>nodes := h', ready_list := l'\<rparr>) (rs @ [c]) ss" "dll h' l (map All_node us)"
proof -
  have run: "h (Run_node x) = nodes s (Run_node x)" if "x \<in> set rs \<union> set ss" for x using that assms(2) assms(5) [of x] by auto
  have "dll h (ready_list s) (map Run_node rs)" "dll h (sleep_list s) (map Run_node ss)"
    using dll_frame [of "nodes s" "ready_list s" "map Run_node rs" h] dll_frame [of "nodes s" "sleep_list s" "map Run_node ss" h]
      assms(1) run by (auto simp: sched_rel_def)
  then have "sched_rel s5 rs ss" using assms(1) by (simp add: sched_rel_def s5)
  from task_start_rel [OF this assms(2,3)] obtain h' l' where
    "task_start c s5 = Inr (upd_task c (\<lambda>k. k\<lparr>tk_state := TASK_READY\<rparr>) (s5\<lparr>nodes := h', ready_list := l'\<rparr>))"
    "sched_rel (s5\<lparr>nodes := h', ready_list := l'\<rparr>) (rs @ [c]) ss" "run_only h h'" by (auto simp: s5)
  moreover from this(3) have "dll h' l (map All_node us)" using dll_frame [OF assms(4), of h'] by (auto simp: run_only_def)
  ultimately show thesis using that by blast
qed

text \<open>C5: fork makes a separate twin of the caller.  Let the task \<open>t\<close> run in the directory \<open>pd\<close> with the kernel stack page
  \<open>q\<close>, its pages \<open>R\<close> in use, a task slot, a descriptor and enough pages free.  Then \<open>sys_fork\<close> returns the pid
  of a new task at the end of the ready queue.  The child returns 0 from the call, at the instruction and with the
  registers and the stack of the caller's frame.  Its directory maps exactly the addresses of the caller, each to a
  frame nobody used before, with the byte of the caller; its kernel stack is a page of its own and its task state
  segment a free entry \<open>g\<close> of the descriptor table.  The child does not inherit the files and the heap: all its descriptors are
  free and the bounds of its heap are 0.  No page of the caller and no other task has changed.\<close>

theorem fork_makes_twin:
  assumes sched: "sched_rel s rs ss" "dll (nodes s) (task_list s) (map All_node ts)" "curr_task s = t"
    and slot: "find_task 128 0 (tasks s) = Some c" "tk_name (tasks s t) \<noteq> []" "Slot c \<notin> set rs \<union> set ss \<union> set ts"
    and idle: "mutex_idle Task_table_mutex s" "mutex_idle Gdt_mutex s" "mutex_idle Paddr_alloc_mutex s"
    and gdt: "free_desc 1 (drop 1 (gdt_table s)) = Some g"
    and vm: "pool_ok (paddr_alloc s)" "R \<subseteq> used_of (paddr_alloc s)" "kernel_ok R (lk_kernel_page_dir lk) s"
      "parent_ok R (phys s) pd" "cr3 s = pd" "t_cr3 (tk_tss (tasks s t)) = pd"
      "2 * card (mapped (phys s) pd) + 2 < free_count (paddr_alloc s)"
    and stack: "q \<in> R" "t_esp0 (tk_tss (tasks s t)) = q + MEM_PAGE_SIZE"
  defines "F \<equiv> pages_of (paddr_alloc s) - used_of (paddr_alloc s)"
    and "frame f \<equiv> frame_get (phys s) (q + (MEM_PAGE_SIZE - frame_size)) f"
  shows "\<exists>s' T k. sys_fork lk s = Done (sint (lk_task lk (Slot c))) s' \<and> T = tk_tss (tasks s' (Slot c)) \<and>
     sched_rel s' (rs @ [Slot c]) ss \<and> dll (nodes s') (task_list s') (map All_node (ts @ [Slot c])) \<and> curr_task s' = t \<and>
     tk_state (tasks s' (Slot c)) = TASK_READY \<and> tk_parent (tasks s' (Slot c)) = Some t \<and>
     tk_pid (tasks s' (Slot c)) = lk_task lk (Slot c) \<and>
     t_eax T = 0 \<and> t_eip T = frame ''eip'' \<and> t_esp T = frame ''esp'' + 4 * SYSCALL_PARAM_COUNT \<and>
     t_eflags T = frame ''eflags'' \<and> t_cs T = frame ''cs'' \<and> t_ds T = frame ''ds'' \<and>
     [t_ebx T, t_ecx T, t_edx T, t_esi T, t_edi T, t_ebp T] = map frame [''ebx'', ''ecx'', ''edx'', ''esi'', ''edi'', ''ebp''] \<and>
     [t_es T, t_fs T, t_gs T] = map frame [''es'', ''fs'', ''gs''] \<and>
     gdt_table s' = (gdt_table s)[g := tss_desc lk (Slot c)] \<and> tk_tss_sel (tasks s' (Slot c)) = of_int (int g * 8) \<and>
     tk_file_table (tasks s' (Slot c)) = replicate 128 None \<and> tk_heap_start (tasks s' (Slot c)) = 0 \<and>
     tk_heap_end (tasks s' (Slot c)) = 0 \<and>
     k \<in> F \<and> t_esp0 T = k + MEM_PAGE_SIZE \<and>
     (\<forall>va. MEMORY_TASK_BASE \<le> va \<longrightarrow> twin (F - {k}) (phys s) pd (phys s') (t_cr3 T) va) \<and>
     same_pages R (phys s) (phys s') \<and> (\<forall>u. u \<noteq> Slot c \<longrightarrow> tasks s' u = tasks s u)"
proof -
  have tc: "t \<noteq> Slot c" using find_task_Some [OF slot(1)] slot(2) by auto
  define fr where "fr = q + (MEM_PAGE_SIZE - frame_size)"
  let ?C = "Slot c" and ?kd = "lk_kernel_page_dir lk"
  let ?entry = "frame_get (phys s) fr ''eip''" and ?esp = "frame_get (phys s) fr ''esp'' + 4 * SYSCALL_PARAM_COUNT"
  let ?T = "init_tss 0 ?entry ?esp (app_code_sel s) (app_data_sel s)"
  have fr: "t_esp0 (tk_tss (tasks s t)) - frame_size = fr" using stack(2) by (simp add: fr_def)
  have two: "2 \<le> free_count (paddr_alloc s)" using vm(7) by simp
  obtain k d a m h l where i: "task_init lk ?C (tk_name (tasks s t)) 0 ?entry ?esp s =
       Done 0 (s\<lparr>gdt_table := (gdt_table s)[g := tss_desc lk ?C],
         tasks := (tasks s)(?C := new_task lk ?C (tk_name (tasks s t)) (?T k d) (of_int (int g * 8)) (tasks s ?C)),
         paddr_alloc := a, phys := m, nodes := h, task_list := l\<rparr>)"
    and p: "k \<in> F" "d \<in> F" "k \<noteq> d" "pool_ok a" "pages_of a = pages_of (paddr_alloc s)" "used_of a = {k, d} \<union> used_of (paddr_alloc s)"
      "free_count (paddr_alloc s) = free_count a + 2" "take_bit 12 d = 0" "\<And>x. x \<notin> region d 4096 \<Longrightarrow> m x = phys s x"
    and ls: "dll h l (map All_node (ts @ [?C]))" "\<And>u. u \<noteq> ?C \<Longrightarrow> h (Run_node u) = nodes s (Run_node u)"
    using task_init_done [OF idle(2) gdt vm(1) idle(3) two vm(2,3) sched(2), of ?C "tk_name (tasks s t)" 0 ?entry ?esp] slot(3)
    unfolding F_def by auto
  define s2 where "s2 = s\<lparr>gdt_table := (gdt_table s)[g := tss_desc lk ?C],
         tasks := (tasks s)(?C := new_task lk ?C (tk_name (tasks s t)) (?T k d) (of_int (int g * 8)) (tasks s ?C)),
         paddr_alloc := a, phys := m, nodes := h, task_list := l\<rparr>"
  define s3 where "s3 = upd_task ?C (\<lambda>x. x\<lparr>tk_tss := fork_tss (phys s2) fr (tk_tss x), tk_parent := Some t\<rparr>) s2"
  have e3: "paddr_alloc s3 = a" "phys s3 = m" "cr3 s3 = pd" "curr_task s3 = t" "ready_list s3 = ready_list s"
    "sleep_list s3 = sleep_list s" "nodes s3 = h" "task_list s3 = l" "mutex_idle Paddr_alloc_mutex s3"
    "tasks s3 = (tasks s)(?C := (new_task lk ?C (tk_name (tasks s t)) (?T k d) (of_int (int g * 8)) (tasks s ?C))
       \<lparr>tk_tss := fork_tss m fr (?T k d), tk_parent := Some t\<rparr>)"
    using vm(5) sched(3) idle(3) by (simp_all add: s3_def s2_def upd_task_def mutex_idle_def)
  have dF: "d \<in> pages_of (paddr_alloc s) - used_of (paddr_alloc s)" using p(2) by (simp add: F_def)
  obtain to s4 where c: "memory_copy_uvm lk pd s3 = Done to s4" "vm_only s3 s4" "same_pages R (phys s) m" "same_pages R (phys s) (phys s4)"
    "\<And>va. MEMORY_TASK_BASE \<le> va \<Longrightarrow> twin (F - {k}) (phys s) pd (phys s4) to va"
    using fork_child_space [OF vm(1-4,7) p(4-6) dF p(7-9) e3(1-3,9)] unfolding F_def by blast
  note e4 = vm_only_sel [OF c(2)] and fsame = fork_frame_same [OF c(3) stack(1) fr_def]
  define s5 where "s5 = upd_task ?C (\<lambda>x. x\<lparr>tk_tss := (tk_tss x)\<lparr>t_cr3 := to\<rparr>\<rparr>) s4"
  have CQ: "?C \<notin> set rs \<union> set ss" using slot(3) by simp
  have e5: "nodes s5 = h" "ready_list s5 = ready_list s" "sleep_list s5 = sleep_list s" "task_list s5 = l" by (simp_all add: s5_def e4 e3)
  obtain h' l' where
    st: "task_start ?C s5 = Inr (upd_task ?C (\<lambda>k. k\<lparr>tk_state := TASK_READY\<rparr>) (s5\<lparr>nodes := h', ready_list := l'\<rparr>))"
    "sched_rel (s5\<lparr>nodes := h', ready_list := l'\<rparr>) (rs @ [?C]) ss" "dll h' l (map All_node (ts @ [?C]))"
    by (rule fork_started [OF sched(1) CQ _ ls(1,2) e5]) simp_all
  let ?s = "upd_task ?C (\<lambda>k. k\<lparr>tk_state := TASK_READY\<rparr>) (s5\<lparr>nodes := h', ready_list := l'\<rparr>)"
  define w where "w = ?s"
  define T where "T = (fork_tss (phys s) fr (?T k d))\<lparr>t_cr3 := to\<rparr>"
  have w: "tasks w ?C = (new_task lk ?C (tk_name (tasks s t)) T (of_int (int g * 8)) (tasks s ?C))
      \<lparr>tk_parent := Some t, tk_state := TASK_READY\<rparr>"
    by (simp add: w_def s5_def e4 e3 fsame T_def)
  have "alloc_task s = Done (Some ?C) s" using slot(1) by (simp add: alloc_task_idle [OF idle(1)])
  moreover have "tasks s2 t = tasks s t" using tc by (simp add: s2_def)
  ultimately have "sys_fork lk s = Done (sint (tk_pid (tasks w ?C))) w"
    using i [folded s2_def] c(1) st(1) sched(3) vm(6) tc unfolding w_def
    by (simp add: sys_fork_def fr task_current_def s3_def [symmetric] s5_def [symmetric] Let_def)
  then have r: "sys_fork lk s = Done (sint (lk_task lk ?C)) w" by (simp add: w)
  have q: "sched_rel w (rs @ [?C]) ss" using st(2) by (simp add: w_def)
  have al: "dll (nodes w) (task_list w) (map All_node (ts @ [?C]))"
    using st(3) by (simp add: w_def e5)
  have tw: "twin (F - {k}) (phys s) pd (phys w) to va" if "MEMORY_TASK_BASE \<le> va" for va
    using c(5) [OF that] by (simp add: w_def s5_def upd_task_def)
  have pages: "same_pages R (phys s) (phys w)" using c(4) by (simp add: w_def s5_def upd_task_def)
  have others: "tasks w u = tasks s u" if "u \<noteq> ?C" for u using that by (simp add: w_def s5_def e4 e3)
  have cur: "curr_task w = t" by (simp add: w_def s5_def e4 e3)
  have regs: "t_eax T = 0" "t_eip T = frame ''eip''" "t_esp T = frame ''esp'' + 4 * SYSCALL_PARAM_COUNT"
     "t_eflags T = frame ''eflags''" "t_cs T = frame ''cs''" "t_ds T = frame ''ds''" "t_esp0 T = k + MEM_PAGE_SIZE" "t_cr3 T = to"
     "[t_ebx T, t_ecx T, t_edx T, t_esi T, t_edi T, t_ebp T] = map frame [''ebx'', ''ecx'', ''edx'', ''esi'', ''edi'', ''ebp'']"
     "[t_es T, t_fs T, t_gs T] = map frame [''es'', ''fs'', ''gs'']"
    by (simp_all add: T_def fork_tss_def init_tss_def frame_def fr_def [symmetric] TASK_FLAGS_SYSTEM_def case_prod_unfold)
  have seg: "gdt_table w = (gdt_table s)[g := tss_desc lk ?C]" by (simp add: w_def s5_def upd_task_def e4 s3_def s2_def)
  have fresh: "tk_tss_sel (tasks w ?C) = of_int (int g * 8)" "tk_file_table (tasks w ?C) = replicate 128 None"
    "tk_heap_start (tasks w ?C) = 0" "tk_heap_end (tasks w ?C) = 0" by (simp_all add: w new_task_def copy_name_def)
  show ?thesis
    by (intro exI [of _ w] exI [of _ T] exI [of _ k] conjI allI impI; (fact r q al cur regs seg fresh p(1) pages others tw)?)
      (simp_all add: w regs(8) tw others)
qed

text \<open>The sample parent calls fork: its kernel stack is the fourth page of the pool, and every task slot is free.\<close>

definition fork_call :: mem_state where
  "fork_call = fork_start\<lparr>paddr_alloc := pool16\<lparr>aa_bitmap := \<lparr>bit_count = 16, bits = [15, 0]\<rparr>\<rparr>,
     gdt_table := replicate 256 (segment_desc 0 0 0),
     nodes := (\<lambda>_. \<lparr>ln_pre = None, ln_next = None\<rparr>),
     ready_list := \<lparr>lt_first = Some (Run_node First_task), lt_last = Some (Run_node First_task), lt_count = 1\<rparr>,
     sleep_list := list_init, task_list := list_init, curr_task := First_task,
     tasks := (\<lambda>t. zero_task\<lparr>tk_name := (if t = First_task then ''first'' else []),
        tk_tss := zero_tss\<lparr>t_cr3 := 0x100000, t_esp0 := 0x104000\<rparr>\<rparr>)\<rparr>"

lemma fork_call_sel [simp]:
  "phys fork_call = fork_mem" "cr3 fork_call = 0x100000" "curr_task fork_call = First_task" "mutex_idle m fork_call"
  "tk_name (tasks fork_call First_task) = ''first''" "t_cr3 (tk_tss (tasks fork_call First_task)) = 0x100000"
  "t_esp0 (tk_tss (tasks fork_call First_task)) = 0x104000"
proof -
  show "mutex_idle m fork_call" using fork_start_sel(4) [of m] by (simp add: mutex_idle_def fork_call_def)
qed (simp_all add: fork_call_def)

lemma fork_call_lists: "sched_rel fork_call [First_task] []" "dll (nodes fork_call) (task_list fork_call) (map All_node [])"
  by (simp_all add: sched_rel_def dll_def fork_call_def list_init_def)

lemma fork_call_slot: "find_task 128 0 (tasks fork_call) = Some 0"
  by (simp add: numeral_eq_Suc fork_call_def)

lemma fork_call_pool:
  "page_used (paddr_alloc fork_call) = True # True # True # True # replicate 12 False" "pool_ok (paddr_alloc fork_call)"
  "page_addr (paddr_alloc fork_call) i = 0x100000 + of_nat i * 4096"
proof -
  have "page_used (pool16\<lparr>aa_bitmap := \<lparr>bit_count = 16, bits = [15, 0]\<rparr>\<rparr>) = True # True # True # True # replicate 12 False"
    by code_simp
  then show "page_used (paddr_alloc fork_call) = True # True # True # True # replicate 12 False" by (simp add: fork_call_def)
  show "pool_ok (paddr_alloc fork_call)" "page_addr (paddr_alloc fork_call) i = 0x100000 + of_nat i * 4096"
    by (simp_all add: fork_call_def pool_ok_def pool16_def bitmap_ok_def bitmap_byte_count_def MEM_PAGE_SIZE_def page_addr_def)
qed

abbreviation caller_pages :: "u32 set" where
  "caller_pages \<equiv> insert 0x103000 parent_pages"

lemma fork_call_pages: "caller_pages \<subseteq> used_of (paddr_alloc fork_call)"
  using page_addr_in_used [OF fork_call_pool(2), of 0] page_addr_in_used [OF fork_call_pool(2), of 1]
    page_addr_in_used [OF fork_call_pool(2), of 2] page_addr_in_used [OF fork_call_pool(2), of 3]
  by (simp add: fork_call_pool(1,3))

lemma fork_call_vm:
  "kernel_ok caller_pages (lk_kernel_page_dir no_link) fork_call" "parent_ok caller_pages (phys fork_call) 0x100000"
  "2 * card (mapped (phys fork_call) 0x100000) + 2 < free_count (paddr_alloc fork_call)"
proof -
  have "0 \<notin> pages_of (paddr_alloc fork_call)" by (rule pool.null_page [OF fork_call_pool(2)])
  then show "kernel_ok caller_pages (lk_kernel_page_dir no_link) fork_call"
    by (simp add: kernel_ok_def no_link_def fork_slots [OF pde_index_bound])
  show "parent_ok caller_pages (phys fork_call) 0x100000" using fork_parent_ok unfolding parent_ok_def by auto
  show "2 * card (mapped (phys fork_call) 0x100000) + 2 < free_count (paddr_alloc fork_call)"
    by (simp add: fork_mapped free_count_eq [OF fork_call_pool(2)] fork_call_pool(1))
qed

theorem fork_makes_twin_witness:
  "\<exists>s' pa. sys_fork no_link fork_call = Done (sint (lk_task no_link (Slot 0))) s' \<and>
     sched_rel s' [First_task, Slot 0] [] \<and> t_eax (tk_tss (tasks s' (Slot 0))) = 0 \<and>
     mmu_walk (phys s') (t_cr3 (tk_tss (tasks s' (Slot 0)))) 0x80000010 = Some pa \<and> phys s' pa = fork_mem 0x102010"
proof -
  have "drop 1 (gdt_table fork_call) = segment_desc 0 0 0 # replicate 254 (segment_desc 0 0 0)"
    using replicate_Suc [of 254 "segment_desc 0 0 0"] by (simp add: fork_call_def)
  then have "free_desc 1 (drop 1 (gdt_table fork_call)) = Some 1" by (simp add: segment_desc_def)
  from fork_makes_twin [OF fork_call_lists _ fork_call_slot _ _ _ _ _ this fork_call_pool(2) fork_call_pages fork_call_vm(1,2) _ _ fork_call_vm(3),
      of First_task "0x103000"] obtain s' where
    r: "sys_fork no_link fork_call = Done (sint (lk_task no_link (Slot 0))) s'" "sched_rel s' ([First_task] @ [Slot 0]) []"
    "t_eax (tk_tss (tasks s' (Slot 0))) = 0"
    "\<forall>va. MEMORY_TASK_BASE \<le> va \<longrightarrow> (\<exists>Q. twin Q fork_mem 0x100000 (phys s') (t_cr3 (tk_tss (tasks s' (Slot 0)))) va)"
    by (auto simp: MEM_PAGE_SIZE_def)
  have "idx 0x80000010 = (512, 0)" by (simp add: idx_def pde_index_def pte_index_def)
  then have "mmu_walk fork_mem 0x100000 0x80000010 = Some 0x102010" by (simp add: fork_walk)
  with r(4) [rule_format, of "0x80000010"] r(1-3) show ?thesis by (auto simp: twin_def MEMORY_TASK_BASE_def)
qed

end
