(* ===== verification/Exec_Laws.thy ===== *)
theory Exec_Laws
  imports Task_Laws Syscall_Laws Loader_Laws
begin

text \<open>
  Loading a program.  \<open>load_phdr\<close> gives a segment pages of its own in a new address space and reads the bytes
  of the program image into them, one page after the other, through the physical addresses of the pages.
\<close>

subsection \<open>A range of pages\<close>

lemma page_number: "unat (drop_bit 12 (x :: u32)) = unat x div 4096"
  by (simp add: drop_bit_eq_div unat_div)

lemma page_Suc [simp]: "(i + 4096) div 4096 = Suc (i div 4096)" "(4096 + i) div 4096 = Suc (i div (4096 :: nat))"
  by simp_all

lemma map_list_other:
  "(\<And>j. j < length ps \<Longrightarrow> drop_bit 12 vb \<noteq> drop_bit 12 (va + of_nat (4096 * j))) \<Longrightarrow> map_list ps va w vb = w vb"
proof (induction ps arbitrary: va w)
  case (Cons p ps)
  have "drop_bit 12 vb \<noteq> drop_bit 12 (va + MEM_PAGE_SIZE + of_nat (4096 * j))" if "j < length ps" for j
    using Cons.prems [of "Suc j"] that by (simp add: MEM_PAGE_SIZE_def add_ac)
  from Cons.IH [OF this] show ?case using Cons.prems [of 0] by (simp add: map_page_def)
qed simp

lemma map_list_at:
  assumes "take_bit 12 va = 0" "unat va + 4096 * length ps \<le> 2 ^ 32" "i < 4096 * length ps"
  shows "map_list ps va w (va + of_nat i) = Some (ps ! (i div 4096) + of_nat (i mod 4096))"
  using assms
proof (induction ps arbitrary: va w i)
  case (Cons p ps)
  have va: "unat va mod 4096 = 0" using Cons.prems(1) by (simp add: aligned_unat)
  have u: "unat (va + of_nat k) = unat va + k" if "k < 4096 * length (p # ps)" for k
    using that Cons.prems(2) by (simp add: unat_word_ariths unat_of_nat)
  show ?case
  proof (cases "i < 4096")
    case True
    note off = offset_add [OF Cons.prems(1) True]
    have "drop_bit 12 (va + of_nat i) \<noteq> drop_bit 12 (va + MEM_PAGE_SIZE + of_nat (4096 * j))" if "j < length ps" for j
    proof
      assume "drop_bit 12 (va + of_nat i) = drop_bit 12 (va + MEM_PAGE_SIZE + of_nat (4096 * j))"
      also have "va + MEM_PAGE_SIZE + of_nat (4096 * j) = va + of_nat (4096 * Suc j)" by (simp add: MEM_PAGE_SIZE_def add_ac)
      finally have "unat va div 4096 = unat (va + of_nat (4096 * Suc j)) div 4096"
        unfolding off(3) by (metis page_number)
      moreover have "unat (va + of_nat (4096 * Suc j)) = unat va + 4096 * Suc j" by (rule u) (use that in simp)
      ultimately show False by simp
    qed
    then have "map_list ps (va + MEM_PAGE_SIZE) (map_page va p w) (va + of_nat i) = map_page va p w (va + of_nat i)"
      by (rule map_list_other)
    then show ?thesis using True off by (simp add: map_page_def)
  next
    case False
    then obtain k where k: "i = 4096 + k" by (metis le_add_diff_inverse not_less)
    have n: "take_bit 12 (va + MEM_PAGE_SIZE) = 0" by (rule next_page_aligned [OF Cons.prems(1)])
    show ?thesis
    proof (cases "ps = []")
      case False
      have "unat (va + MEM_PAGE_SIZE) = unat va + 4096" using u [of 4096] False by (simp add: MEM_PAGE_SIZE_def)
      then have "map_list ps (va + MEM_PAGE_SIZE) (map_page va p w) (va + MEM_PAGE_SIZE + of_nat k) =
          Some (ps ! (k div 4096) + of_nat (k mod 4096))"
        by (intro Cons.IH [OF n]) (use Cons.prems(2,3) k in simp_all)
      moreover have "(4096 + k) div 4096 = Suc (k div 4096)" by simp
      ultimately show ?thesis by (simp add: k MEM_PAGE_SIZE_def add_ac)
    qed (use Cons.prems(3) k in simp)
  qed
qed simp

subsection \<open>Copying from kernel memory into a frame\<close>

lemma kernel_copy:
  assumes "n \<le> 4096" "p \<noteq> 0" "src \<noteq> 0" "region p n \<inter> region src n = {}"
    and "\<And>i. i < n \<Longrightarrow> p + of_nat i < MEMORY_TASK_BASE" "\<And>i. i < n \<Longrightarrow> src + of_nat i < MEMORY_TASK_BASE"
  shows "vm_memcpy dir p src (of_nat n) m = Inr (put_bytes m p (load_bytes m src n))"
proof -
  have "vm_memcpy_loop n dir (p + of_nat 0) (src + of_nat 0) m =
      Inr (put_bytes m (p + of_nat 0) (map (\<lambda>i. m (src + of_nat i)) [0..<n]))"
  proof (rule vm_memcpy_loop_eq)
    show "src + of_nat i \<notin> region p n" if "i < n" for i using region_nth [OF that, of src] assms(4) by blast
    show "kview m' dir (src + of_nat i) = Some (src + of_nat i)" if "i < n" for i m' using assms(6) [OF that] by (simp add: kview_def)
  qed (use assms in simp_all)
  moreover have "unat (of_nat n :: u32) = n" using assms(1) by (simp add: unat_of_nat)
  ultimately show ?thesis using assms(2,3) by (cases "n = 0") (auto simp: vm_memcpy_def load_bytes_def unat_eq_zero)
qed

subsection \<open>Reading a segment\<close>

lemma small_word: "k < 2 ^ 31 \<Longrightarrow> unat (of_nat k :: u32) = k \<and> sint (of_nat k :: u32) = int k"
  using sint_of_int [of "int k"] by (simp add: unat_of_nat)

lemma read_segment_0 [simp]: "read_segment n file dir va 0 s = Done 0 s"
  by (cases n) simp_all

lemma page_low:
  assumes "pool_ok a" "p \<in> pages_of a" "k < 4096"
  shows "p + of_nat k < MEMORY_TASK_BASE"
proof -
  have p: "take_bit 12 p = 0" "p < MEMORY_TASK_BASE" using page_addr_facts [OF assms(1)] assms(2) by (auto simp: pages_of_def)
  show ?thesis using idx_offset [OF p(1) assms(3)] p(2) task_half [of p] task_half [of "p + of_nat k"] by (simp add: not_le [symmetric])
qed

text \<open>One round of the loop: the bytes for the page \<open>p\<close>.\<close>

lemma read_segment_round:
  assumes vm: "vm_ok R dir s" "p \<in> R" "mmu_walk (phys s) dir va = Some p" and sz: "0 < sz" "unat (temp_pos s) + sz \<le> 2 ^ 31" "temp_pos s \<noteq> 0"
    and apart: "region p 4096 \<inter> region (temp_pos s) sz = {}" and c_def: "c = min sz 4096"
  obtains m where "read_segment (Suc n) TEMP_FILE_ID dir va (of_nat sz) s =
      read_segment n TEMP_FILE_ID dir (va + of_nat c) (of_nat (sz - c)) (s\<lparr>phys := m, temp_pos := temp_pos s + of_nat c\<rparr>)"
    "\<And>x. x \<notin> region p 4096 \<Longrightarrow> m x = phys s x" "\<And>i. i < c \<Longrightarrow> m (p + of_nat i) = phys s (temp_pos s + of_nat i)"
proof -
  let ?src = "temp_pos s"
  have c: "0 < c" "c \<le> 4096" "c \<le> sz" using sz(1) by (auto simp: c_def)
  have szb: "sz < 2 ^ 31" using sz(2,3) by (simp add: unat_gt_0 [symmetric])
  have cb: "c < 2 ^ 31" using c by simp
  have pg: "p \<in> used_of (paddr_alloc s)" "pool_ok (paddr_alloc s)" using vm(1,2) by (auto simp: vm_ok_def)
  then have p0: "p \<noteq> 0" "take_bit 12 p = 0" using used_page by blast+
  have low: "p + of_nat k < MEMORY_TASK_BASE" if "k < 4096" for k
    using page_low [OF pg(2) _ that] pg(1) pool.used_pages [OF pg(2)] by blast
  have paddr: "memory_get_paddr (phys s) dir va = p" using get_paddr_walk [OF vm(1), of va] vm(3) by simp
  define m where "m = put_bytes (phys s) p (load_bytes (phys s) ?src c)"
  have "region p c \<subseteq> region p 4096" "region ?src c \<subseteq> region ?src sz" using c by (simp_all add: region_mono)
  then have "region p c \<inter> region ?src c = {}" using apart by fastforce
  moreover have "?src + of_nat i < MEMORY_TASK_BASE" if "i < c" for i
    using that c(3) sz(2) by (simp add: word_less_nat_alt MEMORY_TASK_BASE_def unat_word_ariths unat_of_nat)
  ultimately have copy: "vm_memcpy (cr3 s) p ?src (of_nat c) (phys s) = Inr m"
    unfolding m_def using c low sz(3) p0 by (intro kernel_copy) auto
  have read: "sys_read TEMP_FILE_ID p (int c) s = Done (int c) (s\<lparr>phys := m, temp_pos := ?src + of_nat c\<rparr>)"
    using copy by (simp add: sys_read_def)
  have cur: "(if (of_nat sz :: u32) > MEM_PAGE_SIZE then MEM_PAGE_SIZE else of_nat sz) = of_nat c"
    using small_word [OF szb] by (auto simp: c_def word_less_nat_alt MEM_PAGE_SIZE_def min_def)
  have pos: "(of_nat sz :: u32) > 0" using small_word [OF szb] sz(1) by (simp add: word_less_nat_alt)
  have left: "(of_nat sz :: u32) - of_nat c = of_nat (sz - c)" using c(3) by (simp add: of_nat_diff)
  show thesis
  proof (rule that)
    show "read_segment (Suc n) TEMP_FILE_ID dir va (of_nat sz) s =
        read_segment n TEMP_FILE_ID dir (va + of_nat c) (of_nat (sz - c)) (s\<lparr>phys := m, temp_pos := ?src + of_nat c\<rparr>)"
      unfolding read_segment.simps(2) Let_def cur paddr using pos small_word [OF cb] read by (simp add: left)
    show "m x = phys s x" if "x \<notin> region p 4096" for x
      unfolding m_def using that region_mono [OF c(2), of p] by (intro put_bytes_other) auto
    show "m (p + of_nat i) = phys s (?src + of_nat i)" if "i < c" for i
      using at_bytes_nth [OF put_bytes_at [of "load_bytes (phys s) ?src c" "phys s" p], of i] that c(2)
      by (simp add: m_def load_bytes_def)
  qed
qed

text \<open>The bytes of the first page, and of the others after them, together.\<close>

lemma page_then_pages:
  assumes ps: "distinct (p # ps)" "\<And>q. q \<in> set (p # ps) \<Longrightarrow> take_bit 12 q = 0" and i: "i < sz"
    and first: "\<And>i. i < min sz 4096 \<Longrightarrow> mf (p + of_nat i) = f i" and out: "\<And>x. (\<forall>q \<in> set ps. x \<notin> region q 4096) \<Longrightarrow> m x = mf x"
    and rest: "\<And>k. k < sz - 4096 \<Longrightarrow> m (ps ! (k div 4096) + of_nat (k mod 4096)) = f (4096 + k)"
  shows "m ((p # ps) ! (i div 4096) + of_nat (i mod 4096)) = f i"
proof (cases "i < 4096")
  case True
  have "p + of_nat i \<notin> region q 4096" if "q \<in> set ps" for q
  proof -
    have "q \<noteq> p" "take_bit 12 q = 0" "take_bit 12 p = 0" using that ps by auto
    from pages_disjoint [OF this(2,3,1)] region_nth [OF True, of p] show ?thesis by blast
  qed
  then have "m (p + of_nat i) = mf (p + of_nat i)" using out by simp
  then show ?thesis using first [of i] i True by simp
next
  case False
  then obtain k where k: "i = 4096 + k" by (metis le_add_diff_inverse not_less)
  have "(4096 + k) div 4096 = Suc (k div 4096)" by simp
  then show ?thesis using rest [of k] i by (simp add: k)
qed

lemma read_segment_done:
  assumes "vm_ok R dir s" "set ps \<subseteq> R" "distinct ps" "take_bit 12 va = 0" "unat va + 4096 * length ps \<le> 2 ^ 32"
    and "\<And>i. i < 4096 * length ps \<Longrightarrow> mmu_walk (phys s) dir (va + of_nat i) = Some (ps ! (i div 4096) + of_nat (i mod 4096))"
    and "sz \<le> 4096 * length ps" "unat (temp_pos s) + sz \<le> 2 ^ 31" "temp_pos s \<noteq> 0" "sz \<le> n"
    and "\<And>p. p \<in> set ps \<Longrightarrow> region p 4096 \<inter> region (temp_pos s) sz = {}"
  shows "\<exists>m. read_segment n TEMP_FILE_ID dir va (of_nat sz) s = Done 0 (s\<lparr>phys := m, temp_pos := temp_pos s + of_nat sz\<rparr>) \<and>
     vm_ok R dir (s\<lparr>phys := m\<rparr>) \<and> mmu_walk m dir = mmu_walk (phys s) dir \<and>
     (\<forall>i < sz. m (ps ! (i div 4096) + of_nat (i mod 4096)) = phys s (temp_pos s + of_nat i)) \<and>
     (\<forall>x. (\<forall>p \<in> set ps. x \<notin> region p 4096) \<longrightarrow> m x = phys s x)"
  using assms
proof (induction ps arbitrary: s va sz n)
  case Nil
  then show ?case by (intro exI [of _ "phys s"]) simp
next
  case (Cons p ps)
  let ?src = "temp_pos s"
  show ?case
  proof (cases "sz = 0")
    case True
    then show ?thesis using Cons.prems(1) by (intro exI [of _ "phys s"]) simp
  next
    case False
    then obtain n' where n: "n = Suc n'" "sz \<le> Suc n'" using Cons.prems(10) by (cases n) auto
    define c where "c = min sz 4096"
    have c: "0 < c" "c \<le> 4096" "c \<le> sz" using False by (auto simp: c_def)
    have pR: "p \<in> R" using Cons.prems(2) by simp
    have srck: "unat (?src + of_nat k) = unat ?src + k" if "k \<le> sz" for k
      using that Cons.prems(8) by (simp add: unat_word_ariths unat_of_nat)
    have walk: "mmu_walk (phys s) dir va = Some p" using Cons.prems(6) [of 0] by simp
    have disj: "region q 4096 \<inter> region ?src sz = {}" if "q \<in> set (p # ps)" for q using Cons.prems(11) [OF that] .
    obtain m1 where step: "read_segment n TEMP_FILE_ID dir va (of_nat sz) s =
        read_segment n' TEMP_FILE_ID dir (va + of_nat c) (of_nat (sz - c)) (s\<lparr>phys := m1, temp_pos := ?src + of_nat c\<rparr>)"
      and out: "\<And>x. x \<notin> region p 4096 \<Longrightarrow> m1 x = phys s x" and inside: "\<And>i. i < c \<Longrightarrow> m1 (p + of_nat i) = phys s (?src + of_nat i)"
      using read_segment_round [OF Cons.prems(1) pR walk _ Cons.prems(8,9) disj c_def, of n'] False n(1) by auto
    let ?s1 = "s\<lparr>phys := m1, temp_pos := ?src + of_nat c\<rparr>"
    note wr = write_reserved [OF Cons.prems(1) pR out]
    have vm1: "vm_ok R dir ?s1" using wr(1) by (simp add: vm_ok_def mutex_idle_def)
    show ?thesis
    proof (cases "sz \<le> 4096")
      case True
      then have e: "sz = c" by (simp add: c_def)
      have "m1 ((p # ps) ! (i div 4096) + of_nat (i mod 4096)) = phys s (?src + of_nat i)" if "i < sz" for i
        using inside [of i] that True e by simp
      then show ?thesis using step e vm1 wr(2) out by (intro exI [of _ m1]) (auto simp: vm_ok_def mutex_idle_def)
    next
      case big: False
      then have c4: "c = 4096" "sz - c < sz" by (simp_all add: c_def)
      let ?va = "va + of_nat c"
      have len: "1 \<le> length ps" using Cons.prems(7) big by (cases ps) auto
      have va4: "unat ?va = unat va + 4096"
        using Cons.prems(5) len by (simp add: c4 unat_word_ariths)
      have reg: "region (?src + of_nat c) (sz - c) \<subseteq> region ?src sz"
        using region_append [of ?src c "sz - c"] c(3) by simp
      have src1: "m1 (?src + of_nat i) = phys s (?src + of_nat i)" if "i < sz" for i
        using region_nth [OF that, of ?src] disj [of p] by (intro out) auto
      have "\<exists>m. read_segment n' TEMP_FILE_ID dir ?va (of_nat (sz - c)) ?s1 =
          Done 0 (?s1\<lparr>phys := m, temp_pos := temp_pos ?s1 + of_nat (sz - c)\<rparr>) \<and>
        vm_ok R dir (?s1\<lparr>phys := m\<rparr>) \<and> mmu_walk m dir = mmu_walk (phys ?s1) dir \<and>
        (\<forall>i < sz - c. m (ps ! (i div 4096) + of_nat (i mod 4096)) = phys ?s1 (temp_pos ?s1 + of_nat i)) \<and>
        (\<forall>x. (\<forall>p \<in> set ps. x \<notin> region p 4096) \<longrightarrow> m x = phys ?s1 x)"
      proof (rule Cons.IH [OF vm1])
        show "take_bit 12 ?va = 0" using next_page_aligned [OF Cons.prems(4)] by (simp add: c4 MEM_PAGE_SIZE_def)
        show "unat ?va + 4096 * length ps \<le> 2 ^ 32" using Cons.prems(5) by (simp add: va4)
        show "sz - c \<le> 4096 * length ps" using Cons.prems(7) by (simp add: c4)
        show "unat (temp_pos ?s1) + (sz - c) \<le> 2 ^ 31" using srck [OF c(3)] Cons.prems(8) c(3) by simp
        show "temp_pos ?s1 \<noteq> 0" using srck [OF c(3)] c(1) by (auto simp: unat_eq_zero [symmetric])
        show "sz - c \<le> n'" using n(2) c(1) by simp
        show "region q 4096 \<inter> region (temp_pos ?s1) (sz - c) = {}" if "q \<in> set ps" for q
          using disj [of q] reg that by auto
        show "mmu_walk (phys ?s1) dir (?va + of_nat i) = Some (ps ! (i div 4096) + of_nat (i mod 4096))"
          if "i < 4096 * length ps" for i
          using Cons.prems(6) [of "i + 4096"] that wr(2) unfolding page_Suc by (simp add: c4 add_ac)
      qed (use Cons.prems(2,3) in simp_all)
      then obtain m where m: "read_segment n' TEMP_FILE_ID dir ?va (of_nat (sz - c)) ?s1 =
          Done 0 (?s1\<lparr>phys := m, temp_pos := temp_pos ?s1 + of_nat (sz - c)\<rparr>)"
        "vm_ok R dir (?s1\<lparr>phys := m\<rparr>)" "mmu_walk m dir = mmu_walk (phys ?s1) dir"
        "\<And>i. i < sz - c \<Longrightarrow> m (ps ! (i div 4096) + of_nat (i mod 4096)) = phys ?s1 (temp_pos ?s1 + of_nat i)"
        "\<And>x. (\<forall>p \<in> set ps. x \<notin> region p 4096) \<Longrightarrow> m x = phys ?s1 x" by blast
      have al: "take_bit 12 q = 0" if "q \<in> set (p # ps)" for q
        using that Cons.prems(1,2) used_page [of "paddr_alloc s" q] by (auto simp: vm_ok_def)
      have more: "m (ps ! (k div 4096) + of_nat (k mod 4096)) = phys s (?src + of_nat (4096 + k))" if "k < sz - 4096" for k
        using m(4) [of k] src1 [of "4096 + k"] that by (simp add: c4 add_ac)
      have bytes: "m ((p # ps) ! (i div 4096) + of_nat (i mod 4096)) = phys s (?src + of_nat i)" if i: "i < sz" for i
        by (rule page_then_pages [where mf = m1, OF Cons.prems(3) al i]) (use inside c_def m(5) more in auto)
      have rest: "m x = phys s x" if "\<forall>p \<in> set (p # ps). x \<notin> region p 4096" for x
        using m(5) [of x] out [of x] that by simp
      have pos': "?src + of_nat c + of_nat (sz - c) = ?src + of_nat sz" using c(3) by (simp add: of_nat_diff)
      have "vm_ok R dir (s\<lparr>phys := m\<rparr>)" using m(2) by (simp add: vm_ok_def mutex_idle_def)
      then show ?thesis using step m(1,3) wr(2) bytes rest pos' by (intro exI [of _ m]) simp
    qed
  qed
qed

subsection \<open>Memory outside the pool\<close>

text \<open>Mapping pages writes to the directory and to pages of the pool and nowhere else.\<close>

definition outside :: "u32 set \<Rightarrow> mem \<Rightarrow> mem \<Rightarrow> bool" where
  "outside P m m' \<longleftrightarrow> (\<forall>x. (\<forall>p \<in> P. x \<notin> region p 4096) \<longrightarrow> m' x = m x)"

lemma outside_refl [simp]: "outside P m m"
  by (simp add: outside_def)

lemma outside_trans: "outside P m m' \<Longrightarrow> outside P m' m'' \<Longrightarrow> outside P m m''"
  by (simp add: outside_def)

lemma outside_page: "p \<in> P \<Longrightarrow> (\<And>x. x \<notin> region p 4096 \<Longrightarrow> m' x = m x) \<Longrightarrow> outside P m m'"
  by (auto simp: outside_def)

definition vm_pages :: "u32 \<Rightarrow> 'a mem_state_scheme \<Rightarrow> u32 set" where
  "vm_pages dir s = insert dir (pages_of (paddr_alloc s))"

lemma find_pte_outside:
  assumes "vm_ok R dir s" "find_pte dir va 1 s = Done r s'"
  shows "outside (vm_pages dir s) (phys s) (phys s')"
proof (cases "bit (pde_of (phys s) dir va) 0")
  case True
  then show ?thesis using assms(2) by (simp add: find_pte_def pde_ptr_slot pde_present_def Let_def)
next
  case False
  have po: "pool_ok (paddr_alloc s)" "mutex_idle Paddr_alloc_mutex s" using assms(1) by (auto simp: vm_ok_def)
  show ?thesis
  proof (cases rule: take_page_cases [OF po(1)])
    case 1
    then show ?thesis using assms(2) False addr_alloc_idle [OF po(2) 1(2)]
      by (simp add: find_pte_def pde_ptr_slot pde_present_def Let_def)
  next
    case (2 i a)
    let ?p = "page_addr (paddr_alloc s) i"
    let ?m = "put32 (phys s) (slot dir (pde_index va)) (?p OR PDE_P OR PDE_W OR PDE_U)"
    have p0: "?p \<noteq> 0" using page_addr_facts [OF po(1) 2(1)] by simp
    have "phys s' = k_memset ?p 0 MEM_PAGE_SIZE ?m"
      using assms(2) False addr_alloc_idle [OF po(2) 2(3)] p0
      by (auto simp: find_pte_def pde_ptr_slot pde_present_def Let_def)
    moreover have "outside (vm_pages dir s) (phys s) ?m"
      by (rule outside_page [of dir]) (use put_slot_inside [OF pde_index_bound] in \<open>auto simp: vm_pages_def\<close>)
    moreover have "outside (vm_pages dir s) ?m (k_memset ?p 0 MEM_PAGE_SIZE ?m)"
      by (rule outside_page [of ?p]) (use zero_page(2) [OF p0] 2(1) in \<open>auto simp: vm_pages_def pages_of_def\<close>)
    ultimately show ?thesis by (auto intro: outside_trans)
  qed
qed

lemma create_map_outside:
  assumes "vm_ok R dir s" "room dir va s" "memory_create_map dir va pa 1 perm s = Done r s'"
  shows "outside (vm_pages dir s) (phys s) (phys s')"
proof -
  from find_pte_alloc [OF assms(1,2)] obtain m a where
    f: "find_pte dir va 1 s = Done (slot (table_of m dir va) (pte_index va)) (s\<lparr>paddr_alloc := a, phys := m\<rparr>)"
    "pool_ok a" "space_ok m dir (used_of a - R)" "bit (pde_of m dir va) 0" "table_of m dir va \<noteq> 0" "pages_of a = pages_of (paddr_alloc s)"
    by blast
  have "table_of m dir va \<in> pages_of a" using f(3,4) pool.used_pages [OF f(2)] unfolding space_ok_def by blast
  then have t: "table_of m dir va \<in> vm_pages dir s" by (simp add: vm_pages_def f(6))
  have "slot (table_of m dir va) (pte_index va) \<noteq> 0" by (rule slot_not_null [OF table_aligned(1) f(5) pte_index_bound])
  then obtain v where "phys s' = put32 m (slot (table_of m dir va) (pte_index va)) v"
    using assms(3) f(1) by (auto simp: memory_create_map_def Let_def log_line_def split: if_splits)
  moreover have "outside (vm_pages dir s) m (put32 m (slot (table_of m dir va) (pte_index va)) v)"
    by (rule outside_page [OF t put_slot_inside [OF pte_index_bound]])
  ultimately show ?thesis using find_pte_outside [OF assms(1) f(1)] by (auto intro: outside_trans)
qed

lemma alloc_for_dir_outside:
  assumes "vm_ok R dir s" "2 * n \<le> free_count (paddr_alloc s)" "take_bit 12 perm = perm"
    and "alloc_for_dir n i dir base va perm s = Done r s'"
  shows "outside (vm_pages dir s) (phys s) (phys s') \<and> pages_of (paddr_alloc s') = pages_of (paddr_alloc s) \<and>
     free_count (paddr_alloc s) \<le> free_count (paddr_alloc s') + 2 * n \<and> used_of (paddr_alloc s) \<subseteq> used_of (paddr_alloc s')"
  using assms
proof (induction n arbitrary: i va s R)
  case (Suc n)
  from fresh_page [OF Suc.prems(1)] Suc.prems(2) obtain p a where
    p: "addr_alloc_page 1 s = Done p (s\<lparr>paddr_alloc := a\<rparr>)" "vm_ok (insert p R) dir (s\<lparr>paddr_alloc := a\<rparr>)"
    "p \<noteq> 0" "take_bit 12 p = 0" "pages_of a = pages_of (paddr_alloc s)" "free_count (paddr_alloc s) = Suc (free_count a)"
    "used_of (paddr_alloc s) \<subseteq> used_of a" by auto
  have room: "room dir va (s\<lparr>paddr_alloc := a\<rparr>)"
    using p(2,6) Suc.prems(2) by (intro room_free) (auto simp: vm_ok_def)
  from map_step [OF p(2) this p(4) Suc.prems(3), of 0] obtain s1 where
    m: "memory_create_map dir va p 1 perm (s\<lparr>paddr_alloc := a\<rparr>) = Done 0 s1" "vm_ok (insert p R) dir s1"
    "free_count a \<le> Suc (free_count (paddr_alloc s1))" "pages_of (paddr_alloc s1) = pages_of a" "used_of a \<subseteq> used_of (paddr_alloc s1)"
    by (auto simp: memory_create_map_def)
  have "2 * n \<le> free_count (paddr_alloc s1)" using Suc.prems(2) p(6) m(3) by simp
  moreover have "alloc_for_dir n (Suc i) dir base (va + MEM_PAGE_SIZE) perm s1 = Done r s'" using Suc.prems(4) p(1,3) m(1) by simp
  ultimately have "outside (vm_pages dir s1) (phys s1) (phys s') \<and> pages_of (paddr_alloc s') = pages_of (paddr_alloc s1) \<and>
      free_count (paddr_alloc s1) \<le> free_count (paddr_alloc s') + 2 * n \<and> used_of (paddr_alloc s1) \<subseteq> used_of (paddr_alloc s')"
    by (rule Suc.IH [OF m(2) _ Suc.prems(3)])
  moreover have "outside (vm_pages dir (s\<lparr>paddr_alloc := a\<rparr>)) (phys s) (phys s1)"
    using create_map_outside [OF p(2) room m(1)] by simp
  ultimately show ?case using p(5-7) m(3-5) by (auto simp: vm_pages_def intro: outside_trans)
qed simp

lemma vm_out_alloc_for_dir: "vm_out s (alloc_for_dir n i dir base va perm s)"
proof (induction n arbitrary: i va s)
  case (Suc n)
  have "vm_out s1 (addr_free_page base k (log_line f args s1))" for s1 :: "'a mem_state_scheme" and k f args
    by (rule vm_out_after [OF vm_only_ops(3) vm_out_addr(2)])
  then show ?case
    by (auto simp: Let_def intro!: vm_out_bind vm_out_addr(1) vm_out_create_map Suc.IH vm_out_done vm_only_ops)
qed simp

lemma vm_out_alloc_dir: "vm_out s (memory_alloc_for_page_dir dir va sz perm s)"
  by (simp add: memory_alloc_for_page_dir_def Let_def vm_out_alloc_for_dir)

subsection \<open>A segment in a new address space\<close>

lemma alloc_dir_refines:
  assumes "vm_ok R dir s" "unat sz \<le> 2 ^ 31" "2 * ((unat sz + 4095) div 4096) \<le> free_count (paddr_alloc s)"
    and "take_bit 12 perm = perm"
  obtains s' ps where "memory_alloc_for_page_dir dir va sz perm s = Done 0 s'" "vm_ok (R \<union> set ps) dir s'"
    "length ps = (unat sz + 4095) div 4096" "distinct ps" "set ps \<subseteq> pages_of (paddr_alloc s) - used_of (paddr_alloc s)"
    "mmu_walk (phys s') dir = map_list ps va (mmu_walk (phys s) dir)" "same_pages R (phys s) (phys s')"
    "vm_only s s'" "outside (vm_pages dir s) (phys s) (phys s')" "pages_of (paddr_alloc s') = pages_of (paddr_alloc s)"
    "free_count (paddr_alloc s) \<le> free_count (paddr_alloc s') + 2 * ((unat sz + 4095) div 4096)"
    "used_of (paddr_alloc s) \<subseteq> used_of (paddr_alloc s')"
proof -
  let ?n = "(unat sz + 4095) div 4096"
  from alloc_for_dir_refines [OF assms(1,3,4), of 0 "down2 va MEM_PAGE_SIZE" va] obtain s' ps where
    r: "alloc_for_dir ?n 0 dir (down2 va MEM_PAGE_SIZE) va perm s = Done 0 s'" "vm_ok (R \<union> set ps) dir s'" "length ps = ?n"
    "distinct ps" "set ps \<subseteq> pages_of (paddr_alloc s) - used_of (paddr_alloc s)"
    "mmu_walk (phys s') dir = map_list ps va (mmu_walk (phys s) dir)" "same_pages R (phys s) (phys s')"
    "tasks s' = tasks s" "curr_task s' = curr_task s" by blast
  have alloc: "memory_alloc_for_page_dir dir va sz perm s = Done 0 s'"
    using r(1) unfolding memory_alloc_for_page_dir_def Let_def up2_pages [OF assms(2)] by simp
  moreover have "vm_only s s'" using vm_out_alloc_dir [of s dir va sz perm] alloc assms(1) by (simp add: vm_out_def vm_ok_def)
  ultimately show thesis using that r(2-7) alloc_for_dir_outside [OF assms(1,3,4) r(1)] by blast
qed

text \<open>Reserved pages other than the ones written to keep their contents.\<close>

lemma pages_apart:
  assumes "vm_ok R dir s" "Q \<subseteq> R" "p \<in> Q" "q \<in> R - Q" "x \<in> region q 4096"
  shows "x \<notin> region p 4096"
proof -
  have ok: "pool_ok (paddr_alloc s)" "R \<subseteq> used_of (paddr_alloc s)" using assms(1) by (auto simp: vm_ok_def)
  have "p \<in> used_of (paddr_alloc s)" "q \<in> used_of (paddr_alloc s)" "q \<noteq> p" using assms(2-4) ok(2) by auto
  then have "take_bit 12 p = 0" "take_bit 12 q = 0" "q \<noteq> p" using used_page [OF ok(1)] by auto
  from pages_disjoint [OF this(2,1,3)] assms(5) show ?thesis by blast
qed

lemma rest_same_pages:
  assumes "vm_ok R dir s" "Q \<subseteq> R" "\<And>x. (\<forall>p \<in> Q. x \<notin> region p 4096) \<Longrightarrow> m x = phys s x"
  shows "same_pages (R - Q) (phys s) m"
  unfolding same_pages_def using assms(3) pages_apart [OF assms(1,2)] by blast

lemma load_phdr_done:
  assumes "vm_ok R dir s" "take_bit 12 (p_vaddr ph) = 0" "p_filesz ph \<le> p_memsz ph" "unat (p_memsz ph) \<le> 2 ^ 31"
    and "n = (unat (p_memsz ph) + 4095) div 4096" "unat (p_vaddr ph) + 4096 * n \<le> 2 ^ 32" "2 * n \<le> free_count (paddr_alloc s)"
    and "src = lk_temp_addr lk + p_offset ph" "src \<noteq> 0" "unat src + unat (p_filesz ph) \<le> 2 ^ 31"
    and "\<And>p. p \<in> vm_pages dir s \<Longrightarrow> region p 4096 \<inter> region src (unat (p_filesz ph)) = {}"
  shows "\<exists>s' ps. load_phdr lk TEMP_FILE_ID ph dir s = Done 0 (s'\<lparr>temp_pos := src + p_filesz ph\<rparr>) \<and> vm_only s s' \<and>
     vm_ok (R \<union> set ps) dir s' \<and> length ps = n \<and> distinct ps \<and> set ps \<subseteq> pages_of (paddr_alloc s) - used_of (paddr_alloc s) \<and>
     mmu_walk (phys s') dir = map_list ps (p_vaddr ph) (mmu_walk (phys s) dir) \<and>
     (\<forall>i < unat (p_filesz ph). mmu_walk (phys s') dir (p_vaddr ph + of_nat i) = Some (ps ! (i div 4096) + of_nat (i mod 4096)) \<and>
        phys s' (ps ! (i div 4096) + of_nat (i mod 4096)) = phys s (src + of_nat i)) \<and>
     same_pages R (phys s) (phys s') \<and> pages_of (paddr_alloc s') = pages_of (paddr_alloc s) \<and>
     free_count (paddr_alloc s) \<le> free_count (paddr_alloc s') + 2 * n \<and> used_of (paddr_alloc s) \<subseteq> used_of (paddr_alloc s')"
proof -
  let ?va = "p_vaddr ph" and ?f = "unat (p_filesz ph)"
  have free: "2 * ((unat (p_memsz ph) + 4095) div 4096) \<le> free_count (paddr_alloc s)" using assms(5,7) by simp
  have perm: "take_bit 12 (PTE_P OR PTE_U OR PTE_W) = PTE_P OR PTE_U OR PTE_W" by (simp add: PTE_P_def PTE_U_def PTE_W_def)
  obtain s1 ps where 1: "memory_alloc_for_page_dir dir ?va (p_memsz ph) (PTE_P OR PTE_U OR PTE_W) s = Done 0 s1"
    "vm_ok (R \<union> set ps) dir s1" "length ps = n" "distinct ps" "set ps \<subseteq> pages_of (paddr_alloc s) - used_of (paddr_alloc s)"
    "mmu_walk (phys s1) dir = map_list ps ?va (mmu_walk (phys s) dir)" "same_pages R (phys s) (phys s1)" "vm_only s s1"
    "outside (vm_pages dir s) (phys s) (phys s1)" "pages_of (paddr_alloc s1) = pages_of (paddr_alloc s)"
    "free_count (paddr_alloc s) \<le> free_count (paddr_alloc s1) + 2 * n" "used_of (paddr_alloc s) \<subseteq> used_of (paddr_alloc s1)"
    using alloc_dir_refines [OF assms(1,4) free perm] assms(5) by metis
  let ?s2 = "s1\<lparr>temp_pos := src\<rparr>"
  have seek: "sys_lseek lk TEMP_FILE_ID (sint (p_offset ph)) 0 s1 = Done 0 ?s2" using assms(8) by (simp add: sys_lseek_def)
  have vm2: "vm_ok (R \<union> set ps) dir ?s2" using 1(2) by (simp add: vm_ok_def mutex_idle_def)
  have fz: "?f \<le> 4096 * length ps" using assms(3,5) 1(3) by (simp add: word_le_nat_alt)
  have at: "mmu_walk (phys s1) dir (?va + of_nat i) = Some (ps ! (i div 4096) + of_nat (i mod 4096))" if "i < 4096 * length ps" for i
    unfolding 1(6) by (rule map_list_at [OF assms(2) _ that]) (use assms(6) 1(3) in simp)
  have src: "phys s1 (src + of_nat i) = phys s (src + of_nat i)" if "i < ?f" for i
    using 1(9) assms(11) region_nth [OF that, of src] unfolding outside_def by blast
  have "\<exists>m. read_segment ?f TEMP_FILE_ID dir ?va (of_nat ?f) ?s2 = Done 0 (?s2\<lparr>phys := m, temp_pos := temp_pos ?s2 + of_nat ?f\<rparr>) \<and>
     vm_ok (R \<union> set ps) dir (?s2\<lparr>phys := m\<rparr>) \<and> mmu_walk m dir = mmu_walk (phys ?s2) dir \<and>
     (\<forall>i < ?f. m (ps ! (i div 4096) + of_nat (i mod 4096)) = phys ?s2 (temp_pos ?s2 + of_nat i)) \<and>
     (\<forall>x. (\<forall>p \<in> set ps. x \<notin> region p 4096) \<longrightarrow> m x = phys ?s2 x)"
  proof (rule read_segment_done [OF vm2 _ 1(4) assms(2)])
    show "region p 4096 \<inter> region (temp_pos ?s2) ?f = {}" if "p \<in> set ps" for p
      using assms(11) [of p] that 1(5) by (auto simp: vm_pages_def)
  qed (use assms(6,9,10) 1(3) fz at in simp_all)
  then obtain m where m: "read_segment ?f TEMP_FILE_ID dir ?va (of_nat ?f) ?s2 = Done 0 (?s2\<lparr>phys := m, temp_pos := src + p_filesz ph\<rparr>)"
    "vm_ok (R \<union> set ps) dir (s1\<lparr>phys := m\<rparr>)" "mmu_walk m dir = mmu_walk (phys s1) dir"
    "\<And>i. i < ?f \<Longrightarrow> m (ps ! (i div 4096) + of_nat (i mod 4096)) = phys s1 (src + of_nat i)"
    "\<And>x. (\<forall>p \<in> set ps. x \<notin> region p 4096) \<Longrightarrow> m x = phys s1 x" by (auto simp: vm_ok_def mutex_idle_def)
  have "load_phdr lk TEMP_FILE_ID ph dir s = Done 0 (s1\<lparr>phys := m\<rparr>\<lparr>temp_pos := src + p_filesz ph\<rparr>)"
    using 1(1) seek m(1) by (simp add: load_phdr_def)
  moreover have "R \<subseteq> (R \<union> set ps) - set ps" using 1(5) assms(1) by (auto simp: vm_ok_def)
  then have "same_pages R (phys s1) m" using same_pages_mono rest_same_pages [OF 1(2) _ m(5)] by blast
  moreover have "vm_only s (s1\<lparr>phys := m\<rparr>)" by (rule vm_only_trans [OF 1(8) vm_only_ops(2)])
  ultimately show ?thesis
    using 1(3-7,10-12) m(2,3,4) at src fz same_pages_trans [OF 1(7)]
    by (intro exI [of _ "s1\<lparr>phys := m\<rparr>"] exI [of _ ps]) auto
qed

text \<open>C13: a program segment arrives in the new address space.  Let the segment start on a page boundary, let the
  image be read into memory outside the pages of the pool, and let there be enough free pages.  Then
  \<open>load_phdr\<close> maps the segment, page after page, to different frames nobody used, and every byte of the
  segment in the file is found at its virtual address through the new directory, across all page
  boundaries.  No other address is translated differently, and no reserved page has changed.\<close>

theorem load_phdr_places:
  assumes "vm_ok R dir s" "take_bit 12 (p_vaddr ph) = 0" "p_filesz ph \<le> p_memsz ph" "unat (p_memsz ph) \<le> 2 ^ 31"
    and "n = (unat (p_memsz ph) + 4095) div 4096" "unat (p_vaddr ph) + 4096 * n \<le> 2 ^ 32" "2 * n \<le> free_count (paddr_alloc s)"
    and "src = lk_temp_addr lk + p_offset ph" "src \<noteq> 0" "unat src + unat (p_filesz ph) \<le> 2 ^ 31"
    and "\<And>p. p \<in> vm_pages dir s \<Longrightarrow> region p 4096 \<inter> region src (unat (p_filesz ph)) = {}"
  shows "\<exists>s' ps. load_phdr lk TEMP_FILE_ID ph dir s = Done 0 s' \<and> length ps = n \<and> distinct ps \<and>
     set ps \<subseteq> pages_of (paddr_alloc s) - used_of (paddr_alloc s) \<and>
     mmu_walk (phys s') dir = map_list ps (p_vaddr ph) (mmu_walk (phys s) dir) \<and>
     (\<forall>i < unat (p_filesz ph). \<exists>pa. mmu_walk (phys s') dir (p_vaddr ph + of_nat i) = Some pa \<and> phys s' pa = phys s (src + of_nat i)) \<and>
     same_pages R (phys s) (phys s')"
proof -
  from load_phdr_done [OF assms] obtain s' ps where
    "load_phdr lk TEMP_FILE_ID ph dir s = Done 0 (s'\<lparr>temp_pos := src + p_filesz ph\<rparr>)" "length ps = n" "distinct ps"
    "set ps \<subseteq> pages_of (paddr_alloc s) - used_of (paddr_alloc s)"
    "mmu_walk (phys s') dir = map_list ps (p_vaddr ph) (mmu_walk (phys s) dir)" "same_pages R (phys s) (phys s')"
    "\<forall>i < unat (p_filesz ph). mmu_walk (phys s') dir (p_vaddr ph + of_nat i) = Some (ps ! (i div 4096) + of_nat (i mod 4096)) \<and>
       phys s' (ps ! (i div 4096) + of_nat (i mod 4096)) = phys s (src + of_nat i)" by blast
  then show ?thesis by (intro exI [of _ "s'\<lparr>temp_pos := src + p_filesz ph\<rparr>"] exI [of _ ps]) auto
qed

text \<open>A segment of 5000 bytes in the file, two pages in memory; the byte 4500 is in the second page.\<close>

definition image_start :: fs_state where
  "image_start = (call_start 0x80000000)\<lparr>phys := (\<lambda>_. 0)(0x2194 := 7)\<rparr>"

definition two_pages :: Elf32_Phdr where
  "two_pages = \<lparr>p_type = PT_LOAD, p_offset = 0x1000, p_vaddr = 0x80000000, p_paddr = 0, p_filesz = 5000, p_memsz = 8192,
     p_flags = 7, p_align = 4096\<rparr>"

lemma pool_above:
  assumes "p \<in> pages_of pool_stack" "x \<in> region p 4096"
  shows "0x100000 \<le> unat x"
proof -
  obtain i where i: "i < length (page_used pool_stack)" "p = page_addr pool_stack i" using assms(1) by (auto simp: pages_of_def)
  have "length (page_used pool_stack) = 16" by (simp add: pool_stack_used)
  then have p: "unat p = 0x100000 + 4096 * i" "i < 16"
    using page_addr_unat [OF pool_stack_ok i(1)] i by (simp_all add: pool_stack_def pool16_def)
  obtain k where "k < 4096" "x = p + of_nat k" using assms(2) by (auto simp: region_def)
  then show ?thesis using p by (simp add: unat_word_ariths unat_of_nat)
qed

lemma image_start_ok: "vm_ok {0x101000} 0x100000 image_start"
proof -
  have "mem32 ((\<lambda>_. 0)(0x2194 := 7)) (slot 0x100000 (pde_index va)) = mem32 (\<lambda>_. 0) (slot 0x100000 (pde_index va))" for va
  proof (rule mem32_cong)
    fix x assume "x \<in> region (slot 0x100000 (pde_index va)) 4"
    then have x: "x \<in> region 0x100000 4096" using slot_in_page [OF pde_index_bound, of "0x100000" va] by blast
    have "0x100000 \<in> pages_of pool_stack" using pool_stack_pages(1) pool.used_pages [OF pool_stack_ok] by blast
    from pool_above [OF this x] show "((\<lambda>_. 0)(0x2194 := 7)) x = (\<lambda>_. 0 :: u8) x" by auto
  qed
  then show ?thesis
    using pool_stack_ok pool_stack_pages
    by (simp add: vm_ok_def image_start_def space_ok_def)
qed

theorem load_phdr_places_witness:
  "\<exists>s' pa. load_phdr no_link TEMP_FILE_ID two_pages 0x100000 image_start = Done 0 s' \<and>
     mmu_walk (phys s') 0x100000 0x80001194 = Some pa \<and> phys s' pa = 7"
proof -
  have e: "paddr_alloc image_start = pool_stack" by (simp add: image_start_def)
  have seg: "p_vaddr two_pages = 0x80000000" "unat (p_filesz two_pages) = 5000" by (simp_all add: two_pages_def)
  have p: "take_bit 12 (p_vaddr two_pages) = 0" "p_filesz two_pages \<le> p_memsz two_pages" "unat (p_memsz two_pages) \<le> 2 ^ 31"
    "2 = (unat (p_memsz two_pages) + 4095) div 4096" "unat (p_vaddr two_pages) + 4096 * 2 \<le> 2 ^ 32"
    "2 * 2 \<le> free_count (paddr_alloc image_start)" "0x1000 = lk_temp_addr no_link + p_offset two_pages" "(0x1000 :: u32) \<noteq> 0"
    "unat (0x1000 :: u32) + unat (p_filesz two_pages) \<le> 2 ^ 31"
    by (simp_all add: two_pages_def e pool_stack_free no_link_def)
  have "region p 4096 \<inter> region 0x1000 (unat (p_filesz two_pages)) = {}" if "p \<in> vm_pages 0x100000 image_start" for p
  proof -
    have "0x100000 \<in> pages_of pool_stack" using pool_stack_pages(1) pool.used_pages [OF pool_stack_ok] by blast
    then have p: "p \<in> pages_of pool_stack" using that by (auto simp: vm_pages_def e)
    have "unat x < 0x100000" if "x \<in> region 0x1000 5000" for x :: u32
      using that by (auto simp: region_def unat_word_ariths unat_of_nat)
    then show ?thesis using pool_above [OF p] unfolding seg by (meson disjoint_iff not_le)
  qed
  from load_phdr_places [OF image_start_ok p this] obtain s' where
    r: "load_phdr no_link TEMP_FILE_ID two_pages 0x100000 image_start = Done 0 s'"
    "\<And>i. i < 5000 \<Longrightarrow> \<exists>pa. mmu_walk (phys s') 0x100000 (0x80000000 + of_nat i) = Some pa \<and> phys s' pa = phys image_start (0x1000 + of_nat i)"
    unfolding seg by blast
  from r(2) [of 4500] r(1) show ?thesis by (auto simp: image_start_def)
qed

end
