(* ===== verification/Reclaim_Laws.thy ===== *)
theory Reclaim_Laws
  imports Fork_Laws
begin

text \<open>
  Destroying an address space.  \<open>memory_destory_uvm\<close> returns the frames, the page tables and the directory of
  a task to the allocator: the pages in use afterwards are the pages in use before less the pages of the task.
\<close>

text \<open>The effect of giving back pages: only the allocator changes.\<close>

definition freed :: "u32 set \<Rightarrow> 'a mem_state_scheme \<Rightarrow> 'a mem_state_scheme \<Rightarrow> bool" where
  "freed A s s' \<longleftrightarrow> (\<exists>a. s' = s\<lparr>paddr_alloc := a\<rparr> \<and> pool_ok a \<and> pages_of a = pages_of (paddr_alloc s) \<and>
     used_of a = used_of (paddr_alloc s) - A)"

definition pool_ready :: "'a mem_state_scheme \<Rightarrow> bool" where
  "pool_ready s \<longleftrightarrow> pool_ok (paddr_alloc s) \<and> mutex_idle Paddr_alloc_mutex s"

lemma freed_none: "pool_ready s \<Longrightarrow> freed {} s s"
  by (auto simp: freed_def pool_ready_def intro!: exI [of _ "paddr_alloc s"])

lemma freed_trans: "freed A s s' \<Longrightarrow> freed B s' s'' \<Longrightarrow> freed (A \<union> B) s s''"
  by (auto simp: freed_def)

lemma freed_keeps:
  assumes "freed A s s'" "pool_ready s"
  shows "phys s' = phys s" "pages_of (paddr_alloc s') = pages_of (paddr_alloc s)" "pool_ready s'"
  using assms by (auto simp: freed_def pool_ready_def)

lemma free_one:
  assumes "pool_ready s" "p \<in> pages_of (paddr_alloc s)"
  shows "\<exists>s'. addr_free_page p 1 s = Done () s' \<and> freed {p} s s'"
proof -
  from pool.give_back [of "paddr_alloc s" p] assms obtain a where a: "release_page (paddr_alloc s) p = Inr a" "pool_ok a"
    "pages_of a = pages_of (paddr_alloc s)" "used_of a = used_of (paddr_alloc s) - {p}"
    by (auto simp: pool_ready_def)
  with addr_free_idle [of s p a] assms(1) show ?thesis by (auto simp: freed_def pool_ready_def)
qed

subsection \<open>The two loops\<close>

definition table_frames :: "mem \<Rightarrow> u32 \<Rightarrow> nat \<Rightarrow> u32 set" where
  "table_frames m tab k = {pte_paddr (mem32 m (slot tab (of_nat j))) | j. k \<le> j \<and> j < 1024 \<and> bit (mem32 m (slot tab (of_nat j))) 0}"

lemma from_Suc: "k < 1024 \<Longrightarrow> {f j | j :: nat. k \<le> j \<and> j < 1024 \<and> P j} = (if P k then {f k} else {}) \<union> {f j | j. Suc k \<le> j \<and> j < 1024 \<and> P j}"
  by (auto simp: Suc_le_eq le_less)

lemma free_ptes_frees:
  assumes "pool_ready s" "n + k = 1024" "table_frames (phys s) tab k \<subseteq> pages_of (paddr_alloc s)"
  shows "\<exists>s'. free_ptes n (slot tab (of_nat k)) s = Done () s' \<and> freed (table_frames (phys s) tab k) s s'"
  using assms
proof (induction n arbitrary: k s)
  case 0
  then have "table_frames (phys s) tab k = {}" by (auto simp: table_frames_def)
  then show ?case using freed_none [OF 0(1)] by simp
next
  case (Suc n)
  let ?e = "mem32 (phys s) (slot tab (of_nat k))"
  have k: "k < 1024" using Suc.prems(2) by simp
  have split: "table_frames (phys s) tab k = (if bit ?e 0 then {pte_paddr ?e} else {}) \<union> table_frames (phys s) tab (Suc k)"
    unfolding table_frames_def by (rule from_Suc [OF k])
  show ?case
  proof (cases "bit ?e 0")
    case False
    with Suc.IH [OF Suc.prems(1), of "Suc k"] Suc.prems(2,3) split show ?thesis by (simp add: pte_present_def slot_next)
  next
    case True
    then obtain s1 where 1: "addr_free_page (pte_paddr ?e) 1 s = Done () s1" "freed {pte_paddr ?e} s s1"
      using free_one [OF Suc.prems(1), of "pte_paddr ?e"] Suc.prems(3) split by auto
    note keep = freed_keeps [OF 1(2) Suc.prems(1)]
    obtain s2 where "free_ptes n (slot tab (of_nat (Suc k))) s1 = Done () s2" "freed (table_frames (phys s) tab (Suc k)) s1 s2"
      using Suc.IH [OF keep(3), of "Suc k"] Suc.prems(2,3) keep(1,2) split by auto
    with 1 True split freed_trans [OF 1(2)] show ?thesis by (auto simp: pte_present_def slot_next)
  qed
qed

definition row_pages :: "mem \<Rightarrow> u32 \<Rightarrow> u32 set" where
  "row_pages m e = insert (pde_paddr e) (table_frames m (pde_paddr e) 0)"

definition rows_from :: "mem \<Rightarrow> u32 \<Rightarrow> nat \<Rightarrow> u32 set" where
  "rows_from m dir k = \<Union> {row_pages m (mem32 m (slot dir (of_nat j))) | j. k \<le> j \<and> j < 1024 \<and> bit (mem32 m (slot dir (of_nat j))) 0}"

lemma free_pdes_frees:
  assumes "pool_ready s" "n + k = 1024" "rows_from (phys s) dir k \<subseteq> pages_of (paddr_alloc s)"
  shows "\<exists>s'. free_pdes n (slot dir (of_nat k)) s = Done () s' \<and> freed (rows_from (phys s) dir k) s s'"
  using assms
proof (induction n arbitrary: k s)
  case 0
  then have none: "{f j | j :: nat. k \<le> j \<and> j < 1024 \<and> P j} = {}" for f :: "nat \<Rightarrow> u32 set" and P by auto
  show ?case unfolding rows_from_def none using freed_none [OF 0(1)] by simp
next
  case (Suc n)
  let ?e = "mem32 (phys s) (slot dir (of_nat k))"
  let ?t = "pde_paddr ?e"
  have k: "k < 1024" using Suc.prems(2) by simp
  have split: "rows_from (phys s) dir k = (if bit ?e 0 then row_pages (phys s) ?e else {}) \<union> rows_from (phys s) dir (Suc k)"
    unfolding rows_from_def from_Suc [OF k] by simp
  show ?case
  proof (cases "bit ?e 0")
    case False
    with Suc.IH [OF Suc.prems(1), of "Suc k"] Suc.prems(2,3) split show ?thesis by (simp add: pde_present_def slot_next)
  next
    case True
    then have sub: "row_pages (phys s) ?e \<subseteq> pages_of (paddr_alloc s)" "rows_from (phys s) dir (Suc k) \<subseteq> pages_of (paddr_alloc s)"
      using Suc.prems(3) split by auto
    obtain s1 where 1: "free_ptes 1024 ?t s = Done () s1" "freed (table_frames (phys s) ?t 0) s s1"
      using free_ptes_frees [OF Suc.prems(1), of 1024 0 ?t] sub(1) by (auto simp: row_pages_def slot_def)
    note k1 = freed_keeps [OF 1(2) Suc.prems(1)]
    obtain s2 where 2: "addr_free_page ?t 1 s1 = Done () s2" "freed {?t} s1 s2"
      using free_one [OF k1(3), of ?t] sub(1) k1(2) by (auto simp: row_pages_def)
    note k2 = freed_keeps [OF 2(2) k1(3)]
    obtain s3 where 3: "free_pdes n (slot dir (of_nat (Suc k))) s2 = Done () s3" "freed (rows_from (phys s) dir (Suc k)) s2 s3"
      using Suc.IH [OF k2(3), of "Suc k"] Suc.prems(2) sub(2) k1(1,2) k2(1,2) by auto
    have "freed (table_frames (phys s) ?t 0 \<union> {?t} \<union> rows_from (phys s) dir (Suc k)) s s3"
      by (rule freed_trans [OF freed_trans [OF 1(2) 2(2)] 3(2)])
    then have "freed (rows_from (phys s) dir k) s s3" using True split by (simp add: row_pages_def Un_commute)
    moreover have "free_pdes (Suc n) (slot dir (of_nat k)) s = Done () s3"
      using True 1(1) 2(1) 3(1) k1(1) by (simp add: pde_present_def slot_next PTE_CNT_def)
    ultimately show ?thesis by blast
  qed
qed

subsection \<open>The pages of a task\<close>

definition task_pages :: "mem \<Rightarrow> u32 \<Rightarrow> u32 set" where
  "task_pages m dir = {dir} \<union> {table_of m dir va | va. MEMORY_TASK_BASE \<le> va \<and> bit (pde_of m dir va) 0} \<union>
     {pa AND NOT (mask 12) | va pa. MEMORY_TASK_BASE \<le> va \<and> mmu_walk m dir va = Some pa}"

lemma walk_frame:
  assumes "mmu_walk m dir va = Some pa"
  shows "pa AND NOT (mask 12) = pte_paddr (mem32 m (slot (table_of m dir va) (pte_index va)))"
proof -
  let ?p = "pte_paddr (mem32 m (slot (table_of m dir va) (pte_index va)))"
  have "unat (take_bit 12 va) < 4096"
    by (simp add: unsigned_take_bit_eq take_bit_nat_less_exp [of 12, simplified])
  from offset_add(2) [OF table_aligned(2) this] assms show ?thesis by (auto simp: mmu_walk_eq and_fff split: if_splits)
qed

lemma parent_pages_in: "parent_ok R m dir \<Longrightarrow> task_pages m dir \<subseteq> R"
  by (auto simp: parent_ok_def task_pages_def)
lemma rows_task_pages: "task_pages m dir = insert dir (rows_from m dir 512)"
proof (intro set_eqI iffI)
  fix p assume "p \<in> task_pages m dir"
  then consider "p = dir" | va where "MEMORY_TASK_BASE \<le> va" "bit (pde_of m dir va) 0" "p = table_of m dir va"
    | va pa where "MEMORY_TASK_BASE \<le> va" "mmu_walk m dir va = Some pa" "p = pa AND NOT (mask 12)"
    unfolding task_pages_def by blast
  then show "p \<in> insert dir (rows_from m dir 512)"
  proof cases
    case (2 va)
    have "512 \<le> unat (pde_index va)" "unat (pde_index va) < 1024" using 2(1) task_half [of va] idx_bounds(1) [of va] by (simp_all add: idx_def)
    with 2 show ?thesis unfolding rows_from_def row_pages_def by (intro insertI2 UnionI CollectI exI [of _ "unat (pde_index va)"]) auto
  next
    case (3 va pa)
    have "512 \<le> unat (pde_index va)" "unat (pde_index va) < 1024" using 3(1) task_half [of va] idx_bounds(1) [of va] by (simp_all add: idx_def)
    moreover have b: "bit (pde_of m dir va) 0" "bit (mem32 m (slot (table_of m dir va) (pte_index va))) 0"
      using 3(2) by (auto simp: mmu_walk_eq split: if_splits)
    moreover have "p \<in> row_pages m (pde_of m dir va)"
      using walk_frame [OF 3(2)] 3(3) b(2) pte_index_bound [of va] unfolding row_pages_def table_frames_def
      by (intro insertI2 CollectI exI [of _ "unat (pte_index va)"]) auto
    ultimately show ?thesis unfolding rows_from_def by (intro insertI2 UnionI CollectI exI [of _ "unat (pde_index va)"]) auto
  qed simp
next
  fix p assume "p \<in> insert dir (rows_from m dir 512)"
  then consider "p = dir" | i where "512 \<le> i" "i < 1024" "bit (mem32 m (slot dir (of_nat i))) 0" "p \<in> row_pages m (mem32 m (slot dir (of_nat i)))"
    unfolding rows_from_def by blast
  then show "p \<in> task_pages m dir"
  proof cases
    case (2 i)
    let ?e = "mem32 m (slot dir (of_nat i))"
    have va: "MEMORY_TASK_BASE \<le> uva i j" "pde_of m dir (uva i j) = ?e" if "j < 1024" for j
      using that 2(1,2) by (simp_all add: task_half idx_uva uva_indices)
    from 2(4) consider "p = pde_paddr ?e" | j where "j < 1024" "bit (mem32 m (slot (pde_paddr ?e) (of_nat j))) 0"
      "p = pte_paddr (mem32 m (slot (pde_paddr ?e) (of_nat j)))" unfolding row_pages_def table_frames_def by blast
    then show ?thesis
    proof cases
      case 1
      with va [of 0] 2(3) show ?thesis unfolding task_pages_def by (auto intro: exI [of _ "uva i 0"])
    next
      case (2 j)
      then have "mmu_walk m dir (uva i j) = Some p"
        using va [OF 2(1)] \<open>bit ?e 0\<close> \<open>i < 1024\<close> by (simp add: mmu_walk_eq uva_indices and_fff)
      moreover have "p AND NOT (mask 12) = p" using 2(3) offset_add(2) [OF table_aligned(2), of 0] by simp
      ultimately show ?thesis using va(1) [OF 2(1)] unfolding task_pages_def
        by (intro UnI2 CollectI exI [of _ "uva i j"] exI [of _ p]) simp
    qed
  qed (simp add: task_pages_def)
qed

lemma destroy_uvm_done:
  assumes "pool_ok (paddr_alloc s)" "mutex_idle Paddr_alloc_mutex s" "R \<subseteq> pages_of (paddr_alloc s)" "parent_ok R (phys s) dir"
  shows "\<exists>a. memory_destory_uvm dir s = Done () (s\<lparr>paddr_alloc := a\<rparr>) \<and> pool_ok a \<and> pages_of a = pages_of (paddr_alloc s) \<and>
     used_of a = used_of (paddr_alloc s) - task_pages (phys s) dir"
proof -
  have ready: "pool_ready s" using assms(1,2) by (simp add: pool_ready_def)
  have sub: "rows_from (phys s) dir 512 \<subseteq> pages_of (paddr_alloc s)" "dir \<in> pages_of (paddr_alloc s)"
    using parent_pages_in [OF assms(4)] assms(3) unfolding rows_task_pages by auto
  have b: "unat (pde_index MEMORY_TASK_BASE) = 512" by (simp add: pde_index_def MEMORY_TASK_BASE_def)
  obtain s1 where 1: "free_pdes 512 (slot dir 512) s = Done () s1" "freed (rows_from (phys s) dir 512) s s1"
    using free_pdes_frees [OF ready _ sub(1), of 512] by auto
  note k1 = freed_keeps [OF 1(2) ready]
  obtain s2 where 2: "addr_free_page dir 1 s1 = Done () s2" "freed {dir} s1 s2"
    using free_one [OF k1(3), of dir] sub(2) k1(2) by auto
  have "memory_destory_uvm dir s = Done () s2"
    using 1(1) 2(1) by (simp add: memory_destory_uvm_def b PDE_CNT_def slot_def)
  moreover have "freed (task_pages (phys s) dir) s s2"
    using freed_trans [OF 1(2) 2(2)] unfolding rows_task_pages by simp
  ultimately show ?thesis by (auto simp: freed_def)
qed

text \<open>C14: destroying an address space gives back exactly the pages of the task.  With \<open>R\<close> a set of pages of the pool
  that holds the directory, the tables of the task half and the frames they map, \<open>memory_destory_uvm\<close> ends
  normally, changes nothing but the allocator, and the pages in use are then those in use before less
  the directory, the tables and the frames; the kernel half, shared by all tasks, is not touched.\<close>

theorem destroy_uvm_frees:
  assumes "pool_ok (paddr_alloc s)" "mutex_idle Paddr_alloc_mutex s" "R \<subseteq> pages_of (paddr_alloc s)" "parent_ok R (phys s) dir"
  shows "\<exists>a. memory_destory_uvm dir s = Done () (s\<lparr>paddr_alloc := a\<rparr>) \<and> pool_ok a \<and> pages_of a = pages_of (paddr_alloc s) \<and>
     used_of a = used_of (paddr_alloc s) - task_pages (phys s) dir"
  by (rule destroy_uvm_done [OF assms])

text \<open>The sample parent of \<open>Fork_Laws\<close> has a directory, a table and a frame; they are free afterwards.\<close>

theorem destroy_uvm_frees_witness:
  "\<exists>a. memory_destory_uvm 0x100000 fork_start = Done () (fork_start\<lparr>paddr_alloc := a\<rparr>) \<and>
     0x100000 \<in> used_of fork_pool \<and> 0x100000 \<notin> used_of a \<and> 0x102000 \<in> used_of fork_pool \<and> 0x102000 \<notin> used_of a"
proof -
  have "parent_pages \<subseteq> pages_of (paddr_alloc fork_start)"
    using fork_pool_pages pool.used_pages [OF fork_pool_ok] by auto
  from destroy_uvm_frees [OF _ _ this, of "0x100000"] fork_pool_ok fork_parent_ok obtain a where
    a: "memory_destory_uvm 0x100000 fork_start = Done () (fork_start\<lparr>paddr_alloc := a\<rparr>)"
    "used_of a = used_of fork_pool - task_pages fork_mem 0x100000" by auto
  have "idx 0x80000000 = (512, 0)" by (simp add: idx_def pde_index_def pte_index_def)
  then have "mmu_walk fork_mem 0x100000 0x80000000 = Some 0x102000" by (simp add: fork_walk)
  moreover have "(0x102000 :: u32) AND NOT (mask 12) = 0x102000" "MEMORY_TASK_BASE \<le> (0x80000000 :: u32)"
    by (simp_all add: MEMORY_TASK_BASE_def mask_eq_exp_minus_1)
  ultimately have "0x102000 \<in> task_pages fork_mem 0x100000"
    unfolding task_pages_def by (intro UnI2 CollectI exI [of _ "0x80000000"] exI [of _ "0x102000"]) simp
  moreover have "0x100000 \<in> task_pages fork_mem 0x100000" by (simp add: task_pages_def)
  ultimately show ?thesis using a fork_pool_pages by auto
qed

end
