(* ===== verification/Argument_Laws.thy ===== *)
theory Argument_Laws
  imports Exec_Laws Reclaim_Laws
begin

text \<open>
  The arguments of a program.  \<open>memory_copy_uvm_data\<close> moves bytes of the caller into an address space that is
  not loaded, and \<open>copy_args\<close> builds the argument vector at the top of the stack of the new program there.
\<close>

subsection \<open>Addresses inside a page\<close>

lemma page_cases:
  obtains p k where "x = p + of_nat k" "k < 4096" "take_bit 12 p = 0" "x AND NOT (mask 12) = p" "unat ((x :: u32) AND 0xfff) = k"
proof (rule that)
  show "x = (x AND NOT (mask 12)) + of_nat (unat (x AND 0xfff))" using page_split [of x] by (simp add: and_fff)
  show "unat (x AND 0xfff) < 4096" by (simp add: and_fff unsigned_take_bit_eq take_bit_nat_less_exp [of 12, simplified])
  show "take_bit 12 (x AND NOT (mask 12)) = 0" by (auto intro!: bit_word_eqI simp: bit_simps)
qed simp_all

lemma walk_plus:
  assumes "unat (va AND 0xfff) + k < 4096"
  shows "mmu_walk m dir (va + of_nat k) = map_option (\<lambda>pa. pa + of_nat k) (mmu_walk m dir va)"
proof (cases va rule: page_cases)
  case (1 p j)
  then have "j + k < 4096" using assms by simp
  from walk_offset [OF 1(3) this, of m dir] walk_offset [OF 1(3,2), of m dir] show ?thesis
    unfolding 1(1) by (simp add: option.map_comp comp_def add.assoc)
qed

lemma walk_low:
  assumes "mmu_walk m dir va = Some pa" shows "pa AND 0xfff = va AND 0xfff"
proof (cases va rule: page_cases)
  case (1 p k)
  have "va AND 0xfff = of_nat k" using offset_add(1) [OF 1(3,2)] unfolding 1(1) .
  then show ?thesis using assms offset_add(1) [OF table_aligned(2) 1(2)] by (auto simp: mmu_walk_eq split: if_splits)
qed

lemma in_page: "x \<in> region (x AND NOT (mask 12)) 4096"
proof (cases x rule: page_cases)
  case (1 p k)
  from region_nth [OF 1(2), of p] show ?thesis unfolding 1(4) unfolding 1(1) .
qed

lemma in_page_only:
  assumes "take_bit 12 q = 0" "x \<in> region q 4096" shows "x AND NOT (mask 12) = q"
  using region_page [OF assms(1), of x] assms(2) by simp

subsection \<open>Copying into another address space\<close>

text \<open>\<open>Q\<close> are the frames of the destination, \<open>f\<close> the addresses of its bytes; the bytes of the source, at \<open>g\<close>, lie in
  reserved pages outside \<open>Q\<close>, where they stay as long as only pages of \<open>Q\<close> change.\<close>

definition transfer ::
  "u32 set \<Rightarrow> u32 set \<Rightarrow> u32 \<Rightarrow> u32 \<Rightarrow> u32 \<Rightarrow> u32 \<Rightarrow> nat \<Rightarrow> (nat \<Rightarrow> u32) \<Rightarrow> (nat \<Rightarrow> u32) \<Rightarrow> 'a mem_state_scheme \<Rightarrow> bool" where
  "transfer R Q dir cur to src n f g s \<longleftrightarrow> vm_ok R dir s \<and> Q \<subseteq> R \<and> n < 2 ^ 31 \<and> inj_on f {..<n} \<and>
     (\<forall>i < n. mmu_walk (phys s) dir (to + of_nat i) = Some (f i) \<and> f i AND NOT (mask 12) \<in> Q \<and>
        g i AND NOT (mask 12) \<in> R - Q \<and> src + of_nat i \<noteq> 0 \<and>
        (\<forall>m'. same_pages (R - Q) (phys s) m' \<longrightarrow> kview m' cur (src + of_nat i) = Some (g i)))"

lemma transferD:
  assumes "transfer R Q dir cur to src n f g s"
  shows "vm_ok R dir s" "Q \<subseteq> R" "n < 2 ^ 31" "inj_on f {..<n}"
    and "i < n \<Longrightarrow> mmu_walk (phys s) dir (to + of_nat i) = Some (f i)" "i < n \<Longrightarrow> f i AND NOT (mask 12) \<in> Q"
    and "i < n \<Longrightarrow> g i AND NOT (mask 12) \<in> R - Q" "i < n \<Longrightarrow> src + of_nat i \<noteq> 0"
    and "i < n \<Longrightarrow> same_pages (R - Q) (phys s) m' \<Longrightarrow> kview m' cur (src + of_nat i) = Some (g i)"
  using assms by (auto simp: transfer_def)

text \<open>One round of the loop: the bytes up to the end of the page of the destination.\<close>

lemma vm_memcpy_frame:
  assumes t: "transfer R Q dir cur to src n f g s" and c: "0 < c" "c \<le> n" "unat (to AND 0xfff) + c \<le> 4096"
  shows "\<exists>m. vm_memcpy cur (f 0) src (of_nat c) (phys s) = Inr m \<and> vm_ok R dir (s\<lparr>phys := m\<rparr>) \<and>
     mmu_walk m dir = mmu_walk (phys s) dir \<and> same_pages (R - Q) (phys s) m \<and> (\<forall>i < c. m (f i) = phys s (g i)) \<and>
     (\<forall>x. x \<notin> f ` {..<c} \<longrightarrow> m x = phys s x)"
proof -
  define o' where "o' = unat (to AND 0xfff)"
  define p where "p = f 0 AND NOT (mask 12)"
  have c3: "o' + c \<le> 4096" using c(3) by (simp add: o'_def)
  have walk0: "mmu_walk (phys s) dir to = Some (f 0)" using transferD(5) [OF t, of 0] c(1,2) by simp
  have ok: "pool_ok (paddr_alloc s)" "R \<subseteq> used_of (paddr_alloc s)" using transferD(1) [OF t] by (auto simp: vm_ok_def)
  have pQ: "p \<in> Q" using transferD(6) [OF t, of 0] c(1,2) by (simp add: p_def)
  then have pR: "p \<in> R" using transferD(2) [OF t] by blast
  have pg: "p \<noteq> 0" "take_bit 12 p = 0" "p \<in> pages_of (paddr_alloc s)"
    using used_page [OF ok(1)] pool.used_pages [OF ok(1)] pR ok(2) by blast+
  have f0p: "f 0 = p + of_nat o'"
    by (cases "f 0" rule: page_cases) (use walk_low [OF walk0] in \<open>simp add: p_def o'_def\<close>)
  have fi: "f i = f 0 + of_nat i" if "i < c" for i
    using walk_plus [of to i "phys s" dir] transferD(5) [OF t, of i] walk0 that c(2,3) by simp
  have fpi: "f 0 + of_nat i = p + of_nat (o' + i)" for i by (simp add: f0p add.assoc)
  have sub: "region (f 0) c \<subseteq> region p 4096"
    using region_append [of p o' c] region_mono [OF c3, of p] by (simp add: f0p)
  have img: "f ` {..<c} = region (f 0) c" unfolding region_def by (rule image_cong [OF refl], rule fi) simp
  note apart = pages_apart [OF transferD(1,2) [OF t] pQ]
  have same: "same_pages (R - Q) (phys s) m'" if "\<And>x. x \<notin> region (f 0) c \<Longrightarrow> m' x = phys s x" for m'
    unfolding same_pages_def using that apart sub by blast
  define m where "m = put_bytes (phys s) (f 0) (map (\<lambda>i. phys s (g i)) [0..<c])"
  have "vm_memcpy_loop c cur (f 0 + of_nat 0) (src + of_nat 0) (phys s) =
      Inr (put_bytes (phys s) (f 0 + of_nat 0) (map (\<lambda>i. phys s (g i)) [0..<c]))"
  proof (rule vm_memcpy_loop_eq)
    show "f 0 + of_nat i < MEMORY_TASK_BASE" if "i < c" for i
      unfolding fpi by (rule page_low [OF ok(1) pg(3)]) (use that c3 in simp)
    show "kview m' cur (src + of_nat i) = Some (g i)" if "i < c" "\<And>x. x \<notin> region (f 0) c \<Longrightarrow> m' x = phys s x" for i m'
      by (rule transferD(9) [OF t _ same]) (use that c(2) in simp_all)
    show "g i \<notin> region (f 0) c" if "i < c" for i
      using apart [OF transferD(7) [OF t] in_page, of i] that c(2) sub by auto
  qed (use c3 in simp_all)
  then have "vm_memcpy cur (f 0) src (of_nat c) (phys s) = Inr m"
    using pg(1) transferD(8) [OF t, of 0] c c3 by (auto simp: vm_memcpy_def m_def p_def unat_of_nat word_of_nat_eq_0_iff nat_dvd_not_less)
  moreover have out: "m x = phys s x" if "x \<notin> region (f 0) c" for x
    unfolding m_def using that by (intro put_bytes_other) simp
  moreover have "m (f i) = phys s (g i)" if "i < c" for i
    using at_bytes_nth [OF put_bytes_at [of "map (\<lambda>i. phys s (g i)) [0..<c]" "phys s" "f 0"], of i] that c3
    unfolding fi [OF that] by (simp add: m_def)
  moreover have "vm_ok R dir (s\<lparr>phys := m\<rparr>)" "mmu_walk m dir = mmu_walk (phys s) dir"
    using write_reserved [OF transferD(1) [OF t] pR, of m] out sub by blast+
  ultimately show ?thesis using same [of m] unfolding img by blast
qed

lemma copy_round:
  assumes t: "transfer R Q dir cur to src n f g s" and n: "0 < n" and c_def: "c = min n (4096 - unat (to AND 0xfff))"
  shows "\<exists>m. memory_copy_uvm_data cur to dir src (of_nat n) (phys s) =
       memory_copy_uvm_data cur (to + of_nat c) dir (src + of_nat c) (of_nat (n - c)) m \<and>
     vm_ok R dir (s\<lparr>phys := m\<rparr>) \<and> mmu_walk m dir = mmu_walk (phys s) dir \<and> same_pages (R - Q) (phys s) m \<and>
     (\<forall>i < c. m (f i) = phys s (g i)) \<and> (\<forall>x. x \<notin> f ` {..<c} \<longrightarrow> m x = phys s x)"
proof -
  have ob: "unat (to AND 0xfff) < 4096" by (cases to rule: page_cases) simp
  then have c: "0 < c" "c \<le> n" "unat (to AND 0xfff) + c \<le> 4096" using n by (auto simp: c_def)
  from vm_memcpy_frame [OF t c] obtain m where m: "vm_memcpy cur (f 0) src (of_nat c) (phys s) = Inr m"
    "vm_ok R dir (s\<lparr>phys := m\<rparr>)" "mmu_walk m dir = mmu_walk (phys s) dir" "same_pages (R - Q) (phys s) m"
    "\<forall>i < c. m (f i) = phys s (g i)" "\<forall>x. x \<notin> f ` {..<c} \<longrightarrow> m x = phys s x" by blast
  have walk0: "mmu_walk (phys s) dir to = Some (f 0)" using transferD(5) [OF t, of 0] n by simp
  have paddr: "memory_get_paddr (phys s) dir to = f 0" using get_paddr_walk [OF transferD(1) [OF t], of to] walk0 by simp
  have "f 0 AND NOT (mask 12) \<in> used_of (paddr_alloc s)"
    using transferD(1,2) [OF t] transferD(6) [OF t n] by (auto simp: vm_ok_def)
  then have f0: "f 0 \<noteq> 0" using used_page [of "paddr_alloc s" "f 0 AND NOT (mask 12)"] transferD(1) [OF t] by (auto simp: vm_ok_def)
  have n31: "unat (of_nat n :: u32) = n" using small_word [OF transferD(3) [OF t]] by blast
  have "f 0 AND 0xfff = of_nat (unat (to AND 0xfff))" using walk_low [OF walk0] by simp
  then have left: "MEM_PAGE_SIZE - (f 0 AND (MEM_PAGE_SIZE - 1)) = of_nat (4096 - unat (to AND 0xfff))"
    using ob by (simp add: MEM_PAGE_SIZE_def of_nat_diff)
  have cur: "(if (of_nat (4096 - unat (to AND 0xfff)) :: u32) > of_nat n then of_nat n else of_nat (4096 - unat (to AND 0xfff))) = (of_nat c :: u32)"
    using n31 by (auto simp: c_def min_def word_less_nat_alt unat_of_nat)
  have pos: "(of_nat n :: u32) > 0" using n n31 by (simp add: word_less_nat_alt)
  have "memory_copy_uvm_data cur to dir src (of_nat n) (phys s) =
      memory_copy_uvm_data cur (to + of_nat c) dir (src + of_nat c) (of_nat (n - c)) m"
    unfolding memory_copy_uvm_data.simps [of cur to dir src "of_nat n" "phys s"] Let_def paddr left cur m(1)
    using pos f0 c(2) by (simp add: of_nat_diff)
  with m(2-6) show ?thesis by blast
qed

lemma transfer_rest:
  assumes t: "transfer R Q dir cur to src n f g s" and c: "c \<le> n"
    and m: "vm_ok R dir (s\<lparr>phys := m\<rparr>)" "mmu_walk m dir = mmu_walk (phys s) dir" "same_pages (R - Q) (phys s) m"
  shows "transfer R Q dir cur (to + of_nat c) (src + of_nat c) (n - c) (\<lambda>i. f (i + c)) (\<lambda>i. g (i + c)) (s\<lparr>phys := m\<rparr>)"
proof -
  have "inj_on (\<lambda>i. f (i + c)) {..<n - c}" using inj_onD [OF transferD(4) [OF t]] by (intro inj_onI) force
  moreover have add: "to + of_nat c + of_nat i = to + of_nat (i + c)" "src + of_nat c + of_nat i = src + of_nat (i + c)" for i
    by (simp_all add: add_ac)
  ultimately show ?thesis
    unfolding transfer_def add using m transferD(2,3) [OF t] transferD(5-9) [OF t] same_pages_trans [OF m(3)]
    by (auto simp del: of_nat_add)
qed

lemma copy_data_done:
  assumes "transfer R Q dir cur to src n f g s"
  shows "\<exists>m. memory_copy_uvm_data cur to dir src (of_nat n) (phys s) = Inr (0, m) \<and> vm_ok R dir (s\<lparr>phys := m\<rparr>) \<and>
     mmu_walk m dir = mmu_walk (phys s) dir \<and> same_pages (R - Q) (phys s) m \<and> (\<forall>i < n. m (f i) = phys s (g i)) \<and>
     (\<forall>x. x \<notin> f ` {..<n} \<longrightarrow> m x = phys s x)"
  using assms
proof (induction n arbitrary: to src f g s rule: less_induct)
  case (less n)
  show ?case
  proof (cases "n = 0")
    case True
    then show ?thesis
      using transferD(1) [OF less.prems] by (intro exI [of _ "phys s"]) (simp add: memory_copy_uvm_data.simps)
  next
    case False
    define c where "c = min n (4096 - unat (to AND 0xfff))"
    have c: "0 < c" "c \<le> n" using False by (cases to rule: page_cases, simp_all add: c_def)
    from copy_round [OF less.prems _ c_def] False obtain m1 where 1: "memory_copy_uvm_data cur to dir src (of_nat n) (phys s) =
        memory_copy_uvm_data cur (to + of_nat c) dir (src + of_nat c) (of_nat (n - c)) m1"
      "vm_ok R dir (s\<lparr>phys := m1\<rparr>)" "mmu_walk m1 dir = mmu_walk (phys s) dir" "same_pages (R - Q) (phys s) m1"
      "\<And>i. i < c \<Longrightarrow> m1 (f i) = phys s (g i)" "\<And>x. x \<notin> f ` {..<c} \<Longrightarrow> m1 x = phys s x" by auto
    from less.IH [OF _ transfer_rest [OF less.prems c(2) 1(2-4)]] c obtain m where
      m: "memory_copy_uvm_data cur (to + of_nat c) dir (src + of_nat c) (of_nat (n - c)) m1 = Inr (0, m)"
      "vm_ok R dir (s\<lparr>phys := m\<rparr>)" "mmu_walk m dir = mmu_walk m1 dir" "same_pages (R - Q) m1 m"
      "\<And>i. i < n - c \<Longrightarrow> m (f (i + c)) = m1 (g (i + c))" "\<And>x. x \<notin> (\<lambda>i. f (i + c)) ` {..<n - c} \<Longrightarrow> m x = m1 x" by auto
    have keep: "m1 (g i) = phys s (g i)" if "i < n" for i
      using 1(4) transferD(7) [OF less.prems that] in_page [of "g i"] by (auto simp: same_pages_def)
    have "m (f i) = phys s (g i)" if i: "i < n" for i
    proof (cases "i < c")
      case True
      have "f i \<notin> (\<lambda>i. f (i + c)) ` {..<n - c}" using inj_onD [OF transferD(4) [OF less.prems], of i] True i by auto
      then show ?thesis using m(6) 1(5) [OF True] by simp
    next
      case False
      then show ?thesis using m(5) [of "i - c"] i keep [OF i] by simp
    qed
    moreover have "m x = phys s x" if x: "x \<notin> f ` {..<n}" for x
      using m(6) [of x] 1(6) [of x] x c(2) by fastforce
    ultimately show ?thesis using 1(1,3) m(1-3) same_pages_trans [OF 1(4) m(4)] by (intro exI [of _ m]) simp
  qed
qed

subsection \<open>A range of pages seen as one array\<close>

definition frame_at :: "u32 list \<Rightarrow> nat \<Rightarrow> u32" where
  "frame_at ps i = ps ! (i div 4096) + of_nat (i mod 4096)"

definition holds :: "u32 list \<Rightarrow> mem \<Rightarrow> nat \<Rightarrow> u8 list \<Rightarrow> bool" where
  "holds ps m i bs \<longleftrightarrow> (\<forall>k < length bs. m (frame_at ps (i + k)) = bs ! k)"

lemma holds_append: "holds ps m i (xs @ ys) \<longleftrightarrow> holds ps m i xs \<and> holds ps m (i + length xs) ys"
proof
  assume l: "holds ps m i (xs @ ys)"
  show "holds ps m i xs \<and> holds ps m (i + length xs) ys"
    unfolding holds_def
  proof (intro conjI allI impI)
    show "m (frame_at ps (i + k)) = xs ! k" if "k < length xs" for k
      using l that unfolding holds_def by (metis length_append nth_append trans_less_add1)
    show "m (frame_at ps (i + length xs + k)) = ys ! k" if "k < length ys" for k
      using l that unfolding holds_def by (metis add.assoc length_append nat_add_left_cancel_less nth_append_length_plus)
  qed
next
  assume r: "holds ps m i xs \<and> holds ps m (i + length xs) ys"
  show "holds ps m i (xs @ ys)"
    unfolding holds_def
  proof (intro allI impI)
    fix k assume k: "k < length (xs @ ys)"
    show "m (frame_at ps (i + k)) = (xs @ ys) ! k"
    proof (cases "k < length xs")
      case True
      then show ?thesis using r by (simp add: holds_def nth_append)
    next
      case False
      then obtain j where "k = length xs + j" by (metis le_add_diff_inverse not_less)
      then show ?thesis using r k by (simp add: holds_def add.assoc)
    qed
  qed
qed

lemma holds_Nil [simp]: "holds ps m i []"
  by (simp add: holds_def)

lemma holds_keep: "holds ps m i bs \<Longrightarrow> (\<And>k. k < length bs \<Longrightarrow> m' (frame_at ps (i + k)) = m (frame_at ps (i + k))) \<Longrightarrow> holds ps m' i bs"
  by (simp add: holds_def)

lemma frame_at_plus: "i mod 4096 + k < 4096 \<Longrightarrow> frame_at ps (i + k) = frame_at ps i + of_nat k"
proof -
  assume k: "i mod 4096 + k < 4096"
  have "i + k = 4096 * (i div 4096) + (i mod 4096 + k)" by simp
  then have "(i + k) div 4096 = i div 4096" "(i + k) mod 4096 = i mod 4096 + k"
    using k by (metis div_mult_self4 div_less add.right_neutral zero_neq_numeral, metis mod_mult_self4 mod_less)
  then show ?thesis by (simp add: frame_at_def add.assoc)
qed

lemma frame_at_page:
  assumes "\<And>p. p \<in> set ps \<Longrightarrow> take_bit 12 p = 0" "i < 4096 * length ps"
  shows "frame_at ps i AND NOT (mask 12) = ps ! (i div 4096)" "ps ! (i div 4096) \<in> set ps"
    "unat (frame_at ps i AND 0xfff) = i mod 4096"
proof -
  show p: "ps ! (i div 4096) \<in> set ps" using assms(2) by (intro nth_mem) (simp add: less_mult_imp_div_less mult.commute)
  have "i mod 4096 < 4096" by simp
  from offset_add(1,2) [OF assms(1) [OF p] this]
  show "frame_at ps i AND NOT (mask 12) = ps ! (i div 4096)" "unat (frame_at ps i AND 0xfff) = i mod 4096"
    by (simp_all add: frame_at_def unat_of_nat)
qed

lemma frame_at_inj:
  assumes "\<And>p. p \<in> set ps \<Longrightarrow> take_bit 12 p = 0" "distinct ps"
  shows "inj_on (frame_at ps) {..<4096 * length ps}"
proof (rule inj_onI)
  fix i j assume ij: "i \<in> {..<4096 * length ps}" "j \<in> {..<4096 * length ps}" "frame_at ps i = frame_at ps j"
  then have b: "i < 4096 * length ps" "j < 4096 * length ps" by simp_all
  have "ps ! (i div 4096) = ps ! (j div 4096)" "i mod 4096 = j mod 4096"
    using frame_at_page(1,3) [OF assms(1) b(1)] frame_at_page(1,3) [OF assms(1) b(2)] ij(3) by metis+
  moreover have "i div 4096 < length ps" "j div 4096 < length ps" using b by (simp_all add: less_mult_imp_div_less mult.commute)
  ultimately have "i div 4096 = j div 4096" "i mod 4096 = j mod 4096" using assms(2) by (simp_all add: nth_eq_iff_index_eq)
  then show "i = j" by (metis div_mult_mod_eq)
qed

text \<open>\<open>area\<close>: the pages \<open>ps\<close>, reserved and mapped by the translation \<open>w\<close> one after the other from \<open>A\<close> on.  \<open>readable\<close>: bytes the caller can
  read while the address space \<open>cur\<close> is loaded, as long as the pages \<open>K\<close> keep their contents.\<close>

definition area :: "u32 set \<Rightarrow> u32 list \<Rightarrow> u32 \<Rightarrow> (u32 \<Rightarrow> u32 option) \<Rightarrow> u32 \<Rightarrow> 'a mem_state_scheme \<Rightarrow> bool" where
  "area R ps A w dir s \<longleftrightarrow> vm_ok R dir s \<and> set ps \<subseteq> R \<and> distinct ps \<and> 4096 * length ps < 2 ^ 31 \<and>
     mmu_walk (phys s) dir = w \<and> (\<forall>i < 4096 * length ps. w (A + of_nat i) = Some (frame_at ps i))"

definition readable :: "u32 set \<Rightarrow> u32 \<Rightarrow> mem \<Rightarrow> u32 \<Rightarrow> u8 list \<Rightarrow> bool" where
  "readable K cur m src bs \<longleftrightarrow> (\<forall>i < length bs. src + of_nat i \<noteq> 0 \<and> (\<exists>pa. pa AND NOT (mask 12) \<in> K \<and> m pa = bs ! i \<and>
     (\<forall>m'. same_pages K m m' \<longrightarrow> kview m' cur (src + of_nat i) = Some pa)))"

lemma readable_stable:
  assumes "readable K cur m src bs" "same_pages K m m'"
  shows "readable K cur m' src bs"
  unfolding readable_def
proof (intro allI impI conjI)
  fix i assume i: "i < length bs"
  then show "src + of_nat i \<noteq> 0" using assms(1) by (simp add: readable_def)
  obtain pa where pa: "pa AND NOT (mask 12) \<in> K" "m pa = bs ! i" "\<And>m'. same_pages K m m' \<Longrightarrow> kview m' cur (src + of_nat i) = Some pa"
    using assms(1) i unfolding readable_def by blast
  have "m' pa = bs ! i" using assms(2) pa(1,2) in_page [of pa] by (auto simp: same_pages_def)
  then show "\<exists>pa. pa AND NOT (mask 12) \<in> K \<and> m' pa = bs ! i \<and> (\<forall>m''. same_pages K m' m'' \<longrightarrow> kview m'' cur (src + of_nat i) = Some pa)"
    using pa(1,3) same_pages_trans [OF assms(2)] by blast
qed

lemma readable_view:
  assumes "readable K (cr3 s) (phys s) src bs" "i < length bs"
  shows "uview s (src + of_nat i) = bs ! i"
proof -
  obtain pa where "phys s pa = bs ! i" "kview (phys s) (cr3 s) (src + of_nat i) = Some pa"
    using assms same_pages_refl [of K "phys s"] unfolding readable_def by blast
  then show ?thesis by (simp add: uview_def)
qed

lemma at_bytes_all: "at_bytes m p bs \<longleftrightarrow> (\<forall>i < length bs. m (p + of_nat i) = bs ! i)"
proof (induction bs arbitrary: p)
  case (Cons b bs)
  show ?case
  proof
    assume "at_bytes m p (b # bs)"
    then show "\<forall>i < length (b # bs). m (p + of_nat i) = (b # bs) ! i" using at_bytes_nth by blast
  next
    assume l: "\<forall>i < length (b # bs). m (p + of_nat i) = (b # bs) ! i"
    have "m (p + 1 + of_nat i) = bs ! i" if "i < length bs" for i
      using l [rule_format, of "Suc i"] that by (simp add: add.assoc)
    then show "at_bytes m p (b # bs)" using l [rule_format, of 0] Cons.IH by simp
  qed
qed simp

lemma readable_at: "readable K (cr3 s) (phys s) src bs \<Longrightarrow> at_bytes (uview s) src bs"
  unfolding at_bytes_all by (intro allI impI) (rule readable_view)

lemma readable_cstr: "readable K (cr3 s) (phys s) src (bs @ [0]) \<Longrightarrow> 0 \<notin> set bs \<Longrightarrow> cstr (uview s) src bs"
  by (drule readable_at) (simp add: cstr_def)

lemma mem32_word_bytes: "at_bytes m p (word_bytes w) \<Longrightarrow> mem32 m p = w"
proof -
  assume "at_bytes m p (word_bytes w)"
  then have "m p = ucast w" "m (p + 1) = ucast (drop_bit 8 w)" "m (p + 2) = ucast (drop_bit 16 w)" "m (p + 3) = ucast (drop_bit 24 w)"
    by (simp_all add: word_bytes_def add.assoc)
  then have "mem32 m p = mem32 (put32 m p w) p" using ptr_neq [of p] by (simp add: mem32_def put32_def)
  then show ?thesis by simp
qed

lemma readable_word: "readable K (cr3 s) (phys s) src (word_bytes w) \<Longrightarrow> mem32 (uview s) src = w"
  by (rule mem32_word_bytes [OF readable_at])

subsection \<open>Writing into the area\<close>

lemma areaD:
  assumes "area R ps A w dir s"
  shows "vm_ok R dir s" "set ps \<subseteq> R" "distinct ps" "4096 * length ps < 2 ^ 31" "p \<in> set ps \<Longrightarrow> take_bit 12 p = 0"
    "i < 4096 * length ps \<Longrightarrow> mmu_walk (phys s) dir (A + of_nat i) = Some (frame_at ps i)"
proof -
  show "take_bit 12 p = 0" if "p \<in> set ps"
    using that assms used_page [of "paddr_alloc s" p] by (auto simp: area_def vm_ok_def)
qed (use assms in \<open>simp_all add: area_def\<close>)

lemma area_frame:
  assumes "area R ps A w dir s" "i < 4096 * length ps"
  shows "frame_at ps i AND NOT (mask 12) \<in> set ps"
  using frame_at_page(1,2) [OF areaD(5) [OF assms(1)] assms(2)] by simp

lemma area_upd:
  assumes "area R ps A w dir s" "vm_ok R dir (s\<lparr>phys := m\<rparr>)" "mmu_walk m dir = mmu_walk (phys s) dir"
  shows "area R ps A w dir (s\<lparr>phys := m\<rparr>)"
  using assms by (simp add: area_def)

lemma area_put_word:
  assumes a: "area R ps A w dir s" and t: "t mod 4096 + 4 \<le> 4096" "t + 4 \<le> 4096 * length ps"
    and m_def: "m = put32 (phys s) (frame_at ps t) v"
  shows "area R ps A w dir (s\<lparr>phys := m\<rparr>)" "same_pages (R - set ps) (phys s) m" "holds ps m t (word_bytes v)"
    "i < 4096 * length ps \<Longrightarrow> i < t \<or> t + 4 \<le> i \<Longrightarrow> m (frame_at ps i) = phys s (frame_at ps i)"
proof -
  have tl: "t < 4096 * length ps" using t(2) by simp
  let ?p = "ps ! (t div 4096)"
  have reg: "region (frame_at ps t) 4 = (\<lambda>k. frame_at ps (t + k)) ` {..<4}"
    unfolding region_def by (rule image_cong [OF refl], rule frame_at_plus [symmetric]) (use t(1) in simp)
  have out: "m x = phys s x" if "x \<notin> region (frame_at ps t) 4" for x
    unfolding m_def by (rule put32_other [OF that])
  have sub: "region (frame_at ps t) 4 \<subseteq> region ?p 4096"
    using region_append [of ?p "t mod 4096" 4] region_mono [OF t(1), of ?p] by (simp add: frame_at_def)
  have pQ: "?p \<in> set ps" using frame_at_page(2) [OF areaD(5) [OF a] tl] .
  then have pR: "?p \<in> R" using areaD(2) [OF a] by blast
  have "vm_ok R dir (s\<lparr>phys := m\<rparr>)" "mmu_walk m dir = mmu_walk (phys s) dir"
    using write_reserved [OF areaD(1) [OF a] pR, of m] out sub by blast+
  then show "area R ps A w dir (s\<lparr>phys := m\<rparr>)" by (rule area_upd [OF a])
  show "same_pages (R - set ps) (phys s) m"
    by (rule rest_same_pages [OF areaD(1,2) [OF a]]) (use out sub pQ in blast)
  have "at_bytes m (frame_at ps t) (word_bytes v)"
    unfolding m_def using ptr_neq [of "frame_at ps t"] by (simp add: word_bytes_def put32_def add.assoc)
  then have "m (frame_at ps t + of_nat k) = word_bytes v ! k" if "k < 4" for k
    using that unfolding at_bytes_all by (simp add: word_bytes_def)
  then show "holds ps m t (word_bytes v)"
    using frame_at_plus [of t _ ps] t(1) by (simp add: holds_def word_bytes_def)
  assume i: "i < 4096 * length ps" "i < t \<or> t + 4 \<le> i"
  have "frame_at ps i \<noteq> frame_at ps (t + k)" if "k < 4" for k
    using inj_onD [OF frame_at_inj [OF areaD(5) [OF a] areaD(3) [OF a]], of i "t + k"] i t(2) that by auto
  then show "m (frame_at ps i) = phys s (frame_at ps i)" using out [of "frame_at ps i"] unfolding reg by blast
qed

lemma area_copy:
  assumes a: "area R ps A w dir s" and r: "readable (R - set ps) cur (phys s) src bs" and d: "d + length bs \<le> 4096 * length ps"
  shows "\<exists>m. memory_copy_uvm_data cur (A + of_nat d) dir src (of_nat (length bs)) (phys s) = Inr (0, m) \<and>
     area R ps A w dir (s\<lparr>phys := m\<rparr>) \<and> same_pages (R - set ps) (phys s) m \<and> holds ps m d bs \<and>
     (\<forall>i < 4096 * length ps. i < d \<or> d + length bs \<le> i \<longrightarrow> m (frame_at ps i) = phys s (frame_at ps i))"
proof -
  let ?K = "R - set ps"
  have "\<forall>i. \<exists>pa. i < length bs \<longrightarrow> pa AND NOT (mask 12) \<in> ?K \<and> phys s pa = bs ! i \<and>
      (\<forall>m'. same_pages ?K (phys s) m' \<longrightarrow> kview m' cur (src + of_nat i) = Some pa)"
    using r unfolding readable_def by blast
  then obtain g where g: "\<And>i. i < length bs \<Longrightarrow> g i AND NOT (mask 12) \<in> ?K \<and> phys s (g i) = bs ! i \<and>
      (\<forall>m'. same_pages ?K (phys s) m' \<longrightarrow> kview m' cur (src + of_nat i) = Some (g i))" by (metis (no_types, lifting))
  have inj: "inj_on (frame_at ps) {..<4096 * length ps}" by (rule frame_at_inj [OF areaD(5,3) [OF a]])
  have "inj_on (\<lambda>i. frame_at ps (d + i)) {..<length bs}" using inj_onD [OF inj] d by (intro inj_onI) force
  moreover have "mmu_walk (phys s) dir (A + of_nat d + of_nat i) = Some (frame_at ps (d + i))"
    "frame_at ps (d + i) AND NOT (mask 12) \<in> set ps" "src + of_nat i \<noteq> 0" if "i < length bs" for i
    using areaD(6) [OF a, of "d + i"] area_frame [OF a, of "d + i"] r that d by (simp_all add: add.assoc readable_def)
  ultimately have "transfer R (set ps) dir cur (A + of_nat d) src (length bs) (\<lambda>i. frame_at ps (d + i)) g s"
    unfolding transfer_def using areaD(1,2,4) [OF a] g d by simp
  from copy_data_done [OF this] obtain m where
    m: "memory_copy_uvm_data cur (A + of_nat d) dir src (of_nat (length bs)) (phys s) = Inr (0, m)"
    "vm_ok R dir (s\<lparr>phys := m\<rparr>)" "mmu_walk m dir = mmu_walk (phys s) dir" "same_pages ?K (phys s) m"
    "\<And>i. i < length bs \<Longrightarrow> m (frame_at ps (d + i)) = phys s (g i)"
    "\<And>x. x \<notin> (\<lambda>i. frame_at ps (d + i)) ` {..<length bs} \<Longrightarrow> m x = phys s x" by blast
  have "holds ps m d bs" using m(5) g by (simp add: holds_def)
  moreover have "m (frame_at ps i) = phys s (frame_at ps i)" if "i < 4096 * length ps" "i < d \<or> d + length bs \<le> i" for i
    using inj_onD [OF inj, of i] that d by (intro m(6)) force
  ultimately show ?thesis using m(1,4) area_upd [OF a m(2,3)] by blast
qed

subsection \<open>The argument vector\<close>

text \<open>The arguments of the caller: at \<open>a\<close> pointers to the strings and a null pointer.\<close>

fun args_at :: "u32 set \<Rightarrow> u32 \<Rightarrow> mem \<Rightarrow> u32 \<Rightarrow> u8 list list \<Rightarrow> bool" where
  "args_at K cur m a [] = readable K cur m a (word_bytes 0)"
| "args_at K cur m a (x # xs) = ((\<exists>p. readable K cur m a (word_bytes p) \<and> readable K cur m p (x @ [0])) \<and> 0 \<notin> set x \<and>
     args_at K cur m (a + 4) xs)"

text \<open>What the new program finds: the pointers to copies from \<open>D\<close> on, and the copies.\<close>

fun arg_table :: "u32 \<Rightarrow> u8 list list \<Rightarrow> u8 list" where
  "arg_table D [] = []"
| "arg_table D (x # xs) = word_bytes D @ arg_table (D + of_nat (Suc (length x))) xs"

definition arg_text :: "u8 list list \<Rightarrow> u8 list" where
  "arg_text ss = concat (map (\<lambda>x. x @ [0]) ss)"

lemma arg_text_simps [simp]: "arg_text [] = []" "arg_text (x # xs) = (x @ [0]) @ arg_text xs"
  by (simp_all add: arg_text_def)

lemma length_word_bytes [simp]: "length (word_bytes w) = 4" and word_bytes_nonempty [simp]: "word_bytes w \<noteq> []"
  by (simp_all add: word_bytes_def)

lemma length_arg_table [simp]: "length (arg_table D ss) = 4 * length ss"
  by (induction ss arbitrary: D) simp_all

lemma args_at_stable: "args_at K cur m a ss \<Longrightarrow> same_pages K m m' \<Longrightarrow> args_at K cur m' a ss"
  by (induction ss arbitrary: a) (auto intro: readable_stable)

lemma readable_mono: "readable P cur m src bs \<Longrightarrow> P \<subseteq> K \<Longrightarrow> readable K cur m src bs"
  unfolding readable_def by (meson same_pages_mono subsetD)

lemma args_at_mono: "args_at P cur m a ss \<Longrightarrow> P \<subseteq> K \<Longrightarrow> args_at K cur m a ss"
  by (induction ss arbitrary: a) (auto intro: readable_mono)

lemma readable_nonnull: "readable K cur m src bs \<Longrightarrow> bs \<noteq> [] \<Longrightarrow> src \<noteq> 0"
  unfolding readable_def by (drule spec [of _ 0]) simp

lemma strings_count_args:
  assumes "args_at K (cr3 s) (phys s) a ss"
  shows "strings_count (uview s) a = Some (int (length ss))"
proof -
  have "strings_count_loop (uview s) a c = Some (c + int (length ss))" for c
    using assms
  proof (induction ss arbitrary: a c)
    case Nil
    then show ?case using readable_word [of K s a 0] by (subst strings_count_loop.simps) simp
  next
    case (Cons x xs)
    then obtain p where p: "readable K (cr3 s) (phys s) a (word_bytes p)" "readable K (cr3 s) (phys s) p (x @ [0])" by auto
    have "mem32 (uview s) a = p" "p \<noteq> 0" using readable_word [OF p(1)] readable_nonnull [OF p(2)] by simp_all
    then show ?case using Cons.IH [of "a + 4" "c + 1"] Cons.prems by (subst strings_count_loop.simps) simp
  qed
  moreover have "a \<noteq> 0" using assms by (cases ss) (auto dest: readable_nonnull)
  ultimately show ?thesis by (simp add: strings_count_def)
qed

lemma copy_arg_strings_done:
  assumes "area R ps A w dir s" "args_at (R - set ps) (cr3 s) (phys s) a ss"
    and "ss \<noteq> [] \<Longrightarrow> t mod 4096 + 4 * length ss \<le> 4096" "t + 4 * length ss \<le> d" "d + length (arg_text ss) \<le> 4096 * length ps"
  shows "\<exists>m. copy_arg_strings (length ss) dir a (frame_at ps t) (A + of_nat d) s = Done () (s\<lparr>phys := m\<rparr>) \<and>
     area R ps A w dir (s\<lparr>phys := m\<rparr>) \<and> same_pages (R - set ps) (phys s) m \<and>
     holds ps m t (arg_table (A + of_nat d) ss) \<and> holds ps m d (arg_text ss) \<and>
     (\<forall>i < 4096 * length ps. i < t \<or> t + 4 * length ss \<le> i \<and> i < d \<or> d + length (arg_text ss) \<le> i \<longrightarrow>
        m (frame_at ps i) = phys s (frame_at ps i))"
  using assms
proof (induction ss arbitrary: a t d s)
  case Nil
  then show ?case by (intro exI [of _ "phys s"]) simp
next
  case (Cons x xs)
  let ?K = "R - set ps" and ?n = "Suc (length x)"
  obtain p where p: "readable ?K (cr3 s) (phys s) a (word_bytes p)" "readable ?K (cr3 s) (phys s) p (x @ [0])" "0 \<notin> set x"
    using Cons.prems(2) by auto
  have ptr: "mem32 (uview s) a = p" by (rule readable_word [OF p(1)])
  have len: "k_strlen (uview s) p = Some (int (length x))"
    by (rule k_strlen_cstr [OF readable_cstr [OF p(2,3)] readable_nonnull [OF p(2)]]) simp
  from area_copy [OF Cons.prems(1) p(2), of d] Cons.prems(5) obtain m0 where
    m0: "memory_copy_uvm_data (cr3 s) (A + of_nat d) dir p (of_nat ?n) (phys s) = Inr (0, m0)" "area R ps A w dir (s\<lparr>phys := m0\<rparr>)"
      "same_pages ?K (phys s) m0" "holds ps m0 d (x @ [0])"
      "\<And>i. i < 4096 * length ps \<Longrightarrow> i < d \<or> d + ?n \<le> i \<Longrightarrow> m0 (frame_at ps i) = phys s (frame_at ps i)" by auto
  define m1 where "m1 = put32 m0 (frame_at ps t) (A + of_nat d)"
  have t: "t mod 4096 + 4 \<le> 4096" "t + 4 \<le> 4096 * length ps" using Cons.prems(3-5) by simp_all
  have m1_put: "m1 = put32 (phys (s\<lparr>phys := m0\<rparr>)) (frame_at ps t) (A + of_nat d)" by (simp add: m1_def)
  note put = area_put_word [OF m0(2) t m1_put, simplified]
  let ?s1 = "s\<lparr>phys := m1\<rparr>"
  have sp: "same_pages ?K (phys s) m1" by (rule same_pages_trans [OF m0(3) put(2)])
  have step: "copy_arg_strings (length (x # xs)) dir a (frame_at ps t) (A + of_nat d) s =
      copy_arg_strings (length xs) dir (a + 4) (frame_at ps t + 4) (A + of_nat (d + ?n)) ?s1"
    using m0(1) by (simp add: ptr len m1_def Let_def add_ac)
  have next_t: "frame_at ps t + 4 = frame_at ps (t + 4)" "(t + 4) mod 4096 + 4 * length xs \<le> 4096" if "xs \<noteq> []"
  proof -
    have "t mod 4096 + 4 < 4096" using Cons.prems(3) that by (cases xs) simp_all
    moreover from this have "(t + 4) mod 4096 = t mod 4096 + 4" by (metis mod_add_left_eq mod_less)
    ultimately show "frame_at ps t + 4 = frame_at ps (t + 4)" "(t + 4) mod 4096 + 4 * length xs \<le> 4096"
      using frame_at_plus [of t 4 ps] Cons.prems(3) by (simp, simp)
  qed
  have "args_at ?K (cr3 ?s1) (phys ?s1) (a + 4) xs" using args_at_stable [OF _ sp] Cons.prems(2) by simp
  from Cons.IH [OF _ this, of "t + 4" "d + ?n"] put(1) next_t(2) Cons.prems(4,5) obtain m where
    m: "copy_arg_strings (length xs) dir (a + 4) (frame_at ps (t + 4)) (A + of_nat (d + ?n)) ?s1 = Done () (s\<lparr>phys := m\<rparr>)"
      "area R ps A w dir (s\<lparr>phys := m\<rparr>)" "same_pages ?K m1 m" "holds ps m (t + 4) (arg_table (A + of_nat (d + ?n)) xs)"
      "holds ps m (d + ?n) (arg_text xs)"
      "\<And>i. i < 4096 * length ps \<Longrightarrow> i < t + 4 \<or> t + 4 + 4 * length xs \<le> i \<and> i < d + ?n \<or> d + ?n + length (arg_text xs) \<le> i \<Longrightarrow>
         m (frame_at ps i) = m1 (frame_at ps i)" by auto
  have "copy_arg_strings (length (x # xs)) dir a (frame_at ps t) (A + of_nat d) s = Done () (s\<lparr>phys := m\<rparr>)"
  proof (cases "xs = []")
    case True
    then show ?thesis using step m(1) by simp
  next
    case False
    show ?thesis using m(1) unfolding step next_t(1) [OF False] .
  qed
  moreover have hd_t: "holds ps m t (word_bytes (A + of_nat d))"
    by (rule holds_keep [OF put(3)]) (use m(6) t(2) in simp)
  have "A + of_nat d + of_nat ?n = A + of_nat (d + ?n)" by (simp add: add_ac)
  then have "holds ps m t (arg_table (A + of_nat d) (x # xs))" using hd_t m(4) by (simp only: arg_table.simps holds_append length_word_bytes)
  moreover have hd_d: "holds ps m d (x @ [0])"
    by (rule holds_keep [OF m0(4)]) (use m(6) put(4) Cons.prems(4,5) in simp)
  have "length (x @ [0]) = ?n" by simp
  then have "holds ps m d (arg_text (x # xs))" using hd_d m(5) by (simp only: arg_text_simps holds_append [of _ _ _ "x @ [0]"])
  moreover have "m (frame_at ps i) = phys s (frame_at ps i)"
    if "i < 4096 * length ps" "i < t \<or> t + 4 * length (x # xs) \<le> i \<and> i < d \<or> d + length (arg_text (x # xs)) \<le> i" for i
    using m(6) [of i] put(4) [of i] m0(5) [of i] that Cons.prems(4) by auto
  ultimately show ?case
    using m(2) same_pages_trans [OF sp m(3)] by (intro exI [of _ m]) blast
qed

text \<open>\<open>args_block\<close>: what a program started with the arguments \<open>ss\<close> finds at the offset \<open>b\<close> of its stack, whose address is
  \<open>base\<close>: a word that nobody initialised, the number of arguments, the address of the table, the
  table with its null pointer, and the strings.\<close>

definition args_block :: "u32 list \<Rightarrow> mem \<Rightarrow> nat \<Rightarrow> u32 \<Rightarrow> u8 list list \<Rightarrow> bool" where
  "args_block ps m b base ss \<longleftrightarrow>
     holds ps m (b + 4) (word_bytes (of_nat (length ss)) @ word_bytes (base + 12) @
       arg_table (base + 12 + 4 * (of_nat (length ss) + 1)) ss) \<and>
     (ss \<noteq> [] \<longrightarrow> holds ps m (b + 12 + 4 * length ss) (word_bytes 0)) \<and>
     holds ps m (b + 12 + 4 * Suc (length ss)) (arg_text ss)"

text \<open>The local variable \<open>task_args\<close> on the kernel stack \<open>k\<close>.\<close>

lemma kernel_bytes:
  assumes "pool_ok a" "k \<in> pages_of a" "k \<in> K" "region stk (length bs) \<subseteq> region k 4096" "length bs \<le> 4096" "at_bytes m stk bs"
  shows "readable K cur m stk bs"
  unfolding readable_def
proof (intro allI impI)
  fix i assume i: "i < length bs"
  have k: "take_bit 12 k = 0" "k \<noteq> 0" using page_addr_facts [OF assms(1)] assms(2) by (auto simp: pages_of_def)
  have x: "stk + of_nat i \<in> region k 4096" using region_nth [OF i, of stk] assms(4) by blast
  then obtain j where j: "j < 4096" "stk + of_nat i = k + of_nat j" by (auto simp: region_def)
  have p: "(stk + of_nat i) AND NOT (mask 12) = k" by (rule in_page_only [OF k(1) x])
  then have "stk + of_nat i \<noteq> 0" using k(2) by auto
  moreover have "stk + of_nat i < MEMORY_TASK_BASE" unfolding j(2) by (rule page_low [OF assms(1,2) j(1)])
  ultimately show "stk + of_nat i \<noteq> 0 \<and> (\<exists>pa. pa AND NOT (mask 12) \<in> K \<and> m pa = bs ! i \<and>
      (\<forall>m'. same_pages K m m' \<longrightarrow> kview m' cur (stk + of_nat i) = Some pa))"
    using p assms(3) at_bytes_nth [OF assms(6) i] by (auto simp: kview_def)
qed

lemma task_args_bytes:
  fixes m :: mem
  shows "at_bytes (put32 (put32 m (stk + 4) v) (stk + 8) w) stk (load_bytes m stk 4 @ word_bytes v @ word_bytes w)"
    "x \<notin> region stk 12 \<Longrightarrow> put32 (put32 m (stk + 4) v) (stk + 8) w x = m x"
proof -
  have n: "stk + of_nat i \<noteq> stk + of_nat j" if "i < 12" "j < 12" "i \<noteq> j" for i j :: nat
    using that of_nat_word_inj [of i j] by auto
  show "at_bytes (put32 (put32 m (stk + 4) v) (stk + 8) w) stk (load_bytes m stk 4 @ word_bytes v @ word_bytes w)"
    using n [of 0 4] n [of 0 5] n [of 0 6] n [of 0 7] n [of 0 8] n [of 0 9] n [of 0 10] n [of 0 11]
    by (simp add: word_bytes_def put32_def load_bytes_def upt_rec add.assoc)
  assume x: "x \<notin> region stk 12"
  have "x \<noteq> stk + of_nat i" if "i < 12" for i using region_nth [OF that, of stk] x by auto
  from this [of 4] this [of 5] this [of 6] this [of 7] this [of 8] this [of 9] this [of 10] this [of 11]
  show "put32 (put32 m (stk + 4) v) (stk + 8) w x = m x" by (simp add: put32_def add.assoc)
qed

lemma holds_frame:
  assumes "holds ps m i bs" "i + length bs \<le> 4096 * length ps"
    and "\<And>j. j < 4096 * length ps \<Longrightarrow> i \<le> j \<Longrightarrow> j < i + length bs \<Longrightarrow> m' (frame_at ps j) = m (frame_at ps j)"
  shows "holds ps m' i bs"
  by (rule holds_keep [OF assms(1)]) (use assms(2,3) in simp)

text \<open>The end of the table: a null pointer when there are arguments.\<close>

lemma copy_args_null:
  assumes "area R ps A w dir s" "t mod 4096 + 4 \<le> 4096" "t + 4 \<le> 4096 * length ps" "m = (if c then put32 (phys s) (frame_at ps t) 0 else phys s)"
  shows "area R ps A w dir (s\<lparr>phys := m\<rparr>)" "same_pages (R - set ps) (phys s) m" "c \<Longrightarrow> holds ps m t (word_bytes 0)"
    "i < 4096 * length ps \<Longrightarrow> i < t \<or> t + 4 \<le> i \<Longrightarrow> m (frame_at ps i) = phys s (frame_at ps i)"
proof -
  note put = area_put_word [OF assms(1-3) refl]
  show "area R ps A w dir (s\<lparr>phys := m\<rparr>)" using assms(1) put(1) by (simp add: assms(4))
  show "same_pages (R - set ps) (phys s) m" using put(2) by (simp add: assms(4))
  show "holds ps m t (word_bytes 0)" if c using put(3) that by (simp add: assms(4))
  show "m (frame_at ps i) = phys s (frame_at ps i)" if "i < 4096 * length ps" "i < t \<or> t + 4 \<le> i"
    using put(4) [OF that] by (simp add: assms(4))
qed

lemma copy_args_done:
  assumes a: "area R ps A w dir s" and args: "args_at P (cr3 s) (phys s) argv ss" "P \<subseteq> R - set ps"
    and k: "k \<in> R - set ps" "k \<notin> P" "region stk 12 \<subseteq> region k 4096"
    and b: "b mod 4096 = 0" "12 + 4 * Suc (length ss) \<le> 4096"
      "b + 12 + 4 * Suc (length ss) + length (arg_text ss) \<le> 4096 * length ps"
  shows "\<exists>m. copy_args stk (A + of_nat b) dir (int (length ss)) argv s = Done 0 (s\<lparr>phys := m\<rparr>) \<and>
     area R ps A w dir (s\<lparr>phys := m\<rparr>) \<and> same_pages (R - set ps - {k}) (phys s) m \<and>
     (\<forall>x \<in> region k 4096. x \<notin> region stk 12 \<longrightarrow> m x = phys s x) \<and> args_block ps m b (A + of_nat b) ss"
proof -
  let ?K = "R - set ps" and ?n = "length ss" and ?to = "A + of_nat b"
  let ?d = "b + 12 + 4 * Suc ?n" and ?t = "b + 12"
  have ok: "pool_ok (paddr_alloc s)" "R \<subseteq> used_of (paddr_alloc s)" using areaD(1) [OF a] by (auto simp: vm_ok_def)
  have kp: "k \<in> pages_of (paddr_alloc s)" using pool.used_pages [OF ok(1)] ok(2) k(1) by blast
  define m0 where "m0 = put32 (put32 (phys s) (stk + 4) (of_nat ?n)) (stk + 8) (?to + 12)"
  have out0: "m0 x = phys s x" if "x \<notin> region stk 12" for x unfolding m0_def by (rule task_args_bytes(2) [OF that])
  have outk: "m0 x = phys s x" if "x \<notin> region k 4096" for x using out0 [of x] that k(3) by blast
  let ?s0 = "s\<lparr>phys := m0\<rparr>"
  have kR: "k \<in> R" using k(1) by blast
  have a0: "area R ps A w dir ?s0" by (rule area_upd [OF a write_reserved [OF areaD(1) [OF a] kR outk]])
  have sp0: "same_pages (R - {k}) (phys s) m0"
    by (rule rest_same_pages [OF areaD(1) [OF a]]) (use kR outk in auto)
  have args0: "args_at ?K (cr3 ?s0) (phys ?s0) argv ss"
    using args_at_mono [OF args_at_stable [OF args(1) same_pages_mono [OF sp0]] args(2)] args(2) k(2) by auto
  have tb: "memory_get_paddr (phys s) dir (?to + 12) = frame_at ps ?t"
    using get_paddr_walk [OF areaD(1) [OF a], of "?to + 12"] areaD(6) [OF a, of ?t] b(3) by (simp add: add.assoc)
  have bm: "(b + x) mod 4096 = x" if "x < 4096" for x
    using b(1) that by (metis add_0 mod_add_left_eq mod_less)
  have b12: "?t mod 4096 = 12" by (rule bm) simp
  have "\<exists>m. copy_arg_strings ?n dir argv (frame_at ps ?t) (A + of_nat ?d) ?s0 = Done () (?s0\<lparr>phys := m\<rparr>) \<and>
     area R ps A w dir (?s0\<lparr>phys := m\<rparr>) \<and> same_pages ?K (phys ?s0) m \<and>
     holds ps m ?t (arg_table (A + of_nat ?d) ss) \<and> holds ps m ?d (arg_text ss) \<and>
     (\<forall>i < 4096 * length ps. i < ?t \<or> ?t + 4 * ?n \<le> i \<and> i < ?d \<or> ?d + length (arg_text ss) \<le> i \<longrightarrow>
        m (frame_at ps i) = phys ?s0 (frame_at ps i))"
    by (rule copy_arg_strings_done [OF a0 args0]) (use b b12 in simp_all)
  then obtain m1 where m1: "copy_arg_strings ?n dir argv (frame_at ps ?t) (A + of_nat ?d) ?s0 = Done () (s\<lparr>phys := m1\<rparr>)"
    "area R ps A w dir (s\<lparr>phys := m1\<rparr>)" "same_pages ?K m0 m1" "holds ps m1 ?t (arg_table (A + of_nat ?d) ss)" "holds ps m1 ?d (arg_text ss)"
    by auto
  define m2 where "m2 = (if ss \<noteq> [] then put32 m1 (frame_at ps (?t + 4 * ?n)) 0 else m1)"
  have t2: "(?t + 4 * ?n) mod 4096 + 4 \<le> 4096" "?t + 4 * ?n + 4 \<le> 4096 * length ps"
  proof -
    have "(?t + 4 * ?n) mod 4096 = 12 + 4 * ?n" using bm [of "12 + 4 * ?n"] b(2) by (simp add: add.assoc)
    then show "(?t + 4 * ?n) mod 4096 + 4 \<le> 4096" "?t + 4 * ?n + 4 \<le> 4096 * length ps" using b(2,3) by simp_all
  qed
  have m2_def': "m2 = (if ss \<noteq> [] then put32 (phys (s\<lparr>phys := m1\<rparr>)) (frame_at ps (?t + 4 * ?n)) 0 else phys (s\<lparr>phys := m1\<rparr>))"
    by (simp add: m2_def)
  note nul = copy_args_null [OF m1(2) t2 m2_def', simplified]
  let ?bs = "load_bytes (phys s) stk 4 @ word_bytes (of_nat ?n) @ word_bytes (?to + 12)"
  have len12: "length ?bs = 12" by (simp add: load_bytes_def)
  have sp2: "same_pages ?K m0 m2" by (rule same_pages_trans [OF m1(3) nul(2)])
  have "readable ?K (cr3 s) m0 stk ?bs"
    by (rule kernel_bytes [OF ok(1) kp k(1)]) (use k(3) len12 task_args_bytes(1) in \<open>simp_all add: m0_def\<close>)
  then have r: "readable (R - set ps) (cr3 s) (phys (s\<lparr>phys := m2\<rparr>)) stk ?bs" using readable_stable [OF _ sp2] by simp
  from area_copy [OF nul(1) r, of b] b(3) len12 obtain m where
    m: "memory_copy_uvm_data (cr3 s) ?to dir stk 12 m2 = Inr (0, m)" "area R ps A w dir (s\<lparr>phys := m\<rparr>)" "same_pages ?K m2 m"
      "holds ps m b ?bs" "\<And>i. i < 4096 * length ps \<Longrightarrow> i < b \<or> b + 12 \<le> i \<Longrightarrow> m (frame_at ps i) = m2 (frame_at ps i)" by auto
  have to_d: "?to + 12 + 4 * (of_nat ?n + 1) = A + of_nat ?d" by (simp add: algebra_simps)
  have run: "copy_args stk ?to dir (int ?n) argv s = Done 0 (s\<lparr>phys := m\<rparr>)"
  proof -
    have tb2: "frame_at ps ?t + 4 * of_nat ?n = frame_at ps (?t + 4 * ?n)"
      using frame_at_plus [of ?t "4 * ?n" ps] b12 b(2) by simp
    show ?thesis
      unfolding copy_args_def Let_def tb of_int_of_nat_eq to_d m0_def [symmetric] nat_int m1(1) tb2
      using m(1) by (cases "ss = []") (simp_all add: m2_def)
  qed
  have sp: "same_pages ?K m0 m" by (rule same_pages_trans [OF sp2 m(3)])
  have keep: "same_pages (?K - {k}) (phys s) m"
    by (rule same_pages_trans [OF same_pages_mono [OF sp0] same_pages_mono [OF sp]]) blast+
  have stack: "\<forall>x \<in> region k 4096. x \<notin> region stk 12 \<longrightarrow> m x = phys s x"
    using sp k(1) out0 unfolding same_pages_def by auto
  have parts: "holds ps m ?t (arg_table (A + of_nat ?d) ss)" "ss \<noteq> [] \<Longrightarrow> holds ps m (?t + 4 * ?n) (word_bytes 0)"
    "holds ps m ?d (arg_text ss)"
  proof -
    show "holds ps m ?t (arg_table (A + of_nat ?d) ss)" by (rule holds_frame [OF m1(4)]) (use b(3) m(5) nul(4) in simp_all)
    show "holds ps m (?t + 4 * ?n) (word_bytes 0)" if "ss \<noteq> []"
      by (rule holds_frame [OF nul(3) [OF that]]) (use b(3) m(5) in simp_all)
    show "holds ps m ?d (arg_text ss)" by (rule holds_frame [OF m1(5)]) (use b(3) m(5) nul(4) in simp_all)
  qed
  have "holds ps m (b + 4) (word_bytes (of_nat ?n))" "holds ps m (b + 8) (word_bytes (?to + 12))"
    using m(4) by (simp_all add: holds_append load_bytes_def add.commute)
  moreover have e: "b + 4 + 4 = b + 8" "b + 8 + 4 = ?t" by simp_all
  ultimately have "args_block ps m b ?to ss"
    unfolding args_block_def holds_append length_word_bytes to_d e using parts by blast
  with run keep stack m(2) show ?thesis by blast
qed

end
