(* ===== verification/Execve_Laws.thy ===== *)
theory Execve_Laws
  imports Argument_Laws
begin

text \<open>
  Replacing the program of a task: \<open>load_elf_file\<close> reads the image from the disk and places its segment,
  and \<open>sys_execve\<close> composes the new address space, the image, the stack, the arguments and the release of
  the old address space.
\<close>

subsection \<open>What the steps leave alone\<close>

text \<open>\<open>exec_only t s s'\<close>: of the scheduler, the mutexes and the files nothing has changed but the task \<open>t\<close>, and of it
  the hardware state is the same.\<close>

definition exec_only :: "tid \<Rightarrow> 'a fs_state_scheme \<Rightarrow> 'a fs_state_scheme \<Rightarrow> bool" where
  "exec_only t s s' \<longleftrightarrow> curr_task s' = curr_task s \<and> mutexes s' = mutexes s \<and> cr3 s' = cr3 s \<and> nodes s' = nodes s \<and>
     ready_list s' = ready_list s \<and> sleep_list s' = sleep_list s \<and> file_tb s' = file_tb s \<and>
     (\<forall>u. u \<noteq> t \<longrightarrow> tasks s' u = tasks s u) \<and> tk_tss (tasks s' t) = tk_tss (tasks s t)"

lemma exec_only_refl [simp]: "exec_only t s s"
  by (simp add: exec_only_def)

lemma exec_only_trans: "exec_only t s s' \<Longrightarrow> exec_only t s' s'' \<Longrightarrow> exec_only t s s''"
  by (simp add: exec_only_def)

lemma exec_only_vm: "vm_only s s' \<Longrightarrow> exec_only t s s'"
  by (auto simp: exec_only_def vm_only_def)

lemma exec_only_idle: "exec_only t s s' \<Longrightarrow> mutex_idle m s' = mutex_idle m s"
  by (simp add: exec_only_def mutex_idle_def)

subsection \<open>Memory outside the address spaces\<close>

lemma vm_same_pages:
  assumes "vm_ok R dir s" "same_pages (used_of (paddr_alloc s)) (phys s) m"
  shows "vm_ok R dir (s\<lparr>phys := m\<rparr>)" "mmu_walk m dir = mmu_walk (phys s) dir"
proof -
  have sp: "space_ok (phys s) dir (used_of (paddr_alloc s) - R)" using assms(1) by (simp add: vm_ok_def)
  then have d: "dir \<in> used_of (paddr_alloc s)" by (auto simp: space_ok_def)
  have pde: "pde_of m dir va = pde_of (phys s) dir va" for va by (rule same_pages_slot [OF assms(2) d pde_index_bound])
  then show "vm_ok R dir (s\<lparr>phys := m\<rparr>)" using assms(1) by (simp add: vm_ok_def space_ok_def)
  have "mem32 m (slot (table_of (phys s) dir va) (pte_index va)) = mem32 (phys s) (slot (table_of (phys s) dir va) (pte_index va))"
    if "bit (pde_of (phys s) dir va) 0" for va
    by (rule same_pages_slot [OF assms(2) _ pte_index_bound]) (use sp that in \<open>auto simp: space_ok_def\<close>)
  then show "mmu_walk m dir = mmu_walk (phys s) dir" by (auto simp: fun_eq_iff mmu_walk_eq pde)
qed

lemma put_bytes_apart:
  assumes "\<And>p. p \<in> K \<Longrightarrow> region p 4096 \<inter> region q (length bs) = {}"
  shows "same_pages K m (put_bytes m q bs)"
  unfolding same_pages_def using assms by (intro ballI put_bytes_other) blast

subsection \<open>Reading the image\<close>

lemma load_cstr_cstr: "cstr m p bs \<Longrightarrow> load_cstr m p = Some bs"
proof (induction bs arbitrary: p)
  case Nil
  then show ?case by (subst load_cstr.simps) simp
next
  case (Cons b bs)
  then show ?case by (subst load_cstr.simps) auto
qed

text \<open>The 51200 bytes at the sector 5000 of the disk.\<close>

definition disk_image :: "'a fs_state_scheme \<Rightarrow> u8 list" where
  "disk_image s = disk_bytes 25600 (disk s)"

lemma read_image:
  assumes "\<forall>n. \<exists>k\<ge>n. drive_ready s k"
  shows "\<exists>k w. read_disk 5000 100 q s d m = Some (polled k (s\<lparr>port_out := w\<rparr>), disk_skip 25600 d, put_bytes m q (disk_bytes 25600 d))"
proof -
  let ?w = "port_out s @ disk_command 5000 100"
  have "\<forall>n. \<exists>k\<ge>n. drive_ready (s\<lparr>port_out := ?w\<rparr>) k" using assms by (simp add: drive_ready_def)
  from read_sectors_eq [OF this, of 100 q d m] show ?thesis by (auto simp: read_disk_def fold_outb)
qed

lemma open_image_eq:
  assumes "cstr (uview s) name (of_char CHR ''/'' # bs)" "name \<noteq> 0" "\<forall>n. \<exists>k\<ge>n. drive_ready s k"
  obtains r w where "sys_open lk name 0 s = Done TEMP_FILE_ID (s\<lparr>port_reads := r, port_out := w, disk := disk_skip 25600 (disk s),
     phys := put_bytes (phys s) (lk_temp_addr lk) (disk_image s), temp_pos := lk_temp_addr lk\<rparr>)"
proof -
  have load: "load_cstr (uview s) name = Some (of_char CHR ''/'' # bs)" by (rule load_cstr_cstr [OF assms(1)])
  have "strncmp_bytes (of_char CHR ''/'' # bs) (bytes_of ''tty'') \<noteq> 0" by (simp add: bytes_of_def)
  moreover have "\<forall>n. \<exists>k\<ge>n. drive_ready (irq_disable_global s) k" using assms(3) by (simp add: drive_ready_def irq_disable_global_def)
  from read_image [OF this, of "lk_temp_addr lk" "disk (irq_disable_global s)" "phys (irq_disable_global s)"] obtain k w where
    "read_disk 5000 100 (lk_temp_addr lk) (irq_disable_global s) (disk (irq_disable_global s)) (phys (irq_disable_global s)) =
       Some (polled k (irq_disable_global s\<lparr>port_out := w\<rparr>), disk_skip 25600 (disk s), put_bytes (phys s) (lk_temp_addr lk) (disk_image s))"
    by (auto simp: irq_disable_global_def disk_image_def)
  ultimately have "sys_open lk name 0 s = Done TEMP_FILE_ID (s\<lparr>port_reads := (port_reads s)(0x1F7 := k), port_out := w,
      disk := disk_skip 25600 (disk s), phys := put_bytes (phys s) (lk_temp_addr lk) (disk_image s), temp_pos := lk_temp_addr lk\<rparr>)"
    using assms(2) load by (simp add: sys_open_def irq_enter_proection_def irq_leave_proection_def polled_def irq_disable_global_def)
  then show thesis using that by blast
qed

lemma open_image:
  assumes "cstr (uview s) name (of_char CHR ''/'' # bs)" "name \<noteq> 0" "\<forall>n. \<exists>k\<ge>n. drive_ready s k"
  shows "\<exists>s'. sys_open lk name 0 s = Done TEMP_FILE_ID s' \<and> exec_only t s s' \<and> paddr_alloc s' = paddr_alloc s \<and> tasks s' = tasks s \<and>
     phys s' = put_bytes (phys s) (lk_temp_addr lk) (disk_image s) \<and> temp_pos s' = lk_temp_addr lk"
  by (rule open_image_eq [OF assms, where lk = lk]) (auto simp: exec_only_def)

definition exec_image :: "u8 list \<Rightarrow> Elf32_Ehdr \<Rightarrow> Elf32_Phdr \<Rightarrow> bool" where
  "exec_image B hdr ph \<longleftrightarrow> ehdr_of (take EHDR_SIZE B) = hdr \<and> elf_magic_ok hdr \<and> e_phnum hdr = 1 \<and> e_entry hdr \<noteq> 0 \<and>
     unat (e_phoff hdr) + PHDR_SIZE \<le> length B \<and> phdr_of (take PHDR_SIZE (drop (unat (e_phoff hdr)) B)) = ph \<and>
     p_type ph = PT_LOAD \<and> MEMORY_TASK_BASE \<le> p_vaddr ph \<and> take_bit 12 (p_vaddr ph) = 0 \<and> p_filesz ph \<le> p_memsz ph \<and>
     unat (p_offset ph) + unat (p_filesz ph) \<le> length B \<and>
     unat (p_vaddr ph) + unat (p_memsz ph) \<le> unat (MEM_TASK_STACK_TOP - MEM_TASK_STACK_SIZE)"

lemma imageD:
  assumes "exec_image B hdr ph"
  shows "ehdr_of (take EHDR_SIZE B) = hdr" "elf_magic_ok hdr" "e_phnum hdr = 1" "e_entry hdr \<noteq> 0"
    "unat (e_phoff hdr) + 32 \<le> length B" "phdr_of (take PHDR_SIZE (drop (unat (e_phoff hdr)) B)) = ph" "p_type ph = PT_LOAD"
    "\<not> p_vaddr ph < MEMORY_TASK_BASE" "take_bit 12 (p_vaddr ph) = 0" "p_filesz ph \<le> p_memsz ph" "unat (p_memsz ph) \<le> 2 ^ 31"
    "unat (p_offset ph) + unat (p_filesz ph) \<le> length B"
    "unat (p_vaddr ph) + 4096 * ((unat (p_memsz ph) + 4095) div 4096) \<le> 0xDFE0C000"
proof -
  have base: "unat (MEM_TASK_STACK_TOP - MEM_TASK_STACK_SIZE) = 0xDFE0C000"
    by (simp add: MEM_TASK_STACK_TOP_def MEM_TASK_STACK_SIZE_def MEM_PAGE_SIZE_def)
  have v: "unat (p_vaddr ph) + unat (p_memsz ph) \<le> 0xDFE0C000" "2 ^ 31 \<le> unat (p_vaddr ph)" "unat (p_vaddr ph) mod 4096 = 0"
    using assms base unfolding exec_image_def by (simp_all add: MEMORY_TASK_BASE_def word_le_nat_alt aligned_unat)
  then show "unat (p_memsz ph) \<le> 2 ^ 31" by simp
  obtain w where w: "unat (p_vaddr ph) = 4096 * w" using v(3) by (auto simp: mod_eq_0_iff_dvd)
  have "4096 * ((unat (p_memsz ph) + 4095) div 4096) \<le> unat (p_memsz ph) + 4095" by (rule times_div_less_eq_dividend)
  then have "w + (unat (p_memsz ph) + 4095) div 4096 \<le> 0xDFE0C" using v(1) w by linarith
  then show "unat (p_vaddr ph) + 4096 * ((unat (p_memsz ph) + 4095) div 4096) \<le> 0xDFE0C000" unfolding w by linarith
qed (use assms in \<open>auto simp: exec_image_def PHDR_SIZE_def not_less\<close>)

lemma image_index:
  assumes "exec_image B hdr ph" "i < unat (p_filesz ph)" "n = (unat (p_memsz ph) + 4095) div 4096"
  shows "i < 4096 * n"
proof -
  have "unat (p_filesz ph) \<le> unat (p_memsz ph)" using imageD(10) [OF assms(1)] by (simp add: word_le_nat_alt)
  moreover have "unat (p_memsz ph) \<le> 4096 * n"
    unfolding assms(3) using dividend_less_times_div [of 4096 "unat (p_memsz ph) + 4095"] by linarith
  ultimately show ?thesis using assms(2) by simp
qed

definition buffer_ok :: "link_t \<Rightarrow> 'a mem_state_scheme \<Rightarrow> bool" where
  "buffer_ok lk s \<longleftrightarrow> lk_temp_addr lk \<noteq> 0 \<and> unat (lk_temp_addr lk) + 51200 \<le> 2 ^ 31 \<and>
     (\<forall>p \<in> pages_of (paddr_alloc s). region p 4096 \<inter> region (lk_temp_addr lk) 51200 = {})"

lemma length_disk_image [simp]: "length (disk_image s) = 51200"
  by (simp add: disk_image_def)

lemma load_bytes_part:
  assumes "at_bytes m q B" "i + n \<le> length B"
  shows "load_bytes m (q + of_nat i) n = take n (drop i B)"
proof (rule nth_equalityI)
  fix j assume "j < length (load_bytes m (q + of_nat i) n)"
  then have j: "j < n" by simp
  have "m (q + of_nat (i + j)) = B ! (i + j)" by (rule at_bytes_nth [OF assms(1)]) (use j assms(2) in simp)
  then show "load_bytes m (q + of_nat i) n ! j = take n (drop i B) ! j" using j assms(2) by (simp add: load_bytes_def add.assoc)
qed (use assms(2) in simp)

lemma vm_ok_same: "phys s' = phys s \<Longrightarrow> paddr_alloc s' = paddr_alloc s \<Longrightarrow> mutexes s' = mutexes s \<Longrightarrow> vm_ok R dir s' = vm_ok R dir s"
  by (simp add: vm_ok_def mutex_idle_def)

text \<open>The loader of the kernel on an open image: the header, the first program header, the segment.\<close>

lemma open_image_vm:
  assumes "cstr (uview s) name (of_char CHR ''/'' # bs)" "name \<noteq> 0" "\<forall>n. \<exists>k\<ge>n. drive_ready s k"
    and "vm_ok R dir s" "buffer_ok lk s"
  obtains s' where "sys_open lk name 0 s = Done TEMP_FILE_ID s'" "exec_only t s s'" "paddr_alloc s' = paddr_alloc s"
    "temp_pos s' = lk_temp_addr lk" "at_bytes (phys s') (lk_temp_addr lk) (disk_image s)" "vm_ok R dir s'"
    "mmu_walk (phys s') dir = mmu_walk (phys s) dir" "same_pages R (phys s) (phys s')"
    "same_pages (used_of (paddr_alloc s)) (phys s) (phys s')" "tasks s' = tasks s"
proof -
  let ?T = "lk_temp_addr lk"
  from open_image [OF assms(1-3)] obtain s' where r: "sys_open lk name 0 s = Done TEMP_FILE_ID s'" "exec_only t s s'"
    "paddr_alloc s' = paddr_alloc s" "phys s' = put_bytes (phys s) ?T (disk_image s)" "temp_pos s' = ?T" "tasks s' = tasks s" by blast
  have used: "used_of (paddr_alloc s) \<subseteq> pages_of (paddr_alloc s)" "R \<subseteq> used_of (paddr_alloc s)"
    using assms(4) pool.used_pages by (auto simp: vm_ok_def)
  have "same_pages (used_of (paddr_alloc s)) (phys s) (phys s')"
    unfolding r(4) by (rule put_bytes_apart) (use assms(5) used in \<open>auto simp: buffer_ok_def\<close>)
  note sp = this
  have "vm_ok R dir (s\<lparr>phys := phys s'\<rparr>)" "mmu_walk (phys s') dir = mmu_walk (phys s) dir" by (rule vm_same_pages [OF assms(4) sp])+
  moreover have "vm_ok R dir s' = vm_ok R dir (s\<lparr>phys := phys s'\<rparr>)" by (rule vm_ok_same) (use r(2,3) in \<open>simp_all add: exec_only_def\<close>)
  moreover have "at_bytes (phys s') ?T (disk_image s)" unfolding r(4) by (rule put_bytes_at) simp
  ultimately show thesis using that r(1-3,5,6) sp same_pages_mono [OF sp used(2)] by blast
qed

lemma load_elf_done:
  assumes name: "cstr (uview s) name (of_char CHR ''/'' # bs)" "name \<noteq> 0" "\<forall>n. \<exists>k\<ge>n. drive_ready s k"
    and vm: "vm_ok R dir s" "buffer_ok lk s" and img: "exec_image (disk_image s) hdr ph"
    and n: "n = (unat (p_memsz ph) + 4095) div 4096" "2 * n \<le> free_count (paddr_alloc s)"
  shows "\<exists>s' qs. load_elf_file lk t name dir s = Done (e_entry hdr) s' \<and> exec_only t s s' \<and> vm_ok (R \<union> set qs) dir s' \<and>
     length qs = n \<and> distinct qs \<and> set qs \<subseteq> pages_of (paddr_alloc s) - used_of (paddr_alloc s) \<and>
     mmu_walk (phys s') dir = map_list qs (p_vaddr ph) (mmu_walk (phys s) dir) \<and>
     (\<forall>i < unat (p_filesz ph). mmu_walk (phys s') dir (p_vaddr ph + of_nat i) = Some (frame_at qs i) \<and>
        phys s' (frame_at qs i) = disk_image s ! (unat (p_offset ph) + i)) \<and>
     same_pages R (phys s) (phys s') \<and> pages_of (paddr_alloc s') = pages_of (paddr_alloc s) \<and>
     free_count (paddr_alloc s) \<le> free_count (paddr_alloc s') + 2 * n \<and> used_of (paddr_alloc s) \<subseteq> used_of (paddr_alloc s') \<and>
     tk_heap_start (tasks s' t) = p_vaddr ph + p_memsz ph \<and> tk_heap_end (tasks s' t) = p_vaddr ph + p_memsz ph"
proof -
  let ?T = "lk_temp_addr lk" and ?B = "disk_image s"
  obtain s1 where 1: "sys_open lk name 0 s = Done TEMP_FILE_ID s1" "exec_only t s s1" "paddr_alloc s1 = paddr_alloc s"
    "temp_pos s1 = ?T" "at_bytes (phys s1) ?T ?B" "vm_ok R dir s1" "mmu_walk (phys s1) dir = mmu_walk (phys s) dir"
    "same_pages R (phys s) (phys s1)" by (rule open_image_vm [OF name vm]) blast
  have T: "?T \<noteq> 0" "unat ?T + 51200 \<le> 2 ^ 31" "\<And>p. p \<in> pages_of (paddr_alloc s) \<Longrightarrow> region p 4096 \<inter> region ?T 51200 = {}"
    using vm(2) by (auto simp: buffer_ok_def)
  have hdr: "load_bytes (phys s1) ?T 52 = take EHDR_SIZE ?B" using load_bytes_part [OF 1(5), of 0 52] by (simp add: EHDR_SIZE_def)
  have "load_bytes (phys s1) (?T + e_phoff hdr) 32 = take PHDR_SIZE (drop (unat (e_phoff hdr)) ?B)"
    using load_bytes_part [OF 1(5), of "unat (e_phoff hdr)" 32] imageD(5) [OF img] by (simp add: PHDR_SIZE_def)
  note ph = this
  let ?s2 = "s1\<lparr>temp_pos := ?T + e_phoff hdr + 32\<rparr>" and ?src = "?T + p_offset ph"
  have off: "unat (p_offset ph) + unat (p_filesz ph) \<le> 51200" using imageD(12) [OF img] by simp
  then have src: "unat ?src = unat ?T + unat (p_offset ph)" using T(2) by (simp add: unat_word_ariths)
  have "region ?src (unat (p_filesz ph)) \<subseteq> region ?T 51200"
    using region_append [of ?T "unat (p_offset ph)" "unat (p_filesz ph)"] region_mono [OF off, of ?T] by simp
  note sub = this
  have dir: "dir \<in> pages_of (paddr_alloc s)"
    using vm(1) pool.used_pages [of "paddr_alloc s"] by (auto simp: vm_ok_def space_ok_def)
  have apart: "region p 4096 \<inter> region ?src (unat (p_filesz ph)) = {}" if "p \<in> vm_pages dir ?s2" for p
  proof -
    have "p \<in> pages_of (paddr_alloc s)" using that dir 1(3) unfolding vm_pages_def by auto
    from T(3) [OF this] sub show ?thesis by blast
  qed
  have vm2: "vm_ok R dir ?s2" using 1(6) by (simp add: vm_ok_def mutex_idle_def)
  have vend: "unat (p_vaddr ph) + 4096 * n \<le> 2 ^ 32" using imageD(13) [OF img] n(1) by simp
  have pre: "2 * n \<le> free_count (paddr_alloc ?s2)" "?src \<noteq> 0" "unat ?src + unat (p_filesz ph) \<le> 2 ^ 31"
  proof -
    show "2 * n \<le> free_count (paddr_alloc ?s2)" using n(2) 1(3) by simp
    show "unat ?src + unat (p_filesz ph) \<le> 2 ^ 31" unfolding src using off T(2) by linarith
    have "unat ?T \<noteq> 0" using T(1) unat_eq_zero by blast
    then have "unat ?src \<noteq> 0" unfolding src by linarith
    then show "?src \<noteq> 0" using unat_0 by metis
  qed
  obtain s3 qs where 3: "load_phdr lk TEMP_FILE_ID ph dir ?s2 = Done 0 (s3\<lparr>temp_pos := ?src + p_filesz ph\<rparr>)" "vm_only ?s2 s3"
    "vm_ok (R \<union> set qs) dir s3" "length qs = n" "distinct qs" "set qs \<subseteq> pages_of (paddr_alloc s) - used_of (paddr_alloc s)"
    "mmu_walk (phys s3) dir = map_list qs (p_vaddr ph) (mmu_walk (phys s) dir)"
    "\<And>i. i < unat (p_filesz ph) \<Longrightarrow> mmu_walk (phys s3) dir (p_vaddr ph + of_nat i) = Some (frame_at qs i) \<and>
        phys s3 (frame_at qs i) = phys s1 (?src + of_nat i)"
    "same_pages R (phys s1) (phys s3)" "pages_of (paddr_alloc s3) = pages_of (paddr_alloc s)"
    "free_count (paddr_alloc s) \<le> free_count (paddr_alloc s3) + 2 * n" "used_of (paddr_alloc s) \<subseteq> used_of (paddr_alloc s3)"
    using load_phdr_done [OF vm2 imageD(9,10,11) [OF img] n(1) vend pre(1) refl pre(2,3) apart] 1(3,7)
    by (auto simp: frame_at_def)
  have bytes: "phys s1 (?src + of_nat i) = ?B ! (unat (p_offset ph) + i)" if "i < unat (p_filesz ph)" for i
    using at_bytes_nth [OF 1(5), of "unat (p_offset ph) + i"] that off by (simp add: add.assoc)
  let ?h = "p_vaddr ph + p_memsz ph"
  let ?s4 = "upd_task t (\<lambda>x. x\<lparr>tk_heap_start := ?h, tk_heap_end := ?h\<rparr>) (s3\<lparr>temp_pos := ?src + p_filesz ph\<rparr>)"
  have "load_segments 1 lk t TEMP_FILE_ID (e_phoff hdr) dir (s1\<lparr>temp_pos := ?T + 52\<rparr>) = Done True ?s4"
    using 3(1) imageD(6,7,8) [OF img] ph by (simp add: sys_lseek_def sys_read_local_def temp_take_def PHDR_SIZE_def Let_def)
  then have "load_elf_file lk t name dir s = Done (e_entry hdr) ?s4"
    using 1(1,4) imageD(1,2,3) [OF img] hdr
    by (simp add: load_elf_file_def sys_read_local_def temp_take_def EHDR_SIZE_def TEMP_FILE_ID_def Let_def)
  moreover have "exec_only t s1 ?s4" using exec_only_vm [OF 3(2), of t] by (simp add: exec_only_def upd_task_def)
  then have "exec_only t s ?s4" by (rule exec_only_trans [OF 1(2)])
  moreover have "vm_ok (R \<union> set qs) dir ?s4" using 3(3) by (simp add: vm_ok_def mutex_idle_def upd_task_def)
  ultimately show ?thesis
    using 3(4-12) bytes same_pages_trans [OF 1(8) 3(9)] by (intro exI [of _ ?s4] exI [of _ qs]) (simp add: upd_task_def)
qed

subsection \<open>The new address space\<close>

abbreviation stack_base :: u32 where
  "stack_base \<equiv> MEM_TASK_STACK_TOP - MEM_TASK_STACK_SIZE"

lemma stack_numbers: "unat stack_base = 0xDFE0C000" "take_bit 12 stack_base = 0" "(unat MEM_TASK_STACK_SIZE + 4095) div 4096 = 500"
  by (simp_all add: aligned_unat MEM_TASK_STACK_TOP_def MEM_TASK_STACK_SIZE_def MEM_PAGE_SIZE_def)

lemma exec_stack:
  assumes "vm_ok R dir s" "1000 \<le> free_count (paddr_alloc s)"
  obtains s' ps where "memory_alloc_for_page_dir dir stack_base MEM_TASK_STACK_SIZE (PTE_P OR PTE_U OR PTE_W) s = Done 0 s'"
    "area (R \<union> set ps) ps stack_base (mmu_walk (phys s') dir) dir s'" "length ps = 500" "set ps \<subseteq> pages_of (paddr_alloc s) - used_of (paddr_alloc s)"
    "mmu_walk (phys s') dir = map_list ps stack_base (mmu_walk (phys s) dir)" "same_pages R (phys s) (phys s')" "vm_only s s'"
    "pages_of (paddr_alloc s') = pages_of (paddr_alloc s)" "used_of (paddr_alloc s) \<subseteq> used_of (paddr_alloc s')"
proof -
  have sz: "unat MEM_TASK_STACK_SIZE \<le> 2 ^ 31" by (simp add: MEM_TASK_STACK_SIZE_def MEM_PAGE_SIZE_def)
  have free: "2 * ((unat MEM_TASK_STACK_SIZE + 4095) div 4096) \<le> free_count (paddr_alloc s)" using assms(2) stack_numbers(3) by simp
  have perm: "take_bit 12 (PTE_P OR PTE_U OR PTE_W) = PTE_P OR PTE_U OR PTE_W" by (simp add: PTE_P_def PTE_U_def PTE_W_def)
  from alloc_dir_refines [OF assms(1) sz free perm, of stack_base] obtain s' ps where
    r: "memory_alloc_for_page_dir dir stack_base MEM_TASK_STACK_SIZE (PTE_P OR PTE_U OR PTE_W) s = Done 0 s'"
      "vm_ok (R \<union> set ps) dir s'" "length ps = 500" "distinct ps" "set ps \<subseteq> pages_of (paddr_alloc s) - used_of (paddr_alloc s)"
      "mmu_walk (phys s') dir = map_list ps stack_base (mmu_walk (phys s) dir)" "same_pages R (phys s) (phys s')" "vm_only s s'"
      "pages_of (paddr_alloc s') = pages_of (paddr_alloc s)" "used_of (paddr_alloc s) \<subseteq> used_of (paddr_alloc s')"
    unfolding stack_numbers(3) by metis
  have "mmu_walk (phys s') dir (stack_base + of_nat i) = Some (frame_at ps i)" if "i < 4096 * length ps" for i
    unfolding r(6) frame_at_def by (rule map_list_at [OF stack_numbers(2) _ that]) (simp add: stack_numbers(1) r(3))
  then have "area (R \<union> set ps) ps stack_base (mmu_walk (phys s') dir) dir s'" using r(2-4) by (simp add: area_def)
  then show thesis using that r by blast
qed

text \<open>The machine in which \<open>sys_execve\<close> is called: \<open>P\<close> are the pages of the task, \<open>k\<close> its kernel stack, with the local
  variable \<open>task_args\<close> at \<open>stk\<close> and the frame of the call at its top.\<close>

definition exec_ready :: "link_t \<Rightarrow> u32 set \<Rightarrow> u32 \<Rightarrow> u32 \<Rightarrow> 'a fs_state_scheme \<Rightarrow> bool" where
  "exec_ready lk P k stk s \<longleftrightarrow> pool_ok (paddr_alloc s) \<and> mutex_idle Paddr_alloc_mutex s \<and> insert k P \<subseteq> used_of (paddr_alloc s) \<and>
     k \<notin> P \<and> kernel_ok (insert k P) (lk_kernel_page_dir lk) s \<and> parent_ok P (phys s) (cr3 s) \<and>
     t_cr3 (tk_tss (tasks s (curr_task s))) = cr3 s \<and> t_esp0 (tk_tss (tasks s (curr_task s))) = k + MEM_PAGE_SIZE \<and>
     region stk 12 \<subseteq> region k 4096 - region (k + MEM_PAGE_SIZE - frame_size) 88 \<and>
     buffer_ok lk s \<and> (\<forall>n. \<exists>j\<ge>n. drive_ready s j)"

text \<open>\<open>loaded\<close>: the address space \<open>dir\<close> has the kernel half of the directory \<open>kw\<close>, the pages \<open>qs\<close> from the address of the
  segment on, the pages \<open>ps\<close> as the stack and nothing else, and the bytes of the segment are those of the image.\<close>

definition loaded :: "(u32 \<Rightarrow> u32 option) \<Rightarrow> u8 list \<Rightarrow> Elf32_Phdr \<Rightarrow> u32 list \<Rightarrow> u32 list \<Rightarrow> u32 \<Rightarrow> mem \<Rightarrow> bool" where
  "loaded kw B ph qs ps dir m \<longleftrightarrow>
     mmu_walk m dir = map_list ps stack_base (map_list qs (p_vaddr ph) (\<lambda>va. if va < MEMORY_TASK_BASE then kw va else None)) \<and>
     (\<forall>i < unat (p_filesz ph). mmu_walk m dir (p_vaddr ph + of_nat i) = Some (frame_at qs i) \<and>
        m (frame_at qs i) = B ! (unat (p_offset ph) + i))"

lemma stack_above:
  assumes "unat va < unat stack_base" "length ps = 500"
  shows "map_list ps stack_base w va = w va"
proof (rule map_list_other)
  fix j assume j: "j < length ps"
  have "unat (stack_base + of_nat (4096 * j)) = 0xDFE0C000 + 4096 * j"
  proof -
    have "unat (b + of_nat (4096 * j)) = 0xDFE0C000 + 4096 * j" if "unat b = 0xDFE0C000" for b :: u32
      using j assms(2) that by (simp add: unat_word_ariths unat_of_nat)
    from this [OF stack_numbers(1)] show ?thesis .
  qed
  then have "unat va div 4096 \<noteq> unat (stack_base + of_nat (4096 * j)) div 4096" using assms(1) stack_numbers(1) by simp
  then show "drop_bit 12 va \<noteq> drop_bit 12 (stack_base + of_nat (4096 * j))" using page_number by metis
qed

lemma exec_space:
  assumes ready: "exec_ready lk P k stk s" and name: "readable P (cr3 s) (phys s) name (of_char CHR ''/'' # bs @ [0])" "0 \<notin> set bs"
    and img: "exec_image (disk_image s) hdr ph"
    and n: "n = (unat (p_memsz ph) + 4095) div 4096" "2 * n + 1001 \<le> free_count (paddr_alloc s)"
  shows "\<exists>dir s2 s3 s4 qs ps. memory_create_uvm lk s = Done dir s2 \<and> dir \<noteq> 0 \<and> load_elf_file lk t name dir s2 = Done (e_entry hdr) s3 \<and>
     memory_alloc_for_page_dir dir stack_base MEM_TASK_STACK_SIZE (PTE_P OR PTE_U OR PTE_W) s3 = Done 0 s4 \<and>
     exec_only t s s4 \<and> area (insert k P \<union> set qs \<union> set ps) ps stack_base (mmu_walk (phys s4) dir) dir s4 \<and> length qs = n \<and> length ps = 500 \<and>
     distinct (dir # qs @ ps) \<and> set (dir # qs @ ps) \<subseteq> pages_of (paddr_alloc s) - used_of (paddr_alloc s) \<and>
     loaded (mmu_walk (phys s) (lk_kernel_page_dir lk)) (disk_image s) ph qs ps dir (phys s4) \<and>
     same_pages (insert k P) (phys s) (phys s4) \<and> pages_of (paddr_alloc s4) = pages_of (paddr_alloc s) \<and>
     tk_heap_start (tasks s4 t) = p_vaddr ph + p_memsz ph \<and> tk_heap_end (tasks s4 t) = p_vaddr ph + p_memsz ph"
proof -
  let ?R = "insert k P" and ?kd = "lk_kernel_page_dir lk" and ?B = "disk_image s"
  have po: "pool_ok (paddr_alloc s)" "mutex_idle Paddr_alloc_mutex s" "?R \<subseteq> used_of (paddr_alloc s)" "kernel_ok ?R ?kd s"
    using ready by (simp_all add: exec_ready_def)
  obtain dir a m where 2: "memory_create_uvm lk s = Done dir (s\<lparr>paddr_alloc := a, phys := m\<rparr>)" "dir \<noteq> 0"
    "dir \<in> pages_of (paddr_alloc s) - used_of (paddr_alloc s)" "vm_ok ?R dir (s\<lparr>paddr_alloc := a, phys := m\<rparr>)"
    "mmu_walk m dir = (\<lambda>va. if va < MEMORY_TASK_BASE then mmu_walk (phys s) ?kd va else None)"
    "\<And>x. x \<notin> region dir 4096 \<Longrightarrow> m x = phys s x" "take_bit 12 dir = 0" "pages_of a = pages_of (paddr_alloc s)"
    "used_of a = insert dir (used_of (paddr_alloc s))" "free_count (paddr_alloc s) = Suc (free_count a)"
    using create_uvm_eq [OF po(1,2) _ po(3,4)] n(2) by (auto simp: fun_eq_iff)
  let ?s2 = "s\<lparr>paddr_alloc := a, phys := m\<rparr>"
  have sp2: "same_pages ?R (phys s) m"
    by (rule same_pages_in_page [OF po(1,3) 2(7) _ 2(6)]) (use 2(3) po(3) in auto)
  have "readable P (cr3 ?s2) (phys ?s2) name (of_char CHR ''/'' # bs @ [0])"
    using readable_stable [OF name(1) same_pages_mono [OF sp2]] by auto
  then have nm: "cstr (uview ?s2) name (of_char CHR ''/'' # bs)" "name \<noteq> 0"
    using readable_cstr [of P ?s2 name "of_char CHR ''/'' # bs"] name(2) readable_nonnull [OF name(1)] by simp_all
  have env: "\<forall>n. \<exists>j\<ge>n. drive_ready ?s2 j" "buffer_ok lk ?s2" "disk_image ?s2 = ?B" "2 * n \<le> free_count (paddr_alloc ?s2)"
    using ready n(2) 2(8,10) by (simp_all add: exec_ready_def drive_ready_def buffer_ok_def disk_image_def)
  obtain s3 qs where 3: "load_elf_file lk t name dir ?s2 = Done (e_entry hdr) s3" "exec_only t ?s2 s3" "vm_ok (?R \<union> set qs) dir s3"
     "length qs = n" "distinct qs" "set qs \<subseteq> pages_of a - used_of a" "mmu_walk (phys s3) dir = map_list qs (p_vaddr ph) (mmu_walk m dir)"
     "\<And>i. i < unat (p_filesz ph) \<Longrightarrow> mmu_walk (phys s3) dir (p_vaddr ph + of_nat i) = Some (frame_at qs i) \<and>
        phys s3 (frame_at qs i) = ?B ! (unat (p_offset ph) + i)"
     "same_pages ?R m (phys s3)" "pages_of (paddr_alloc s3) = pages_of a" "free_count a \<le> free_count (paddr_alloc s3) + 2 * n"
     "used_of a \<subseteq> used_of (paddr_alloc s3)" "tk_heap_start (tasks s3 t) = p_vaddr ph + p_memsz ph" "tk_heap_end (tasks s3 t) = p_vaddr ph + p_memsz ph"
    using load_elf_done [OF nm env(1) 2(4) env(2) _ n(1) env(4), of hdr t] img env(3) by auto
  have "1000 \<le> free_count (paddr_alloc s3)" using 3(11) 2(10) n(2) by simp
  from exec_stack [OF 3(3) this] obtain s4 ps where
    4: "memory_alloc_for_page_dir dir stack_base MEM_TASK_STACK_SIZE (PTE_P OR PTE_U OR PTE_W) s3 = Done 0 s4"
      "area (?R \<union> set qs \<union> set ps) ps stack_base (mmu_walk (phys s4) dir) dir s4" "length ps = 500" "set ps \<subseteq> pages_of (paddr_alloc s3) - used_of (paddr_alloc s3)"
      "mmu_walk (phys s4) dir = map_list ps stack_base (mmu_walk (phys s3) dir)" "same_pages (?R \<union> set qs) (phys s3) (phys s4)" "vm_only s3 s4"
      "pages_of (paddr_alloc s4) = pages_of (paddr_alloc s3)" by metis
  have "exec_only t s ?s2" by (simp add: exec_only_def)
  then have only: "exec_only t s s4" by (rule exec_only_trans [OF _ exec_only_trans [OF 3(2) exec_only_vm [OF 4(7)]]])
  have "set qs \<subseteq> used_of (paddr_alloc s3)" using 3(3) by (simp add: vm_ok_def)
  then have dist: "distinct (dir # qs @ ps)" "set (dir # qs @ ps) \<subseteq> pages_of (paddr_alloc s) - used_of (paddr_alloc s)"
    using 2(3,8,9) 3(5,6,10,12) 4(2,4) by (auto simp: area_def)
  have qa: "take_bit 12 q = 0" if "q \<in> set qs" for q
    using that 3(3) used_page [of "paddr_alloc s3" q] by (auto simp: vm_ok_def)
  have "loaded (mmu_walk (phys s) ?kd) ?B ph qs ps dir (phys s4)"
    unfolding loaded_def
  proof (intro conjI allI impI)
    show "mmu_walk (phys s4) dir = map_list ps stack_base (map_list qs (p_vaddr ph)
        (\<lambda>va. if va < MEMORY_TASK_BASE then mmu_walk (phys s) ?kd va else None))" unfolding 4(5) 3(7) 2(5) ..
    fix i assume i: "i < unat (p_filesz ph)"
    have il: "i < 4096 * length qs" using image_index [OF img i n(1)] 3(4) by simp
    have "unat (p_vaddr ph) + 4096 * n \<le> 0xDFE0C000" using imageD(13) [OF img] n(1) by simp
    then have "unat (p_vaddr ph + of_nat i) < unat stack_base"
      using il 3(4) unfolding stack_numbers(1) by (simp add: unat_word_ariths unat_of_nat)
    then show "mmu_walk (phys s4) dir (p_vaddr ph + of_nat i) = Some (frame_at qs i)"
      unfolding 4(5) using stack_above [OF _ 4(3)] 3(8) [OF i] by simp
    have "frame_at qs i AND NOT (mask 12) \<in> set qs" using frame_at_page(1,2) [OF qa il] by simp
    then have "phys s4 (frame_at qs i) = phys s3 (frame_at qs i)" using 4(6) in_page [of "frame_at qs i"] by (auto simp: same_pages_def)
    then show "phys s4 (frame_at qs i) = ?B ! (unat (p_offset ph) + i)" using 3(8) [OF i] by simp
  qed
  moreover have "same_pages ?R (phys s) (phys s4)"
    by (rule same_pages_trans [OF sp2 same_pages_trans [OF 3(9) same_pages_mono [OF 4(6)]]]) blast
  moreover have "tasks s4 = tasks s3" using 4(7) by (rule vm_only_sel)
  ultimately show ?thesis using 2(1,2,8) 3(1,4,10,13,14) 4(1,2,3,8) only dist
    by (intro exI [of _ dir] exI [of _ ?s2] exI [of _ s3] exI [of _ s4] exI [of _ qs] exI [of _ ps]) simp
qed

subsection \<open>The frame of the call\<close>

lemma slot_put:
  assumes "unat i < 1024" "unat j < 1024"
  shows "mem32 (put32 m (slot fr i) v) (slot fr j) = (if i = j then v else mem32 m (slot fr j))"
  using mem32_put32_other [OF slot_disjoint [OF assms]] by auto

lemma frame_fields:
  "frame_off ''eip'' = 4 * 13" "frame_off ''edx'' = 4 * 10" "frame_off ''ecx'' = 4 * 11" "frame_off ''ebx'' = 4 * 9"
  "frame_off ''eax'' = 4 * 12" "frame_off ''ebp'' = 4 * 7" "frame_off ''edi'' = 4 * 5" "frame_off ''esi'' = 4 * 6"
  "frame_off ''eflags'' = 4 * 0" "frame_off ''esp'' = 4 * 20" "frame_off ''cs'' = 4 * 14" "frame_off ''ss'' = 4 * 21"
  by (simp_all add: frame_off_def)

lemma exec_frame_eq:
  "exec_frame fr e tp m = put32 (put32 (put32 (put32 (put32 (put32 (put32 (put32 (put32 (put32 m (slot fr 13) e) (slot fr 10) 0)
     (slot fr 11) 0) (slot fr 9) 0) (slot fr 12) 0) (slot fr 7) 0) (slot fr 5) 0) (slot fr 6) 0)
     (slot fr 0) (EFLAGES_DEFAULT OR EFLAGS_IF)) (slot fr 20) (tp - 4 * SYSCALL_PARAM_COUNT)"
  by (simp add: exec_frame_def frame_fields [THEN frame_slot(2)])

lemma exec_frame_get:
  "frame_get (exec_frame fr e tp m) fr ''eip'' = e" "frame_get (exec_frame fr e tp m) fr ''esp'' = tp - 4 * SYSCALL_PARAM_COUNT"
  "frame_get (exec_frame fr e tp m) fr ''eax'' = 0" "frame_get (exec_frame fr e tp m) fr ''eflags'' = EFLAGES_DEFAULT OR EFLAGS_IF"
  "frame_get (exec_frame fr e tp m) fr ''cs'' = frame_get m fr ''cs''" "frame_get (exec_frame fr e tp m) fr ''ss'' = frame_get m fr ''ss''"
  by (simp_all add: exec_frame_eq frame_fields [THEN frame_slot(1)] slot_put)

lemma slot_in_frame: "unat i < 22 \<Longrightarrow> region (slot fr i) 4 \<subseteq> region fr 88"
  using region_append [of fr "4 * unat i" 4] region_mono [of "4 * unat i + 4" 88 fr] by (simp add: slot_def)

lemma exec_frame_out:
  assumes "x \<notin> region fr 88" shows "exec_frame fr e tp m x = m x"
proof -
  have "put32 m' (slot fr i) v x = m' x" if "unat i < 22" for m' i v
    using slot_in_frame [OF that, of fr] assms by (intro put32_other) blast
  then show ?thesis by (simp add: exec_frame_eq)
qed

lemma frame_same:
  assumes "\<And>x. x \<in> region fr 88 \<Longrightarrow> m' x = m x" "frame_off f = 4 * i" "unat i < 22"
  shows "frame_get m' fr f = frame_get m fr f"
  unfolding frame_slot(1) [OF assms(2)] using slot_in_frame [OF assms(3), of fr] assms(1) by (intro mem32_cong) blast

lemma task_pages_same:
  assumes "parent_ok P m pd" "same_pages P m m'"
  shows "task_pages m' pd = task_pages m pd"
proof -
  note st = parent_stable(1,3) [OF assms]
  have "(q = table_of m' pd va \<and> MEMORY_TASK_BASE \<le> va \<and> bit (pde_of m' pd va) 0) =
      (q = table_of m pd va \<and> MEMORY_TASK_BASE \<le> va \<and> bit (pde_of m pd va) 0)"
    "(MEMORY_TASK_BASE \<le> va \<and> mmu_walk m' pd va = Some pa) = (MEMORY_TASK_BASE \<le> va \<and> mmu_walk m pd va = Some pa)" for q va pa
    using st by auto
  then show ?thesis unfolding task_pages_def by simp
qed

subsection \<open>The whole call\<close>

abbreviation exec_top :: u32 where
  "exec_top \<equiv> MEM_TASK_STACK_TOP - MEM_TASK_ARG_SIZE"

abbreviation frame_of :: "u32 \<Rightarrow> u32" where
  "frame_of k \<equiv> k + MEM_PAGE_SIZE - frame_size"

lemma frame_inside: "region (frame_of k) 88 \<subseteq> region k 4096"
  using region_append [of k 4008 88] by (simp add: MEM_PAGE_SIZE_def frame_size_def add.commute)

text \<open>The arguments on the new stack: only the stack and the local variable of \<open>copy_args\<close> change.\<close>

lemma exec_arguments:
  assumes ready: "exec_ready lk P k stk s" and s4: "exec_only (curr_task s) s s4" "area R ps stack_base w dir s4" "length ps = 500"
    and R: "R = insert k P \<union> set qs \<union> set ps" "set ps \<inter> insert k P = {}" "same_pages (insert k P) (phys s) (phys s4)"
    and args: "args_at P (cr3 s) (phys s) argv ss" "length ss \<le> 1020" "length (arg_text ss) \<le> 61440"
  obtains m where "strings_count (uview s4) argv = Some (int (length ss))"
    "copy_args stk exec_top dir (int (length ss)) argv s4 = Done 0 (s4\<lparr>phys := m\<rparr>)" "vm_ok R dir (s4\<lparr>phys := m\<rparr>)"
    "mmu_walk m dir = w" "same_pages (R - set ps - {k}) (phys s4) m" "\<forall>x \<in> region (frame_of k) 88. m x = phys s x"
    "args_block ps m (484 * 4096) exec_top ss"
proof -
  have k: "k \<notin> P" "region stk 12 \<subseteq> region k 4096 - region (frame_of k) 88" using ready by (simp_all add: exec_ready_def)
  have sets: "P \<subseteq> R - set ps" "k \<in> R - set ps" using R(1,2) by auto
  have cr3: "cr3 s4 = cr3 s" using s4(1) by (simp add: exec_only_def)
  have args4: "args_at P (cr3 s4) (phys s4) argv ss" using args_at_stable [OF args(1) same_pages_mono [OF R(3)]] cr3 by auto
  have b: "484 * 4096 mod 4096 = (0 :: nat)" "12 + 4 * Suc (length ss) \<le> 4096"
    "484 * 4096 + 12 + 4 * Suc (length ss) + length (arg_text ss) \<le> 4096 * length ps" using args(2,3) s4(3) by simp_all
  have top: "stack_base + of_nat (484 * 4096) = exec_top"
    by (simp add: MEM_TASK_STACK_TOP_def MEM_TASK_STACK_SIZE_def MEM_TASK_ARG_SIZE_def MEM_PAGE_SIZE_def)
  have stk: "region stk 12 \<subseteq> region k 4096" using k(2) by blast
  obtain m where m: "copy_args stk exec_top dir (int (length ss)) argv s4 = Done 0 (s4\<lparr>phys := m\<rparr>)" "area R ps stack_base w dir (s4\<lparr>phys := m\<rparr>)"
    "same_pages (R - set ps - {k}) (phys s4) m" "\<And>x. x \<in> region k 4096 \<Longrightarrow> x \<notin> region stk 12 \<Longrightarrow> m x = phys s4 x"
    "args_block ps m (484 * 4096) exec_top ss"
    using copy_args_done [OF s4(2) args4 sets(1,2) k(1) stk b] unfolding top by blast
  have "\<forall>x \<in> region (frame_of k) 88. m x = phys s x"
  proof
    fix x assume x: "x \<in> region (frame_of k) 88"
    have "x \<in> region k 4096" "x \<notin> region stk 12" using x frame_inside [of k] k(2) by auto
    then show "m x = phys s x" using m(4) R(3) unfolding same_pages_def by simp
  qed
  moreover have "vm_ok R dir (s4\<lparr>phys := m\<rparr>)" "mmu_walk m dir = w" using m(2) by (simp_all add: area_def)
  ultimately show thesis using that [OF strings_count_args [OF args4] m(1) _ _ m(3) _ m(5)] by blast
qed

text \<open>The end of \<open>sys_execve\<close>: the frame of the call, on the kernel stack \<open>k\<close>, the new directory and the release of the
  old address space.\<close>

definition exec_switch :: "tid \<Rightarrow> u32 \<Rightarrow> u32 \<Rightarrow> u32 \<Rightarrow> 'a fs_state_scheme \<Rightarrow> 'a fs_state_scheme" where
  "exec_switch t dir k e s = mmu_set_page_dir dir (upd_task t (\<lambda>x. x\<lparr>tk_tss := (tk_tss x)\<lparr>t_cr3 := dir\<rparr>\<rparr>)
     (s\<lparr>phys := exec_frame (frame_of k) e exec_top (phys s)\<rparr>))"

lemma exec_switch_sel [simp]:
  "phys (exec_switch t dir k e s) = exec_frame (frame_of k) e exec_top (phys s)" "cr3 (exec_switch t dir k e s) = dir"
  "paddr_alloc (exec_switch t dir k e s) = paddr_alloc s" "mutexes (exec_switch t dir k e s) = mutexes s"
  "curr_task (exec_switch t dir k e s) = curr_task s" "nodes (exec_switch t dir k e s) = nodes s"
  "ready_list (exec_switch t dir k e s) = ready_list s" "file_tb (exec_switch t dir k e s) = file_tb s" "sleep_list (exec_switch t dir k e s) = sleep_list s"
  "u \<noteq> t \<Longrightarrow> tasks (exec_switch t dir k e s) u = tasks s u" "t_cr3 (tk_tss (tasks (exec_switch t dir k e s) t)) = dir"
  "tk_heap_start (tasks (exec_switch t dir k e s) t) = tk_heap_start (tasks s t)"
  "tk_heap_end (tasks (exec_switch t dir k e s) t) = tk_heap_end (tasks s t)"
  by (simp_all add: exec_switch_def mmu_set_page_dir_def upd_task_def)

lemma exec_end:
  assumes vm: "vm_ok R dir s" and k: "k \<in> R" "k \<notin> P" "P \<subseteq> R" and par: "parent_ok P (phys s) old"
  obtains a where "memory_destory_uvm old (exec_switch t dir k e s) = Done () (exec_switch t dir k e s\<lparr>paddr_alloc := a\<rparr>)"
    "used_of a = used_of (paddr_alloc s) - task_pages (phys s) old" "task_pages (phys s) old \<subseteq> P"
    "mmu_walk (exec_frame (frame_of k) e exec_top (phys s)) dir = mmu_walk (phys s) dir"
    "same_pages (R - {k}) (phys s) (exec_frame (frame_of k) e exec_top (phys s))"
proof -
  let ?m = "exec_frame (frame_of k) e exec_top (phys s)" and ?s7 = "exec_switch t dir k e s"
  have ok: "pool_ok (paddr_alloc s)" "R \<subseteq> used_of (paddr_alloc s)" "mutex_idle Paddr_alloc_mutex s" using vm by (auto simp: vm_ok_def)
  have outk: "?m x = phys s x" if "x \<notin> region k 4096" for x
    by (rule exec_frame_out) (use that frame_inside [of k] in blast)
  have rest: "same_pages (R - {k}) (phys s) ?m" by (rule rest_same_pages [OF vm]) (use k outk in auto)
  then have sp: "same_pages P (phys s) ?m" by (rule same_pages_mono) (use k in auto)
  have "mutex_idle Paddr_alloc_mutex ?s7" "P \<subseteq> pages_of (paddr_alloc ?s7)" "parent_ok P (phys ?s7) old" "pool_ok (paddr_alloc ?s7)"
    using ok k(3) pool.used_pages [OF ok(1)] parent_ok_frame(1) [OF par sp] by (auto simp: mutex_idle_def)
  from destroy_uvm_done [OF this(4,1-3)] task_pages_same [OF par sp] obtain a where
    "memory_destory_uvm old ?s7 = Done () (?s7\<lparr>paddr_alloc := a\<rparr>)" "used_of a = used_of (paddr_alloc s) - task_pages (phys s) old" by auto
  moreover have "mmu_walk ?m dir = mmu_walk (phys s) dir" by (rule write_reserved(2) [OF vm k(1)]) (rule outk)
  ultimately show thesis using that parent_pages_in [OF par] rest by blast
qed

lemma loaded_same:
  assumes "loaded kw B ph qs ps dir m" "mmu_walk m' dir = mmu_walk m dir" "same_pages K m m'" "set qs \<subseteq> K"
    and "exec_image B hdr ph" "length qs = (unat (p_memsz ph) + 4095) div 4096" "\<And>q. q \<in> set qs \<Longrightarrow> take_bit 12 q = 0"
  shows "loaded kw B ph qs ps dir m'"
proof -
  have "m' (frame_at qs i) = m (frame_at qs i)" if i: "i < unat (p_filesz ph)" for i
  proof -
    have il: "i < 4096 * length qs" by (rule image_index [OF assms(5) i assms(6)])
    have "frame_at qs i AND NOT (mask 12) \<in> set qs" using frame_at_page(1,2) [OF assms(7) il] by simp
    then show ?thesis using assms(3,4) in_page [of "frame_at qs i"] by (auto simp: same_pages_def)
  qed
  then show ?thesis using assms(1) unfolding loaded_def assms(2) by (metis (no_types, lifting))
qed

lemma holds_same:
  assumes "holds ps m i bs" "i + length bs \<le> 4096 * length ps" "same_pages K m m'" "set ps \<subseteq> K" "\<And>p. p \<in> set ps \<Longrightarrow> take_bit 12 p = 0"
  shows "holds ps m' i bs"
proof (rule holds_frame [OF assms(1,2)])
  fix j assume "j < 4096 * length ps"
  from frame_at_page(1,2) [OF assms(5) this] have "frame_at ps j AND NOT (mask 12) \<in> set ps" by simp
  then show "m' (frame_at ps j) = m (frame_at ps j)" using assms(3,4) in_page [of "frame_at ps j"] by (auto simp: same_pages_def)
qed

lemma args_block_same:
  assumes "args_block ps m b base ss" "b + 12 + 4 * Suc (length ss) + length (arg_text ss) \<le> 4096 * length ps"
    and "same_pages K m m'" "set ps \<subseteq> K" "\<And>p. p \<in> set ps \<Longrightarrow> take_bit 12 p = 0"
  shows "args_block ps m' b base ss"
  using assms(1,2) unfolding args_block_def by (auto intro!: holds_same [OF _ _ assms(3-5)])

text \<open>C6: a successful \<open>execve\<close>.  A task whose pages are \<open>P\<close> calls \<open>sys_execve\<close> with the name of a program and arguments
  in its memory; the image on the disk is a well-formed ELF file with one loadable segment below the
  stack, and there is enough memory.  Then the call returns 0, and when the task goes on:
  it runs in a new directory that maps the kernel, the segment, with the bytes of the image, a stack of 500
  pages and nothing else, in frames nobody used; the top of the stack holds the number of arguments,
  the table and copies of the strings; the frame of the call has the entry point, the
  stack pointer and cleared registers and the old segment registers; the heap starts behind
  the segment; every page of the old program is free again; and no other task, queue, mutex or file has changed.\<close>

theorem execve_runs_image:
  assumes "exec_ready lk P k stk s"
    and "readable P (cr3 s) (phys s) name (of_char CHR ''/'' # bs @ [0])" "0 \<notin> set bs"
    and "Option.bind (get_file_name (uview s) name) (load_cstr (uview s)) = Some nm"
    and "args_at P (cr3 s) (phys s) argv ss" "length ss \<le> 1020" "length (arg_text ss) \<le> 61440"
    and "exec_image (disk_image s) hdr ph" "2 * ((unat (p_memsz ph) + 4095) div 4096) + 1001 \<le> free_count (paddr_alloc s)"
  shows "\<exists>s' dir qs ps. sys_execve lk stk name argv env s = Done 0 s' \<and> cr3 s' = dir \<and> t_cr3 (tk_tss (tasks s' (curr_task s))) = dir \<and>
     distinct (dir # qs @ ps) \<and> set (dir # qs @ ps) \<subseteq> pages_of (paddr_alloc s) - used_of (paddr_alloc s) \<and>
     set (dir # qs @ ps) \<subseteq> used_of (paddr_alloc s') \<and> used_of (paddr_alloc s') \<inter> task_pages (phys s) (cr3 s) = {} \<and>
     loaded (mmu_walk (phys s) (lk_kernel_page_dir lk)) (disk_image s) ph qs ps dir (phys s') \<and>
     length ps = 500 \<and> args_block ps (phys s') (484 * 4096) (MEM_TASK_STACK_TOP - MEM_TASK_ARG_SIZE) ss \<and>
     (let fr = k + MEM_PAGE_SIZE - frame_size
      in frame_get (phys s') fr ''eip'' = e_entry hdr \<and> frame_get (phys s') fr ''eax'' = 0 \<and>
         frame_get (phys s') fr ''esp'' = MEM_TASK_STACK_TOP - MEM_TASK_ARG_SIZE - 4 * SYSCALL_PARAM_COUNT \<and>
         frame_get (phys s') fr ''cs'' = frame_get (phys s) fr ''cs'' \<and> frame_get (phys s') fr ''ss'' = frame_get (phys s) fr ''ss'') \<and>
     tk_heap_start (tasks s' (curr_task s)) = p_vaddr ph + p_memsz ph \<and> tk_heap_end (tasks s' (curr_task s)) = p_vaddr ph + p_memsz ph \<and>
     (\<forall>t. t \<noteq> curr_task s \<longrightarrow> tasks s' t = tasks s t) \<and> curr_task s' = curr_task s \<and> nodes s' = nodes s \<and>
     ready_list s' = ready_list s \<and> sleep_list s' = sleep_list s \<and> mutexes s' = mutexes s \<and> file_tb s' = file_tb s"
proof -
  let ?t = "curr_task s" and ?s1 = "upd_task (curr_task s) (copy_name (chars_of nm)) s" and ?old = "cr3 s" and ?K = "insert k P"
  have ready: "exec_ready lk P k stk ?s1" and s1: "phys ?s1 = phys s" "paddr_alloc ?s1 = paddr_alloc s" "cr3 ?s1 = cr3 s" "curr_task ?s1 = ?t" "disk_image ?s1 = disk_image s"
    using assms(1) by (simp_all add: exec_ready_def upd_task_def copy_name_def kernel_ok_def mutex_idle_def buffer_ok_def drive_ready_def disk_image_def)
  obtain dir s2 s3 s4 qs ps where 4: "memory_create_uvm lk ?s1 = Done dir s2" "dir \<noteq> 0"
    "load_elf_file lk ?t name dir s2 = Done (e_entry hdr) s3"
    "memory_alloc_for_page_dir dir stack_base MEM_TASK_STACK_SIZE (PTE_P OR PTE_U OR PTE_W) s3 = Done 0 s4"
    "exec_only ?t ?s1 s4" "area (?K \<union> set qs \<union> set ps) ps stack_base (mmu_walk (phys s4) dir) dir s4" "length ps = 500"
    "distinct (dir # qs @ ps)" "set (dir # qs @ ps) \<subseteq> pages_of (paddr_alloc s) - used_of (paddr_alloc s)"
    "loaded (mmu_walk (phys s) (lk_kernel_page_dir lk)) (disk_image s) ph qs ps dir (phys s4)" "same_pages ?K (phys s) (phys s4)"
    "tk_heap_start (tasks s4 ?t) = p_vaddr ph + p_memsz ph" "tk_heap_end (tasks s4 ?t) = p_vaddr ph + p_memsz ph"
    "length qs = (unat (p_memsz ph) + 4095) div 4096"
    using exec_space [OF ready _ assms(3) _ refl, of name hdr ph ?t] assms(2,8,9) unfolding s1 by metis
  let ?R = "?K \<union> set qs \<union> set ps"
  have r: "?K \<subseteq> used_of (paddr_alloc s)" "k \<notin> P" "parent_ok P (phys s) ?old" using assms(1) by (simp_all add: exec_ready_def)
  have R: "k \<in> ?R" "P \<subseteq> ?R" "set ps \<inter> ?K = {}" "set qs \<subseteq> ?R - set ps - {k}" "set ps \<subseteq> ?R - {k}" "P \<subseteq> ?R - set ps - {k}" using r(1,2) 4(8,9) by auto
  have args1: "exec_only (curr_task ?s1) ?s1 s4" "same_pages ?K (phys ?s1) (phys s4)" "args_at P (cr3 ?s1) (phys ?s1) argv ss"
    unfolding s1 by (fact 4(5,11) assms(5))+
  obtain m where m: "strings_count (uview s4) argv = Some (int (length ss))"
    "copy_args stk exec_top dir (int (length ss)) argv s4 = Done 0 (s4\<lparr>phys := m\<rparr>)" "vm_ok ?R dir (s4\<lparr>phys := m\<rparr>)"
    "mmu_walk m dir = mmu_walk (phys s4) dir" "same_pages (?R - set ps - {k}) (phys s4) m" "\<forall>x \<in> region (frame_of k) 88. m x = phys s x"
    "args_block ps m (484 * 4096) exec_top ss"
    using exec_arguments [OF ready args1(1) 4(6,7) refl R(3) args1(2,3) assms(6,7), unfolded s1] by metis
  have sp: "same_pages P (phys s) m"
    by (rule same_pages_trans [OF same_pages_mono [OF 4(11)] same_pages_mono [OF m(5) R(6)]]) blast
  then have par: "parent_ok P (phys (s4\<lparr>phys := m\<rparr>)) ?old" "task_pages m ?old = task_pages (phys s) ?old"
    using parent_ok_frame(1) [OF r(3) sp] task_pages_same [OF r(3) sp] by simp_all
  have s5: "phys (s4\<lparr>phys := m\<rparr>) = m" "paddr_alloc (s4\<lparr>phys := m\<rparr>) = paddr_alloc s4" by simp_all
  obtain a where 7: "memory_destory_uvm ?old (exec_switch ?t dir k (e_entry hdr) (s4\<lparr>phys := m\<rparr>)) =
      Done () (exec_switch ?t dir k (e_entry hdr) (s4\<lparr>phys := m\<rparr>)\<lparr>paddr_alloc := a\<rparr>)"
    "used_of a = used_of (paddr_alloc s4) - task_pages (phys s) ?old" "task_pages (phys s) ?old \<subseteq> P"
    "mmu_walk (exec_frame (frame_of k) (e_entry hdr) exec_top m) dir = mmu_walk (phys s4) dir"
    "same_pages (?R - {k}) m (exec_frame (frame_of k) (e_entry hdr) exec_top m)"
    by (rule exec_end [OF m(3) R(1) r(2) R(2) par(1), of ?t "e_entry hdr", unfolded s5 par(2) m(4)])
  let ?s' = "exec_switch ?t dir k (e_entry hdr) (s4\<lparr>phys := m\<rparr>)\<lparr>paddr_alloc := a\<rparr>" and ?m = "exec_frame (frame_of k) (e_entry hdr) exec_top m"
  have old: "t_cr3 (tk_tss (tasks s ?t)) = ?old" "t_esp0 (tk_tss (tasks s4 ?t)) = k + MEM_PAGE_SIZE" "\<And>w x. tk_tss (copy_name w x) = tk_tss x"
    using assms(1) 4(5) by (simp_all add: exec_ready_def exec_only_def upd_task_def copy_name_def)
  have run: "sys_execve lk stk name argv env s = Done 0 ?s'"
    using 7(1) imageD(4) [OF assms(8)] 4(2)
    by (simp add: sys_execve_def Let_def task_current_def assms(4) old 4(1,3,4) m(1,2) exec_switch_def)
  have in4: "?R \<subseteq> used_of (paddr_alloc s4)" "dir \<in> used_of (paddr_alloc s4)" "pool_ok (paddr_alloc s4)"
    using m(3) by (auto simp: vm_ok_def space_ok_def)
  have new: "set (dir # qs @ ps) \<subseteq> used_of a" "used_of a \<inter> task_pages (phys s) ?old = {}" using in4(1,2) 4(9) r(1) 7(2,3) by auto
  have al: "take_bit 12 q = 0" if "q \<in> set qs \<union> set ps" for q using used_page [OF in4(3), of q] that in4(1) by auto
  have "same_pages (?R - set ps - {k}) (phys s4) ?m" by (rule same_pages_trans [OF m(5) same_pages_mono [OF 7(5)]]) blast
  then have ld: "loaded (mmu_walk (phys s) (lk_kernel_page_dir lk)) (disk_image s) ph qs ps dir ?m"
    by (rule loaded_same [OF 4(10) 7(4) _ R(4) assms(8) 4(14)]) (use al in blast)
  have ab: "args_block ps ?m (484 * 4096) exec_top ss"
    by (rule args_block_same [OF m(7) _ 7(5) R(5)]) (use al assms(6,7) 4(7) in auto)
  have seg: "frame_get ?m (frame_of k) ''cs'' = frame_get (phys s) (frame_of k) ''cs''"
    "frame_get ?m (frame_of k) ''ss'' = frame_get (phys s) (frame_of k) ''ss''"
    using frame_same [OF _ frame_fields(11), of "frame_of k" m "phys s"] frame_same [OF _ frame_fields(12), of "frame_of k" m "phys s"] m(6)
    by (simp_all add: exec_frame_get)
  have others: "\<forall>t. t \<noteq> ?t \<longrightarrow> tasks ?s' t = tasks s t" and kept: "curr_task s4 = ?t" "nodes s4 = nodes s" "ready_list s4 = ready_list s" "file_tb s4 = file_tb s"
    "sleep_list s4 = sleep_list s" "mutexes s4 = mutexes s"
    using 4(5) by (simp_all add: exec_only_def upd_task_def)
  show ?thesis
    unfolding Let_def using run ld ab seg others kept new 4(7,8,9,12,13) exec_frame_get(1-3) [of "frame_of k" "e_entry hdr" exec_top m]
    by (intro exI [of _ ?s'] exI [of _ dir] exI [of _ qs] exI [of _ ps]) simp
qed

end
