(* ===== verification/Execve_Sample.thy ===== *)
theory Execve_Sample
  imports Execve_Laws
begin

text \<open>
  A machine on which \<open>sys_execve\<close> runs: a pool of 1024 pages, a caller with one page at 0x80000000 that holds the name
  of the program and one argument, and a disk with an ELF file of 88 bytes at the sector 5000.
\<close>

subsection \<open>The image\<close>

definition exec_file :: "u8 list" where
  "exec_file = [0x7F, 0x45, 0x4C, 0x46, 1, 1, 1, 0, 0, 0, 0, 0, 0, 0, 0, 0, 2, 0, 3, 0, 1, 0, 0, 0] @
     word_bytes 0x80000000 @ word_bytes 52 @ word_bytes 0 @ word_bytes 0 @ [52, 0, 32, 0, 1, 0, 40, 0, 0, 0, 0, 0] @
     word_bytes 1 @ word_bytes 84 @ word_bytes 0x80000000 @ word_bytes 0 @ word_bytes 4 @ word_bytes 8 @ word_bytes 7 @ word_bytes 4096 @
     [0x90, 0xEB, 0xFD, 0]"

definition exec_disk :: disk_port where
  "exec_disk = \<lparr>dk_words = (\<lambda>_ i. if i < 44 then half_at exec_file (2 * i) else 0), dk_reads = (\<lambda>_. 0)\<rparr>"

definition exec_phdr :: Elf32_Phdr where
  "exec_phdr = \<lparr>p_type = 1, p_offset = 84, p_vaddr = 0x80000000, p_paddr = 0, p_filesz = 4, p_memsz = 8, p_flags = 7, p_align = 4096\<rparr>"

lemma exec_file_bytes: "disk_bytes 44 exec_disk = exec_file"
  by code_simp

lemma exec_file_read: "disk_bytes 25600 exec_disk = exec_file @ disk_bytes 25556 (disk_skip 44 exec_disk)"
  using disk_bytes_append [of 44 25556 exec_disk] unfolding exec_file_bytes by simp

lemma exec_file_image: "exec_image (disk_bytes 25600 exec_disk) (ehdr_of (take 52 exec_file)) exec_phdr" (is "exec_image ?B _ _")
proof -
  have len: "length ?B = 51200" "length exec_file = 88" by (simp, code_simp)
  have h: "take EHDR_SIZE ?B = take 52 exec_file" "take 32 (drop 52 ?B) = take 32 (drop 52 exec_file)"
    unfolding exec_file_read EHDR_SIZE_def by (simp_all add: len(2))
  have "elf_magic_ok (ehdr_of (take 52 exec_file))" "e_phnum (ehdr_of (take 52 exec_file)) = 1"
    "e_entry (ehdr_of (take 52 exec_file)) = 0x80000000" "e_phoff (ehdr_of (take 52 exec_file)) = 52"
    "phdr_of (take 32 (drop 52 exec_file)) = exec_phdr" by code_simp+
  then show ?thesis
    unfolding exec_image_def h len(1)
    by (simp add: h exec_phdr_def PHDR_SIZE_def PT_LOAD_def MEMORY_TASK_BASE_def MEM_TASK_STACK_TOP_def MEM_TASK_STACK_SIZE_def MEM_PAGE_SIZE_def)
qed

subsection \<open>The memory\<close>

definition exec_page :: "u8 list" where
  "exec_page = [0x2f, 0x61, 0] @ replicate 13 0 @ word_bytes 0x80000018 @ word_bytes 0 @ [0x78, 0]"

definition exec_mem :: mem where
  "exec_mem = put_bytes fork_mem 0x102000 exec_page"

lemma exec_page_length: "length exec_page = 26"
  by (simp add: exec_page_def word_bytes_def)

lemma exec_mem_slots:
  assumes "unat i < 1024" "take_bit 12 q = 0" "q \<noteq> 0x102000"
  shows "mem32 exec_mem (slot q i) = mem32 fork_mem (slot q i)"
proof (rule slot_other_page [OF _ assms(2) assms(3) [symmetric] assms(1)])
  fix x assume "x \<notin> region 0x102000 4096"
  then have "x \<notin> region 0x102000 (length exec_page)" using region_mono [of "length exec_page" 4096] by (auto simp: exec_page_length)
  then show "exec_mem x = fork_mem x" unfolding exec_mem_def by (rule put_bytes_other)
qed simp

lemma exec_walk: "mmu_walk exec_mem 0x100000 va = (if idx va = (512, 0) then Some (0x102000 + (va AND 0xfff)) else None)"
proof -
  have d: "pde_of exec_mem 0x100000 va = pde_of fork_mem 0x100000 va" by (rule exec_mem_slots [OF pde_index_bound]) simp_all
  have "table_of fork_mem 0x100000 va = 0x101000" if "bit (pde_of fork_mem 0x100000 va) 0"
    using that by (auto simp: fork_slots [OF pde_index_bound] pde_paddr_def split: if_splits)
  then have "mmu_walk exec_mem 0x100000 va = mmu_walk fork_mem 0x100000 va"
    using exec_mem_slots [OF pte_index_bound, of "0x101000" va] by (auto simp: mmu_walk_eq d)
  then show ?thesis by (simp add: fork_walk)
qed

lemma exec_parent_ok: "parent_ok parent_pages exec_mem 0x100000"
proof -
  have "pde_of exec_mem 0x100000 va = pde_of fork_mem 0x100000 va" for va by (rule exec_mem_slots [OF pde_index_bound]) simp_all
  moreover have "mmu_walk exec_mem 0x100000 = mmu_walk fork_mem 0x100000" by (simp add: fun_eq_iff exec_walk fork_walk)
  ultimately show ?thesis using fork_parent_ok by (simp add: parent_ok_def)
qed

lemma exec_page_at:
  assumes "i < 26"
  shows "kview exec_mem 0x100000 (0x80000000 + of_nat i) = Some (0x102000 + of_nat i)" "exec_mem (0x102000 + of_nat i) = exec_page ! i"
    "(0x102000 + of_nat i :: u32) AND NOT (mask 12) = 0x102000" "MEMORY_TASK_BASE \<le> 0x80000000 + of_nat i"
proof -
  have o: "((0x80000000 :: u32) + of_nat i) AND 0xfff = of_nat i" "idx (0x80000000 + of_nat i) = idx 0x80000000"
    using offset_add(1) [of "0x80000000" i] idx_offset [of "0x80000000" i] assms by simp_all
  have v: "unat (0x80000000 + of_nat i :: u32) = 0x80000000 + i" using assms by (simp add: unat_word_ariths unat_of_nat)
  then show b: "MEMORY_TASK_BASE \<le> 0x80000000 + of_nat i" by (simp add: MEMORY_TASK_BASE_def word_le_nat_alt)
  have "idx 0x80000000 = (512, 0)" by (simp add: idx_def pde_index_def pte_index_def)
  then show "kview exec_mem 0x100000 (0x80000000 + of_nat i) = Some (0x102000 + of_nat i)" using b o by (simp add: kview_def exec_walk)
  have "at_bytes exec_mem 0x102000 exec_page" unfolding exec_mem_def by (rule put_bytes_at) (simp add: exec_page_length)
  from at_bytes_nth [OF this] show "exec_mem (0x102000 + of_nat i) = exec_page ! i" using assms by (simp add: exec_page_length)
  show "(0x102000 + of_nat i :: u32) AND NOT (mask 12) = 0x102000" using offset_add(2) [of "0x102000" i] assms by simp
qed

lemma exec_readable:
  assumes "k + length bs \<le> 26" "take (length bs) (drop k exec_page) = bs"
  shows "readable parent_pages 0x100000 exec_mem (0x80000000 + of_nat k) bs"
  unfolding readable_def
proof (intro allI impI conjI)
  fix i assume i: "i < length bs"
  then have ki: "k + i < 26" using assms(1) by simp
  note at = exec_page_at [OF ki]
  have e: "0x80000000 + of_nat k + of_nat i = (0x80000000 + of_nat (k + i) :: u32)" by simp
  show "(0x80000000 + of_nat k + of_nat i :: u32) \<noteq> 0" unfolding e using at(4) by (auto simp: MEMORY_TASK_BASE_def)
  have "bs ! i = exec_page ! (k + i)" using i assms exec_page_length by (metis nth_drop nth_take add_leD1)
  moreover have "kview m' 0x100000 (0x80000000 + of_nat (k + i)) = Some (0x102000 + of_nat (k + i))" if "same_pages parent_pages exec_mem m'" for m'
    using parent_stable(3) [OF exec_parent_ok that at(4)] at(1) leD [OF at(4)] by (simp add: kview_def)
  ultimately show "\<exists>pa. pa AND NOT (mask 12) \<in> parent_pages \<and> exec_mem pa = bs ! i \<and>
      (\<forall>m'. same_pages parent_pages exec_mem m' \<longrightarrow> kview m' 0x100000 (0x80000000 + of_nat k + of_nat i) = Some pa)"
    unfolding e using at(2,3) by (intro exI [of _ "0x102000 + of_nat (k + i)"]) simp
qed

subsection \<open>The machine\<close>

definition exec_pool :: addr_alloc_t where
  "exec_pool = pool16\<lparr>aa_bitmap := \<lparr>bit_count = 1024, bits = 15 # replicate 127 0\<rparr>\<rparr>"

definition exec_link :: link_t where
  "exec_link = no_link\<lparr>lk_temp_addr := 0x10000\<rparr>"

definition exec_start :: fs_state where
  "exec_start = (call_start 0x80000000)\<lparr>phys := exec_mem, cr3 := 0x100000, paddr_alloc := exec_pool, port_in := port_in quiet_cpu,
     disk := exec_disk, tasks := (\<lambda>t. zero_task\<lparr>tk_tss := zero_tss\<lparr>t_cr3 := 0x100000, t_esp0 := 0x104000\<rparr>\<rparr>)\<rparr>"

lemma exec_start_sel [simp]:
  "phys exec_start = exec_mem" "cr3 exec_start = 0x100000" "paddr_alloc exec_start = exec_pool" "disk exec_start = exec_disk"
  "t_cr3 (tk_tss (tasks exec_start t)) = 0x100000" "t_esp0 (tk_tss (tasks exec_start t)) = 0x104000" "mutex_idle m exec_start"
  "port_in exec_start = port_in quiet_cpu"
proof -
  show "mutex_idle m exec_start" using call_start_sel(8) [of m] by (simp add: mutex_idle_def exec_start_def)
qed (simp_all add: exec_start_def)

lemma exec_pool_used: "page_used exec_pool = True # True # True # True # replicate 1020 False"
proof (rule nth_equalityI)
  show "length (page_used exec_pool) = length (True # True # True # True # replicate 1020 False)" by (simp add: exec_pool_def)
  fix i assume "i < length (page_used exec_pool)"
  then have i: "i < 1024" by (simp add: exec_pool_def)
  have e: "page_used exec_pool ! i = bit_at (aa_bitmap exec_pool) i" by (rule nth_bits_of) (use i in \<open>simp add: exec_pool_def\<close>)
  show "page_used exec_pool ! i = (True # True # True # True # replicate 1020 False) ! i"
  proof (cases "i < 8")
    case True
    have "\<forall>j \<in> set [0..<8]. bit_at (aa_bitmap exec_pool) j = (True # True # True # True # replicate 1020 False) ! j" by code_simp
    then show ?thesis using True unfolding e by simp
  next
    case False
    then have "bits (aa_bitmap exec_pool) ! (i div 8) = 0" "4 \<le> i" using i by (simp_all add: exec_pool_def nth_Cons')
    then show ?thesis using i unfolding e by (simp add: bit_at_def nth_Cons')
  qed
qed

lemma exec_pool_ok: "pool_ok exec_pool"
  by (simp add: pool_ok_def exec_pool_def pool16_def bitmap_ok_def bitmap_byte_count_def MEM_PAGE_SIZE_def)

lemma exec_pool_free: "free_count exec_pool = 1020"
  by (simp add: free_count_eq [OF exec_pool_ok] exec_pool_used)

lemma exec_pool_addr: "page_addr exec_pool i = 0x100000 + of_nat i * 4096"
  by (simp add: page_addr_def exec_pool_def pool16_def MEM_PAGE_SIZE_def)

lemma exec_pool_pages: "insert 0x103000 parent_pages \<subseteq> used_of exec_pool"
  using page_addr_in_used [OF exec_pool_ok, of 0] page_addr_in_used [OF exec_pool_ok, of 1]
    page_addr_in_used [OF exec_pool_ok, of 2] page_addr_in_used [OF exec_pool_ok, of 3]
  by (simp add: exec_pool_used exec_pool_addr)

lemma exec_buffer: "buffer_ok exec_link exec_start"
proof -
  have "0x100000 \<le> unat x" if "p \<in> pages_of exec_pool" "x \<in> region p 4096" for p x
  proof -
    obtain i where i: "i < length (page_used exec_pool)" "p = page_addr exec_pool i" using \<open>p \<in> pages_of exec_pool\<close> by (auto simp: pages_of_def)
    then have "unat p = 0x100000 + 4096 * i" "i < 1024"
      using page_addr_unat [OF exec_pool_ok i(1)] by (simp_all add: exec_pool_used exec_pool_def pool16_def)
    moreover obtain k where "k < 4096" "x = p + of_nat k" using \<open>x \<in> region p 4096\<close> by (auto simp: region_def)
    ultimately show ?thesis by (simp add: unat_word_ariths unat_of_nat)
  qed
  moreover have "unat x < 0x100000" if "x \<in> region 0x10000 51200" for x :: u32
    using that by (auto simp: region_def unat_word_ariths unat_of_nat)
  ultimately have "region p 4096 \<inter> region 0x10000 51200 = {}" if "p \<in> pages_of exec_pool" for p
    using that by (meson disjoint_iff not_le)
  then show ?thesis by (simp add: buffer_ok_def exec_link_def)
qed

lemma exec_kernel: "kernel_ok (insert 0x103000 parent_pages) (lk_kernel_page_dir exec_link) exec_start"
proof -
  have "0 \<notin> pages_of exec_pool" by (rule pool.null_page [OF exec_pool_ok])
  then show ?thesis
    by (simp add: kernel_ok_def exec_link_def no_link_def exec_mem_slots [OF pde_index_bound] fork_slots [OF pde_index_bound])
qed

lemma exec_start_ready: "exec_ready exec_link parent_pages 0x103000 0x103000 exec_start"
proof -
  have "(3 * n + 2) mod 3 = (2 :: nat)" "n \<le> 3 * n + 2" for n :: nat by presburger+
  then have drive: "\<forall>n. \<exists>j\<ge>n. drive_ready exec_start j"
    unfolding drive_ready_def exec_start_sel quiet_cpu_def by (intro allI, rule_tac x = "3 * n + 2" in exI) simp
  have "x \<notin> region 0x103fa8 88" if "x \<in> region 0x103000 12" for x :: u32
  proof
    assume "x \<in> region 0x103fa8 88"
    then have "0x103fa8 \<le> unat x" by (auto simp: region_def unat_word_ariths unat_of_nat)
    moreover have "unat x < 0x10300c" using that by (auto simp: region_def unat_word_ariths unat_of_nat)
    ultimately show False by simp
  qed
  then have stk: "region 0x103000 12 \<subseteq> region 0x103000 4096 - region 0x103fa8 88" using region_mono [of 12 4096 "0x103000"] by auto
  show ?thesis
    using exec_pool_ok exec_pool_pages exec_kernel exec_parent_ok exec_buffer drive stk
    by (simp add: exec_ready_def MEM_PAGE_SIZE_def frame_size_def)
qed

lemma exec_args: "args_at parent_pages 0x100000 exec_mem 0x80000010 [[0x78]]"
proof -
  have "readable parent_pages 0x100000 exec_mem (0x80000000 + of_nat 16) (word_bytes 0x80000018)" by (rule exec_readable) code_simp+
  moreover have "readable parent_pages 0x100000 exec_mem (0x80000000 + of_nat 20) (word_bytes 0)" by (rule exec_readable) code_simp+
  moreover have "readable parent_pages 0x100000 exec_mem (0x80000000 + of_nat 24) [0x78, 0]" by (rule exec_readable) code_simp+
  ultimately show ?thesis by (auto intro!: exI [of _ "0x80000018"])
qed

lemma exec_name:
  "readable parent_pages 0x100000 exec_mem 0x80000000 (of_char CHR ''/'' # [0x61] @ [0])"
  "Option.bind (get_file_name (uview exec_start) 0x80000000) (load_cstr (uview exec_start)) = Some [0x61]"
proof -
  have "readable parent_pages 0x100000 exec_mem (0x80000000 + of_nat 0) [0x2f, 0x61, 0]" by (rule exec_readable) code_simp+
  then show "readable parent_pages 0x100000 exec_mem 0x80000000 (of_char CHR ''/'' # [0x61] @ [0])" by simp
  have "uview exec_start (0x80000000 + of_nat i) = exec_page ! i" if "i < 26" for i
    using exec_page_at(1,2) [OF that] by (simp add: uview_def)
  from this [of 0] this [of 1] this [of 2] have
    u: "uview exec_start 0x80000000 = 0x2f" "uview exec_start 0x80000001 = 0x61" "uview exec_start 0x80000002 = 0"
    by (simp_all add: exec_page_def)
  have "file_name_end (uview exec_start) 0x80000000 = Some 0x80000002" by (subst file_name_end.simps, simp add: u)+
  moreover have "file_name_back (uview exec_start) 0x80000000 0x80000002 = Some 0x80000000"
    by (subst file_name_back.simps, simp add: u)+
  moreover have "load_cstr (uview exec_start) 0x80000001 = Some [0x61]" by (subst load_cstr.simps, simp add: u)+
  ultimately show "Option.bind (get_file_name (uview exec_start) 0x80000000) (load_cstr (uview exec_start)) = Some [0x61]"
    by (simp add: get_file_name_def)
qed

text \<open>The new program starts at 0x80000000, where it finds the second byte of the segment.\<close>

theorem execve_runs_image_witness:
  "\<exists>s' pa. sys_execve exec_link 0x103000 0x80000000 0x80000010 0 exec_start = Done 0 s' \<and>
     mmu_walk (phys s') (cr3 s') 0x80000001 = Some pa \<and> phys s' pa = 0xEB \<and>
     frame_get (phys s') 0x103fa8 ''eip'' = 0x80000000 \<and> tk_heap_end (tasks s' First_task) = 0x80000008"
proof -
  have img: "exec_image (disk_image exec_start) (ehdr_of (take 52 exec_file)) exec_phdr" using exec_file_image by (simp add: disk_image_def)
  have mem: "2 * ((unat (p_memsz exec_phdr) + 4095) div 4096) + 1001 \<le> free_count (paddr_alloc exec_start)"
    by (simp add: exec_phdr_def exec_pool_free)
  have args: "length [[0x78 :: u8]] \<le> 1020" "length (arg_text [[0x78]]) \<le> 61440" "0 \<notin> set [0x61 :: u8]" by simp_all
  have at: "readable parent_pages (cr3 exec_start) (phys exec_start) 0x80000000 (of_char CHR ''/'' # [0x61] @ [0])"
    "args_at parent_pages (cr3 exec_start) (phys exec_start) 0x80000010 [[0x78]]" using exec_name(1) exec_args by simp_all
  have cur: "curr_task exec_start = First_task" by (simp add: exec_start_def)
  obtain s' dir qs ps where r: "sys_execve exec_link 0x103000 0x80000000 0x80000010 0 exec_start = Done 0 s'" "cr3 s' = dir"
    "loaded (mmu_walk (phys exec_start) (lk_kernel_page_dir exec_link)) (disk_image exec_start) exec_phdr qs ps dir (phys s')"
    "frame_get (phys s') (0x103000 + MEM_PAGE_SIZE - frame_size) ''eip'' = e_entry (ehdr_of (take 52 exec_file))"
    "tk_heap_end (tasks s' First_task) = p_vaddr exec_phdr + p_memsz exec_phdr"
    using execve_runs_image [OF exec_start_ready at(1) args(3) exec_name(2) at(2) args(1,2) img mem, of 0] unfolding Let_def cur by blast
  have seg: "1 < unat (p_filesz exec_phdr)" by (simp add: exec_phdr_def)
  have "mmu_walk (phys s') dir (p_vaddr exec_phdr + of_nat 1) = Some (frame_at qs 1)"
    "phys s' (frame_at qs 1) = disk_image exec_start ! (unat (p_offset exec_phdr) + 1)"
    using r(3) unfolding loaded_def by (metis seg)+
  moreover have "disk_image exec_start ! 85 = exec_file ! 85"
    unfolding disk_image_def exec_start_sel exec_file_read by (simp add: nth_append exec_file_def word_bytes_def)
  moreover have "exec_file ! 85 = 0xEB" "e_entry (ehdr_of (take 52 exec_file)) = 0x80000000" by code_simp+
  ultimately show ?thesis using r(1,2,4,5) by (intro exI [of _ s'] exI [of _ "frame_at qs 1"]) (simp add: exec_phdr_def MEM_PAGE_SIZE_def frame_size_def)
qed

end
