(* ===== verification/Execve_Errors.thy ===== *)
theory Execve_Errors
  imports Execve_Sample
begin

text \<open>
  The error exit of \<open>sys_execve\<close> after the new directory exists: a file that is no ELF image.
\<close>

lemma empty_half_pages:
  assumes "\<forall>va. MEMORY_TASK_BASE \<le> va \<longrightarrow> \<not> bit (pde_of m dir va) 0"
  shows "parent_ok {dir} m dir" "task_pages m dir = {dir}"
proof -
  have "mmu_walk m dir va = None" if "MEMORY_TASK_BASE \<le> va" for va using assms that by (simp add: mmu_walk_eq)
  then show "parent_ok {dir} m dir" "task_pages m dir = {dir}" using assms by (auto simp: parent_ok_def task_pages_def)
qed

lemma exec_failed_done:
  assumes vm: "vm_ok R dir s" and dir: "dir \<noteq> 0" "\<forall>va. MEMORY_TASK_BASE \<le> va \<longrightarrow> \<not> bit (pde_of (phys s) dir va) 0"
    and cur: "t_cr3 (tk_tss (tasks s (curr_task s))) = cr3 s"
  shows "\<exists>a. exec_failed (cr3 s) dir s = Done (-1) (s\<lparr>paddr_alloc := a\<rparr>) \<and> used_of a = used_of (paddr_alloc s) - {dir}"
proof -
  have "tasks s (curr_task s)\<lparr>tk_tss := tk_tss (tasks s (curr_task s))\<lparr>t_cr3 := cr3 s\<rparr>\<rparr> = tasks s (curr_task s)" using cur by simp
  then have same: "upd_task (curr_task s) (\<lambda>t. t\<lparr>tk_tss := (tk_tss t)\<lparr>t_cr3 := cr3 s\<rparr>\<rparr>) s = s" by (simp add: upd_task_def fun_upd_idem)
  have ok: "pool_ok (paddr_alloc s)" "mutex_idle Paddr_alloc_mutex s" "{dir} \<subseteq> pages_of (paddr_alloc s)"
    using vm pool.used_pages [of "paddr_alloc s"] by (auto simp: vm_ok_def space_ok_def)
  from destroy_uvm_done [OF ok empty_half_pages(1) [OF dir(2)]] empty_half_pages(2) [OF dir(2)] obtain a where
    "memory_destory_uvm dir s = Done () (s\<lparr>paddr_alloc := a\<rparr>)" "used_of a = used_of (paddr_alloc s) - {dir}" by auto
  then show ?thesis using dir(1) same by (intro exI [of _ a]) (simp add: exec_failed_def task_current_def mmu_set_page_dir_def)
qed

text \<open>What \<open>load_elf_file\<close> leaves of an image it rejects: the bytes in the buffer, the positions of the buffer and of the disk,
  the traffic with the drive and a line of the log.\<close>

lemma load_elf_rejects:
  assumes name: "cstr (uview s) name (of_char CHR ''/'' # bs)" "name \<noteq> 0" "\<forall>n. \<exists>k\<ge>n. drive_ready s k"
    and vm: "vm_ok R dir s" "buffer_ok lk s" and bad: "\<not> elf_magic_ok (ehdr_of (take EHDR_SIZE (disk_image s)))"
    and m: "m = put_bytes (phys s) (lk_temp_addr lk) (disk_image s)"
  obtains r w where "load_elf_file lk t name dir s = Done 0 (s\<lparr>port_reads := r, port_out := w, disk := disk_skip 25600 (disk s), phys := m,
      temp_pos := lk_temp_addr lk + 52, klogs := klogs s @ [(''chekc elf ident failed'', [])]\<rparr>)"
    "vm_ok R dir (s\<lparr>phys := m\<rparr>)" "same_pages (used_of (paddr_alloc s)) (phys s) m"
proof -
  let ?T = "lk_temp_addr lk"
  obtain r w where 1: "sys_open lk name 0 s = Done TEMP_FILE_ID (s\<lparr>port_reads := r, port_out := w, disk := disk_skip 25600 (disk s), phys := m,
      temp_pos := ?T\<rparr>)" unfolding m by (rule open_image_eq [OF name])
  have "at_bytes m ?T (disk_image s)" unfolding m by (rule put_bytes_at) simp
  from load_bytes_part [OF this, of 0 52] have hdr: "load_bytes m ?T 52 = take EHDR_SIZE (disk_image s)" by (simp add: EHDR_SIZE_def)
  have used: "used_of (paddr_alloc s) \<subseteq> pages_of (paddr_alloc s)" using vm(1) pool.used_pages by (auto simp: vm_ok_def)
  have sp: "same_pages (used_of (paddr_alloc s)) (phys s) m"
    unfolding m by (rule put_bytes_apart) (use vm(2) used in \<open>auto simp: buffer_ok_def\<close>)
  have "load_elf_file lk t name dir s = Done 0 (s\<lparr>port_reads := r, port_out := w, disk := disk_skip 25600 (disk s), phys := m,
      temp_pos := ?T + 52, klogs := klogs s @ [(''chekc elf ident failed'', [])]\<rparr>)"
    using 1 hdr bad by (simp add: load_elf_file_def sys_read_local_def temp_take_def log_line_def EHDR_SIZE_def TEMP_FILE_ID_def Let_def)
  then show thesis using that vm_same_pages(1) [OF vm(1) sp] sp by blast
qed

text \<open>C12: an \<open>execve\<close> that fails leaves the caller its program.  If the file on the disk is no ELF image, \<open>sys_execve\<close> returns
  -1 and the caller goes on in its old address space: its pages, its kernel stack and the frame of the call
  have their contents, every address of its half translates as before, and exactly the pages in use before are in use,
  so the new directory has been given back.  The theorem lists every trace the attempt leaves.  The caller carries the name of the file, for
  the code renames it before it tries, and a name of 32 bytes or more also clears the low byte of its pid.
  The buffer at \<open>TEMP_ADDR\<close> holds the image and one page \<open>dir\<close>, free again, may have other
  contents; no other byte of memory changes.  The position in the buffer, the disk, the ports and the log have moved on.
  Queues, mutexes, terminals, devices, files and the other tasks are the same.\<close>

theorem execve_rejects_bad_image:
  assumes "exec_ready lk P k stk s"
    and "readable P (cr3 s) (phys s) name (of_char CHR ''/'' # bs @ [0])" "0 \<notin> set bs"
    and "Option.bind (get_file_name (uview s) name) (load_cstr (uview s)) = Some nm"
    and "\<not> elf_magic_ok (ehdr_of (take EHDR_SIZE (disk_image s)))" "0 < free_count (paddr_alloc s)"
  shows "\<exists>s' a m dir r w. sys_execve lk stk name argv env s = Done (-1) s' \<and>
     s' = s\<lparr>tasks := (tasks s)(curr_task s := copy_name (chars_of nm) (tasks s (curr_task s))), paddr_alloc := a, phys := m,
       temp_pos := lk_temp_addr lk + 52, disk := disk_skip 25600 (disk s), port_reads := r, port_out := w,
       klogs := klogs s @ [(''chekc elf ident failed'', [])]\<rparr> \<and>
     same_pages (insert k P) (phys s) m \<and> used_of a = used_of (paddr_alloc s) \<and>
     (\<forall>va. MEMORY_TASK_BASE \<le> va \<longrightarrow> mmu_walk m (cr3 s) va = mmu_walk (phys s) (cr3 s) va) \<and>
     dir \<in> pages_of (paddr_alloc s) - used_of (paddr_alloc s) \<and> at_bytes m (lk_temp_addr lk) (disk_image s) \<and>
     (\<forall>x. x \<notin> region (lk_temp_addr lk) 51200 \<union> region dir 4096 \<longrightarrow> m x = phys s x)"
proof -
  let ?t = "curr_task s" and ?s1 = "upd_task (curr_task s) (copy_name (chars_of nm)) s" and ?K = "insert k P" and ?T = "lk_temp_addr lk"
  have po: "pool_ok (paddr_alloc ?s1)" "mutex_idle Paddr_alloc_mutex ?s1" "0 < free_count (paddr_alloc ?s1)" "?K \<subseteq> used_of (paddr_alloc ?s1)"
    "kernel_ok ?K (lk_kernel_page_dir lk) ?s1"
    using assms(1,6) by (simp_all add: exec_ready_def upd_task_def mutex_idle_def kernel_ok_def)
  obtain dir a m where 2: "memory_create_uvm lk ?s1 = Done dir (?s1\<lparr>paddr_alloc := a, phys := m\<rparr>)" "dir \<noteq> 0"
    "dir \<in> pages_of (paddr_alloc s) - used_of (paddr_alloc s)" "vm_ok ?K dir (?s1\<lparr>paddr_alloc := a, phys := m\<rparr>)"
    "\<And>x. x \<notin> region dir 4096 \<Longrightarrow> m x = phys s x" "take_bit 12 dir = 0" "pages_of a = pages_of (paddr_alloc s)"
    "used_of a = insert dir (used_of (paddr_alloc s))" "\<forall>va. MEMORY_TASK_BASE \<le> va \<longrightarrow> \<not> bit (pde_of m dir va) 0"
    using create_uvm_eq [OF po] by (auto simp: upd_task_def)
  define s2 where "s2 = ?s1\<lparr>paddr_alloc := a, phys := m\<rparr>"
  define m' where "m' = put_bytes m ?T (disk_image s)"
  have e2: "phys s2 = m" "cr3 s2 = cr3 s" "paddr_alloc s2 = a" "disk_image s2 = disk_image s"
    by (simp_all add: s2_def upd_task_def disk_image_def)
  have po1: "pool_ok (paddr_alloc s)" "?K \<subseteq> used_of (paddr_alloc s)" using po(1,4) by (simp_all add: upd_task_def)
  have sp2: "same_pages ?K (phys s) m"
    by (rule same_pages_in_page [OF po1 2(6) _ 2(5)]) (use 2(3) po1(2) in auto)
  have "readable P (cr3 s2) (phys s2) name (of_char CHR ''/'' # bs @ [0])"
    using readable_stable [OF assms(2) same_pages_mono [OF sp2]] by (auto simp: e2)
  then have nm: "cstr (uview s2) name (of_char CHR ''/'' # bs)" "name \<noteq> 0"
    using readable_cstr [of P s2 name "of_char CHR ''/'' # bs"] assms(3) readable_nonnull [OF assms(2)] by simp_all
  have env: "\<forall>n. \<exists>j\<ge>n. drive_ready s2 j" "buffer_ok lk s2" "\<not> elf_magic_ok (ehdr_of (take EHDR_SIZE (disk_image s2)))"
    using assms(1,5) 2(7) unfolding e2 by (simp_all add: s2_def exec_ready_def drive_ready_def buffer_ok_def upd_task_def)
  have vm2: "vm_ok ?K dir s2" using 2(4) by (simp add: s2_def)
  have m': "m' = put_bytes (phys s2) ?T (disk_image s2)" by (simp add: m'_def e2)
  from load_elf_rejects [OF nm env(1) vm2 env(2,3) m', of ?t] obtain r w where
    3: "load_elf_file lk ?t name dir s2 = Done 0 (s2\<lparr>port_reads := r, port_out := w, disk := disk_skip 25600 (disk s2), phys := m',
        temp_pos := ?T + 52, klogs := klogs s2 @ [(''chekc elf ident failed'', [])]\<rparr>)"
      "vm_ok ?K dir (s2\<lparr>phys := m'\<rparr>)" "same_pages (used_of a) m m'" unfolding e2 by blast
  define s3 where "s3 = s2\<lparr>port_reads := r, port_out := w, disk := disk_skip 25600 (disk s2), phys := m',
        temp_pos := ?T + 52, klogs := klogs s2 @ [(''chekc elf ident failed'', [])]\<rparr>"
  have vm3: "vm_ok ?K dir s3" using 3(2) by (simp add: s3_def vm_ok_def mutex_idle_def)
  have cur: "t_cr3 (tk_tss (tasks s ?t)) = cr3 s" "\<And>w x. tk_tss (copy_name w x) = tk_tss x" using assms(1) by (simp_all add: exec_ready_def copy_name_def)
  have e3: "cr3 s3 = cr3 s" "curr_task s3 = ?t" "phys s3 = m'" "paddr_alloc s3 = a" "t_cr3 (tk_tss (tasks s3 ?t)) = cr3 s"
    using cur by (simp_all add: s3_def s2_def upd_task_def)
  have "pde_of m' dir va = pde_of m dir va" for va
    by (rule same_pages_slot [OF 3(3) _ pde_index_bound]) (simp add: 2(8))
  then have half: "\<forall>va. MEMORY_TASK_BASE \<le> va \<longrightarrow> \<not> bit (pde_of (phys s3) dir va) 0" using 2(9) by (simp add: e3)
  from exec_failed_done [OF vm3 2(2) half] obtain b where
    4: "exec_failed (cr3 s) dir s3 = Done (-1) (s3\<lparr>paddr_alloc := b\<rparr>)" "used_of b = used_of a - {dir}"
    using e3 by auto
  have run: "sys_execve lk stk name argv env s = Done (-1) (s3\<lparr>paddr_alloc := b\<rparr>)"
    using 2(1,2) 3(1) 4(1) cur
    by (simp add: sys_execve_def Let_def task_current_def assms(4) s2_def [symmetric] s3_def [symmetric])
  have sp: "same_pages ?K (phys s) m'"
    by (rule same_pages_trans [OF sp2 same_pages_mono [OF 3(3)]]) (use po1(2) 2(8) in auto)
  have walk: "mmu_walk m' (cr3 s) va = mmu_walk (phys s) (cr3 s) va" if "MEMORY_TASK_BASE \<le> va" for va
    by (rule parent_stable(3) [OF _ same_pages_mono [OF sp] that, where R = P]) (use assms(1) in \<open>auto simp: exec_ready_def\<close>)
  have final: "s3\<lparr>paddr_alloc := b\<rparr> = s\<lparr>tasks := (tasks s)(?t := copy_name (chars_of nm) (tasks s ?t)), paddr_alloc := b, phys := m',
       temp_pos := ?T + 52, disk := disk_skip 25600 (disk s), port_reads := r, port_out := w,
       klogs := klogs s @ [(''chekc elf ident failed'', [])]\<rparr>" by (simp add: s3_def s2_def upd_task_def)
  have "at_bytes m' ?T (disk_image s)" unfolding m'_def by (rule put_bytes_at) simp
  moreover have "m' x = phys s x" if "x \<notin> region ?T 51200 \<union> region dir 4096" for x
    using that 2(5) by (simp add: m'_def put_bytes_other)
  moreover have "used_of b = used_of (paddr_alloc s)" using 4(2) 2(3,8) by auto
  ultimately show ?thesis using run sp walk 2(3) unfolding final by blast
qed

lemma exec_ready_disk: "exec_ready lk P k stk (s\<lparr>disk := d\<rparr>) = exec_ready lk P k stk s"
  by (simp add: exec_ready_def kernel_ok_def mutex_idle_def buffer_ok_def drive_ready_def)

text \<open>The machine of \<open>Execve_Sample\<close> with a disk that holds no image.\<close>

theorem execve_rejects_bad_image_witness:
  "\<exists>s'. sys_execve exec_link 0x103000 0x80000000 0x80000010 0 (exec_start\<lparr>disk := counting_disk\<rparr>) = Done (-1) s' \<and> cr3 s' = 0x100000 \<and>
     used_of (paddr_alloc s') = used_of exec_pool \<and> tk_name (tasks s' First_task) = ''a''"
proof -
  let ?s = "exec_start\<lparr>disk := counting_disk\<rparr>"
  have ready: "exec_ready exec_link parent_pages 0x103000 0x103000 ?s"
    using exec_start_ready by (simp only: exec_ready_disk)
  have view: "uview ?s = uview exec_start" by (simp add: uview_def fun_eq_iff split: option.split)
  have "Option.bind (get_file_name (uview ?s) 0x80000000) (load_cstr (uview ?s)) = Some [0x61]" unfolding view by (rule exec_name(2))
  moreover have "readable parent_pages (cr3 ?s) (phys ?s) 0x80000000 (of_char CHR ''/'' # [0x61] @ [0])" "0 \<notin> set [0x61 :: u8]"
    using exec_name(1) by simp_all
  moreover have "disk_bytes 1 counting_disk = [0, 0]" by code_simp
  then have "take EHDR_SIZE (disk_image ?s) ! 0 = 0"
    using disk_bytes_append [of 1 25599 counting_disk] by (simp add: disk_image_def EHDR_SIZE_def)
  then have "\<not> elf_magic_ok (ehdr_of (take EHDR_SIZE (disk_image ?s)))" by (simp add: elf_magic_ok_def ehdr_of_def ELF_MAGIC_def EHDR_SIZE_def)
  moreover have "0 < free_count (paddr_alloc ?s)" by (simp add: exec_pool_free)
  ultimately obtain s' where r: "sys_execve exec_link 0x103000 0x80000000 0x80000010 0 ?s = Done (-1) s'" "cr3 s' = cr3 ?s"
    "used_of (paddr_alloc s') = used_of (paddr_alloc ?s)" "tasks s' = (tasks ?s)(curr_task ?s := copy_name (chars_of [0x61]) (tasks ?s (curr_task ?s)))"
    using execve_rejects_bad_image [OF ready, of "0x80000000" "[0x61]" "[0x61]" "0x80000010" 0] by fastforce
  have name: "chars_of [0x61] = ''a''" by code_simp
  have "curr_task ?s = First_task" by (simp add: exec_start_def)
  then have "tk_name (tasks s' First_task) = ''a''" using r(4) name by (simp add: copy_name_def TASK_NAME_SIZE_def)
  then show ?thesis using r(1-3) by auto
qed

end
