(* ===== verification/Memory_Init_Laws.thy ===== *)
theory Memory_Init_Laws
  imports Exec_Laws
begin

text \<open>
  What \<open>memory_init\<close> sets up: the pool of pages, whose first pages become the tables of the kernel, and the
  kernel's directory, which maps the kernel, the display and the memory above 1 MB to themselves.  The
  directory is a static array of the kernel, outside the pool.
\<close>

subsection \<open>Addresses mapped to themselves\<close>

definition ident :: "u32 set \<Rightarrow> u32 \<Rightarrow> u32 option" where
  "ident A = (\<lambda>va. if va \<in> A then Some va else None)"

definition span :: "nat \<Rightarrow> nat \<Rightarrow> u32 set" where
  "span lo hi = {va. lo \<le> unat va \<and> unat va < hi}"

lemma span_page:
  assumes "take_bit 12 va = 0"
  shows "drop_bit 12 vb = drop_bit 12 va \<longleftrightarrow> vb \<in> span (unat va) (unat va + 4096)"
proof -
  obtain w where w: "unat va = 4096 * w" using assms by (auto simp: aligned_unat mod_eq_0_iff_dvd)
  have "drop_bit 12 vb = drop_bit 12 va \<longleftrightarrow> unat vb div 4096 = w"
    by (simp add: word_unat_eq_iff drop_bit_eq_div unat_div w)
  also have "\<dots> \<longleftrightarrow> 4096 * w \<le> unat vb \<and> unat vb < 4096 * w + 4096"
  proof -
    have "4096 * (unat vb div 4096) \<le> unat vb" "unat vb < 4096 * (unat vb div 4096) + 4096"
      using dividend_less_times_div [of 4096 "unat vb"] by simp_all
    then show ?thesis by (intro iffI conjI; linarith)
  qed
  finally show ?thesis by (simp add: span_def w)
qed

lemma page_same: "take_bit 12 va = 0 \<Longrightarrow> drop_bit 12 vb = drop_bit 12 va \<Longrightarrow> va + (vb AND 0xfff) = (vb :: u32)"
proof -
  assume va: "take_bit 12 va = 0" and vb: "drop_bit 12 vb = drop_bit 12 va"
  have "vb AND NOT (mask 12) = va AND NOT (mask 12)" using vb by (simp add: entry_paddr [symmetric] pde_paddr_def)
  also have "va AND NOT (mask 12) = va" using offset_add(2) [OF va, of 0] by simp
  finally show ?thesis using page_split [of vb] by (simp add: and_fff)
qed

lemma map_page_ident: "take_bit 12 va = 0 \<Longrightarrow> map_page va va (ident A) = ident (A \<union> span (unat va) (unat va + 4096))"
  using span_page [of va] page_same [of va] by (auto simp: map_page_def ident_def fun_eq_iff)

lemma map_range_ident:
  assumes "take_bit 12 va = 0" "unat va + 4096 * n \<le> 2 ^ 31"
  shows "map_range n va va (ident A) = ident (A \<union> span (unat va) (unat va + 4096 * n))"
  using assms
proof (induction n arbitrary: va A)
  case 0
  then show ?case by (simp add: span_def ident_def fun_eq_iff)
next
  case (Suc n)
  have u: "unat (va + MEM_PAGE_SIZE) = unat va + 4096" using Suc.prems(2) by (simp add: MEM_PAGE_SIZE_def unat_word_ariths)
  have "span (unat va) (unat va + 4096) \<union> span (unat va + 4096) (unat va + 4096 + 4096 * n) = span (unat va) (unat va + 4096 * Suc n)"
    by (auto simp: span_def)
  then show ?case
    using Suc.IH [OF next_page_aligned [OF Suc.prems(1)], of "A \<union> span (unat va) (unat va + 4096)"] Suc.prems(2)
    by (simp add: map_page_ident [OF Suc.prems(1)] u Un_assoc)
qed

subsection \<open>The kernel's tables\<close>

text \<open>While the kernel is mapped, the pages in use are exactly its tables, one for each of at most 32 entries of the
  directory, which reach up to 128 MB.\<close>

definition kmap_ok :: "u32 \<Rightarrow> 'a mem_state_scheme \<Rightarrow> bool" where
  "kmap_ok kd s \<longleftrightarrow> pool_ok (paddr_alloc s) \<and> mutex_idle Paddr_alloc_mutex s \<and> kd \<notin> pages_of (paddr_alloc s) \<and>
     space_ok (phys s) kd (insert kd (used_of (paddr_alloc s))) \<and>
     (\<forall>va. bit (pde_of (phys s) kd va) 0 \<longrightarrow> unat (pde_index va) < 32) \<and>
     used_of (paddr_alloc s) = {table_of (phys s) kd va | va. bit (pde_of (phys s) kd va) 0}"

text \<open>What the creation of the kernel's tables leaves alone: the pages of the pool stay the same, and only they and the
  directory are written.\<close>

definition kstay :: "u32 \<Rightarrow> 'a mem_state_scheme \<Rightarrow> 'a mem_state_scheme \<Rightarrow> bool" where
  "kstay kd s s' \<longleftrightarrow> pages_of (paddr_alloc s') = pages_of (paddr_alloc s) \<and> outside (vm_pages kd s) (phys s) (phys s')"

lemma kstay_refl: "paddr_alloc s' = paddr_alloc s \<Longrightarrow> phys s' = phys s \<Longrightarrow> kstay kd s s'"
  by (simp add: kstay_def)

lemma kstay_trans: "kstay kd s s' \<Longrightarrow> kstay kd s' s'' \<Longrightarrow> kstay kd s s''"
  by (auto simp: kstay_def vm_pages_def intro: outside_trans)

lemma kstay_pages: "kstay kd s s' \<Longrightarrow> pages_of (paddr_alloc s') = pages_of (paddr_alloc s)"
  by (simp add: kstay_def)

lemma kmap_space: "kmap_ok kd s \<Longrightarrow> space_ok (phys s) kd (insert kd (used_of (paddr_alloc s)))"
  unfolding kmap_ok_def by blast

lemma kmap_used:
  assumes "kmap_ok kd s"
  shows "used_of (paddr_alloc s) \<subseteq> (\<lambda>i. pde_paddr (mem32 (phys s) (slot kd (of_nat i)))) ` {i. i < 32 \<and> bit (mem32 (phys s) (slot kd (of_nat i))) 0}"
proof
  fix p assume "p \<in> used_of (paddr_alloc s)"
  then obtain va where "bit (pde_of (phys s) kd va) 0" "p = table_of (phys s) kd va" "unat (pde_index va) < 32"
    using assms unfolding kmap_ok_def by blast
  then show "p \<in> (\<lambda>i. pde_paddr (mem32 (phys s) (slot kd (of_nat i)))) ` {i. i < 32 \<and> bit (mem32 (phys s) (slot kd (of_nat i))) 0}"
    by (intro image_eqI [of _ _ "unat (pde_index va)"]) auto
qed

lemma kmap_few: "kmap_ok kd s \<Longrightarrow> card (used_of (paddr_alloc s)) \<le> 32"
proof -
  assume "kmap_ok kd s"
  from kmap_used [OF this] have "card (used_of (paddr_alloc s)) \<le> card {i. i < (32 :: nat) \<and> bit (mem32 (phys s) (slot kd (of_nat i))) 0}"
    by (intro surj_card_le) auto
  also have "\<dots> \<le> card {..<32 :: nat}" by (rule card_mono) auto
  finally show ?thesis by simp
qed

lemma kmap_room:
  assumes "kmap_ok kd s" "32 \<le> card (pages_of (paddr_alloc s))" "unat (pde_index va) < 32"
  shows "room kd va s"
proof (cases "bit (pde_of (phys s) kd va) 0")
  case False
  let ?I = "{i. i < (32 :: nat) \<and> bit (mem32 (phys s) (slot kd (of_nat i))) 0}"
  from kmap_used [OF assms(1)] have "card (used_of (paddr_alloc s)) \<le> card ?I" by (intro surj_card_le) auto
  also have "\<dots> \<le> card ({..<32} - {unat (pde_index va)})" using False by (intro card_mono) auto
  also have "\<dots> = 31" using assms(3) by simp
  finally have "used_of (paddr_alloc s) \<noteq> pages_of (paddr_alloc s)" using assms(2) by auto
  then show ?thesis by (simp add: room_def)
qed (simp add: room_def)

text \<open>A new table: the page \<open>p\<close> is cleared and entered into the directory.\<close>

lemma kmap_new_table:
  assumes ok: "kmap_ok kd s" and absent: "\<not> bit (pde_of (phys s) kd va) 0" and va: "unat (pde_index va) < 32"
    and p: "p \<noteq> 0" "take_bit 12 p = 0" "p \<in> pages_of (paddr_alloc s) - used_of (paddr_alloc s)"
    and a: "pool_ok a" "pages_of a = pages_of (paddr_alloc s)" "used_of a = insert p (used_of (paddr_alloc s))"
    and m_def: "m = k_memset p 0 MEM_PAGE_SIZE (put32 (phys s) (slot kd (pde_index va)) (p OR (PDE_P OR PDE_W OR PDE_U)))"
  shows "kmap_ok kd (s\<lparr>paddr_alloc := a, phys := m\<rparr>)" "kstay kd s (s\<lparr>paddr_alloc := a, phys := m\<rparr>)"
    "mmu_walk m kd = mmu_walk (phys s) kd" "bit (pde_of m kd va) 0" "table_of m kd va = p"
proof -
  have po: "pool_ok (paddr_alloc s)" and idle: "mutex_idle Paddr_alloc_mutex s" and kd: "kd \<notin> pages_of (paddr_alloc s)"
    and sp: "space_ok (phys s) kd (insert kd (used_of (paddr_alloc s)))"
    and low: "\<And>vb. bit (pde_of (phys s) kd vb) 0 \<Longrightarrow> unat (pde_index vb) < 32"
    and used: "used_of (paddr_alloc s) = {table_of (phys s) kd va | va. bit (pde_of (phys s) kd va) 0}"
    using ok by (auto simp: kmap_ok_def)
  let ?f = "PDE_P OR PDE_W OR PDE_U"
  have pkd: "p \<noteq> kd" "p \<notin> insert kd (used_of (paddr_alloc s))" using p(3) kd by auto
  note n = new_table [OF sp p(2,1) pkd(2) absent m_def]
  show "mmu_walk m kd = mmu_walk (phys s) kd" "bit (pde_of m kd va) 0" "table_of m kd va = p" by (fact n)+
  have d: "take_bit 12 kd = 0" using sp by (simp add: space_ok_def)
  have pde: "pde_of m kd vb = pde_of (phys s) kd vb" if "pde_index vb \<noteq> pde_index va" for vb
  proof -
    have "pde_of m kd vb = pde_of (put32 (phys s) (slot kd (pde_index va)) (p OR ?f)) kd vb"
      unfolding m_def by (rule slot_other_page [OF p(2) d pkd(1) pde_index_bound zero_page(2) [OF p(1)]])
    also have "\<dots> = pde_of (phys s) kd vb"
      using that by (intro mem32_put32_other slot_disjoint [OF pde_index_bound pde_index_bound]) simp
    finally show ?thesis .
  qed
  have same: "pde_of m kd vb = pde_of m kd va" if "pde_index vb = pde_index va" for vb using that by simp
  have other: "pde_index vb \<noteq> pde_index va" if "bit (pde_of (phys s) kd vb) 0" for vb using that absent by auto
  have "insert p (used_of (paddr_alloc s)) = {table_of m kd vb | vb. bit (pde_of m kd vb) 0}" (is "?U = ?T")
  proof (intro set_eqI iffI)
    fix x assume "x \<in> ?U"
    then consider "x = p" | vb where "bit (pde_of (phys s) kd vb) 0" "x = table_of (phys s) kd vb" unfolding used by blast
    then show "x \<in> ?T" using n(3,4) pde other by cases (auto, metis)
  next
    fix x assume "x \<in> ?T"
    then obtain vb where vb: "bit (pde_of m kd vb) 0" "x = table_of m kd vb" by blast
    show "x \<in> ?U"
    proof (cases "pde_index vb = pde_index va")
      case True
      then show ?thesis using vb(2) n(4) same [OF True] by simp
    next
      case False
      then show ?thesis using vb pde [OF False] unfolding used by auto
    qed
  qed
  moreover have "unat (pde_index vb) < 32" if "bit (pde_of m kd vb) 0" for vb
    using low [of vb] va that pde [of vb] by (cases "pde_index vb = pde_index va") auto
  ultimately show "kmap_ok kd (s\<lparr>paddr_alloc := a, phys := m\<rparr>)"
    using a idle kd n(1) by (auto simp: kmap_ok_def insert_commute mutex_idle_def)
  have "outside (vm_pages kd s) (phys s) (put32 (phys s) (slot kd (pde_index va)) (p OR ?f))"
    by (rule outside_page [of kd]) (auto simp: vm_pages_def put_slot_inside [OF pde_index_bound])
  moreover have "outside (vm_pages kd s) (put32 (phys s) (slot kd (pde_index va)) (p OR ?f)) m"
    unfolding m_def by (rule outside_page [of p]) (use p(3) zero_page(2) [OF p(1)] in \<open>auto simp: vm_pages_def\<close>)
  ultimately have "outside (vm_pages kd s) (phys s) m" by (rule outside_trans)
  then show "kstay kd s (s\<lparr>paddr_alloc := a, phys := m\<rparr>)" using a(2) by (simp add: kstay_def)
qed

lemma kmap_find_pte:
  assumes ok: "kmap_ok kd s" and rm: "room kd va s" and va: "unat (pde_index va) < 32"
  obtains m a where "find_pte kd va 1 s = Done (slot (table_of m kd va) (pte_index va)) (s\<lparr>paddr_alloc := a, phys := m\<rparr>)"
    "kmap_ok kd (s\<lparr>paddr_alloc := a, phys := m\<rparr>)" "bit (pde_of m kd va) 0" "table_of m kd va \<noteq> 0"
    "mmu_walk m kd = mmu_walk (phys s) kd" "kstay kd s (s\<lparr>paddr_alloc := a, phys := m\<rparr>)"
proof -
  have po: "pool_ok (paddr_alloc s)" and idle: "mutex_idle Paddr_alloc_mutex s"
    and used: "used_of (paddr_alloc s) = {table_of (phys s) kd va | va. bit (pde_of (phys s) kd va) 0}"
    using ok unfolding kmap_ok_def by blast+
  show thesis
  proof (cases "bit (pde_of (phys s) kd va) 0")
    case True
    then have "table_of (phys s) kd va \<in> used_of (paddr_alloc s)" using used by blast
    from used_page [OF po this] True have f: "find_pte kd va 1 s = Done (slot (table_of (phys s) kd va) (pte_index va)) s"
      by (simp add: find_pte_def pde_ptr_slot pte_ptr_slot pde_present_def)
    show thesis by (rule that [of "phys s" "paddr_alloc s"])
      (use f True ok used_page [OF po \<open>table_of (phys s) kd va \<in> used_of (paddr_alloc s)\<close>] in \<open>simp_all add: kstay_refl\<close>)
  next
    case False
    then have "used_of (paddr_alloc s) \<noteq> pages_of (paddr_alloc s)" using rm by (simp add: room_def)
    from pool.take_some [OF po this] obtain p a where t: "take_page (paddr_alloc s) = Inr (p, a)" "pool_ok a"
      "p \<in> pages_of (paddr_alloc s) - used_of (paddr_alloc s)" "pages_of a = pages_of (paddr_alloc s)"
      "used_of a = insert p (used_of (paddr_alloc s))" by blast
    have p: "p \<noteq> 0" "take_bit 12 p = 0" using t(3) page_addr_facts [OF po] by (auto simp: pages_of_def)
    define m where "m = k_memset p 0 MEM_PAGE_SIZE (put32 (phys s) (slot kd (pde_index va)) (p OR (PDE_P OR PDE_W OR PDE_U)))"
    note n = kmap_new_table [OF ok False va p t(3,2,4,5) m_def]
    have "find_pte kd va 1 s = Done (slot p (pte_index va)) (s\<lparr>paddr_alloc := a, phys := m\<rparr>)"
      using False addr_alloc_idle [OF idle t(1)] p(1)
      by (simp add: find_pte_def pde_ptr_slot pte_ptr_slot pde_present_def m_def)
    then show thesis by (intro that [of m a]) (use n p(1) in simp_all)
  qed
qed

lemma kmap_step:
  assumes "kmap_ok kd s" "32 \<le> card (pages_of (paddr_alloc s))" "unat (pde_index va) < 32" "take_bit 12 pa = 0" "take_bit 12 perm = perm"
  obtains s' where "map_pages (Suc n) kd va pa perm s = map_pages n kd (va + MEM_PAGE_SIZE) (pa + MEM_PAGE_SIZE) perm s'"
    "kmap_ok kd s'" "mmu_walk (phys s') kd = map_page va pa (mmu_walk (phys s) kd)" "kstay kd s s'"
proof -
  obtain m a where 1: "find_pte kd va 1 s = Done (slot (table_of m kd va) (pte_index va)) (s\<lparr>paddr_alloc := a, phys := m\<rparr>)"
    "kmap_ok kd (s\<lparr>paddr_alloc := a, phys := m\<rparr>)" "bit (pde_of m kd va) 0" "table_of m kd va \<noteq> 0"
    "mmu_walk m kd = mmu_walk (phys s) kd" "kstay kd s (s\<lparr>paddr_alloc := a, phys := m\<rparr>)"
    by (rule kmap_find_pte [OF assms(1) kmap_room [OF assms(1-3)] assms(3)])
  define s1 where "s1 = s\<lparr>paddr_alloc := a, phys := m\<rparr>"
  define pte where "pte = slot (table_of m kd va) (pte_index va)"
  define s2 where "s2 = (if pte_present (mem32 m pte) then log_line ''error111'' [] s1 else s1)"
  let ?s = "s2\<lparr>phys := put32 m pte (pa OR perm OR PTE_P)\<rparr>"
  have nz: "pte \<noteq> 0" unfolding pte_def by (rule slot_not_null [OF table_aligned(1) 1(4) pte_index_bound])
  have s2: "phys s2 = m" "paddr_alloc s2 = a" "mutexes s2 = mutexes s" by (simp_all add: s2_def s1_def log_line_def)
  have run: "map_pages (Suc n) kd va pa perm s = map_pages n kd (va + MEM_PAGE_SIZE) (pa + MEM_PAGE_SIZE) perm ?s"
    using 1(1) nz s2 unfolding s1_def [symmetric] pte_def [symmetric] by (simp add: s2_def s1_def log_line_def Let_def)
  have sp: "space_ok m kd (insert kd (used_of a))" using kmap_space [OF 1(2)] by simp
  note e = set_entry [OF sp 1(3) assms(4,5) refl, folded pte_def]
  have td: "table_of m kd va \<noteq> kd" "take_bit 12 kd = 0" using sp 1(3) by (auto simp: space_ok_def)
  have pde: "pde_of (put32 m pte v) kd vb = pde_of m kd vb" for vb v
    unfolding pte_def by (rule slot_other_page [OF table_aligned(1) td(2,1) pde_index_bound put_slot_inside [OF pte_index_bound]])
  have "kmap_ok kd ?s" using 1(2) e(1) s2 by (simp add: kmap_ok_def pde mutex_idle_def)
  moreover have "mmu_walk (phys ?s) kd = map_page va pa (mmu_walk (phys s) kd)" using e(2) unfolding 1(5) by (simp add: map_page_def)
  moreover have "kstay kd s ?s"
  proof (rule kstay_trans [OF 1(6)])
    have "table_of m kd va \<in> used_of a" using sp 1(3) by (auto simp: space_ok_def)
    moreover have "pool_ok a" using 1(2) by (simp add: kmap_ok_def)
    ultimately have "table_of m kd va \<in> pages_of a" using pool.used_pages by blast
    then have "outside (insert kd (pages_of a)) m (put32 m pte (pa OR perm OR PTE_P))"
      by (intro outside_page [of "table_of m kd va"]) (auto simp: pte_def put_slot_inside [OF pte_index_bound])
    then show "kstay kd (s\<lparr>paddr_alloc := a, phys := m\<rparr>) ?s" by (simp add: kstay_def vm_pages_def s2(2))
  qed
  ultimately show thesis using that [OF run] by blast
qed

lemma pde_below: "unat va < 2 ^ 27 \<Longrightarrow> unat (pde_index va) < 32"
  by (simp add: pde_index_def drop_bit_eq_div unat_div)

lemma kmap_pages:
  assumes "kmap_ok kd s" "32 \<le> card (pages_of (paddr_alloc s))" "unat va + 4096 * n \<le> 2 ^ 27" "take_bit 12 pa = 0" "take_bit 12 perm = perm"
  shows "\<exists>s'. map_pages n kd va pa perm s = Done 0 s' \<and> kmap_ok kd s' \<and>
     mmu_walk (phys s') kd = map_range n va pa (mmu_walk (phys s) kd) \<and> kstay kd s s'"
  using assms
proof (induction n arbitrary: va pa s)
  case 0
  then show ?case by (auto intro: kstay_refl)
next
  case (Suc n)
  have "unat va < 2 ^ 27" using Suc.prems(3) by simp
  from kmap_step [OF Suc.prems(1,2) pde_below [OF this] Suc.prems(4,5)] obtain s1 where
    1: "map_pages (Suc n) kd va pa perm s = map_pages n kd (va + MEM_PAGE_SIZE) (pa + MEM_PAGE_SIZE) perm s1"
    "kmap_ok kd s1" "mmu_walk (phys s1) kd = map_page va pa (mmu_walk (phys s) kd)" "kstay kd s s1" by blast
  note pages = kstay_pages [OF 1(4)]
  have "unat (va + MEM_PAGE_SIZE) + 4096 * n \<le> 2 ^ 27" using Suc.prems(3) by (simp add: MEM_PAGE_SIZE_def unat_word_ariths)
  from Suc.IH [OF 1(2) _ this next_page_aligned [OF Suc.prems(4)] Suc.prems(5)] 1(1,3) pages Suc.prems(2)
  show ?case by (auto intro: kstay_trans [OF 1(4)])
qed

subsection \<open>The map of the kernel\<close>

text \<open>An entry of the map that maps whole pages to themselves, below 128 MB.\<close>

definition entry_ok :: "memory_map_t \<Rightarrow> bool" where
  "entry_ok e \<longleftrightarrow> mm_pstart e = mm_vstart e \<and> take_bit 12 (mm_vstart e) = 0 \<and> unat (mm_vstart e) \<le> unat (mm_vend e) \<and>
     unat (mm_vend e) \<le> 2 ^ 27 \<and> take_bit 12 (mm_perm e) = mm_perm e"

definition page_end :: "u32 \<Rightarrow> nat" where
  "page_end v = 4096 * ((unat v + 4095) div 4096)"

definition entry_span :: "memory_map_t \<Rightarrow> u32 set" where
  "entry_span e = span (unat (mm_vstart e)) (page_end (mm_vend e))"

lemma down2_page: "down2 v MEM_PAGE_SIZE = v AND NOT (mask 12)"
  by (simp add: down2_def MEM_PAGE_SIZE_def mask_eq_exp_minus_1)

lemma sint_small:
  assumes "unat (w :: u32) < 2 ^ 31" shows "sint w = int (unat w)"
proof -
  from assms have "int (unat w) < int (2 ^ 31)" by (simp only: of_nat_less_iff)
  then have "uint w < 2 ^ 31" by simp
  moreover have "- (2 ^ 31) \<le> uint w" by (rule order_trans [of _ 0]) simp_all
  ultimately have "signed_take_bit 31 (uint w) = uint w" by (intro signed_take_bit_int_eq_self)
  then show ?thesis by (simp add: sint_uint)
qed

lemma page_floor: "unat (x AND NOT (mask 12) :: u32) = 4096 * (unat x div 4096)"
proof -
  let ?y = "x AND NOT (mask 12)"
  have "take_bit 12 ?y = 0" by (rule bit_word_eqI) (auto simp: bit_simps)
  moreover have "drop_bit 12 ?y = drop_bit 12 x" by (rule bit_word_eqI) (auto simp: bit_simps dest: bit_imp_le_length)
  ultimately have "unat ?y mod 4096 = 0" "unat ?y div 4096 = unat x div 4096"
    unfolding aligned_unat by (simp_all add: word_unat_eq_iff drop_bit_eq_div unat_div)
  then show ?thesis by (metis mult_div_mod_eq add.right_neutral)
qed

lemma page_end_bounds: "unat v \<le> page_end v" "unat v \<le> 4096 * k \<Longrightarrow> page_end v \<le> 4096 * k"
proof -
  show "unat v \<le> page_end v" using dividend_less_times_div [of 4096 "unat v + 4095"] by (simp add: page_end_def)
  assume "unat v \<le> 4096 * k"
  then have "(unat v + 4095) div 4096 \<le> k" by (simp add: div_le_mono2 less_Suc_eq_le [symmetric] div_less_iff_less_mult)
  then show "page_end v \<le> 4096 * k" by (simp add: page_end_def)
qed

lemma up2_page_end: "unat v \<le> 2 ^ 27 \<Longrightarrow> unat (up2 v MEM_PAGE_SIZE) = page_end v"
proof -
  assume v: "unat v \<le> 2 ^ 27"
  have "up2 v MEM_PAGE_SIZE = (v + 4095) AND NOT (mask 12)"
    by (simp add: up2_def MEM_PAGE_SIZE_def mask_eq_exp_minus_1 add_diff_eq [symmetric])
  moreover have "unat (v + 4095) = unat v + 4095" using v by (simp add: unat_word_ariths)
  ultimately show ?thesis by (simp add: page_floor page_end_def)
qed

lemma sdiv_4096: "int m sdiv 4096 = int (m div 4096)"
  by (cases "m = 0") (simp_all add: signed_divide_int_def zdiv_int)

lemma create_maps_entries:
  assumes "kmap_ok kd s" "32 \<le> card (pages_of (paddr_alloc s))" "mmu_walk (phys s) kd = ident A" "\<And>e. e \<in> set es \<Longrightarrow> entry_ok e"
  shows "\<exists>s'. create_maps kd es s = Done () s' \<and> kmap_ok kd s' \<and> mmu_walk (phys s') kd = ident (A \<union> (\<Union>e \<in> set es. entry_span e)) \<and>
     kstay kd s s'"
  using assms
proof (induction es arbitrary: s A)
  case Nil
  then show ?case by (auto intro: kstay_refl)
next
  case (Cons e es)
  let ?v = "mm_vstart e" and ?n = "(page_end (mm_vend e) - unat (mm_vstart e)) div 4096"
  have e: "mm_pstart e = ?v" "take_bit 12 ?v = 0" "unat ?v \<le> unat (mm_vend e)" "unat (mm_vend e) \<le> 2 ^ 27" "take_bit 12 (mm_perm e) = mm_perm e"
    using Cons.prems(4) [of e] by (simp_all add: entry_ok_def)
  have hi: "page_end (mm_vend e) \<le> 2 ^ 27" "unat (mm_vend e) \<le> page_end (mm_vend e)"
    using page_end_bounds(2) [of "mm_vend e" "2 ^ 15"] page_end_bounds(1) e(4) by simp_all
  have v: "down2 ?v MEM_PAGE_SIZE = ?v" using offset_add(2) [OF e(2), of 0] by (simp add: down2_page)
  have s: "sint ?v = int (unat ?v)" "sint (up2 (mm_vend e) MEM_PAGE_SIZE) = int (page_end (mm_vend e))"
    using sint_small [of ?v] sint_small [of "up2 (mm_vend e) MEM_PAGE_SIZE"] up2_page_end [OF e(4)] e(3,4) hi(1) by simp_all
  have len: "unat ?v + 4096 * ?n = page_end (mm_vend e)"
  proof -
    have "unat ?v mod 4096 = 0" "page_end (mm_vend e) mod 4096 = 0" using e(2) by (simp_all add: aligned_unat page_end_def)
    then have "(page_end (mm_vend e) - unat ?v) mod 4096 = 0" by (metis mod_eq_0_iff_dvd dvd_diff_nat)
    then have "4096 * ?n = page_end (mm_vend e) - unat ?v" by (metis mult_div_mod_eq add.right_neutral)
    then show ?thesis using e(3) hi(2) by simp
  qed
  have "int (page_end (mm_vend e)) - int (unat ?v) = int (page_end (mm_vend e) - unat ?v)" using e(3) hi(2) by simp
  then have cnt: "(int (page_end (mm_vend e)) - int (unat ?v)) sdiv 4096 = int ?n" by (simp only: sdiv_4096)
  have "unat ?v + 4096 * ?n \<le> 2 ^ 27" using len hi(1) by simp
  from kmap_pages [OF Cons.prems(1,2) this e(2,5)] obtain s1 where
    1: "map_pages ?n kd ?v ?v (mm_perm e) s = Done 0 s1" "kmap_ok kd s1" "mmu_walk (phys s1) kd = map_range ?n ?v ?v (ident A)"
    "kstay kd s s1" unfolding Cons.prems(3) by blast
  note pages = kstay_pages [OF 1(4)]
  have "mmu_walk (phys s1) kd = ident (A \<union> entry_span e)"
    using 1(3) map_range_ident [OF e(2), of ?n A] hi(1) unfolding len entry_span_def by simp
  from Cons.IH [OF 1(2) _ this] obtain s' where
    2: "create_maps kd es s1 = Done () s'" "kmap_ok kd s'" "mmu_walk (phys s') kd = ident (A \<union> entry_span e \<union> (\<Union>e \<in> set es. entry_span e))"
    "kstay kd s1 s'" using Cons.prems(2,4) pages by auto
  have "create_maps kd (e # es) s = Done () s'"
    using 1(1) 2(1) e(1) by (simp add: s cnt [folded uint_nat] v memory_create_map_def Let_def)
  then show ?case using 2(2,3) kstay_trans [OF 1(4) 2(4)] by (auto simp: Un_assoc)
qed

subsection \<open>The whole of memory_init\<close>

text \<open>The pool with \<open>k\<close> pages, all of them free.\<close>

definition fresh_pool :: "nat \<Rightarrow> u32 \<Rightarrow> addr_alloc_t" where
  "fresh_pool k sz = \<lparr>aa_bitmap = \<lparr>bit_count = int k, bits = replicate (nat (bitmap_byte_count (int k))) 0\<rparr>,
     aa_start = MEM_EXT_START, aa_size = sz, aa_page_size = MEM_PAGE_SIZE\<rparr>"

lemma fresh_pool_facts:
  assumes "0x100000 + 4096 * k \<le> 2 ^ 31"
  shows "pool_ok (fresh_pool k sz)" "used_of (fresh_pool k sz) = {}" "card (pages_of (fresh_pool k sz)) = k"
    "p \<in> pages_of (fresh_pool k sz) \<Longrightarrow> 0x100000 \<le> unat p"
proof -
  let ?a = "fresh_pool k sz"
  show ok: "pool_ok ?a" using assms by (simp add: fresh_pool_def pool_ok_def bitmap_ok_def bitmap_byte_count_def MEM_EXT_START_def)
  have len: "length (page_used ?a) = k" by (simp add: fresh_pool_def)
  have free: "\<not> page_used ?a ! i" if i: "i < k" for i
  proof -
    have "i div 8 < nat (bitmap_byte_count (int k))" using i unfolding bitmap_byte_count_def by linarith
    then have "bits (aa_bitmap ?a) ! (i div 8) = 0" by (simp add: fresh_pool_def)
    moreover have "page_used ?a ! i = bit_at (aa_bitmap ?a) i" by (rule nth_bits_of) (use i in \<open>simp add: fresh_pool_def\<close>)
    ultimately show ?thesis by (simp add: bit_at_def)
  qed
  then show "used_of ?a = {}" unfolding used_of_def len by auto
  have "inj_on (page_addr ?a) {..<k}" using page_addr_inj [OF ok] len by (auto intro!: inj_onI)
  then show "card (pages_of ?a) = k" unfolding pages_of_def len by (simp add: card_image)
  assume "p \<in> pages_of ?a"
  then obtain i where i: "i < length (page_used ?a)" "p = page_addr ?a i" unfolding pages_of_def by blast
  then show "0x100000 \<le> unat p" using page_addr_unat [OF ok i(1)] by (simp add: fresh_pool_def MEM_EXT_START_def)
qed

lemma fresh_kmap:
  assumes "take_bit 12 kd = 0" "kd \<noteq> 0" "kd < MEM_EXT_START" "0x100000 + 4096 * k \<le> 2 ^ 31"
    and s: "paddr_alloc s = fresh_pool k sz" "phys s = k_memset kd 0 MEM_PAGE_SIZE m" "mutex_idle Paddr_alloc_mutex s"
  shows "kmap_ok kd s" "mmu_walk (phys s) kd = ident {}"
proof -
  note f = fresh_pool_facts [OF assms(4), where sz = sz]
  have pde: "pde_of (phys s) kd va = 0" for va unfolding s(2) by (rule zero_page_slot [OF assms(2) pde_index_bound])
  have "kd \<notin> pages_of (fresh_pool k sz)" using f(4) [where p = kd] assms(3) by (auto simp: MEM_EXT_START_def word_less_nat_alt)
  then show "kmap_ok kd s" using f(1,2) s(1,3) assms(1) by (simp add: kmap_ok_def space_ok_def pde)
  show "mmu_walk (phys s) kd = ident {}" by (simp add: fun_eq_iff mmu_walk_eq pde ident_def)
qed

text \<open>What the kernel's directory maps to itself.\<close>

definition kernel_regions :: "link_t \<Rightarrow> u32 set" where
  "kernel_regions lk = {va. va < lk_s_text lk} \<union> span (unat (lk_s_text lk)) (page_end (lk_e_text lk)) \<union>
     {va. lk_s_data lk \<le> va \<and> va < MEM_EBDA_START} \<union> {va. CONSOLE_DISP_START \<le> va \<and> va < CONSOLE_DISP_END} \<union>
     {va. MEM_EXT_START \<le> va \<and> va < MEM_EXT_END}"

text \<open>The addresses the linker script gives.\<close>

definition linked :: "link_t \<Rightarrow> bool" where
  "linked lk \<longleftrightarrow> lk_kernel_base lk = 0 \<and> take_bit 12 (lk_s_text lk) = 0 \<and> take_bit 12 (lk_s_data lk) = 0 \<and>
     lk_s_text lk \<le> lk_e_text lk \<and> lk_e_text lk \<le> MEM_EBDA_START \<and> lk_s_data lk \<le> MEM_EBDA_START \<and>
     take_bit 12 (lk_kernel_page_dir lk) = 0 \<and> lk_kernel_page_dir lk \<noteq> 0 \<and> lk_kernel_page_dir lk < MEM_EXT_START"

lemma page_end_aligned: "take_bit 12 v = 0 \<Longrightarrow> page_end v = unat v"
  by (auto simp: page_end_def aligned_unat mod_eq_0_iff_dvd)

lemma kernel_map_spans:
  assumes "linked lk"
  shows "e \<in> set (kernel_map lk) \<Longrightarrow> entry_ok e" "(\<Union>e \<in> set (kernel_map lk). entry_span e) = kernel_regions lk"
proof -
  have l: "lk_kernel_base lk = 0" "take_bit 12 (lk_s_text lk) = 0" "take_bit 12 (lk_s_data lk) = 0" "unat (lk_s_text lk) \<le> unat (lk_e_text lk)"
    "unat (lk_e_text lk) \<le> 0x80000" "unat (lk_s_data lk) \<le> 0x80000"
    using assms by (simp_all add: linked_def MEM_EBDA_START_def word_le_nat_alt)
  show "entry_ok e" if "e \<in> set (kernel_map lk)"
    using that l unfolding kernel_map_def
    by (auto simp: entry_ok_def PTE_W_def MEM_EBDA_START_def CONSOLE_DISP_START_def CONSOLE_DISP_END_def MEM_EXT_START_def MEM_EXT_END_def)
  have c: "page_end MEM_EBDA_START = unat MEM_EBDA_START" "page_end CONSOLE_DISP_END = unat CONSOLE_DISP_END" "page_end MEM_EXT_END = unat MEM_EXT_END"
    by (rule page_end_aligned; simp add: MEM_EBDA_START_def CONSOLE_DISP_END_def MEM_EXT_END_def)+
  show "(\<Union>e \<in> set (kernel_map lk). entry_span e) = kernel_regions lk"
    by (auto simp: kernel_map_def entry_span_def kernel_regions_def c page_end_aligned [OF l(2)] l(1) span_def word_le_nat_alt word_less_nat_alt)
qed

lemma kmap_kernel_ok:
  assumes "kmap_ok kd s" shows "kernel_ok {} kd s"
proof -
  have "space_ok (phys s) kd (insert kd (used_of (paddr_alloc s)))" by (rule kmap_space [OF assms])
  moreover have "kd \<notin> pages_of (paddr_alloc s)" "used_of (paddr_alloc s) = {table_of (phys s) kd va | va. bit (pde_of (phys s) kd va) 0}"
    using assms unfolding kmap_ok_def by blast+
  ultimately show ?thesis unfolding kernel_ok_def space_ok_def by blast
qed

lemma kmap_free:
  assumes "kmap_ok kd s" "32 < card (pages_of (paddr_alloc s))"
  shows "0 < free_count (paddr_alloc s)"
proof -
  have "pool_ok (paddr_alloc s)" using assms(1) unfolding kmap_ok_def by blast
  then have "used_of (paddr_alloc s) \<subseteq> pages_of (paddr_alloc s)" "finite (pages_of (paddr_alloc s))"
    by (rule pool.used_pages, rule pool.finite_pages)
  then have "free_count (paddr_alloc s) = card (pages_of (paddr_alloc s)) - card (used_of (paddr_alloc s))"
    unfolding free_count_def by (intro card_Diff_subset) (auto intro: finite_subset)
  then show ?thesis using assms(2) kmap_few [OF assms(1)] by simp
qed

text \<open>The allocator that \<open>memory_init\<close> makes from the memory map.\<close>

lemma memory_init_pool:
  assumes "0x100000 \<le> unat (total_mem_size bi)" "unat (total_mem_size bi) \<le> 2 ^ 31"
    and k: "k = (unat (total_mem_size bi) - 0x100000) div 4096" and sz: "sz = down2 (total_mem_size bi - MEM_EXT_START) MEM_PAGE_SIZE"
  shows "sint (sz div MEM_PAGE_SIZE) = int k" "0x100000 + 4096 * k \<le> 2 ^ 31"
    "addr_alloc_init (load_bytes m p (nat (bitmap_byte_count (int k)))) MEM_EXT_START sz MEM_PAGE_SIZE s =
       Inr ((mutex_init Paddr_alloc_mutex s)\<lparr>paddr_alloc := fresh_pool k sz\<rparr>)"
proof -
  have "unat (total_mem_size bi - MEM_EXT_START) = unat (total_mem_size bi) - 0x100000"
    using assms(1) by (simp add: MEM_EXT_START_def unat_sub word_le_nat_alt)
  then have "unat sz = 4096 * k" by (simp add: sz down2_page page_floor k)
  then have d: "unat (sz div MEM_PAGE_SIZE) = k" by (simp add: unat_div MEM_PAGE_SIZE_def)
  have le: "4096 * k \<le> unat (total_mem_size bi) - 0x100000" unfolding k by (rule times_div_less_eq_dividend)
  then show "0x100000 + 4096 * k \<le> 2 ^ 31" using assms(1,2) by simp
  then show n: "sint (sz div MEM_PAGE_SIZE) = int k" using sint_small [of "sz div MEM_PAGE_SIZE"] d by simp
  show "addr_alloc_init (load_bytes m p (nat (bitmap_byte_count (int k)))) MEM_EXT_START sz MEM_PAGE_SIZE s =
      Inr ((mutex_init Paddr_alloc_mutex s)\<lparr>paddr_alloc := fresh_pool k sz\<rparr>)"
    by (simp add: addr_alloc_init_def bitmap_init_def n fresh_pool_def load_bytes_def Let_def)
qed

lemma kernel_low: "linked lk \<Longrightarrow> va \<in> kernel_regions lk \<Longrightarrow> va < MEMORY_TASK_BASE"
proof -
  assume lk: "linked lk" and va: "va \<in> kernel_regions lk"
  then obtain e where e: "entry_ok e" "va \<in> entry_span e" using kernel_map_spans [OF lk] by blast
  have "page_end (mm_vend e) \<le> 2 ^ 27" using page_end_bounds(2) [of "mm_vend e" "2 ^ 15"] e(1) by (simp add: entry_ok_def)
  then show ?thesis using e(2) by (simp add: entry_span_def span_def word_less_nat_alt MEMORY_TASK_BASE_def)
qed

definition boot_link :: link_t where
  "boot_link = no_link\<lparr>lk_s_text := 0x10000, lk_e_text := 0x1f123, lk_s_data := 0x20000, lk_kernel_page_dir := 0x40000\<rparr>"

definition two_regions :: boot_info_t where
  "two_regions = \<lparr>ram_region_cfg = [(0, 0x9fc00), (0x100000, 0x7f00000)], ram_region_count = 2\<rparr>"

lemma fresh_pool_mapped:
  assumes "0x100000 + 4096 * k \<le> 2 ^ 27" "p \<in> pages_of (fresh_pool k sz)"
  shows "region p 4096 \<subseteq> kernel_regions lk"
proof
  fix x assume "x \<in> region p 4096"
  then obtain j where j: "j < 4096" "x = p + of_nat j" by (auto simp: region_def)
  have "0x100000 + 4096 * k \<le> 2 ^ 31" using assms(1) by simp
  note ok = fresh_pool_facts(1) [OF this, where sz = sz]
  obtain i where i: "i < length (page_used (fresh_pool k sz))" "p = page_addr (fresh_pool k sz) i" using assms(2) unfolding pages_of_def by blast
  then have "unat p = 0x100000 + 4096 * i" "i < k" using page_addr_unat [OF ok i(1)] by (simp_all add: fresh_pool_def MEM_EXT_START_def)
  then have "unat x = 0x100000 + 4096 * i + j" "4096 * i + j < 4096 * k" using assms(1) j by (simp_all add: unat_word_ariths unat_of_nat)
  then show "x \<in> kernel_regions lk" using assms(1)
    by (simp add: kernel_regions_def word_le_nat_alt word_less_nat_alt MEM_EXT_START_def MEM_EXT_END_def)
qed

lemma vm_only_show: "vm_only s (show_mem_info bi s)"
proof -
  have r: "vm_only s (show_regions i rs s)" for i rs and s :: "'a mem_state_scheme"
  proof (induction rs arbitrary: i s)
    case (Cons a rs)
    then show ?case by (cases a) (auto intro: vm_only_trans [OF vm_only_ops(3)])
  qed simp
  show ?thesis unfolding show_mem_info_def
    by (rule vm_only_trans [OF vm_only_trans [OF vm_only_ops(3) r] vm_only_ops(3)])
qed

lemma show_regions_phys: "phys (show_regions i rs s) = phys s"
  by (induction rs arbitrary: i s) (auto simp: log_line_def)

lemma vm_out_create_maps: "vm_out s (create_maps dir es s)"
  by (induction es arbitrary: s) (auto simp: Let_def intro!: vm_out_bind vm_out_create_map)

text \<open>The state after \<open>memory_init\<close>; apart from the page tables and the log it differs from the one before by the initialised
  mutex and the loaded directory only.\<close>

lemma memory_init_done:
  assumes "linked lk" "0x121000 \<le> unat (total_mem_size bi)" "unat (total_mem_size bi) \<le> 2 ^ 27"
    and k_def: "k = (unat (total_mem_size bi) - 0x100000) div 4096"
  obtains s' sz where "memory_init lk bi s = Done () s'" "kmap_ok (lk_kernel_page_dir lk) s'" "cr3 s' = lk_kernel_page_dir lk"
    "mmu_walk (phys s') (lk_kernel_page_dir lk) = ident (kernel_regions lk)" "pages_of (paddr_alloc s') = pages_of (fresh_pool k sz)"
    "vm_only ((mutex_init Paddr_alloc_mutex s)\<lparr>cr3 := lk_kernel_page_dir lk\<rparr>) s'" "outside (vm_pages (lk_kernel_page_dir lk) s') (phys s) (phys s')"
    "33 \<le> k" "0x100000 + 4096 * k \<le> 2 ^ 27" "card (pages_of (paddr_alloc s')) = k"
proof -
  let ?kd = "lk_kernel_page_dir lk" and ?m = "mutex_init Paddr_alloc_mutex"
  define sz where "sz = down2 (total_mem_size bi - MEM_EXT_START) MEM_PAGE_SIZE"
  define s2 where "s2 = log_line ''free memory: 0x%x, size: 0x%x'' [VInt (sint MEM_EXT_START), VInt (sint sz)]
     (show_mem_info bi (log_line ''memory init'' [] s))"
  define s3 where "s3 = (?m s2)\<lparr>paddr_alloc := fresh_pool k sz\<rparr>"
  define s4 where "s4 = (if lk_mem_free_start lk + of_int (bitmap_byte_count (int k)) < 0x800000 then log_line ''simple test ok!'' [] s3 else s3)"
  define s5 where "s5 = s4\<lparr>phys := k_memset ?kd 0 MEM_PAGE_SIZE (phys s4)\<rparr>"
  have k: "33 \<le> k" using assms(2) unfolding k_def by linarith
  have "4096 * k \<le> unat (total_mem_size bi) - 0x100000" unfolding k_def by (rule times_div_less_eq_dividend)
  then have small: "0x100000 + 4096 * k \<le> 2 ^ 27" using assms(2,3) by simp
  have "0x100000 \<le> unat (total_mem_size bi)" "unat (total_mem_size bi) \<le> 2 ^ 31" using assms(2,3) by simp_all
  note p = memory_init_pool [OF this k_def sz_def]
  have l: "take_bit 12 ?kd = 0" "?kd \<noteq> 0" "?kd < MEM_EXT_START" using assms(1) by (simp_all add: linked_def)
  have s5: "paddr_alloc s5 = fresh_pool k sz" "phys s5 = k_memset ?kd 0 MEM_PAGE_SIZE (phys s4)" "mutex_idle Paddr_alloc_mutex s5"
    by (simp_all add: s5_def s4_def s3_def mutex_idle_def mutex_init_def upd_mutex_def log_line_def list_count_def list_init_def)
  note ok = fresh_kmap [OF l p(2) s5]
  have card: "card (pages_of (paddr_alloc s5)) = k" unfolding s5(1) by (rule fresh_pool_facts(3) [OF p(2)])
  obtain s6 where 6: "create_maps ?kd (kernel_map lk) s5 = Done () s6" "kmap_ok ?kd s6" "mmu_walk (phys s6) ?kd = ident (kernel_regions lk)"
    "kstay ?kd s5 s6"
    using create_maps_entries [OF ok(1) _ ok(2) kernel_map_spans(1) [OF assms(1)], of "kernel_map lk"] card k kernel_map_spans(2) [OF assms(1)] by auto
  let ?s = "mmu_set_page_dir ?kd s6"
  have sel: "phys ?s = phys s6" "paddr_alloc ?s = paddr_alloc s6" "mutexes ?s = mutexes s6" "cr3 ?s = ?kd" by (simp_all add: mmu_set_page_dir_def)
  have run: "memory_init lk bi s = Done () ?s"
    using 6(1) [unfolded s5_def s4_def] by (simp add: memory_init_def Let_def sz_def [symmetric] s2_def [symmetric] p(1,3) s3_def [symmetric]
      PDE_CNT_def MEM_PAGE_SIZE_def [symmetric] create_kernel_table_def split: if_splits)
  have ok6: "kmap_ok ?kd ?s" using 6(2) unfolding kmap_ok_def sel mutex_idle_def .
  have "vm_only s s2" unfolding s2_def by (rule vm_only_trans [OF vm_only_trans [OF vm_only_ops(3) vm_only_show] vm_only_ops(3)])
  then obtain a m g where s2: "s2 = s\<lparr>paddr_alloc := a, phys := m, klogs := g\<rparr>" unfolding vm_only_def by blast
  have vs: "phys s2 = phys s" by (simp add: s2_def show_mem_info_def log_line_def show_regions_phys)
  have "vm_only (?m s) s3" unfolding vm_only_def s3_def s2
    by (intro exI [of _ "fresh_pool k sz"] exI [of _ m] exI [of _ g]) (simp add: mutex_init_def upd_mutex_def)
  then have "vm_only (?m s) s4" unfolding s4_def using vm_only_trans [OF _ vm_only_ops(3)] by auto
  then have "vm_only (?m s) s5" unfolding s5_def by (rule vm_only_trans [OF _ vm_only_ops(2)])
  moreover have "vm_only s5 s6" using vm_out_create_maps [of s5 ?kd "kernel_map lk"] 6(1) s5(3) by (simp add: vm_out_def)
  ultimately have "vm_only (?m s) s6" by (rule vm_only_trans)
  then obtain a6 m6 g6 where "s6 = (?m s)\<lparr>paddr_alloc := a6, phys := m6, klogs := g6\<rparr>" unfolding vm_only_def by blast
  then have "?s = ((?m s)\<lparr>cr3 := ?kd\<rparr>)\<lparr>paddr_alloc := a6, phys := m6, klogs := g6\<rparr>" by (simp add: mmu_set_page_dir_def)
  then have vm: "vm_only ((?m s)\<lparr>cr3 := ?kd\<rparr>) ?s" unfolding vm_only_def by blast
  have "phys s4 = phys s" using vs by (simp add: s4_def s3_def mutex_init_def upd_mutex_def log_line_def)
  then have "outside (vm_pages ?kd s5) (phys s) (phys s5)"
    unfolding s5(2) by (intro outside_page [of ?kd]) (use zero_page(2) [OF l(2)] in \<open>auto simp: vm_pages_def\<close>)
  moreover have "outside (vm_pages ?kd s5) (phys s5) (phys s6)" "pages_of (paddr_alloc s6) = pages_of (paddr_alloc s5)"
    using 6(4) by (simp_all add: kstay_def)
  ultimately have out: "outside (vm_pages ?kd ?s) (phys s) (phys ?s)" "pages_of (paddr_alloc ?s) = pages_of (fresh_pool k sz)"
    using outside_trans by (auto simp: vm_pages_def sel s5(1))
  show thesis by (rule that [OF run ok6]) (use sel 6(3) vm out k small card s5(1) in simp_all)
qed

text \<open>C15: the memory after the start.  On a machine with at least 33 pages above 1 MB and at most 128 MB, and with the addresses the
  linker script gives, \<open>memory_init\<close> returns with its directory loaded; the processor then translates exactly the
  addresses of the kernel's code and data, of the display and of the memory from 1 MB to 128 MB, each to itself; the
  pool holds the pages from 1 MB to the end of the memory, all of them mapped to themselves, and at most 32 of them are
  in use, the tables of the kernel;
  what the creation of address spaces expects of the kernel's directory holds; and the next address
  space that is created has exactly this map of the kernel and is empty otherwise.\<close>

theorem memory_init_maps_kernel:
  assumes "linked lk" "0x121000 \<le> unat (total_mem_size bi)" "unat (total_mem_size bi) \<le> 2 ^ 27"
  shows "\<exists>s'. memory_init lk bi s = Done () s' \<and> cr3 s' = lk_kernel_page_dir lk \<and>
     mmu_walk (phys s') (cr3 s') = (\<lambda>va. if va \<in> kernel_regions lk then Some va else None) \<and>
     pages_of (paddr_alloc s') = (\<lambda>i. MEM_EXT_START + of_nat i * MEM_PAGE_SIZE) ` {..<(unat (total_mem_size bi) - 0x100000) div 4096} \<and>
     (\<forall>p \<in> pages_of (paddr_alloc s'). region p 4096 \<subseteq> kernel_regions lk) \<and>
     card (used_of (paddr_alloc s')) \<le> 32 \<and> pool_ok (paddr_alloc s') \<and> mutex_idle Paddr_alloc_mutex s' \<and>
     kernel_ok {} (lk_kernel_page_dir lk) s' \<and>
     (\<exists>dir s''. memory_create_uvm lk s' = Done dir s'' \<and>
        mmu_walk (phys s'') dir = (\<lambda>va. if va \<in> kernel_regions lk then Some va else None))"
proof -
  let ?kd = "lk_kernel_page_dir lk"
  define k where "k = (unat (total_mem_size bi) - 0x100000) div 4096"
  obtain s' sz where 1: "memory_init lk bi s = Done () s'" "kmap_ok ?kd s'" "cr3 s' = ?kd" "mmu_walk (phys s') ?kd = ident (kernel_regions lk)"
    "pages_of (paddr_alloc s') = pages_of (fresh_pool k sz)" "33 \<le> k" "0x100000 + 4096 * k \<le> 2 ^ 27" "card (pages_of (paddr_alloc s')) = k"
    by (rule memory_init_done [OF assms k_def, of s]) blast
  have ok: "pool_ok (paddr_alloc s')" "mutex_idle Paddr_alloc_mutex s'" using 1(2) unfolding kmap_ok_def by blast+
  have free: "0 < free_count (paddr_alloc s')" by (rule kmap_free [OF 1(2)]) (use 1(6,8) in simp)
  have kern: "kernel_ok {} ?kd s'" by (rule kmap_kernel_ok [OF 1(2)])
  obtain dir s'' where c: "memory_create_uvm lk s' = Done dir s''"
    "\<forall>va. mmu_walk (phys s'') dir va = (if va < MEMORY_TASK_BASE then mmu_walk (phys s') ?kd va else None)"
    using create_uvm_eq [OF ok free _ kern] by fastforce
  have "mmu_walk (phys s'') dir = ident (kernel_regions lk)"
    using c(2) kernel_low [OF assms(1)] by (auto simp: fun_eq_iff 1(4) ident_def)
  moreover have "pages_of (paddr_alloc s') = (\<lambda>i. MEM_EXT_START + of_nat i * MEM_PAGE_SIZE) ` {..<k}"
    unfolding 1(5) by (simp add: pages_of_def page_addr_def fresh_pool_def)
  moreover have "\<forall>p \<in> pages_of (paddr_alloc s'). region p 4096 \<subseteq> kernel_regions lk"
    unfolding 1(5) using fresh_pool_mapped [OF 1(7), where sz = sz] by blast
  ultimately show ?thesis
    using 1(1,3,4) kmap_few [OF 1(2)] ok kern c(1) unfolding k_def ident_def by (intro exI [of _ s']) auto
qed

text \<open>A machine with 128 MB in two regions.\<close>

theorem memory_init_maps_kernel_witness:
  "\<exists>s' dir s''. memory_init boot_link two_regions (vm_start 0) = Done () s' \<and> mmu_walk (phys s') 0x40000 0x123456 = Some 0x123456 \<and>
     memory_create_uvm boot_link s' = Done dir s'' \<and> mmu_walk (phys s'') dir 0xb8010 = Some 0xb8010 \<and> mmu_walk (phys s'') dir 0xa0000 = None"
proof -
  have l: "linked boot_link" by (simp add: linked_def boot_link_def no_link_def MEM_EBDA_START_def MEM_EXT_START_def)
  have t: "total_mem_size two_regions = 0x7f9fc00" by (simp add: total_mem_size_def two_regions_def)
  have r: "0x123456 \<in> kernel_regions boot_link" "0xb8010 \<in> kernel_regions boot_link" "0xa0000 \<notin> kernel_regions boot_link"
    by (simp_all add: kernel_regions_def boot_link_def no_link_def span_def page_end_def MEM_EBDA_START_def CONSOLE_DISP_START_def
        CONSOLE_DISP_END_def MEM_EXT_START_def MEM_EXT_END_def)
  have "lk_kernel_page_dir boot_link = 0x40000" by (simp add: boot_link_def)
  with memory_init_maps_kernel [OF l, of two_regions "vm_start 0"] r show ?thesis by (fastforce simp: t)
qed

end
