(* ===== verification/Boot_Laws.thy ===== *)
theory Boot_Laws
  imports Boot Memory_Init_Laws Files_Laws Argument_Laws Kernel_Properties
begin

text \<open>
  The start of the kernel, from memory full of zeros to the first task: \<open>kernel_init\<close> and \<open>init_main\<close> establish the
  invariants that the other theories keep.  The descriptor table is filled from the front (\<open>gdt_taken\<close>), the
  drivers leave mutexes and semaphores quiet (\<open>boot_same\<close>), and the first task gets its address space and its
  program.
\<close>

subsection \<open>Descriptors\<close>

text \<open>Entries 1 to \<open>k - 1\<close> of the table are taken, the others are free.\<close>

definition gdt_taken :: "nat \<Rightarrow> segment_desc_t list \<Rightarrow> bool" where
  "gdt_taken k tab \<longleftrightarrow> length tab = GDT_TABLE_SIZE \<and> (\<forall>j < GDT_TABLE_SIZE. 0 < j \<longrightarrow> (sd_attr (tab ! j) = 0 \<longleftrightarrow> k \<le> j))"

lemma gdt_taken_free:
  assumes "gdt_taken k tab" "0 < k" "k < GDT_TABLE_SIZE"
  shows "free_desc 1 (drop 1 tab) = Some k"
proof (cases "free_desc 1 (drop 1 tab)")
  case None
  have "drop 1 tab ! (k - 1) \<in> set (drop 1 tab)" using assms by (intro nth_mem) (auto simp: gdt_taken_def)
  then show ?thesis using None assms by (auto simp: free_desc_None gdt_taken_def)
next
  case (Some i)
  from free_desc_Some [OF Some] assms have i: "1 \<le> i" "i < GDT_TABLE_SIZE" "sd_attr (tab ! i) = 0" "\<And>j. j < i - 1 \<Longrightarrow> sd_attr (tab ! Suc j) \<noteq> 0"
    by (auto simp: gdt_taken_def)
  have "k \<le> i" using i(1-3) assms(1) by (auto simp: gdt_taken_def)
  moreover have "\<not> k < i"
  proof
    assume "k < i"
    then have "k - 1 < i - 1" using assms(2) by linarith
    from i(4) [OF this] show False using assms by (simp add: gdt_taken_def)
  qed
  ultimately show ?thesis using Some by simp
qed

lemma gdt_taken_put: "gdt_taken k tab \<Longrightarrow> k < GDT_TABLE_SIZE \<Longrightarrow> sd_attr d \<noteq> 0 \<Longrightarrow> gdt_taken (Suc k) (tab[k := d])"
  by (auto simp: gdt_taken_def nth_list_update)

text \<open>A segment with the present bit is not free.\<close>

lemma segment_present: "bit attr 7 \<Longrightarrow> sd_attr (segment_desc base limit attr) \<noteq> 0"
proof -
  assume "bit attr 7"
  then have "bit (sd_attr (segment_desc base limit attr)) 7" by (auto simp: segment_desc_def Let_def bit_or_iff split: if_splits)
  then show ?thesis by auto
qed

lemma gdt_init_done:
  obtains t g where "gdt_init tb syscall s = Inr ((mutex_init Gdt_mutex s)\<lparr>gdt_table := t, gdtr := g\<rparr>)" "gdt_taken 4 t"
proof -
  let ?z = "segment_desc 0 0 0" and ?g = "gate_as_segment (gate_desc_set KERNEL_SELECTOR_CS syscall GATE_SYSCALL)"
  define attr where "attr ty = (SEG_P_PRESENT OR SEG_DPL0 OR SEG_S_NORMAL OR ty OR SEG_TYPE_RW OR SEG_D OR SEG_G :: u16)" for ty
  let ?d = "\<lambda>ty. segment_desc 0 0xFFFFFFFF (attr ty)"
  define t where "t = (replicate GDT_TABLE_SIZE ?z)[2 := ?d SEG_TYPE_DATA, 1 := ?d SEG_TYPE_CODE, 3 := ?g]"
  have n: "nat (KERNEL_SELECTOR_DS div 8) = 2" "nat (uint KERNEL_SELECTOR_CS div 8) = 1" "nat (SELECTOR_SYSCALL div 8) = 3"
    by (simp_all add: KERNEL_SELECTOR_DS_def SELECTOR_SYSCALL_def)
  have "gdt_init tb syscall s = Inr (lgdt tb (of_nat (GDT_TABLE_SIZE * 8)) ((mutex_init Gdt_mutex s)\<lparr>gdt_table := t\<rparr>))"
    unfolding gdt_init_def segment_desc_set_def Let_def n attr_def [symmetric]
    by (simp add: t_def GDT_TABLE_SIZE_def KERNEL_SELECTOR_DS_def)
  moreover have "gdt_taken 4 t"
  proof -
    have d: "sd_attr (?d ty) \<noteq> 0" for ty by (rule segment_present) (simp add: attr_def SEG_P_PRESENT_def bit_simps)
    have "bit (sd_attr ?g) 7" by (simp add: gate_as_segment_def gate_desc_set_def GATE_SYSCALL_def bit_simps)
    then have g: "sd_attr ?g \<noteq> 0" by auto
    have z: "sd_attr ?z = 0" by (simp add: segment_desc_def)
    have "sd_attr (t ! j) = 0 \<longleftrightarrow> 4 \<le> j" if j: "j < GDT_TABLE_SIZE" "0 < j" for j
    proof -
      consider "j = 1" | "j = 2" | "j = 3" | "4 \<le> j" using j(2) by linarith
      then show ?thesis by cases (use j(1) d g z in \<open>simp_all add: t_def GDT_TABLE_SIZE_def\<close>)
    qed
    then show ?thesis by (simp add: gdt_taken_def) (simp add: t_def)
  qed
  ultimately show thesis using that by (simp add: lgdt_def)
qed

lemma app_segment_done:
  assumes "mutex_idle Gdt_mutex s" "gdt_taken k (gdt_table s)" "0 < k" "k < GDT_TABLE_SIZE"
  obtains t where "app_segment ty s = Done (int k * 8) (s\<lparr>gdt_table := t\<rparr>)" "gdt_taken (Suc k) t"
proof -
  define attr where "attr = (SEG_P_PRESENT OR SEG_DPL3 OR SEG_S_NORMAL OR ty OR SEG_TYPE_RW OR SEG_D :: u16)"
  let ?d = "segment_desc 0 0xffffffff attr"
  have "sd_attr ?d \<noteq> 0" by (rule segment_present) (simp add: attr_def SEG_P_PRESENT_def bit_simps)
  from gdt_taken_put [OF assms(2,4) this] have "gdt_taken (Suc k) ((gdt_table s)[k := ?d])" .
  moreover have "k < length (gdt_table s)" using assms(2,4) by (simp add: gdt_taken_def)
  then have "segment_desc_set (int k * 8) 0 0xffffffff attr s = Inr (s\<lparr>gdt_table := (gdt_table s)[k := ?d]\<rparr>)"
    by (simp add: segment_desc_set_def)
  then have "app_segment ty s = Done (int k * 8) (s\<lparr>gdt_table := (gdt_table s)[k := ?d]\<rparr>)"
    unfolding app_segment_def gdt_alloc_idle [OF assms(1)] gdt_taken_free [OF assms(2-4)] attr_def by simp
  ultimately show thesis using that by blast
qed

lemma tss_desc_taken: "sd_attr (tss_desc lk t) \<noteq> 0"
  unfolding tss_desc_def by (rule segment_present) (simp add: SEG_P_PRESENT_def bit_simps)

subsection \<open>The drivers\<close>

text \<open>Nobody holds a mutex and nobody waits.\<close>

definition quiet :: "'a sync_state_scheme \<Rightarrow> bool" where
  "quiet s \<longleftrightarrow> (\<forall>m. mutexes s m = \<lparr>mx_owner = None, mx_locked_count = 0, mx_wait_list = list_init\<rparr>) \<and>
     (\<forall>i. 0 \<le> sm_count (sems s i) \<and> sm_wait_list (sems s i) = list_init)"

definition boot_same :: "'a fs_state_scheme \<Rightarrow> 'a fs_state_scheme \<Rightarrow> bool" where
  "boot_same s s' \<longleftrightarrow> gdt_table s' = gdt_table s \<and> length (idt_table s') = length (idt_table s) \<and> tasks s' = tasks s \<and>
     phys s' = phys s \<and> (quiet s \<longrightarrow> quiet s')"

lemma boot_same_refl [simp]: "boot_same s s"
  by (simp add: boot_same_def)

lemma boot_same_trans: "boot_same s s' \<Longrightarrow> boot_same s' s'' \<Longrightarrow> boot_same s s''"
  by (simp add: boot_same_def)

lemma quiet_idle: "quiet s \<Longrightarrow> mutex_idle m s"
  by (simp add: quiet_def mutex_idle_def list_init_def list_count_def)

lemma quiet_kinv:
  assumes "quiet s" "sched_rel s rs ss" "curr_task s = next_of rs"
  shows "kinv s rs ss (\<lambda>_. [])"
  using assms by (auto simp: kinv_def sync_rel_def wait_rel_def wait_sep_def sched_rel_def dispatched_def mutex_inv_def sem_inv_def
      quiet_def wait_list_def dll_init split: wq.splits)

lemma boot_same_ops:
  fixes s :: "'a fs_state_scheme"
  shows "boot_same s (outb p v s)" "boot_same s (snd (inb p s))" "boot_same s (irq_leave_proection st s)"
    "boot_same s (irq_disable_global s)" "boot_same s (upd_tty i g s)" "0 \<le> n \<Longrightarrow> boot_same s (sem_init sm n s)"
    "boot_same s (mutex_init m s)" "boot_same s (set_console i c s)" "boot_same s (set_screen i cv s)" "boot_same s (set_dev k d s)"
    "boot_same s (s\<lparr>kbd_inited := b\<rparr>)" "boot_same s (s\<lparr>idt_table := (idt_table s)[j := e]\<rparr>)" "boot_same s (log_line f args s)"
  by (simp_all add: boot_same_def quiet_def outb_def inb_def irq_leave_proection_def irq_disable_global_def log_line_def
      upd_tty_def sem_init_def upd_sem_def mutex_init_def upd_mutex_def set_console_def set_screen_def set_dev_def split: prod.splits)

lemmas boot_same_steps = boot_same_ops [THEN boot_same_trans [rotated]]

lemma boot_same_console:
  fixes s :: "'a fs_state_scheme"
  shows "boot_same s (snd (read_cursor_pos s))" "boot_same s (update_cursor_pos i s)" "boot_same s (console_init i s)"
    "boot_same s (irq_enable n s)"
proof -
  show r: "boot_same s (snd (read_cursor_pos s))" for s :: "'a fs_state_scheme"
    by (simp add: read_cursor_pos_def case_prod_unfold Let_def irq_enter_proection_def) (intro boot_same_steps boot_same_refl)
  show u: "boot_same s (update_cursor_pos i s)" for s :: "'a fs_state_scheme"
    by (simp add: update_cursor_pos_def case_prod_unfold Let_def irq_enter_proection_def) (intro boot_same_steps boot_same_refl)
  show "boot_same s (irq_enable n s)"
    by (simp add: irq_enable_def case_prod_unfold Let_def) (auto intro!: boot_same_steps)
  note steps = boot_same_steps r [THEN boot_same_trans [rotated]] u [THEN boot_same_trans [rotated]]
  show "boot_same s (console_init i s)"
    unfolding console_init_def Let_def case_prod_unfold by (auto intro!: steps)
qed

lemma irq_install_boot: "irq_install n h s = Inr (r, s') \<Longrightarrow> boot_same s s'"
  by (auto simp: irq_install_def boot_same_ops split: if_splits)

lemma kbd_init_boot: "kbd_init link s = Inr s' \<Longrightarrow> boot_same s s'"
  using boot_same_trans [OF boot_same_trans [OF irq_install_boot boot_same_console(4)] boot_same_ops(11)]
  by (auto simp: kbd_init_def res_bind_eq_Inr split: if_splits) blast

lemma tty_open_boot:
  fixes s :: "'a fs_state_scheme"
  assumes "tty_open link d s = Inr (r, s')"
  shows "boot_same s s'"
proof (cases "dv_minor d < 0 \<or> dv_minor d \<ge> 8")
  case True
  then show ?thesis using assms boot_same_ops(13) by (auto simp: tty_open_def)
next
  case False
  let ?i = "nat (dv_minor d)"
  let ?s = "upd_tty ?i (\<lambda>t. t\<lparr>oflags := TTY_OCRLF, iflags := TTY_IECHO, console_idx := ?i\<rparr>)
      (sem_init (Isem ?i) 0 (sem_init (Osem ?i) TTY_OBUF_SIZE
        (upd_tty ?i (\<lambda>t. t\<lparr>ififo := tty_fifo_init (ff_buf (ififo t)) TTY_IBUF_SIZE,
                           ofifo := tty_fifo_init (ff_buf (ofifo t)) TTY_OBUF_SIZE\<rparr>) s)))"
  have "boot_same s ?s" by (intro boot_same_steps boot_same_refl) (simp_all add: TTY_OBUF_SIZE_def)
  moreover obtain s4 where s4: "kbd_init link ?s = Inr s4" "s' = console_init ?i s4"
    using assms False by (auto simp: tty_open_def Let_def res_bind_eq_Inr)
  ultimately show ?thesis using kbd_init_boot [OF s4(1)] boot_same_console(3) unfolding s4(2) by (blast intro: boot_same_trans)
qed

lemma dev_open_boot:
  fixes s :: "'a fs_state_scheme"
  assumes "dev_open link major minor data s = Inr (r, s')"
  shows "boot_same s s'"
proof -
  define s1 where "s1 = irq_disable_global s"
  have s1: "boot_same s s1" "irq_enter_proection s = (eflags s, s1)" by (simp_all add: s1_def boot_same_ops irq_enter_proection_def)
  note steps = boot_same_ops(3,10) [THEN boot_same_trans [rotated]]
  obtain f where f: "dev_scan major minor 0 None (dev_tb s1) = Inr f"
    using assms unfolding dev_open_def s1(2) by (auto simp: res_bind_eq_Inr)
  show ?thesis
  proof (cases f)
    case (Inl i)
    then show ?thesis using assms f unfolding dev_open_def s1(2) by (auto intro!: steps s1(1))
  next
    case (Inr free)
    show ?thesis
    proof (cases "find (\<lambda>d. desc_major d = major) dev_desc_tb")
      case None
      then show ?thesis using assms f Inr unfolding dev_open_def s1(2) by (auto intro!: steps s1(1))
    next
      case (Some desc)
      show ?thesis
      proof (cases free)
        case None
        then show ?thesis using assms f Inr Some unfolding dev_open_def s1(2) by (auto intro!: steps s1(1))
      next
        case free: (Some i)
        let ?d = "(dev_tb s1 ! i)\<lparr>dv_minor := minor, dv_data := data, dv_desc := Some desc\<rparr>"
        obtain err s3 where 3: "tty_open link ?d (set_dev i ?d s1) = Inr (err, s3)"
          "s' = irq_leave_proection (eflags s) (if err = 0 then set_dev i (?d\<lparr>dv_open_count := 1\<rparr>) s3 else s3)"
          using assms f Inr Some free unfolding dev_open_def s1(2)
          by (cases desc) (auto simp: desc_open_def Let_def res_bind_eq_Inr split: if_splits)
        have "boot_same s s3" by (rule boot_same_trans [OF _ tty_open_boot [OF 3(1)]]) (intro steps s1(1))
        then show ?thesis unfolding 3(2) by (auto intro!: steps)
      qed
    qed
  qed
qed

subsection \<open>The kernel before its tasks\<close>

text \<open>The zeros of the kernel's uninitialised data.\<close>

definition bss_clear :: "'a dev_state_scheme \<Rightarrow> bool" where
  "bss_clear s \<longleftrightarrow> quiet s \<and> tasks s = (\<lambda>_. zero_task) \<and> dev_tb s = replicate DEV_TABLE_SIZE no_device"

text \<open>What the start has established when \<open>g - 1\<close> descriptors are taken and at least \<open>n\<close> pages are free; \<open>m0\<close> is the
  memory before the start.\<close>

definition low_same :: "link_t \<Rightarrow> mem \<Rightarrow> mem \<Rightarrow> bool" where
  "low_same lk m0 m \<longleftrightarrow> (\<forall>x. x < MEM_EXT_START \<longrightarrow> x \<notin> region (lk_kernel_page_dir lk) 4096 \<longrightarrow> m x = m0 x)"

definition booted :: "link_t \<Rightarrow> nat \<Rightarrow> nat \<Rightarrow> mem \<Rightarrow> 'a fs_state_scheme \<Rightarrow> bool" where
  "booted lk g n m0 s \<longleftrightarrow> quiet s \<and> gdt_taken g (gdt_table s) \<and> pool_ok (paddr_alloc s) \<and> n \<le> free_count (paddr_alloc s) \<and>
     (\<forall>p \<in> pages_of (paddr_alloc s). \<forall>x \<in> region p 4096. MEM_EXT_START \<le> x) \<and> kernel_ok {} (lk_kernel_page_dir lk) s \<and>
     (\<forall>va < MEMORY_TASK_BASE. mmu_walk (phys s) (lk_kernel_page_dir lk) va = ident (kernel_regions lk) va) \<and>
     low_same lk m0 (phys s) \<and> length (idt_table s) = 128 \<and> dev_inv (dev_tb s) \<and> file_tb s = replicate FILE_TABLE_SIZE no_file \<and>
     (\<forall>t. tk_file_table (tasks s t) = replicate 128 None)"

lemma booted_files: "booted lk g n m0 s \<Longrightarrow> files_ok s"
  unfolding booted_def files_ok_def
  by (auto simp: no_file_def fds_ok_def vectors_ok_def quiet_idle)

lemma low_same_outside:
  assumes "low_same lk m0 m" "\<forall>p \<in> P. \<forall>x \<in> region p 4096. MEM_EXT_START \<le> x" "outside P m m'"
  shows "low_same lk m0 m'"
  using assms unfolding low_same_def outside_def by (metis leD)

lemma irq_init_done:
  obtains T P G where "irq_init tb link s = Inr (s\<lparr>idt_table := T, port_out := P, idtr := G\<rparr>)" "length T = 128"
proof -
  have fold: "\<exists>P. fold (\<lambda>(p, v). outb p v) xs s = s\<lparr>port_out := P\<rparr>" for xs and s :: "'a cpu_state_scheme"
  proof (induction xs arbitrary: s)
    case Nil
    then show ?case by (intro exI [of _ "port_out s"]) simp
  next
    case (Cons x xs)
    obtain p v where x: "x = (p, v)" by (cases x)
    obtain P where P: "fold (\<lambda>(p, v). outb p v) xs (outb p v s) = (outb p v s)\<lparr>port_out := P\<rparr>" using Cons.IH by blast
    have "fold (\<lambda>(p, v). outb p v) (x # xs) s = s\<lparr>port_out := P\<rparr>" unfolding x fold_simps prod.case P by (simp add: outb_def)
    then show ?case by blast
  qed
  define G :: "u16 \<times> u16 \<times> u16" where "G = (1023, ucast (tb AND 0xFFFF), ucast (drop_bit 16 tb))"
  let ?s = "s\<lparr>idt_table := replicate (nat IDT_TABLE_NR) (gate_desc_set KERNEL_SELECTOR_CS (link Isr_unknown) GATE_INT), idtr := G\<rparr>"
  obtain s1 where 1: "irq_install_all link exception_vectors ?s = Inr s1" "length (idt_table s1) = 128"
    using irq_install_all_ok [of ?s exception_vectors link] by (auto simp: exception_vectors_def)
  obtain P where P: "init_pic s1 = s1\<lparr>port_out := P\<rparr>" using fold unfolding init_pic_def by blast
  define T where "T = idt_table s1"
  have "s1 = ?s\<lparr>idt_table := T\<rparr>" unfolding T_def by (rule irq_install_all_frame [OF 1(1)])
  also have "\<dots> = s\<lparr>idt_table := T, idtr := G\<rparr>" by simp
  finally have "s1 = s\<lparr>idt_table := T, idtr := G\<rparr>" .
  then have "irq_init tb link s = Inr (s\<lparr>idt_table := T, port_out := P, idtr := G\<rparr>)" using 1(1) P by (simp add: irq_init_def lidt_def G_def)
  then show thesis using that 1(2) T_def by blast
qed

lemma time_init_done:
  assumes "0x20 < length (idt_table s)"
  obtains T P R where "time_init link s = Inr (s\<lparr>sys_tick := 0, idt_table := T, port_reads := R, port_out := P\<rparr>)" "length T = length (idt_table s)"
proof -
  have "\<exists>T P R. time_init link s = Inr (s\<lparr>sys_tick := 0, idt_table := T, port_reads := R, port_out := P\<rparr>) \<and> length T = length (idt_table s)"
    using assms by (simp add: time_init_def pit_init_def Let_def irq_install_def outb_def irq_enable_def inb_def)
      (intro exI conjI, rule refl, simp)
  then show thesis using that by blast
qed

lemma log_init_done:
  fixes s :: "'a fs_state_scheme"
  assumes "dev_tb s = replicate DEV_TABLE_SIZE no_device" "length (idt_table s) = 128"
  obtains s' k where "log_init link s = Inr (s'\<lparr>log_dev_id := int k\<rparr>)" "boot_same s s'" "dev_inv (dev_tb s')" "k < DEV_TABLE_SIZE"
    "dev_match 0 (dev_tb s' ! k)"
proof -
  let ?s = "mutex_init Log_mutex s"
  have "dev_inv (dev_tb ?s)" "vectors_ok ?s" using assms empty_table_inv by (simp_all add: vectors_ok_def mutex_init_def upd_mutex_def)
  from dev_open_any [OF this, of link 0 0] obtain r s' where 1: "dev_open link DEV_TTY 0 0 ?s = Inr (r, s')" "dev_inv (dev_tb s')"
    "r = -1 \<or> (\<exists>k<DEV_TABLE_SIZE. r = int k \<and> dev_match 0 (dev_tb s' ! k))" "0 \<le> r" by auto
  then obtain k where k: "r = int k" "k < DEV_TABLE_SIZE" "dev_match 0 (dev_tb s' ! k)" by auto
  have "boot_same s s'" by (rule boot_same_trans [OF boot_same_ops(7) dev_open_boot [OF 1(1)]])
  moreover have "log_init link s = Inr (s'\<lparr>log_dev_id := int k\<rparr>)" using 1(1) k(1) by (simp add: log_init_def)
  ultimately show thesis using that 1(2) k(2,3) by blast
qed

lemma quiet_mutex_init: "quiet s \<Longrightarrow> quiet (mutex_init m s)"
  by (simp add: quiet_def mutex_init_def upd_mutex_def)

lemma region_above:
  assumes "take_bit 12 p = 0" "MEM_EXT_START \<le> p" "x \<in> region p 4096" shows "MEM_EXT_START \<le> x"
proof -
  obtain j where j: "j < 4096" "x = p + of_nat j" using assms(3) by (auto simp: region_def)
  obtain w where w: "unat p = 4096 * w" using assms(1) by (auto simp: aligned_unat mod_eq_0_iff_dvd)
  then have "w < 2 ^ 20" using unsigned_less [of p, where 'a = nat] by simp
  then have "unat p + j < 2 ^ 32" using j(1) w by simp
  then have "unat x = unat p + j" using j by (simp add: unat_word_ariths unat_of_nat)
  then show ?thesis using assms(2) by (simp add: word_le_nat_alt)
qed

text \<open>Everything before the tasks.\<close>

lemma kernel_init_drivers:
  assumes lk: "linked lk" and mem: "0x138000 \<le> unat (total_mem_size bi)" "unat (total_mem_size bi) \<le> 2 ^ 27" and bss: "bss_clear s"
  obtains s' where "kernel_init lk bi s = task_manager_init lk s'" "booted lk 4 24 (phys s) s'" "tasks s' = (\<lambda>_. zero_task)"
    "cr3 s' = lk_kernel_page_dir lk" "\<exists>k<DEV_TABLE_SIZE. log_dev_id s' = int k \<and> dev_match 0 (dev_tb s' ! k)"
proof -
  let ?kd = "lk_kernel_page_dir lk"
  obtain t g where 1: "gdt_init (lk_gdt_table lk) (lk_syscall lk) s = Inr ((mutex_init Gdt_mutex s)\<lparr>gdt_table := t, gdtr := g\<rparr>)" "gdt_taken 4 t"
    by (rule gdt_init_done)
  define s1 where "s1 = (mutex_init Gdt_mutex s)\<lparr>gdt_table := t, gdtr := g\<rparr>"
  obtain T P G where 2: "irq_init (lk_idt_table lk) (lk_isr lk) s1 = Inr (s1\<lparr>idt_table := T, port_out := P, idtr := G\<rparr>)" "length T = 128"
    by (rule irq_init_done)
  define s2 where "s2 = s1\<lparr>idt_table := T, port_out := P, idtr := G\<rparr>"
  have q2: "quiet s2" "tasks s2 = (\<lambda>_. zero_task)" "dev_tb s2 = replicate DEV_TABLE_SIZE no_device" "length (idt_table s2) = 128"
    "gdt_taken 4 (gdt_table s2)" "phys s2 = phys s"
    using bss 1(2) 2(2) by (simp_all add: s2_def s1_def bss_clear_def quiet_def mutex_init_def upd_mutex_def)
  obtain u k where 3: "log_init (lk_isr lk) s2 = Inr (u\<lparr>log_dev_id := int k\<rparr>)" "boot_same s2 u" "dev_inv (dev_tb u)" "k < DEV_TABLE_SIZE"
    "dev_match 0 (dev_tb u ! k)" by (rule log_init_done [OF q2(3,4)])
  define s3 where "s3 = u\<lparr>log_dev_id := int k\<rparr>"
  have q3: "quiet s3" "tasks s3 = (\<lambda>_. zero_task)" "length (idt_table s3) = 128" "gdt_taken 4 (gdt_table s3)" "phys s3 = phys s"
    using 3(2) q2 by (simp_all add: s3_def boot_same_def quiet_def)
  define n where "n = (unat (total_mem_size bi) - 0x100000) div 4096"
  have "0x121000 \<le> unat (total_mem_size bi)" using mem(1) by simp
  from memory_init_done [OF lk this mem(2) n_def, of s3] obtain s4 sz where 4: "memory_init lk bi s3 = Done () s4" "kmap_ok ?kd s4" "cr3 s4 = ?kd"
    "mmu_walk (phys s4) ?kd = ident (kernel_regions lk)" "pages_of (paddr_alloc s4) = pages_of (fresh_pool n sz)"
    "vm_only ((mutex_init Paddr_alloc_mutex s3)\<lparr>cr3 := ?kd\<rparr>) s4" "outside (vm_pages ?kd s4) (phys s3) (phys s4)" "0x100000 + 4096 * n \<le> 2 ^ 27"
    "card (pages_of (paddr_alloc s4)) = n" by blast
  obtain a m l where f4: "s4 = (mutex_init Paddr_alloc_mutex s3)\<lparr>cr3 := ?kd, paddr_alloc := a, phys := m, klogs := l\<rparr>"
    using 4(6) unfolding vm_only_def by blast
  have q4: "quiet s4" "tasks s4 = (\<lambda>_. zero_task)" "length (idt_table s4) = 128" "gdt_taken 4 (gdt_table s4)" "dev_tb s4 = dev_tb u" "log_dev_id s4 = int k"
    using quiet_mutex_init [OF q3(1)] q3 unfolding f4 s3_def by (simp_all add: quiet_def mutex_init_def upd_mutex_def)
  have "0x20 < length (idt_table (fs_init s4))" using q4(3) by (simp add: fs_init_def file_table_init_def mutex_init_def upd_mutex_def)
  then obtain T5 P5 R5 where 5: "time_init (lk_isr lk) (fs_init s4) =
      Inr ((fs_init s4)\<lparr>sys_tick := 0, idt_table := T5, port_reads := R5, port_out := P5\<rparr>)" "length T5 = length (idt_table (fs_init s4))"
    by (rule time_init_done)
  define s5 where "s5 = (fs_init s4)\<lparr>sys_tick := 0, idt_table := T5, port_reads := R5, port_out := P5\<rparr>"
  have run: "kernel_init lk bi s = task_manager_init lk s5"
    unfolding kernel_init_def 1(1) using 2(1) 3(1) 4(1) 5(1) by (simp add: s1_def [symmetric] s2_def [symmetric] s3_def [symmetric] s5_def [symmetric])
  have f5: "phys s5 = phys s4" "paddr_alloc s5 = paddr_alloc s4" "tasks s5 = tasks s4" "gdt_table s5 = gdt_table s4" "dev_tb s5 = dev_tb s4"
    "cr3 s5 = cr3 s4" "log_dev_id s5 = log_dev_id s4" "file_tb s5 = replicate FILE_TABLE_SIZE no_file" "length (idt_table s5) = 128"
    "quiet s5 = quiet (mutex_init File_alloc_mutex s4)"
    using 5(2) q4(3) by (simp_all add: s5_def fs_init_def file_table_init_def mutex_init_def upd_mutex_def quiet_def)
  have po: "pool_ok (paddr_alloc s4)" "card (used_of (paddr_alloc s4)) \<le> 32" using 4(2) kmap_few unfolding kmap_ok_def by blast+
  have "free_count (paddr_alloc s4) = card (pages_of (paddr_alloc s4)) - card (used_of (paddr_alloc s4))"
    unfolding free_count_def using pool.used_pages [OF po(1)] pool.finite_pages [OF po(1)] by (intro card_Diff_subset) (auto intro: finite_subset)
  moreover have "56 \<le> n" using mem(1) unfolding n_def by linarith
  ultimately have free: "24 \<le> free_count (paddr_alloc s4)" using po(2) 4(9) by linarith
  have high: "MEM_EXT_START \<le> x" if p: "p \<in> pages_of (paddr_alloc s4)" "x \<in> region p 4096" for p x
  proof (rule region_above [OF _ _ p(2)])
    show "take_bit 12 p = 0" using p(1) page_addr_facts [OF po(1)] by (auto simp: pages_of_def)
    have "0x100000 \<le> unat p" using fresh_pool_facts(4) [of n p sz] 4(8) p(1) unfolding 4(5) by simp
    then show "MEM_EXT_START \<le> p" by (simp add: word_le_nat_alt MEM_EXT_START_def)
  qed
  have low: "low_same lk (phys s) (phys s4)"
    using 4(7) high unfolding q3(5) low_same_def outside_def vm_pages_def by (metis insertE leD)
  have "kernel_ok {} ?kd s5" using kmap_kernel_ok [OF 4(2)] by (simp add: kernel_ok_def f5)
  then have "booted lk 4 24 (phys s) s5"
    using quiet_mutex_init [OF q4(1)] q4 po(1) free high 4(4) low 3(3) by (simp add: booted_def f5 zero_task_def)
  then show thesis using that [OF run] q4 4(3) 3(4,5) by (simp add: f5)
qed

subsection \<open>The idle task\<close>

lemma kernel_walk_frame:
  assumes "kernel_ok R kd s" "p \<in> pages_of (paddr_alloc s) - used_of (paddr_alloc s)" "take_bit 12 p = 0" "va < MEMORY_TASK_BASE"
    and out: "\<And>x. x \<notin> region p 4096 \<Longrightarrow> m x = phys s x"
  shows "mmu_walk m kd va = mmu_walk (phys s) kd va"
proof -
  have kd: "take_bit 12 kd = 0" "p \<noteq> kd" using assms(1,2) by (auto simp: kernel_ok_def)
  have pde: "pde_of m kd va = pde_of (phys s) kd va" by (rule slot_other_page [OF assms(3) kd pde_index_bound out])
  show ?thesis
  proof (cases "bit (pde_of (phys s) kd va) 0")
    case True
    then have "table_of (phys s) kd va \<in> used_of (paddr_alloc s)" using assms(1,4) by (simp add: kernel_ok_def)
    then have "p \<noteq> table_of (phys s) kd va" using assms(2) by auto
    from slot_other_page [OF assms(3) table_aligned(1) this pte_index_bound out] show ?thesis by (simp add: mmu_walk_eq pde)
  qed (simp add: mmu_walk_eq pde)
qed

lemma copy_name_files [simp]: "tk_file_table (new_task lk t name ts sel x) = replicate 128 None"
  by (simp add: new_task_def)

text \<open>\<open>task_init\<close> during the start.\<close>

lemma boot_task_init:
  fixes s :: "'a fs_state_scheme"
  assumes b: "booted lk g n m0 s" and g: "0 < g" "g < GDT_TABLE_SIZE" and n: "2 \<le> n"
    and ts: "dll (nodes s) (task_list s) (map All_node ts)" "task \<notin> set ts"
  obtains k d s' where "task_init lk task name flag entry esp s = Done 0 s'" "booted lk (Suc g) (n - 2) m0 s'"
    "tasks s' = (tasks s)(task := new_task lk task name (init_tss flag entry esp (app_code_sel s) (app_data_sel s) k d)
       (of_int (int g * 8)) (tasks s task))"
    "curr_task s' = curr_task s" "ready_list s' = ready_list s" "sleep_list s' = sleep_list s" "cr3 s' = cr3 s" "vm_ok {} d s'"
    "app_code_sel s' = app_code_sel s" "app_data_sel s' = app_data_sel s" "log_dev_id s' = log_dev_id s" "dev_tb s' = dev_tb s"
    "dll (nodes s') (task_list s') (map All_node (ts @ [task]))"
    "linked lk \<Longrightarrow> mmu_walk (phys s') d = ident (kernel_regions lk)"
proof -
  let ?kd = "lk_kernel_page_dir lk"
  have b': "quiet s" "gdt_taken g (gdt_table s)" "pool_ok (paddr_alloc s)" "n \<le> free_count (paddr_alloc s)" "kernel_ok {} ?kd s"
    using b by (simp_all add: booted_def)
  have fr: "2 \<le> free_count (paddr_alloc s)" using b'(4) n by simp
  note init = task_init_done [OF quiet_idle [OF b'(1)] gdt_taken_free [OF b'(2) g] b'(3) quiet_idle [OF b'(1)] fr empty_subsetI b'(5) ts,
      of name flag entry esp]
  from init obtain k d a m h l where
    run: "task_init lk task name flag entry esp s =
       Done 0 (s\<lparr>gdt_table := (gdt_table s)[g := tss_desc lk task],
         tasks := (tasks s)(task := new_task lk task name (init_tss flag entry esp (app_code_sel s) (app_data_sel s) k d)
                                      (of_int (int g * 8)) (tasks s task)),
         paddr_alloc := a, phys := m, nodes := h, task_list := l\<rparr>)"
    and vm: "{k, d} \<subseteq> pages_of (paddr_alloc s) - used_of (paddr_alloc s)" "pool_ok a" "pages_of a = pages_of (paddr_alloc s)"
     "used_of a = {k, d} \<union> used_of (paddr_alloc s)" "free_count (paddr_alloc s) = free_count a + 2" "take_bit 12 d = 0"
     "\<forall>x. x \<notin> region d 4096 \<longrightarrow> m x = phys s x" "dll h l (map All_node (ts @ [task]))" "vm_ok {} d (s\<lparr>paddr_alloc := a, phys := m\<rparr>)"
     "\<forall>va. mmu_walk m d va = (if va < MEMORY_TASK_BASE then mmu_walk (phys s) ?kd va else None)"
    by (elim exE conjE) (rule that, assumption+)
  let ?s = "s\<lparr>gdt_table := (gdt_table s)[g := tss_desc lk task],
         tasks := (tasks s)(task := new_task lk task name (init_tss flag entry esp (app_code_sel s) (app_data_sel s) k d)
                                      (of_int (int g * 8)) (tasks s task)),
         paddr_alloc := a, phys := m, nodes := h, task_list := l\<rparr>"
  have d: "d \<in> pages_of (paddr_alloc s) - used_of (paddr_alloc s)" using vm(1) by simp
  have kern: "kernel_ok {} ?kd ?s" by (rule kernel_ok_frame [OF b'(5), where p = d]) (use vm d in auto)
  have walk: "mmu_walk m ?kd va = mmu_walk (phys s) ?kd va" if "va < MEMORY_TASK_BASE" for va
    by (rule kernel_walk_frame [OF b'(5) d vm(6) that]) (use vm(7) in blast)
  have low: "low_same lk m0 m"
    by (rule low_same_outside [where P = "{d}" and m = "phys s"]) (use b d vm(7) in \<open>auto simp: booted_def outside_def\<close>)
  have "n - 2 \<le> free_count a" using b'(4) vm(5) by simp
  then have "booted lk (Suc g) (n - 2) m0 ?s"
    using b gdt_taken_put [OF b'(2) g(2) tss_desc_taken, of lk task] vm(2,3) kern walk low by (simp add: booted_def quiet_def)
  moreover have "mmu_walk m d = ident (kernel_regions lk)" if "linked lk"
    using vm(10) b kernel_low [OF that] by (auto simp: booted_def fun_eq_iff ident_def)
  moreover have "vm_ok {} d ?s" using vm(9) by (simp add: vm_ok_def mutex_idle_def)
  ultimately show thesis by (intro that [OF run]) (use vm(8) in simp_all)
qed

text \<open>\<open>task_manager_init\<close>: the descriptors of the applications, and the idle task, which is in no list of the scheduler.\<close>

lemma task_manager_done:
  fixes s :: "'a fs_state_scheme"
  assumes lk: "linked lk" and b: "booted lk 4 n m0 s" and n: "2 \<le> n" and ts: "tasks s = (\<lambda>_. zero_task)"
  obtains s' d where "task_manager_init lk s = Done () s'" "booted lk 7 (n - 2) m0 s'" "\<And>t. t \<noteq> Idle_task \<Longrightarrow> tasks s' t = zero_task"
    "t_cr3 (tk_tss (tasks s' Idle_task)) = d" "mmu_walk (phys s') d = ident (kernel_regions lk)"
    "t_eip (tk_tss (tasks s' Idle_task)) = lk_idle_task_func lk" "t_esp (tk_tss (tasks s' Idle_task)) = lk_idle_stack_top lk"
    "curr_task s' = First_task" "ready_list s' = list_init" "sleep_list s' = list_init" "dll (nodes s') (task_list s') [All_node Idle_task]"
    "app_code_sel s' = 40" "app_data_sel s' = 32" "cr3 s' = cr3 s" "log_dev_id s' = log_dev_id s" "dev_tb s' = dev_tb s"
proof -
  define h where "h = (\<lambda>n. case n of Run_node (Slot i) \<Rightarrow> \<lparr>ln_pre = None, ln_next = None\<rparr>
    | All_node (Slot i) \<Rightarrow> \<lparr>ln_pre = None, ln_next = None\<rparr> | Wait_node (Slot i) \<Rightarrow> \<lparr>ln_pre = None, ln_next = None\<rparr> | _ \<Rightarrow> nodes s n)"
  have z: "(\<lambda>t. case t of Slot i \<Rightarrow> zero_task | _ \<Rightarrow> tasks s t) = (\<lambda>_. zero_task)" by (simp add: ts fun_eq_iff split: tid.split)
  define s2 where "s2 = mutex_init Task_table_mutex (s\<lparr>tasks := (\<lambda>_. zero_task), nodes := h\<rparr>)"
  have b2: "booted lk 4 n m0 s2" using b by (simp add: booted_def s2_def quiet_def mutex_init_def upd_mutex_def kernel_ok_def zero_task_def)
  then have q2: "mutex_idle Gdt_mutex s2" "gdt_taken 4 (gdt_table s2)" by (simp_all add: booted_def quiet_idle)
  obtain t3 where 3: "app_segment SEG_TYPE_DATA s2 = Done (int 4 * 8) (s2\<lparr>gdt_table := t3\<rparr>)" "gdt_taken (Suc 4) t3"
    by (rule app_segment_done [OF q2]) (simp_all add: GDT_TABLE_SIZE_def)
  let ?s3 = "s2\<lparr>gdt_table := t3\<rparr>\<lparr>app_data_sel := 32\<rparr>"
  have q3: "mutex_idle Gdt_mutex ?s3" "gdt_taken 5 (gdt_table ?s3)" using q2(1) 3(2) by (simp_all add: mutex_idle_def)
  obtain t4 where 4: "app_segment SEG_TYPE_CODE ?s3 = Done (int 5 * 8) (?s3\<lparr>gdt_table := t4\<rparr>)" "gdt_taken (Suc 5) t4"
    by (rule app_segment_done [OF q3]) (simp_all add: GDT_TABLE_SIZE_def)
  define s5 where "s5 = ?s3\<lparr>gdt_table := t4\<rparr>\<lparr>app_code_sel := 40, ready_list := list_init, task_list := list_init, sleep_list := list_init,
                     curr_task := get_first_task\<rparr>"
  have b5: "booted lk 6 n m0 s5" using b2 4(2) by (simp add: booted_def s5_def quiet_def kernel_ok_def)
  have l5: "dll (nodes s5) (task_list s5) (map All_node [])" "Idle_task \<notin> set []" by (simp_all add: s5_def dll_init)
  have g: "0 < (6 :: nat)" "6 < GDT_TABLE_SIZE" by (simp_all add: GDT_TABLE_SIZE_def)
  obtain k d s6 where
    6: "task_init lk Idle_task ''idle  task'' TASK_FLAGS_SYSTEM (lk_idle_task_func lk) (lk_idle_stack_top lk) s5 = Done 0 s6"
    "booted lk (Suc 6) (n - 2) m0 s6" "tasks s6 = (tasks s5)(Idle_task := new_task lk Idle_task ''idle  task''
       (init_tss TASK_FLAGS_SYSTEM (lk_idle_task_func lk) (lk_idle_stack_top lk) (app_code_sel s5) (app_data_sel s5) k d)
       (of_int (int 6 * 8)) (tasks s5 Idle_task))"
    "curr_task s6 = curr_task s5" "ready_list s6 = ready_list s5" "sleep_list s6 = sleep_list s5" "cr3 s6 = cr3 s5"
    "app_code_sel s6 = app_code_sel s5" "app_data_sel s6 = app_data_sel s5" "log_dev_id s6 = log_dev_id s5" "dev_tb s6 = dev_tb s5"
    "mmu_walk (phys s6) d = ident (kernel_regions lk)" "dll (nodes s6) (task_list s6) (map All_node ([] @ [Idle_task]))"
    by (rule boot_task_init [OF b5 g n l5]) (use lk in blast)
  have b7: "booted lk 7 (n - 2) m0 s6" using 6(2) by simp
  have run: "task_manager_init lk s = Done () s6"
    unfolding task_manager_init_def z h_def [symmetric] Let_def s2_def [symmetric] 3(1) using 4(1) 6(1)
    by (simp add: s5_def task_start_def task_set_ready_def)
  have f5: "tasks s5 = (\<lambda>_. zero_task)" "curr_task s5 = First_task" "ready_list s5 = list_init" "sleep_list s5 = list_init" "cr3 s5 = cr3 s"
    "app_code_sel s5 = 40" "app_data_sel s5 = 32" "log_dev_id s5 = log_dev_id s" "dev_tb s5 = dev_tb s"
    by (simp_all add: s5_def s2_def mutex_init_def upd_mutex_def get_first_task_def)
  show thesis
    by (rule that [OF run b7]) (use 6(3-13) f5 in \<open>simp_all add: init_tss_def case_prod_unfold\<close>)
qed

subsection \<open>The first task\<close>

text \<open>A copy from the kernel into the frames of the loaded address space.  \<open>f i\<close> is the place of the byte \<open>i\<close>; the
  frames are reserved pages, so the address space stays the same while they are written.\<close>

lemma copy_to_task:
  assumes vm: "vm_ok R dir s" and inj: "inj_on f {..<N}"
    and to: "\<And>i. i < N \<Longrightarrow> MEMORY_TASK_BASE \<le> va + of_nat i \<and> mmu_walk (phys s) dir (va + of_nat i) = Some (f i) \<and> f i AND NOT (mask 12) \<in> R"
    and low: "\<And>i. i < N \<Longrightarrow> src + of_nat i < MEMORY_TASK_BASE \<and> src + of_nat i \<notin> f ` {..<N}"
    and m: "k + n = N" "vm_ok R dir (s\<lparr>phys := m\<rparr>)" "mmu_walk m dir = mmu_walk (phys s) dir"
      "\<And>x. x \<notin> f ` {..<N} \<Longrightarrow> m x = phys s x" "\<And>i. i < k \<Longrightarrow> m (f i) = phys s (src + of_nat i)"
  shows "\<exists>m'. vm_memcpy_loop n dir (va + of_nat k) (src + of_nat k) m = Inr m' \<and> mmu_walk m' dir = mmu_walk (phys s) dir \<and>
     (\<forall>x. x \<notin> f ` {..<N} \<longrightarrow> m' x = phys s x) \<and> (\<forall>i < N. m' (f i) = phys s (src + of_nat i))"
  using m
proof (induction n arbitrary: k m)
  case 0
  then show ?case by auto
next
  case (Suc n)
  have k: "k < N" using Suc.prems(1) by simp
  let ?m = "m(f k := m (src + of_nat k))"
  have "kview m dir (va + of_nat k) = Some (f k)" "kview m dir (src + of_nat k) = Some (src + of_nat k)"
    using to [OF k] low [OF k] Suc.prems(3) by (auto simp: kview_def)
  then have step: "vm_memcpy_loop (Suc n) dir (va + of_nat k) (src + of_nat k) m =
      vm_memcpy_loop n dir (va + of_nat (Suc k)) (src + of_nat (Suc k)) ?m" by (simp add: add.assoc add.commute [of 1])
  have q: "f k AND NOT (mask 12) \<in> R" using to [OF k] by blast
  have "?m x = phys (s\<lparr>phys := m\<rparr>) x" if "x \<notin> region (f k AND NOT (mask 12)) 4096" for x using that in_page [of "f k"] by auto
  note w = write_reserved [OF Suc.prems(2) q this]
  have src: "m (src + of_nat k) = phys s (src + of_nat k)" by (rule Suc.prems(4)) (use low [OF k] in blast)
  have "\<exists>m'. vm_memcpy_loop n dir (va + of_nat (Suc k)) (src + of_nat (Suc k)) ?m = Inr m' \<and> mmu_walk m' dir = mmu_walk (phys s) dir \<and>
     (\<forall>x. x \<notin> f ` {..<N} \<longrightarrow> m' x = phys s x) \<and> (\<forall>i < N. m' (f i) = phys s (src + of_nat i))"
  proof (rule Suc.IH)
    show "Suc k + n = N" using Suc.prems(1) by simp
    show "vm_ok R dir (s\<lparr>phys := ?m\<rparr>)" using w(1) by (simp add: fun_upd_def)
    show "mmu_walk ?m dir = mmu_walk (phys s) dir" using w(2) Suc.prems(3) by (simp add: fun_upd_def)
    show "?m x = phys s x" if "x \<notin> f ` {..<N}" for x using that k Suc.prems(4) [OF that] by auto
    show "?m (f i) = phys s (src + of_nat i)" if "i < Suc k" for i
      using that src k Suc.prems(5) [of i] inj_onD [OF inj, of i k] by (cases "i = k") auto
  qed
  then show ?case unfolding step .
qed

text \<open>The addresses the linker script gives the first task: it runs from \<open>first_task_entry\<close>, in the task half, and is loaded behind
  the kernel.\<close>

definition first_linked :: "link_t \<Rightarrow> bool" where
  "first_linked lk \<longleftrightarrow> take_bit 12 (lk_first_task_entry lk) = 0 \<and> MEMORY_TASK_BASE \<le> lk_first_task_entry lk \<and>
     unat (lk_first_task_entry lk) + 40960 \<le> 2 ^ 32 \<and> lk_s_first_task lk \<noteq> 0 \<and> lk_s_first_task lk \<le> lk_e_first_task lk \<and>
     lk_e_first_task lk \<le> MEM_EBDA_START \<and> lk_e_first_task lk - lk_s_first_task lk \<le> 40960 \<and>
     region (lk_s_first_task lk) (unat (lk_e_first_task lk - lk_s_first_task lk)) \<inter> region (lk_kernel_page_dir lk) 4096 = {}"

lemma first_image:
  assumes "first_linked lk" "i < unat (lk_e_first_task lk - lk_s_first_task lk)"
  shows "lk_s_first_task lk + of_nat i < MEM_EXT_START" "lk_s_first_task lk + of_nat i \<notin> region (lk_kernel_page_dir lk) 4096" "i < 40960"
    "MEMORY_TASK_BASE \<le> lk_first_task_entry lk + of_nat i"
proof -
  have l: "unat (lk_s_first_task lk) \<le> unat (lk_e_first_task lk)" "unat (lk_e_first_task lk) \<le> 0x80000"
    "unat (lk_e_first_task lk - lk_s_first_task lk) \<le> 40960" "0x80000000 \<le> unat (lk_first_task_entry lk)" "unat (lk_first_task_entry lk) + 40960 \<le> 2 ^ 32"
    using assms(1) by (simp_all add: first_linked_def word_le_nat_alt MEM_EBDA_START_def MEMORY_TASK_BASE_def)
  have "unat (lk_e_first_task lk - lk_s_first_task lk) = unat (lk_e_first_task lk) - unat (lk_s_first_task lk)"
    using assms(1) by (simp add: first_linked_def unat_sub)
  then have "unat (lk_s_first_task lk) + i < 0x80000" using assms(2) l(1,2) by linarith
  then show "lk_s_first_task lk + of_nat i < MEM_EXT_START"
    by (simp add: word_less_nat_alt unat_word_ariths unat_of_nat MEM_EXT_START_def)
  show i: "i < 40960" using assms(2) l(3) by simp
  show "lk_s_first_task lk + of_nat i \<notin> region (lk_kernel_page_dir lk) 4096"
    using assms region_nth [OF assms(2), of "lk_s_first_task lk"] by (auto simp: first_linked_def)
  show "MEMORY_TASK_BASE \<le> lk_first_task_entry lk + of_nat i"
    using i l(4,5) by (simp add: word_le_nat_alt MEMORY_TASK_BASE_def unat_word_ariths unat_of_nat)
qed

lemma map_list_area:
  assumes "take_bit 12 e = 0" "unat e + 4096 * length ps \<le> 2 ^ 32"
  shows "map_list ps e w va =
     (if unat e \<le> unat va \<and> unat va < unat e + 4096 * length ps then Some (frame_at ps (unat va - unat e)) else w va)"
proof (cases "unat e \<le> unat va \<and> unat va < unat e + 4096 * length ps")
  case True
  then have i: "unat va - unat e < 4096 * length ps" "va = e + of_nat (unat va - unat e)" by (auto simp: word_unat_eq_iff unat_word_ariths)
  have "map_list ps e w (e + of_nat (unat va - unat e)) = Some (frame_at ps (unat va - unat e))"
    using map_list_at [OF assms i(1), of w] unfolding frame_at_def .
  then show ?thesis using True i(2) by simp
next
  case False
  have "drop_bit 12 va \<noteq> drop_bit 12 (e + of_nat (4096 * j))" if j: "j < length ps" for j
  proof
    assume "drop_bit 12 va = drop_bit 12 (e + of_nat (4096 * j))"
    then have va: "unat va div 4096 = unat (e + of_nat (4096 * j)) div 4096" by (simp add: word_unat_eq_iff drop_bit_eq_div unat_div)
    obtain c where c: "unat e = 4096 * c" using assms(1) by (auto simp: aligned_unat mod_eq_0_iff_dvd)
    have "unat (e + of_nat (4096 * j)) = 4096 * (c + j)"
      using j c assms(2) by (simp add: unat_word_ariths unat_of_nat)
    then have "unat va div 4096 = c + j" using va by simp
    then have "4096 * (c + j) \<le> unat va" "unat va < 4096 * (c + j) + 4096"
      using times_div_less_eq_dividend [of 4096 "unat va"] dividend_less_times_div [of 4096 "unat va"] by simp_all
    then show False using False c j by auto
  qed
  from map_list_other [OF this, where w = w] False show ?thesis by auto
qed

lemma frame_in_page: "\<lbrakk>\<And>p. p \<in> set ps \<Longrightarrow> take_bit 12 p = 0; i < 4096 * length ps\<rbrakk> \<Longrightarrow> frame_at ps i \<in> region (ps ! (i div 4096)) 4096"
  using in_page [of "frame_at ps i"] frame_at_page(1) [of ps i] by simp

text \<open>The program of the first task is copied into the pages \<open>memory_alloc_page_for\<close> gave it.\<close>

lemma first_task_loaded:
  fixes s :: "'a fs_state_scheme"
  assumes lk: "linked lk" "first_linked lk" and b: "booted lk g 20 m0 s" and vm: "vm_ok {} d s" "cr3 s = d"
    and t: "t_cr3 (tk_tss (tasks s (curr_task s))) = d" and walk: "mmu_walk (phys s) d = ident (kernel_regions lk)"
    and len: "len = lk_e_first_task lk - lk_s_first_task lk"
  obtains s4 m ps where "memory_alloc_page_for (lk_first_task_entry lk) (10 * MEM_PAGE_SIZE) (PTE_P OR PTE_W OR PTE_U) s = Done 0 s4"
    "vm_only s s4" "vm_memcpy d (lk_first_task_entry lk) (lk_s_first_task lk) len (phys s4) = Inr m" "length ps = 10" "distinct ps"
    "\<And>va. mmu_walk m d va = map_list ps (lk_first_task_entry lk) (ident (kernel_regions lk)) va"
    "\<And>i. i < unat len \<Longrightarrow> m (frame_at ps i) = m0 (lk_s_first_task lk + of_nat i)"
proof -
  let ?e = "lk_first_task_entry lk" and ?s = "lk_s_first_task lk" and ?N = "unat len"
  have e: "take_bit 12 ?e = 0" "unat ?e + 40960 \<le> 2 ^ 32" "?e \<noteq> 0" "?s \<noteq> 0" using lk(2) by (auto simp: first_linked_def MEMORY_TASK_BASE_def)
  have sz: "unat (10 * MEM_PAGE_SIZE) \<le> 2 ^ 31" "2 * ((unat (10 * MEM_PAGE_SIZE) + 4095) div 4096) \<le> free_count (paddr_alloc s)"
    and perm: "take_bit 12 (PTE_P OR PTE_W OR PTE_U) = PTE_P OR PTE_W OR PTE_U"
    using b by (simp_all add: MEM_PAGE_SIZE_def booted_def PTE_P_def PTE_U_def PTE_W_def)
  obtain s4 ps where 4: "memory_alloc_for_page_dir d ?e (10 * MEM_PAGE_SIZE) (PTE_P OR PTE_W OR PTE_U) s = Done 0 s4" "vm_ok ({} \<union> set ps) d s4"
    "length ps = (unat (10 * MEM_PAGE_SIZE) + 4095) div 4096" "distinct ps" "set ps \<subseteq> pages_of (paddr_alloc s) - used_of (paddr_alloc s)"
    "mmu_walk (phys s4) d = map_list ps ?e (mmu_walk (phys s) d)" "vm_only s s4" "outside (vm_pages d s) (phys s) (phys s4)"
    by (rule alloc_dir_refines [OF vm(1) sz perm])
  have len10: "length ps = 10" using 4(3) by (simp add: MEM_PAGE_SIZE_def)
  have run: "memory_alloc_page_for ?e (10 * MEM_PAGE_SIZE) (PTE_P OR PTE_W OR PTE_U) s = Done 0 s4"
    using 4(1) t by (simp add: memory_alloc_page_for_def task_current_def)
  have po: "pool_ok (paddr_alloc s)" and high: "\<And>p x. p \<in> pages_of (paddr_alloc s) \<Longrightarrow> x \<in> region p 4096 \<Longrightarrow> MEM_EXT_START \<le> x"
    and low: "low_same lk m0 (phys s)" using b by (auto simp: booted_def)
  have al: "take_bit 12 p = 0" if "p \<in> set ps" for p using that 4(5) page_addr_facts [OF po] by (auto simp: pages_of_def)
  have "d \<in> pages_of (paddr_alloc s)" using vm(1) pool.used_pages [OF po] by (auto simp: vm_ok_def space_ok_def)
  then have "low_same lk m0 (phys s4)" using low_same_outside [OF low _ 4(8)] high by (simp add: vm_pages_def insert_absorb)
  then have src: "phys s4 (?s + of_nat i) = m0 (?s + of_nat i)" if "i < ?N" for i
    using first_image(1,2) [OF lk(2), of i] that len by (simp add: low_same_def)
  have frame: "frame_at ps i \<in> region (ps ! (i div 4096)) 4096" "ps ! (i div 4096) \<in> set ps" "MEM_EXT_START \<le> frame_at ps i"
    if i: "i < 40960" for i
  proof -
    have i': "i < 4096 * length ps" using i len10 by simp
    show r: "frame_at ps i \<in> region (ps ! (i div 4096)) 4096" by (rule frame_in_page [OF al i'])
    show p: "ps ! (i div 4096) \<in> set ps" by (rule frame_at_page(2) [OF al i'])
    show "MEM_EXT_START \<le> frame_at ps i" by (rule high [OF _ r]) (use p 4(5) in auto)
  qed
  have "\<exists>m'. vm_memcpy_loop ?N d (?e + of_nat 0) (?s + of_nat 0) (phys s4) = Inr m' \<and> mmu_walk m' d = mmu_walk (phys s4) d \<and>
     (\<forall>x. x \<notin> frame_at ps ` {..<?N} \<longrightarrow> m' x = phys s4 x) \<and> (\<forall>i < ?N. m' (frame_at ps i) = phys s4 (?s + of_nat i))"
  proof (rule copy_to_task [OF 4(2)])
    have "inj_on (frame_at ps) {..<4096 * length ps}" by (rule frame_at_inj [OF al 4(4)])
    then show "inj_on (frame_at ps) {..<?N}"
      by (rule inj_on_subset) (use lk(2) len len10 in \<open>simp add: first_linked_def word_le_nat_alt\<close>)
    fix i assume "i < ?N"
    note fi = first_image [OF lk(2) this [unfolded len]]
    have "map_list ps ?e w (?e + of_nat i) = Some (frame_at ps i)" for w
      using map_list_at [OF e(1), where ps = ps and i = i and w = w] e(2) fi(3) len10 by (simp add: frame_at_def)
    moreover have "frame_at ps i AND NOT (mask 12) \<in> set ps"
      using frame_at_page(1,2) [OF al, where i = i] fi(3) len10 by simp
    ultimately show "MEMORY_TASK_BASE \<le> ?e + of_nat i \<and> mmu_walk (phys s4) d (?e + of_nat i) = Some (frame_at ps i) \<and>
       frame_at ps i AND NOT (mask 12) \<in> {} \<union> set ps" using fi(4) unfolding 4(6) by simp
    have "?s + of_nat i < MEMORY_TASK_BASE" using fi(1) by (simp add: MEM_EXT_START_def MEMORY_TASK_BASE_def word_less_nat_alt)
    moreover have "?s + of_nat i \<notin> frame_at ps ` {..<?N}"
    proof
      assume "?s + of_nat i \<in> frame_at ps ` {..<?N}"
      then obtain j where j: "j < ?N" "?s + of_nat i = frame_at ps j" by auto
      have "j < 40960" by (rule first_image(3) [OF lk(2)]) (use j(1) len in simp)
      from frame(3) [OF this] fi(1) j(2) show False by (simp add: not_le [symmetric])
    qed
    ultimately show "?s + of_nat i < MEMORY_TASK_BASE \<and> ?s + of_nat i \<notin> frame_at ps ` {..<?N}" ..
  qed (use 4(2) in simp_all)
  then obtain m where m: "vm_memcpy_loop ?N d ?e ?s (phys s4) = Inr m" "mmu_walk m d = mmu_walk (phys s4) d"
    "\<And>i. i < ?N \<Longrightarrow> m (frame_at ps i) = phys s4 (?s + of_nat i)" by auto
  have "vm_memcpy d ?e ?s len (phys s4) = Inr m" using m(1) e(3,4) by (auto simp: vm_memcpy_def)
  from that [OF run 4(7) this len10 4(4)] show thesis using m(2,3) src 4(6) walk by simp
qed

text \<open>\<open>first_task_init\<close>: the task is ready, its directory is loaded and its program is in place.\<close>

lemma first_task_done:
  fixes s :: "'a fs_state_scheme"
  assumes lk: "linked lk" "first_linked lk" and b: "booted lk 7 22 m0 s" and c: "curr_task s = First_task"
    and l: "ready_list s = list_init" "sleep_list s = list_init" "dll (nodes s) (task_list s) [All_node Idle_task]"
    and sel: "app_code_sel s = 40" "app_data_sel s = 32"
  obtains s' ps k d where "first_task_init lk s = Done () s'" "quiet s'" "files_ok s'" "sched_rel s' [First_task] []" "curr_task s' = First_task"
    "length ps = 10" "distinct ps" "cr3 s' = d"
    "\<And>va. mmu_walk (phys s') d va = map_list ps (lk_first_task_entry lk) (ident (kernel_regions lk)) va"
    "\<And>i. i < unat (lk_e_first_task lk - lk_s_first_task lk) \<Longrightarrow> phys s' (frame_at ps i) = m0 (lk_s_first_task lk + of_nat i)"
    "tk_tss (tasks s' First_task) = init_tss 0 (lk_first_task_entry lk) (lk_first_task_entry lk + 10 * MEM_PAGE_SIZE) 40 32 k d"
    "tasks s' Idle_task = tasks s Idle_task" "task_reg s' = 56"
proof -
  let ?e = "lk_first_task_entry lk" and ?len = "lk_e_first_task lk - lk_s_first_task lk"
  have ts: "dll (nodes s) (task_list s) (map All_node [Idle_task])" "First_task \<notin> set [Idle_task]" using l(3) by simp_all
  have g: "0 < (7 :: nat)" "7 < GDT_TABLE_SIZE" "2 \<le> (22 :: nat)" by (simp_all add: GDT_TABLE_SIZE_def)
  obtain k d s1 where 1: "task_init lk First_task ''first task'' 0 ?e (?e + 10 * MEM_PAGE_SIZE) s = Done 0 s1" "booted lk (Suc 7) (22 - 2) m0 s1"
    "tasks s1 = (tasks s)(First_task := new_task lk First_task ''first task'' (init_tss 0 ?e (?e + 10 * MEM_PAGE_SIZE) (app_code_sel s) (app_data_sel s) k d)
       (of_int (int 7 * 8)) (tasks s First_task))" "curr_task s1 = curr_task s" "ready_list s1 = ready_list s" "sleep_list s1 = sleep_list s"
    "vm_ok {} d s1" "mmu_walk (phys s1) d = ident (kernel_regions lk)"
    by (rule boot_task_init [OF b g ts]) (use lk(1) in blast)
  define s3 where "s3 = (upd_task First_task (\<lambda>t. t\<lparr>tk_heap_start := lk_e_first_task lk, tk_heap_end := lk_e_first_task lk\<rparr>) s1)\<lparr>cr3 := d\<rparr>"
  have tss: "tk_tss (tasks s1 First_task) = init_tss 0 ?e (?e + 10 * MEM_PAGE_SIZE) 40 32 k d" "tk_tss_sel (tasks s1 First_task) = 56"
    using 1(3) sel by (simp_all add: new_task_def copy_name_def TASK_NAME_SIZE_def)
  have cr3: "t_cr3 (tk_tss (tasks s3 First_task)) = d" using tss by (simp add: s3_def upd_task_def init_tss_def case_prod_unfold)
  have b3: "booted lk 8 20 m0 s3" using 1(2) by (simp add: booted_def s3_def upd_task_def quiet_def kernel_ok_def)
  have "vm_ok {} d s3" "cr3 s3 = d" "t_cr3 (tk_tss (tasks s3 (curr_task s3))) = d" "mmu_walk (phys s3) d = ident (kernel_regions lk)"
    using 1(4,7,8) c cr3 by (simp_all add: s3_def upd_task_def vm_ok_def mutex_idle_def)
  then obtain s4 m ps where 4: "memory_alloc_page_for ?e (10 * MEM_PAGE_SIZE) (PTE_P OR PTE_W OR PTE_U) s3 = Done 0 s4"
    "vm_only s3 s4" "vm_memcpy d ?e (lk_s_first_task lk) ?len (phys s4) = Inr m" "length ps = 10" "distinct ps"
    "\<And>va. mmu_walk m d va = map_list ps ?e (ident (kernel_regions lk)) va"
    "\<And>i. i < unat ?len \<Longrightarrow> m (frame_at ps i) = m0 (lk_s_first_task lk + of_nat i)"
    using first_task_loaded [OF lk b3 _ _ _ _ refl] by blast
  obtain a4 m4 g4 where s4: "s4 = s3\<lparr>paddr_alloc := a4, phys := m4, klogs := g4\<rparr>" using 4(2) unfolding vm_only_def by blast
  define s5 where "s5 = write_tr (ucast (tk_tss_sel (tasks s4 First_task))) (s4\<lparr>phys := m\<rparr>)"
  have f5: "ready_list s5 = list_init" "sleep_list s5 = list_init" "tasks s5 = tasks s3" "phys s5 = m" "cr3 s5 = d" "curr_task s5 = First_task"
    "task_reg s5 = 56" "quiet s5 = quiet s3" "files_ok s5 = files_ok s3"
    using 1(4-6) c l tss(2) by (simp_all add: s5_def s4 s3_def write_tr_def upd_task_def quiet_def files_ok_def vectors_ok_def mutex_idle_def)
  have "sched_rel s5 [] []" by (simp add: sched_rel_def f5(1,2) dll_init)
  from task_start_rel [OF this, of First_task] obtain h r where 6: "task_start First_task s5 =
      Inr (upd_task First_task (\<lambda>k. k\<lparr>tk_state := TASK_READY\<rparr>) (s5\<lparr>nodes := h, ready_list := r\<rparr>))"
    "sched_rel (s5\<lparr>nodes := h, ready_list := r\<rparr>) [First_task] []" by auto
  let ?s = "upd_task First_task (\<lambda>k. k\<lparr>tk_state := TASK_READY\<rparr>) (s5\<lparr>nodes := h, ready_list := r\<rparr>)"
  have "cr3 s4 = d" by (simp add: s4 s3_def)
  then have run: "first_task_init lk s = Done () ?s"
    unfolding first_task_init_def Let_def using 1(1) 4(1,3) cr3 6(1)
    by (simp add: mmu_set_page_dir_def s3_def [symmetric] s5_def [symmetric]) (simp add: s3_def upd_task_def s5_def)
  have f3: "quiet s3" "files_ok s3" using b3 booted_files [OF b3] by (simp_all add: booted_def)
  show thesis
  proof (rule that [OF run])
    show "quiet ?s" using f3(1) f5(8) by (simp add: quiet_def upd_task_def)
    show "files_ok ?s" using f3(2) f5(9) by (simp add: files_ok_def upd_task_def vectors_ok_def mutex_idle_def)
    show "sched_rel ?s [First_task] []" using 6(2) by (simp add: sched_rel_def upd_task_def)
    show "tk_tss (tasks ?s First_task) = init_tss 0 ?e (?e + 10 * MEM_PAGE_SIZE) 40 32 k d"
      using tss(1) by (simp add: upd_task_def f5(3)) (simp add: s3_def upd_task_def)
    show "tasks ?s Idle_task = tasks s Idle_task" using 1(3) by (simp add: upd_task_def f5(3)) (simp add: s3_def upd_task_def)
  qed (use 4(4-7) f5 in \<open>simp_all add: upd_task_def\<close>)
qed

subsection \<open>The whole start\<close>

text \<open>The part of the state that the machine of the tasks is about.\<close>

lemma kinv_truncate: "kinv s rs ss W \<Longrightarrow> kinv (sync_state.truncate s) rs ss W"
  by (auto simp: kinv_def sync_rel_def sched_rel_def wait_rel_def wait_list_def dispatched_def mutex_inv_def sem_inv_def
      sync_state.truncate_def split: wq.splits)

text \<open>What the first task sees.\<close>

lemma first_task_view:
  fixes s2 :: "'a mem_state_scheme"
  assumes "first_linked lk" "length ps = 10" "cr3 s2 = d" "\<And>va. mmu_walk (phys s2) d va = map_list ps (lk_first_task_entry lk) w va"
  shows "mmu_walk (phys s2) (cr3 s2) va = (if lk_first_task_entry lk \<le> va \<and> unat va < unat (lk_first_task_entry lk) + 40960
      then Some (frame_at ps (unat va - unat (lk_first_task_entry lk))) else w va)"
    and "i < unat (lk_e_first_task lk - lk_s_first_task lk) \<Longrightarrow> uview s2 (lk_first_task_entry lk + of_nat i) = phys s2 (frame_at ps i)"
proof -
  let ?e = "lk_first_task_entry lk"
  have e: "take_bit 12 ?e = 0" "unat ?e + 4096 * length ps \<le> 2 ^ 32" using assms(1,2) by (simp_all add: first_linked_def)
  show walk: "mmu_walk (phys s2) (cr3 s2) va = (if ?e \<le> va \<and> unat va < unat ?e + 40960 then Some (frame_at ps (unat va - unat ?e)) else w va)" for va
    using assms(3,4) map_list_area [OF e, of w va] assms(2) by (simp add: word_le_nat_alt)
  assume i: "i < unat (lk_e_first_task lk - lk_s_first_task lk)"
  note fi = first_image(3,4) [OF assms(1) i]
  have "unat (?e + of_nat i) = unat ?e + i" using fi(1) e(2) assms(2) by (simp add: unat_word_ariths unat_of_nat)
  then have "mmu_walk (phys s2) (cr3 s2) (?e + of_nat i) = Some (frame_at ps i)"
    unfolding walk using fi(1) by (simp add: word_le_nat_alt)
  then show "uview s2 (?e + of_nat i) = phys s2 (frame_at ps i)" using fi(2) by (simp add: uview_def kview_def not_less [symmetric])
qed

text \<open>A quiet state with the first task alone in the ready list is a state the machine of the tasks may start from.\<close>

lemma quiet_start_safe:
  assumes "quiet s" "sched_rel s rs ss" "curr_task s = next_of rs"
  shows "kinv (sync_state.truncate s) rs ss (\<lambda>_. [])"
    "reach (start_machine (sync_state.truncate s)) R \<Longrightarrow> \<exists>M rs ss W. R = Some M \<and> kinv (mstate M) rs ss W"
proof -
  show k: "kinv (sync_state.truncate s) rs ss (\<lambda>_. [])" by (rule kinv_truncate [OF quiet_kinv [OF assms]])
  have "\<forall>m. mx_owner (mutexes (sync_state.truncate s) m) = None" using assms(1) by (simp add: quiet_def sync_state.truncate_def)
  from minv_reach [OF start_minv [OF k this]]
  show "reach (start_machine (sync_state.truncate s)) R \<Longrightarrow> \<exists>M rs ss W. R = Some M \<and> kinv (mstate M) rs ss W"
    by (fastforce simp: minv_def)
qed

text \<open>C4: from power-on zeros to the first task.  On a machine with at least 56 pages above 1 MB and at most 128 MB, with the addresses the
  linker script gives and the kernel's data cleared, \<open>kernel_init\<close> returns, and \<open>init_main\<close> ends in the jump to the first
  task: to its entry, with the selectors of the applications, its stack at the end of its ten pages and interrupts enabled.
  The processor then translates exactly the kernel's regions, each to itself, and the ten pages of the task, to ten different
  frames; the task reads there the program the loader had put behind the kernel.  All the invariants hold at this point: of the
  descriptors and files, and of the scheduler and the mutexes, with the first task alone in the ready list and nobody
  waiting; so whatever the tasks and interrupts do from here on, no operation of the scheduler, the mutexes or the
  semaphores faults.\<close>

theorem boot_starts_first_task:
  assumes "linked lk" "first_linked lk" "0x138000 \<le> unat (total_mem_size bi)" "unat (total_mem_size bi) \<le> 2 ^ 27" "bss_clear s"
  shows "\<exists>s1 s2 ps. kernel_init lk bi s = Done () s1 \<and>
     init_main lk s1 = Done (35, lk_first_task_entry lk + 40960, 0x202, 43, lk_first_task_entry lk) s2 \<and> bit (eflags s2) 9 \<and>
     length ps = 10 \<and> distinct ps \<and>
     (\<forall>va. mmu_walk (phys s2) (cr3 s2) va =
        (if lk_first_task_entry lk \<le> va \<and> unat va < unat (lk_first_task_entry lk) + 40960
         then Some (frame_at ps (unat va - unat (lk_first_task_entry lk)))
         else if va \<in> kernel_regions lk then Some va else None)) \<and>
     (\<forall>i < unat (lk_e_first_task lk - lk_s_first_task lk).
        uview s2 (lk_first_task_entry lk + of_nat i) = phys s (lk_s_first_task lk + of_nat i)) \<and>
     t_eip (tk_tss (tasks s2 Idle_task)) = lk_idle_task_func lk \<and>
     mmu_walk (phys s1) (t_cr3 (tk_tss (tasks s1 Idle_task))) = (\<lambda>va. if va \<in> kernel_regions lk then Some va else None) \<and>
     files_ok s2 \<and> kinv (sync_state.truncate s2) [First_task] [] (\<lambda>_. []) \<and>
     (\<forall>R. reach (start_machine (sync_state.truncate s2)) R \<longrightarrow> (\<exists>M rs ss W. R = Some M \<and> kinv (mstate M) rs ss W))"
proof -
  let ?e = "lk_first_task_entry lk"
  obtain s0 where 0: "kernel_init lk bi s = task_manager_init lk s0" "booted lk 4 24 (phys s) s0" "tasks s0 = (\<lambda>_. zero_task)"
    by (rule kernel_init_drivers [OF assms(1,3-5)])
  have n: "2 \<le> (24 :: nat)" by simp
  obtain s1 d1 where 1: "task_manager_init lk s0 = Done () s1" "booted lk 7 (24 - 2) (phys s) s1" "t_cr3 (tk_tss (tasks s1 Idle_task)) = d1"
    "mmu_walk (phys s1) d1 = ident (kernel_regions lk)" "t_eip (tk_tss (tasks s1 Idle_task)) = lk_idle_task_func lk"
    "curr_task s1 = First_task" "ready_list s1 = list_init" "sleep_list s1 = list_init" "dll (nodes s1) (task_list s1) [All_node Idle_task]"
    "app_code_sel s1 = 40" "app_data_sel s1 = 32" by (rule task_manager_done [OF assms(1) 0(2) n 0(3)])
  define u where "u = log_line ''Kernal %s is running ... '' [VStr ''1.0.0''] s1"
  have b: "booted lk 7 22 (phys s) u" using 1(2) by (simp add: u_def booted_def log_line_def quiet_def kernel_ok_def)
  have u: "curr_task u = First_task" "ready_list u = list_init" "sleep_list u = list_init" "dll (nodes u) (task_list u) [All_node Idle_task]"
    "app_code_sel u = 40" "app_data_sel u = 32" "tasks u = tasks s1" using 1(6-11) by (simp_all add: u_def log_line_def)
  obtain s2 ps k d where 2: "first_task_init lk u = Done () s2" "quiet s2" "files_ok s2" "sched_rel s2 [First_task] []" "curr_task s2 = First_task"
    "length ps = 10" "distinct ps" "cr3 s2 = d" "\<And>va. mmu_walk (phys s2) d va = map_list ps ?e (ident (kernel_regions lk)) va"
    "\<And>i. i < unat (lk_e_first_task lk - lk_s_first_task lk) \<Longrightarrow> phys s2 (frame_at ps i) = phys s (lk_s_first_task lk + of_nat i)"
    "tk_tss (tasks s2 First_task) = init_tss 0 ?e (?e + 10 * MEM_PAGE_SIZE) 40 32 k d" "tasks s2 Idle_task = tasks u Idle_task"
    by (rule first_task_done [OF assms(1,2) b u(1-6)]) blast
  let ?s = "s2\<lparr>eflags := 0x202\<rparr>"
  have "t_ss (tk_tss (tasks s2 First_task)) = 35" "t_cs (tk_tss (tasks s2 First_task)) = 43" "t_eip (tk_tss (tasks s2 First_task)) = ?e"
    "t_eflags (tk_tss (tasks s2 First_task)) = 0x202" "t_esp (tk_tss (tasks s2 First_task)) = ?e + 40960"
    unfolding 2(11) by (simp_all add: init_tss_def SEG_RPL3_def EFLAGES_DEFAULT_def EFLAGS_IF_def MEM_PAGE_SIZE_def)
  then have run: "init_main lk u' = Done (35, ?e + 40960, 0x202, 43, ?e) ?s" if "u' = s1" for u'
    using 2(1,5) unfolding that init_main_def u_def
    by (simp add: move_to_first_task_def irq_enable_global_def task_current_def)
  have "length ps = 10" "cr3 ?s = d" "\<And>va. mmu_walk (phys ?s) d va = map_list ps ?e (ident (kernel_regions lk)) va" using 2(6,8,9) by simp_all
  note view = first_task_view [OF assms(2) this]
  have "quiet ?s" "sched_rel ?s [First_task] []" "curr_task ?s = next_of [First_task]" using 2(2,4,5) by (simp_all add: quiet_def sched_rel_def)
  note safe = quiet_start_safe [OF this]
  have "files_ok ?s" using 2(3) by (simp add: files_ok_def vectors_ok_def mutex_idle_def)
  moreover have "bit (eflags ?s) 9" by (simp add: bit_numeral_rec)
  ultimately show ?thesis
    using 0(1) 1(1,3-5) run [OF refl] view safe 2(6,7,10,12) u(7)
    by (intro exI [of _ s1] exI [of _ ?s] exI [of _ ps]) (auto simp: ident_def)
qed

text \<open>A machine with 128 MB whose loader has put a program of 12 kB, which begins with the byte 0xbc, at 0x50000.\<close>

definition first_link :: link_t where
  "first_link = boot_link\<lparr>lk_first_task_entry := 0x80000000, lk_s_first_task := 0x50000, lk_e_first_task := 0x53000\<rparr>"

definition power_on :: fs_state where
  "power_on = (named [])\<lparr>mutexes := (\<lambda>_. \<lparr>mx_owner = None, mx_locked_count = 0, mx_wait_list = list_init\<rparr>),
     sems := (\<lambda>_. \<lparr>sm_count = 0, sm_wait_list = list_init\<rparr>), tasks := (\<lambda>_. zero_task),
     dev_tb := replicate DEV_TABLE_SIZE no_device, phys := (\<lambda>_. 0)(0x50000 := 0xbc)\<rparr>"

theorem boot_starts_first_task_witness:
  "\<exists>s1 s2. kernel_init first_link two_regions power_on = Done () s1 \<and>
     init_main first_link s1 = Done (35, 0x8000a000, 0x202, 43, 0x80000000) s2 \<and> uview s2 0x80000000 = 0xbc \<and>
     mmu_walk (phys s2) (cr3 s2) 0xb8000 = Some 0xb8000 \<and> mmu_walk (phys s2) (cr3 s2) 0x8000a000 = None"
proof -
  have l: "linked first_link" by (simp add: linked_def first_link_def boot_link_def no_link_def MEM_EBDA_START_def MEM_EXT_START_def)
  have "region 0x50000 0x3000 \<inter> region 0x40000 4096 = ({} :: u32 set)"
    by (auto simp: region_def word_unat_eq_iff unat_word_ariths unat_of_nat)
  then have f: "first_linked first_link" by (simp add: first_linked_def first_link_def boot_link_def no_link_def MEMORY_TASK_BASE_def MEM_EBDA_START_def)
  have t: "total_mem_size two_regions = 0x7f9fc00" by (simp add: total_mem_size_def two_regions_def)
  have z: "bss_clear power_on" by (simp add: bss_clear_def power_on_def quiet_def)
  have r: "0xb8000 \<in> kernel_regions first_link" "0x8000a000 \<notin> kernel_regions first_link"
    by (simp_all add: kernel_regions_def first_link_def boot_link_def no_link_def span_def page_end_def MEM_EBDA_START_def CONSOLE_DISP_START_def
        CONSOLE_DISP_END_def MEM_EXT_START_def MEM_EXT_END_def)
  have k: "lk_first_task_entry first_link = 0x80000000" "lk_s_first_task first_link = 0x50000" "lk_e_first_task first_link = 0x53000"
    by (simp_all add: first_link_def)
  have m: "phys power_on 0x50000 = 0xbc" by (simp add: power_on_def)
  have "0x138000 \<le> unat (total_mem_size two_regions)" "unat (total_mem_size two_regions) \<le> 2 ^ 27" by (simp_all add: t)
  from boot_starts_first_task [OF l f this z] obtain s1 s2 ps where
    1: "kernel_init first_link two_regions power_on = Done () s1" "init_main first_link s1 = Done (35, 0x80000000 + 40960, 0x202, 43, 0x80000000) s2"
    "\<forall>va. mmu_walk (phys s2) (cr3 s2) va = (if 0x80000000 \<le> va \<and> unat va < unat (0x80000000 :: u32) + 40960
         then Some (frame_at ps (unat va - unat (0x80000000 :: u32))) else if va \<in> kernel_regions first_link then Some va else None)"
    "\<forall>i < unat (0x53000 - 0x50000 :: u32). uview s2 (0x80000000 + of_nat i) = phys power_on (0x50000 + of_nat i)"
    unfolding k by blast
  have "uview s2 0x80000000 = 0xbc" using 1(4) [rule_format, of 0] m by simp
  with 1(1,2) 1(3) [THEN spec, of "0xb8000"] 1(3) [THEN spec, of "0x8000a000"] r show ?thesis by (intro exI [of _ s1] exI [of _ s2]) simp
qed

end
