(* ===== verification/Self_Tests.thy ===== *)
theory Self_Tests
  imports Paging
begin

text \<open>
  The tests the kernel carries: \<open>list_test\<close> and \<open>offset_test\<close> of src/src/kernel/init.c and \<open>some_test\<close> of
  src/src/kernel/mem.c.  They work on local variables and report in the log.
\<close>

subsection \<open>The list\<close>

text \<open>The nodes are numbered; \<open>adr\<close> is where the compiler has put them.\<close>

definition node_ptr :: "('n \<Rightarrow> u32) \<Rightarrow> 'n option \<Rightarrow> u32" where
  "node_ptr adr p = (case p of None \<Rightarrow> 0 | Some n \<Rightarrow> adr n)"

definition show_list :: "('n \<Rightarrow> u32) \<Rightarrow> 'n list_t \<Rightarrow> 'a cpu_state_scheme \<Rightarrow> 'a cpu_state_scheme" where
  "show_list adr l s = log_line ''list: first=0x%x, last=0x%x, count=%d''
     [VInt (sint (node_ptr adr (list_first l))), VInt (sint (node_ptr adr (list_last l))), VInt (list_count l)] s"

fun test_inserts ::
  "(nat store \<Rightarrow> nat list_t \<Rightarrow> nat \<Rightarrow> (nat store \<times> nat list_t) res) \<Rightarrow> (nat \<Rightarrow> u32) \<Rightarrow> nat list \<Rightarrow>
   nat store \<Rightarrow> nat list_t \<Rightarrow> 'a cpu_state_scheme \<Rightarrow> (nat store \<times> nat list_t \<times> 'a cpu_state_scheme) res" where
  "test_inserts ins adr [] h l s = Inr (h, l, s)"
| "test_inserts ins adr (i # is) h l s =
     (let s1 = log_line ''insert first to list: %d, 0x%x'' [VInt (int i), VInt (sint (adr i))] s
      in res_bind (ins h l i) (\<lambda>(h1, l1). test_inserts ins adr is h1 l1 s1))"

fun test_deletes ::
  "(nat \<Rightarrow> u32) \<Rightarrow> nat list \<Rightarrow> nat store \<Rightarrow> nat list_t \<Rightarrow> 'a cpu_state_scheme \<Rightarrow> (nat store \<times> nat list_t \<times> 'a cpu_state_scheme) res" where
  "test_deletes adr [] h l s = Inr (h, l, s)"
| "test_deletes adr (i # is) h l s =
     res_bind (list_delete_first h l) (\<lambda>(node, h1, l1).
       test_deletes adr is h1 l1 (log_line ''delete first from list: %d, 0x%x'' [VInt (int i), VInt (sint (node_ptr adr node))] s))"

definition list_test :: "(nat \<Rightarrow> u32) \<Rightarrow> nat store \<Rightarrow> 'a cpu_state_scheme \<Rightarrow> 'a cpu_state_scheme res" where
  "list_test adr h s =
     (let s1 = show_list adr list_init s
      in res_bind (test_inserts list_insert_first adr [0..<5] h list_init s1) (\<lambda>(h1, l1, s2).
         let s3 = show_list adr list_init (show_list adr l1 s2)
         in res_bind (test_inserts list_insert_last adr [0..<5] h1 list_init s3) (\<lambda>(h2, l2, s4).
            res_bind (test_deletes adr [0..<5] h2 l2 (show_list adr l2 s4)) (\<lambda>(h3, l3, s5).
            Inr (show_list adr l3 s5)))))"

subsection \<open>The parent of a node\<close>

definition list_node_parent :: "u32 \<Rightarrow> u32 \<Rightarrow> u32" where
  "list_node_parent node offset = (if node \<noteq> 0 then node - offset else 0)"

text \<open>The structure \<open>v\<close> is an int with a list node behind it.\<close>

definition offset_test :: "u32 \<Rightarrow> mem \<Rightarrow> 'a cpu_state_scheme \<Rightarrow> 'a cpu_state_scheme" where
  "offset_test v m s =
     (let m1 = put32 (put32 (put32 m v 0x123456) (v + 4) 0) (v + 8) 0;
          v_node = v + 4;
          p = list_node_parent v_node 4
      in if mem32 m1 p \<noteq> 0x123456 then log_line ''error'' [] s else s)"

subsection \<open>The page allocator\<close>

text \<open>The allocator of the test and its mutex are local, so the mutex is free whenever it is taken.\<close>

fun test_allocs :: "nat \<Rightarrow> addr_alloc_t \<Rightarrow> 'a cpu_state_scheme \<Rightarrow> (addr_alloc_t \<times> 'a cpu_state_scheme) res" where
  "test_allocs 0 a s = Inr (a, s)"
| "test_allocs (Suc n) a s =
     res_bind (alloc_pages 2 a) (\<lambda>(addr, a1). test_allocs n a1 (log_line ''alloc addr: 0x%x'' [VInt (sint addr)] s))"

fun test_frees :: "nat \<Rightarrow> u32 \<Rightarrow> addr_alloc_t \<Rightarrow> 'a cpu_state_scheme \<Rightarrow> (addr_alloc_t \<times> 'a cpu_state_scheme) res" where
  "test_frees 0 addr a s = Inr (a, s)"
| "test_frees (Suc n) addr a s =
     res_bind (free_pages addr 2 a) (\<lambda>a1.
       test_frees n (addr + 8192) a1 (log_line ''free addr: 0x%x'' [VInt (sint (addr + 8192))] s))"

definition some_test :: "u8 list \<Rightarrow> 'a cpu_state_scheme \<Rightarrow> (addr_alloc_t \<times> 'a cpu_state_scheme) res" where
  "some_test bs s =
     res_bind (bitmap_init bs (sint ((64 * 4096 :: u32) div 4096)) 0) (\<lambda>b.
     res_bind (test_allocs 32 \<lparr>aa_bitmap = b, aa_start = 0x1000, aa_size = 64 * 4096, aa_page_size = 4096\<rparr> s) (\<lambda>(a, s1).
     test_frees 32 0x1000 a s1))"

subsection \<open>What they report\<close>

text \<open>The nodes come out of the list in the order they went in; nothing is left.\<close>

lemma list_test_reports:
  "\<exists>s'. list_test adr h s = Inr s' \<and>
     filter (\<lambda>e. fst e = ''delete first from list: %d, 0x%x'') (drop (length (klogs s)) (klogs s')) =
       map (\<lambda>i. (''delete first from list: %d, 0x%x'', [VInt (int i), VInt (sint (adr i))])) [0..<5] \<and>
     last (klogs s') = (''list: first=0x%x, last=0x%x, count=%d'', [VInt 0, VInt 0, VInt 0])"
  by (simp add: list_test_def show_list_def log_line_def upt_rec list_insert_first_def list_insert_last_def list_delete_first_def
      list_init_def list_is_empty_def list_first_def list_last_def list_count_def node_ptr_def Let_def)

lemma offset_test_silent:
  assumes "v + 4 \<noteq> 0"
  shows "offset_test v m s = s"
proof -
  have "mem32 (put32 (put32 (put32 m v 0x123456) (v + 4) 0) (v + 8) 0) v = 0x123456"
    by (simp add: mem32_def put32_def)
  then show ?thesis using assms by (simp add: offset_test_def list_node_parent_def Let_def)
qed

definition some_test_log :: "(string \<times> va_arg list) list" where
  "some_test_log = map (\<lambda>i. (''alloc addr: 0x%x'', [VInt (0x1000 + 8192 * int i)])) [0..<32] @
     map (\<lambda>i. (''free addr: 0x%x'', [VInt (0x1000 + 8192 * int (Suc i))])) [0..<32]"

definition test_cpu :: cpu_state where
  "test_cpu = \<lparr>eflags = 0, cr3 = 0, port_out = [], port_in = (\<lambda>_ _. 0), port_reads = (\<lambda>_. 0), klogs = [], idt_table = [], idtr = (0, 0, 0)\<rparr>"

lemma some_test_reports:
  "case some_test (replicate 8 255) test_cpu of Inl e \<Rightarrow> False
   | Inr (a, s) \<Rightarrow> bits (aa_bitmap a) = replicate 8 0 \<and> klogs s = some_test_log"
  by code_simp

end
