(* ===== verification/Spec2Isabelle.thy ===== *)
theory Spec2Isabelle
  imports Kernel_Properties Disk_Laws Loader_Laws Fork_Laws Shell_Laws Execve_Errors Boot_Laws Self_Tests
begin

text \<open>
  dmos is a small multitasking kernel for the 32-bit PC, with a loader, a shell and a little application
  library.  This development models its C code and proves what its parts promise.

  \<^bold>\<open>How the program works.\<close>  The loader finds the memory of the machine, reads the kernel image from the disk,
  places its segments and jumps to it.  The kernel sets up the descriptor table, the interrupt table, the log,
  the page tables, the file table, the clock and the tasks, and starts the first task in user mode.  The first
  task forks a shell for each terminal.  Tasks enter the kernel through a call gate; the dispatcher calls the
  handler whose number is on the stack.  The clock interrupt ends time slices and wakes sleepers, the keyboard
  interrupt feeds the terminal in front, whose readers wait on a semaphore.

  \<^bold>\<open>The model.\<close>  Everything is explicit state passing over one family of records, each layer extending the
  one below: \<open>cpu_state\<close> (flags, ports, control registers), \<open>sched_state\<close> (tasks, list nodes, the three
  queues), \<open>sync_state\<close> (mutexes and semaphores), \<open>tty_state\<close> and \<open>dev_state\<close> (screens, terminals, devices), \<open>gdt_state\<close>,
  \<open>mem_state\<close> (the byte memory and the page allocator) and \<open>fs_state\<close> (files and the disk).  Pointers into tables are
  indices, pointers into memory are 32-bit words, a null pointer is 0 or \<open>None\<close>.  C ints are \<open>int\<close> where
  the code keeps them small and words where they wrap.  An operation that can give up the processor returns an \<open>outcome\<close>:
  \<open>Done\<close> a result, \<open>Fault\<close> an access the C code must not make, or \<open>Switch\<close> a state in which another task
  runs, with the continuation that the saved registers of the caller stand for.

  \<^bold>\<open>The theories\<close>, with the files of src/src they model:
  \<^item> \<open>Kernel_Prelude\<close>, \<open>Memory\<close>: machine types, faults, results; bytes, words and strings in memory.
  \<^item> \<open>Intrusive_List\<close> (kernel/lib/list.c), \<open>Bitmap\<close> (kernel/lib/bitmap.c), \<open>Klib\<close> (kernel/lib/klib.c).
  \<^item> \<open>Interrupts\<close> (kernel/irq.c, comm/cpu_ins.h), \<open>Gdt\<close> (kernel/gdt.c).
  \<^item> \<open>Scheduler\<close> (kernel/task.c: ready, sleep and wait queues, yield, sleep, tick), \<open>Sync\<close> (kernel/mutex.c,
    kernel/sem.c) and \<open>Kernel_Machine\<close>, the step relation of the whole: the current task finishes its
    suspended operation or issues the next event, interrupts included.
  \<^item> \<open>Console\<close>, \<open>Tty\<close>, \<open>Keyboard\<close> (kernel/dev/tty), \<open>Devices\<close> (kernel/dev/dev.c, kernel/dev/mtime.c, kernel/log.c).
  \<^item> \<open>Paging\<close> and \<open>Address_Spaces\<close> (kernel/mem.c, include/mmu.h).
  \<^item> \<open>Disk\<close> and \<open>Files\<close> (kernel/fs/fs.c, kernel/fs/file.c), \<open>Tasks\<close>, \<open>Elf\<close> and \<open>Programs\<close> (the rest of
    kernel/task.c, comm/elf.h), \<open>Syscalls\<close> (kernel/syscall.c, applib/lib_syscall.c).
  \<^item> \<open>Boot\<close> (loader, kernel/init.c), \<open>Self_Tests\<close> (the tests in kernel/init.c and kernel/mem.c) and \<open>Apps\<close> (kernel/first_task,
    applib/cstart.c, shell/shell.c).

  \<^bold>\<open>What is proved.\<close>
  \<^item> \<open>Scheduler_Laws\<close>, \<open>Kernel_Properties\<close>: the queues of the kernel are the sequences an abstract scheduler
    has; the invariant of the machine holds in all reachable states, so none of them faults; mutual exclusion; a
    ready task runs within as many switches as tasks are before it; the exact effect of yield, sleep and tick.
  \<^item> \<open>Tty_Fifo_Laws\<close>, \<open>Tty_Laws\<close>, and the end of \<open>Console\<close> and \<open>Keyboard\<close>: the ring buffer refines a bounded
    queue, what is written is shown, what is typed reaches the reader, text never leaves the screen.
  \<^item> \<open>Paging_Laws\<close>, \<open>Address_Space_Laws\<close>: pages are never given out twice; the page tables implement a partial
    function from addresses to addresses (\<open>mmu_walk\<close>, what the processor does) and mapping is its update.
  \<^item> \<open>Memory_Init_Laws\<close>: \<open>memory_init\<close> maps the kernel to itself and establishes what these theories assume.
  \<^item> \<open>Boot_Laws\<close>: from cleared memory, \<open>kernel_init\<close> and \<open>init_main\<close> reach the first task with all invariants in place, so
    that the theorems about the running kernel apply to it.
  \<^item> \<open>Fork_Laws\<close>, \<open>Task_Laws\<close>: creating and copying address spaces; a forked task is the twin of its parent in a
    memory of its own.
  \<^item> \<open>Exec_Laws\<close> (segments), \<open>Reclaim_Laws\<close> (destroying an address space), \<open>Argument_Laws\<close> (copying the arguments into another
    address space), \<open>Execve_Laws\<close> (\<open>sys_execve\<close> end to end: image, stack, arguments, frame of the call, pages given back),
    \<open>Execve_Sample\<close>, a machine on which it runs, and \<open>Execve_Errors\<close>, a file that is no image.
  \<^item> \<open>Disk_Laws\<close>, \<open>Loader_Laws\<close>: the sectors arrive in the buffer, the kernel image arrives in memory.
  \<^item> \<open>Device_Laws\<close>, \<open>Files_Laws\<close>, \<open>Shell_Laws\<close>: reference counts of devices, descriptors never dangle, and the
    shell gets its three descriptors.
  \<^item> \<open>Syscall_Laws\<close>: arguments and results cross the call gate, and \<open>sbrk\<close> end to end.
  \<^item> The contracts are the locales \<open>node_queue\<close>, \<open>slot_table\<close>, \<open>page_pool\<close> and \<open>bounded_queue\<close>, each interpreted on the
    code's operations.

  \<^bold>\<open>Loops.\<close>  Loops over tables recurse on the number of entries left.  A loop that waits for a device or for a
  NUL byte is a partial function whose value \<open>None\<close> is not to return; an operation that contains it faults with
  \<open>Diverges\<close> then.  \<open>read_segment\<close> takes the size as fuel, for every round reads at least a byte.

  \<^bold>\<open>Bounds.\<close>  The kernel reaches pages and page tables by their physical addresses, which its directory maps to
  themselves up to 128 MB (\<open>memory_init_maps_kernel\<close>); a machine with more memory is outside the model.

  \<^bold>\<open>Parameters.\<close>  The addresses the linker chooses (\<open>link_t\<close>), the bytes that ports and the disk deliver, the memory map of the
  firmware, and, for the shell, \<open>getopt\<close>, \<open>atoi\<close> and the lines that \<open>fgets\<close> returns.

  \<^bold>\<open>Not modelled.\<close>  The assembly: boot sector, interrupt stubs, task switch (\<open>task_switch_from_to\<close> is the change of the
  current task and its saved flags).  The headers of newlib.  The serial port variant of the log, which is
  compiled out.  The log records a line (\<open>log_line\<close>) instead of writing to its terminal inside each operation; \<open>klog\<close> itself is in \<open>Devices\<close>.  Interrupts arrive
  between kernel operations and inside them only where the code waits.
\<close>

section \<open>The end of a task\<close>

text \<open>C26: a task that exits never runs again by itself.  \<open>sys_exit\<close> marks the caller a zombie with
  its exit status, takes it out of the ready queue and gives the processor to the next ready task; the
  order of all the others stays.  Every descriptor slot of the caller is cleared, but nothing is released: the files and the
  devices keep the references the caller had, and its pages stay allocated.\<close>

theorem sys_exit_leaves:
  fixes s :: "'a fs_state_scheme"
  assumes "sched_rel s (t # rs) ss" "curr_task s = t" "length (tk_file_table (tasks s t)) = 128"
  shows "\<exists>s' k. sys_exit status s = Switch s' k \<and> sched_rel s' rs ss \<and> curr_task s' = next_of rs \<and>
     t \<notin> set rs \<union> set ss \<and> tk_state (tasks s' t) = TASK_ZOMBIE \<and> tk_status (tasks s' t) = status \<and>
     tk_file_table (tasks s' t) = replicate 128 None \<and>
     file_tb s' = file_tb s \<and> dev_tb s' = dev_tb s \<and> paddr_alloc s' = paddr_alloc s \<and> phys s' = phys s"
proof -
  let ?s1 = "close_fds (nat TASK_OFILE_NR) 0 t s"
  let ?s3 = "upd_task t (\<lambda>x. x\<lparr>tk_status := status, tk_state := TASK_ZOMBIE\<rparr>) (irq_disable_global ?s1)"
  have slots: "tk_file_table (tasks ?s1 t) = replicate 128 None"
    using clear_slots_all [of "tk_file_table (tasks s t)" 128] assms(3) by (simp add: close_fds_eq upd_task_def TASK_OFILE_NR_def)
  have same: "eflags ?s1 = eflags s" "file_tb ?s1 = file_tb s" "dev_tb ?s1 = dev_tb s" "paddr_alloc ?s1 = paddr_alloc s"
    "phys ?s1 = phys s" by (simp_all add: close_fds_eq upd_task_def)
  have t: "t \<notin> set rs \<union> set ss" "next_of rs \<noteq> t"
    using assms(1) sched_rel_distinct [OF assms(1)] by (cases rs, auto simp: sched_rel_def)+
  have "sched_rel ?s3 ([] @ t # rs) ss" using assms(1) by (simp add: close_fds_eq)
  from task_set_block_rel [OF this] obtain h l where
    b: "task_set_block t ?s3 = ?s3\<lparr>nodes := h, ready_list := l\<rparr>" "sched_rel (?s3\<lparr>nodes := h, ready_list := l\<rparr>) rs ss" by auto
  let ?s4 = "?s3\<lparr>nodes := h, ready_list := l\<rparr>" and ?u = "next_of rs"
  have "sys_exit status s = kbind (task_dispatch ?s4) (\<lambda>_ s4. Done () (irq_leave_proection (eflags s) s4))"
    using b(1) assms(2) same(1) by (simp add: sys_exit_def task_current_def irq_enter_proection_def)
  moreover have "curr_task ?s4 = t" using assms(2) by (simp add: close_fds_eq)
  ultimately have "\<exists>k. sys_exit status s = Switch (switch_to ?u ?s4) k"
    using task_dispatch_rel [OF b(2)] t(2) by auto
  moreover have "sched_rel (switch_to ?u ?s4) rs ss" "curr_task (switch_to ?u ?s4) = ?u"
    using b(2) by simp_all
  moreover have "tk_status (tasks (switch_to ?u ?s4) t) = status" "tk_file_table (tasks (switch_to ?u ?s4) t) = replicate 128 None"
    using t(2) slots by (auto simp: switch_to_def task_switch_from_to_def upd_task_def irq_disable_global_def)
  moreover have "file_tb (switch_to ?u ?s4) = file_tb s" "dev_tb (switch_to ?u ?s4) = dev_tb s"
    "paddr_alloc (switch_to ?u ?s4) = paddr_alloc s" "phys (switch_to ?u ?s4) = phys s"
    using same by (simp_all add: switch_to_def task_switch_from_to_def upd_task_def irq_disable_global_def)
  ultimately show ?thesis using t by (intro exI [of _ "switch_to ?u ?s4"]) (auto simp: switch_to_tasks upd_task_def)
qed

text \<open>The first task exits with descriptor 0 on a terminal, beside a second ready task.\<close>

definition exit_start :: fs_state where
  "exit_start = (named [])\<lparr>nodes := nodes pair_state, ready_list := ready_list pair_state, sleep_list := sleep_list pair_state,
     tasks := (\<lambda>t. (tasks (named []) t)\<lparr>tk_file_table := (replicate 128 None)[0 := Some 0]\<rparr>),
     file_tb := (replicate FILE_TABLE_SIZE no_file)[0 := no_file\<lparr>fl_ref := 1, fl_type := FILE_TTY\<rparr>]\<rparr>"

theorem sys_exit_leaves_witness:
  "\<exists>s' k. sys_exit 3 exit_start = Switch s' k \<and> tk_state (tasks s' First_task) = TASK_ZOMBIE \<and> tk_status (tasks s' First_task) = 3 \<and>
     curr_task s' = Slot 0 \<and> tk_file_table (tasks s' First_task) = replicate 128 None \<and> fl_ref (file_tb s' ! 0) = 1"
proof -
  have "sched_rel exit_start [First_task, Slot 0] []"
    using pair_state_sched by (simp add: sched_rel_def exit_start_def)
  moreover have "curr_task exit_start = First_task" "length (tk_file_table (tasks exit_start First_task)) = 128"
    by (simp_all add: exit_start_def named_def)
  moreover have "fl_ref (file_tb exit_start ! 0) = 1" by (simp add: exit_start_def FILE_TABLE_SIZE_def)
  ultimately show ?thesis using sys_exit_leaves [of exit_start First_task "[Slot 0]" "[]" 3] by (auto simp: next_of_def)
qed

end
